(* ===== verification/Prelude.thy ===== *)
theory Prelude
  imports Main "HOL-Library.Word"
begin

text \<open>
  The shared base of the development: fallible results as a sum type with a bind,
  the bytes and code units the JavaScript code works on, and the generic list lemmas the
  components use.
\<close>

section \<open>Results\<close>

text \<open>
  A computation that can throw is a value of \<open>'e + 'a\<close>: \<open>Inl\<close> the thrown error,
  \<open>Inr\<close> the returned value. \<open>rbind\<close> sequences two of them, as statements after
  a call that may throw are sequenced.
\<close>

type_synonym ('e, 'a) res = "'e + 'a"

definition rbind :: "('e, 'a) res \<Rightarrow> ('a \<Rightarrow> ('e, 'b) res) \<Rightarrow> ('e, 'b) res" where
  "rbind m f = (case m of Inl e \<Rightarrow> Inl e | Inr x \<Rightarrow> f x)"

definition is_ok :: "('e, 'a) res \<Rightarrow> bool" where
  "is_ok m = (case m of Inl _ \<Rightarrow> False | Inr _ \<Rightarrow> True)"

lemma rbind_simps [simp]:
  "rbind (Inl e) f = Inl e"
  "rbind (Inr x) f = f x"
  by (simp_all add: rbind_def)

lemma is_ok_simps [simp]: "\<not> is_ok (Inl e)" "is_ok (Inr x)"
  by (simp_all add: is_ok_def)

lemma rbind_cong [fundef_cong]:
  "m = m' \<Longrightarrow> (\<And>x. m' = Inr x \<Longrightarrow> f x = f' x) \<Longrightarrow> rbind m f = rbind m' f'"
  by (cases m') (simp_all add: rbind_def)

lemma rbind_eq_Inr:
  "rbind m f = Inr y \<longleftrightarrow> (\<exists>x. m = Inr x \<and> f x = Inr y)"
  by (cases m) simp_all

lemma rbind_eq_Inl:
  "rbind m f = Inl e \<longleftrightarrow> m = Inl e \<or> (\<exists>x. m = Inr x \<and> f x = Inl e)"
  by (cases m) simp_all

lemma is_ok_iff: "is_ok m \<longleftrightarrow> (\<exists>x. m = Inr x)"
  by (cases m) simp_all

lemma case_rethrow_eq_Inr:
  "(case m of Inl e \<Rightarrow> Inl (g e) | Inr x \<Rightarrow> f x) = Inr y \<longleftrightarrow> (\<exists>x. m = Inr x \<and> f x = Inr y)"
  by (cases m) simp_all

lemma case_option_res_eq_Some:
  "(case m of Inl e \<Rightarrow> None | Inr x \<Rightarrow> Some (f x)) = Some y \<longleftrightarrow> (\<exists>x. m = Inr x \<and> f x = y)"
  by (cases m) simp_all

named_theorems res_simps \<open>how a successful composite computation decomposes\<close>
declare rbind_eq_Inr [res_simps] rbind_eq_Inl [res_simps] case_rethrow_eq_Inr [res_simps]
  case_option_res_eq_Some [res_simps]

section \<open>Bytes and code units\<close>

text \<open>
  A \<open>Uint8Array\<close> is a list of bytes; storing a number into it keeps its low eight bits
  (\<open>byte_of\<close>). A JavaScript string is a list of UTF-16 code units; \<open>js\<close> writes
  an ASCII literal.
\<close>

type_synonym byte = "8 word"
type_synonym jstring = "16 word list"

definition byte_of :: "nat \<Rightarrow> byte" where
  "byte_of n = of_nat n"

definition js :: "string \<Rightarrow> jstring" where
  "js s = map (\<lambda>c. of_char c) s"

lemma unat_byte_of: "unat (byte_of n) = n mod 256"
  by (simp add: byte_of_def unat_of_nat)

lemma unat_byte_of_small [simp]: "n < 256 \<Longrightarrow> unat (byte_of n) = n"
  by (simp add: unat_byte_of)

lemma unat_byte_lt [simp]: "unat (b :: byte) < 256"
  using unsigned_less [of b, where ?'a = nat] by simp

lemma byte_of_unat [simp]: "byte_of (unat b) = b"
  by (simp add: byte_of_def)

lemma byte_eqI: "unat (a :: byte) = unat b \<Longrightarrow> a = b"
  by (simp add: word_unat_eq_iff)

lemma unit_eqI: "unat (a :: 16 word) = unat b \<Longrightarrow> a = b"
  by (simp add: word_unat_eq_iff)

lemma unat_unit_lt: "unat (u :: 16 word) < 65536"
  using unsigned_less [of u, where ?'a = nat] by simp

section \<open>Lists\<close>

lemma take_eq_append: "length xs = n \<Longrightarrow> take n (xs @ ys) = xs"
  by simp

lemma drop_eq_append: "length xs = n \<Longrightarrow> drop n (xs @ ys) = ys"
  by simp

lemma length_replicate_append_take:
  "n \<le> length xs \<Longrightarrow> length (take n xs @ ys @ drop (n + length ys) xs) = max (length xs) (n + length ys)"
  by auto

end
