(* ===== verification/Js_Text.thy ===== *)
theory Js_Text
  imports Prelude
begin

text \<open>
  The text side of the JavaScript platform the sources rely on: a string as UTF-16 code
  units, its code points (as \<^verbatim>\<open>Array.from(s, c => c.codePointAt(0))\<close> lists them), the UTF-8
  bytes \<^verbatim>\<open>TextEncoder.encode\<close> produces (a lone surrogate becomes U+FFFD) and the strict
  \<^verbatim>\<open>TextDecoder("utf-8", { fatal: true, ignoreBOM: true })\<close>. The lemmas show that the two
  are inverse on strings without lone surrogates and that code points determine a string.
\<close>

section \<open>UTF-16\<close>

definition is_high :: "nat \<Rightarrow> bool" where
  "is_high u \<longleftrightarrow> 0xD800 \<le> u \<and> u < 0xDC00"

definition is_low :: "nat \<Rightarrow> bool" where
  "is_low u \<longleftrightarrow> 0xDC00 \<le> u \<and> u < 0xE000"

definition is_surrogate :: "nat \<Rightarrow> bool" where
  "is_surrogate u \<longleftrightarrow> 0xD800 \<le> u \<and> u < 0xE000"

definition pair_cp :: "nat \<Rightarrow> nat \<Rightarrow> nat" where
  "pair_cp h l = 0x10000 + (h - 0xD800) * 0x400 + (l - 0xDC00)"

text \<open>The code points of a string; a lone surrogate is its own code point.\<close>

fun code_points :: "jstring \<Rightarrow> nat list" where
  "code_points [] = []"
| "code_points [u] = [unat u]"
| "code_points (u # v # us) =
     (if is_high (unat u) \<and> is_low (unat v) then pair_cp (unat u) (unat v) # code_points us
      else unat u # code_points (v # us))"

text \<open>The code units of one code point (\<^verbatim>\<open>String.fromCodePoint\<close>).\<close>

definition utf16_cp :: "nat \<Rightarrow> jstring" where
  "utf16_cp c =
     (if c < 0x10000 then [of_nat c]
      else [of_nat (0xD800 + (c - 0x10000) div 0x400), of_nat (0xDC00 + (c - 0x10000) mod 0x400)])"

definition utf16 :: "nat list \<Rightarrow> jstring" where
  "utf16 cs = concat (map utf16_cp cs)"

definition scalar :: "nat \<Rightarrow> bool" where
  "scalar c \<longleftrightarrow> c < 0x110000 \<and> \<not> is_surrogate c"

text \<open>A string without lone surrogates.\<close>

definition well_formed_text :: "jstring \<Rightarrow> bool" where
  "well_formed_text s \<longleftrightarrow> list_all scalar (code_points s)"

section \<open>UTF-8\<close>

definition utf8_cp :: "nat \<Rightarrow> byte list" where
  "utf8_cp c =
     (if c < 0x80 then [byte_of c]
      else if c < 0x800 then [byte_of (0xC0 + c div 0x40), byte_of (0x80 + c mod 0x40)]
      else if c < 0x10000 then
        [byte_of (0xE0 + c div 0x1000), byte_of (0x80 + c div 0x40 mod 0x40), byte_of (0x80 + c mod 0x40)]
      else
        [byte_of (0xF0 + c div 0x40000), byte_of (0x80 + c div 0x1000 mod 0x40),
         byte_of (0x80 + c div 0x40 mod 0x40), byte_of (0x80 + c mod 0x40)])"

definition to_scalar :: "nat \<Rightarrow> nat" where
  "to_scalar c = (if is_surrogate c then 0xFFFD else c)"

definition text_encode :: "jstring \<Rightarrow> byte list" where
  "text_encode s = concat (map utf8_cp (map to_scalar (code_points s)))"

definition is_cont :: "byte \<Rightarrow> bool" where
  "is_cont b \<longleftrightarrow> 0x80 \<le> unat b \<and> unat b < 0xC0"

definition cont :: "byte \<Rightarrow> nat" where
  "cont b = unat b - 0x80"

text \<open>
  One scalar value of a UTF-8 byte sequence and the bytes after it; \<open>None\<close> for an
  overlong form, a surrogate, a value above U+10FFFF, a stray or missing continuation.
\<close>

definition utf8_next :: "byte list \<Rightarrow> (nat \<times> byte list) option" where
  "utf8_next bs = (case bs of [] \<Rightarrow> None | b # r \<Rightarrow>
     if unat b < 0x80 then Some (unat b, r)
     else if unat b < 0xC0 then None
     else if unat b < 0xE0 then
       (case r of b1 # r' \<Rightarrow>
          let c = (unat b - 0xC0) * 0x40 + cont b1
          in if is_cont b1 \<and> 0x80 \<le> c then Some (c, r') else None
        | _ \<Rightarrow> None)
     else if unat b < 0xF0 then
       (case r of b1 # b2 # r' \<Rightarrow>
          let c = (unat b - 0xE0) * 0x1000 + cont b1 * 0x40 + cont b2
          in if is_cont b1 \<and> is_cont b2 \<and> 0x800 \<le> c \<and> \<not> is_surrogate c then Some (c, r') else None
        | _ \<Rightarrow> None)
     else if unat b < 0xF8 then
       (case r of b1 # b2 # b3 # r' \<Rightarrow>
          let c = (unat b - 0xF0) * 0x40000 + cont b1 * 0x1000 + cont b2 * 0x40 + cont b3
          in if is_cont b1 \<and> is_cont b2 \<and> is_cont b3 \<and> 0x10000 \<le> c \<and> c < 0x110000 then Some (c, r') else None
        | _ \<Rightarrow> None)
     else None)"

lemma utf8_next_shorter: "utf8_next bs = Some (c, r) \<Longrightarrow> length r < length bs"
  by (auto simp: utf8_next_def Let_def split: list.splits if_splits)

function utf8_points :: "byte list \<Rightarrow> nat list option" where
  "utf8_points bs =
     (if bs = [] then Some []
      else case utf8_next bs of None \<Rightarrow> None
           | Some (c, r) \<Rightarrow> map_option (Cons c) (utf8_points r))"
  by pat_completeness auto
termination
  by (relation "measure length") (auto dest: utf8_next_shorter)

declare utf8_points.simps [simp del]

definition text_decode :: "byte list \<Rightarrow> jstring option" where
  "text_decode bs = map_option utf16 (utf8_points bs)"

section \<open>Round trips\<close>

text \<open>A number and its base-64 digits.\<close>

lemma base64_2: "(c :: nat) div 4096 * 4096 + c div 64 mod 64 * 64 + c mod 64 = c"
proof -
  have "c div 4096 = c div 64 div 64" by (simp flip: div_mult2_eq)
  then have "c div 4096 * 64 + c div 64 mod 64 = c div 64" by simp
  then have "(c div 4096 * 64 + c div 64 mod 64) * 64 + c mod 64 = c" by simp
  then show ?thesis by (simp add: algebra_simps)
qed

lemma base64_3: "(c :: nat) div 262144 * 262144 + c div 4096 mod 64 * 4096 + c div 64 mod 64 * 64 + c mod 64 = c"
proof -
  have "c div 64 div 4096 = c div 262144" "c div 64 div 64 = c div 4096" by (simp_all flip: div_mult2_eq)
  then have "c div 262144 * 4096 + c div 4096 mod 64 * 64 + c div 64 mod 64 = c div 64"
    using base64_2 [of "c div 64"] by simp
  then have "(c div 262144 * 4096 + c div 4096 mod 64 * 64 + c div 64 mod 64) * 64 + c mod 64 = c" by simp
  then show ?thesis by (simp add: algebra_simps)
qed

lemma low_digit: "(z :: nat) < b \<Longrightarrow> (q * b + z) div b = q" "(z :: nat) < b \<Longrightarrow> (q * b + z) mod b = z"
  by simp_all

lemma base64_digits_2:
  assumes "y < 64" "z < 64" "c = x * 4096 + y * 64 + (z :: nat)"
  shows "c div 4096 = x" "c div 64 mod 64 = y" "c mod 64 = z"
proof -
  have c: "c = (x * 64 + y) * 64 + z" using assms(3) by (simp add: algebra_simps)
  have d: "c div 64 = x * 64 + y" and m: "c mod 64 = z" unfolding c by (rule low_digit [OF assms(2)])+
  show "c mod 64 = z" by (rule m)
  show "c div 64 mod 64 = y" unfolding d by (rule low_digit [OF assms(1)])
  have "c div 4096 = c div 64 div 64" by (simp flip: div_mult2_eq)
  then show "c div 4096 = x" unfolding d by (simp add: low_digit(1) [OF assms(1)])
qed

lemma base64_digits_3:
  assumes "y < 64" "z < 64" "w < 64" "c = x * 262144 + y * 4096 + z * 64 + (w :: nat)"
  shows "c div 262144 = x" "c div 4096 mod 64 = y" "c div 64 mod 64 = z" "c mod 64 = w"
proof -
  have c: "c = (x * 4096 + y * 64 + z) * 64 + w" using assms(4) by (simp add: algebra_simps)
  have d: "c div 64 = x * 4096 + y * 64 + z" and m: "c mod 64 = w"
    unfolding c by (rule low_digit [OF assms(3)])+
  have q: "c div 64 div 4096 = c div 262144" "c div 64 div 64 = c div 4096" by (simp_all flip: div_mult2_eq)
  show "c mod 64 = w" by (rule m)
  show "c div 262144 = x" "c div 4096 mod 64 = y" "c div 64 mod 64 = z"
    using base64_digits_2 [OF assms(1,2) d] by (simp_all add: q)
qed

lemma utf16_cp_code_points:
  assumes "c < 0x110000" "c < 0x10000 \<longrightarrow> \<not> is_surrogate c"
  shows "code_points (utf16_cp c @ s) = c # code_points s"
proof (cases "c < 0x10000")
  case True
  then have u: "unat (of_nat c :: 16 word) = c" by (simp add: unat_of_nat)
  have "\<not> is_high c" using assms(2) True by (auto simp: is_high_def is_surrogate_def)
  then show ?thesis using True u by (cases s) (simp_all add: utf16_cp_def)
next
  case False
  define h l where "h = 0xD800 + (c - 0x10000) div 0x400" and "l = 0xDC00 + (c - 0x10000) mod 0x400"
  have hb: "h < 0xDC00" and lb: "l < 0xE000" using assms(1) by (auto simp: h_def l_def)
  have hu: "unat (of_nat h :: 16 word) = h" and lu: "unat (of_nat l :: 16 word) = l"
    using hb lb by (simp_all add: unat_of_nat)
  have p: "pair_cp h l = c" using False by (simp add: pair_cp_def h_def l_def)
  have "is_high h" "is_low l" using hb lb by (auto simp: is_high_def is_low_def h_def l_def)
  then show ?thesis using False hu lu p by (simp add: utf16_cp_def h_def [symmetric] l_def [symmetric])
qed

lemma code_points_utf16: "list_all scalar cs \<Longrightarrow> code_points (utf16 cs) = cs"
  by (induction cs) (simp_all add: utf16_def utf16_cp_code_points scalar_def)

lemma pair_cp_units:
  assumes "is_high h" "is_low l"
  shows "utf16_cp (pair_cp h l) = [of_nat h, of_nat l]" "0x10000 \<le> pair_cp h l" "pair_cp h l < 0x110000"
proof -
  define a b where "a = h - 0xD800" and "b = l - 0xDC00"
  have ab: "a < 0x400" "b < 0x400" "h = 0xD800 + a" "l = 0xDC00 + b"
    using assms by (auto simp: a_def b_def is_high_def is_low_def)
  have p: "pair_cp h l = 0x10000 + (a * 0x400 + b)" by (simp add: pair_cp_def a_def b_def)
  have q: "(a * 0x400 + b) div 0x400 = a" "(a * 0x400 + b) mod 0x400 = b" using ab(2) by simp_all
  show "utf16_cp (pair_cp h l) = [of_nat h, of_nat l]"
    unfolding utf16_cp_def p by (simp only: add_diff_cancel_left' q ab(3,4)) simp
  show "0x10000 \<le> pair_cp h l" "pair_cp h l < 0x110000" using ab(1,2) by (simp_all add: p)
qed

lemma unit_of_nat_unat [simp]: "(of_nat (unat (u :: 16 word)) :: 16 word) = u"
  by simp

lemma utf16_code_points: "utf16 (code_points s) = s"
proof (induction s rule: code_points.induct)
  case (3 u v us)
  show ?case
  proof (cases "is_high (unat u) \<and> is_low (unat v)")
    case True
    with 3(1) show ?thesis by (simp add: utf16_def pair_cp_units)
  next
    case False
    then have "code_points (u # v # us) = unat u # code_points (v # us)" by auto
    with 3(2) [OF False] show ?thesis by (simp add: utf16_def utf16_cp_def unat_unit_lt)
  qed
qed (simp_all add: utf16_def utf16_cp_def unat_unit_lt)

text \<open>The code points of a string determine it.\<close>

lemma code_points_inject: "code_points s = code_points t \<longleftrightarrow> s = t"
  by (metis utf16_code_points)

lemma utf8_next_cp:
  assumes "scalar c"
  shows "utf8_next (utf8_cp c @ bs) = Some (c, bs)"
proof -
  have lt: "c < 0x110000" and ns: "\<not> is_surrogate c" using assms by (simp_all add: scalar_def)
  consider "c < 0x80" | "0x80 \<le> c" "c < 0x800" | "0x800 \<le> c" "c < 0x10000" | "0x10000 \<le> c" by linarith
  then show ?thesis
  proof cases
    case 1
    then show ?thesis by (simp add: utf8_cp_def utf8_next_def)
  next
    case 2
    have "c div 64 < 32" using 2 by simp
    then show ?thesis using 2
      by (simp add: utf8_cp_def utf8_next_def is_cont_def cont_def Let_def)
  next
    case 3
    have "c div 4096 < 16" using 3 by simp
    then show ?thesis using 3 ns base64_2 [of c]
      by (simp add: utf8_cp_def utf8_next_def is_cont_def cont_def Let_def)
  next
    case 4
    have "c div 262144 < 5" using lt by simp
    then show ?thesis using 4 lt base64_3 [of c]
      by (simp add: utf8_cp_def utf8_next_def is_cont_def cont_def Let_def)
  qed
qed

lemma utf8_cp_nonempty [simp]: "utf8_cp c \<noteq> []"
  by (simp add: utf8_cp_def)

lemma utf8_points_encode: "list_all scalar cs \<Longrightarrow> utf8_points (concat (map utf8_cp cs)) = Some cs"
proof (induction cs)
  case Nil
  show ?case by (simp add: utf8_points.simps [of "[]"])
next
  case (Cons c cs)
  then show ?case by (simp add: utf8_points.simps [of "utf8_cp c @ x" for x] utf8_next_cp)
qed

lemma to_scalar_scalar: "c < 0x110000 \<Longrightarrow> scalar (to_scalar c)"
  by (auto simp: scalar_def to_scalar_def is_surrogate_def)

lemma code_points_bound: "c \<in> set (code_points s) \<Longrightarrow> c < 0x110000"
proof (induction s rule: code_points.induct)
  case (2 u)
  then show ?case using unat_unit_lt [of u] by simp
next
  case (3 u v us)
  show ?case
  proof (cases "is_high (unat u) \<and> is_low (unat v)")
    case True
    then show ?thesis using 3 pair_cp_units(3) [of "unat u" "unat v"] by auto
  next
    case False
    then show ?thesis using 3(2) 3(3) unat_unit_lt [of u] by auto
  qed
qed simp

text \<open>
  What the strict decoder makes of the encoder's bytes: the string with every lone surrogate
  replaced; so the comparison the CBOR writer makes tells exactly whether the string was well
  formed.
\<close>

lemma text_decode_encode:
  "text_decode (text_encode s) = Some (utf16 (map to_scalar (code_points s)))"
proof -
  have "list_all scalar (map to_scalar (code_points s))"
    using code_points_bound [of _ s] by (auto simp: list_all_iff to_scalar_scalar)
  from utf8_points_encode [OF this] show ?thesis by (simp add: text_decode_def text_encode_def)
qed

lemma text_roundtrip_iff: "text_decode (text_encode s) = Some s \<longleftrightarrow> well_formed_text s"
proof
  assume "text_decode (text_encode s) = Some s"
  then have "utf16 (map to_scalar (code_points s)) = s" by (simp add: text_decode_encode)
  moreover have "list_all scalar (map to_scalar (code_points s))"
    using code_points_bound [of _ s] by (auto simp: list_all_iff to_scalar_scalar)
  ultimately have "code_points s = map to_scalar (code_points s)" by (metis code_points_utf16)
  with \<open>list_all scalar (map to_scalar (code_points s))\<close> show "well_formed_text s"
    unfolding well_formed_text_def by simp
next
  assume "well_formed_text s"
  then have "map to_scalar (code_points s) = code_points s"
    by (auto simp: well_formed_text_def list_all_iff scalar_def to_scalar_def intro!: map_idI)
  then show "text_decode (text_encode s) = Some s"
    by (simp add: text_decode_encode utf16_code_points)
qed

text \<open>Conversely, bytes the strict decoder accepts are the encoding of the string it returns.\<close>

lemma is_contD: "is_cont b \<Longrightarrow> cont b < 64" "is_cont b \<Longrightarrow> unat b = 0x80 + cont b"
  by (auto simp: is_cont_def cont_def)

lemma utf8_next_inverse:
  assumes "utf8_next bs = Some (c, r)"
  shows "scalar c" "bs = utf8_cp c @ r"
proof -
  obtain b t where bs: "bs = b # t" using assms by (cases bs) (simp_all add: utf8_next_def)
  have bb: "unat b < 256" by simp
  consider "unat b < 0x80" | "0xC0 \<le> unat b" "unat b < 0xE0" | "0xE0 \<le> unat b" "unat b < 0xF0"
    | "0xF0 \<le> unat b" "unat b < 0xF8"
    using assms by (fastforce simp: bs utf8_next_def split: if_splits)
  then have "scalar c \<and> bs = utf8_cp c @ r"
  proof cases
    case 1
    then show ?thesis using assms
      by (auto simp: bs utf8_next_def utf8_cp_def scalar_def is_surrogate_def)
  next
    case 2
    then obtain b1 where t: "t = b1 # r" "is_cont b1" "c = (unat b - 0xC0) * 0x40 + cont b1" "0x80 \<le> c"
      using assms by (auto simp: bs utf8_next_def Let_def split: list.splits if_splits)
    define x y where "x = unat b - 0xC0" and "y = cont b1"
    have xy: "x < 32" "y < 64" "unat b = 0xC0 + x" "unat b1 = 0x80 + y" "c = x * 64 + y"
      using 2 t(3) is_contD [OF t(2)] unfolding x_def y_def by linarith+
    have "b = byte_of (0xC0 + x)" "b1 = byte_of (0x80 + y)" using xy by (metis byte_of_unat)+
    then show ?thesis using xy t by (auto simp: bs utf8_cp_def scalar_def is_surrogate_def)
  next
    case 3
    then obtain b1 b2 where t: "t = b1 # b2 # r" "is_cont b1" "is_cont b2"
        "c = (unat b - 0xE0) * 0x1000 + cont b1 * 0x40 + cont b2" "0x800 \<le> c" "\<not> is_surrogate c"
      using assms by (auto simp: bs utf8_next_def Let_def split: list.splits if_splits)
    define x y z where "x = unat b - 0xE0" and "y = cont b1" and "z = cont b2"
    have xy: "x < 16" "y < 64" "z < 64" "unat b = 0xE0 + x" "unat b1 = 0x80 + y" "unat b2 = 0x80 + z"
      "c = x * 4096 + y * 64 + z"
      using 3 t(4) is_contD [OF t(2)] is_contD [OF t(3)] unfolding x_def y_def z_def by linarith+
    have "b = byte_of (0xE0 + x)" "b1 = byte_of (0x80 + y)" "b2 = byte_of (0x80 + z)"
      using xy by (metis byte_of_unat)+
    moreover have "c div 4096 = x" "c div 64 mod 64 = y" "c mod 64 = z"
      using base64_digits_2 [OF xy(2,3,7)] .
    moreover have "c < 0x10000" using xy(1-3) by (simp add: xy(7))
    ultimately show ?thesis using t(1,5,6) by (simp add: bs utf8_cp_def scalar_def)
  next
    case 4
    then obtain b1 b2 b3 where t: "t = b1 # b2 # b3 # r" "is_cont b1" "is_cont b2" "is_cont b3"
        "c = (unat b - 0xF0) * 0x40000 + cont b1 * 0x1000 + cont b2 * 0x40 + cont b3" "0x10000 \<le> c" "c < 0x110000"
      using assms by (auto simp: bs utf8_next_def Let_def split: list.splits if_splits)
    define x y z w where "x = unat b - 0xF0" and "y = cont b1" and "z = cont b2" and "w = cont b3"
    have xy: "x < 8" "y < 64" "z < 64" "w < 64" "unat b = 0xF0 + x" "unat b1 = 0x80 + y" "unat b2 = 0x80 + z"
      "unat b3 = 0x80 + w" "c = x * 262144 + y * 4096 + z * 64 + w"
      using 4 t(5) is_contD [OF t(2)] is_contD [OF t(3)] is_contD [OF t(4)]
      unfolding x_def y_def z_def w_def by linarith+
    have "b = byte_of (0xF0 + x)" "b1 = byte_of (0x80 + y)" "b2 = byte_of (0x80 + z)" "b3 = byte_of (0x80 + w)"
      using xy by (metis byte_of_unat)+
    moreover have "c div 262144 = x" "c div 4096 mod 64 = y" "c div 64 mod 64 = z" "c mod 64 = w"
      using base64_digits_3 [OF xy(2-4,9)] .
    ultimately show ?thesis using t(1,6,7) by (simp add: bs utf8_cp_def scalar_def is_surrogate_def)
  qed
  then show "scalar c" "bs = utf8_cp c @ r" by simp_all
qed

lemma utf8_points_inverse:
  "utf8_points bs = Some cs \<Longrightarrow> list_all scalar cs \<and> bs = concat (map utf8_cp cs)"
proof (induction bs arbitrary: cs rule: utf8_points.induct)
  case (1 bs)
  show ?case
  proof (cases "bs = []")
    case True
    then show ?thesis using 1(2) by (simp add: utf8_points.simps [of "[]"])
  next
    case False
    then obtain c r cs' where n: "utf8_next bs = Some (c, r)" "utf8_points r = Some cs'" "cs = c # cs'"
      using 1(2) by (auto simp: utf8_points.simps [of bs] split: option.splits)
    with False 1(1) have "list_all scalar cs' \<and> r = concat (map utf8_cp cs')" by simp
    with utf8_next_inverse [OF n(1)] n(3) show ?thesis by simp
  qed
qed

lemma text_encode_decode:
  assumes "text_decode bs = Some s"
  shows "text_encode s = bs" "well_formed_text s"
proof -
  obtain cs where cs: "utf8_points bs = Some cs" "s = utf16 cs" using assms by (auto simp: text_decode_def)
  with utf8_points_inverse have sc: "list_all scalar cs" and bs: "bs = concat (map utf8_cp cs)" by auto
  have cp: "code_points s = cs" using sc cs(2) by (simp add: code_points_utf16)
  then show "well_formed_text s" using sc by (simp add: well_formed_text_def)
  have "map to_scalar cs = cs"
    using sc by (auto simp: list_all_iff scalar_def to_scalar_def intro!: map_idI)
  then show "text_encode s = bs" by (simp add: text_encode_def cp bs)
qed

section \<open>ASCII\<close>

definition ascii :: "jstring \<Rightarrow> bool" where
  "ascii s \<longleftrightarrow> list_all (\<lambda>u. unat u < 128) s"

lemma code_points_ascii: "ascii s \<Longrightarrow> code_points s = map unat s"
  by (induction s rule: code_points.induct) (auto simp: ascii_def is_high_def)

lemma text_encode_ascii: "ascii s \<Longrightarrow> text_encode s = map (\<lambda>u. byte_of (unat u)) s"
  by (simp add: text_encode_def code_points_ascii)
    (induction s, auto simp: ascii_def to_scalar_def is_surrogate_def utf8_cp_def)

lemma well_formed_ascii: "ascii s \<Longrightarrow> well_formed_text s"
  by (simp add: well_formed_text_def code_points_ascii) (auto simp: ascii_def list_all_iff scalar_def is_surrogate_def)

end
