(* ===== verification/Js_Values.thy ===== *)
theory Js_Values
  imports Js_Text
begin

text \<open>
  The JavaScript values the sources handle: numbers (an integer by its value, every other double
  by its IEEE 754 bits), ordinary objects as association lists in own-property order, and
  the dynamic values a caller may pass to an encoder. The lemmas on \<open>obj_put\<close> say that
  defining properties keeps the specified key order and behaves as a map update.
\<close>

section \<open>Numbers\<close>

text \<open>
  \<open>JInt i\<close> is the double with the integral value \<open>i\<close>, negative zero excepted;
  \<open>JDbl b\<close> is any other double (a fraction, negative zero, an infinity, a NaN), by its
  64 bits. \<open>number_of_bits\<close> reads a bit pattern (\<^verbatim>\<open>DataView.getFloat64\<close>).
\<close>

datatype jnum = JInt int | JDbl "64 word"

definition dbl_exp :: "64 word \<Rightarrow> nat" where
  "dbl_exp b = unat b div 2 ^ 52 mod 2048"

definition dbl_man :: "64 word \<Rightarrow> nat" where
  "dbl_man b = unat b mod 2 ^ 52"

definition dbl_sgn :: "64 word \<Rightarrow> int" where
  "dbl_sgn b = (if unat b < 2 ^ 63 then 1 else -1)"

definition neg_zero :: "64 word" where
  "neg_zero = 0x8000000000000000"

definition dbl_finite :: "64 word \<Rightarrow> bool" where
  "dbl_finite b \<longleftrightarrow> dbl_exp b \<noteq> 2047"

definition dbl_int :: "64 word \<Rightarrow> int option" where
  "dbl_int b =
     (if dbl_exp b = 2047 then None
      else if dbl_exp b = 0 then (if dbl_man b = 0 then Some 0 else None)
      else let m = 2 ^ 52 + dbl_man b in
        if 1075 \<le> dbl_exp b then Some (dbl_sgn b * int (m * 2 ^ (dbl_exp b - 1075)))
        else if 2 ^ (1075 - dbl_exp b) dvd m then Some (dbl_sgn b * int (m div 2 ^ (1075 - dbl_exp b)))
        else None)"

definition number_of_bits :: "64 word \<Rightarrow> jnum" where
  "number_of_bits b =
     (if b = neg_zero then JDbl b else case dbl_int b of Some i \<Rightarrow> JInt i | None \<Rightarrow> JDbl b)"

definition max_safe :: int where
  "max_safe = 9007199254740991"

definition safe_int :: "int \<Rightarrow> bool" where
  "safe_int i \<longleftrightarrow> \<bar>i\<bar> \<le> max_safe"

fun num_finite :: "jnum \<Rightarrow> bool" where
  "num_finite (JInt i) = True"
| "num_finite (JDbl b) = dbl_finite b"

text \<open>The representation is canonical: a bit pattern with an integral value is a \<open>JInt\<close>.\<close>

fun wf_num :: "jnum \<Rightarrow> bool" where
  "wf_num (JInt i) = True"
| "wf_num (JDbl b) = (number_of_bits b = JDbl b)"

lemma wf_number_of_bits: "wf_num (number_of_bits b)"
  by (auto simp: number_of_bits_def split: option.splits)

text \<open>The strict comparison \<^verbatim>\<open>===\<close> of numbers: a NaN differs from itself, the zeros agree.\<close>

definition num_zero :: "jnum \<Rightarrow> bool" where
  "num_zero n \<longleftrightarrow> n = JInt 0 \<or> n = JDbl neg_zero"

definition num_nan :: "jnum \<Rightarrow> bool" where
  "num_nan n = (case n of JInt _ \<Rightarrow> False | JDbl b \<Rightarrow> dbl_exp b = 2047 \<and> dbl_man b \<noteq> 0)"

definition num_eq :: "jnum \<Rightarrow> jnum \<Rightarrow> bool" where
  "num_eq a b \<longleftrightarrow> (num_zero a \<and> num_zero b) \<or> (a = b \<and> \<not> num_nan a)"

lemma num_eq_refl: "\<not> num_nan a \<Longrightarrow> num_eq a a"
  by (simp add: num_eq_def)

lemma num_eq_sym: "num_eq a b \<Longrightarrow> num_eq b a"
  by (auto simp: num_eq_def)

lemma num_eq_trans: "num_eq a b \<Longrightarrow> num_eq b c \<Longrightarrow> num_eq a c"
  by (auto simp: num_eq_def)

section \<open>Own properties\<close>

text \<open>
  An array index key: a canonical decimal numeral below $2^{32} - 1$. Own keys are listed with
  the array indices first, ascending, then the others in the order they were created.
\<close>

fun decimal :: "nat \<Rightarrow> jstring \<Rightarrow> nat option" where
  "decimal acc [] = Some acc"
| "decimal acc (u # us) =
     (if 48 \<le> unat u \<and> unat u \<le> 57 then decimal (acc * 10 + (unat u - 48)) us else None)"

definition array_index :: "jstring \<Rightarrow> nat option" where
  "array_index k =
     (case k of [] \<Rightarrow> None
      | u # us \<Rightarrow>
        if unat u = 48 then (if us = [] then Some 0 else None)
        else case decimal 0 k of None \<Rightarrow> None | Some n \<Rightarrow> if n < 4294967295 then Some n else None)"

definition key_before :: "jstring \<Rightarrow> jstring \<Rightarrow> bool" where
  "key_before k k' =
     (case array_index k of None \<Rightarrow> False
      | Some i \<Rightarrow> (case array_index k' of None \<Rightarrow> True | Some j \<Rightarrow> i < j))"

definition key_order :: "jstring \<Rightarrow> jstring \<Rightarrow> bool" where
  "key_order k k' \<longleftrightarrow> k \<noteq> k' \<and> \<not> key_before k' k"

definition own_keys :: "(jstring \<times> 'v) list \<Rightarrow> bool" where
  "own_keys ps \<longleftrightarrow> sorted_wrt key_order (map fst ps)"

text \<open>Defining a property: in place when it exists, else at the position its key has.\<close>

fun obj_insert :: "jstring \<Rightarrow> 'v \<Rightarrow> (jstring \<times> 'v) list \<Rightarrow> (jstring \<times> 'v) list" where
  "obj_insert k v [] = [(k, v)]"
| "obj_insert k v ((k', v') # ps) =
     (if key_before k k' then (k, v) # (k', v') # ps else (k', v') # obj_insert k v ps)"

definition obj_put :: "jstring \<Rightarrow> 'v \<Rightarrow> (jstring \<times> 'v) list \<Rightarrow> (jstring \<times> 'v) list" where
  "obj_put k v ps =
     (if k \<in> fst ` set ps then map (\<lambda>(k', v'). (k', if k' = k then v else v')) ps
      else obj_insert k v ps)"

definition obj_delete :: "jstring \<Rightarrow> (jstring \<times> 'v) list \<Rightarrow> (jstring \<times> 'v) list" where
  "obj_delete k ps = filter (\<lambda>(k', v'). k' \<noteq> k) ps"

lemma own_keys_distinct: "own_keys ps \<Longrightarrow> distinct (map fst ps)"
  unfolding own_keys_def
  by (induction ps) (auto simp: key_order_def)

lemma own_keys_Nil [simp]: "own_keys []"
  by (simp add: own_keys_def)

lemma set_obj_insert: "set (obj_insert k v ps) = insert (k, v) (set ps)"
  by (induction k v ps rule: obj_insert.induct) auto

lemma obj_insert_last:
  "\<forall>k' \<in> fst ` set ps. \<not> key_before k k' \<Longrightarrow> obj_insert k v ps = ps @ [(k, v)]"
  by (induction k v ps rule: obj_insert.induct) auto

lemma map_of_obj_insert:
  "k \<notin> fst ` set ps \<Longrightarrow> map_of (obj_insert k v ps) = (map_of ps)(k \<mapsto> v)"
  by (induction k v ps rule: obj_insert.induct) (auto simp: fun_eq_iff)

lemma map_of_map_upd:
  "k \<in> fst ` set ps \<Longrightarrow> map_of (map (\<lambda>(k', v'). (k', if k' = k then v else v')) ps) = (map_of ps)(k \<mapsto> v)"
proof (induction ps)
  case (Cons p ps)
  obtain k' v' where p: "p = (k', v')" by (cases p)
  show ?case
  proof (cases "k \<in> fst ` set ps")
    case True
    with Cons.IH show ?thesis by (auto simp: p fun_eq_iff)
  next
    case False
    then have "map (\<lambda>(k', v'). (k', if k' = k then v else v')) ps = ps"
      by (intro map_idI) force
    with Cons.prems False show ?thesis by (auto simp: p fun_eq_iff)
  qed
qed simp

text \<open>As a map, defining and deleting properties are update and removal.\<close>

lemma map_of_obj_put [simp]: "map_of (obj_put k v ps) = (map_of ps)(k \<mapsto> v)"
  by (simp add: obj_put_def map_of_map_upd map_of_obj_insert)

lemma map_of_obj_delete [simp]: "map_of (obj_delete k ps) = (map_of ps)(k := None)"
  by (induction ps) (auto simp: obj_delete_def fun_eq_iff)

lemma keys_obj_put: "fst ` set (obj_put k v ps) = insert k (fst ` set ps)"
  by (force simp: obj_put_def set_obj_insert)

lemma keys_obj_delete: "fst ` set (obj_delete k ps) = fst ` set ps - {k}"
  by (force simp: obj_delete_def)

lemma key_before_order: "key_before k k' \<Longrightarrow> key_order k k'"
  by (auto simp: key_order_def key_before_def split: option.splits)

lemma key_before_trans: "key_before k a \<Longrightarrow> key_order a b \<Longrightarrow> a \<noteq> k \<Longrightarrow> b \<noteq> k \<Longrightarrow> key_order k b"
  by (auto simp: key_order_def key_before_def split: option.splits)

lemma own_keys_obj_insert:
  "own_keys ps \<Longrightarrow> k \<notin> fst ` set ps \<Longrightarrow> own_keys (obj_insert k v ps)"
proof (induction k v ps rule: obj_insert.induct)
  case (2 k v k' v' ps)
  have tail: "own_keys ps" and hd: "\<forall>x \<in> fst ` set ps. key_order k' x"
    using 2(2) by (auto simp: own_keys_def)
  have ne: "k' \<noteq> k" "k \<notin> fst ` set ps" using 2(3) by auto
  show ?case
  proof (cases "key_before k k'")
    case True
    have "key_order k x" if "x \<in> fst ` set ps" for x
      using key_before_trans [OF True, of x] hd that ne by blast
    with True hd tail show ?thesis by (auto simp: own_keys_def key_before_order)
  next
    case False
    with 2(1) tail ne have "own_keys (obj_insert k v ps)" by blast
    moreover have "key_order k' k" using False ne by (simp add: key_order_def)
    ultimately show ?thesis using False hd by (auto simp: own_keys_def set_obj_insert)
  qed
qed (simp add: own_keys_def)

lemma own_keys_obj_put [simp]: "own_keys ps \<Longrightarrow> own_keys (obj_put k v ps)"
proof (cases "k \<in> fst ` set ps")
  case True
  assume "own_keys ps"
  moreover have "map fst (map (\<lambda>(k', v'). (k', if k' = k then v else v')) ps) = map fst ps" by auto
  ultimately show ?thesis using True unfolding obj_put_def own_keys_def by (simp del: map_map)
qed (simp add: obj_put_def own_keys_obj_insert)

lemma own_keys_obj_delete [simp]: "own_keys ps \<Longrightarrow> own_keys (obj_delete k ps)"
  by (induction ps) (auto simp: own_keys_def obj_delete_def)

text \<open>Creating the properties of an object in its key order rebuilds it.\<close>

lemma obj_put_snoc:
  assumes "own_keys (ps @ [(k, v)])"
  shows "obj_put k v ps = ps @ [(k, v)]"
proof -
  have "\<forall>k' \<in> fst ` set ps. key_order k' k" using assms by (auto simp: own_keys_def sorted_wrt_append)
  then show ?thesis by (auto simp: obj_put_def key_order_def obj_insert_last)
qed

section \<open>Dynamic values\<close>

text \<open>
  A value of type \<^verbatim>\<open>unknown\<close>. \<open>JUndefined\<close> is also an array hole; the flag of
  \<open>JObj\<close> tells whether the object has an enumerable symbol key; \<open>JAncestor\<close> is a
  reference back to an array or object that contains it, and \<open>JOther\<close> any value of another
  type (a function, a symbol, a bigint, an instance of a class).
\<close>

datatype jsval =
    JUndefined
  | JNull
  | JBool bool
  | JNum jnum
  | JStr jstring
  | JBytes "byte list"
  | JArr "jsval list"
  | JObj bool "(jstring \<times> jsval) list"
  | JOther
  | JAncestor

end
