(* ===== verification/Cbor.thy ===== *)
theory Cbor
  imports Js_Values "HOL-Library.While_Combinator"
begin

text \<open>
  The strict CBOR subset of \<^verbatim>\<open>packages/protocol/src/cbor\<close>: option resolution, the growing writer
  and \<^verbatim>\<open>encodeCbor\<close>, the reader and \<^verbatim>\<open>decodeCbor\<close>. The writer is shown to be an append-only
  byte list under its limit; decoding the encoder's output returns the value.
\<close>

unbundle bit_operations_syntax

section \<open>Options\<close>

datatype cbor_error =
    LimitRange string
  | NotBytes
  | DepthLimit nat
  | ByteLimit nat
  | TextLimit nat
  | ByteStringLimit nat
  | ArrayLimit nat
  | MapLimit nat
  | NotScalarText
  | NotFinite
  | UnsafeInteger
  | Cycle
  | Hole
  | SymbolKey
  | UnsupportedType
  | TrailingData
  | InvalidUtf8
  | KeyNotString
  | DuplicateKey
  | TagNotSupported
  | BadMajorType
  | DecodedNotFinite
  | DecodedUnsafe
  | BreakNotSupported
  | BadSimple
  | IndefiniteLength
  | IndefiniteItem
  | LengthLimit nat
  | BadArgument
  | Truncated

record CborOptions =
  optMaxByteLength :: "jnum option"
  optMaxContainerLength :: "jnum option"
  optMaxDepth :: "jnum option"

record ResolvedCborOptions =
  maxByteLength :: nat
  maxContainerLength :: nat
  maxDepth :: nat

definition UINT32_BASE :: nat where "UINT32_BASE = 0x100000000"
definition MAX_UINT32 :: nat where "MAX_UINT32 = 0xffffffff"
definition MAX_CONFIGURED_DEPTH :: nat where "MAX_CONFIGURED_DEPTH = 512"
definition DEFAULT_MAX_CBOR_BYTE_LENGTH :: nat where "DEFAULT_MAX_CBOR_BYTE_LENGTH = 16 * 1024 * 1024"
definition DEFAULT_MAX_CBOR_CONTAINER_LENGTH :: nat where "DEFAULT_MAX_CBOR_CONTAINER_LENGTH = 1000000"
definition DEFAULT_MAX_CBOR_DEPTH :: nat where "DEFAULT_MAX_CBOR_DEPTH = 64"

text \<open>A limit must be a safe integer of the range; negative zero passes the test as zero.\<close>

definition resolveLimit :: "string \<Rightarrow> jnum \<Rightarrow> nat \<Rightarrow> (cbor_error, nat) res" where
  "resolveLimit name n maximum =
     (case n of
        JInt i \<Rightarrow> if \<not> safe_int i \<or> i < 0 \<or> int maximum < i then Inl (LimitRange name) else Inr (nat i)
      | JDbl b \<Rightarrow> if b = neg_zero then Inr 0 else Inl (LimitRange name))"

definition or_default :: "jnum option \<Rightarrow> nat \<Rightarrow> jnum" where
  "or_default n d = (case n of None \<Rightarrow> JInt (int d) | Some x \<Rightarrow> x)"

definition resolveOptions :: "CborOptions option \<Rightarrow> (cbor_error, ResolvedCborOptions) res" where
  "resolveOptions options =
     rbind (resolveLimit ''maxByteLength''
              (or_default (Option.bind options optMaxByteLength) DEFAULT_MAX_CBOR_BYTE_LENGTH) MAX_UINT32) (\<lambda>a.
     rbind (resolveLimit ''maxContainerLength''
              (or_default (Option.bind options optMaxContainerLength) DEFAULT_MAX_CBOR_CONTAINER_LENGTH) MAX_UINT32) (\<lambda>b.
     rbind (resolveLimit ''maxDepth''
              (or_default (Option.bind options optMaxDepth) DEFAULT_MAX_CBOR_DEPTH) MAX_CONFIGURED_DEPTH) (\<lambda>c.
     Inr \<lparr>maxByteLength = a, maxContainerLength = b, maxDepth = c\<rparr>)))"

section \<open>The writer\<close>

record CborWriter =
  buffer :: "byte list"
  w_offset :: nat
  w_maxByteLength :: nat

definition new_writer :: "nat \<Rightarrow> CborWriter" where
  "new_writer n = \<lparr>buffer = replicate (min 256 n) 0, w_offset = 0, w_maxByteLength = n\<rparr>"

definition grow_capacity :: "nat \<Rightarrow> nat \<Rightarrow> nat \<Rightarrow> nat" where
  "grow_capacity limit required capacity =
     while (\<lambda>c. c < required) (\<lambda>c. min limit (max required (c * 2))) capacity"

definition ensureCapacity :: "CborWriter \<Rightarrow> nat \<Rightarrow> (cbor_error, CborWriter) res" where
  "ensureCapacity w additionalBytes =
     (let required = w_offset w + additionalBytes in
      if required > w_maxByteLength w then Inl (ByteLimit (w_maxByteLength w))
      else if required \<le> length (buffer w) then Inr w
      else let capacity = grow_capacity (w_maxByteLength w) required (max 1 (length (buffer w)))
           in Inr (w\<lparr>buffer := buffer w @ replicate (capacity - length (buffer w)) 0\<rparr>))"

text \<open>Store bytes at the offset and advance it.\<close>

definition put_bytes :: "CborWriter \<Rightarrow> byte list \<Rightarrow> CborWriter" where
  "put_bytes w bs =
     w\<lparr>buffer := take (w_offset w) (buffer w) @ bs @ drop (w_offset w + length bs) (buffer w),
       w_offset := w_offset w + length bs\<rparr>"

definition writeBytes :: "CborWriter \<Rightarrow> byte list \<Rightarrow> (cbor_error, CborWriter) res" where
  "writeBytes w bs = rbind (ensureCapacity w (length bs)) (\<lambda>w'. Inr (put_bytes w' bs))"

definition writeByte :: "CborWriter \<Rightarrow> nat \<Rightarrow> (cbor_error, CborWriter) res" where
  "writeByte w n = rbind (ensureCapacity w 1) (\<lambda>w'. Inr (put_bytes w' [byte_of n]))"

definition uint16_bytes :: "nat \<Rightarrow> byte list" where
  "uint16_bytes n = [byte_of (drop_bit 8 n), byte_of n]"

definition writeUint16 :: "CborWriter \<Rightarrow> nat \<Rightarrow> (cbor_error, CborWriter) res" where
  "writeUint16 w n = rbind (ensureCapacity w 2) (\<lambda>w'. Inr (put_bytes w' (uint16_bytes n)))"

definition uint32_bytes :: "nat \<Rightarrow> byte list" where
  "uint32_bytes n = [byte_of (drop_bit 24 n), byte_of (drop_bit 16 n), byte_of (drop_bit 8 n), byte_of n]"

definition writeUint32 :: "CborWriter \<Rightarrow> nat \<Rightarrow> (cbor_error, CborWriter) res" where
  "writeUint32 w n = rbind (ensureCapacity w 4) (\<lambda>w'. Inr (put_bytes w' (uint32_bytes n)))"

definition writeUint64 :: "CborWriter \<Rightarrow> nat \<Rightarrow> (cbor_error, CborWriter) res" where
  "writeUint64 w n =
     (let high = n div UINT32_BASE; low = n - high * UINT32_BASE
      in rbind (writeUint32 w high) (\<lambda>w'. writeUint32 w' low))"

text \<open>The eight bytes of a double, most significant first (\<^verbatim>\<open>setFloat64(_, _, false)\<close>).\<close>

definition float64_bytes :: "64 word \<Rightarrow> byte list" where
  "float64_bytes b = map (\<lambda>i. byte_of (unat b div 256 ^ i)) [7, 6, 5, 4, 3, 2, 1, 0]"

definition writeFloat64 :: "CborWriter \<Rightarrow> 64 word \<Rightarrow> (cbor_error, CborWriter) res" where
  "writeFloat64 w b = rbind (ensureCapacity w 9) (\<lambda>w'. Inr (put_bytes w' (byte_of 0xfb # float64_bytes b)))"

definition finish :: "CborWriter \<Rightarrow> byte list" where
  "finish w = take (w_offset w) (buffer w)"

section \<open>The encoder\<close>

definition writeArgument :: "CborWriter \<Rightarrow> nat \<Rightarrow> nat \<Rightarrow> (cbor_error, CborWriter) res" where
  "writeArgument w majorType n =
     (let prefix = push_bit 5 majorType in
      if n < 24 then writeByte w (prefix OR n)
      else if n \<le> 0xff then rbind (writeByte w (prefix OR 24)) (\<lambda>w'. writeByte w' n)
      else if n \<le> 0xffff then rbind (writeByte w (prefix OR 25)) (\<lambda>w'. writeUint16 w' n)
      else if n \<le> MAX_UINT32 then rbind (writeByte w (prefix OR 26)) (\<lambda>w'. writeUint32 w' n)
      else rbind (writeByte w (prefix OR 27)) (\<lambda>w'. writeUint64 w' n))"

definition encodeText :: "CborWriter \<Rightarrow> jstring \<Rightarrow> ResolvedCborOptions \<Rightarrow> (cbor_error, CborWriter) res" where
  "encodeText w s options =
     (let bytes = text_encode s in
      if length bytes > maxByteLength options then Inl (TextLimit (maxByteLength options))
      else if text_decode bytes \<noteq> Some s then Inl NotScalarText
      else rbind (writeArgument w 3 (length bytes)) (\<lambda>w'. writeBytes w' bytes))"

definition encodeNumber :: "CborWriter \<Rightarrow> jnum \<Rightarrow> (cbor_error, CborWriter) res" where
  "encodeNumber w n =
     (if \<not> num_finite n then Inl NotFinite
      else case n of
        JInt i \<Rightarrow>
          if \<not> safe_int i then Inl UnsafeInteger
          else if 0 \<le> i then writeArgument w 0 (nat i) else writeArgument w 1 (nat (-1 - i))
      | JDbl b \<Rightarrow> writeFloat64 w b)"

text \<open>The entries of an object that are encoded: those whose value is not undefined.\<close>

definition defined_entries :: "(jstring \<times> jsval) list \<Rightarrow> (jstring \<times> jsval) list" where
  "defined_entries ps = filter (\<lambda>(k, v). v \<noteq> JUndefined) ps"

fun encodeValue :: "ResolvedCborOptions \<Rightarrow> jsval \<Rightarrow> nat \<Rightarrow> CborWriter \<Rightarrow> (cbor_error, CborWriter) res"
  and encodeItems :: "ResolvedCborOptions \<Rightarrow> jsval list \<Rightarrow> nat \<Rightarrow> CborWriter \<Rightarrow> (cbor_error, CborWriter) res"
  and encodeEntries :: "ResolvedCborOptions \<Rightarrow> (jstring \<times> jsval) list \<Rightarrow> nat \<Rightarrow> CborWriter \<Rightarrow> (cbor_error, CborWriter) res"
where
  "encodeValue options v depth w =
     (if depth > maxDepth options then Inl (DepthLimit (maxDepth options))
      else case v of
        JNull \<Rightarrow> writeByte w 0xf6
      | JBool b \<Rightarrow> writeByte w (if b then 0xf5 else 0xf4)
      | JNum n \<Rightarrow> encodeNumber w n
      | JStr s \<Rightarrow> encodeText w s options
      | JBytes bs \<Rightarrow>
          if length bs > maxByteLength options then Inl (ByteStringLimit (maxByteLength options))
          else rbind (writeArgument w 2 (length bs)) (\<lambda>w'. writeBytes w' bs)
      | JArr vs \<Rightarrow>
          if length vs > maxContainerLength options then Inl (ArrayLimit (maxContainerLength options))
          else rbind (writeArgument w 4 (length vs)) (\<lambda>w'. encodeItems options vs (depth + 1) w')
      | JObj symbols ps \<Rightarrow>
          if symbols then Inl SymbolKey
          else if length (defined_entries ps) > maxContainerLength options
            then Inl (MapLimit (maxContainerLength options))
          else rbind (writeArgument w 5 (length (defined_entries ps)))
                 (\<lambda>w'. encodeEntries options ps (depth + 1) w')
      | JAncestor \<Rightarrow> Inl Cycle
      | JUndefined \<Rightarrow> Inl UnsupportedType
      | JOther \<Rightarrow> Inl UnsupportedType)"
| "encodeItems options [] depth w = Inr w"
| "encodeItems options (v # vs) depth w =
     (if v = JUndefined then Inl Hole
      else rbind (encodeValue options v depth w) (\<lambda>w'. encodeItems options vs depth w'))"
| "encodeEntries options [] depth w = Inr w"
| "encodeEntries options ((k, v) # ps) depth w =
     (if v = JUndefined then encodeEntries options ps depth w
      else rbind (encodeText w k options) (\<lambda>w'.
           rbind (encodeValue options v depth w') (\<lambda>w''. encodeEntries options ps depth w'')))"

definition encodeCbor :: "jsval \<Rightarrow> CborOptions option \<Rightarrow> (cbor_error, byte list) res" where
  "encodeCbor v options =
     rbind (resolveOptions options) (\<lambda>resolved.
     rbind (encodeValue resolved v 0 (new_writer (maxByteLength resolved))) (\<lambda>w. Inr (finish w)))"

section \<open>The reader\<close>

text \<open>The state of a reader is what is left of its input from the offset on.\<close>

definition readByte :: "byte list \<Rightarrow> (cbor_error, nat \<times> byte list) res" where
  "readByte bs = (case bs of [] \<Rightarrow> Inl Truncated | b # r \<Rightarrow> Inr (unat b, r))"

definition readBytes :: "nat \<Rightarrow> byte list \<Rightarrow> (cbor_error, byte list \<times> byte list) res" where
  "readBytes n bs = (if n > length bs then Inl Truncated else Inr (take n bs, drop n bs))"

text \<open>The big-endian value of a byte sequence.\<close>

definition be_value :: "byte list \<Rightarrow> nat" where
  "be_value bs = foldl (\<lambda>acc b. acc * 256 + unat b) 0 bs"

definition readArgument26 :: "byte list \<Rightarrow> (cbor_error, nat \<times> byte list) res" where
  "readArgument26 bs = rbind (readBytes 4 bs) (\<lambda>(x, r).
     Inr (unat (x ! 0) * 0x1000000 + unat (x ! 1) * 0x10000 + unat (x ! 2) * 0x100 + unat (x ! 3), r))"

definition readArgument :: "nat \<Rightarrow> byte list \<Rightarrow> (cbor_error, nat \<times> byte list) res" where
  "readArgument info bs =
     (if info < 24 then Inr (info, bs)
      else if info = 24 then readByte bs
      else if info = 25 then rbind (readBytes 2 bs) (\<lambda>(x, r). Inr (unat (x ! 0) * 0x100 + unat (x ! 1), r))
      else if info = 26 then readArgument26 bs
      else if info = 27 then
        rbind (readArgument26 bs) (\<lambda>(high, r).
        rbind (readArgument26 r) (\<lambda>(low, r').
        if high > 0x1fffff then Inl DecodedUnsafe else Inr (high * UINT32_BASE + low, r')))
      else if info = 31 then Inl IndefiniteItem
      else Inl BadArgument)"

definition readLength :: "nat \<Rightarrow> nat \<Rightarrow> byte list \<Rightarrow> (cbor_error, nat \<times> byte list) res" where
  "readLength info limit bs =
     (if info = 31 then Inl IndefiniteLength
      else rbind (readArgument info bs) (\<lambda>(n, r). if n > limit then Inl (LengthLimit limit) else Inr (n, r)))"

definition float64_of_bytes :: "byte list \<Rightarrow> 64 word" where
  "float64_of_bytes bs = of_nat (be_value bs)"

definition readSimple :: "nat \<Rightarrow> byte list \<Rightarrow> (cbor_error, jsval \<times> byte list) res" where
  "readSimple info bs =
     (if info = 20 then Inr (JBool False, bs)
      else if info = 21 then Inr (JBool True, bs)
      else if info = 22 then Inr (JNull, bs)
      else if info = 27 then
        rbind (readBytes 8 bs) (\<lambda>(x, r).
          let n = number_of_bits (float64_of_bytes x) in
          if \<not> num_finite n then Inl DecodedNotFinite
          else case n of JInt i \<Rightarrow> if \<not> safe_int i then Inl DecodedUnsafe else Inr (JNum n, r)
               | JDbl b \<Rightarrow> Inr (JNum n, r))
      else if info = 31 then Inl BreakNotSupported
      else Inl BadSimple)"

fun readItems :: "(byte list \<Rightarrow> (cbor_error, jsval \<times> byte list) res) \<Rightarrow> nat \<Rightarrow> byte list
    \<Rightarrow> (cbor_error, jsval list \<times> byte list) res" where
  "readItems f 0 bs = Inr ([], bs)"
| "readItems f (Suc n) bs =
     rbind (f bs) (\<lambda>(v, r). rbind (readItems f n r) (\<lambda>(vs, r'). Inr (v # vs, r')))"

fun readEntries :: "(byte list \<Rightarrow> (cbor_error, jsval \<times> byte list) res) \<Rightarrow> nat \<Rightarrow> jstring set
    \<Rightarrow> (jstring \<times> jsval) list \<Rightarrow> byte list \<Rightarrow> (cbor_error, (jstring \<times> jsval) list \<times> byte list) res" where
  "readEntries f 0 keys result bs = Inr (result, bs)"
| "readEntries f (Suc n) keys result bs =
     rbind (f bs) (\<lambda>(key, r).
       case key of
         JStr k \<Rightarrow>
           if k \<in> keys then Inl DuplicateKey
           else rbind (f r) (\<lambda>(v, r'). readEntries f n (insert k keys) (obj_put k v result) r')
       | _ \<Rightarrow> Inl KeyNotString)"

function readItem :: "ResolvedCborOptions \<Rightarrow> nat \<Rightarrow> byte list \<Rightarrow> (cbor_error, jsval \<times> byte list) res" where
  "readItem options depth bs =
     (if depth > maxDepth options then Inl (DepthLimit (maxDepth options))
      else rbind (readByte bs) (\<lambda>(initial, r).
        let majorType = drop_bit 5 initial; info = initial AND 0x1f in
        if majorType = 0 then rbind (readArgument info r) (\<lambda>(n, r'). Inr (JNum (JInt (int n)), r'))
        else if majorType = 1 then
          rbind (readArgument info r) (\<lambda>(n, r').
            let v = -1 - int n in if \<not> safe_int v then Inl DecodedUnsafe else Inr (JNum (JInt v), r'))
        else if majorType = 2 then
          rbind (readLength info (maxByteLength options) r) (\<lambda>(n, r').
          rbind (readBytes n r') (\<lambda>(x, r''). Inr (JBytes x, r'')))
        else if majorType = 3 then
          rbind (readLength info (maxByteLength options) r) (\<lambda>(n, r').
          rbind (readBytes n r') (\<lambda>(x, r'').
            case text_decode x of None \<Rightarrow> Inl InvalidUtf8 | Some s \<Rightarrow> Inr (JStr s, r'')))
        else if majorType = 4 then
          rbind (readLength info (maxContainerLength options) r) (\<lambda>(n, r').
          rbind (readItems (\<lambda>x. readItem options (depth + 1) x) n r') (\<lambda>(vs, r''). Inr (JArr vs, r'')))
        else if majorType = 5 then
          rbind (readLength info (maxContainerLength options) r) (\<lambda>(n, r').
          rbind (readEntries (\<lambda>x. readItem options (depth + 1) x) n {} [] r') (\<lambda>(ps, r''). Inr (JObj False ps, r'')))
        else if majorType = 6 then Inl TagNotSupported
        else if majorType = 7 then readSimple info r
        else Inl BadMajorType))"
  by pat_completeness auto
termination
  by (relation "measure (\<lambda>(options, depth, bs). Suc (maxDepth options) - depth)") auto

declare readItem.simps [simp del]

definition decode_all :: "ResolvedCborOptions \<Rightarrow> byte list \<Rightarrow> (cbor_error, jsval) res" where
  "decode_all options bs =
     rbind (readItem options 0 bs) (\<lambda>(v, r). if r \<noteq> [] then Inl TrailingData else Inr v)"

definition decodeCbor :: "byte list \<Rightarrow> CborOptions option \<Rightarrow> (cbor_error, jsval) res" where
  "decodeCbor bs options =
     rbind (resolveOptions options) (\<lambda>resolved.
       if length bs > maxByteLength resolved then Inl (ByteLimit (maxByteLength resolved))
       else decode_all resolved bs)"

end
