(* ===== verification/Cbor_Correct.thy ===== *)
theory Cbor_Correct
  imports Cbor
begin

text \<open>
  Correctness of the CBOR codec: the writer refines an append-only byte list bounded by its limit,
  the argument header is read back as written, and the reader returns the value the encoder was
  given (with the entries whose value is undefined left out, as the encoder documents).
\<close>

unbundle bit_operations_syntax

section \<open>The writer as a bounded byte list\<close>

definition writer_inv :: "CborWriter \<Rightarrow> bool" where
  "writer_inv w \<longleftrightarrow> w_offset w \<le> length (buffer w) \<and> length (buffer w) \<le> w_maxByteLength w"

text \<open>\<open>w'\<close> is \<open>w\<close> with the bytes \<open>bs\<close> appended to its output.\<close>

definition wrote :: "CborWriter \<Rightarrow> byte list \<Rightarrow> CborWriter \<Rightarrow> bool" where
  "wrote w bs w' \<longleftrightarrow> writer_inv w' \<and> finish w' = finish w @ bs \<and> w_maxByteLength w' = w_maxByteLength w"

lemma writer_inv_new [simp]: "writer_inv (new_writer n)"
  by (simp add: writer_inv_def new_writer_def)

lemma finish_new [simp]: "finish (new_writer n) = []" "w_maxByteLength (new_writer n) = n"
  by (simp_all add: finish_def new_writer_def)

lemma length_finish: "writer_inv w \<Longrightarrow> length (finish w) = w_offset w"
  by (simp add: writer_inv_def finish_def)

lemma finish_bound: "writer_inv w \<Longrightarrow> length (finish w) \<le> w_maxByteLength w"
  by (simp add: writer_inv_def finish_def)

text \<open>The growth loop ends after one round, at a capacity that is enough and within the limit.\<close>

lemma grow_capacity_bounds:
  assumes "required \<le> limit" "capacity \<le> limit"
  shows "required \<le> grow_capacity limit required capacity \<and> grow_capacity limit required capacity \<le> limit"
  unfolding grow_capacity_def
  by (rule while_rule [where P = "\<lambda>c. c \<le> limit" and r = "measure (\<lambda>c. required - c)"])
    (use assms in auto)

lemma ensureCapacity_ok:
  assumes "writer_inv w" "ensureCapacity w n = Inr w'"
  shows "writer_inv w'" "finish w' = finish w" "w_maxByteLength w' = w_maxByteLength w"
    "w_offset w' = w_offset w" "w_offset w' + n \<le> length (buffer w')"
proof -
  let ?req = "w_offset w + n"
  let ?cap = "grow_capacity (w_maxByteLength w) ?req (max 1 (length (buffer w)))"
  have req: "?req \<le> w_maxByteLength w"
    using assms(2) by (auto simp: ensureCapacity_def Let_def split: if_splits)
  consider (fits) "?req \<le> length (buffer w)" "w' = w"
    | (grows) "length (buffer w) < ?req" "w' = w\<lparr>buffer := buffer w @ replicate (?cap - length (buffer w)) 0\<rparr>"
    using assms(2) req by (auto simp: ensureCapacity_def Let_def split: if_splits)
  then have "writer_inv w' \<and> finish w' = finish w \<and> w_maxByteLength w' = w_maxByteLength w
    \<and> w_offset w' = w_offset w \<and> w_offset w' + n \<le> length (buffer w')"
  proof cases
    case fits
    then show ?thesis using assms(1) by simp
  next
    case grows
    have "max 1 (length (buffer w)) \<le> w_maxByteLength w" using grows(1) req by auto
    from grow_capacity_bounds [OF req this] grows show ?thesis
      using assms(1) by (auto simp: writer_inv_def finish_def)
  qed
  then show "writer_inv w'" "finish w' = finish w" "w_maxByteLength w' = w_maxByteLength w"
    "w_offset w' = w_offset w" "w_offset w' + n \<le> length (buffer w')" by simp_all
qed

lemma put_bytes_wrote:
  assumes "writer_inv w" "w_offset w + length bs \<le> length (buffer w)"
  shows "wrote w bs (put_bytes w bs)"
  using assms by (simp add: wrote_def writer_inv_def put_bytes_def finish_def)

lemma writeBytes_wrote:
  assumes "writer_inv w" "writeBytes w bs = Inr w'"
  shows "wrote w bs w'"
proof -
  obtain u where u: "ensureCapacity w (length bs) = Inr u" "w' = put_bytes u bs"
    using assms(2) by (auto simp: writeBytes_def res_simps)
  note e = ensureCapacity_ok [OF assms(1) u(1)]
  from put_bytes_wrote [OF e(1,5)] show ?thesis using e(2,3) u(2) by (simp add: wrote_def)
qed

text \<open>Every write succeeds exactly when the limit has room, and fails with the limit otherwise.\<close>

lemma writeBytes_result:
  assumes "writer_inv w"
  shows "is_ok (writeBytes w bs) \<longleftrightarrow> length (finish w) + length bs \<le> w_maxByteLength w"
    and "writeBytes w bs = Inl e \<Longrightarrow> e = ByteLimit (w_maxByteLength w)"
  using assms by (auto simp: writeBytes_def ensureCapacity_def Let_def length_finish split: if_splits)

text \<open>The other primitive writes are writes of fixed byte sequences.\<close>

lemma length_fixed_bytes [simp]:
  "length (uint16_bytes n) = 2" "length (uint32_bytes n) = 4" "length (float64_bytes b) = 8"
  by (simp_all add: uint16_bytes_def uint32_bytes_def float64_bytes_def)

lemma write_as_bytes:
  "writeByte w n = writeBytes w [byte_of n]"
  "writeUint16 w n = writeBytes w (uint16_bytes n)"
  "writeUint32 w n = writeBytes w (uint32_bytes n)"
  "writeFloat64 w b = writeBytes w (byte_of 0xfb # float64_bytes b)"
  by (simp_all add: writeByte_def writeUint16_def writeUint32_def writeFloat64_def writeBytes_def)

lemma wrote_trans: "wrote w a u \<Longrightarrow> wrote u b w' \<Longrightarrow> wrote w (a @ b) w'"
  by (simp add: wrote_def)

lemma wrote_refl: "writer_inv w \<Longrightarrow> wrote w [] w"
  by (simp add: wrote_def)

lemma wrote_inv: "wrote w bs w' \<Longrightarrow> writer_inv w'"
  by (simp add: wrote_def)

lemma write_seq:
  assumes "writer_inv w" "rbind (writeBytes w a) (\<lambda>u. writeBytes u b) = Inr w'"
  shows "wrote w (a @ b) w'"
  using assms by (auto simp: res_simps intro: wrote_trans dest: writeBytes_wrote wrote_inv)

section \<open>Argument headers\<close>

definition uint64_bytes :: "nat \<Rightarrow> byte list" where
  "uint64_bytes n = uint32_bytes (n div UINT32_BASE) @ uint32_bytes (n - n div UINT32_BASE * UINT32_BASE)"

definition argument_bytes :: "nat \<Rightarrow> nat \<Rightarrow> byte list" where
  "argument_bytes m n =
     (if n < 24 then [byte_of (push_bit 5 m OR n)]
      else if n \<le> 0xff then byte_of (push_bit 5 m OR 24) # [byte_of n]
      else if n \<le> 0xffff then byte_of (push_bit 5 m OR 25) # uint16_bytes n
      else if n \<le> MAX_UINT32 then byte_of (push_bit 5 m OR 26) # uint32_bytes n
      else byte_of (push_bit 5 m OR 27) # uint64_bytes n)"

lemma writeArgument_wrote:
  assumes "writer_inv w" "writeArgument w m n = Inr w'"
  shows "wrote w (argument_bytes m n) w'"
proof -
  have one: "wrote w (a # b) w'" if "rbind (writeBytes w [a]) (\<lambda>u. writeBytes u b) = Inr w'" for a b
    using write_seq [OF assms(1) that] by simp
  have two: "wrote w (a # b @ c) w'"
    if "rbind (writeBytes w [a]) (\<lambda>u. rbind (writeBytes u b) (\<lambda>v. writeBytes v c)) = Inr w'" for a b c
  proof -
    from that obtain u where u: "writeBytes w [a] = Inr u" "rbind (writeBytes u b) (\<lambda>v. writeBytes v c) = Inr w'"
      by (auto simp: res_simps)
    note wu = writeBytes_wrote [OF assms(1) u(1)]
    from wrote_trans [OF wu write_seq [OF wrote_inv [OF wu] u(2)]] show ?thesis by simp
  qed
  show ?thesis
    using assms writeBytes_wrote [OF assms(1)]
    by (auto simp: writeArgument_def argument_bytes_def write_as_bytes writeUint64_def uint64_bytes_def Let_def
        intro: one two split: if_splits)
qed

lemma and_0x1f: "n AND 0x1f = (n :: nat) mod 32"
proof -
  have "n AND 0x1f = take_bit 5 n" by (simp add: take_bit_eq_mask mask_eq_exp_minus_1)
  then show ?thesis by (simp add: take_bit_eq_mod)
qed

lemma prefix_or: "v < 32 \<Longrightarrow> push_bit 5 m OR v = m * 32 + (v :: nat)"
proof -
  assume "v < 32"
  then have v: "v = take_bit 5 v" by (simp add: take_bit_eq_mod)
  have "push_bit 5 m AND v = 0" by (subst v) (auto simp: bit_eq_iff bit_simps)
  then have "push_bit 5 m + v = push_bit 5 m OR v" by (rule disjunctive_add_eq_or)
  then show ?thesis by (simp add: push_bit_eq_mult)
qed

lemma initial_byte:
  assumes "m < 8" "v < 32"
  shows "drop_bit 5 (unat (byte_of (push_bit 5 m OR v))) = m" "unat (byte_of (push_bit 5 m OR v)) AND 0x1f = v"
proof -
  have "m * 32 + v < 256" using assms by simp
  then have "unat (byte_of (push_bit 5 m OR v)) = m * 32 + v" using assms(2) by (simp add: prefix_or)
  then show "drop_bit 5 (unat (byte_of (push_bit 5 m OR v))) = m" "unat (byte_of (push_bit 5 m OR v)) AND 0x1f = v"
    using assms(2) by (simp_all add: drop_bit_eq_div and_0x1f low_digit)
qed

text \<open>Four big-endian bytes.\<close>

lemma uint32_digits:
  assumes "n < 2 ^ 32"
  shows "unat (byte_of (drop_bit 24 n)) * 0x1000000 + unat (byte_of (drop_bit 16 n)) * 0x10000
    + unat (byte_of (drop_bit 8 n)) * 0x100 + unat (byte_of n) = n"
proof -
  have d: "drop_bit 24 n = n div 0x1000000" "drop_bit 16 n = n div 0x10000" "drop_bit 8 n = n div 0x100"
    by (simp_all add: drop_bit_eq_div)
  have q: "n div 0x100 div 0x100 = n div 0x10000" "n div 0x10000 div 0x100 = n div 0x1000000"
    by (simp_all flip: div_mult2_eq)
  have "n div 0x1000000 mod 256 = n div 0x1000000" using assms by simp
  moreover have "n div 0x100 * 0x100 + n mod 0x100 = n" by simp
  moreover have "n div 0x10000 * 0x100 + n div 0x100 mod 0x100 = n div 0x100" unfolding q(1) [symmetric] by simp
  moreover have "n div 0x1000000 * 0x100 + n div 0x10000 mod 0x100 = n div 0x10000" unfolding q(2) [symmetric] by simp
  ultimately show ?thesis unfolding d unat_byte_of by linarith
qed

lemma readArgument26_uint32: "n < 2 ^ 32 \<Longrightarrow> readArgument26 (uint32_bytes n @ r) = Inr (n, r)"
  using uint32_digits [of n] by (simp add: readArgument26_def readBytes_def uint32_bytes_def numeral_2_eq_2 numeral_3_eq_3)

lemma uint16_digits: "n \<le> 0xffff \<Longrightarrow> unat (byte_of (drop_bit 8 n)) * 0x100 + unat (byte_of n) = n"
  by (simp add: unat_byte_of drop_bit_eq_div)

lemma readArgument_header:
  assumes "m < 8" "n < 2 ^ 53"
  obtains b rest where "argument_bytes m n = b # rest" "drop_bit 5 (unat b) = m"
    "unat b AND 0x1f \<noteq> 31" "\<And>r. readArgument (unat b AND 0x1f) (rest @ r) = Inr (n, r)"
proof -
  consider "n < 24" | "24 \<le> n" "n \<le> 0xff" | "0xff < n" "n \<le> 0xffff" | "0xffff < n" "n \<le> MAX_UINT32"
    | "MAX_UINT32 < n" by linarith
  then show ?thesis
  proof cases
    case 1
    show ?thesis by (rule that [of "byte_of (push_bit 5 m OR n)" "[]"])
      (use 1 assms(1) in \<open>simp_all add: argument_bytes_def initial_byte readArgument_def\<close>)
  next
    case 2
    show ?thesis by (rule that [of "byte_of (push_bit 5 m OR 24)" "[byte_of n]"])
      (use 2 assms(1) in \<open>simp_all add: argument_bytes_def initial_byte readArgument_def readByte_def\<close>)
  next
    case 3
    show ?thesis by (rule that [of "byte_of (push_bit 5 m OR 25)" "uint16_bytes n"])
      (use 3 assms(1) uint16_digits [of n] in \<open>simp_all add: argument_bytes_def initial_byte readArgument_def
        readBytes_def uint16_bytes_def numeral_2_eq_2\<close>)
  next
    case 4
    show ?thesis by (rule that [of "byte_of (push_bit 5 m OR 26)" "uint32_bytes n"])
      (use 4 assms(1) in \<open>simp_all add: argument_bytes_def initial_byte readArgument_def
        readArgument26_uint32 MAX_UINT32_def\<close>)
  next
    case 5
    have low: "n - n div UINT32_BASE * UINT32_BASE < 2 ^ 32" by (simp add: UINT32_BASE_def minus_div_mult_eq_mod)
    have high: "n div UINT32_BASE \<le> 0x1fffff" using assms(2) by (simp add: UINT32_BASE_def less_mult_imp_div_less)
    have sum: "n div UINT32_BASE * UINT32_BASE + (n - n div UINT32_BASE * UINT32_BASE) = n"
      by (simp add: minus_div_mult_eq_mod)
    show ?thesis by (rule that [of "byte_of (push_bit 5 m OR 27)" "uint64_bytes n"])
      (use 5 assms(1) low high sum in \<open>simp_all add: argument_bytes_def initial_byte readArgument_def uint64_bytes_def
        readArgument26_uint32 MAX_UINT32_def\<close>)
  qed
qed

section \<open>Doubles\<close>

lemma be_value_snoc: "be_value (bs @ [b]) = be_value bs * 256 + unat b"
  by (simp add: be_value_def)

lemma be_value_digits: "be_value (map (\<lambda>i. byte_of (n div 256 ^ i)) (rev [j..<j + k])) = n div 256 ^ j mod 256 ^ k"
proof (induction k arbitrary: j)
  case 0
  then show ?case by (simp add: be_value_def)
next
  case (Suc k)
  have r: "rev [j..<j + Suc k] = rev [Suc j..<Suc j + k] @ [j]"
    by (simp add: upt_conv_Cons)
  have "be_value (map (\<lambda>i. byte_of (n div 256 ^ i)) (rev [j..<j + Suc k]))
      = (n div 256 ^ Suc j mod 256 ^ k) * 256 + n div 256 ^ j mod 256"
    by (simp only: r map_append list.map be_value_snoc Suc.IH unat_byte_of)
  also have "n div 256 ^ Suc j = n div 256 ^ j div 256" by (simp only: power_Suc2 div_mult2_eq)
  also have "(n div 256 ^ j div 256 mod 256 ^ k) * 256 + n div 256 ^ j mod 256 = n div 256 ^ j mod 256 ^ Suc k"
    by (simp only: power_Suc mod_mult2_eq mult.commute)
  finally show ?case .
qed

lemma float64_roundtrip: "float64_of_bytes (float64_bytes b) = b"
proof -
  have l: "rev [0..<0 + 8] = [7, 6, 5, 4, 3, 2, 1, 0 :: nat]" by (simp add: upt_rec)
  have "be_value (float64_bytes b) = unat b mod 256 ^ 8"
    using be_value_digits [of "unat b" 0 8] unfolding float64_bytes_def l by simp
  moreover have "unat b < 256 ^ 8" using unsigned_less [of b, where ?'a = nat] by simp
  ultimately show ?thesis by (simp add: float64_of_bytes_def)
qed

section \<open>Round trip\<close>

text \<open>
  The representation invariant of a dynamic value: numbers are canonical and the properties of
  an object are listed in own-key order.
\<close>

fun wf_value :: "jsval \<Rightarrow> bool" and wf_items :: "jsval list \<Rightarrow> bool"
  and wf_entries :: "(jstring \<times> jsval) list \<Rightarrow> bool" where
  "wf_value v = (case v of JNum n \<Rightarrow> wf_num n | JArr vs \<Rightarrow> wf_items vs
      | JObj _ ps \<Rightarrow> own_keys ps \<and> wf_entries ps | _ \<Rightarrow> True)"
| "wf_items [] = True"
| "wf_items (v # vs) = (wf_value v \<and> wf_items vs)"
| "wf_entries [] = True"
| "wf_entries ((k, v) # ps) = (wf_value v \<and> wf_entries ps)"

text \<open>What is encoded of a value: object entries that are undefined are left out.\<close>

fun strip :: "jsval \<Rightarrow> jsval" and strip_items :: "jsval list \<Rightarrow> jsval list"
  and strip_entries :: "(jstring \<times> jsval) list \<Rightarrow> (jstring \<times> jsval) list" where
  "strip v = (case v of JArr vs \<Rightarrow> JArr (strip_items vs) | JObj s ps \<Rightarrow> JObj s (strip_entries ps) | _ \<Rightarrow> v)"
| "strip_items [] = []"
| "strip_items (v # vs) = strip v # strip_items vs"
| "strip_entries [] = []"
| "strip_entries ((k, v) # ps) = (if v = JUndefined then strip_entries ps else (k, strip v) # strip_entries ps)"

declare encodeValue.simps [simp del] wf_value.simps [simp del] strip.simps [simp del]

lemmas value_simps = wf_value.simps strip.simps

lemma defined_entries_simps [simp]:
  "defined_entries [] = []"
  "defined_entries ((k, v) # ps) = (if v = JUndefined then defined_entries ps else (k, v) # defined_entries ps)"
  by (simp_all add: defined_entries_def)

lemma keys_strip_entries: "map fst (strip_entries ps) = map fst (defined_entries ps)"
proof (induction ps)
  case (Cons p ps)
  then show ?case by (cases p) simp
qed simp

lemma own_keys_strip_entries: "own_keys ps \<Longrightarrow> own_keys (strip_entries ps)"
  unfolding own_keys_def keys_strip_entries defined_entries_def
  by (induction ps) auto

definition limits_ok :: "ResolvedCborOptions \<Rightarrow> bool" where
  "limits_ok options \<longleftrightarrow> maxByteLength options < 2 ^ 53 \<and> maxContainerLength options < 2 ^ 53"

lemma resolveLimit_bound: "resolveLimit name n maximum = Inr k \<Longrightarrow> k \<le> maximum"
  by (auto simp: resolveLimit_def split: jnum.splits if_splits)

lemma resolveOptions_limits: "resolveOptions options = Inr resolved \<Longrightarrow> limits_ok resolved"
  by (auto simp: resolveOptions_def res_simps limits_ok_def MAX_UINT32_def dest!: resolveLimit_bound)

text \<open>Reading back a header, a text and a number.\<close>

lemma readByte_Cons [simp]: "readByte (b # r) = Inr (unat b, r)"
  by (simp add: readByte_def)

lemma readBytes_append: "length x = n \<Longrightarrow> readBytes n (x @ r) = Inr (x, r)"
  by (simp add: readBytes_def)

lemma readItem_text:
  assumes "depth \<le> maxDepth options" "length x \<le> maxByteLength options" "limits_ok options" "text_decode x = Some s"
  shows "readItem options depth (argument_bytes 3 (length x) @ x @ r) = Inr (JStr s, r)"
proof -
  have "length x < 2 ^ 53" using assms(2,3) by (simp add: limits_ok_def)
  then obtain b rest where h: "argument_bytes 3 (length x) = b # rest" "drop_bit 5 (unat b) = 3" "unat b AND 0x1f \<noteq> 31"
      "\<And>r. readArgument (unat b AND 0x1f) (rest @ r) = Inr (length x, r)"
    using readArgument_header [of 3 "length x"] by auto
  show ?thesis using assms
    by (simp add: readItem.simps [of options depth "b # y" for y] h readLength_def readBytes_append)
qed

lemma encodeText_read:
  assumes "writer_inv w" "encodeText w s options = Inr w'" "depth \<le> maxDepth options" "limits_ok options"
  obtains bs where "wrote w bs w'" "\<And>r. readItem options depth (bs @ r) = Inr (JStr s, r)"
proof -
  let ?x = "text_encode s"
  obtain u where x: "length ?x \<le> maxByteLength options" "text_decode ?x = Some s"
      and u: "writeArgument w 3 (length ?x) = Inr u" "writeBytes u ?x = Inr w'"
    using assms(2) by (auto simp: encodeText_def Let_def res_simps split: if_splits)
  note wu = writeArgument_wrote [OF assms(1) u(1)]
  show ?thesis
    by (rule that [OF wrote_trans [OF wu writeBytes_wrote [OF wrote_inv [OF wu] u(2)]]])
      (simp add: readItem_text [OF assms(3) x(1) assms(4) x(2)])
qed

lemma encodeNumber_read:
  assumes "writer_inv w" "encodeNumber w n = Inr w'" "wf_num n" "depth \<le> maxDepth options"
  obtains bs where "wrote w bs w'" "\<And>r. readItem options depth (bs @ r) = Inr (JNum n, r)"
proof (cases n)
  case (JInt i)
  have safe: "safe_int i" using assms(2) JInt by (auto simp: encodeNumber_def split: if_splits)
  define m where "m = (if 0 \<le> i then 0 else 1 :: nat)"
  define a where "a = (if 0 \<le> i then nat i else nat (-1 - i))"
  have "m < 8" "a < 2 ^ 53" using safe by (auto simp: m_def a_def safe_int_def max_safe_def)
  then obtain b rest where h: "argument_bytes m a = b # rest" "drop_bit 5 (unat b) = m" "unat b AND 0x1f \<noteq> 31"
      "\<And>r. readArgument (unat b AND 0x1f) (rest @ r) = Inr (a, r)"
    using readArgument_header [of m a] by blast
  have "writeArgument w m a = Inr w'"
    using assms(2) JInt safe by (auto simp: encodeNumber_def m_def a_def split: if_splits)
  from writeArgument_wrote [OF assms(1) this] have w: "wrote w (b # rest) w'" by (simp add: h(1))
  show ?thesis
    by (rule that [OF w])
      (use assms(4) h JInt safe in \<open>auto simp: readItem.simps [of options depth "b # y" for y] m_def a_def\<close>)
next
  case (JDbl x)
  have fin: "dbl_finite x" and "writeFloat64 w x = Inr w'"
    using assms(2) JDbl by (auto simp: encodeNumber_def split: if_splits)
  then have w: "wrote w (byte_of 0xfb # float64_bytes x) w'"
    using writeBytes_wrote [OF assms(1)] by (simp add: write_as_bytes)
  have nb: "number_of_bits x = JDbl x" using assms(3) JDbl by simp
  have "drop_bit 5 (unat (byte_of 0xfb)) = 7" "unat (byte_of 0xfb) AND 0x1f = 27"
    by (simp_all add: drop_bit_eq_div and_0x1f)
  then show ?thesis
    by (intro that [OF w])
      (use assms(4) JDbl fin nb in \<open>simp add: readItem.simps [of options depth "byte_of 0xfb # y" for y] readSimple_def
        readBytes_append float64_roundtrip Let_def\<close>)
qed

lemma readItem_container:
  assumes "m < 8" "n \<le> limit" "limit < 2 ^ 53" "depth \<le> maxDepth options"
  obtains b rest where "argument_bytes m n = b # rest" "drop_bit 5 (unat b) = m" "unat b AND 0x1f \<noteq> 31"
    "\<And>r. readLength (unat b AND 0x1f) limit (rest @ r) = Inr (n, r)"
proof -
  have "n < 2 ^ 53" using assms(2,3) by simp
  then obtain b rest where h: "argument_bytes m n = b # rest" "drop_bit 5 (unat b) = m" "unat b AND 0x1f \<noteq> 31"
      "\<And>r. readArgument (unat b AND 0x1f) (rest @ r) = Inr (n, r)"
    using readArgument_header [OF assms(1), of n] by blast
  show ?thesis by (rule that [OF h(1-3)]) (use h assms(2) in \<open>simp add: readLength_def\<close>)
qed

text \<open>
  \<open>reads_back options depth w w' v\<close>: between \<open>w\<close> and \<open>w'\<close> bytes were written that the reader
  turns into \<open>v\<close>, whatever follows them; for the items of an array and the entries of an
  object likewise.
\<close>

definition reads_back :: "ResolvedCborOptions \<Rightarrow> nat \<Rightarrow> CborWriter \<Rightarrow> CborWriter \<Rightarrow> jsval \<Rightarrow> bool" where
  "reads_back options depth w w' v \<longleftrightarrow>
     (\<exists>bs. wrote w bs w' \<and> (\<forall>r. readItem options depth (bs @ r) = Inr (v, r)))"

definition items_read_back :: "ResolvedCborOptions \<Rightarrow> nat \<Rightarrow> CborWriter \<Rightarrow> CborWriter \<Rightarrow> jsval list \<Rightarrow> bool" where
  "items_read_back options depth w w' vs \<longleftrightarrow>
     (\<exists>bs. wrote w bs w' \<and> (\<forall>r. readItems (readItem options depth) (length vs) (bs @ r) = Inr (vs, r)))"

definition entries_read_back ::
  "ResolvedCborOptions \<Rightarrow> nat \<Rightarrow> CborWriter \<Rightarrow> CborWriter \<Rightarrow> (jstring \<times> jsval) list \<Rightarrow> bool" where
  "entries_read_back options depth w w' ps \<longleftrightarrow>
     (\<exists>bs. wrote w bs w' \<and>
       (\<forall>r acc. own_keys (acc @ ps) \<longrightarrow>
          readEntries (readItem options depth) (length ps) (fst ` set acc) acc (bs @ r) = Inr (acc @ ps, r)))"

lemma reads_back_inv: "reads_back options depth w w' v \<Longrightarrow> writer_inv w'"
  by (auto simp: reads_back_def dest: wrote_inv)

lemma reads_backI:
  "wrote w bs w' \<Longrightarrow> (\<And>r. readItem options depth (bs @ r) = Inr (v, r)) \<Longrightarrow> reads_back options depth w w' v"
  by (auto simp: reads_back_def)

lemma strip_scalar [simp]:
  "strip JNull = JNull" "strip (JBool b) = JBool b" "strip (JNum n) = JNum n" "strip (JStr s) = JStr s"
  "strip (JBytes x) = JBytes x" "strip (JArr vs) = JArr (strip_items vs)"
  "strip (JObj sy ps) = JObj sy (strip_entries ps)"
  by (simp_all add: strip.simps)

lemma length_strip [simp]:
  "length (strip_items vs) = length vs" "length (strip_entries ps) = length (defined_entries ps)"
  by (induction vs) (simp_all, metis keys_strip_entries length_map)

lemma simple_byte_read:
  assumes "depth \<le> maxDepth options" "n = 0xf6 \<and> v = JNull \<or> n = 0xf5 \<and> v = JBool True \<or> n = 0xf4 \<and> v = JBool False"
  shows "readItem options depth ([byte_of n] @ r) = Inr (v, r)"
  using assms by (auto simp: readItem.simps [of options depth "_ # _"] drop_bit_eq_div and_0x1f readSimple_def)

lemma writeByte_reads_back:
  assumes "writer_inv w" "writeByte w n = Inr w'" "depth \<le> maxDepth options"
    "n = 0xf6 \<and> v = JNull \<or> n = 0xf5 \<and> v = JBool True \<or> n = 0xf4 \<and> v = JBool False"
  shows "reads_back options depth w w' v"
  by (rule reads_backI [OF writeBytes_wrote [OF assms(1), of "[byte_of n]"]])
    (use assms in \<open>simp_all add: write_as_bytes flip: append_Cons\<close>, metis append_Cons append_Nil simple_byte_read)

lemma bytes_reads_back:
  assumes "writer_inv w" "limits_ok options" "depth \<le> maxDepth options" "length x \<le> maxByteLength options"
    "rbind (writeArgument w 2 (length x)) (\<lambda>w'. writeBytes w' x) = Inr w'"
  shows "reads_back options depth w w' (JBytes x)"
proof -
  obtain u where u: "writeArgument w 2 (length x) = Inr u" "writeBytes u x = Inr w'"
    using assms(5) by (auto simp: res_simps)
  obtain b rest where h: "argument_bytes 2 (length x) = b # rest" "drop_bit 5 (unat b) = 2" "unat b AND 0x1f \<noteq> 31"
      "\<And>r. readLength (unat b AND 0x1f) (maxByteLength options) (rest @ r) = Inr (length x, r)"
    using readItem_container [of 2 "length x", OF _ assms(4) _ assms(3)] assms(2) by (auto simp: limits_ok_def)
  note wu = writeArgument_wrote [OF assms(1) u(1)]
  show ?thesis
    by (rule reads_backI [OF wrote_trans [OF wu writeBytes_wrote [OF wrote_inv [OF wu] u(2)]]])
      (use assms(3) h in \<open>simp add: readItem.simps [of options depth "_ # _"] readBytes_append\<close>)
qed

lemma array_reads_back:
  assumes "writer_inv w" "limits_ok options" "depth \<le> maxDepth options" "length vs \<le> maxContainerLength options"
    "writeArgument w 4 (length vs) = Inr u" "items_read_back options (Suc depth) u w' vs"
  shows "reads_back options depth w w' (JArr vs)"
proof -
  obtain b rest where h: "argument_bytes 4 (length vs) = b # rest" "drop_bit 5 (unat b) = 4" "unat b AND 0x1f \<noteq> 31"
      "\<And>r. readLength (unat b AND 0x1f) (maxContainerLength options) (rest @ r) = Inr (length vs, r)"
    using readItem_container [of 4 "length vs", OF _ assms(4) _ assms(3)] assms(2) by (auto simp: limits_ok_def)
  obtain bs where bs: "wrote u bs w'"
      "\<And>r. readItems (readItem options (Suc depth)) (length vs) (bs @ r) = Inr (vs, r)"
    using assms(6) by (auto simp: items_read_back_def)
  show ?thesis
    by (rule reads_backI [OF wrote_trans [OF writeArgument_wrote [OF assms(1,5)] bs(1)]])
      (use assms(3) h bs(2) in \<open>simp add: readItem.simps [of options depth "_ # _"]\<close>)
qed

lemma object_reads_back:
  assumes "writer_inv w" "limits_ok options" "depth \<le> maxDepth options" "length ps \<le> maxContainerLength options"
    "writeArgument w 5 (length ps) = Inr u" "entries_read_back options (Suc depth) u w' ps" "own_keys ps"
  shows "reads_back options depth w w' (JObj False ps)"
proof -
  obtain b rest where h: "argument_bytes 5 (length ps) = b # rest" "drop_bit 5 (unat b) = 5" "unat b AND 0x1f \<noteq> 31"
      "\<And>r. readLength (unat b AND 0x1f) (maxContainerLength options) (rest @ r) = Inr (length ps, r)"
    using readItem_container [of 5 "length ps", OF _ assms(4) _ assms(3)] assms(2) by (auto simp: limits_ok_def)
  obtain bs where bs: "wrote u bs w'" "\<And>r acc. own_keys (acc @ ps) \<Longrightarrow>
      readEntries (readItem options (Suc depth)) (length ps) (fst ` set acc) acc (bs @ r) = Inr (acc @ ps, r)"
    using assms(6) by (auto simp: entries_read_back_def)
  show ?thesis
    by (rule reads_backI [OF wrote_trans [OF writeArgument_wrote [OF assms(1,5)] bs(1)]])
      (use assms(3,7) h bs(2) [of "[]"] in \<open>simp add: readItem.simps [of options depth "_ # _"]\<close>)
qed

lemma items_read_back_Cons:
  assumes "reads_back options depth w u v" "items_read_back options depth u w' vs"
  shows "items_read_back options depth w w' (v # vs)"
proof -
  obtain a where a: "wrote w a u" "\<And>r. readItem options depth (a @ r) = Inr (v, r)"
    using assms(1) by (auto simp: reads_back_def)
  obtain c where c: "wrote u c w'" "\<And>r. readItems (readItem options depth) (length vs) (c @ r) = Inr (vs, r)"
    using assms(2) by (auto simp: items_read_back_def)
  show ?thesis using wrote_trans [OF a(1) c(1)] a(2) c(2)
    by (auto simp: items_read_back_def intro!: exI [of _ "a @ c"])
qed

lemma entries_read_back_Cons:
  assumes "reads_back options depth w t (JStr k)" "reads_back options depth t u v"
    "entries_read_back options depth u w' ps"
  shows "entries_read_back options depth w w' ((k, v) # ps)"
proof -
  obtain x where x: "wrote w x t" "\<And>r. readItem options depth (x @ r) = Inr (JStr k, r)"
    using assms(1) by (auto simp: reads_back_def)
  obtain a where a: "wrote t a u" "\<And>r. readItem options depth (a @ r) = Inr (v, r)"
    using assms(2) by (auto simp: reads_back_def)
  obtain c where c: "wrote u c w'" "\<And>r acc. own_keys (acc @ ps) \<Longrightarrow>
      readEntries (readItem options depth) (length ps) (fst ` set acc) acc (c @ r) = Inr (acc @ ps, r)"
    using assms(3) by (auto simp: entries_read_back_def)
  have "readEntries (readItem options depth) (length ((k, v) # ps)) (fst ` set acc) acc ((x @ a @ c) @ r)
      = Inr (acc @ (k, v) # ps, r)" if "own_keys (acc @ (k, v) # ps)" for r acc
  proof -
    have ok: "own_keys ((acc @ [(k, v)]) @ ps)" using that by simp
    then have own: "own_keys (acc @ [(k, v)])" by (simp add: own_keys_def sorted_wrt_append)
    with own_keys_distinct [OF own] have "k \<notin> fst ` set acc" by auto
    with c(2) [OF ok, of r] show ?thesis by (simp add: x(2) a(2) obj_put_snoc [OF own])
  qed
  moreover have "wrote w (x @ a @ c) w'" by (rule wrote_trans [OF x(1) wrote_trans [OF a(1) c(1)]])
  ultimately show ?thesis by (auto simp: entries_read_back_def)
qed

lemma read_back_Nil:
  "writer_inv w \<Longrightarrow> items_read_back options depth w w []" "writer_inv w \<Longrightarrow> entries_read_back options depth w w []"
  by (auto simp: items_read_back_def entries_read_back_def intro!: exI [of _ "[]"] wrote_refl)

text \<open>The encoder as a whole, by its own recursion.\<close>

lemma encode_depth: "encodeValue options v depth w = Inr w' \<Longrightarrow> depth \<le> maxDepth options"
  by (auto simp: encodeValue.simps [of options v] split: if_splits)

lemma encode_reads_back:
  "writer_inv w \<Longrightarrow> limits_ok options \<Longrightarrow> wf_value v \<Longrightarrow> encodeValue options v depth w = Inr w' \<Longrightarrow>
     reads_back options depth w w' (strip v)"
  "writer_inv w \<Longrightarrow> limits_ok options \<Longrightarrow> wf_items vs \<Longrightarrow> encodeItems options vs depth w = Inr w' \<Longrightarrow>
     items_read_back options depth w w' (strip_items vs)"
  "writer_inv w \<Longrightarrow> limits_ok options \<Longrightarrow> wf_entries ps \<Longrightarrow> encodeEntries options ps depth w = Inr w' \<Longrightarrow>
     entries_read_back options depth w w' (strip_entries ps)"
proof (induction options v depth w and options vs depth w and options ps depth w
    arbitrary: w' and w' and w' rule: encodeValue_encodeItems_encodeEntries.induct)
  case (1 options v depth w)
  note d = encode_depth [OF 1(6)]
  note enc = 1(6) [unfolded encodeValue.simps [of options v]]
  show ?case
  proof (cases v)
    case (JNum n)
    then have "encodeNumber w n = Inr w'" "wf_num n" using enc d 1(5) by (auto simp: wf_value.simps)
    from encodeNumber_read [OF 1(3) this d] show ?thesis using JNum by (auto simp: reads_back_def)
  next
    case (JStr s)
    then have "encodeText w s options = Inr w'" using enc d by simp
    from encodeText_read [OF 1(3) this d 1(4)] show ?thesis using JStr by (auto simp: reads_back_def)
  next
    case (JBytes x)
    then show ?thesis using enc d bytes_reads_back [OF 1(3,4) d, of x w'] by (auto split: if_splits)
  next
    case (JArr vs)
    then obtain u where u: "length vs \<le> maxContainerLength options" "writeArgument w 4 (length vs) = Inr u"
        "encodeItems options vs (depth + 1) u = Inr w'"
      using enc d by (auto simp: res_simps split: if_splits)
    have "wf_items vs" using 1(5) JArr by (simp add: wf_value.simps)
    with 1(1) [OF _ JArr _ u(2) wrote_inv [OF writeArgument_wrote [OF 1(3) u(2)]] 1(4) _ u(3)] d u(1)
    have "items_read_back options (Suc depth) u w' (strip_items vs)" by simp
    from array_reads_back [OF 1(3,4) d _ _ this] u JArr show ?thesis by simp
  next
    case (JObj sy ps)
    let ?n = "length (defined_entries ps)"
    obtain u where u: "?n \<le> maxContainerLength options" "writeArgument w 5 ?n = Inr u"
        "encodeEntries options ps (depth + 1) u = Inr w'" and s: "\<not> sy"
      using enc d JObj by (auto simp: res_simps split: if_splits)
    have "wf_entries ps" "own_keys (strip_entries ps)"
      using 1(5) JObj by (auto simp: wf_value.simps own_keys_strip_entries)
    with 1(2) [OF _ JObj s _ u(2) wrote_inv [OF writeArgument_wrote [OF 1(3) u(2)]] 1(4) _ u(3)] d u(1)
    have "entries_read_back options (Suc depth) u w' (strip_entries ps)" "own_keys (strip_entries ps)" by simp_all
    from object_reads_back [OF 1(3,4) d _ _ this] u JObj s show ?thesis by simp
  qed (use enc d 1(3,4) in \<open>auto intro!: writeByte_reads_back split: if_splits\<close>)
next
  case (3 options v vs depth w)
  then obtain u where u: "encodeValue options v depth w = Inr u" "encodeItems options vs depth u = Inr w'" "v \<noteq> JUndefined"
    by (auto simp: res_simps split: if_splits)
  have "reads_back options depth w u (strip v)" using 3(1) [OF u(3) 3(3,4) _ u(1)] 3(5) by simp
  with 3(2) [OF u(3,1) reads_back_inv [OF this] 3(4) _ u(2)] 3(5) show ?case by (simp add: items_read_back_Cons)
next
  case (5 options k v ps depth w)
  show ?case
  proof (cases "v = JUndefined")
    case False
    then obtain t u where t: "encodeText w k options = Inr t" and u: "encodeValue options v depth t = Inr u"
        "encodeEntries options ps depth u = Inr w'"
      using 5(7) by (auto simp: res_simps)
    have tr: "reads_back options depth w t (JStr k)"
      using encodeText_read [OF 5(4) t encode_depth [OF u(1)] 5(5)] by (auto simp: reads_back_def)
    have ur: "reads_back options depth t u (strip v)"
      using 5(2) [OF False t reads_back_inv [OF tr] 5(5) _ u(1)] 5(6) by simp
    from 5(3) [OF False t u(1) reads_back_inv [OF ur] 5(5) _ u(2)] 5(6) show ?thesis
      using False entries_read_back_Cons [OF tr ur] by simp
  qed (use 5 in auto)
qed (auto intro: read_back_Nil)

lemma encodeCbor_reads_back:
  assumes "resolveOptions options = Inr resolved" "wf_value v" "encodeCbor v options = Inr bytes"
  shows "length bytes \<le> maxByteLength resolved" "decode_all resolved bytes = Inr (strip v)"
proof -
  let ?w = "new_writer (maxByteLength resolved)"
  obtain w where w: "encodeValue resolved v 0 ?w = Inr w" "bytes = finish w"
    using assms(1,3) by (auto simp: encodeCbor_def res_simps)
  have "reads_back resolved 0 ?w w (strip v)"
    using encode_reads_back(1) [OF _ resolveOptions_limits [OF assms(1)] assms(2) w(1)] by simp
  then have wr: "wrote ?w bytes w" "\<And>r. readItem resolved 0 (bytes @ r) = Inr (strip v, r)"
    using w(2) by (auto simp: reads_back_def wrote_def)
  show "length bytes \<le> maxByteLength resolved" using wr(1) finish_bound [of w] w(2) by (simp add: wrote_def)
  show "decode_all resolved bytes = Inr (strip v)" using wr(2) [of "[]"] by (simp add: decode_all_def)
qed

section \<open>The values the decoder returns\<close>

text \<open>
  The reference encoding of a value, and the values that the encoder accepts at a depth. Every
  decoded value is one of them, and its encoding is no longer than the bytes it was read from.
\<close>

fun number_bytes :: "jnum \<Rightarrow> byte list" where
  "number_bytes (JInt i) = (if 0 \<le> i then argument_bytes 0 (nat i) else argument_bytes 1 (nat (-1 - i)))"
| "number_bytes (JDbl b) = byte_of 0xfb # float64_bytes b"

definition text_bytes :: "jstring \<Rightarrow> byte list" where
  "text_bytes s = argument_bytes 3 (length (text_encode s)) @ text_encode s"

fun value_bytes :: "jsval \<Rightarrow> byte list" and items_bytes :: "jsval list \<Rightarrow> byte list"
  and entries_bytes :: "(jstring \<times> jsval) list \<Rightarrow> byte list" where
  "value_bytes JNull = [byte_of 0xf6]"
| "value_bytes (JBool b) = [byte_of (if b then 0xf5 else 0xf4)]"
| "value_bytes (JNum n) = number_bytes n"
| "value_bytes (JStr s) = text_bytes s"
| "value_bytes (JBytes x) = argument_bytes 2 (length x) @ x"
| "value_bytes (JArr vs) = argument_bytes 4 (length vs) @ items_bytes vs"
| "value_bytes (JObj _ ps) = argument_bytes 5 (length (defined_entries ps)) @ entries_bytes ps"
| "value_bytes _ = []"
| "items_bytes [] = []"
| "items_bytes (v # vs) = value_bytes v @ items_bytes vs"
| "entries_bytes [] = []"
| "entries_bytes ((k, v) # ps) =
     (if v = JUndefined then [] else text_bytes k @ value_bytes v) @ entries_bytes ps"

definition text_ok :: "ResolvedCborOptions \<Rightarrow> jstring \<Rightarrow> bool" where
  "text_ok options s \<longleftrightarrow> length (text_encode s) \<le> maxByteLength options \<and> well_formed_text s"

fun number_ok :: "jnum \<Rightarrow> bool" where
  "number_ok (JInt i) = safe_int i"
| "number_ok (JDbl b) = dbl_finite b"

fun encodable :: "ResolvedCborOptions \<Rightarrow> nat \<Rightarrow> jsval \<Rightarrow> bool"
  and encodable_items :: "ResolvedCborOptions \<Rightarrow> nat \<Rightarrow> jsval list \<Rightarrow> bool"
  and encodable_entries :: "ResolvedCborOptions \<Rightarrow> nat \<Rightarrow> (jstring \<times> jsval) list \<Rightarrow> bool" where
  "encodable options depth v = (depth \<le> maxDepth options \<and>
     (case v of JNull \<Rightarrow> True | JBool b \<Rightarrow> True | JNum n \<Rightarrow> number_ok n | JStr s \<Rightarrow> text_ok options s
      | JBytes x \<Rightarrow> length x \<le> maxByteLength options
      | JArr vs \<Rightarrow> length vs \<le> maxContainerLength options \<and> encodable_items options (depth + 1) vs
      | JObj sy ps \<Rightarrow> \<not> sy \<and> length (defined_entries ps) \<le> maxContainerLength options
          \<and> encodable_entries options (depth + 1) ps
      | _ \<Rightarrow> False))"
| "encodable_items options depth [] = True"
| "encodable_items options depth (v # vs) = (encodable options depth v \<and> encodable_items options depth vs)"
| "encodable_entries options depth [] = True"
| "encodable_entries options depth ((k, v) # ps) =
     ((v \<noteq> JUndefined \<longrightarrow> text_ok options k \<and> encodable options depth v) \<and> encodable_entries options depth ps)"

declare encodable.simps [simp del]

text \<open>A write step: from any writer with room for the bytes, the step succeeds and appends them.\<close>

definition appends :: "(CborWriter \<Rightarrow> (cbor_error, CborWriter) res) \<Rightarrow> byte list \<Rightarrow> bool" where
  "appends f bs \<longleftrightarrow> (\<forall>w. writer_inv w \<longrightarrow> length (finish w) + length bs \<le> w_maxByteLength w \<longrightarrow>
     (\<exists>w'. f w = Inr w' \<and> wrote w bs w'))"

lemma appends_writeBytes: "appends (\<lambda>w. writeBytes w bs) bs"
  unfolding appends_def by (metis is_ok_iff writeBytes_result(1) writeBytes_wrote)

lemma appends_bind:
  assumes "appends f a" "appends g b" shows "appends (\<lambda>w. rbind (f w) g) (a @ b)"
  unfolding appends_def
proof (intro allI impI)
  fix w assume w: "writer_inv w" "length (finish w) + length (a @ b) \<le> w_maxByteLength w"
  then obtain u where u: "f w = Inr u" "wrote w a u" using assms(1) by (auto simp: appends_def)
  with w obtain w' where "g u = Inr w'" "wrote u b w'"
    using assms(2) by (fastforce simp: appends_def wrote_def)
  with u show "\<exists>w'. rbind (f w) g = Inr w' \<and> wrote w (a @ b) w'" by (auto intro: wrote_trans)
qed

lemma appends_bind_Cons: "appends f [a] \<Longrightarrow> appends g b \<Longrightarrow> appends (\<lambda>w. rbind (f w) g) (a # b)"
  using appends_bind [of f "[a]" g b] by simp

lemma appends_writeArgument: "appends (\<lambda>w. writeArgument w m n) (argument_bytes m n)"
  by (auto simp: writeArgument_def argument_bytes_def write_as_bytes writeUint64_def uint64_bytes_def Let_def
      intro!: appends_writeBytes appends_bind_Cons appends_bind)

lemma appends_encodeText: "text_ok options s \<Longrightarrow> appends (\<lambda>w. encodeText w s options) (text_bytes s)"
  by (auto simp: text_ok_def encodeText_def text_bytes_def Let_def text_roundtrip_iff
      intro!: appends_bind appends_writeArgument appends_writeBytes)

lemma appends_encodeNumber: "number_ok n \<Longrightarrow> appends (\<lambda>w. encodeNumber w n) (number_bytes n)"
  by (cases n) (auto simp: encodeNumber_def write_as_bytes intro: appends_writeArgument appends_writeBytes)

lemma encodable_defined: "encodable options depth v \<Longrightarrow> v \<noteq> JUndefined"
  by (auto simp: encodable.simps)

lemma encode_appends:
  "encodable options depth v \<Longrightarrow> appends (encodeValue options v depth) (value_bytes v)"
  "encodable_items options depth vs \<Longrightarrow> appends (encodeItems options vs depth) (items_bytes vs)"
  "encodable_entries options depth ps \<Longrightarrow> appends (encodeEntries options ps depth) (entries_bytes ps)"
proof (induction options depth v and options depth vs and options depth ps
    rule: encodable_encodable_items_encodable_entries.induct)
  case (1 options depth v)
  have d: "depth \<le> maxDepth options" using 1(3) by (simp add: encodable.simps)
  show ?case
  proof (cases v)
    case (JArr vs)
    then have "length vs \<le> maxContainerLength options" "encodable_items options (depth + 1) vs"
      using 1(3) by (auto simp: encodable.simps)
    with 1(1) [OF JArr] JArr d show ?thesis
      by (auto simp: encodeValue.simps fun_eq_iff intro!: appends_bind appends_writeArgument)
  next
    case (JObj sy ps)
    then have "length (defined_entries ps) \<le> maxContainerLength options" "encodable_entries options (depth + 1) ps" "\<not> sy"
      using 1(3) by (auto simp: encodable.simps)
    with 1(2) [OF JObj] JObj d show ?thesis
      by (auto simp: encodeValue.simps intro!: appends_bind appends_writeArgument)
  qed (use 1(3) d in \<open>auto simp: encodable.simps encodeValue.simps write_as_bytes
      intro!: appends_writeBytes appends_encodeNumber appends_encodeText appends_bind appends_writeArgument\<close>)
next
  case (3 options depth v vs)
  then show ?case using encodable_defined [of options depth v] by (auto intro!: appends_bind)
next
  case (5 options depth k v ps)
  then show ?case by (cases "v = JUndefined") (auto intro!: appends_bind appends_encodeText)
qed (auto simp: appends_def intro: wrote_refl)

text \<open>List forms of the recursive predicates.\<close>

lemma list_forms:
  "encodable_items options depth vs = list_all (encodable options depth) vs"
  "wf_items vs = list_all wf_value vs"
  "strip_items vs = map strip vs"
  "items_bytes vs = concat (map value_bytes vs)"
  by (induction vs) simp_all

lemma entry_forms:
  "encodable_entries options depth ps =
     list_all (\<lambda>(k, v). v \<noteq> JUndefined \<longrightarrow> text_ok options k \<and> encodable options depth v) ps"
  "wf_entries ps = list_all (wf_value \<circ> snd) ps"
  by (induction ps) auto

lemma strip_entries_id: "list_all (\<lambda>(k, v). v \<noteq> JUndefined \<and> strip v = v) ps \<Longrightarrow> strip_entries ps = ps"
  by (induction ps) auto

text \<open>A decoded value: accepted by the encoder, well formed and unchanged by it.\<close>

definition decoded :: "ResolvedCborOptions \<Rightarrow> nat \<Rightarrow> jsval \<Rightarrow> bool" where
  "decoded options depth v \<longleftrightarrow> encodable options depth v \<and> wf_value v \<and> strip v = v"

definition entry_size :: "jstring \<times> jsval \<Rightarrow> nat" where
  "entry_size p = (if snd p = JUndefined then 0 else length (text_bytes (fst p)) + length (value_bytes (snd p)))"

lemma length_entries_bytes: "length (entries_bytes ps) = sum_list (map entry_size ps)"
  by (induction ps) (auto simp: entry_size_def)

lemma length_items_bytes: "length (items_bytes vs) = sum_list (map (length \<circ> value_bytes) vs)"
  by (induction vs) auto

lemma length_argument_bytes:
  "length (argument_bytes m n) =
     (if n < 24 then 1 else if n \<le> 0xff then 2 else if n \<le> 0xffff then 3 else if n \<le> MAX_UINT32 then 5 else 9)"
  by (simp add: argument_bytes_def uint64_bytes_def)

lemma readBytes_spec: "readBytes n x = Inr (y, r) \<Longrightarrow> length y = n \<and> x = y @ r"
  by (auto simp: readBytes_def split: if_splits)

lemma readArgument26_spec: "readArgument26 x = Inr (n, r) \<Longrightarrow> n \<le> MAX_UINT32 \<and> length x = 4 + length r"
proof -
  assume "readArgument26 x = Inr (n, r)"
  then obtain y where y: "readBytes 4 x = Inr (y, r)"
      "n = unat (y ! 0) * 0x1000000 + unat (y ! 1) * 0x10000 + unat (y ! 2) * 0x100 + unat (y ! 3)"
    by (auto simp: readArgument26_def res_simps)
  have "unat (y ! i) \<le> 255" for i using unat_byte_lt [of "y ! i"] by linarith
  from this [of 0] this [of 1] this [of 2] this [of 3] y show ?thesis
    by (auto simp: MAX_UINT32_def dest: readBytes_spec)
qed

text \<open>An argument is below $2^{53}$, and its shortest form is no longer than the form it was read from.\<close>

lemma readArgument_spec:
  assumes "readArgument info x = Inr (n, r)"
  shows "n < 2 ^ 53" "length (argument_bytes m n) + length r \<le> Suc (length x)"
proof -
  have "n < 2 ^ 53 \<and> length (argument_bytes m n) + length r \<le> Suc (length x)"
  proof (cases "info < 24 \<or> info = 24")
    case True
    then show ?thesis
    proof
      assume "info < 24"
      then show ?thesis using assms by (simp add: readArgument_def length_argument_bytes)
    next
      assume "info = 24"
      then obtain b where b: "x = b # r" "n = unat b"
        using assms by (auto simp: readArgument_def readByte_def split: list.splits)
      then have "n \<le> 255" using unat_byte_lt [of b] by linarith
      with b(1) show ?thesis by (auto simp: length_argument_bytes)
    qed
  next
    case False
    then consider "info = 25" | "info = 26" | "info = 27"
      using assms by (auto simp: readArgument_def split: if_splits)
    then show ?thesis
    proof cases
      case 1
      then obtain y where y: "readBytes 2 x = Inr (y, r)" "n = unat (y ! 0) * 0x100 + unat (y ! 1)"
        using assms by (auto simp: readArgument_def res_simps)
      have "unat (y ! i) \<le> 255" for i using unat_byte_lt [of "y ! i"] by linarith
      from this [of 0] this [of 1] y(2) have "n \<le> 0xffff" by simp
      with y(1) show ?thesis by (auto simp: length_argument_bytes dest: readBytes_spec)
    next
      case 2
      then show ?thesis using assms readArgument26_spec [of x n r]
        by (auto simp: readArgument_def length_argument_bytes MAX_UINT32_def)
    next
      case 3
      then obtain high low t where h: "readArgument26 x = Inr (high, t)" "readArgument26 t = Inr (low, r)"
          "high \<le> 0x1fffff" "n = high * UINT32_BASE + low"
        using assms by (auto simp: readArgument_def res_simps split: if_splits)
      with readArgument26_spec [OF h(1)] readArgument26_spec [OF h(2)] show ?thesis
        by (auto simp: length_argument_bytes MAX_UINT32_def UINT32_BASE_def)
    qed
  qed
  then show "n < 2 ^ 53" "length (argument_bytes m n) + length r \<le> Suc (length x)" by simp_all
qed

lemma readLength_spec:
  assumes "readLength info limit x = Inr (n, r)"
  shows "n \<le> limit" "length (argument_bytes m n) + length r \<le> Suc (length x)"
  using assms readArgument_spec(2) [of info x n r m] by (auto simp: readLength_def res_simps split: if_splits)

text \<open>The loops over items and entries, for any element reader with these properties.\<close>

definition reader_ok :: "(byte list \<Rightarrow> (cbor_error, jsval \<times> byte list) res) \<Rightarrow> ResolvedCborOptions \<Rightarrow> nat \<Rightarrow> bool" where
  "reader_ok f options depth \<longleftrightarrow>
     (\<forall>x v r. f x = Inr (v, r) \<longrightarrow> decoded options depth v \<and> length (value_bytes v) + length r \<le> length x)"

lemma readItems_spec:
  assumes "reader_ok f options depth"
  shows "readItems f n x = Inr (vs, r) \<Longrightarrow>
    length vs = n \<and> list_all (decoded options depth) vs \<and> length (items_bytes vs) + length r \<le> length x"
proof (induction n arbitrary: x vs)
  case (Suc n)
  then obtain v t vs' where v: "f x = Inr (v, t)" "readItems f n t = Inr (vs', r)" "vs = v # vs'"
    by (auto simp: res_simps)
  then show ?case using Suc.IH [OF v(2)] assms by (fastforce simp: reader_ok_def)
qed auto

definition decoded_entry :: "ResolvedCborOptions \<Rightarrow> nat \<Rightarrow> jstring \<times> jsval \<Rightarrow> bool" where
  "decoded_entry options depth p \<longleftrightarrow> text_ok options (fst p) \<and> decoded options depth (snd p)"

lemma sum_obj_insert: "sum_list (map g (obj_insert k v ps)) = g (k, v) + sum_list (map g ps)" for g :: "_ \<Rightarrow> nat"
  by (induction k v ps rule: obj_insert.induct) auto

lemma length_obj_insert [simp]: "length (obj_insert k v ps) = Suc (length ps)"
  by (induction k v ps rule: obj_insert.induct) auto

lemma readEntries_spec:
  assumes "reader_ok f options depth"
  shows "readEntries f n (fst ` set acc) acc x = Inr (ps, r) \<Longrightarrow> own_keys acc \<Longrightarrow>
    list_all (decoded_entry options depth) acc \<Longrightarrow>
    length ps = length acc + n \<and> own_keys ps \<and> list_all (decoded_entry options depth) ps \<and>
    length (entries_bytes ps) + length r \<le> length (entries_bytes acc) + length x"
proof (induction n arbitrary: x acc)
  case (Suc n)
  obtain key t where key: "f x = Inr (key, t)" using Suc.prems(1) by (auto simp: res_simps)
  then obtain k v u where k: "key = JStr k" "k \<notin> fst ` set acc" "f t = Inr (v, u)"
      "readEntries f n (insert k (fst ` set acc)) (obj_put k v acc) u = Inr (ps, r)"
    using Suc.prems(1) by (auto simp: res_simps split: jsval.splits if_splits)
  let ?acc = "obj_put k v acc"
  have ins: "?acc = obj_insert k v acc" using k(2) by (simp add: obj_put_def)
  have "text_ok options k" and dv: "decoded options depth v"
    and kl: "length (text_bytes k) + length t \<le> length x" and vl: "length (value_bytes v) + length u \<le> length t"
    using assms key k(1,3) by (fastforce simp: reader_ok_def decoded_def encodable.simps)+
  then have all: "list_all (decoded_entry options depth) ?acc"
    using Suc.prems(3) by (auto simp: ins decoded_entry_def list_all_iff set_obj_insert)
  have "readEntries f n (fst ` set ?acc) ?acc u = Inr (ps, r)"
    using k(4) keys_obj_put [of k v acc] by simp
  from Suc.IH [OF this own_keys_obj_put [OF Suc.prems(2)] all]
  have "length ps = length ?acc + n" "own_keys ps" "list_all (decoded_entry options depth) ps"
      "length (entries_bytes ps) + length r \<le> length (entries_bytes ?acc) + length u" by simp_all
  then show ?case using kl vl by (simp add: ins length_entries_bytes sum_obj_insert entry_size_def split: if_splits)
qed simp

text \<open>One item, by cases on its initial byte.\<close>

lemma readSimple_spec:
  assumes "readSimple info x = Inr (v, r)" "depth \<le> maxDepth options"
  shows "decoded options depth v \<and> length (value_bytes v) + length r \<le> Suc (length x)"
proof (cases "info = 27")
  case True
  then obtain y where y: "readBytes 8 x = Inr (y, r)" "v = JNum (number_of_bits (float64_of_bytes y))"
      "num_finite (number_of_bits (float64_of_bytes y))" "\<And>i. number_of_bits (float64_of_bytes y) = JInt i \<Longrightarrow> safe_int i"
    using assms(1) by (auto simp: readSimple_def res_simps Let_def split: if_splits jnum.splits)
  define n where "n = number_of_bits (float64_of_bytes y)"
  have "wf_num n" by (simp add: n_def wf_number_of_bits)
  moreover have "number_ok n" "length (number_bytes n) \<le> 9"
    using y(3,4) by (cases n; simp add: n_def [symmetric] length_argument_bytes)+
  moreover have "length x = 8 + length r" using readBytes_spec [OF y(1)] by auto
  ultimately show ?thesis using y(2) assms(2)
    by (simp add: n_def [symmetric] decoded_def encodable.simps wf_value.simps)
next
  case False
  then show ?thesis using assms
    by (auto simp: readSimple_def decoded_def encodable.simps wf_value.simps split: if_splits)
qed

lemma decoded_text:
  assumes "text_decode x = Some s" "length x \<le> maxByteLength options" "depth \<le> maxDepth options"
  shows "decoded options depth (JStr s)" "text_encode s = x"
  using assms text_encode_decode [OF assms(1)]
  by (auto simp: decoded_def encodable.simps text_ok_def wf_value.simps)

lemma decoded_array:
  assumes "list_all (decoded options (Suc depth)) vs" "length vs \<le> maxContainerLength options" "depth \<le> maxDepth options"
  shows "decoded options depth (JArr vs)"
  using assms by (auto simp: decoded_def encodable.simps wf_value.simps list_forms list_all_iff intro!: map_idI)

lemma decoded_object:
  assumes "list_all (decoded_entry options (Suc depth)) ps" "own_keys ps" "length ps \<le> maxContainerLength options"
    "depth \<le> maxDepth options"
  shows "decoded options depth (JObj False ps)"
proof -
  have "list_all (\<lambda>(k, v). v \<noteq> JUndefined \<and> strip v = v) ps"
    using assms(1) by (fastforce simp: list_all_iff decoded_entry_def decoded_def dest: encodable_defined)
  then show ?thesis using assms length_strip(2) [of ps]
    by (auto simp: decoded_def decoded_entry_def encodable.simps wf_value.simps entry_forms list_all_iff strip_entries_id)
qed

lemma readItem_decoded:
  assumes "reader_ok (readItem options (Suc depth)) options (Suc depth)" "readItem options depth x = Inr (v, r)"
  shows "decoded options depth v \<and> length (value_bytes v) + length r \<le> length x"
proof -
  obtain b t where x: "x = b # t" and d: "depth \<le> maxDepth options"
    using assms(2) by (auto simp: readItem.simps [of options depth x] readByte_def res_simps split: if_splits list.splits)
  define m i where "m = drop_bit 5 (unat b)" and "i = unat b AND 0x1f"
  note rd = assms(2) [unfolded x readItem.simps [of options depth "b # t"] readByte_Cons rbind_simps prod.case
      Let_def m_def [symmetric] i_def [symmetric]]
  consider "m = 0" | "m = 1" | "m = 2" | "m = 3" | "m = 4" | "m = 5" | "m = 7"
    using rd d by (auto split: if_splits)
  then show ?thesis
  proof cases
    case 1
    then obtain n where n: "readArgument i t = Inr (n, r)" "v = JNum (JInt (int n))" using rd d by (auto simp: res_simps)
    with readArgument_spec(1) [OF n(1)] readArgument_spec(2) [OF n(1), of 0] d x show ?thesis
      by (auto simp: decoded_def encodable.simps wf_value.simps safe_int_def max_safe_def)
  next
    case 2
    then obtain n where n: "readArgument i t = Inr (n, r)" "v = JNum (JInt (-1 - int n))" "safe_int (-1 - int n)"
      using rd d by (auto simp: res_simps Let_def split: if_splits)
    with readArgument_spec(1) [OF n(1)] readArgument_spec(2) [OF n(1), of 1] d x show ?thesis
      by (auto simp: decoded_def encodable.simps wf_value.simps)
  next
    case 3
    then obtain n u y where n: "readLength i (maxByteLength options) t = Inr (n, u)" "readBytes n u = Inr (y, r)" "v = JBytes y"
      using rd d by (auto simp: res_simps)
    with readLength_spec(1) [OF n(1)] readLength_spec(2) [OF n(1), of 2] readBytes_spec [OF n(2)] d x show ?thesis
      by (auto simp: decoded_def encodable.simps wf_value.simps)
  next
    case 4
    then obtain n u y s where n: "readLength i (maxByteLength options) t = Inr (n, u)" "readBytes n u = Inr (y, r)"
        "text_decode y = Some s" "v = JStr s"
      using rd d by (auto simp: res_simps split: option.splits)
    have "length y \<le> maxByteLength options" using readLength_spec(1) [OF n(1)] readBytes_spec [OF n(2)] by simp
    note dt = decoded_text [OF n(3) this d]
    with readLength_spec(2) [OF n(1), of 3] readBytes_spec [OF n(2)] n(4) x show ?thesis
      by (auto simp: text_bytes_def)
  next
    case 5
    then obtain n u vs where n: "readLength i (maxContainerLength options) t = Inr (n, u)"
        "readItems (readItem options (Suc depth)) n u = Inr (vs, r)" "v = JArr vs"
      using rd d by (auto simp: res_simps)
    with readLength_spec(1) [OF n(1)] readLength_spec(2) [OF n(1), of 4] readItems_spec [OF assms(1) n(2)] d x show ?thesis
      by (auto intro: decoded_array)
  next
    case 6
    then obtain n u ps where n: "readLength i (maxContainerLength options) t = Inr (n, u)"
        "readEntries (readItem options (Suc depth)) n {} [] u = Inr (ps, r)" "v = JObj False ps"
      using rd d by (auto simp: res_simps)
    have "length ps = n \<and> own_keys ps \<and> list_all (decoded_entry options (Suc depth)) ps
        \<and> length (entries_bytes ps) + length r \<le> length u"
      using readEntries_spec [OF assms(1), of n "[]" u ps r] n(2) by simp
    moreover from this have dec: "decoded options depth v"
      using readLength_spec(1) [OF n(1)] n(3) d by (auto intro: decoded_object)
    then have "length (defined_entries ps) = length ps" using n(3) length_strip(2) [of ps] by (simp add: decoded_def)
    ultimately show ?thesis using dec readLength_spec(2) [OF n(1), of 5] n(3) x by auto
  next
    case 7
    then have "readSimple i t = Inr (v, r)" using rd d by auto
    from readSimple_spec [OF this d] x show ?thesis by simp
  qed
qed

lemma reader_ok_readItem: "reader_ok (readItem options depth) options depth"
proof (induction "Suc (maxDepth options) - depth" arbitrary: depth)
  case 0
  then have "maxDepth options < depth" by simp
  then show ?case by (simp add: reader_ok_def readItem.simps [of options depth])
next
  case (Suc n)
  have "reader_ok (readItem options (Suc depth)) options (Suc depth)" using Suc.hyps(2) by (intro Suc.hyps(1)) simp
  with readItem_decoded show ?case unfolding reader_ok_def [of "readItem options depth"] by blast
qed

lemma decode_all_reencodes:
  assumes "decode_all resolved bs = Inr v" "length bs \<le> maxByteLength resolved"
  shows "decoded resolved 0 v"
    "\<exists>w. encodeValue resolved v 0 (new_writer (maxByteLength resolved)) = Inr w \<and>
       finish w = value_bytes v \<and> length (value_bytes v) \<le> length bs"
proof -
  have "readItem resolved 0 bs = Inr (v, [])" using assms(1) by (auto simp: decode_all_def res_simps split: if_splits)
  with reader_ok_readItem have dv: "decoded resolved 0 v" and l: "length (value_bytes v) \<le> length bs"
    by (fastforce simp: reader_ok_def)+
  show "decoded resolved 0 v" by (rule dv)
  have "appends (encodeValue resolved v 0) (value_bytes v)" using dv by (simp add: decoded_def encode_appends)
  then show "\<exists>w. encodeValue resolved v 0 (new_writer (maxByteLength resolved)) = Inr w \<and>
      finish w = value_bytes v \<and> length (value_bytes v) \<le> length bs"
    unfolding appends_def using l assms(2)
    by (auto simp: wrote_def dest!: spec [of _ "new_writer (maxByteLength resolved)"])
qed

text \<open>Conversely, what the encoder accepts is encodable, and it writes the reference encoding.\<close>

lemma encodeText_inv:
  assumes "writer_inv w" "encodeText w s options = Inr w'"
  shows "text_ok options s" "wrote w (text_bytes s) w'"
proof -
  show "text_ok options s"
    using assms(2) by (auto simp: encodeText_def text_ok_def Let_def text_roundtrip_iff split: if_splits)
  show "wrote w (text_bytes s) w'"
    using assms by (auto simp: encodeText_def text_bytes_def Let_def res_simps split: if_splits
        intro: wrote_trans dest: writeArgument_wrote writeBytes_wrote wrote_inv)
qed

lemma encodeNumber_inv:
  assumes "writer_inv w" "encodeNumber w n = Inr w'"
  shows "number_ok n" "wrote w (number_bytes n) w'"
  using assms by (cases n; auto simp: encodeNumber_def write_as_bytes split: if_splits
      dest: writeArgument_wrote writeBytes_wrote)+

lemma encode_inv:
  "writer_inv w \<Longrightarrow> encodeValue options v depth w = Inr w' \<Longrightarrow> encodable options depth v \<and> wrote w (value_bytes v) w'"
  "writer_inv w \<Longrightarrow> encodeItems options vs depth w = Inr w' \<Longrightarrow> encodable_items options depth vs \<and> wrote w (items_bytes vs) w'"
  "writer_inv w \<Longrightarrow> encodeEntries options ps depth w = Inr w' \<Longrightarrow>
     encodable_entries options depth ps \<and> wrote w (entries_bytes ps) w'"
proof (induction options v depth w and options vs depth w and options ps depth w
    arbitrary: w' and w' and w' rule: encodeValue_encodeItems_encodeEntries.induct)
  case (1 options v depth w)
  note d = encode_depth [OF 1(4)]
  note enc = 1(4) [unfolded encodeValue.simps [of options v]]
  show ?case
  proof (cases v)
    case (JArr vs)
    then obtain u where u: "length vs \<le> maxContainerLength options" "writeArgument w 4 (length vs) = Inr u"
        "encodeItems options vs (depth + 1) u = Inr w'"
      using enc d by (auto simp: res_simps split: if_splits)
    note wu = writeArgument_wrote [OF 1(3) u(2)]
    from 1(1) [OF _ JArr _ u(2) wrote_inv [OF wu] u(3)] d u(1) show ?thesis
      using JArr wrote_trans [OF wu] by (simp add: encodable.simps)
  next
    case (JObj sy ps)
    then obtain u where u: "\<not> sy" "length (defined_entries ps) \<le> maxContainerLength options"
        "writeArgument w 5 (length (defined_entries ps)) = Inr u" "encodeEntries options ps (depth + 1) u = Inr w'"
      using enc d by (auto simp: res_simps split: if_splits)
    note wu = writeArgument_wrote [OF 1(3) u(3)]
    from 1(2) [OF _ JObj u(1) _ u(3) wrote_inv [OF wu] u(4)] d u(1,2) show ?thesis
      using JObj wrote_trans [OF wu] by (simp add: encodable.simps)
  next
    case (JBytes x)
    then obtain u where u: "length x \<le> maxByteLength options" "writeArgument w 2 (length x) = Inr u" "writeBytes u x = Inr w'"
      using enc d by (auto simp: res_simps split: if_splits)
    note wu = writeArgument_wrote [OF 1(3) u(2)]
    from wrote_trans [OF wu writeBytes_wrote [OF wrote_inv [OF wu] u(3)]] show ?thesis
      using JBytes d u(1) by (simp add: encodable.simps)
  qed (use enc d 1(3) in \<open>auto simp: encodable.simps write_as_bytes
      dest: encodeText_inv encodeNumber_inv writeBytes_wrote split: if_splits\<close>)
next
  case (3 options v vs depth w)
  then obtain u where u: "encodeValue options v depth w = Inr u" "encodeItems options vs depth u = Inr w'" "v \<noteq> JUndefined"
    by (auto simp: res_simps split: if_splits)
  note v = 3(1) [OF u(3) 3(3) u(1)]
  from 3(2) [OF u(3,1) wrote_inv u(2)] v show ?case by (auto intro: wrote_trans)
next
  case (5 options k v ps depth w)
  show ?case
  proof (cases "v = JUndefined")
    case False
    then obtain t u where t: "encodeText w k options = Inr t" and u: "encodeValue options v depth t = Inr u"
        "encodeEntries options ps depth u = Inr w'"
      using 5(5) by (auto simp: res_simps)
    note ti = encodeText_inv [OF 5(4) t]
    note v = 5(2) [OF False t wrote_inv [OF ti(2)] u(1)]
    from 5(3) [OF False t u(1) wrote_inv u(2)] v ti False show ?thesis by (auto intro: wrote_trans)
  qed (use 5 in auto)
qed (auto intro: wrote_refl)

lemma encodeCbor_value_bytes:
  assumes "resolveOptions options = Inr resolved" "encodable resolved 0 v" "length (value_bytes v) \<le> maxByteLength resolved"
  shows "encodeCbor v options = Inr (value_bytes v)"
proof -
  have "appends (encodeValue resolved v 0) (value_bytes v)" using assms(2) by (rule encode_appends)
  then show ?thesis unfolding appends_def using assms(1,3)
    by (auto simp: wrote_def encodeCbor_def dest!: spec [of _ "new_writer (maxByteLength resolved)"])
qed

section \<open>Properties\<close>

text \<open>
  C13. Round trip: whatever \<^verbatim>\<open>encodeCbor\<close> produces for a JavaScript value fits the configured byte
  limit, and \<^verbatim>\<open>decodeCbor\<close> under the same options returns that value, with the object entries
  whose value is \<^verbatim>\<open>undefined\<close> left out and nothing else changed (key order included).
\<close>

theorem cbor_roundtrip:
  assumes "wf_value v" "encodeCbor v options = Inr bytes"
  shows "decodeCbor bytes options = Inr (strip v) \<and>
    (\<exists>resolved. resolveOptions options = Inr resolved \<and> length bytes \<le> maxByteLength resolved)"
proof -
  obtain resolved where r: "resolveOptions options = Inr resolved"
    using assms(2) by (auto simp: encodeCbor_def res_simps)
  note e = encodeCbor_reads_back [OF r assms]
  then show ?thesis using r by (simp add: decodeCbor_def)
qed

definition sample_value :: jsval where
  "sample_value = JObj False [(js ''1'', JArr [JNum (JInt 300), JNull]), (js ''a'', JUndefined), (js ''b'', JNum (JInt (-2)))]"

definition sample_bytes :: "byte list" where
  "sample_bytes = [0xa2, 0x61, 0x31, 0x82, 0x19, 1, 0x2c, 0xf6, 0x61, 0x62, 0x21]"

lemma resolve_defaults:
  "resolveOptions None = Inr \<lparr>maxByteLength = 16777216, maxContainerLength = 1000000, maxDepth = 64\<rparr>"
  by (simp add: resolveOptions_def or_default_def resolveLimit_def safe_int_def max_safe_def MAX_UINT32_def
      MAX_CONFIGURED_DEPTH_def DEFAULT_MAX_CBOR_BYTE_LENGTH_def DEFAULT_MAX_CBOR_CONTAINER_LENGTH_def
      DEFAULT_MAX_CBOR_DEPTH_def)

lemma ascii_points [simp]: "js ''1'' = [49]" "js ''a'' = [97]" "js ''b'' = [98]"
  by (simp_all add: js_def)

lemmas eval_text = text_bytes_def text_encode_def to_scalar_def utf8_cp_def is_surrogate_def argument_bytes_def
  uint16_bytes_def byte_of_def text_ok_def well_formed_text_def scalar_def

lemma sample_wf: "wf_value sample_value"
  by (simp add: sample_value_def wf_value.simps own_keys_def key_order_def key_before_def array_index_def)

lemma sample_encodes: "encodeCbor sample_value None = Inr sample_bytes"
proof -
  have "value_bytes sample_value = sample_bytes"
    by (simp add: sample_value_def sample_bytes_def eval_text flip: numeral_2_eq_2)
  then show ?thesis
    using encodeCbor_value_bytes [OF resolve_defaults, of sample_value]
    by (simp add: sample_value_def sample_bytes_def encodable.simps eval_text safe_int_def max_safe_def)
qed

theorem cbor_roundtrip_witness:
  "decodeCbor sample_bytes None
     = Inr (JObj False [(js ''1'', JArr [JNum (JInt 300), JNull]), (js ''b'', JNum (JInt (-2)))])"
  using cbor_roundtrip [OF sample_wf sample_encodes] by (simp add: sample_value_def strip.simps)

text \<open>
  C35. What the encoder computes: \<^verbatim>\<open>encodeCbor\<close> returns bytes exactly when the options resolve, the value
  is within the depth, container and string limits with finite, safe and well-formed leaves, and its
  reference encoding (shortest headers, definite lengths) fits the byte limit; the bytes are that encoding.
  The growing buffer never shows in the result.
\<close>

theorem encodeCbor_reference:
  "encodeCbor v options = Inr bytes \<longleftrightarrow>
     (\<exists>resolved. resolveOptions options = Inr resolved \<and> encodable resolved 0 v \<and>
        bytes = value_bytes v \<and> length bytes \<le> maxByteLength resolved)"
proof
  assume "encodeCbor v options = Inr bytes"
  then obtain resolved w where r: "resolveOptions options = Inr resolved"
      "encodeValue resolved v 0 (new_writer (maxByteLength resolved)) = Inr w" "bytes = finish w"
    by (auto simp: encodeCbor_def res_simps)
  have "encodable resolved 0 v \<and> wrote (new_writer (maxByteLength resolved)) (value_bytes v) w"
    by (rule encode_inv(1) [OF writer_inv_new r(2)])
  with r show "\<exists>resolved. resolveOptions options = Inr resolved \<and> encodable resolved 0 v \<and>
      bytes = value_bytes v \<and> length bytes \<le> maxByteLength resolved"
    using finish_bound [of w] by (auto simp: wrote_def)
next
  assume "\<exists>resolved. resolveOptions options = Inr resolved \<and> encodable resolved 0 v \<and>
      bytes = value_bytes v \<and> length bytes \<le> maxByteLength resolved"
  then show "encodeCbor v options = Inr bytes" by (auto intro: encodeCbor_value_bytes)
qed

text \<open>
  C36. Every value \<^verbatim>\<open>decodeCbor\<close> returns can be encoded again under the same options: \<^verbatim>\<open>encodeCbor\<close>
  succeeds on it with at most as many bytes as were read, and decoding those bytes gives the
  same value (so the encoder's form is the shortest and decoding is a retraction onto it).
\<close>

theorem cbor_reencode:
  assumes "decodeCbor bytes options = Inr v"
  shows "\<exists>bytes'. encodeCbor v options = Inr bytes' \<and> length bytes' \<le> length bytes \<and>
    decodeCbor bytes' options = Inr v"
proof -
  obtain resolved where r: "resolveOptions options = Inr resolved" "length bytes \<le> maxByteLength resolved"
      "decode_all resolved bytes = Inr v"
    using assms by (auto simp: decodeCbor_def res_simps split: if_splits)
  have dv: "wf_value v" "strip v = v" using decode_all_reencodes(1) [OF r(3,2)] by (simp_all add: decoded_def)
  obtain w where "encodeValue resolved v 0 (new_writer (maxByteLength resolved)) = Inr w"
      "length (finish w) \<le> length bytes"
    using decode_all_reencodes(2) [OF r(3,2)] by auto
  with r(1) have e: "encodeCbor v options = Inr (finish w)" "length (finish w) \<le> length bytes"
    by (simp_all add: encodeCbor_def)
  note rb = encodeCbor_reads_back [OF r(1) dv(1) e(1)]
  with e r(1) dv(2) have "decodeCbor (finish w) options = Inr v" by (simp add: decodeCbor_def)
  with e show ?thesis by blast
qed

theorem cbor_reencode_witness:
  "\<exists>bytes'. encodeCbor (JNum (JInt 5)) None = Inr bytes' \<and> length bytes' \<le> length [0x18, 5 :: byte] \<and>
     decodeCbor bytes' None = Inr (JNum (JInt 5))"
proof -
  have "decodeCbor [0x18, 5] None = Inr (JNum (JInt 5))"
    by (simp add: decodeCbor_def resolve_defaults decode_all_def readItem.simps [of _ _ "_ # _"] readArgument_def
        drop_bit_eq_div and_0x1f)
  from cbor_reencode [OF this] show ?thesis .
qed

end
