(* ===== verification/Framing.thy ===== *)
theory Framing
  imports Cbor_Correct
begin

text \<open>
  Length-prefixed framing, \<^verbatim>\<open>packages/protocol/src/framing.ts\<close>: \<^verbatim>\<open>encodeFrame\<close> and the incremental
  \<^verbatim>\<open>FrameDecoder\<close> with its four-byte header buffer and its list of payload blocks. The decoder is
  refined to a parser of the whole byte stream; from that follow the independence of the frames from
  how the stream is cut into chunks and the round trip with \<^verbatim>\<open>encodeFrame\<close>.
\<close>

section \<open>Data\<close>

datatype frame_error =
    MaxFrameLengthRange
  | PayloadTooLong
  | DecoderEnded
  | DecoderFailed
  | FrameTooLong nat nat
  | TruncatedFrame

definition FRAME_HEADER_LENGTH :: nat where "FRAME_HEADER_LENGTH = 4"
definition PAYLOAD_BLOCK_SIZE :: nat where "PAYLOAD_BLOCK_SIZE = 64 * 1024"
definition DEFAULT_MAX_FRAME_LENGTH :: nat where "DEFAULT_MAX_FRAME_LENGTH = 16 * 1024 * 1024"

text \<open>The options argument is the \<^verbatim>\<open>maxFrameLength\<close> field, absent or given.\<close>

definition resolveMaxFrameLength :: "jnum option \<Rightarrow> (frame_error, nat) res" where
  "resolveMaxFrameLength maxFrameLength =
     (case or_default maxFrameLength DEFAULT_MAX_FRAME_LENGTH of
        JInt i \<Rightarrow> if \<not> safe_int i \<or> i < 0 \<or> int MAX_UINT32 < i then Inl MaxFrameLengthRange else Inr (nat i)
      | JDbl b \<Rightarrow> if b = neg_zero then Inr 0 else Inl MaxFrameLengthRange)"

text \<open>\<^verbatim>\<open>target.set(source, offset)\<close> on a byte array, for a source that fits.\<close>

definition set_bytes :: "byte list \<Rightarrow> byte list \<Rightarrow> nat \<Rightarrow> byte list" where
  "set_bytes target source pos = take pos target @ source @ drop (pos + length source) target"

definition encodeFrame :: "byte list \<Rightarrow> (frame_error, byte list) res" where
  "encodeFrame payload =
     (if length payload > MAX_UINT32 then Inl PayloadTooLong
      else let frame = replicate (FRAME_HEADER_LENGTH + length payload) 0;
               n = length payload;
               frame = frame[0 := byte_of (drop_bit 24 n)];
               frame = frame[1 := byte_of (drop_bit 16 n)];
               frame = frame[2 := byte_of (drop_bit 8 n)];
               frame = frame[3 := byte_of n]
           in Inr (set_bytes frame payload FRAME_HEADER_LENGTH))"

datatype DecoderState = Open | Ended | Failed

text \<open>
  The decoder object. \<open>currentPayloadBlock\<close> is a reference to one of the arrays held by
  \<open>payloadBlocks\<close> (a write through it is seen in the list), so it is kept as the index of that block.
\<close>

record FrameDecoder =
  header :: "byte list"
  headerLength :: nat
  maxFrameLength :: nat
  payloadBlocks :: "byte list list"
  currentPayloadBlock :: "nat option"
  currentPayloadBlockLength :: nat
  expectedPayloadLength :: "nat option"
  payloadLength :: nat
  decoderState :: DecoderState

definition new_decoder :: "jnum option \<Rightarrow> (frame_error, FrameDecoder) res" where
  "new_decoder options =
     rbind (resolveMaxFrameLength options) (\<lambda>n.
       Inr \<lparr>header = replicate FRAME_HEADER_LENGTH 0, headerLength = 0, maxFrameLength = n, payloadBlocks = [],
            currentPayloadBlock = None, currentPayloadBlockLength = 0, expectedPayloadLength = None,
            payloadLength = 0, decoderState = Open\<rparr>)"

section \<open>Operations\<close>

text \<open>
  A method returns the updated decoder and its result or the error it throws. \<open>frame_fail\<close> is the
  state the private method \<^verbatim>\<open>fail\<close> leaves behind before it throws.
\<close>

definition frame_fail :: "FrameDecoder \<Rightarrow> FrameDecoder" where
  "frame_fail d = d\<lparr>decoderState := Failed, headerLength := 0, payloadBlocks := [], currentPayloadBlock := None,
     currentPayloadBlockLength := 0, expectedPayloadLength := None, payloadLength := 0\<rparr>"

text \<open>
  The header part of the loop body: copy header bytes, and on a complete header read the length.
  The result is the decoder and the rest of the chunk with what happens next: the loop goes on
  with \<open>Inr\<close> the frames completed here (an empty payload), or the call fails.
\<close>

definition header_value :: "byte list \<Rightarrow> nat" where
  "header_value h = unat (h ! 0) * 0x1000000 + unat (h ! 1) * 0x10000 + unat (h ! 2) * 0x100 + unat (h ! 3)"

definition read_header :: "FrameDecoder \<Rightarrow> byte list \<Rightarrow> FrameDecoder \<times> byte list \<times> (frame_error, byte list list) res" where
  "read_header d chunk =
     (let headerBytes = min (FRAME_HEADER_LENGTH - headerLength d) (length chunk);
          d = d\<lparr>header := set_bytes (header d) (take headerBytes chunk) (headerLength d),
                headerLength := headerLength d + headerBytes\<rparr>;
          chunk = drop headerBytes chunk in
      if headerLength d < FRAME_HEADER_LENGTH then (d, chunk, Inr [])
      else
        let frameLength = header_value (header d);
            d = d\<lparr>headerLength := 0\<rparr> in
        if frameLength > maxFrameLength d then (frame_fail d, chunk, Inl (FrameTooLong frameLength (maxFrameLength d)))
        else if frameLength = 0 then (d, chunk, Inr [[]])
        else (d\<lparr>expectedPayloadLength := Some frameLength, payloadBlocks := [], currentPayloadBlock := None,
                currentPayloadBlockLength := 0, payloadLength := 0\<rparr>, chunk, Inr []))"

text \<open>One round of the inner loop: choose or allocate the block, then copy into it.\<close>

definition current_block :: "nat \<Rightarrow> FrameDecoder \<Rightarrow> FrameDecoder \<times> nat" where
  "current_block expected d =
     (let fresh = (d\<lparr>payloadBlocks := payloadBlocks d @ [replicate (min PAYLOAD_BLOCK_SIZE (expected - payloadLength d)) 0],
                     currentPayloadBlock := Some (length (payloadBlocks d)), currentPayloadBlockLength := 0\<rparr>,
                   length (payloadBlocks d)) in
      case currentPayloadBlock d of
        None \<Rightarrow> fresh
      | Some i \<Rightarrow> if currentPayloadBlockLength d = length (payloadBlocks d ! i) then fresh else (d, i))"

definition fill_block :: "nat \<Rightarrow> FrameDecoder \<Rightarrow> byte list \<Rightarrow> FrameDecoder \<times> byte list" where
  "fill_block expected d chunk =
     (let (d, i) = current_block expected d;
          block = payloadBlocks d ! i;
          payloadBytes = min (length block - currentPayloadBlockLength d) (length chunk) in
      (d\<lparr>payloadBlocks := (payloadBlocks d)[i := set_bytes block (take payloadBytes chunk) (currentPayloadBlockLength d)],
         currentPayloadBlockLength := currentPayloadBlockLength d + payloadBytes,
         payloadLength := payloadLength d + payloadBytes\<rparr>,
       drop payloadBytes chunk))"

partial_function (option) read_payload :: "nat \<Rightarrow> FrameDecoder \<Rightarrow> byte list \<Rightarrow> (FrameDecoder \<times> byte list) option" where
  "read_payload expected d chunk =
     (if chunk \<noteq> [] \<and> payloadLength d < expected
      then (case fill_block expected d chunk of (d', chunk') \<Rightarrow> read_payload expected d' chunk')
      else Some (d, chunk))"

text \<open>A complete payload: the only block itself, or the blocks copied one after the other.\<close>

definition assemble :: "nat \<Rightarrow> byte list list \<Rightarrow> byte list" where
  "assemble expected blocks =
     (if length blocks = 1 then blocks ! 0
      else fst (foldl (\<lambda>(payload, pos) block. (set_bytes payload block pos, pos + length block))
                  (replicate expected 0, 0) blocks))"

definition complete_payload :: "nat \<Rightarrow> FrameDecoder \<Rightarrow> FrameDecoder \<times> byte list list" where
  "complete_payload expected d =
     (if payloadLength d = expected
      then (d\<lparr>payloadBlocks := [], currentPayloadBlock := None, currentPayloadBlockLength := 0,
              expectedPayloadLength := None, payloadLength := 0\<rparr>, [assemble expected (payloadBlocks d)])
      else (d, []))"

text \<open>
  The outer loop. A failing header aborts the call: the frames collected so far in the same call
  are lost with it.
\<close>

partial_function (option) push_loop ::
  "FrameDecoder \<Rightarrow> byte list \<Rightarrow> byte list list \<Rightarrow> (FrameDecoder \<times> (frame_error, byte list list) res) option" where
  "push_loop d chunk frames =
     (if chunk = [] then Some (d, Inr frames)
      else case (if expectedPayloadLength d = None then read_header d chunk else (d, chunk, Inr [])) of
        (d, chunk, Inl e) \<Rightarrow> Some (d, Inl e)
      | (d, chunk, Inr fs) \<Rightarrow>
          (case expectedPayloadLength d of
             None \<Rightarrow> push_loop d chunk (frames @ fs)
           | Some expected \<Rightarrow>
               Option.bind (read_payload expected d chunk) (\<lambda>(d, chunk).
                 case complete_payload expected d of (d, fs) \<Rightarrow> push_loop d chunk (frames @ fs))))"

definition frame_push :: "FrameDecoder \<Rightarrow> byte list \<Rightarrow> (FrameDecoder \<times> (frame_error, byte list list) res) option" where
  "frame_push d chunk =
     (case decoderState d of
        Ended \<Rightarrow> Some (d, Inl DecoderEnded)
      | Failed \<Rightarrow> Some (d, Inl DecoderFailed)
      | Open \<Rightarrow> push_loop d chunk [])"

definition frame_end :: "FrameDecoder \<Rightarrow> FrameDecoder \<times> (frame_error, unit) res" where
  "frame_end d =
     (case decoderState d of
        Ended \<Rightarrow> (d, Inl DecoderEnded)
      | Failed \<Rightarrow> (d, Inl DecoderFailed)
      | Open \<Rightarrow>
          if headerLength d \<noteq> 0 \<or> expectedPayloadLength d \<noteq> None then (frame_fail d, Inl TruncatedFrame)
          else (d\<lparr>decoderState := Ended\<rparr>, Inr ()))"

section \<open>The stream specification\<close>

text \<open>
  What the bytes of a stream mean, with no decoder state: the frames they contain and the bytes of an
  unfinished frame at the end, or \<open>None\<close> in its place when a header announces more than the
  limit.
\<close>

function stream_frames :: "nat \<Rightarrow> byte list \<Rightarrow> byte list list \<times> byte list option" where
  "stream_frames limit bs =
     (if length bs < FRAME_HEADER_LENGTH then ([], Some bs)
      else let n = header_value bs; r = drop FRAME_HEADER_LENGTH bs in
        if n > limit then ([], None)
        else if length r < n then ([], Some bs)
        else case stream_frames limit (drop n r) of (fs, p) \<Rightarrow> (take n r # fs, p))"
  by pat_completeness auto
termination
  by (relation "measure (\<lambda>(limit, bs). length bs)") (auto simp: FRAME_HEADER_LENGTH_def)

declare stream_frames.simps [simp del]

end
