(* ===== verification/Incremental.thy ===== *)
theory Incremental
  imports Prelude
begin

text \<open>
  The contract of an incremental decoder: a state that is fed chunks of a stream and hands out the
  items they complete. A provider gives a specification of whole streams; the contract says that a
  push extends the part of the stream read so far, and what a client learns from a run over several
  chunks is proved here once. The frame decoder and the message decoders are its instances.
\<close>

definition prepend :: "'a list \<Rightarrow> 'a list \<times> 'b \<Rightarrow> 'a list \<times> 'b" where
  "prepend fs p = (fs @ fst p, snd p)"

lemma prepend_simps [simp]: "prepend [] p = p" "prepend fs (gs, q) = (fs @ gs, q)"
  by (simp_all add: prepend_def)

lemma prepend_nil [simp]: "prepend [] = id"
  by (simp add: fun_eq_iff)

text \<open>A client that pushes one chunk after the other and collects the items until an error is thrown.\<close>

fun push_all :: "('s \<Rightarrow> 'c list \<Rightarrow> ('s \<times> ('e, 'm list) res) option) \<Rightarrow> 's \<Rightarrow> 'c list list
    \<Rightarrow> ('s \<times> ('e, 'm list) res) option" where
  "push_all push s [] = Some (s, Inr [])"
| "push_all push s (c # cs) =
     Option.bind (push s c) (\<lambda>(s', r). case r of
       Inl e \<Rightarrow> Some (s', Inl e)
     | Inr ms \<Rightarrow> Option.bind (push_all push s' cs) (\<lambda>(s'', r'). Some (s'', rbind r' (\<lambda>ns. Inr (ms @ ns)))))"

lemma push_all_Cons_Inr:
  "push_all push s (c # cs) = Some (s', Inr ms) \<longleftrightarrow>
     (\<exists>s1 ns os. push s c = Some (s1, Inr ns) \<and> push_all push s1 cs = Some (s', Inr os) \<and> ms = ns @ os)"
proof -
  consider "push s c = None" | s1 e where "push s c = Some (s1, Inl e)" | s1 ns where "push s c = Some (s1, Inr ns)"
    by (metis not_None_eq old.prod.exhaust sum.exhaust)
  then show ?thesis by cases (auto simp: bind_eq_Some_conv res_simps)
qed

locale incremental =
  fixes push :: "'s \<Rightarrow> 'c list \<Rightarrow> ('s \<times> ('e, 'm list) res) option"
    and ready :: "'s \<Rightarrow> bool"
    and conf :: "'s \<Rightarrow> 'k"
    and partial :: "'s \<Rightarrow> 'c list"
    and spec :: "'k \<Rightarrow> 'c list \<Rightarrow> ('m list \<times> 'c list) option"
  assumes spec_partial: "ready s \<Longrightarrow> spec (conf s) (partial s) = Some ([], partial s)"
    and spec_more: "spec k a = Some (ms, p) \<Longrightarrow> spec k (a @ b) = map_option (prepend ms) (spec k (p @ b))"
    and spec_error: "spec k a = None \<Longrightarrow> spec k (a @ b) = None"
    and push_items: "ready s \<Longrightarrow> spec (conf s) (partial s @ c) = Some (ms, p) \<Longrightarrow>
      \<exists>s'. push s c = Some (s', Inr ms) \<and> ready s' \<and> conf s' = conf s \<and> partial s' = p"
    and push_error: "ready s \<Longrightarrow> spec (conf s) (partial s @ c) = None \<Longrightarrow> \<exists>s' e. push s c = Some (s', Inl e)"
begin

lemma all_items:
  "ready s \<Longrightarrow> spec (conf s) (partial s @ concat cs) = Some (ms, p) \<Longrightarrow>
     \<exists>s'. push_all push s cs = Some (s', Inr ms) \<and> ready s' \<and> conf s' = conf s \<and> partial s' = p"
proof (induction cs arbitrary: s ms)
  case Nil
  then show ?case using spec_partial [of s] by auto
next
  case (Cons c cs)
  obtain ns q where q: "spec (conf s) (partial s @ c) = Some (ns, q)"
    using Cons.prems(2) spec_error [of "conf s" "partial s @ c" "concat cs"] by (cases "spec (conf s) (partial s @ c)") auto
  obtain s1 where s1: "push s c = Some (s1, Inr ns)" "ready s1" "conf s1 = conf s" "partial s1 = q"
    using push_items [OF Cons.prems(1) q] by blast
  obtain os where os: "spec (conf s1) (partial s1 @ concat cs) = Some (os, p)" "ms = ns @ os"
    using Cons.prems(2) spec_more [OF q, of "concat cs"] s1
    by (cases "spec (conf s1) (partial s1 @ concat cs)") (auto simp: prepend_def)
  from Cons.IH [OF s1(2) os(1)] s1 os(2) show ?case by auto
qed

lemma all_error:
  "ready s \<Longrightarrow> spec (conf s) (partial s @ concat cs) = None \<Longrightarrow> \<exists>s' e. push_all push s cs = Some (s', Inl e)"
proof (induction cs arbitrary: s)
  case Nil
  then show ?case using spec_partial [of s] by auto
next
  case (Cons c cs)
  show ?case
  proof (cases "spec (conf s) (partial s @ c)")
    case None
    from push_error [OF Cons.prems(1) this] show ?thesis by auto
  next
    case (Some x)
    then obtain ns q where q: "spec (conf s) (partial s @ c) = Some (ns, q)" by (cases x) auto
    obtain s1 where s1: "push s c = Some (s1, Inr ns)" "ready s1" "conf s1 = conf s" "partial s1 = q"
      using push_items [OF Cons.prems(1) q] by blast
    have "spec (conf s1) (partial s1 @ concat cs) = None"
      using Cons.prems(2) spec_more [OF q, of "concat cs"] s1 by simp
    from Cons.IH [OF s1(2) this] s1 show ?thesis by auto
  qed
qed

text \<open>A run over a stream always returns, and how the stream is cut does not show in the items.\<close>

lemma all_returns: "ready s \<Longrightarrow> push_all push s cs \<noteq> None"
  using all_items [of s cs] all_error [of s cs] by (cases "spec (conf s) (partial s @ concat cs)") auto

lemma chunking:
  assumes "ready s" "concat cs = concat cs'"
  shows "(case push_all push s cs of Some (_, Inr ms) \<Rightarrow> Some ms | _ \<Rightarrow> None)
    = (case push_all push s cs' of Some (_, Inr ms) \<Rightarrow> Some ms | _ \<Rightarrow> None)"
  using all_items [OF assms(1), of cs] all_error [OF assms(1), of cs] all_items [OF assms(1), of cs'] all_error [OF assms(1), of cs']
    assms(2)
  by (cases "spec (conf s) (partial s @ concat cs)") auto

end

end
