(* ===== verification/Framing_Correct.thy ===== *)
theory Framing_Correct
  imports Framing Incremental
begin

text \<open>
  The frame decoder implements the stream specification: the invariant of its buffers, the two phases
  of the loop, and the properties of whole streams.
\<close>

section \<open>The invariant and the abstraction\<close>

definition payload_ok :: "nat \<Rightarrow> FrameDecoder \<Rightarrow> bool" where
  "payload_ok n d =
     (case currentPayloadBlock d of
        None \<Rightarrow> payloadBlocks d = [] \<and> currentPayloadBlockLength d = 0 \<and> payloadLength d = 0
      | Some i \<Rightarrow> \<exists>bs b. payloadBlocks d = bs @ [b] \<and> i = length bs \<and> currentPayloadBlockLength d \<le> length b \<and>
          payloadLength d = length (concat bs) + currentPayloadBlockLength d \<and> length (concat bs) + length b \<le> n)"

definition received :: "FrameDecoder \<Rightarrow> byte list" where
  "received d = take (payloadLength d) (concat (payloadBlocks d))"

definition frame_inv :: "FrameDecoder \<Rightarrow> bool" where
  "frame_inv d \<longleftrightarrow> length (header d) = 4 \<and> headerLength d < 4 \<and>
     (case expectedPayloadLength d of
        None \<Rightarrow> True
      | Some n \<Rightarrow> headerLength d = 0 \<and> n = header_value (header d) \<and> n \<le> maxFrameLength d \<and>
          payload_ok n d \<and> payloadLength d < n)"

text \<open>The bytes consumed since the last complete frame.\<close>

definition pending :: "FrameDecoder \<Rightarrow> byte list" where
  "pending d =
     (case expectedPayloadLength d of
        None \<Rightarrow> take (headerLength d) (header d)
      | Some n \<Rightarrow> header d @ received d)"

text \<open>What the payload phase leaves alone.\<close>

definition same_frame :: "FrameDecoder \<Rightarrow> FrameDecoder \<Rightarrow> bool" where
  "same_frame d d' \<longleftrightarrow> header d' = header d \<and> headerLength d' = headerLength d \<and> maxFrameLength d' = maxFrameLength d \<and>
     expectedPayloadLength d' = expectedPayloadLength d \<and> decoderState d' = decoderState d"

lemma length_set_bytes [simp]:
  "pos + length source \<le> length target \<Longrightarrow> length (set_bytes target source pos) = length target"
  by (simp add: set_bytes_def)

lemma take_set_bytes:
  "pos + length source \<le> length target \<Longrightarrow> take (pos + length source) (set_bytes target source pos) = take pos target @ source"
  by (simp add: set_bytes_def)

lemma header_value_append: "length h = 4 \<Longrightarrow> header_value (h @ r) = header_value h"
  by (simp add: header_value_def nth_append)

section \<open>The payload phase\<close>

lemma current_block_ok:
  assumes "payload_ok n d" "payloadLength d < n" "current_block n d = (d', i)"
  obtains bs b where "payloadBlocks d' = bs @ [b]" "i = length bs" "currentPayloadBlock d' = Some i"
    "currentPayloadBlockLength d' < length b" "payloadLength d' = payloadLength d"
    "payloadLength d = length (concat bs) + currentPayloadBlockLength d'" "length (concat bs) + length b \<le> n"
    "received d' = received d" "same_frame d d'"
proof (cases "currentPayloadBlock d")
  case None
  then show ?thesis using assms
    by (intro that [of "[]"]) (auto simp: payload_ok_def current_block_def received_def same_frame_def PAYLOAD_BLOCK_SIZE_def)
next
  case (Some j)
  with assms(1) obtain bs b where b: "payloadBlocks d = bs @ [b]" "j = length bs" "currentPayloadBlockLength d \<le> length b"
      "payloadLength d = length (concat bs) + currentPayloadBlockLength d" "length (concat bs) + length b \<le> n"
    by (auto simp: payload_ok_def)
  show ?thesis
  proof (cases "currentPayloadBlockLength d = length b")
    case True
    with assms(2,3) Some b show ?thesis
      by (intro that [of "bs @ [b]" "replicate (min PAYLOAD_BLOCK_SIZE (n - payloadLength d)) 0"])
        (auto simp: current_block_def received_def same_frame_def PAYLOAD_BLOCK_SIZE_def)
  next
    case False
    with assms(3) Some b show ?thesis
      by (intro that [of bs b]) (auto simp: current_block_def same_frame_def)
  qed
qed

lemma fill_block_ok:
  assumes "payload_ok n d" "payloadLength d < n" "chunk \<noteq> []"
  obtains d' k where "fill_block n d chunk = (d', drop k chunk)" "0 < k" "k \<le> length chunk" "payload_ok n d'"
    "payloadLength d' = payloadLength d + k" "payloadLength d' \<le> n" "received d' = received d @ take k chunk" "same_frame d d'"
proof -
  obtain e i where c: "current_block n d = (e, i)" by fastforce
  from current_block_ok [OF assms(1,2) c] obtain bs b where b: "payloadBlocks e = bs @ [b]" "i = length bs"
    "currentPayloadBlock e = Some i" "currentPayloadBlockLength e < length b" "payloadLength e = payloadLength d"
    "payloadLength d = length (concat bs) + currentPayloadBlockLength e" "length (concat bs) + length b \<le> n"
    "received e = received d" "same_frame d e" .
  define k where "k = min (length b - currentPayloadBlockLength e) (length chunk)"
  define b' where "b' = set_bytes b (take k chunk) (currentPayloadBlockLength e)"
  let ?d' = "e\<lparr>payloadBlocks := bs @ [b'], currentPayloadBlockLength := currentPayloadBlockLength e + k,
      payloadLength := payloadLength e + k\<rparr>"
  have k: "0 < k" "k \<le> length chunk" "currentPayloadBlockLength e + k \<le> length b"
    using assms(3) b(4) by (auto simp: k_def)
  then have lb: "length b' = length b" by (simp add: b'_def)
  have tb: "take (currentPayloadBlockLength e + k) b' = take (currentPayloadBlockLength e) b @ take k chunk"
    using take_set_bytes [of "currentPayloadBlockLength e" "take k chunk" b] k by (simp add: b'_def min_absorb2)
  have f: "fill_block n d chunk = (?d', drop k chunk)"
    using b by (simp add: fill_block_def c Let_def k_def [symmetric] b'_def)
  have re: "received e = concat bs @ take (currentPayloadBlockLength e) b"
    using b(1,5,6) by (simp add: received_def)
  have r: "received ?d' = received d @ take k chunk"
    unfolding b(8) [symmetric] re using b(5,6) tb by (simp add: received_def add.assoc)
  show ?thesis
    by (rule that [OF f k(1,2) _ _ _ r]) (use b k lb in \<open>auto simp: payload_ok_def same_frame_def\<close>)
qed

lemma read_payload_ok:
  assumes "payload_ok n d" "payloadLength d \<le> n"
    and "k = min (length chunk) (n - payloadLength d)"
  shows "\<exists>d'. read_payload n d chunk = Some (d', drop k chunk) \<and> payload_ok n d' \<and>
    payloadLength d' = payloadLength d + k \<and> received d' = received d @ take k chunk \<and> same_frame d d'"
  using assms
proof (induction "length chunk" arbitrary: chunk d k rule: less_induct)
  case less
  show ?case
  proof (cases "chunk \<noteq> [] \<and> payloadLength d < n")
    case True
    then obtain d1 j where f: "fill_block n d chunk = (d1, drop j chunk)" "0 < j" "j \<le> length chunk" "payload_ok n d1"
        "payloadLength d1 = payloadLength d + j" "payloadLength d1 \<le> n" "received d1 = received d @ take j chunk" "same_frame d d1"
      using fill_block_ok [OF less(2), of chunk] by metis
    define k' where "k' = min (length (drop j chunk)) (n - payloadLength d1)"
    obtain d' where d': "read_payload n d1 (drop j chunk) = Some (d', drop k' (drop j chunk))" "payload_ok n d'"
        "payloadLength d' = payloadLength d1 + k'" "received d' = received d1 @ take k' (drop j chunk)" "same_frame d1 d'"
      using less(1) [of "drop j chunk" d1] f True unfolding k'_def by fastforce
    have k: "k = j + k'" using f(3,5,6) less(4) by (simp add: k'_def)
    then have "take k chunk = take j chunk @ take k' (drop j chunk)" by (simp add: take_add)
    moreover have "read_payload n d chunk = read_payload n d1 (drop j chunk)"
      using True f(1) by (subst read_payload.simps) simp
    ultimately show ?thesis using d' f k less(4) by (auto simp: add.commute same_frame_def)
  next
    case False
    then have "k = 0" using less(3,4) by auto
    with False less(2,4) show ?thesis by (subst read_payload.simps) (auto simp: same_frame_def)
  qed
qed

lemma foldl_set_bytes:
  "pos + length (concat bs) \<le> length buf \<Longrightarrow>
     foldl (\<lambda>(payload, pos) block. (set_bytes payload block pos, pos + length block)) (buf, pos) bs
       = (take pos buf @ concat bs @ drop (pos + length (concat bs)) buf, pos + length (concat bs))"
proof (induction bs arbitrary: buf pos)
  case (Cons b bs)
  then show ?case
    by (simp add: take_set_bytes) (simp add: set_bytes_def ac_simps)
qed simp

lemma assemble_eq: "length (concat blocks) = n \<Longrightarrow> assemble n blocks = concat blocks"
  using foldl_set_bytes [of 0 blocks "replicate n 0"]
  by (cases "length blocks = 1") (auto simp: assemble_def length_Suc_conv)

lemma payload_complete:
  assumes "payload_ok n d" "payloadLength d = n" "0 < n"
  shows "assemble n (payloadBlocks d) = received d"
  using assms by (auto simp: payload_ok_def received_def assemble_eq split: option.splits)

lemma complete_payload_ok:
  assumes "frame_inv d" "expectedPayloadLength d = Some n" "payload_ok n d'" "payloadLength d' \<le> n" "same_frame d d'"
    "complete_payload n d' = (e, fs)"
  shows "frame_inv e \<and> maxFrameLength e = maxFrameLength d \<and> decoderState e = decoderState d \<and>
    (if payloadLength d' = n then fs = [received d'] \<and> pending e = []
     else fs = [] \<and> pending e = header d @ received d')"
proof (cases "payloadLength d' = n")
  case True
  have "0 < n" using assms(1,2) by (auto simp: frame_inv_def)
  with True assms payload_complete [OF assms(3) True] show ?thesis
    by (auto simp: complete_payload_def frame_inv_def pending_def same_frame_def)
next
  case False
  with assms show ?thesis
    by (auto simp: complete_payload_def frame_inv_def pending_def same_frame_def)
qed

section \<open>The stream specification on whole and partial frames\<close>

lemma stream_short: "length bs < 4 \<Longrightarrow> stream_frames limit bs = ([], Some bs)"
  by (subst stream_frames.simps) (simp add: FRAME_HEADER_LENGTH_def)

lemma stream_header:
  assumes "length h = 4"
  shows "stream_frames limit (h @ r) =
    (if header_value h > limit then ([], None)
     else if length r < header_value h then ([], Some (h @ r))
     else prepend [take (header_value h) r] (stream_frames limit (drop (header_value h) r)))"
  using assms
  by (subst stream_frames.simps) (simp add: FRAME_HEADER_LENGTH_def header_value_append Let_def prepend_def split_beta)

lemma stream_pending: "frame_inv d \<Longrightarrow> stream_frames (maxFrameLength d) (pending d) = ([], Some (pending d))"
  by (auto simp: frame_inv_def pending_def stream_short stream_header received_def split: option.splits)

section \<open>The loop\<close>

lemma payload_phase:
  assumes "frame_inv d" "expectedPayloadLength d = Some n"
  obtains e k fs where
    "Option.bind (read_payload n d chunk) (\<lambda>(d, chunk). case complete_payload n d of (d, fs) \<Rightarrow> push_loop d chunk (frames @ fs))
       = push_loop e (drop k chunk) (frames @ fs)"
    "k \<le> length chunk" "chunk \<noteq> [] \<longrightarrow> 0 < k" "frame_inv e"
    "maxFrameLength e = maxFrameLength d" "decoderState e = decoderState d"
    "stream_frames (maxFrameLength d) (pending d @ chunk) = prepend fs (stream_frames (maxFrameLength d) (pending e @ drop k chunk))"
proof -
  have n: "n = header_value (header d)" "n \<le> maxFrameLength d" "payload_ok n d" "payloadLength d < n" "length (header d) = 4"
    using assms by (auto simp: frame_inv_def)
  have lr: "length (received d) = payloadLength d"
    using n(3) by (auto simp: payload_ok_def received_def split: option.splits)
  define k where "k = min (length chunk) (n - payloadLength d)"
  from read_payload_ok [OF n(3) less_imp_le [OF n(4)] k_def] obtain d' where
    d': "read_payload n d chunk = Some (d', drop k chunk)" "payload_ok n d'" "payloadLength d' = payloadLength d + k"
      "received d' = received d @ take k chunk" "same_frame d d'" by blast
  obtain e fs where c: "complete_payload n d' = (e, fs)" by fastforce
  have le: "payloadLength d' \<le> n" using d'(3) n(4) by (simp add: k_def)
  note e = complete_payload_ok [OF assms d'(2) le d'(5) c]
  have s: "stream_frames (maxFrameLength d) (pending d @ chunk) = prepend fs (stream_frames (maxFrameLength d) (pending e @ drop k chunk))"
  proof (cases "payloadLength d' = n")
    case True
    then have k: "k = n - payloadLength d" "k \<le> length chunk" using d'(3) n(4) by (auto simp: k_def)
    with True e assms(2) n lr d'(4) show ?thesis
      by (simp add: pending_def stream_header prepend_def)
  next
    case False
    then have k: "k = length chunk" "k < n - payloadLength d" using d'(3) n(4) by (auto simp: k_def)
    with False e assms(2) n lr d'(4) show ?thesis
      by (simp add: pending_def stream_header)
  qed
  show ?thesis by (rule that [OF _ _ _ _ _ _ s]) (use d'(1) c e n(4) in \<open>auto simp: k_def\<close>)
qed

lemma header_phase:
  assumes "frame_inv d" "expectedPayloadLength d = None" "chunk \<noteq> []"
  obtains e k r where "read_header d chunk = (e, drop k chunk, r)" "0 < k" "k \<le> length chunk"
    "maxFrameLength e = maxFrameLength d"
    "case r of Inr fs \<Rightarrow> frame_inv e \<and> decoderState e = decoderState d \<and> (expectedPayloadLength e \<noteq> None \<longrightarrow> fs = []) \<and>
         stream_frames (maxFrameLength d) (pending d @ chunk) = prepend fs (stream_frames (maxFrameLength d) (pending e @ drop k chunk))
     | Inl err \<Rightarrow> decoderState e = Failed \<and> frame_inv e \<and> (\<exists>n. err = FrameTooLong n (maxFrameLength d)) \<and>
         snd (stream_frames (maxFrameLength d) (pending d @ chunk)) = None"
proof -
  have d: "length (header d) = 4" "headerLength d < 4" using assms(1) by (auto simp: frame_inv_def)
  define k where "k = min (4 - headerLength d) (length chunk)"
  define h where "h = set_bytes (header d) (take k chunk) (headerLength d)"
  have k: "0 < k" "k \<le> length chunk" "headerLength d + k \<le> 4" using d(2) assms(3) by (auto simp: k_def)
  then have lh: "length h = 4" using d(1) by (simp add: h_def)
  have th: "take (headerLength d + k) h = take (headerLength d) (header d) @ take k chunk"
    using take_set_bytes [of "headerLength d" "take k chunk" "header d"] k d(1) by (simp add: h_def min_absorb2)
  show ?thesis
  proof (cases "headerLength d + k < 4")
    case True
    then have kl: "k = length chunk" by (auto simp: k_def)
    have "read_header d chunk = (d\<lparr>header := h, headerLength := headerLength d + k\<rparr>, drop k chunk, Inr [])"
      using True by (simp add: read_header_def FRAME_HEADER_LENGTH_def Let_def k_def [symmetric] h_def [symmetric])
    then show ?thesis
      by (rule that) (use True k assms(2) lh th kl in \<open>simp_all add: frame_inv_def pending_def\<close>)
  next
    case False
    then have hk: "headerLength d + k = 4" using k(3) by simp
    have st: "pending d @ chunk = h @ drop k chunk" using th hk lh assms(2) by (simp add: pending_def)
    note defs = read_header_def FRAME_HEADER_LENGTH_def Let_def k_def [symmetric] h_def [symmetric] frame_inv_def hk
      pending_def [of "_\<lparr>headerLength := _\<rparr>"] frame_fail_def pending_def [of "_\<lparr>expectedPayloadLength := _\<rparr>"]
    consider "header_value h > maxFrameLength d" | "header_value h = 0" | "0 < header_value h" "header_value h \<le> maxFrameLength d"
      by linarith
    then show ?thesis
    proof cases
      case 1
      then show ?thesis
        by (intro that [of "frame_fail (d\<lparr>header := h, headerLength := 0\<rparr>)" k "Inl (FrameTooLong (header_value h) (maxFrameLength d))"])
          (use k assms(2) lh in \<open>simp_all add: st stream_header\<close>, simp_all add: defs)
    next
      case 2
      then show ?thesis
        by (intro that [of "d\<lparr>header := h, headerLength := 0\<rparr>" k "Inr [[]]"])
          (use k assms(2) lh in \<open>simp_all add: st stream_header\<close>, simp_all add: defs)
    next
      case 3
      then show ?thesis
        by (intro that [of "d\<lparr>header := h, headerLength := 0, expectedPayloadLength := Some (header_value h), payloadBlocks := [],
                 currentPayloadBlock := None, currentPayloadBlockLength := 0, payloadLength := 0\<rparr>" k "Inr []"])
          (use k assms(2) lh in \<open>simp_all add: st\<close>, simp_all add: defs pending_def payload_ok_def received_def)
    qed
  qed
qed

text \<open>The two phases of an iteration, then the loop by induction on what is left of the chunk.\<close>

definition loop_result :: "FrameDecoder \<Rightarrow> byte list list \<Rightarrow> byte list list \<times> byte list option
    \<Rightarrow> (FrameDecoder \<times> (frame_error, byte list list) res) option \<Rightarrow> bool" where
  "loop_result d frames spec result \<longleftrightarrow>
     (\<exists>d' r. result = Some (d', r) \<and> frame_inv d' \<and> maxFrameLength d' = maxFrameLength d \<and>
       (case snd spec of
          Some p \<Rightarrow> r = Inr (frames @ fst spec) \<and> pending d' = p \<and> decoderState d' = decoderState d
        | None \<Rightarrow> (\<exists>n. r = Inl (FrameTooLong n (maxFrameLength d))) \<and> decoderState d' = Failed))"

lemma loop_result_prepend:
  "loop_result e (frames @ fs) spec r \<Longrightarrow> maxFrameLength e = maxFrameLength d \<Longrightarrow> decoderState e = decoderState d \<Longrightarrow>
     loop_result d frames (prepend fs spec) r"
  by (auto simp: loop_result_def prepend_def split: option.splits)

lemma push_loop_ok:
  assumes "frame_inv d"
  shows "loop_result d frames (stream_frames (maxFrameLength d) (pending d @ chunk)) (push_loop d chunk frames)"
  using assms
proof (induction "length chunk" arbitrary: d chunk frames rule: less_induct)
  case less
  have go: "loop_result d frames (stream_frames (maxFrameLength d) (pending d @ c))
      (Option.bind (read_payload n d c) (\<lambda>(d, chunk). case complete_payload n d of (d, fs) \<Rightarrow> push_loop d chunk (frames @ fs)))"
    if "frame_inv d" "expectedPayloadLength d = Some n" "length c < length chunk \<or> c = chunk \<and> c \<noteq> []"
    for d n c frames
  proof -
    note t = that
    obtain e k fs where e: "Option.bind (read_payload n d c) (\<lambda>(d, chunk). case complete_payload n d of (d, fs) \<Rightarrow> push_loop d chunk (frames @ fs))
          = push_loop e (drop k c) (frames @ fs)" "k \<le> length c" "c \<noteq> [] \<longrightarrow> 0 < k" "frame_inv e"
        "maxFrameLength e = maxFrameLength d" "decoderState e = decoderState d"
        "stream_frames (maxFrameLength d) (pending d @ c) = prepend fs (stream_frames (maxFrameLength d) (pending e @ drop k c))"
      by (rule payload_phase [OF t(1,2), of c frames])
    have "loop_result e (frames @ fs) (stream_frames (maxFrameLength e) (pending e @ drop k c)) (push_loop e (drop k c) (frames @ fs))"
      by (rule less(1) [OF _ e(4)]) (use e(2,3) that(3) in auto)
    then show ?thesis unfolding e(1,7) using e(5,6) by (auto intro: loop_result_prepend)
  qed
  show ?case
  proof (cases "chunk = []")
    case True
    then show ?thesis using less(2) by (subst push_loop.simps) (simp add: loop_result_def stream_pending)
  next
    case False
    show ?thesis
    proof (cases "expectedPayloadLength d")
      case (Some n)
      with False go [OF less(2) Some] show ?thesis by (subst push_loop.simps) simp
    next
      case None
      obtain e k r where h: "read_header d chunk = (e, drop k chunk, r)" "0 < k" "k \<le> length chunk" "maxFrameLength e = maxFrameLength d"
        "case r of Inr fs \<Rightarrow> frame_inv e \<and> decoderState e = decoderState d \<and> (expectedPayloadLength e \<noteq> None \<longrightarrow> fs = []) \<and>
             stream_frames (maxFrameLength d) (pending d @ chunk) = prepend fs (stream_frames (maxFrameLength d) (pending e @ drop k chunk))
         | Inl err \<Rightarrow> decoderState e = Failed \<and> frame_inv e \<and> (\<exists>n. err = FrameTooLong n (maxFrameLength d)) \<and>
             snd (stream_frames (maxFrameLength d) (pending d @ chunk)) = None"
        by (rule header_phase [OF less(2) None False])
      show ?thesis
      proof (cases r)
        case (Inl err)
        with None False h show ?thesis by (subst push_loop.simps) (auto simp: loop_result_def)
      next
        case (Inr fs)
        note hr = h(5) [unfolded Inr sum.case]
        have lt: "length (drop k chunk) < length chunk" using h(2) False by (cases chunk) auto
        show ?thesis
        proof (cases "expectedPayloadLength e")
          case None' : None
          have "loop_result e (frames @ fs) (stream_frames (maxFrameLength e) (pending e @ drop k chunk)) (push_loop e (drop k chunk) (frames @ fs))"
            using less(1) [OF lt] hr by blast
          then have "loop_result d frames (stream_frames (maxFrameLength d) (pending d @ chunk)) (push_loop e (drop k chunk) (frames @ fs))"
            using hr h(4) by (auto intro: loop_result_prepend)
          with None None' False h(1) Inr show ?thesis by (subst push_loop.simps) simp
        next
          case (Some n)
          have fs: "fs = []" using hr Some by simp
          have "loop_result d frames (stream_frames (maxFrameLength d) (pending d @ chunk))
              (Option.bind (read_payload n e (drop k chunk)) (\<lambda>(d, chunk). case complete_payload n d of (d, gs) \<Rightarrow> push_loop d chunk (frames @ gs)))"
            using go [of e n "drop k chunk" frames] lt hr Some fs h(4) loop_result_prepend [of e frames "[]"] by auto
          with None Some False h(1) Inr fs show ?thesis by (subst push_loop.simps) simp
        qed
      qed
    qed
  qed
qed

section \<open>Whole streams\<close>

definition frames_spec :: "nat \<Rightarrow> byte list \<Rightarrow> (byte list list \<times> byte list) option" where
  "frames_spec limit bs = (case stream_frames limit bs of (fs, p) \<Rightarrow> map_option (Pair fs) p)"

lemma stream_append:
  "stream_frames limit (a @ b) =
     (case stream_frames limit a of
        (fs, None) \<Rightarrow> (fs, None)
      | (fs, Some p) \<Rightarrow> prepend fs (stream_frames limit (p @ b)))"
proof (induction limit a rule: stream_frames.induct)
  case (1 limit bs)
  show ?case
  proof (cases "length bs < 4")
    case True
    then show ?thesis by (simp add: stream_short)
  next
    case False
    define h r where "h = take 4 bs" and "r = drop 4 bs"
    then have h: "bs = h @ r" "length h = 4" using False by simp_all
    have hv: "header_value bs = header_value h" unfolding h(1) by (rule header_value_append [OF h(2)])
    show ?thesis
    proof (cases "header_value h \<le> limit \<and> header_value h \<le> length r")
      case True
      have "stream_frames limit (drop (header_value h) r @ b) =
        (case stream_frames limit (drop (header_value h) r) of
           (fs, None) \<Rightarrow> (fs, None) | (fs, Some p) \<Rightarrow> prepend fs (stream_frames limit (p @ b)))"
        using 1 [OF _ refl refl] True False hv by (simp add: FRAME_HEADER_LENGTH_def r_def)
      with True h(2) show ?thesis unfolding h(1)
        by (auto simp: stream_header prepend_def split: prod.splits option.splits)
    next
      case False
      with h(2) show ?thesis unfolding h(1) by (auto simp: stream_header)
    qed
  qed
qed

definition frame_ready :: "FrameDecoder \<Rightarrow> bool" where
  "frame_ready d \<longleftrightarrow> frame_inv d \<and> decoderState d = Open"

lemma frame_push_result:
  "frame_ready d \<Longrightarrow> loop_result d [] (stream_frames (maxFrameLength d) (pending d @ chunk)) (frame_push d chunk)"
  using push_loop_ok [of d "[]" chunk] by (simp add: frame_ready_def frame_push_def)

interpretation fd: incremental frame_push frame_ready maxFrameLength pending frames_spec
proof unfold_locales
  fix s :: FrameDecoder and k a b c ms p
  show "frame_ready s \<Longrightarrow> frames_spec (maxFrameLength s) (pending s) = Some ([], pending s)"
    by (simp add: frames_spec_def stream_pending frame_ready_def)
  show "frames_spec k a = Some (ms, p) \<Longrightarrow> frames_spec k (a @ b) = map_option (prepend ms) (frames_spec k (p @ b))"
    by (auto simp: frames_spec_def stream_append [of k a b] prepend_def option.map_comp comp_def split: prod.splits option.splits)
  show "frames_spec k a = None \<Longrightarrow> frames_spec k (a @ b) = None"
    by (auto simp: frames_spec_def stream_append [of k a b] split: prod.splits option.splits)
  show "\<exists>s'. frame_push s c = Some (s', Inr ms) \<and> frame_ready s' \<and> maxFrameLength s' = maxFrameLength s \<and> pending s' = p"
    if "frame_ready s" "frames_spec (maxFrameLength s) (pending s @ c) = Some (ms, p)"
    using frame_push_result [OF that(1), of c] that
    by (auto simp: frames_spec_def loop_result_def frame_ready_def split: prod.splits)
  show "\<exists>s' e. frame_push s c = Some (s', Inl e)"
    if "frame_ready s" "frames_spec (maxFrameLength s) (pending s @ c) = None"
    using frame_push_result [OF that(1), of c] that
    by (auto simp: frames_spec_def loop_result_def split: prod.splits)
qed

lemma new_decoder_ready:
  assumes "new_decoder options = Inr d"
  shows "frame_ready d" "pending d = []" "resolveMaxFrameLength options = Inr (maxFrameLength d)"
  using assms by (auto simp: new_decoder_def res_simps frame_ready_def frame_inv_def pending_def FRAME_HEADER_LENGTH_def)

lemma frame_end_ready:
  "frame_ready d \<Longrightarrow> snd (frame_end d) = (if pending d = [] then Inr () else Inl TruncatedFrame)"
  by (auto simp: frame_ready_def frame_end_def frame_inv_def pending_def split: option.splits)

lemma encodeFrame_eq:
  "encodeFrame payload = (if length payload > MAX_UINT32 then Inl PayloadTooLong else Inr (uint32_bytes (length payload) @ payload))"
  by (simp add: encodeFrame_def FRAME_HEADER_LENGTH_def set_bytes_def uint32_bytes_def Let_def eval_nat_numeral)

lemma header_value_uint32: "n \<le> MAX_UINT32 \<Longrightarrow> header_value (uint32_bytes n) = n"
  using uint32_digits [of n] by (simp add: header_value_def uint32_bytes_def MAX_UINT32_def nth_Cons')

lemma stream_of_frames:
  "list_all2 (\<lambda>p f. encodeFrame p = Inr f) ps fs \<Longrightarrow> \<forall>p\<in>set ps. length p \<le> limit \<Longrightarrow>
     stream_frames limit (concat fs) = (ps, Some [])"
proof (induction rule: list_all2_induct)
  case Nil
  then show ?case by (simp add: stream_short)
next
  case (Cons p ps f fs)
  then have f: "f = uint32_bytes (length p) @ p" "length p \<le> MAX_UINT32" by (auto simp: encodeFrame_eq split: if_splits)
  with Cons show ?case by (simp add: stream_header header_value_uint32 uint32_bytes_def [THEN arg_cong [of _ _ length]])
qed

section \<open>Properties\<close>

text \<open>
  C21. The frame decoder on a stream: a new decoder fed with any chunks always returns; it hands out
  exactly the frames that the whole byte stream contains, or throws when and only when some header of
  the stream exceeds the limit; after the last chunk \<^verbatim>\<open>end()\<close> succeeds exactly when no partial
  frame is left.
\<close>

theorem frame_decoder_stream:
  assumes "new_decoder options = Inr d"
  shows "case stream_frames (maxFrameLength d) (concat chunks) of
      (frames, Some rest) \<Rightarrow> \<exists>d'. push_all frame_push d chunks = Some (d', Inr frames) \<and>
        snd (frame_end d') = (if rest = [] then Inr () else Inl TruncatedFrame)
    | (_, None) \<Rightarrow> \<exists>d' e. push_all frame_push d chunks = Some (d', Inl e)"
proof -
  note n = new_decoder_ready [OF assms]
  show ?thesis
    using fd.all_items [OF n(1), of chunks] fd.all_error [OF n(1), of chunks] frame_end_ready n(2)
    by (auto simp: frames_spec_def split: prod.splits option.splits)
qed

text \<open>
  C14. Framing round trip: the concatenation of frames made by \<^verbatim>\<open>encodeFrame\<close>, cut into chunks in any way,
  is decoded to exactly the payloads in their order, and the end of the stream is accepted.
\<close>

theorem framing_roundtrip:
  assumes "new_decoder options = Inr d" "list_all2 (\<lambda>p f. encodeFrame p = Inr f) payloads frames"
    "\<forall>p\<in>set payloads. length p \<le> maxFrameLength d" "concat chunks = concat frames"
  shows "\<exists>d'. push_all frame_push d chunks = Some (d', Inr payloads) \<and> snd (frame_end d') = Inr ()"
proof -
  note n = new_decoder_ready [OF assms(1)]
  have "frames_spec (maxFrameLength d) (pending d @ concat chunks) = Some (payloads, [])"
    using stream_of_frames [OF assms(2,3)] assms(4) n(2) by (simp add: frames_spec_def)
  from fd.all_items [OF n(1) this] show ?thesis using frame_end_ready by auto
qed

definition sample_decoder :: FrameDecoder where
  "sample_decoder = \<lparr>header = [0, 0, 0, 0], headerLength = 0, maxFrameLength = 16777216, payloadBlocks = [],
     currentPayloadBlock = None, currentPayloadBlockLength = 0, expectedPayloadLength = None, payloadLength = 0,
     decoderState = Open\<rparr>"

lemma empty_header: "replicate 4 (0 :: byte) = [0, 0, 0, 0]"
  by (simp add: numeral_eq_Suc)

lemma sample_decoder_new: "new_decoder None = Inr sample_decoder"
  by (simp add: new_decoder_def resolveMaxFrameLength_def or_default_def DEFAULT_MAX_FRAME_LENGTH_def safe_int_def
      max_safe_def MAX_UINT32_def sample_decoder_def FRAME_HEADER_LENGTH_def empty_header)

theorem frame_decoder_stream_witness:
  "\<exists>d'. push_all frame_push sample_decoder [[0, 0], [0, 2, 7], [9, 0, 0, 0, 0, 0]] = Some (d', Inr [[7, 9], []]) \<and>
     snd (frame_end d') = Inl TruncatedFrame"
  using frame_decoder_stream [OF sample_decoder_new, of "[[0, 0], [0, 2, 7], [9, 0, 0, 0, 0, 0]]"]
  by (simp add: stream_frames.simps FRAME_HEADER_LENGTH_def header_value_def sample_decoder_def nth_Cons')

theorem framing_roundtrip_witness:
  "\<exists>d'. push_all frame_push sample_decoder [[0, 0, 0, 1], [], [5, 0, 0], [0, 0]] = Some (d', Inr [[5], []]) \<and>
     snd (frame_end d') = Inr ()"
  by (rule framing_roundtrip [OF sample_decoder_new, of _ "[[0, 0, 0, 1, 5], [0, 0, 0, 0]]"])
    (simp_all add: encodeFrame_eq uint32_bytes_def byte_of_def MAX_UINT32_def sample_decoder_def)

end
