(* ===== verification/Protocol_Codec.thy ===== *)
theory Protocol_Codec
  imports Framing_Correct
begin

text \<open>
  Validated protocol messages, \<^verbatim>\<open>packages/protocol/src/codec.ts\<close> over the schemas of
  \<^verbatim>\<open>protocol.ts\<close> and the JSON test of \<^verbatim>\<open>packages/chord/src/json.ts\<close>. The schema checker \<^verbatim>\<open>Check\<close>
  belongs to the typebox package and is the parameter \<open>check\<close> of every definition that calls it;
  the theorems hold for every such function. An error keeps its cause as a value where the code
  formats it into a message text.
\<close>

section \<open>Strict JSON\<close>

text \<open>
  \<^verbatim>\<open>isJsonValue\<close>: the property descriptors of a decoded or plain value are enumerable data properties;
  a value for which a descriptor is anything else is \<open>JOther\<close> here.
\<close>

fun json_check :: "jsval \<Rightarrow> nat \<Rightarrow> bool" and json_check_items :: "jsval list \<Rightarrow> nat \<Rightarrow> bool"
  and json_check_entries :: "(jstring \<times> jsval) list \<Rightarrow> nat \<Rightarrow> bool" where
  "json_check v depth =
     (if depth > 512 then False
      else case v of
        JNull \<Rightarrow> True
      | JStr _ \<Rightarrow> True
      | JBool _ \<Rightarrow> True
      | JNum n \<Rightarrow> num_finite n
      | JArr vs \<Rightarrow> json_check_items vs (depth + 1)
      | JObj symbols ps \<Rightarrow> \<not> symbols \<and> json_check_entries ps (depth + 1)
      | JUndefined \<Rightarrow> False
      | JBytes _ \<Rightarrow> False
      | JOther \<Rightarrow> False
      | JAncestor \<Rightarrow> False)"
| "json_check_items [] depth = True"
| "json_check_items (v # vs) depth = (json_check v depth \<and> json_check_items vs depth)"
| "json_check_entries [] depth = True"
| "json_check_entries ((k, v) # ps) depth = (json_check v depth \<and> json_check_entries ps depth)"

definition isJsonValue :: "jsval \<Rightarrow> bool" where
  "isJsonValue v = json_check v 0"

section \<open>Message schemas\<close>

text \<open>The typebox schema constructors the protocol uses; properties of an object carry whether they are optional.\<close>

datatype schema =
    SString "nat option" "string option"
  | SLiteralStr string
  | SLiteralInt int
  | SLiteralBool bool
  | SInteger int
  | SNull
  | SUnknown
  | SStrictObject "(string \<times> bool \<times> schema) list"
  | SUnion "schema list"

definition PROTOCOL_VERSION :: int where "PROTOCOL_VERSION = 8"

definition IdSchema :: schema where "IdSchema = SString (Some 1) None"

definition ServerIdSchema :: schema where
  "ServerIdSchema = SString None (Some ''^[0-9a-f]{8}-[0-9a-f]{4}-4[0-9a-f]{3}-[89ab][0-9a-f]{3}-[0-9a-f]{12}$'')"

definition ProtocolErrorSchema :: schema where
  "ProtocolErrorSchema = SStrictObject [(''code'', False, IdSchema), (''message'', False, SString None None)]"

definition ClientHelloSchema :: schema where
  "ClientHelloSchema = SStrictObject [(''type'', False, SLiteralStr ''hello''), (''version'', False, SInteger 0)]"

definition ServerTargetSchema :: schema where
  "ServerTargetSchema = SStrictObject [(''serverId'', False, ServerIdSchema)]"

definition SessionTargetSchema :: schema where
  "SessionTargetSchema = SStrictObject [(''serverId'', False, ServerIdSchema), (''sessionId'', False, IdSchema),
     (''attachmentId'', False, IdSchema)]"

definition RpcTargetSchema :: schema where
  "RpcTargetSchema = SUnion [ServerTargetSchema, SessionTargetSchema]"

definition RequestEnvelopeSchema :: schema where
  "RequestEnvelopeSchema = SStrictObject [(''type'', False, SLiteralStr ''request''), (''id'', False, IdSchema),
     (''target'', False, RpcTargetSchema), (''call'', False, SUnknown)]"

definition CancelEnvelopeSchema :: schema where
  "CancelEnvelopeSchema = SStrictObject [(''type'', False, SLiteralStr ''cancel''), (''id'', False, IdSchema),
     (''target'', False, RpcTargetSchema)]"

definition ClientMessageSchema :: schema where
  "ClientMessageSchema = SUnion [ClientHelloSchema, RequestEnvelopeSchema, CancelEnvelopeSchema]"

definition ServerHelloSchema :: schema where
  "ServerHelloSchema = SStrictObject [(''type'', False, SLiteralStr ''hello''), (''version'', False, SLiteralInt PROTOCOL_VERSION),
     (''serverId'', False, ServerIdSchema)]"

definition ServerHelloErrorSchema :: schema where
  "ServerHelloErrorSchema = SStrictObject [(''type'', False, SLiteralStr ''hello_error''), (''error'', False, ProtocolErrorSchema)]"

definition ResponseEnvelopeSchema :: schema where
  "ResponseEnvelopeSchema = SUnion
     [SStrictObject [(''type'', False, SLiteralStr ''response''), (''id'', False, IdSchema), (''ok'', False, SLiteralBool True),
        (''result'', True, SUnknown)],
      SStrictObject [(''type'', False, SLiteralStr ''response''), (''id'', False, IdSchema), (''ok'', False, SLiteralBool False),
        (''error'', False, ProtocolErrorSchema)]]"

definition ServiceEventEnvelopeSchema :: schema where
  "ServiceEventEnvelopeSchema = SStrictObject [(''type'', False, SLiteralStr ''service_update''),
     (''subscriptionId'', False, IdSchema), (''update'', False, SUnknown)]"

definition AttachmentEnvelopeSchema :: schema where
  "AttachmentEnvelopeSchema = SStrictObject [(''type'', False, SLiteralStr ''attachment''),
     (''attachment'', False, SUnion [SessionTargetSchema, SNull])]"

definition ServerMessageSchema :: schema where
  "ServerMessageSchema = SUnion [ServerHelloSchema, ServerHelloErrorSchema, ResponseEnvelopeSchema,
     ServiceEventEnvelopeSchema, AttachmentEnvelopeSchema]"

section \<open>Encoding\<close>

datatype message_kind = Client | Server

datatype codec_cause = CborCause cbor_error | FrameCause frame_error

datatype protocol_error =
    InvalidMessage message_kind
  | UnableToEncode message_kind codec_cause
  | MessageDecoderFailed message_kind
  | InvalidFrame message_kind codec_cause
  | InvalidFraming message_kind codec_cause

definition parseClientMessage :: "(schema \<Rightarrow> jsval \<Rightarrow> bool) \<Rightarrow> jsval \<Rightarrow> (protocol_error, jsval) res" where
  "parseClientMessage check v =
     (if \<not> check ClientMessageSchema v \<or> \<not> isJsonValue v then Inl (InvalidMessage Client) else Inr v)"

definition parseServerMessage :: "(schema \<Rightarrow> jsval \<Rightarrow> bool) \<Rightarrow> jsval \<Rightarrow> (protocol_error, jsval) res" where
  "parseServerMessage check v =
     (if \<not> check ServerMessageSchema v \<or> \<not> isJsonValue v then Inl (InvalidMessage Server) else Inr v)"

definition byte_limit :: "jnum option \<Rightarrow> CborOptions option" where
  "byte_limit options =
     Some \<lparr>optMaxByteLength = Some (or_default options DEFAULT_MAX_FRAME_LENGTH),
           optMaxContainerLength = None, optMaxDepth = None\<rparr>"

definition encodeProtocolMessage ::
  "jsval \<Rightarrow> (jsval \<Rightarrow> (protocol_error, jsval) res) \<Rightarrow> message_kind \<Rightarrow> jnum option \<Rightarrow> (protocol_error, byte list) res" where
  "encodeProtocolMessage v parse kind options =
     rbind (parse v) (\<lambda>validated.
       case encodeCbor validated (byte_limit options) of
         Inl e \<Rightarrow> Inl (UnableToEncode kind (CborCause e))
       | Inr bytes \<Rightarrow>
          (case encodeFrame bytes of
             Inl e \<Rightarrow> Inl (UnableToEncode kind (FrameCause e))
           | Inr frame \<Rightarrow> Inr frame))"

definition encodeClientMessage :: "(schema \<Rightarrow> jsval \<Rightarrow> bool) \<Rightarrow> jsval \<Rightarrow> jnum option \<Rightarrow> (protocol_error, byte list) res" where
  "encodeClientMessage check m options = encodeProtocolMessage m (parseClientMessage check) Client options"

definition encodeServerMessage :: "(schema \<Rightarrow> jsval \<Rightarrow> bool) \<Rightarrow> jsval \<Rightarrow> jnum option \<Rightarrow> (protocol_error, byte list) res" where
  "encodeServerMessage check m options = encodeProtocolMessage m (parseServerMessage check) Server options"

section \<open>Decoding\<close>

text \<open>The decoder object; its \<^verbatim>\<open>parse\<close> field is an argument of the methods.\<close>

record ValidatedMessageDecoder =
  mdFailed :: bool
  mdFrames :: FrameDecoder
  mdKind :: message_kind
  mdMaxFrameLength :: "jnum option"

definition new_message_decoder :: "message_kind \<Rightarrow> jnum option \<Rightarrow> (frame_error, ValidatedMessageDecoder) res" where
  "new_message_decoder kind options =
     rbind (new_decoder options) (\<lambda>d. Inr \<lparr>mdFailed = False, mdFrames = d, mdKind = kind, mdMaxFrameLength = options\<rparr>)"

fun decode_messages :: "(jsval \<Rightarrow> (protocol_error, jsval) res) \<Rightarrow> message_kind \<Rightarrow> jnum option \<Rightarrow> byte list list
    \<Rightarrow> (protocol_error, jsval list) res" where
  "decode_messages parse kind options [] = Inr []"
| "decode_messages parse kind options (frame # frames) =
     (case decodeCbor frame (byte_limit options) of
        Inl e \<Rightarrow> Inl (InvalidFrame kind (CborCause e))
      | Inr v \<Rightarrow> rbind (parse v) (\<lambda>m. rbind (decode_messages parse kind options frames) (\<lambda>ms. Inr (m # ms))))"

definition message_push :: "(jsval \<Rightarrow> (protocol_error, jsval) res) \<Rightarrow> ValidatedMessageDecoder \<Rightarrow> byte list
    \<Rightarrow> (ValidatedMessageDecoder \<times> (protocol_error, jsval list) res) option" where
  "message_push parse d chunk =
     (if mdFailed d then Some (d, Inl (MessageDecoderFailed (mdKind d)))
      else Option.bind (frame_push (mdFrames d) chunk) (\<lambda>(frames, r).
        let d = d\<lparr>mdFrames := frames\<rparr> in
        Some (case r of
            Inl e \<Rightarrow> (d\<lparr>mdFailed := True\<rparr>, Inl (InvalidFrame (mdKind d) (FrameCause e)))
          | Inr fs \<Rightarrow>
             (case decode_messages parse (mdKind d) (mdMaxFrameLength d) fs of
                Inl e \<Rightarrow> (d\<lparr>mdFailed := True\<rparr>, Inl e)
              | Inr ms \<Rightarrow> (d, Inr ms)))))"

definition message_end :: "ValidatedMessageDecoder \<Rightarrow> ValidatedMessageDecoder \<times> (protocol_error, unit) res" where
  "message_end d =
     (if mdFailed d then (d, Inl (MessageDecoderFailed (mdKind d)))
      else case frame_end (mdFrames d) of
        (frames, Inl e) \<Rightarrow> (d\<lparr>mdFrames := frames, mdFailed := True\<rparr>, Inl (InvalidFraming (mdKind d) (FrameCause e)))
      | (frames, Inr u) \<Rightarrow> (d\<lparr>mdFrames := frames\<rparr>, Inr u))"

definition client_push :: "(schema \<Rightarrow> jsval \<Rightarrow> bool) \<Rightarrow> ValidatedMessageDecoder \<Rightarrow> byte list
    \<Rightarrow> (ValidatedMessageDecoder \<times> (protocol_error, jsval list) res) option" where
  "client_push check = message_push (parseClientMessage check)"

definition server_push :: "(schema \<Rightarrow> jsval \<Rightarrow> bool) \<Rightarrow> ValidatedMessageDecoder \<Rightarrow> byte list
    \<Rightarrow> (ValidatedMessageDecoder \<times> (protocol_error, jsval list) res) option" where
  "server_push check = message_push (parseServerMessage check)"

text \<open>\<^verbatim>\<open>Number.isInteger\<close> and the comparison; negative zero is an integer but not the version.\<close>

definition isSupportedProtocolVersion :: "jnum \<Rightarrow> bool" where
  "isSupportedProtocolVersion version = (case version of JInt i \<Rightarrow> i = PROTOCOL_VERSION | JDbl _ \<Rightarrow> False)"

declare json_check.simps [simp del]

section \<open>The message decoders as incremental decoders\<close>

lemma json_strip:
  "json_check v n \<Longrightarrow> strip v = v"
  "json_check_items vs n \<Longrightarrow> strip_items vs = vs"
  "json_check_entries ps n \<Longrightarrow> strip_entries ps = ps"
proof (induction v n and vs n and ps n rule: json_check_json_check_items_json_check_entries.induct)
  case (1 v depth)
  then show ?case by (cases v) (simp_all add: json_check.simps split: if_splits)
qed (auto simp: json_check.simps split: if_splits)

lemma byte_limit_resolves:
  assumes "resolveMaxFrameLength options = Inr n"
  shows "\<exists>r. resolveOptions (byte_limit options) = Inr r \<and> maxByteLength r = n"
  using assms
  by (auto simp: resolveMaxFrameLength_def resolveOptions_def byte_limit_def resolveLimit_def or_default_def safe_int_def max_safe_def
      MAX_UINT32_def MAX_CONFIGURED_DEPTH_def DEFAULT_MAX_CBOR_CONTAINER_LENGTH_def DEFAULT_MAX_CBOR_DEPTH_def
      split: jnum.splits if_splits option.splits)

lemma decode_messages_append:
  "decode_messages parse kind options (fs @ gs) =
     rbind (decode_messages parse kind options fs) (\<lambda>ms. rbind (decode_messages parse kind options gs) (\<lambda>ns. Inr (ms @ ns)))"
  by (induction fs) (auto simp: rbind_def split: sum.splits)

definition message_ready :: "ValidatedMessageDecoder \<Rightarrow> bool" where
  "message_ready d \<longleftrightarrow> \<not> mdFailed d \<and> frame_ready (mdFrames d)"

definition message_conf :: "ValidatedMessageDecoder \<Rightarrow> message_kind \<times> jnum option \<times> nat" where
  "message_conf d = (mdKind d, mdMaxFrameLength d, maxFrameLength (mdFrames d))"

definition message_spec :: "(jsval \<Rightarrow> (protocol_error, jsval) res) \<Rightarrow> message_kind \<times> jnum option \<times> nat \<Rightarrow> byte list
    \<Rightarrow> (jsval list \<times> byte list) option" where
  "message_spec parse k bs =
     (case k of (kind, options, limit) \<Rightarrow>
        Option.bind (frames_spec limit bs) (\<lambda>(fs, p).
          case decode_messages parse kind options fs of Inl _ \<Rightarrow> None | Inr ms \<Rightarrow> Some (ms, p)))"

lemma message_push_frames:
  assumes "message_ready d" "frames_spec (maxFrameLength (mdFrames d)) (pending (mdFrames d) @ c) = Some (fs, p)"
  shows "\<exists>fr. frame_ready fr \<and> maxFrameLength fr = maxFrameLength (mdFrames d) \<and> pending fr = p \<and>
    message_push parse d c = Some (case decode_messages parse (mdKind d) (mdMaxFrameLength d) fs of
        Inl e \<Rightarrow> (d\<lparr>mdFrames := fr, mdFailed := True\<rparr>, Inl e) | Inr ms \<Rightarrow> (d\<lparr>mdFrames := fr\<rparr>, Inr ms))"
  using fd.push_items [OF _ assms(2)] assms(1) by (auto simp: message_ready_def message_push_def split: sum.splits)

interpretation md: incremental "message_push parse" message_ready message_conf "\<lambda>d. pending (mdFrames d)" "message_spec parse" for parse
proof unfold_locales
  fix s :: ValidatedMessageDecoder and k :: "message_kind \<times> jnum option \<times> nat" and a b c ms p
  show "message_ready s \<Longrightarrow> message_spec parse (message_conf s) (pending (mdFrames s)) = Some ([], pending (mdFrames s))"
    by (simp add: message_ready_def message_spec_def message_conf_def fd.spec_partial)
  obtain kind options limit where k: "k = (kind, options, limit)" by (cases k)
  show "message_spec parse k (a @ b) = map_option (prepend ms) (message_spec parse k (p @ b))"
    if "message_spec parse k a = Some (ms, p)"
  proof -
    from that k obtain fs where fs: "frames_spec limit a = Some (fs, p)" "decode_messages parse kind options fs = Inr ms"
      by (auto simp: message_spec_def bind_eq_Some_conv res_simps)
    show ?thesis using fd.spec_more [OF fs(1), of b] fs(2) k
      by (cases "frames_spec limit (p @ b)")
        (auto simp: message_spec_def decode_messages_append prepend_def split: prod.splits sum.splits)
  qed
  show "message_spec parse k (a @ b) = None" if none: "message_spec parse k a = None"
  proof (cases "frames_spec limit a")
    case None
    then show ?thesis using fd.spec_error [of limit a b] k by (simp add: message_spec_def)
  next
    case (Some x)
    then obtain fs p where fs: "frames_spec limit a = Some (fs, p)" by (cases x) auto
    then obtain e where "decode_messages parse kind options fs = Inl e"
      using none k by (auto simp: message_spec_def split: sum.splits)
    then show ?thesis using fd.spec_more [OF fs, of b] k
      by (cases "frames_spec limit (p @ b)") (auto simp: message_spec_def decode_messages_append prepend_def split: prod.splits)
  qed
  show "\<exists>s'. message_push parse s c = Some (s', Inr ms) \<and> message_ready s' \<and> message_conf s' = message_conf s \<and> pending (mdFrames s') = p"
    if "message_ready s" "message_spec parse (message_conf s) (pending (mdFrames s) @ c) = Some (ms, p)"
  proof -
    from that(2) obtain fs where "frames_spec (maxFrameLength (mdFrames s)) (pending (mdFrames s) @ c) = Some (fs, p)"
        "decode_messages parse (mdKind s) (mdMaxFrameLength s) fs = Inr ms"
      by (auto simp: message_spec_def message_conf_def bind_eq_Some_conv res_simps)
    with message_push_frames [OF that(1) this(1), of parse] that(1) show ?thesis
      by (auto simp: message_ready_def message_conf_def)
  qed
  show "\<exists>s' e. message_push parse s c = Some (s', Inl e)"
    if "message_ready s" "message_spec parse (message_conf s) (pending (mdFrames s) @ c) = None"
  proof (cases "frames_spec (maxFrameLength (mdFrames s)) (pending (mdFrames s) @ c)")
    case None
    from fd.push_error [OF _ None] that(1) show ?thesis by (auto simp: message_ready_def message_push_def)
  next
    case (Some x)
    then obtain fs p where fs: "frames_spec (maxFrameLength (mdFrames s)) (pending (mdFrames s) @ c) = Some (fs, p)" by (cases x) auto
    with that(2) obtain e where "decode_messages parse (mdKind s) (mdMaxFrameLength s) fs = Inl e"
      by (auto simp: message_spec_def message_conf_def split: sum.splits)
    with message_push_frames [OF that(1) fs, of parse] show ?thesis by auto
  qed
qed

lemma message_end_ready:
  "message_ready d \<Longrightarrow> pending (mdFrames d) = [] \<Longrightarrow> snd (message_end d) = Inr ()"
  using frame_end_ready [of "mdFrames d"] by (auto simp: message_ready_def message_end_def split: prod.splits)

lemma new_message_decoder_ready:
  assumes "new_message_decoder kind options = Inr d"
  shows "message_ready d" "pending (mdFrames d) = []" "message_conf d = (kind, options, maxFrameLength (mdFrames d))"
    "resolveMaxFrameLength options = Inr (maxFrameLength (mdFrames d))"
  using assms by (auto simp: new_message_decoder_def res_simps message_ready_def message_conf_def new_decoder_ready)

section \<open>Round trip of messages\<close>

text \<open>A \<^verbatim>\<open>parse\<close> function as the code passes it: it returns its argument or throws, and accepts strict JSON only.\<close>

definition validates :: "(jsval \<Rightarrow> (protocol_error, jsval) res) \<Rightarrow> bool" where
  "validates parse \<longleftrightarrow> (\<forall>v m. parse v = Inr m \<longrightarrow> m = v \<and> isJsonValue v)"

lemma validatesD: "validates parse \<Longrightarrow> parse v = Inr m \<Longrightarrow> m = v \<and> isJsonValue v"
  by (simp add: validates_def)

lemma parse_validates: "validates (parseClientMessage check)" "validates (parseServerMessage check)"
  by (auto simp: validates_def parseClientMessage_def parseServerMessage_def split: if_splits)

lemma encoded_message:
  assumes "validates parse" "wf_value m" "encodeProtocolMessage m parse kind options = Inr frame"
    "resolveMaxFrameLength options = Inr limit"
  obtains payload where "encodeFrame payload = Inr frame" "length payload \<le> limit"
    "decodeCbor payload (byte_limit options) = Inr m" "parse m = Inr m"
proof -
  obtain payload where p: "parse m = Inr m" "isJsonValue m" "encodeCbor m (byte_limit options) = Inr payload" "encodeFrame payload = Inr frame"
    using assms(3) by (auto simp: encodeProtocolMessage_def res_simps dest: validatesD [OF assms(1)])
  obtain r where r: "resolveOptions (byte_limit options) = Inr r" "maxByteLength r = limit"
    using byte_limit_resolves [OF assms(4)] by blast
  note e = encodeCbor_reads_back [OF r(1) assms(2) p(3)]
  have "strip m = m" using p(2) json_strip(1) by (simp add: isJsonValue_def)
  with e r have "decodeCbor payload (byte_limit options) = Inr m" by (simp add: decodeCbor_def)
  with that p e r show ?thesis by blast
qed

lemma messages_stream:
  assumes "validates parse" "resolveMaxFrameLength options = Inr limit"
    "list_all2 (\<lambda>m f. encodeProtocolMessage m parse kind options = Inr f) ms frames" "\<forall>m\<in>set ms. wf_value m"
  shows "message_spec parse (kind, options, limit) (concat frames) = Some (ms, [])"
proof -
  have "\<exists>ps. list_all2 (\<lambda>p f. encodeFrame p = Inr f) ps frames \<and> (\<forall>p\<in>set ps. length p \<le> limit) \<and>
      decode_messages parse kind options ps = Inr ms"
    using assms(3,4)
  proof (induction rule: list_all2_induct)
    case (Cons m ms f frames)
    then obtain ps where ps: "list_all2 (\<lambda>p f. encodeFrame p = Inr f) ps frames" "\<forall>p\<in>set ps. length p \<le> limit"
      "decode_messages parse kind options ps = Inr ms" by auto
    from Cons have "wf_value m" by simp
    from encoded_message [OF assms(1) this Cons(1) assms(2)] obtain payload where
      "encodeFrame payload = Inr f" "length payload \<le> limit" "decodeCbor payload (byte_limit options) = Inr m" "parse m = Inr m" .
    with ps show ?case by (intro exI [of _ "payload # ps"]) simp
  qed auto
  then show ?thesis using stream_of_frames by (auto simp: message_spec_def frames_spec_def)
qed

lemma messages_decoded:
  assumes "validates parse" "new_message_decoder kind options = Inr d" "\<forall>m\<in>set ms. wf_value m"
    "list_all2 (\<lambda>m f. encodeProtocolMessage m parse kind options = Inr f) ms frames" "concat chunks = concat frames"
  shows "\<exists>d'. push_all (message_push parse) d chunks = Some (d', Inr ms) \<and> snd (message_end d') = Inr ()"
proof -
  note n = new_message_decoder_ready [OF assms(2)]
  have "message_spec parse (message_conf d) (pending (mdFrames d) @ concat chunks) = Some (ms, [])"
    using messages_stream [OF assms(1) n(4) assms(4,3)] assms(5) n(2,3) by simp
  from md.all_items [OF n(1) this] show ?thesis using message_end_ready by auto
qed

lemma message_push_Inr:
  assumes "message_push parse d c = Some (d', Inr ms)"
  obtains fs where "decode_messages parse (mdKind d) (mdMaxFrameLength d) fs = Inr ms"
proof -
  from assms obtain fr r where r: "frame_push (mdFrames d) c = Some (fr, r)" "\<not> mdFailed d"
    by (auto simp: message_push_def bind_eq_Some_conv split: if_splits)
  with assms that show ?thesis by (auto simp: message_push_def Let_def split: sum.splits)
qed

lemma pushed_valid:
  "validates parse \<Longrightarrow> push_all (message_push parse) d chunks = Some (d', Inr ms) \<Longrightarrow> m \<in> set ms \<Longrightarrow> parse m = Inr m"
proof (induction chunks arbitrary: d ms)
  case (Cons c cs)
  have dm: "validates parse \<Longrightarrow> decode_messages parse kind options fs = Inr ns \<Longrightarrow> n \<in> set ns \<Longrightarrow> parse n = Inr n" for kind options fs ns n
    by (induction fs arbitrary: ns) (auto simp: res_simps dest: validatesD)
  from Cons.prems(2) obtain d1 ns os where p: "message_push parse d c = Some (d1, Inr ns)"
      "push_all (message_push parse) d1 cs = Some (d', Inr os)" "ms = ns @ os"
    unfolding push_all_Cons_Inr by blast
  obtain fs where fs: "decode_messages parse (mdKind d) (mdMaxFrameLength d) fs = Inr ns"
    by (rule message_push_Inr [OF p(1)])
  with Cons.prems(3) p(3) show ?case by (auto intro: dm [OF Cons.prems(1) fs] Cons.IH [OF Cons.prems(1) p(2)])
qed simp

section \<open>Properties\<close>

text \<open>
  C12. Client messages survive the wire: messages encoded by \<^verbatim>\<open>encodeClientMessage\<close>, concatenated and cut into
  chunks in any way, come out of a \<^verbatim>\<open>ClientMessageDecoder\<close> with the same options unchanged and in
  order, and the end of the stream is accepted, whatever the schema checker accepts.
\<close>

theorem client_messages_roundtrip:
  assumes "new_message_decoder Client options = Inr d" "\<forall>m\<in>set ms. wf_value m"
    "list_all2 (\<lambda>m f. encodeClientMessage check m options = Inr f) ms frames" "concat chunks = concat frames"
  shows "\<exists>d'. push_all (client_push check) d chunks = Some (d', Inr ms) \<and> snd (message_end d') = Inr ()"
  using messages_decoded [OF parse_validates(1) assms(1,2) assms(3) [unfolded encodeClientMessage_def] assms(4)]
  by (simp add: client_push_def)

text \<open>
  C37. Nothing unvalidated leaves a server message decoder: from any state and for any chunks, every
  message returned satisfies the server message schema and is strict JSON.
\<close>

theorem server_messages_validated:
  assumes "push_all (server_push check) d chunks = Some (d', Inr ms)" "m \<in> set ms"
  shows "check ServerMessageSchema m \<and> isJsonValue m"
  using pushed_valid [OF parse_validates(2) assms [unfolded server_push_def]]
  by (auto simp: parseServerMessage_def split: if_splits)

definition sample_hello :: jsval where
  "sample_hello = JObj False [(js ''type'', JStr (js ''hello'')), (js ''version'', JNum (JInt 8))]"

definition sample_hello_bytes :: "byte list" where
  "sample_hello_bytes = [0xa2, 0x64, 0x74, 0x79, 0x70, 0x65, 0x65, 0x68, 0x65, 0x6c, 0x6c, 0x6f,
     0x67, 0x76, 0x65, 0x72, 0x73, 0x69, 0x6f, 0x6e, 8]"

definition sample_message_decoder :: "message_kind \<Rightarrow> ValidatedMessageDecoder" where
  "sample_message_decoder kind = \<lparr>mdFailed = False, mdFrames = sample_decoder, mdKind = kind, mdMaxFrameLength = None\<rparr>"

lemma sample_message_decoder_new: "new_message_decoder kind None = Inr (sample_message_decoder kind)"
  by (simp add: new_message_decoder_def sample_decoder_new sample_message_decoder_def)

lemma byte_limit_default:
  "resolveOptions (byte_limit None) = Inr \<lparr>maxByteLength = 16777216, maxContainerLength = 1000000, maxDepth = 64\<rparr>"
  by (simp add: byte_limit_def resolveOptions_def or_default_def resolveLimit_def safe_int_def max_safe_def MAX_UINT32_def
      MAX_CONFIGURED_DEPTH_def DEFAULT_MAX_FRAME_LENGTH_def DEFAULT_MAX_CBOR_CONTAINER_LENGTH_def DEFAULT_MAX_CBOR_DEPTH_def)

lemma ascii_hello: "js ''type'' = [116, 121, 112, 101]" "js ''hello'' = [104, 101, 108, 108, 111]"
  "js ''version'' = [118, 101, 114, 115, 105, 111, 110]"
  by (simp_all add: js_def)

lemma sample_hello_wf: "wf_value sample_hello"
  by (simp add: sample_hello_def ascii_hello wf_value.simps own_keys_def key_order_def key_before_def array_index_def)

lemma ascii_hello_text: "ascii (js ''type'')" "ascii (js ''hello'')" "ascii (js ''version'')"
  by (simp_all add: ascii_hello ascii_def)

lemma argument_small: "n < 24 \<Longrightarrow> argument_bytes m n = [byte_of (m * 32 + n)]"
  by (simp add: argument_bytes_def prefix_or)

lemma text_bytes_hello:
  "text_bytes (js ''type'') = [0x64, 0x74, 0x79, 0x70, 0x65]"
  "text_bytes (js ''hello'') = [0x65, 0x68, 0x65, 0x6c, 0x6c, 0x6f]"
  "text_bytes (js ''version'') = [0x67, 0x76, 0x65, 0x72, 0x73, 0x69, 0x6f, 0x6e]"
  unfolding text_bytes_def text_encode_ascii [OF ascii_hello_text(1)] text_encode_ascii [OF ascii_hello_text(2)]
    text_encode_ascii [OF ascii_hello_text(3)]
  by (simp_all add: ascii_hello argument_small byte_of_def)

lemma text_ok_ascii: "ascii s \<Longrightarrow> length s \<le> maxByteLength options \<Longrightarrow> text_ok options s"
  by (simp add: text_ok_def text_encode_ascii well_formed_ascii)

lemma sample_hello_cbor: "encodeCbor sample_hello (byte_limit None) = Inr sample_hello_bytes"
proof -
  have v: "value_bytes sample_hello = sample_hello_bytes"
    unfolding sample_hello_def sample_hello_bytes_def
    by (simp add: text_bytes_hello argument_small byte_of_def)
  have e: "encodable \<lparr>maxByteLength = 16777216, maxContainerLength = 1000000, maxDepth = 64\<rparr> 0 sample_hello"
    unfolding sample_hello_def
    by (simp add: encodable.simps safe_int_def max_safe_def)
      (simp add: ascii_hello ascii_def text_ok_ascii)
  show ?thesis using encodeCbor_value_bytes [OF byte_limit_default e] by (simp add: v sample_hello_bytes_def)
qed

lemma sample_hello_framed: "encodeFrame sample_hello_bytes = Inr ([0, 0, 0, 21] @ sample_hello_bytes)"
proof -
  have "length sample_hello_bytes = 21" by (simp add: sample_hello_bytes_def)
  then show ?thesis by (simp add: encodeFrame_eq MAX_UINT32_def uint32_bytes_def byte_of_def)
qed

lemma sample_hello_json: "isJsonValue sample_hello"
  by (simp add: isJsonValue_def sample_hello_def json_check.simps)

lemma sample_hello_frame:
  "encodeClientMessage (\<lambda>s v. v = sample_hello) sample_hello None = Inr ([0, 0, 0, 21] @ sample_hello_bytes)"
  by (simp add: encodeClientMessage_def encodeProtocolMessage_def parseClientMessage_def sample_hello_json sample_hello_cbor
      sample_hello_framed)

theorem client_messages_roundtrip_witness:
  "\<exists>d'. push_all (client_push (\<lambda>s v. v = sample_hello)) (sample_message_decoder Client)
       [[0, 0], [0, 21] @ take 5 sample_hello_bytes, drop 5 sample_hello_bytes] = Some (d', Inr [sample_hello]) \<and>
     snd (message_end d') = Inr ()"
  by (rule client_messages_roundtrip [OF sample_message_decoder_new, of _ _ "[[0, 0, 0, 21] @ sample_hello_bytes]"])
    (simp_all add: sample_hello_wf sample_hello_frame)

lemma sample_hello_server_frame:
  "encodeServerMessage (\<lambda>s v. v = sample_hello) sample_hello None = Inr ([0, 0, 0, 21] @ sample_hello_bytes)"
  by (simp add: encodeServerMessage_def encodeProtocolMessage_def parseServerMessage_def sample_hello_json sample_hello_cbor
      sample_hello_framed)

theorem server_messages_validated_witness:
  "(\<lambda>s v. v = sample_hello) ServerMessageSchema sample_hello \<and> isJsonValue sample_hello"
proof -
  obtain d' where d: "push_all (server_push (\<lambda>s v. v = sample_hello)) (sample_message_decoder Server)
      [[0, 0, 0, 21] @ sample_hello_bytes] = Some (d', Inr [sample_hello])"
    using messages_decoded [OF parse_validates(2) [of "\<lambda>s v. v = sample_hello"] sample_message_decoder_new [of Server],
        of "[sample_hello]" "[[0, 0, 0, 21] @ sample_hello_bytes]" "[[0, 0, 0, 21] @ sample_hello_bytes]"]
      sample_hello_server_frame sample_hello_wf by (auto simp: server_push_def encodeServerMessage_def)
  show ?thesis using server_messages_validated [OF d, of sample_hello] by simp
qed

end
