(* ===== verification/Json.thy ===== *)
theory Json
  imports Js_Values
begin

text \<open>
  JSON values as \<^verbatim>\<open>packages/chord/src/delta\<close> handles them: the type \<^verbatim>\<open>JsonValue\<close>, the strict comparison of
  values that are not the same object, and \<^verbatim>\<open>jsonEqual\<close>, shown to be an equivalence on finite values with
  distinct keys.
\<close>

datatype json =
    Null
  | Bool bool
  | Num jnum
  | Str jstring
  | Arr "json list"
  | Obj "(jstring \<times> json) list"

fun isObj :: "json \<Rightarrow> bool" where
  "isObj (Arr _) = True"
| "isObj (Obj _) = True"
| "isObj _ = False"

text \<open>
  The comparison \<^verbatim>\<open>===\<close> of two values: by value on primitives; two arrays or objects are compared by
  reference, and the values compared here are held by different owners.
\<close>

fun strict_eq :: "json \<Rightarrow> json \<Rightarrow> bool" where
  "strict_eq Null Null = True"
| "strict_eq (Bool a) (Bool b) = (a = b)"
| "strict_eq (Num a) (Num b) = num_eq a b"
| "strict_eq (Str a) (Str b) = (a = b)"
| "strict_eq _ _ = False"

text \<open>\<^verbatim>\<open>jsonEqual\<close>: the same keys with equal values, in any order.\<close>

fun jsonEqual :: "json \<Rightarrow> json \<Rightarrow> bool" and jsonEqual_items :: "json list \<Rightarrow> json list \<Rightarrow> bool"
  and jsonEqual_entries :: "(jstring \<times> json) list \<Rightarrow> (jstring \<times> json) list \<Rightarrow> bool" where
  "jsonEqual left right =
     (if strict_eq left right then True
      else case (left, right) of
        (Arr xs, Arr ys) \<Rightarrow> length xs = length ys \<and> jsonEqual_items xs ys
      | (Obj ps, Obj qs) \<Rightarrow> length ps = length qs \<and> jsonEqual_entries ps qs
      | _ \<Rightarrow> False)"
| "jsonEqual_items [] ys = True"
| "jsonEqual_items (x # xs) ys = (case ys of [] \<Rightarrow> False | y # ys' \<Rightarrow> jsonEqual x y \<and> jsonEqual_items xs ys')"
| "jsonEqual_entries [] qs = True"
| "jsonEqual_entries ((k, v) # ps) qs =
     ((case map_of qs k of None \<Rightarrow> False | Some w \<Rightarrow> jsonEqual v w) \<and> jsonEqual_entries ps qs)"

declare jsonEqual.simps [simp del]

text \<open>Values that JSON can carry: no NaN, and the keys of an object distinct and in property order.\<close>

fun json_ok :: "json \<Rightarrow> bool" and items_ok :: "json list \<Rightarrow> bool" and entries_ok :: "(jstring \<times> json) list \<Rightarrow> bool" where
  "json_ok Null = True"
| "json_ok (Bool b) = True"
| "json_ok (Num n) = num_finite n"
| "json_ok (Str s) = True"
| "json_ok (Arr xs) = items_ok xs"
| "json_ok (Obj ps) = (own_keys ps \<and> entries_ok ps)"
| "items_ok [] = True"
| "items_ok (x # xs) = (json_ok x \<and> items_ok xs)"
| "entries_ok [] = True"
| "entries_ok ((k, v) # ps) = (json_ok v \<and> entries_ok ps)"

lemma items_ok_iff [simp]: "items_ok xs \<longleftrightarrow> (\<forall>x\<in>set xs. json_ok x)"
  by (induction xs) auto

lemma entries_ok_iff [simp]: "entries_ok ps \<longleftrightarrow> (\<forall>(k, v)\<in>set ps. json_ok v)"
  by (induction ps) auto

lemma jsonEqual_items_iff: "jsonEqual_items xs ys \<and> length xs = length ys \<longleftrightarrow> list_all2 jsonEqual xs ys"
  by (induction xs arbitrary: ys) (auto split: list.splits simp: list_all2_Cons1)

lemma jsonEqual_entries_iff:
  "jsonEqual_entries ps qs \<longleftrightarrow> (\<forall>(k, v)\<in>set ps. \<exists>w. map_of qs k = Some w \<and> jsonEqual v w)"
  by (induction ps) (auto split: option.splits)

lemma jsonEqual_simps [simp]:
  "jsonEqual Null v \<longleftrightarrow> v = Null"
  "jsonEqual (Bool b) v \<longleftrightarrow> v = Bool b"
  "jsonEqual (Num n) v \<longleftrightarrow> (\<exists>m. v = Num m \<and> num_eq n m)"
  "jsonEqual (Str s) v \<longleftrightarrow> v = Str s"
  "jsonEqual (Arr xs) v \<longleftrightarrow> (\<exists>ys. v = Arr ys \<and> list_all2 jsonEqual xs ys)"
  "jsonEqual (Obj ps) v \<longleftrightarrow> (\<exists>qs. v = Obj qs \<and> length ps = length qs \<and>
     (\<forall>(k, x)\<in>set ps. \<exists>y. map_of qs k = Some y \<and> jsonEqual x y))"
  by (cases v; auto simp: jsonEqual.simps jsonEqual_items_iff [symmetric] jsonEqual_entries_iff)+

lemma strict_eq_jsonEqual: "strict_eq a b \<Longrightarrow> jsonEqual a b"
  by (simp add: jsonEqual.simps)

text \<open>On objects with distinct keys, equality is equality of the two maps up to the values.\<close>

lemma jsonEqual_Obj:
  assumes "distinct (map fst ps)" "distinct (map fst qs)"
  shows "jsonEqual (Obj ps) (Obj qs) \<longleftrightarrow> (\<forall>k. rel_option jsonEqual (map_of ps k) (map_of qs k))"
proof
  assume eq: "jsonEqual (Obj ps) (Obj qs)"
  then have len: "length ps = length qs" and sub: "fst ` set ps \<subseteq> fst ` set qs"
    by (auto dest!: map_of_SomeD bspec intro: rev_image_eqI)
  have "card (fst ` set ps) = length ps" "card (fst ` set qs) = length qs"
    using assms by (metis distinct_card length_map set_map)+
  then have same: "fst ` set ps = fst ` set qs" using len sub by (metis card_subset_eq finite_imageI finite_set)
  show "\<forall>k. rel_option jsonEqual (map_of ps k) (map_of qs k)"
  proof
    fix k
    show "rel_option jsonEqual (map_of ps k) (map_of qs k)"
    proof (cases "map_of ps k")
      case None
      then have "map_of qs k = None" using same by (metis map_of_eq_None_iff)
      with None show ?thesis by simp
    next
      case (Some v)
      with eq have "\<exists>y. map_of qs k = Some y \<and> jsonEqual v y" by (force dest: map_of_SomeD)
      with Some show ?thesis by auto
    qed
  qed
next
  assume rel: "\<forall>k. rel_option jsonEqual (map_of ps k) (map_of qs k)"
  have "dom (map_of ps) = dom (map_of qs)"
    using rel by (auto simp: dom_def) (metis option.rel_distinct(1,2) not_Some_eq)+
  then have "fst ` set ps = fst ` set qs" by (simp add: dom_map_of_conv_image_fst)
  then have "length ps = length qs" using assms by (metis distinct_card length_map set_map)
  moreover have "\<exists>y. map_of qs k = Some y \<and> jsonEqual x y" if "(k, x) \<in> set ps" for k x
    using rel [rule_format, of k] that assms(1) by (auto simp: option_rel_Some1)
  ultimately show "jsonEqual (Obj ps) (Obj qs)" by auto
qed

lemma num_finite_not_nan: "num_finite n \<Longrightarrow> \<not> num_nan n"
  by (cases n) (auto simp: num_nan_def dbl_finite_def)

lemma jsonEqual_refl: "json_ok v \<Longrightarrow> jsonEqual v v"
proof (induction v)
  case (Arr xs)
  then show ?case by (auto simp: list_all2_conv_all_nth)
next
  case (Obj ps)
  have "jsonEqual x x" if "(k, x) \<in> set ps" for k x using Obj that by fastforce
  moreover have "distinct (map fst ps)" using Obj.prems by (simp add: own_keys_distinct)
  ultimately show ?case by (auto intro: map_of_is_SomeI)
qed (auto simp: num_eq_refl num_finite_not_nan)

lemma jsonEqual_trans: "jsonEqual a b \<Longrightarrow> jsonEqual b c \<Longrightarrow> jsonEqual a c"
proof (induction a arbitrary: b c)
  case (Arr xs)
  then obtain ys zs where ys: "b = Arr ys" "list_all2 jsonEqual xs ys" "c = Arr zs" "list_all2 jsonEqual ys zs" by auto
  have "jsonEqual (xs ! i) (zs ! i)" if "i < length xs" for i
    using Arr.IH [of "xs ! i"] ys that by (metis list_all2_conv_all_nth nth_mem)
  with ys show ?case by (auto simp: list_all2_conv_all_nth)
next
  case (Obj ps)
  then obtain qs rs where q: "b = Obj qs" "length ps = length qs" "\<forall>(k, x)\<in>set ps. \<exists>y. map_of qs k = Some y \<and> jsonEqual x y"
      "c = Obj rs" "length qs = length rs" "\<forall>(k, x)\<in>set qs. \<exists>y. map_of rs k = Some y \<and> jsonEqual x y"
    by auto
  have "\<exists>z. map_of rs k = Some z \<and> jsonEqual x z" if "(k, x) \<in> set ps" for k x
  proof -
    from q(3) that obtain y where y: "map_of qs k = Some y" "jsonEqual x y" by blast
    from q(6) map_of_SomeD [OF y(1)] obtain z where z: "map_of rs k = Some z" "jsonEqual y z" by blast
    have "jsonEqual x z" by (rule Obj.IH [OF that _ y(2) z(2)]) simp
    with z show ?thesis by blast
  qed
  with q show ?case by auto
qed (auto simp: num_eq_def)

lemma jsonEqual_sym: "jsonEqual a b \<Longrightarrow> json_ok a \<Longrightarrow> json_ok b \<Longrightarrow> jsonEqual b a"
proof (induction a arbitrary: b)
  case (Arr xs)
  then obtain ys where ys: "b = Arr ys" "list_all2 jsonEqual xs ys" by auto
  have "jsonEqual (ys ! i) (xs ! i)" if "i < length xs" for i
    using Arr ys that by (auto simp: list_all2_conv_all_nth)
  with ys show ?case by (auto simp: list_all2_conv_all_nth)
next
  case (Obj ps)
  then obtain qs where b: "b = Obj qs" by auto
  have d: "distinct (map fst ps)" "distinct (map fst qs)" using Obj.prems b by (simp_all add: own_keys_distinct)
  have rel: "rel_option jsonEqual (map_of ps k) (map_of qs k)" for k
    using jsonEqual_Obj [OF d] Obj.prems(1) b by (simp del: jsonEqual_simps)
  have "rel_option jsonEqual (map_of qs k) (map_of ps k)" for k
  proof (cases "map_of ps k")
    case None
    with rel [of k] show ?thesis by auto
  next
    case (Some x)
    with rel [of k] obtain y where y: "map_of qs k = Some y" "jsonEqual x y" by (auto simp: option_rel_Some1)
    have "json_ok x" "json_ok y" using Obj.prems(2,3) b map_of_SomeD [OF Some] map_of_SomeD [OF y(1)] by auto
    with Obj.IH [OF map_of_SomeD [OF Some] _ y(2)] Some y show ?thesis by simp
  qed
  then show ?case using jsonEqual_Obj [OF d(2,1)] b by (simp del: jsonEqual_simps)
qed (auto simp: num_eq_def)

end
