(* ===== verification/Delta_Apply.thy ===== *)
theory Delta_Apply
  imports Json
begin

text \<open>
  Operations on JSON values and their application, \<^verbatim>\<open>packages/chord/src/delta/index.ts\<close>: the op vocabulary,
  the path safety checks, \<^verbatim>\<open>apply\<close>, \<^verbatim>\<open>applyImmutable\<close>, and the lemmas that relate an operation on
  a value to the same operation below a path of a larger one.

  The code updates the value in place; a value here is a tree that its owner holds alone, so an update is
  the tree with one node changed. A number used as a path segment is a non-negative integer, as every
  check requires; its property key is its decimal numeral (integers below $10^{21}$).
\<close>

section \<open>Operations\<close>

datatype seg = Key jstring | Idx nat

type_synonym path = "seg list"

datatype op =
    OpR json
  | OpS path json
  | OpD path
  | OpA path jstring
  | OpT path nat
  | OpP path nat nat "json list"

datatype delta_error =
    UnsafePathError seg
  | PathError path
  | PathIdError nat
  | PathIsEmpty

definition isReplace :: "op \<Rightarrow> bool" where
  "isReplace x = (case x of OpR _ \<Rightarrow> True | _ \<Rightarrow> False)"

definition isBase :: "op list \<Rightarrow> bool" where
  "isBase ops = (case ops of [] \<Rightarrow> False | x # _ \<Rightarrow> isReplace x)"

definition RESERVED_SEGMENTS :: "jstring set" where
  "RESERVED_SEGMENTS = {js ''__proto__'', js ''constructor'', js ''prototype''}"

text \<open>The property key of a segment.\<close>

function digits :: "nat \<Rightarrow> jstring" where
  "digits n = (if n < 10 then [of_nat (48 + n)] else digits (n div 10) @ [of_nat (48 + n mod 10)])"
  by pat_completeness auto
termination
  by (relation "measure id") auto

declare digits.simps [simp del]

fun seg_key :: "seg \<Rightarrow> jstring" where
  "seg_key (Key k) = k"
| "seg_key (Idx n) = digits n"

fun assertSafePath :: "path \<Rightarrow> (delta_error, unit) res" where
  "assertSafePath [] = Inr ()"
| "assertSafePath (s # path) =
     (case s of
        Key k \<Rightarrow> if k \<in> RESERVED_SEGMENTS then Inl (UnsafePathError s) else assertSafePath path
      | Idx _ \<Rightarrow> assertSafePath path)"

text \<open>\<^verbatim>\<open>assertPathArg\<close> and \<^verbatim>\<open>assertValidOp\<close> on a tuple of the right shape: what is left are the path tests.\<close>

definition assertPathArg :: "path \<Rightarrow> bool \<Rightarrow> (delta_error, unit) res" where
  "assertPathArg path nonEmpty = (if nonEmpty \<and> path = [] then Inl PathIsEmpty else assertSafePath path)"

fun assertValidOp :: "op \<Rightarrow> (delta_error, unit) res" where
  "assertValidOp (OpR v) = Inr ()"
| "assertValidOp (OpS path v) = assertPathArg path True"
| "assertValidOp (OpD path) = assertPathArg path True"
| "assertValidOp (OpA path s) = assertPathArg path True"
| "assertValidOp (OpT path n) = assertPathArg path True"
| "assertValidOp (OpP path i r items) = assertPathArg path False"

fun op_path :: "op \<Rightarrow> path" where
  "op_path (OpR v) = []"
| "op_path (OpS path v) = path"
| "op_path (OpD path) = path"
| "op_path (OpA path s) = path"
| "op_path (OpT path n) = path"
| "op_path (OpP path i r items) = path"

section \<open>Walking\<close>

text \<open>
  The own value of a segment; \<open>None\<close> is \<^verbatim>\<open>MISSING\<close>. The own properties of an array are its indices, by
  number or by numeral, and its length.
\<close>

definition ownValue :: "json \<Rightarrow> seg \<Rightarrow> json option" where
  "ownValue v s =
     (case v of
        Arr xs \<Rightarrow>
          (case s of
             Idx i \<Rightarrow> if i < length xs then Some (xs ! i) else None
           | Key k \<Rightarrow>
               if k = js ''length'' then Some (Num (JInt (int (length xs))))
               else case array_index k of Some i \<Rightarrow> if i < length xs then Some (xs ! i) else None | None \<Rightarrow> None)
      | Obj ps \<Rightarrow> map_of ps (seg_key s)
      | _ \<Rightarrow> None)"

text \<open>
  \<^verbatim>\<open>resolveValue\<close> followed by an update of the node it finds: the tree with the result of \<open>f\<close> in its
  place. \<open>full\<close> is the path that errors report.
\<close>

fun at_path :: "path \<Rightarrow> path \<Rightarrow> (json \<Rightarrow> (delta_error, json) res) \<Rightarrow> json \<Rightarrow> (delta_error, json) res" where
  "at_path full [] f node = f node"
| "at_path full (s # path) f node =
     (case node of
        Arr xs \<Rightarrow>
          (case s of
             Key k \<Rightarrow> Inl (UnsafePathError s)
           | Idx i \<Rightarrow>
               if i < length xs then rbind (at_path full path f (xs ! i)) (\<lambda>v. Inr (Arr (xs[i := v])))
               else Inl (PathError full))
      | Obj ps \<Rightarrow>
          (case map_of ps (seg_key s) of
             None \<Rightarrow> Inl (PathError full)
           | Some c \<Rightarrow> rbind (at_path full path f c) (\<lambda>v. Inr (Obj (obj_put (seg_key s) v ps))))
      | _ \<Rightarrow> Inl (PathError full))"

text \<open>The node \<^verbatim>\<open>resolve\<close> returns must be an array or an object.\<close>

definition resolve_at :: "path \<Rightarrow> (json \<Rightarrow> (delta_error, json) res) \<Rightarrow> json option \<Rightarrow> (delta_error, json) res" where
  "resolve_at path f root =
     (case root of
        None \<Rightarrow> Inl (PathError path)
      | Some v \<Rightarrow> at_path path path (\<lambda>node. if isObj node then f node else Inl (PathError path)) v)"

section \<open>The applier\<close>

text \<open>\<^verbatim>\<open>target.splice(index, remove, ...items)\<close>, which clamps index and count to the array.\<close>

definition js_splice :: "'a list \<Rightarrow> nat \<Rightarrow> nat \<Rightarrow> 'a list \<Rightarrow> 'a list" where
  "js_splice xs index remove items = take index xs @ items @ drop (index + remove) xs"

definition chunkSize :: nat where "chunkSize = 10000"

function insert_chunks :: "'a list \<Rightarrow> nat \<Rightarrow> 'a list \<Rightarrow> 'a list" where
  "insert_chunks target pos items =
     (if items = [] then target
      else insert_chunks (js_splice target pos 0 (take chunkSize items)) (pos + chunkSize) (drop chunkSize items))"
  by pat_completeness auto
termination
  by (relation "measure (\<lambda>(t, p, items). length items)") (auto simp: chunkSize_def)

declare insert_chunks.simps [simp del]

definition splice_op :: "path \<Rightarrow> nat \<Rightarrow> nat \<Rightarrow> json list \<Rightarrow> json \<Rightarrow> (delta_error, json) res" where
  "splice_op path index remove items node =
     (case node of
        Arr xs \<Rightarrow> Inr (Arr (insert_chunks (js_splice xs index remove []) index items))
      | _ \<Rightarrow> Inl (PathError path))"

text \<open>The checks and accesses of one child \<open>key\<close> of \<open>parent\<close>, for s, d, a and t.\<close>

definition check_key :: "json \<Rightarrow> seg \<Rightarrow> (delta_error, unit) res" where
  "check_key parent key =
     (case parent of
        Arr xs \<Rightarrow>
          (case key of
             Key _ \<Rightarrow> Inl (UnsafePathError key)
           | Idx i \<Rightarrow> if i > length xs then Inl (UnsafePathError key) else Inr ())
      | _ \<Rightarrow> Inr ())"

definition write_child :: "json \<Rightarrow> seg \<Rightarrow> json \<Rightarrow> json" where
  "write_child parent key v =
     (case parent of
        Arr xs \<Rightarrow> (case key of Idx i \<Rightarrow> Arr (if i < length xs then xs[i := v] else xs @ [v]) | Key _ \<Rightarrow> parent)
      | Obj ps \<Rightarrow> Obj (obj_put (seg_key key) v ps)
      | _ \<Rightarrow> parent)"

definition delete_child :: "path \<Rightarrow> json \<Rightarrow> seg \<Rightarrow> (delta_error, json) res" where
  "delete_child path parent key =
     (case parent of
        Arr xs \<Rightarrow>
          (case key of
             Idx i \<Rightarrow> if i \<ge> length xs then Inl (PathError path) else Inr (Arr (js_splice xs i 1 []))
           | Key _ \<Rightarrow> Inl (PathError path))
      | Obj ps \<Rightarrow> Inr (Obj (obj_delete (seg_key key) ps))
      | _ \<Rightarrow> Inr parent)"

definition edit_text :: "path \<Rightarrow> (jstring \<Rightarrow> jstring) \<Rightarrow> json \<Rightarrow> seg \<Rightarrow> (delta_error, json) res" where
  "edit_text path g parent key =
     (case ownValue parent key of
        Some (Str current) \<Rightarrow> Inr (write_child parent key (Str (g current)))
      | _ \<Rightarrow> Inl (PathError path))"

definition child_op :: "op \<Rightarrow> json \<Rightarrow> (delta_error, json) res" where
  "child_op x parent =
     (let path = op_path x; key = last path in
      rbind (check_key parent key) (\<lambda>_.
        case x of
          OpS _ v \<Rightarrow> Inr (write_child parent key v)
        | OpD _ \<Rightarrow> delete_child path parent key
        | OpA _ s \<Rightarrow> edit_text path (\<lambda>current. current @ s) parent key
        | OpT _ n \<Rightarrow> edit_text path (drop n) parent key
        | _ \<Rightarrow> Inr parent))"

definition applyOp :: "json option \<Rightarrow> op \<Rightarrow> (delta_error, json option) res" where
  "applyOp root x =
     rbind (assertValidOp x) (\<lambda>_.
       case x of
         OpR v \<Rightarrow> Inr (Some v)
       | OpP path index remove items \<Rightarrow>
           rbind (assertSafePath path) (\<lambda>_.
             if path = []
             then (case root of None \<Rightarrow> Inl (PathError path)
                   | Some v \<Rightarrow> rbind (splice_op path index remove items v) (\<lambda>v. Inr (Some v)))
             else rbind (resolve_at path (splice_op path index remove items) root) (\<lambda>v. Inr (Some v)))
       | _ \<Rightarrow>
           rbind (assertSafePath (op_path x)) (\<lambda>_.
             rbind (resolve_at (butlast (op_path x)) (child_op x) root) (\<lambda>v. Inr (Some v))))"

fun applyOps :: "json option \<Rightarrow> op list \<Rightarrow> (delta_error, json option) res" where
  "applyOps root [] = Inr root"
| "applyOps root (x # ops) = rbind (applyOp root x) (\<lambda>root'. applyOps root' ops)"

section \<open>The immutable applier\<close>

text \<open>
  \<^verbatim>\<open>copyContainers\<close> copies every container on a path. On trees the copy is the same value; what remains
  are its errors. A copied object has its keys defined one by one.
\<close>

definition copy_container :: "path \<Rightarrow> json \<Rightarrow> (delta_error, json) res" where
  "copy_container path v =
     (case v of
        Arr xs \<Rightarrow> Inr (Arr xs)
      | Obj ps \<Rightarrow> Inr (Obj (foldl (\<lambda>acc (k, c). obj_put k c acc) [] ps))
      | _ \<Rightarrow> Inl (PathError path))"

fun copy_below :: "path \<Rightarrow> path \<Rightarrow> json \<Rightarrow> json \<Rightarrow> (delta_error, json) res" where
  "copy_below full [] source destination = Inr destination"
| "copy_below full (s # path) source destination =
     (case ownValue source s of
        None \<Rightarrow> Inl (PathError full)
      | Some child \<Rightarrow>
          (case (source, s) of
             (Arr xs, Key k) \<Rightarrow> Inl (UnsafePathError s)
           | _ \<Rightarrow>
               rbind (copy_container full child) (\<lambda>copiedChild.
               rbind (copy_below full path child copiedChild) (\<lambda>v.
                 Inr (write_child destination s v)))))"

definition copyContainers :: "json option \<Rightarrow> path \<Rightarrow> (delta_error, json) res" where
  "copyContainers root path =
     (case root of
        None \<Rightarrow> Inl (PathError path)
      | Some v \<Rightarrow> rbind (copy_container path v) (\<lambda>copiedRoot. copy_below path path v copiedRoot))"

definition immutableOp :: "json option \<Rightarrow> op \<Rightarrow> (delta_error, json option) res" where
  "immutableOp root x =
     (case x of
        OpR v \<Rightarrow> rbind (assertValidOp x) (\<lambda>_. Inr (Some v))
      | OpP path _ _ _ \<Rightarrow> rbind (copyContainers root path) (\<lambda>copy. applyOps (Some copy) [x])
      | _ \<Rightarrow> rbind (copyContainers root (butlast (op_path x))) (\<lambda>copy. applyOps (Some copy) [x]))"

fun applyImmutable :: "json option \<Rightarrow> op list \<Rightarrow> (delta_error, json option) res" where
  "applyImmutable root [] = Inr root"
| "applyImmutable root (x # ops) = rbind (immutableOp root x) (\<lambda>root'. applyImmutable root' ops)"

section \<open>Splices\<close>

lemma js_splice_twice: "js_splice (js_splice xs i r []) i 0 items = js_splice xs i r items"
  by (cases "i \<le> length xs") (simp_all add: js_splice_def)

lemma js_splice_nil [simp]: "js_splice xs i 0 [] = xs"
  by (simp add: js_splice_def)

lemma js_splice_next:
  "length c = n \<Longrightarrow> js_splice (js_splice xs i 0 c) (i + n) 0 items = js_splice xs i 0 (c @ items)"
  by (cases "i \<le> length xs") (simp_all add: js_splice_def)

lemma insert_chunks_eq: "insert_chunks xs pos items = js_splice xs pos 0 items"
proof (induction xs pos items rule: insert_chunks.induct)
  case (1 target pos items)
  show ?case
  proof (cases "items = []")
    case True
    then show ?thesis by (subst insert_chunks.simps) (simp add: js_splice_def)
  next
    case False
    then have "insert_chunks target pos items
        = js_splice (js_splice target pos 0 (take chunkSize items)) (pos + chunkSize) 0 (drop chunkSize items)"
      using 1 by (subst insert_chunks.simps) simp
    also have "\<dots> = js_splice target pos 0 items"
    proof (cases "chunkSize \<le> length items")
      case True
      then show ?thesis by (simp add: js_splice_next)
    next
      case False
      then show ?thesis by simp
    qed
    finally show ?thesis .
  qed
qed

lemma splice_op_Arr [simp]: "splice_op path i r items (Arr xs) = Inr (Arr (js_splice xs i r items))"
  by (simp add: splice_op_def insert_chunks_eq js_splice_twice)

section \<open>Nodes of a value\<close>

definition child :: "json \<Rightarrow> seg \<Rightarrow> json option" where
  "child v s =
     (case v of
        Arr xs \<Rightarrow> (case s of Idx i \<Rightarrow> if i < length xs then Some (xs ! i) else None | Key _ \<Rightarrow> None)
      | Obj ps \<Rightarrow> map_of ps (seg_key s)
      | _ \<Rightarrow> None)"

fun get_path :: "json \<Rightarrow> path \<Rightarrow> json option" where
  "get_path v [] = Some v"
| "get_path v (s # path) = Option.bind (child v s) (\<lambda>c. get_path c path)"

fun put_path :: "json \<Rightarrow> path \<Rightarrow> json \<Rightarrow> json" where
  "put_path v [] w = w"
| "put_path v (s # path) w = (case child v s of None \<Rightarrow> v | Some c \<Rightarrow> write_child v s (put_path c path w))"

lemma child_ownValue: "child v s = Some c \<Longrightarrow> ownValue v s = Some c"
  by (auto simp: child_def ownValue_def split: json.splits seg.splits)

lemma child_write [simp]: "child v s = Some c \<Longrightarrow> child (write_child v s w) s = Some w"
  by (auto simp: child_def write_child_def split: json.splits seg.splits if_splits)

lemma obj_put_twice: "obj_put k w (obj_put k x ps) = obj_put k w ps"
  if "k \<in> fst ` set ps"
proof -
  have "k \<in> fst ` set (obj_put k x ps)" by (simp add: keys_obj_put)
  with that show ?thesis by (auto simp: obj_put_def)
qed

lemma write_write [simp]: "child v s = Some c \<Longrightarrow> write_child (write_child v s x) s w = write_child v s w"
  by (auto simp: child_def write_child_def obj_put_twice dest!: map_of_SomeD split: json.splits seg.splits if_splits
      intro!: obj_put_twice image_eqI)

lemma get_put [simp]: "get_path v p = Some x \<Longrightarrow> get_path (put_path v p y) p = Some y"
  by (induction v p arbitrary: x rule: get_path.induct) (auto simp: bind_eq_Some_conv)

lemma put_put [simp]: "get_path v p = Some x \<Longrightarrow> put_path (put_path v p y) p z = put_path v p z"
  by (induction v p arbitrary: x rule: get_path.induct) (auto simp: bind_eq_Some_conv)

lemma obj_put_same: "own_keys ps \<Longrightarrow> map_of ps k = Some x \<Longrightarrow> obj_put k x ps = ps"
  using own_keys_distinct [of ps]
  by (auto simp: obj_put_def intro!: map_idI dest!: map_of_SomeD intro: rev_image_eqI eq_key_imp_eq_value)

lemma get_path_append: "get_path v (p @ q) = Option.bind (get_path v p) (\<lambda>x. get_path x q)"
  by (induction v p rule: get_path.induct) (auto intro: Option.bind_cong)

lemma put_path_append: "get_path v p = Some x \<Longrightarrow> put_path v (p @ q) w = put_path v p (put_path x q w)"
  by (induction v p arbitrary: x rule: get_path.induct) (auto simp: bind_eq_Some_conv)

lemma at_path_append:
  "get_path v p = Some x \<Longrightarrow> at_path full (p @ q) f v = rbind (at_path full q f x) (\<lambda>y. Inr (put_path v p y))"
proof (induction v p arbitrary: x rule: get_path.induct)
  case (1 v)
  then show ?case by (cases "at_path full q f x") auto
next
  case (2 v s p)
  then obtain c where c: "child v s = Some c" "get_path c p = Some x" by (auto simp: bind_eq_Some_conv)
  with "2.IH" [OF c] show ?case
    by (cases "at_path full q f x")
      (auto simp: child_def write_child_def split: json.splits seg.splits if_splits)
qed

lemma at_path_get: "get_path v p = Some x \<Longrightarrow> at_path full p f v = rbind (f x) (\<lambda>y. Inr (put_path v p y))"
  using at_path_append [of v p x full "[]"] by simp

lemma at_path_Inr:
  "at_path full p f v = Inr w \<longleftrightarrow> (\<exists>x y. get_path v p = Some x \<and> f x = Inr y \<and> w = put_path v p y)"
proof (induction full p f v arbitrary: w rule: at_path.induct)
  case (2 full s p f v)
  show ?case
  proof (cases "child v s")
    case None
    then show ?thesis by (auto simp: child_def split: json.splits seg.splits)
  next
    case (Some c)
    with 2 show ?thesis
      by (auto simp: child_def write_child_def res_simps split: json.splits seg.splits if_splits)
  qed
qed auto

section \<open>Operations below a path\<close>

fun op_prefix :: "path \<Rightarrow> op \<Rightarrow> op" where
  "op_prefix p (OpR v) = (if p = [] then OpR v else OpS p v)"
| "op_prefix p (OpS q v) = OpS (p @ q) v"
| "op_prefix p (OpD q) = OpD (p @ q)"
| "op_prefix p (OpA q s) = OpA (p @ q) s"
| "op_prefix p (OpT q n) = OpT (p @ q) n"
| "op_prefix p (OpP q i r items) = OpP (p @ q) i r items"

fun safe_seg :: "seg \<Rightarrow> bool" where
  "safe_seg (Key k) = (k \<notin> RESERVED_SEGMENTS)"
| "safe_seg (Idx i) = True"

definition safe_path :: "path \<Rightarrow> bool" where
  "safe_path p \<longleftrightarrow> list_all safe_seg p"

lemma assertSafePath_iff [simp]: "assertSafePath p = Inr u \<longleftrightarrow> safe_path p"
  by (induction p) (auto simp: safe_path_def split: seg.splits)

lemma safe_path_simps [simp]:
  "safe_path []" "safe_path (s # p) \<longleftrightarrow> safe_seg s \<and> safe_path p" "safe_path (p @ q) \<longleftrightarrow> safe_path p \<and> safe_path q"
  by (auto simp: safe_path_def)

text \<open>The verbs s, d, a and t, which work on one child of a node.\<close>

fun edits_child :: "op \<Rightarrow> bool" where
  "edits_child (OpR _) = False"
| "edits_child (OpP _ _ _ _) = False"
| "edits_child _ = True"

lemma op_path_prefix [simp]: "edits_child x \<Longrightarrow> op_path (op_prefix p x) = p @ op_path x"
  "edits_child x \<Longrightarrow> edits_child (op_prefix p x)"
  by (cases x; simp)+

lemma child_op_prefix:
  "op_path x \<noteq> [] \<Longrightarrow> edits_child x \<Longrightarrow> child_op x n = Inr y \<Longrightarrow> child_op (op_prefix p x) n = Inr y"
  by (cases x) (auto simp: child_op_def Let_def res_simps delete_child_def edit_text_def
      split: json.splits seg.splits if_splits option.splits)

lemma resolve_at_Inr:
  "resolve_at p f (Some v) = Inr w \<longleftrightarrow> (\<exists>x y. get_path v p = Some x \<and> isObj x \<and> f x = Inr y \<and> w = put_path v p y)"
  by (auto simp: resolve_at_def at_path_Inr)

lemma applyOp_child:
  assumes "edits_child x"
  shows "applyOp (Some v) x = Inr w \<longleftrightarrow>
    op_path x \<noteq> [] \<and> safe_path (op_path x) \<and>
    (\<exists>n y. get_path v (butlast (op_path x)) = Some n \<and> isObj n \<and> child_op x n = Inr y \<and>
       w = Some (put_path v (butlast (op_path x)) y))"
  using assms by (cases x) (auto simp: applyOp_def res_simps resolve_at_Inr assertPathArg_def)

lemma applyOp_P:
  "applyOp (Some v) (OpP q i r items) = Inr w \<longleftrightarrow>
    safe_path q \<and> (\<exists>xs. get_path v q = Some (Arr xs) \<and> w = Some (put_path v q (Arr (js_splice xs i r items))))"
proof -
  have sp: "splice_op p i r items n = Inr y \<longleftrightarrow> (\<exists>xs. n = Arr xs \<and> y = Arr (js_splice xs i r items))" for p n y
    by (cases n) (auto simp: splice_op_def insert_chunks_eq js_splice_twice)
  show ?thesis
    by (auto simp: applyOp_def res_simps resolve_at_Inr assertPathArg_def sp split: option.splits)
qed

lemma applyOp_R [simp]: "applyOp root (OpR v) = Inr (Some v)"
  by (simp add: applyOp_def)

lemma isObj_child: "child n s = Some c \<Longrightarrow> isObj n"
  by (auto simp: child_def split: json.splits)

lemma check_key_child: "child n s = Some c \<Longrightarrow> check_key n s = Inr ()"
  by (auto simp: child_def check_key_def split: json.splits seg.splits if_splits)

lemma applyOp_S_existing:
  assumes "get_path v p = Some x" "safe_path p" "p \<noteq> []"
  shows "applyOp (Some v) (OpS p w) = Inr (Some (put_path v p w))"
proof -
  obtain q s where p: "p = q @ [s]" using assms(3) by (metis append_butlast_last_id)
  with assms(1) obtain n where n: "get_path v q = Some n" "child n s = Some x"
    by (auto simp: get_path_append bind_eq_Some_conv)
  then have "child_op (OpS p w) n = Inr (put_path n [s] w)"
    by (simp add: child_op_def p check_key_child)
  with n assms(2) p put_path_append [OF n(1), of "[s]" w] isObj_child [OF n(2)] show ?thesis
    by (simp add: applyOp_child)
qed

text \<open>What an operation does to a value, its prefixed form does to that value inside a larger one.\<close>

lemma applyOp_prefix:
  assumes "get_path v p = Some x" "safe_path p" "applyOp (Some x) y = Inr (Some z)"
  shows "applyOp (Some v) (op_prefix p y) = Inr (Some (put_path v p z))"
proof -
  consider w where "y = OpR w" | q i r items where "y = OpP q i r items" | "edits_child y" by (cases y) auto
  then show ?thesis
  proof cases
    case 1
    with assms show ?thesis by (auto intro: applyOp_S_existing)
  next
    case 2
    with assms show ?thesis by (auto simp: applyOp_P get_path_append put_path_append)
  next
    case 3
    with assms(3) obtain n u where n: "op_path y \<noteq> []" "safe_path (op_path y)" "get_path x (butlast (op_path y)) = Some n"
        "isObj n" "child_op y n = Inr u" "z = put_path x (butlast (op_path y)) u"
      by (auto simp: applyOp_child)
    from n assms(1,2) 3 show ?thesis
      by (auto simp: applyOp_child butlast_append get_path_append put_path_append child_op_prefix)
  qed
qed

lemma applyOp_defined: "applyOp (Some v) x = Inr w \<Longrightarrow> w \<noteq> None"
  by (cases x) (auto simp: applyOp_P applyOp_child)

lemma applyOps_append: "applyOps root (xs @ ys) = rbind (applyOps root xs) (\<lambda>v. applyOps v ys)"
  by (induction xs arbitrary: root) (auto simp: rbind_def split: sum.splits)

lemma applyOps_prefix:
  "get_path v p = Some x \<Longrightarrow> safe_path p \<Longrightarrow> applyOps (Some x) ops = Inr (Some z) \<Longrightarrow> put_path v p x = v \<Longrightarrow>
     applyOps (Some v) (map (op_prefix p) ops) = Inr (Some (put_path v p z))"
proof (induction ops arbitrary: v x)
  case (Cons y ops)
  then obtain z1 where z: "applyOp (Some x) y = Inr (Some z1)" "applyOps (Some z1) ops = Inr (Some z)"
    using applyOp_defined by (fastforce simp: res_simps)
  have "applyOps (Some (put_path v p z1)) (map (op_prefix p) ops) = Inr (Some (put_path (put_path v p z1) p z))"
    by (rule Cons.IH [OF _ Cons.prems(2) z(2)]) (use Cons.prems in auto)
  with Cons.prems(1) applyOp_prefix [OF Cons.prems(1,2) z(1)] show ?case by simp
qed simp

end
