(* ===== verification/Delta_Diff.thy ===== *)
theory Delta_Diff
  imports Delta_Apply
begin

text \<open>
  The difference of two JSON values as operations, \<^verbatim>\<open>packages/chord/src/delta/index.ts\<close>: the bounded overlap
  search, \<^verbatim>\<open>diffString\<close>, \<^verbatim>\<open>diffValue\<close>, \<^verbatim>\<open>diffObject\<close> and \<^verbatim>\<open>diffArray\<close>. The operations pushed to \<^verbatim>\<open>out\<close> are
  the list a function returns. Applying a difference to the old value gives the new one.
\<close>

section \<open>Overlap\<close>

text \<open>\<^verbatim>\<open>indexOf(needle, start)\<close> for a non-empty needle.\<close>

function index_of :: "'a list \<Rightarrow> 'a list \<Rightarrow> nat \<Rightarrow> nat option" where
  "index_of hay needle start =
     (if start + length needle > length hay then None
      else if take (length needle) (drop start hay) = needle then Some start
      else index_of hay needle (start + 1))"
  by pat_completeness auto
termination
  by (relation "measure (\<lambda>(hay, needle, start). Suc (length hay) - start)") auto

declare index_of.simps [simp del]

lemma index_of_Some:
  "index_of hay needle start = Some k \<Longrightarrow>
     start \<le> k \<and> k + length needle \<le> length hay \<and> take (length needle) (drop k hay) = needle \<and>
     (\<forall>j. start \<le> j \<and> j < k \<longrightarrow> take (length needle) (drop j hay) \<noteq> needle)"
proof (induction hay needle start rule: index_of.induct)
  case (1 hay needle start)
  show ?case
  proof (cases "start + length needle > length hay \<or> take (length needle) (drop start hay) = needle")
    case True
    with "1.prems" show ?thesis by (subst (asm) index_of.simps) (auto split: if_splits)
  next
    case False
    with "1.prems" have "index_of hay needle (start + 1) = Some k" by (subst (asm) index_of.simps) simp
    with "1.IH" False show ?thesis by (auto simp: Suc_le_eq) (metis le_neq_implies_less)
  qed
qed

lemma index_of_None:
  "index_of hay needle start = None \<Longrightarrow> start \<le> j \<Longrightarrow> j + length needle \<le> length hay \<Longrightarrow>
     take (length needle) (drop j hay) \<noteq> needle"
proof (induction hay needle start rule: index_of.induct)
  case (1 hay needle start)
  from "1.prems"(1) have n: "start + length needle > length hay \<or>
      take (length needle) (drop start hay) \<noteq> needle \<and> index_of hay needle (start + 1) = None"
    by (subst (asm) index_of.simps) (auto split: if_splits)
  with "1.prems" "1.IH" show ?case by (cases "start = j") auto
qed

text \<open>
  One pass over the candidates for a head: \<open>Some n\<close> is a return of \<open>n\<close>, \<open>None\<close> the
  end of the loop. \<open>k\<close> is the position of the current match.
\<close>

function try_candidates :: "nat \<Rightarrow> jstring \<Rightarrow> jstring \<Rightarrow> jstring \<Rightarrow> nat option \<Rightarrow> nat \<Rightarrow> nat option" where
  "try_candidates maxCandidates tail b head k tried =
     (case k of
        None \<Rightarrow> None
      | Some k \<Rightarrow>
          if tried + 1 > maxCandidates then None
          else let n = length tail - k in
            if n \<le> length b \<and> drop k tail = take n b then Some n
            else try_candidates maxCandidates tail b head (index_of tail head (k + 1)) (tried + 1))"
  by pat_completeness auto
termination
  by (relation "measure (\<lambda>(m, tail, b, head, k, tried). Suc m - tried)") auto

declare try_candidates.simps [simp del]

fun overlap_heads :: "nat \<Rightarrow> jstring \<Rightarrow> jstring \<Rightarrow> nat list \<Rightarrow> nat" where
  "overlap_heads maxCandidates tail b [] = 0"
| "overlap_heads maxCandidates tail b (h # hs) =
     (let head = take h b in
      case try_candidates maxCandidates tail b head (index_of tail head 0) 0 of
        Some n \<Rightarrow> n
      | None \<Rightarrow> if h = 1 then 0 else overlap_heads maxCandidates tail b hs)"

definition overlap :: "jstring \<Rightarrow> jstring \<Rightarrow> nat \<Rightarrow> nat \<Rightarrow> nat \<Rightarrow> nat" where
  "overlap a b scan probe maxCandidates =
     (if length a = 0 \<or> length b = 0 \<or> scan = 0 then 0
      else let tail = (if length a > scan then drop (length a - scan) a else a)
           in overlap_heads maxCandidates tail b [min probe (length b), 1])"

section \<open>Differences\<close>

definition emitSet :: "path \<Rightarrow> json \<Rightarrow> op list" where
  "emitSet path v = (if path = [] then [OpR v] else [OpS path v])"

text \<open>\<^verbatim>\<open>emitDelete\<close> throws on the root path; every call extends a path, so that branch has no caller.\<close>

definition emitDelete :: "path \<Rightarrow> op list" where
  "emitDelete path = [OpD path]"

definition diffString :: "jstring \<Rightarrow> jstring \<Rightarrow> path \<Rightarrow> nat \<Rightarrow> op list" where
  "diffString before after path scan =
     (if before = after then []
      else if path = [] then emitSet path (Str after)
      else if length after > length before \<and> take (length before) after = before
        then [OpA path (drop (length before) after)]
      else let shared = overlap before after scan 64 8 in
        if shared = 0 then [OpS path (Str after)]
        else OpT path (length before - shared) #
          (if length after > shared then [OpA path (drop shared after)] else []))"

text \<open>The lengths of the common prefix and of the common suffix after it, by \<^verbatim>\<open>jsonEqual\<close>.\<close>

fun common_prefix :: "json list \<Rightarrow> json list \<Rightarrow> nat" where
  "common_prefix (x # xs) (y # ys) = (if jsonEqual x y then Suc (common_prefix xs ys) else 0)"
| "common_prefix _ _ = 0"

definition common_suffix :: "nat \<Rightarrow> json list \<Rightarrow> json list \<Rightarrow> nat" where
  "common_suffix prefix before after = common_prefix (rev (drop prefix before)) (rev (drop prefix after))"

function (sequential) diffValue :: "json option \<Rightarrow> json option \<Rightarrow> path \<Rightarrow> nat \<Rightarrow> op list"
  and diffObject :: "(jstring \<times> json) list \<Rightarrow> (jstring \<times> json) list \<Rightarrow> path \<Rightarrow> nat \<Rightarrow> op list"
  and diffEntries :: "(jstring \<times> json) list \<Rightarrow> (jstring \<times> json) list \<Rightarrow> path \<Rightarrow> nat \<Rightarrow> op list"
  and diffArray :: "json list \<Rightarrow> json list \<Rightarrow> path \<Rightarrow> nat \<Rightarrow> op list"
  and diffItems :: "json list \<Rightarrow> json list \<Rightarrow> nat \<Rightarrow> path \<Rightarrow> nat \<Rightarrow> op list" where
  "diffValue None None path scan = []"
| "diffValue None (Some after) path scan = emitSet path after"
| "diffValue (Some before) None path scan = emitDelete path"
| "diffValue (Some (Str before)) (Some (Str after)) path scan = diffString before after path scan"
| "diffValue (Some (Arr before)) (Some (Arr after)) path scan = diffArray before after path scan"
| "diffValue (Some (Obj before)) (Some (Obj after)) path scan = diffObject before after path scan"
| "diffValue (Some before) (Some after) path scan = (if strict_eq before after then [] else emitSet path after)"
| "diffObject before after path scan =
     (if list_ex (\<lambda>k. k \<in> RESERVED_SEGMENTS) (map fst before @ map fst after) then emitSet path (Obj after)
      else diffEntries before after path scan @
        concat (map (\<lambda>(k, _). if map_of after k = None then emitDelete (path @ [Key k]) else []) before))"
| "diffEntries before [] path scan = []"
| "diffEntries before ((k, v) # after) path scan =
     diffValue (map_of before k) (Some v) (path @ [Key k]) scan @ diffEntries before after path scan"
| "diffArray before after path scan =
     (if length before = length after then diffItems before after 0 path scan
      else
        let prefix = common_prefix before after;
            suffix = common_suffix prefix before after;
            shorter = min (length before) (length after) in
        if prefix + suffix = shorter then
          let remove = length before - prefix - suffix;
              items = drop prefix (take (length after - suffix) after) in
          if prefix = 0 \<and> remove = length before then emitSet path (Arr after)
          else [OpP path prefix remove items]
        else
          diffItems before after 0 path scan @
          (if length after > length before then [OpP path (length before) 0 (drop (length before) after)]
           else if length before > length after then
             (if length after = 0 then emitSet path (Arr after)
              else [OpP path (length after) (length before - length after) []])
           else []))"
| "diffItems (x # xs) (y # ys) index path scan =
     diffValue (Some x) (Some y) (path @ [Idx index]) scan @ diffItems xs ys (Suc index) path scan"
| "diffItems xs ys index path scan = []"
  by pat_completeness auto
termination
  by (relation "measure (\<lambda>x. case x of
        Inl (Inl (b, a, p, s)) \<Rightarrow> (case a of None \<Rightarrow> 0 | Some v \<Rightarrow> 2 * size v)
      | Inl (Inr (b, a, p, s)) \<Rightarrow> Suc (2 * size_list (size_prod (\<lambda>_. 0) size) a)
      | Inr (Inl (b, a, p, s)) \<Rightarrow> 2 * size_list (size_prod (\<lambda>_. 0) size) a
      | Inr (Inr (Inl (b, a, p, s))) \<Rightarrow> Suc (2 * size_list size a)
      | Inr (Inr (Inr (b, a, i, p, s))) \<Rightarrow> 2 * size_list size a)") auto

declare diffObject.simps [simp del] diffArray.simps [simp del]

end
