(* ===== verification/Delta_Diff_Correct.thy ===== *)
theory Delta_Diff_Correct
  imports Delta_Diff
begin

text \<open>
  Correctness of the differences: the overlap search finds the longest overlap or gives up, and applying
  the operations of a difference to the old value succeeds and yields a value equal to the new one.
\<close>

section \<open>Overlap\<close>

definition overlaps :: "jstring \<Rightarrow> jstring \<Rightarrow> nat \<Rightarrow> bool" where
  "overlaps a b n \<longleftrightarrow> n \<le> length a \<and> n \<le> length b \<and> drop (length a - n) a = take n b"

lemma try_candidates_unfold:
  "try_candidates m tail b head None tried = None"
  "try_candidates m tail b head (Some k) tried =
     (if m \<le> tried then None
      else if length tail - k \<le> length b \<and> drop k tail = take (length tail - k) b then Some (length tail - k)
      else try_candidates m tail b head (index_of tail head (Suc k)) (Suc tried))"
  by (simp_all add: try_candidates.simps [of m tail b head "None" tried] try_candidates.simps [of m tail b head "Some k" tried]
      Let_def less_Suc_eq_le)

lemma try_candidates_Some:
  assumes "try_candidates m tail b head (index_of tail head start) tried = Some n"
  shows "overlaps tail b n \<and> length head \<le> n"
  using assms
proof (induction "m - tried" arbitrary: start tried)
  case (0 tried)
  then show ?case by (cases "index_of tail head start") (simp_all add: try_candidates_unfold)
next
  case (Suc x tried)
  then obtain j where j: "index_of tail head start = Some j"
    by (cases "index_of tail head start") (simp_all add: try_candidates_unfold)
  note f = index_of_Some [OF j]
  show ?case
  proof (cases "length tail - j \<le> length b \<and> drop j tail = take (length tail - j) b")
    case True
    with Suc j have "n = length tail - j" by (simp add: try_candidates_unfold split: if_splits)
    with True f show ?thesis by (auto simp: overlaps_def)
  next
    case False
    with Suc.prems j have "try_candidates m tail b head (index_of tail head (Suc j)) (Suc tried) = Some n"
      by (auto simp: try_candidates_unfold split: if_splits)
    with Suc.hyps(1) [of "Suc tried" "Suc j"] Suc.hyps(2) show ?thesis by simp
  qed
qed

definition scan_tail :: "jstring \<Rightarrow> nat \<Rightarrow> jstring" where
  "scan_tail a scan = (if length a > scan then drop (length a - scan) a else a)"

lemma overlap_eq:
  "overlap a b scan probe m =
     (if a = [] \<or> b = [] \<or> scan = 0 then 0 else overlap_heads m (scan_tail a scan) b [min probe (length b), 1])"
  unfolding overlap_def scan_tail_def by (simp only: length_0_conv Let_def)

lemma overlap_heads_sound: "overlaps tail b (overlap_heads m tail b hs)"
proof (induction hs)
  case (Cons h hs)
  then show ?case
    using try_candidates_Some [of m tail b "take h b" 0 0]
    by (auto simp: Let_def overlaps_def split: option.splits)
qed (simp add: overlaps_def)

lemma overlaps_tail: "overlaps a b n \<and> n \<le> scan \<longleftrightarrow> overlaps (scan_tail a scan) b n"
  by (auto simp: overlaps_def scan_tail_def)

lemma overlap_sound: "overlaps a b (overlap a b scan probe m)"
proof (cases "a = [] \<or> b = [] \<or> scan = 0")
  case False
  from overlap_heads_sound [of "scan_tail a scan" b m "[min probe (length b), 1]"] show ?thesis
    unfolding overlap_eq if_not_P [OF False] using overlaps_tail by blast
qed (auto simp: overlap_eq overlaps_def)

text \<open>An overlap of length \<open>n\<close> is an occurrence of every head of at most that length.\<close>

lemma overlap_occurs:
  "overlaps tail b n \<Longrightarrow> h \<le> n \<Longrightarrow> take h (drop (length tail - n) tail) = take h b"
  by (simp add: overlaps_def min_absorb1)

lemma try_candidates_longest:
  assumes "try_candidates m tail b (take h b) (index_of tail (take h b) start) tried = Some n" "h \<le> length b"
    "overlaps tail b n'" "h \<le> n'" "start \<le> length tail - n'"
  shows "n' \<le> n"
  using assms
proof (induction "m - tried" arbitrary: start tried)
  case (0 tried)
  then show ?case by (cases "index_of tail (take h b) start") (simp_all add: try_candidates_unfold)
next
  case (Suc x tried)
  then obtain j where j: "index_of tail (take h b) start = Some j"
    by (cases "index_of tail (take h b) start") (simp_all add: try_candidates_unfold)
  note f = index_of_Some [OF j]
  have occ: "take (length (take h b)) (drop (length tail - n') tail) = take h b"
    using overlap_occurs [OF Suc.prems(3,4)] Suc.prems(2) by (simp add: min_absorb1)
  have jn: "j \<le> length tail - n'" using f occ Suc.prems(5) by (meson not_less)
  show ?case
  proof (cases "length tail - j \<le> length b \<and> drop j tail = take (length tail - j) b")
    case True
    with Suc j have "n = length tail - j" by (simp add: try_candidates_unfold split: if_splits)
    with jn Suc.prems(3) f show ?thesis by (auto simp: overlaps_def)
  next
    case False
    then have "j \<noteq> length tail - n'" using Suc.prems(3) f by (auto simp: overlaps_def)
    moreover have "try_candidates m tail b (take h b) (index_of tail (take h b) (Suc j)) (Suc tried) = Some n"
      using False Suc.prems(1) j by (auto simp: try_candidates_unfold split: if_splits)
    ultimately show ?thesis using Suc.hyps(1) [of "Suc tried" "Suc j"] Suc.hyps(2) Suc.prems jn by simp
  qed
qed

lemma overlap_heads_longest:
  assumes "overlap_heads m tail b [h, 1] = n" "n \<noteq> 0" "h \<le> length b" "1 \<le> length b" "overlaps tail b n'"
  shows "n' \<le> n"
proof -
  have head: "n' \<le> n" if t: "try_candidates m tail b (take g b) (index_of tail (take g b) 0) 0 = Some n" "g \<le> length b" for g
    using try_candidates_longest [OF t assms(5)] try_candidates_Some [OF t(1)] t(2) by (cases "g \<le> n'") auto
  from assms(1,2) consider "try_candidates m tail b (take h b) (index_of tail (take h b) 0) 0 = Some n"
    | "try_candidates m tail b (take 1 b) (index_of tail (take 1 b) 0) 0 = Some n"
    by (auto simp: Let_def split: option.splits if_splits)
  then show ?thesis using head assms(3,4) by cases blast+
qed

section \<open>Shifting a difference\<close>

lemma op_prefix_prefix: "op_prefix p (op_prefix q x) = op_prefix (p @ q) x"
  by (cases x) auto

lemma emitSet_shift: "emitSet (p @ path) v = map (op_prefix p) (emitSet path v)"
  by (auto simp: emitSet_def)

lemma emitDelete_shift: "emitDelete (p @ path) = map (op_prefix p) (emitDelete path)"
  by (auto simp: emitDelete_def)

lemma diffString_shift: "path \<noteq> [] \<Longrightarrow> diffString b a (p @ path) scan = map (op_prefix p) (diffString b a path scan)"
  by (auto simp: diffString_def Let_def)

lemma diff_shift:
  "path \<noteq> [] \<Longrightarrow> diffValue b a (p @ path) scan = map (op_prefix p) (diffValue b a path scan)"
  "diffObject ps qs (p @ path) scan = map (op_prefix p) (diffObject ps qs path scan)"
  "diffEntries ps qs (p @ path) scan = map (op_prefix p) (diffEntries ps qs path scan)"
  "diffArray xs ys (p @ path) scan = map (op_prefix p) (diffArray xs ys path scan)"
  "diffItems xs ys i (p @ path) scan = map (op_prefix p) (diffItems xs ys i path scan)"
proof (induction b a path scan and ps qs path scan and ps qs path scan and xs ys path scan and xs ys i path scan
    rule: diffValue_diffObject_diffEntries_diffArray_diffItems.induct)
  case (8 before after path scan)
  then show ?case
    by (auto simp: diffObject.simps emitSet_shift emitDelete_shift map_concat intro!: arg_cong [of _ _ concat])
next
  case (11 before after path scan)
  then show ?case
    by (simp add: diffArray.simps Let_def emitSet_shift)
qed (simp_all add: emitSet_shift emitDelete_shift diffString_shift)

section \<open>One child\<close>

lemma put_same: "json_ok v \<Longrightarrow> get_path v p = Some x \<Longrightarrow> put_path v p x = v"
proof (induction v p arbitrary: x rule: get_path.induct)
  case (2 v s p)
  then obtain c where c: "child v s = Some c" "get_path c p = Some x" by (auto simp: bind_eq_Some_conv)
  then have "json_ok c"
    using "2.prems"(1) by (auto simp: child_def dest: map_of_SomeD split: json.splits seg.splits if_splits)
  then have "put_path c p x = c" using 2 c by blast
  with c "2.prems"(1) show ?case
    by (auto simp: child_def write_child_def obj_put_same split: json.splits seg.splits if_splits)
qed simp

lemma write_same: "json_ok v \<Longrightarrow> child v s = Some c \<Longrightarrow> write_child v s c = v"
  using put_same [of v "[s]" c] by simp

lemma json_ok_child: "json_ok v \<Longrightarrow> child v s = Some c \<Longrightarrow> json_ok c"
  by (auto simp: child_def dest: map_of_SomeD split: json.splits seg.splits if_splits)

lemma set_obj_put: "(k', v') \<in> set (obj_put k v ps) \<Longrightarrow> v' = v \<or> (k', v') \<in> set ps"
  by (auto simp: obj_put_def set_obj_insert split: if_splits)

lemma json_ok_write: "json_ok v \<Longrightarrow> json_ok w \<Longrightarrow> json_ok (write_child v s w)"
  by (auto simp: write_child_def dest!: set_obj_put set_update_subset_insert [THEN subsetD]
      split: json.splits seg.splits)

lemma apply_child_op:
  "edits_child x \<Longrightarrow> op_path x = [s] \<Longrightarrow> safe_seg s \<Longrightarrow> isObj v \<Longrightarrow> child_op x v = Inr w \<Longrightarrow> applyOp (Some v) x = Inr (Some w)"
  by (simp add: applyOp_child)

lemma apply_text:
  assumes "child v s = Some (Str c)" "safe_seg s"
  shows "applyOp (Some v) (OpA [s] t) = Inr (Some (write_child v s (Str (c @ t))))"
    "applyOp (Some v) (OpT [s] n) = Inr (Some (write_child v s (Str (drop n c))))"
  by (rule apply_child_op; use assms isObj_child [OF assms(1)] check_key_child [OF assms(1)] child_ownValue [OF assms(1)]
      in \<open>simp add: child_op_def edit_text_def\<close>)+

lemma diffString_ok:
  assumes "child v s = Some (Str b)" "safe_seg s" "json_ok v"
  shows "applyOps (Some v) (diffString b a [s] scan) = Inr (Some (write_child v s (Str a)))"
proof -
  define n where "n = overlap b a scan 64 8"
  have o: "n \<le> length b" "n \<le> length a" "drop (length b - n) b = take n a"
    using overlap_sound [of b a scan 64 8] by (simp_all add: overlaps_def n_def)
  have app: "b @ drop (length b) a = a" if "take (length b) a = b" using that by (metis append_take_drop_id)
  have w: "child (write_child v s x) s = Some x" for x using child_write [OF assms(1)] .
  have set: "applyOp (Some v) (OpS [s] x) = Inr (Some (write_child v s x))" for x
    using applyOp_S_existing [of v "[s]"] assms by simp
  show ?thesis
    using write_same [OF assms(3,1)] app o
    by (auto simp: diffString_def n_def [symmetric] Let_def set apply_text [OF assms(1,2)] apply_text [OF w assms(2)]
        write_write [OF assms(1)])
qed

section \<open>Objects\<close>

text \<open>What the difference of a child achieves, as a hypothesis on the smaller values of a loop.\<close>

definition child_diff_ok :: "nat \<Rightarrow> json \<Rightarrow> bool" where
  "child_diff_ok scan a \<longleftrightarrow>
     (\<forall>v s b. json_ok v \<longrightarrow> json_ok a \<longrightarrow> child v s = Some b \<longrightarrow> safe_seg s \<longrightarrow>
        (\<exists>r. applyOps (Some v) (diffValue (Some b) (Some a) [s] scan) = Inr (Some (write_child v s r)) \<and>
             jsonEqual r a \<and> json_ok r))"

lemma child_diff_okD:
  assumes "child_diff_ok scan a" "json_ok v" "json_ok a" "child v s = Some b" "safe_seg s"
  obtains r where "applyOps (Some v) (diffValue (Some b) (Some a) [s] scan) = Inr (Some (write_child v s r))"
    "jsonEqual r a" "json_ok r"
  using assms unfolding child_diff_ok_def by blast

lemma child_Obj [simp]: "child (Obj ps) (Key k) = map_of ps k"
  by (simp add: child_def)

lemma write_Obj [simp]: "write_child (Obj ps) (Key k) v = Obj (obj_put k v ps)"
  by (simp add: write_child_def)

lemma entry_ok:
  assumes "json_ok (Obj cur)" "json_ok v" "k \<notin> RESERVED_SEGMENTS" "child_diff_ok scan v"
  shows "\<exists>w. applyOps (Some (Obj cur)) (diffValue (map_of cur k) (Some v) [Key k] scan) = Inr (Some (Obj (obj_put k w cur))) \<and>
    json_ok w \<and> jsonEqual w v"
proof (cases "map_of cur k")
  case None
  have "applyOp (Some (Obj cur)) (OpS [Key k] v) = Inr (Some (Obj (obj_put k v cur)))"
    by (rule apply_child_op [where s = "Key k"]) (use assms(3) in \<open>simp_all add: child_op_def check_key_def\<close>)
  with None assms(2) show ?thesis by (auto simp: emitSet_def intro: jsonEqual_refl)
next
  case (Some b)
  have "child (Obj cur) (Key k) = Some b" "safe_seg (Key k)" using Some assms(3) by simp_all
  from child_diff_okD [OF assms(4,1,2) this] show ?thesis using Some by (metis write_Obj)
qed

lemma entries_loop:
  assumes "\<forall>(k, v)\<in>set qs. json_ok v \<and> child_diff_ok scan v \<and> k \<notin> RESERVED_SEGMENTS" "distinct (map fst qs)"
    "json_ok (Obj cur)" "\<forall>k\<in>fst ` set qs. map_of cur k = map_of ps k"
  shows "\<exists>cur'. applyOps (Some (Obj cur)) (diffEntries ps qs [] scan) = Inr (Some (Obj cur')) \<and> json_ok (Obj cur') \<and>
    (\<forall>(k, v)\<in>set qs. \<exists>w. map_of cur' k = Some w \<and> jsonEqual w v) \<and> (\<forall>k. k \<notin> fst ` set qs \<longrightarrow> map_of cur' k = map_of cur k)"
  using assms
proof (induction qs arbitrary: cur)
  case (Cons p qs)
  obtain k v where p: "p = (k, v)" by (cases p)
  from Cons.prems p obtain w where w: "applyOps (Some (Obj cur)) (diffValue (map_of ps k) (Some v) [Key k] scan) = Inr (Some (Obj (obj_put k w cur)))"
      "json_ok w" "jsonEqual w v"
    using entry_ok [of cur v k scan] by auto
  have ok: "json_ok (Obj (obj_put k w cur))" using json_ok_write [of "Obj cur" w "Key k"] Cons.prems(3) w(2) by simp
  have "\<exists>cur'. applyOps (Some (Obj (obj_put k w cur))) (diffEntries ps qs [] scan) = Inr (Some (Obj cur')) \<and> json_ok (Obj cur') \<and>
      (\<forall>(k, v)\<in>set qs. \<exists>w. map_of cur' k = Some w \<and> jsonEqual w v) \<and>
      (\<forall>k'. k' \<notin> fst ` set qs \<longrightarrow> map_of cur' k' = map_of (obj_put k w cur) k')"
    by (rule Cons.IH) (use Cons.prems p ok in auto)
  then obtain cur' where c: "applyOps (Some (Obj (obj_put k w cur))) (diffEntries ps qs [] scan) = Inr (Some (Obj cur'))" "json_ok (Obj cur')"
      "\<forall>(k, v)\<in>set qs. \<exists>w. map_of cur' k = Some w \<and> jsonEqual w v"
      "\<forall>k'. k' \<notin> fst ` set qs \<longrightarrow> map_of cur' k' = map_of (obj_put k w cur) k'" by blast
  have "map_of cur' k = Some w" using c(4) Cons.prems(2) p by simp
  with c w p show ?case by (intro exI [of _ cur']) (auto simp: applyOps_append)
qed simp

lemma deletes_loop:
  assumes "\<forall>k\<in>fst ` set ps. k \<notin> RESERVED_SEGMENTS" "json_ok (Obj cur)"
  shows "\<exists>cur'. applyOps (Some (Obj cur)) (concat (map (\<lambda>(k, _). if map_of qs k = None then emitDelete ([] @ [Key k]) else []) ps))
      = Inr (Some (Obj cur')) \<and> json_ok (Obj cur') \<and>
    map_of cur' = (\<lambda>k. if k \<in> fst ` set ps \<and> map_of qs k = None then None else map_of cur k)"
  using assms
proof (induction ps arbitrary: cur)
  case (Cons p ps)
  obtain k x where p: "p = (k, x)" by (cases p)
  show ?case
  proof (cases "map_of qs k")
    case None
    have d: "applyOp (Some (Obj cur)) (OpD [Key k]) = Inr (Some (Obj (obj_delete k cur)))"
      by (rule apply_child_op [where s = "Key k"]) (use Cons.prems p in \<open>simp_all add: child_op_def check_key_def delete_child_def\<close>)
    have ok: "json_ok (Obj (obj_delete k cur))" using Cons.prems(2) by (auto simp: obj_delete_def own_keys_obj_delete [unfolded obj_delete_def])
    from Cons.IH [OF _ ok] Cons.prems(1) p obtain cur' where
      c: "applyOps (Some (Obj (obj_delete k cur))) (concat (map (\<lambda>(k, _). if map_of qs k = None then emitDelete ([] @ [Key k]) else []) ps))
          = Inr (Some (Obj cur'))" "json_ok (Obj cur')"
        "map_of cur' = (\<lambda>j. if j \<in> fst ` set ps \<and> map_of qs j = None then None else map_of (obj_delete k cur) j)" by auto
    with d p None show ?thesis by (intro exI [of _ cur']) (auto simp: applyOps_append emitDelete_def fun_eq_iff)
  next
    case (Some y)
    with Cons p show ?thesis by (fastforce simp: fun_eq_iff)
  qed
qed auto

lemma diffObject_ok:
  assumes "\<forall>(k, v)\<in>set qs. child_diff_ok scan v" "json_ok (Obj ps)" "json_ok (Obj qs)"
  shows "\<exists>r. applyOps (Some (Obj ps)) (diffObject ps qs [] scan) = Inr (Some r) \<and> jsonEqual r (Obj qs) \<and> json_ok r"
proof (cases "list_ex (\<lambda>k. k \<in> RESERVED_SEGMENTS) (map fst ps @ map fst qs)")
  case True
  with assms(3) jsonEqual_refl [OF assms(3)] show ?thesis
    by (auto simp: diffObject.simps emitSet_def simp del: jsonEqual_simps)
next
  case False
  then have safe: "\<forall>k\<in>fst ` set ps. k \<notin> RESERVED_SEGMENTS" "\<forall>k\<in>fst ` set qs. k \<notin> RESERVED_SEGMENTS"
    by (auto simp: list_ex_iff)
  have dq: "distinct (map fst qs)" using assms(3) by (simp add: own_keys_distinct)
  have "\<forall>(k, v)\<in>set qs. json_ok v \<and> child_diff_ok scan v \<and> k \<notin> RESERVED_SEGMENTS"
    using assms(1,3) safe(2) by fastforce
  from entries_loop [OF this dq assms(2), of ps] obtain cur where
    c: "applyOps (Some (Obj ps)) (diffEntries ps qs [] scan) = Inr (Some (Obj cur))" "json_ok (Obj cur)"
      "\<forall>(k, v)\<in>set qs. \<exists>w. map_of cur k = Some w \<and> jsonEqual w v" "\<forall>k. k \<notin> fst ` set qs \<longrightarrow> map_of cur k = map_of ps k"
    by auto
  from deletes_loop [OF safe(1) c(2), of qs] obtain cur' where
    d: "applyOps (Some (Obj cur)) (concat (map (\<lambda>(k, _). if map_of qs k = None then emitDelete ([] @ [Key k]) else []) ps)) = Inr (Some (Obj cur'))"
      "json_ok (Obj cur')" "map_of cur' = (\<lambda>k. if k \<in> fst ` set ps \<and> map_of qs k = None then None else map_of cur k)" by blast
  have "rel_option jsonEqual (map_of cur' k) (map_of qs k)" for k
  proof (cases "map_of qs k")
    case None
    then have "map_of cur k = map_of ps k" using c(4) by (simp add: map_of_eq_None_iff)
    then have "map_of cur' k = None" using None d(3) by (cases "k \<in> fst ` set ps") (simp_all add: map_of_eq_None_iff)
    with None show ?thesis by simp
  next
    case (Some v)
    with c(3) have "\<exists>w. map_of cur k = Some w \<and> jsonEqual w v" by (fast dest: map_of_SomeD)
    with Some d(3) show ?thesis by auto
  qed
  then have "jsonEqual (Obj cur') (Obj qs)"
    using jsonEqual_Obj [of cur' qs] d(2) dq by (simp add: own_keys_distinct del: jsonEqual_simps)
  with c(1) d(1,2) False show ?thesis by (auto simp: diffObject.simps applyOps_append simp del: jsonEqual_simps)
qed

section \<open>Arrays\<close>

lemma child_Arr [simp]: "child (Arr xs) (Idx i) = (if i < length xs then Some (xs ! i) else None)"
  by (simp add: child_def)

lemma write_Arr: "i < length xs \<Longrightarrow> write_child (Arr xs) (Idx i) v = Arr (xs[i := v])"
  by (simp add: write_child_def)

lemma items_loop:
  assumes "\<forall>y\<in>set ys. json_ok y \<and> child_diff_ok scan y" "json_ok (Arr (zs @ xs))"
  shows "\<exists>us. applyOps (Some (Arr (zs @ xs))) (diffItems xs ys (length zs) [] scan)
      = Inr (Some (Arr (zs @ us @ drop (length ys) xs))) \<and>
    list_all2 jsonEqual us (take (length xs) ys) \<and> json_ok (Arr us)"
  using assms
proof (induction xs arbitrary: ys zs)
  case (Cons x xs)
  show ?case
  proof (cases ys)
    case (Cons y ys')
    have "child (Arr (zs @ x # xs)) (Idx (length zs)) = Some x" by simp
    from child_diff_okD [OF _ Cons.prems(2) _ this, of scan y] Cons.prems(1) Cons obtain u where
      u: "applyOps (Some (Arr (zs @ x # xs))) (diffValue (Some x) (Some y) [Idx (length zs)] scan) = Inr (Some (Arr (zs @ u # xs)))"
        "jsonEqual u y" "json_ok u"
      by (auto simp: write_Arr list_update_append)
    have "json_ok (Arr ((zs @ [u]) @ xs))" using Cons.prems(2) u(3) by auto
    from Cons.IH [OF _ this, of ys'] Cons.prems(1) Cons obtain us where
      us: "applyOps (Some (Arr ((zs @ [u]) @ xs))) (diffItems xs ys' (length (zs @ [u])) [] scan)
            = Inr (Some (Arr ((zs @ [u]) @ us @ drop (length ys') xs)))"
        "list_all2 jsonEqual us (take (length xs) ys')" "json_ok (Arr us)" by auto
    with u Cons show ?thesis by (intro exI [of _ "u # us"]) (simp add: applyOps_append)
  qed simp
qed simp

lemma common_prefix_ok:
  "common_prefix xs ys \<le> length xs \<and> common_prefix xs ys \<le> length ys \<and>
     list_all2 jsonEqual (take (common_prefix xs ys) xs) (take (common_prefix xs ys) ys)"
  by (induction xs ys rule: common_prefix.induct) auto

lemma common_suffix_ok:
  fixes xs ys :: "json list" and p :: nat
  defines "n \<equiv> common_suffix p xs ys"
  assumes "p \<le> length xs" "p \<le> length ys"
  shows "p + n \<le> length xs \<and> p + n \<le> length ys \<and>
    list_all2 jsonEqual (drop (length xs - n) xs) (drop (length ys - n) ys)"
proof -
  have c: "n \<le> length xs - p" "n \<le> length ys - p"
    "list_all2 jsonEqual (take n (rev (drop p xs))) (take n (rev (drop p ys)))"
    using common_prefix_ok [of "rev (drop p xs)" "rev (drop p ys)"] by (simp_all add: n_def common_suffix_def)
  have "take n (rev (drop p zs)) = rev (drop (length zs - n) zs)" if "p + n \<le> length zs" for zs :: "json list"
    using that by (simp add: take_rev)
  then show ?thesis using c assms(2,3) by (auto simp: list_all2_rev)
qed

lemma list_jsonEqual_refl: "json_ok (Arr xs) \<Longrightarrow> list_all2 jsonEqual xs xs"
  using jsonEqual_refl [of "Arr xs"] by simp

lemma diffArray_ok:
  assumes "\<forall>y\<in>set ys. child_diff_ok scan y" "json_ok (Arr xs)" "json_ok (Arr ys)"
  shows "\<exists>rs. applyOps (Some (Arr xs)) (diffArray xs ys [] scan) = Inr (Some (Arr rs)) \<and>
    list_all2 jsonEqual rs ys \<and> json_ok (Arr rs)"
proof -
  have ys: "\<forall>y\<in>set ys. json_ok y \<and> child_diff_ok scan y" using assms(1,3) by auto
  from items_loop [OF ys, of "[]" xs] assms(2) obtain us where
    us: "applyOps (Some (Arr xs)) (diffItems xs ys 0 [] scan) = Inr (Some (Arr (us @ drop (length ys) xs)))"
      "list_all2 jsonEqual us (take (length xs) ys)" "json_ok (Arr us)" by auto
  have lu: "length us = min (length xs) (length ys)" using us(2) by (auto dest: list_all2_lengthD)
  define p where "p = common_prefix xs ys"
  define q where "q = common_suffix p xs ys"
  note p = common_prefix_ok [of xs ys, folded p_def]
  note q = common_suffix_ok [of p xs ys, folded q_def]
  consider "length xs = length ys" | "length xs \<noteq> length ys" "p + q = min (length xs) (length ys)"
    | "length xs < length ys" "p + q \<noteq> min (length xs) (length ys)"
    | "length ys < length xs" "p + q \<noteq> min (length xs) (length ys)" by linarith
  then show ?thesis
  proof cases
    case 1
    with us show ?thesis by (simp add: diffArray.simps)
  next
    case 2
    have eq: "diffArray xs ys [] scan =
        (if p = 0 \<and> length xs - p - q = length xs then emitSet [] (Arr ys)
         else [OpP [] p (length xs - p - q) (drop p (take (length ys - q) ys))])"
      using 2 by (simp only: diffArray.simps Let_def p_def [symmetric] q_def [symmetric] if_False if_True refl)
    show ?thesis
    proof (cases "p = 0 \<and> length xs - p - q = length xs")
      case True
      then show ?thesis unfolding eq if_P [OF True] using assms(3) list_jsonEqual_refl [OF assms(3)]
        by (simp add: emitSet_def)
    next
      case False
      define rs where "rs = take p xs @ drop p (take (length ys - q) ys) @ drop (length xs - q) xs"
      have sp: "js_splice xs p (length xs - p - q) (drop p (take (length ys - q) ys)) = rs"
        using q p by (simp add: js_splice_def rs_def)
      have ys_split: "ys = take p ys @ drop p (take (length ys - q) ys) @ drop (length ys - q) ys"
        using q p by (metis add_le_imp_le_diff append.assoc append_take_drop_id min_absorb1 take_take)
      have mid: "list_all2 jsonEqual (drop p (take (length ys - q) ys)) (drop p (take (length ys - q) ys))"
        using list_jsonEqual_refl [OF assms(3)] by (intro list_all2_dropI list_all2_takeI)
      have "list_all2 jsonEqual rs ys"
        by (subst ys_split, unfold rs_def) (use p q mid in \<open>auto intro!: list_all2_appendI\<close>)
      moreover have "json_ok (Arr rs)" using assms(2,3) by (auto simp: rs_def dest: in_set_takeD in_set_dropD)
      moreover have "applyOp (Some (Arr xs)) (OpP [] p (length xs - p - q) (drop p (take (length ys - q) ys))) = Inr (Some (Arr rs))"
        using sp by (simp add: applyOp_P)
      ultimately show ?thesis unfolding eq if_not_P [OF False] by simp
    qed
  next
    case 3
    with us lu have "list_all2 jsonEqual (us @ drop (length xs) ys) (take (length xs) ys @ drop (length xs) ys)"
      using list_jsonEqual_refl [OF assms(3)] by (intro list_all2_appendI list_all2_dropI) auto
    moreover have "applyOp (Some (Arr us)) (OpP [] (length xs) 0 (drop (length xs) ys)) = Inr (Some (Arr (us @ drop (length xs) ys)))"
      using 3 lu by (simp add: applyOp_P js_splice_def)
    moreover have "json_ok (Arr (us @ drop (length xs) ys))" using us(3) assms(3) by (auto dest: in_set_dropD)
    ultimately show ?thesis using 3 us(1)
      by (simp add: diffArray.simps Let_def p_def [symmetric] q_def [symmetric] applyOps_append)
  next
    case 4
    show ?thesis
    proof (cases "ys = []")
      case True
      with 4 us lu show ?thesis
        by (simp add: diffArray.simps Let_def p_def [symmetric] q_def [symmetric] applyOps_append emitSet_def)
    next
      case False
      have "applyOp (Some (Arr (us @ drop (length ys) xs))) (OpP [] (length ys) (length xs - length ys) []) = Inr (Some (Arr us))"
        using 4 lu by (simp add: applyOp_P js_splice_def)
      with 4 False us show ?thesis
        by (simp add: diffArray.simps Let_def p_def [symmetric] q_def [symmetric] applyOps_append)
    qed
  qed
qed

section \<open>Values\<close>

lemma child_diff_ok: "child_diff_ok scan a"
proof (induction "size a" arbitrary: a rule: less_induct)
  case less
  show ?case unfolding child_diff_ok_def
  proof (intro allI impI)
    fix v s b
    assume v: "json_ok v" "json_ok a" "child v s = Some b" "safe_seg s"
    have b: "json_ok b" by (rule json_ok_child [OF v(1,3)])
    have lift: "\<exists>r. applyOps (Some v) (map (op_prefix [s]) ops) = Inr (Some (write_child v s r)) \<and> jsonEqual r a \<and> json_ok r"
      if "applyOps (Some b) ops = Inr (Some r)" "jsonEqual r a" "json_ok r" for ops r
      using applyOps_prefix [of v "[s]" b ops r] v that write_same [OF v(1,3)] by (auto simp del: jsonEqual_simps)
    have set: "applyOps (Some v) (emitSet [s] a) = Inr (Some (write_child v s a))"
      using applyOp_S_existing [of v "[s]" b a] v by (simp add: emitSet_def)
    have plain: "\<exists>r. applyOps (Some v) (diffValue (Some b) (Some a) [s] scan) = Inr (Some (write_child v s r)) \<and> jsonEqual r a \<and> json_ok r"
      if "diffValue (Some b) (Some a) [s] scan = (if strict_eq b a then [] else emitSet [s] a)"
    proof (cases "strict_eq b a")
      case True
      with that b strict_eq_jsonEqual [OF True] write_same [OF v(1,3)] show ?thesis
        by (intro exI [of _ b]) (simp del: jsonEqual_simps)
    next
      case False
      with that set jsonEqual_refl [OF v(2)] v(2) show ?thesis by (auto simp del: jsonEqual_simps)
    qed
    show "\<exists>r. applyOps (Some v) (diffValue (Some b) (Some a) [s] scan) = Inr (Some (write_child v s r)) \<and> jsonEqual r a \<and> json_ok r"
    proof -
      consider (str) x y where "b = Str x" "a = Str y" | (arr) xs ys where "b = Arr xs" "a = Arr ys"
        | (obj) ps qs where "b = Obj ps" "a = Obj qs"
        | (other) "diffValue (Some b) (Some a) [s] scan = (if strict_eq b a then [] else emitSet [s] a)"
        by (cases b; cases a) auto
      then show ?thesis
      proof cases
        case str
        with diffString_ok v show ?thesis by auto
      next
        case arr
        have "\<forall>y\<in>set ys. child_diff_ok scan y" using arr(2) by (auto intro!: less simp: less_Suc_eq_le size_list_estimation')
        from diffArray_ok [OF this, of xs] obtain rs where "applyOps (Some b) (diffArray xs ys [] scan) = Inr (Some (Arr rs))"
            "jsonEqual (Arr rs) a" "json_ok (Arr rs)"
          using b v(2) arr by auto
        from lift [OF this] show ?thesis using arr diff_shift(4) [of xs ys "[s]" "[]" scan] by simp
      next
        case obj
        have "\<forall>(k, y)\<in>set qs. child_diff_ok scan y" using obj(2) size_list_estimation' [of _ qs _ "size_prod (\<lambda>_. 0) size"]
          by (fastforce intro!: less simp: less_Suc_eq_le)
        from diffObject_ok [OF this, of ps] obtain r where "applyOps (Some b) (diffObject ps qs [] scan) = Inr (Some r)"
            "jsonEqual r a" "json_ok r"
          using b v(2) obj by (auto simp del: jsonEqual_simps)
        from lift [OF this] show ?thesis using obj diff_shift(2) [of ps qs "[s]" "[]" scan] by simp
      next
        case other
        then show ?thesis by (rule plain)
      qed
    qed
  qed
qed

lemma diff_root_ok:
  assumes "json_ok before" "json_ok after"
  shows "\<exists>r. applyOps (Some before) (diffValue (Some before) (Some after) [] scan) = Inr (Some r) \<and>
    jsonEqual r after \<and> json_ok r"
proof -
  note all = child_diff_ok [of scan]
  consider (str) x y where "before = Str x" "after = Str y" | (arr) xs ys where "before = Arr xs" "after = Arr ys"
    | (obj) ps qs where "before = Obj ps" "after = Obj qs"
    | (other) "diffValue (Some before) (Some after) [] scan = (if strict_eq before after then [] else emitSet [] after)"
    by (cases before; cases after) auto
  then show ?thesis
  proof cases
    case str
    then show ?thesis by (auto simp: diffString_def emitSet_def)
  next
    case arr
    with assms diffArray_ok [of ys scan xs] all show ?thesis by auto
  next
    case obj
    with assms diffObject_ok [of qs scan ps] all show ?thesis by (auto simp del: jsonEqual_simps)
  next
    case other
    with assms jsonEqual_refl [OF assms(2)] strict_eq_jsonEqual [of before after] show ?thesis
      by (auto simp: emitSet_def simp del: jsonEqual_simps)
  qed
qed

section \<open>Properties\<close>

text \<open>
  The overlap search is exact or gives up: the result is the length of a suffix of the old text that is
  a prefix of the new one, and when it is not zero no longer such suffix exists within the scanned tail.
\<close>

theorem overlap_longest:
  "overlaps a b (overlap a b scan 64 8) \<and>
   (overlap a b scan 64 8 = 0 \<or> (\<forall>n \<le> scan. overlaps a b n \<longrightarrow> n \<le> overlap a b scan 64 8))"
proof (cases "a = [] \<or> b = [] \<or> scan = 0")
  case True
  then show ?thesis by (auto simp: overlap_eq overlaps_def)
next
  case False
  have "1 \<le> length b" using False by (cases b) auto
  then show ?thesis
    using overlap_sound [of a b scan 64 8] overlap_heads_longest [OF refl, of 8 "scan_tail a scan" b "min 64 (length b)"]
      overlaps_tail [of a b _ scan]
    unfolding overlap_eq if_not_P [OF False] by (auto simp del: overlap_heads.simps)
qed

theorem overlap_longest_witness:
  "overlaps (js ''xab'') (js ''abc'') (overlap (js ''xab'') (js ''abc'') 65536 64 8) \<and>
   (overlap (js ''xab'') (js ''abc'') 65536 64 8 = 0 \<or> 2 \<le> overlap (js ''xab'') (js ''abc'') 65536 64 8)"
proof -
  have "overlaps (js ''xab'') (js ''abc'') 2" by (simp add: overlaps_def js_def)
  then show ?thesis using overlap_longest [of "js ''xab''" "js ''abc''" 65536] by auto
qed

text \<open>
  C5. Applying a difference: for JSON values without NaN, \<^verbatim>\<open>apply(before, diffValue(before, after))\<close> never throws
  and returns a value that \<^verbatim>\<open>jsonEqual\<close> accepts as \<^verbatim>\<open>after\<close>, with well-formed keys.
\<close>

theorem apply_diff:
  assumes "json_ok before" "json_ok after"
  shows "\<exists>r. applyOps (Some before) (diffValue (Some before) (Some after) [] scan) = Inr (Some r) \<and>
    jsonEqual r after \<and> json_ok r"
  using assms by (rule diff_root_ok)

theorem apply_diff_witness:
  "\<exists>r. applyOps (Some (Obj [(js ''a'', Str (js ''xyz'')), (js ''b'', Arr [Null, Num (JInt 1)])]))
       (diffValue (Some (Obj [(js ''a'', Str (js ''xyz'')), (js ''b'', Arr [Null, Num (JInt 1)])]))
          (Some (Obj [(js ''a'', Str (js ''zz'')), (js ''b'', Arr [Null]), (js ''c'', Bool True)])) [] 65536) = Inr (Some r) \<and>
     jsonEqual r (Obj [(js ''a'', Str (js ''zz'')), (js ''b'', Arr [Null]), (js ''c'', Bool True)]) \<and> json_ok r"
  by (rule apply_diff) (simp_all add: own_keys_def key_order_def key_before_def array_index_def js_def)

end
