(* ===== verification/Delta_Track.thy ===== *)
theory Delta_Track
  imports Delta_Diff_Correct
begin

text \<open>
  The change tracker of \<^verbatim>\<open>packages/chord/src/delta/index.ts\<close>: the tree of dirty paths, the proxy operations of
  \<^verbatim>\<open>track\<close> that mark it while they change the value, and \<^verbatim>\<open>flush\<close>, which turns the tree into operations
  and moves the baseline on.

  A mutation is made through the proxy of the node at a path; \<open>t_root\<close> is the tracked value, a tree the
  tracker owns. The sets of proxies that the code caches only save allocations and are left out.
\<close>

section \<open>Dirty paths\<close>

datatype ArrayDirty = Append nat | Diff | Replace

text \<open>The children are a \<^verbatim>\<open>Map\<close>: its entries in insertion order.\<close>

datatype DirtyNode = Dirty (valueDirty: bool) (dirtyArray: "ArrayDirty option") (dirtyChildren: "(seg \<times> DirtyNode) list")

definition dirtyNode :: DirtyNode where
  "dirtyNode = Dirty False None []"

definition stops :: "DirtyNode \<Rightarrow> bool" where
  "stops n \<longleftrightarrow> valueDirty n \<or> dirtyArray n = Some Diff \<or> dirtyArray n = Some Replace"

text \<open>
  \<^verbatim>\<open>ensureNode(path)\<close> and the change of the node it returns: a child on the way is created when absent and
  moved to the end of its map; below a node that is dirty as a whole nothing is recorded.
\<close>

fun mark_at :: "path \<Rightarrow> (DirtyNode \<Rightarrow> DirtyNode) \<Rightarrow> DirtyNode \<Rightarrow> DirtyNode" where
  "mark_at [] f n = f n"
| "mark_at (s # path) f n =
     (if stops n then n
      else let c = (case map_of (dirtyChildren n) s of None \<Rightarrow> dirtyNode | Some c \<Rightarrow> c) in
        Dirty (valueDirty n) (dirtyArray n) (filter (\<lambda>(s', _). s' \<noteq> s) (dirtyChildren n) @ [(s, mark_at path f c)]))"

fun findNode :: "path \<Rightarrow> DirtyNode \<Rightarrow> DirtyNode option" where
  "findNode [] n = Some n"
| "findNode (s # path) n = Option.bind (map_of (dirtyChildren n) s) (findNode path)"

definition mark_value :: "DirtyNode \<Rightarrow> DirtyNode" where
  "mark_value n = Dirty True None []"

definition mark_append :: "nat \<Rightarrow> DirtyNode \<Rightarrow> DirtyNode" where
  "mark_append start n =
     (if stops n then n
      else if dirtyArray n = None then Dirty (valueDirty n) (Some (Append start)) (dirtyChildren n)
      else n)"

definition mark_diff :: "DirtyNode \<Rightarrow> DirtyNode" where
  "mark_diff n = (if valueDirty n \<or> dirtyArray n = Some Replace then n else Dirty (valueDirty n) (Some Diff) [])"

definition mark_replace :: "DirtyNode \<Rightarrow> DirtyNode" where
  "mark_replace n = (if valueDirty n then n else Dirty (valueDirty n) (Some Replace) [])"

section \<open>The tracker\<close>

record tracker =
  t_root :: json
  pending :: DirtyNode
  hasPending :: bool
  baseline :: "json option"
  forceBase :: bool
  t_scan :: nat

definition track :: "json \<Rightarrow> nat option \<Rightarrow> tracker" where
  "track root maxOverlapScan =
     \<lparr>t_root = root, pending = dirtyNode, hasPending = False, baseline = None, forceBase = True,
      t_scan = (case maxOverlapScan of None \<Rightarrow> 65536 | Some n \<Rightarrow> n)\<rparr>"

definition clearPending :: "tracker \<Rightarrow> tracker" where
  "clearPending t = t\<lparr>pending := dirtyNode, hasPending := False\<rparr>"

definition mark :: "path \<Rightarrow> (DirtyNode \<Rightarrow> DirtyNode) \<Rightarrow> tracker \<Rightarrow> tracker" where
  "mark path f t = t\<lparr>pending := mark_at path f (pending t), hasPending := True\<rparr>"

definition markValue :: "path \<Rightarrow> tracker \<Rightarrow> tracker" where
  "markValue path = mark path mark_value"

definition markArrayAppend :: "path \<Rightarrow> nat \<Rightarrow> tracker \<Rightarrow> tracker" where
  "markArrayAppend path start = mark path (mark_append start)"

definition markArrayDiff :: "path \<Rightarrow> tracker \<Rightarrow> tracker" where
  "markArrayDiff path = mark path mark_diff"

definition markArrayReplace :: "path \<Rightarrow> tracker \<Rightarrow> tracker" where
  "markArrayReplace path = mark path mark_replace"

definition appendStart :: "path \<Rightarrow> tracker \<Rightarrow> nat option" where
  "appendStart path t =
     (case findNode path (pending t) of
        Some n \<Rightarrow> (case dirtyArray n of Some (Append start) \<Rightarrow> Some start | _ \<Rightarrow> None)
      | None \<Rightarrow> None)"

section \<open>Mutations through the proxy\<close>

datatype track_error =
    Unsafe seg
  | SparseArray
  | NoTarget

text \<open>
  \<open>spliceRange\<close> on the arguments of \<^verbatim>\<open>splice\<close>: start and delete count as integers, absent when not
  given.
\<close>

definition spliceRange :: "nat \<Rightarrow> int option \<Rightarrow> int option \<Rightarrow> nat \<times> nat" where
  "spliceRange len start deleteCount =
     (let rawStart = (case start of None \<Rightarrow> 0 | Some i \<Rightarrow> i);
          index = (if rawStart < 0 then max 0 (int len + rawStart) else min rawStart (int len));
          remove = (case start of None \<Rightarrow> 0 | Some _ \<Rightarrow>
                     (case deleteCount of None \<Rightarrow> int len - index | Some d \<Rightarrow> max 0 (min d (int len - index))))
      in (nat index, nat remove))"

text \<open>The array methods; \<open>Permute\<close> stands for sort, reverse, fill and copyWithin by the list they leave.\<close>

datatype array_call =
    Push "json list"
  | Unshift "json list"
  | Pop
  | Shift
  | Splice "int option" "int option" "json list"
  | Permute "json list \<Rightarrow> json list"

definition tail_edit :: "nat option \<Rightarrow> nat \<Rightarrow> bool" where
  "tail_edit start i = (case start of None \<Rightarrow> False | Some s \<Rightarrow> s \<le> i)"

definition array_marks :: "path \<Rightarrow> nat \<Rightarrow> array_call \<Rightarrow> tracker \<Rightarrow> tracker" where
  "array_marks path before c t =
     (case c of
        Push items \<Rightarrow> if items \<noteq> [] then markArrayAppend path before t else t
      | Unshift items \<Rightarrow> if items \<noteq> [] then markArrayDiff path t else t
      | Pop \<Rightarrow> if before > 0 \<and> \<not> tail_edit (appendStart path t) (before - 1) then markArrayDiff path t else t
      | Shift \<Rightarrow> if before > 0 then markArrayDiff path t else t
      | Splice start deleteCount items \<Rightarrow>
          (case spliceRange before start deleteCount of (index, remove) \<Rightarrow>
             if remove > 0 \<or> items \<noteq> [] then
               if index = 0 \<and> remove = before then markArrayReplace path t
               else if tail_edit (appendStart path t) index then t
               else if index = before \<and> remove = 0 then markArrayAppend path before t
               else markArrayDiff path t
             else t)
      | Permute _ \<Rightarrow> markArrayDiff path t)"

definition array_result :: "json list \<Rightarrow> array_call \<Rightarrow> json list" where
  "array_result xs c =
     (case c of
        Push items \<Rightarrow> insert_chunks xs (length xs) items
      | Unshift items \<Rightarrow> insert_chunks xs 0 items
      | Pop \<Rightarrow> butlast xs
      | Shift \<Rightarrow> tl xs
      | Splice start deleteCount items \<Rightarrow>
          (case spliceRange (length xs) start deleteCount of (index, remove) \<Rightarrow>
             insert_chunks (js_splice xs index remove []) index items)
      | Permute g \<Rightarrow> g xs)"

text \<open>
  The segments that \<^verbatim>\<open>norm\<close> produces: numbers on an array, strings on an object. A path that runs through
  a reserved key may be read but not changed through.
\<close>

fun kind_seg :: "json \<Rightarrow> seg \<Rightarrow> bool" where
  "kind_seg (Obj _) (Key _) = True"
| "kind_seg (Arr _) (Idx _) = True"
| "kind_seg _ _ = False"

fun normal_path :: "json \<Rightarrow> path \<Rightarrow> bool" where
  "normal_path v [] = True"
| "normal_path v (s # path) = (kind_seg v s \<and> (case child v s of None \<Rightarrow> False | Some c \<Rightarrow> normal_path c path))"

definition proxy_target :: "tracker \<Rightarrow> path \<Rightarrow> (track_error, json) res" where
  "proxy_target t path =
     (case find (\<lambda>s. \<not> safe_seg s) path of
        Some s \<Rightarrow> Inl (Unsafe s)
      | None \<Rightarrow>
          if normal_path (t_root t) path
          then (case get_path (t_root t) path of Some v \<Rightarrow> Inr v | None \<Rightarrow> Inl NoTarget)
          else Inl NoTarget)"

definition update_target :: "path \<Rightarrow> json \<Rightarrow> tracker \<Rightarrow> tracker" where
  "update_target path v t = t\<lparr>t_root := put_path (t_root t) path v\<rparr>"

definition call_array :: "path \<Rightarrow> array_call \<Rightarrow> tracker \<Rightarrow> (track_error, tracker) res" where
  "call_array path c t =
     rbind (proxy_target t path) (\<lambda>target.
       case target of
         Arr xs \<Rightarrow> Inr (update_target path (Arr (array_result xs c)) (array_marks path (length xs) c t))
       | _ \<Rightarrow> Inl NoTarget)"

text \<open>The set trap on the length of an array, for a valid length.\<close>

definition set_length :: "path \<Rightarrow> nat \<Rightarrow> tracker \<Rightarrow> (track_error, tracker) res" where
  "set_length path next t =
     rbind (proxy_target t path) (\<lambda>target.
       case target of
         Arr xs \<Rightarrow>
           let before = length xs in
           if next < before then
             let t = (if next = 0 then markArrayReplace path t
                      else if \<not> tail_edit (appendStart path t) next then markArrayDiff path t
                      else t)
             in Inr (update_target path (Arr (take next xs)) t)
           else if next > before then
             Inr (update_target path (Arr (xs @ replicate (next - before) Null)) (markArrayAppend path before t))
           else Inr t
       | _ \<Rightarrow> Inl NoTarget)"

text \<open>The set trap for any other key; \<open>None\<close> is an assignment of undefined.\<close>

definition set_key :: "path \<Rightarrow> seg \<Rightarrow> json option \<Rightarrow> tracker \<Rightarrow> (track_error, tracker) res" where
  "set_key path s v t =
     rbind (proxy_target t path) (\<lambda>target.
       if \<not> safe_seg s then Inl (Unsafe s)
       else case target of
         Arr xs \<Rightarrow>
           (case s of
              Key _ \<Rightarrow> Inl (Unsafe s)
            | Idx i \<Rightarrow>
                if i > length xs then Inl (Unsafe s)
                else case v of
                  None \<Rightarrow> Inl SparseArray
                | Some w \<Rightarrow>
                    if i < length xs \<and> strict_eq (xs ! i) w then Inr t
                    else
                      let t = (if i = length xs then markArrayAppend path (length xs) t
                               else if \<not> tail_edit (appendStart path t) i then markValue (path @ [s]) t
                               else t)
                      in Inr (update_target path (write_child target s w) t))
       | Obj ps \<Rightarrow>
           (case s of
              Idx _ \<Rightarrow> Inl NoTarget
            | Key k \<Rightarrow>
                (case v of
                   None \<Rightarrow> Inr (update_target path (Obj (obj_delete k ps)) (markValue (path @ [s]) t))
                 | Some w \<Rightarrow>
                     if (case map_of ps k of None \<Rightarrow> False | Some previous \<Rightarrow> strict_eq previous w) then Inr t
                     else Inr (update_target path (write_child target s w) (markValue (path @ [s]) t))))
       | _ \<Rightarrow> Inl NoTarget)"

definition delete_key :: "path \<Rightarrow> seg \<Rightarrow> tracker \<Rightarrow> (track_error, tracker) res" where
  "delete_key path s t =
     rbind (proxy_target t path) (\<lambda>target.
       if \<not> safe_seg s then Inl (Unsafe s)
       else case target of
         Arr xs \<Rightarrow> (case s of Key _ \<Rightarrow> Inl (Unsafe s) | Idx _ \<Rightarrow> Inl SparseArray)
       | Obj ps \<Rightarrow>
           (case s of
              Idx _ \<Rightarrow> Inl NoTarget
            | Key k \<Rightarrow> Inr (update_target path (Obj (obj_delete k ps)) (markValue (path @ [s]) t)))
       | _ \<Rightarrow> Inl NoTarget)"

definition set_state :: "json \<Rightarrow> tracker \<Rightarrow> tracker" where
  "set_state next t = (clearPending t)\<lparr>t_root := next, baseline := None, forceBase := True\<rparr>"

definition rebase :: "tracker \<Rightarrow> tracker" where
  "rebase t = (clearPending t)\<lparr>forceBase := True\<rparr>"

definition discard :: "tracker \<Rightarrow> tracker" where
  "discard t = clearPending (t\<lparr>baseline := Some (t_root t)\<rparr>)"

definition dirty :: "tracker \<Rightarrow> bool" where
  "dirty t \<longleftrightarrow> forceBase t \<or> hasPending t"

section \<open>Flushing\<close>

text \<open>\<^verbatim>\<open>walkDirty\<close>: the children of a node in turn, those of an array only below the append start.\<close>

fun walkDirty :: "json \<Rightarrow> json \<Rightarrow> DirtyNode \<Rightarrow> path \<Rightarrow> nat \<Rightarrow> op list"
  and walk_children :: "json \<Rightarrow> json \<Rightarrow> nat option \<Rightarrow> (seg \<times> DirtyNode) list \<Rightarrow> path \<Rightarrow> nat \<Rightarrow> op list" where
  "walkDirty before after (Dirty vd arr children) path scan =
     (if vd then diffValue (Some before) (Some after) path scan
      else case arr of
        Some Replace \<Rightarrow> if \<not> jsonEqual before after then emitSet path after else []
      | Some Diff \<Rightarrow> diffValue (Some before) (Some after) path scan
      | Some (Append start) \<Rightarrow>
          (case (before, after) of
             (Arr xs, Arr ys) \<Rightarrow>
               if length xs \<noteq> start \<or> length ys < start then diffValue (Some before) (Some after) path scan
               else walk_children before after (Some start) children path scan @
                 (if drop start ys \<noteq> [] then [OpP path start 0 (drop start ys)] else [])
           | _ \<Rightarrow> diffValue (Some before) (Some after) path scan)
      | None \<Rightarrow> walk_children before after None children path scan)"
| "walk_children before after limit [] path scan = []"
| "walk_children before after limit ((s, c) # children) path scan =
     (if (case limit of None \<Rightarrow> True | Some start \<Rightarrow> (case s of Idx i \<Rightarrow> i < start | Key _ \<Rightarrow> False)) then
        (case (ownValue before s, ownValue after s) of
           (Some previous, Some current) \<Rightarrow>
             if \<not> valueDirty c \<and> isObj previous \<and> isObj current
             then walkDirty previous current c (path @ [s]) scan
             else diffValue (Some previous) (Some current) (path @ [s]) scan
         | (previous, current) \<Rightarrow> diffValue previous current (path @ [s]) scan)
      else []) @ walk_children before after limit children path scan"

fun canSync :: "DirtyNode \<Rightarrow> bool" and can_sync_children :: "(seg \<times> DirtyNode) list \<Rightarrow> bool" where
  "canSync (Dirty vd arr children) =
     ((case arr of None \<Rightarrow> True | Some (Append _) \<Rightarrow> True | _ \<Rightarrow> False) \<and> can_sync_children children)"
| "can_sync_children [] = True"
| "can_sync_children ((s, c) # children) = (canSync c \<and> can_sync_children children)"

text \<open>
  \<^verbatim>\<open>syncInto\<close> and \<^verbatim>\<open>syncChild\<close> return the baseline they change. On an array, the writes of the code
  address existing elements, and a missing current element removes one.
\<close>

definition remove_child :: "json \<Rightarrow> seg \<Rightarrow> json" where
  "remove_child parent s =
     (case parent of
        Arr xs \<Rightarrow> (case s of Idx i \<Rightarrow> Arr (js_splice xs i 1 []) | Key _ \<Rightarrow> parent)
      | Obj ps \<Rightarrow> Obj (obj_delete (seg_key s) ps)
      | _ \<Rightarrow> parent)"

definition same_kind :: "json \<Rightarrow> json \<Rightarrow> bool" where
  "same_kind a b \<longleftrightarrow> (case (a, b) of (Arr _, Arr _) \<Rightarrow> True | (Obj _, Obj _) \<Rightarrow> True | _ \<Rightarrow> False)"

fun syncInto :: "json \<Rightarrow> json \<Rightarrow> DirtyNode \<Rightarrow> json"
  and sync_children :: "json \<Rightarrow> json \<Rightarrow> nat option \<Rightarrow> (seg \<times> DirtyNode) list \<Rightarrow> json" where
  "syncInto base root (Dirty vd arr children) =
     (case (arr, base, root) of
        (Some (Append start), Arr xs, Arr ys) \<Rightarrow>
          (case sync_children base root (Some start) children of
             Arr zs \<Rightarrow> Arr (zs @ drop start ys)
           | v \<Rightarrow> v)
      | _ \<Rightarrow> sync_children base root None children)"
| "sync_children base root limit [] = base"
| "sync_children base root limit ((s, c) # children) =
     sync_children
       (if (case limit of None \<Rightarrow> True | Some start \<Rightarrow> (case s of Idx i \<Rightarrow> i < start | Key _ \<Rightarrow> False)) then
          (case ownValue root s of
             None \<Rightarrow> remove_child base s
           | Some current \<Rightarrow>
               (case ownValue base s of
                  Some previous \<Rightarrow>
                    if valueDirty c \<or> \<not> same_kind current previous then write_child base s current
                    else write_child base s (syncInto previous current c)
                | None \<Rightarrow> write_child base s current))
        else base)
       root limit children"

definition flush :: "tracker \<Rightarrow> (delta_error, tracker \<times> op list) res" where
  "flush t =
     (if forceBase t then
        Inr (clearPending (t\<lparr>baseline := Some (t_root t), forceBase := False\<rparr>), [OpR (t_root t)])
      else if \<not> hasPending t then Inr (t, [])
      else case baseline t of
        None \<Rightarrow> Inr (t, [])
      | Some b \<Rightarrow>
          let out = walkDirty b (t_root t) (pending t) [] (t_scan t) in
          rbind (if canSync (pending t) then Inr (Some (syncInto b (t_root t) (pending t)))
                 else if out \<noteq> [] then applyOps (Some b) out
                 else Inr (Some b))
            (\<lambda>b'. Inr (clearPending (t\<lparr>baseline := b'\<rparr>), out)))"

end
