(* ===== verification/Delta_Immutable.thy ===== *)
theory Delta_Immutable
  imports Delta_Diff_Correct
begin

text \<open>
  The immutable applier of \<^verbatim>\<open>packages/chord/src/delta/index.ts\<close> computes what the mutating one does: the
  containers it copies on the way are equal to the originals, and it throws on the same batches.
\<close>

section \<open>Operations keep values well formed\<close>

fun op_ok :: "op \<Rightarrow> bool" where
  "op_ok (OpR v) = json_ok v"
| "op_ok (OpS _ v) = json_ok v"
| "op_ok (OpP _ _ _ items) = list_all json_ok items"
| "op_ok _ = True"

lemma json_ok_get: "json_ok v \<Longrightarrow> get_path v p = Some x \<Longrightarrow> json_ok x"
  by (induction v p rule: get_path.induct) (auto simp: bind_eq_Some_conv dest: json_ok_child)

lemma json_ok_put: "json_ok v \<Longrightarrow> json_ok y \<Longrightarrow> json_ok (put_path v p y)"
  by (induction v p rule: get_path.induct) (auto intro!: json_ok_write dest: json_ok_child split: option.splits)

lemma json_ok_delete: "json_ok (Obj ps) \<Longrightarrow> json_ok (Obj (obj_delete k ps))"
  by (auto simp: obj_delete_def own_keys_obj_delete [unfolded obj_delete_def])

lemma json_ok_splice: "json_ok (Arr xs) \<Longrightarrow> list_all json_ok items \<Longrightarrow> json_ok (Arr (js_splice xs i r items))"
  by (auto simp: js_splice_def list_all_iff dest: in_set_takeD in_set_dropD)

lemma json_ok_child_op:
  assumes "json_ok n" "op_ok x" "child_op x n = Inr y"
  shows "json_ok y"
proof (cases x)
  case (OpD p)
  with assms json_ok_splice [of _ "[]"] show ?thesis
    by (auto simp: child_op_def Let_def res_simps delete_child_def simp del: json_ok.simps(5,6) intro: json_ok_delete
        split: json.splits seg.splits if_splits)
qed (use assms in \<open>auto simp: child_op_def Let_def res_simps edit_text_def intro!: json_ok_write split: option.splits json.splits\<close>)

lemma json_ok_applyOp:
  assumes "json_ok v" "op_ok x" "applyOp (Some v) x = Inr (Some w)"
  shows "json_ok w"
proof -
  consider u where "x = OpR u" | q i r items where "x = OpP q i r items" | "edits_child x" by (cases x) auto
  then show ?thesis
  proof cases
    case 2
    with assms json_ok_get [OF assms(1)] show ?thesis
      by (auto simp: applyOp_P simp del: json_ok.simps(5) intro!: json_ok_put json_ok_splice)
  next
    case 3
    with assms json_ok_get [OF assms(1)] json_ok_child_op [OF _ assms(2)] show ?thesis
      by (auto simp: applyOp_child intro!: json_ok_put)
  qed (use assms in auto)
qed

section \<open>Copies\<close>

lemma rebuild: "own_keys ps \<Longrightarrow> foldl (\<lambda>acc (k, c). obj_put k c acc) [] ps = ps"
proof (induction ps rule: rev_induct)
  case (snoc p ps)
  then have "own_keys ps" by (simp add: own_keys_def sorted_wrt_append)
  with snoc obj_put_snoc [of ps "fst p" "snd p"] show ?case by (simp add: split_beta)
qed simp

lemma copy_container_eq: "json_ok v \<Longrightarrow> copy_container p v = (if isObj v then Inr v else Inl (PathError p))"
  by (cases v) (auto simp: copy_container_def rebuild)

lemma copy_below_Inr:
  "json_ok v \<Longrightarrow> isObj v \<Longrightarrow> copy_below full p v v = Inr w \<longleftrightarrow> w = v \<and> (\<exists>x. get_path v p = Some x \<and> isObj x)"
proof (induction p arbitrary: v w)
  case (Cons s p)
  show ?case
  proof (cases "child v s")
    case None
    then have "\<nexists>u. copy_below full (s # p) v v = Inr u"
      by (auto simp: child_def ownValue_def split: json.splits seg.splits if_splits option.splits)
    with None show ?thesis by simp
  next
    case (Some c)
    then have own: "ownValue v s = Some c" by (rule child_ownValue)
    have nk: "\<not> (\<exists>xs k. v = Arr xs \<and> s = Key k)" using Some by (auto simp: child_def)
    have ok: "json_ok c" using json_ok_child [OF Cons.prems(1) Some] .
    have step: "copy_below full (s # p) v v =
        (if isObj c then rbind (copy_below full p c c) (\<lambda>u. Inr (write_child v s u)) else Inl (PathError full))"
      using own nk ok by (auto simp: copy_container_eq split: json.splits seg.splits)
    show ?thesis
    proof (cases "isObj c")
      case True
      with step Cons.IH [OF ok True] Some write_same [OF Cons.prems(1) Some] show ?thesis by (auto simp: res_simps)
    next
      case False
      then have "\<nexists>x. get_path c p = Some x \<and> isObj x"
        by (cases p; cases c) (auto simp: child_def)
      with False step Some show ?thesis by auto
    qed
  qed
qed auto

lemma copyContainers_Inr:
  "json_ok v \<Longrightarrow> copyContainers (Some v) p = Inr w \<longleftrightarrow> w = v \<and> (\<exists>x. get_path v p = Some x \<and> isObj x)"
proof (cases "isObj v")
  case True
  then show "json_ok v \<Longrightarrow> ?thesis" by (simp add: copyContainers_def copy_container_eq copy_below_Inr)
next
  case False
  then have "\<nexists>x. get_path v p = Some x \<and> isObj x" by (cases p; cases v) (auto simp: child_def)
  with False show "json_ok v \<Longrightarrow> ?thesis" by (auto simp: copyContainers_def copy_container_eq)
qed

lemma immutableOp_Inr:
  assumes "json_ok v"
  shows "immutableOp (Some v) x = Inr w \<longleftrightarrow> applyOp (Some v) x = Inr w"
proof -
  consider u where "x = OpR u" | q i r items where "x = OpP q i r items" | "edits_child x" by (cases x) auto
  then show ?thesis
  proof cases
    case 3
    then have "immutableOp (Some v) x = rbind (copyContainers (Some v) (butlast (op_path x))) (\<lambda>copy. applyOps (Some copy) [x])"
      by (cases x) (simp_all add: immutableOp_def)
    then have "immutableOp (Some v) x = Inr w \<longleftrightarrow>
        (\<exists>y. get_path v (butlast (op_path x)) = Some y \<and> isObj y) \<and> applyOp (Some v) x = Inr w"
      by (auto simp: res_simps copyContainers_Inr [OF assms])
    then show ?thesis using applyOp_child [OF 3, of v w] by blast
  next
    case 2
    then show ?thesis
      by (auto simp: immutableOp_def res_simps copyContainers_Inr [OF assms] applyOp_P)
  qed (simp add: immutableOp_def)
qed

lemma immutableOp_None: "immutableOp None x = Inr w \<longleftrightarrow> applyOp None x = Inr w"
  by (cases x) (auto simp: immutableOp_def applyOp_def copyContainers_def res_simps resolve_at_def)

section \<open>Property\<close>

text \<open>
  C23. \<^verbatim>\<open>applyImmutable\<close> is \<^verbatim>\<open>apply\<close>: on well-formed values, and for any batch of operations carrying
  well-formed values, one returns a value exactly when the other does, and the values are the same.
\<close>

theorem applyImmutable_eq:
  assumes "\<forall>v. root = Some v \<longrightarrow> json_ok v" "list_all op_ok ops"
  shows "applyImmutable root ops = Inr w \<longleftrightarrow> applyOps root ops = Inr w"
  using assms
proof (induction ops arbitrary: root)
  case (Cons x ops)
  have same: "immutableOp root x = Inr u \<longleftrightarrow> applyOp root x = Inr u" for u
    using Cons.prems(1) immutableOp_None immutableOp_Inr by (cases root) auto
  have ok: "\<forall>v. u = Some v \<longrightarrow> json_ok v" if "applyOp root x = Inr u" for u
  proof (cases root)
    case None
    with that Cons.prems(2) show ?thesis by (cases x) (auto simp: applyOp_def res_simps resolve_at_def split: if_splits)
  next
    case (Some v)
    with that Cons.prems json_ok_applyOp [of v x] show ?thesis by auto
  qed
  show ?case using Cons.IH [OF ok] Cons.prems(2) by (auto simp: res_simps same)
qed simp

theorem applyImmutable_eq_witness:
  "applyImmutable (Some (Obj [(js ''a'', Arr [Null])])) [OpP [Key (js ''a'')] 1 0 [Bool True]] = Inr (Some (Obj [(js ''a'', Arr [Null, Bool True])]))
   \<longleftrightarrow> applyOps (Some (Obj [(js ''a'', Arr [Null])])) [OpP [Key (js ''a'')] 1 0 [Bool True]] = Inr (Some (Obj [(js ''a'', Arr [Null, Bool True])]))"
  by (rule applyImmutable_eq) (simp_all add: own_keys_def)

end
