(* ===== verification/Delta_Track_Correct.thy ===== *)
theory Delta_Track_Correct
  imports Delta_Track Delta_Immutable
begin

text \<open>
  Correctness of the tracker: the dirty tree covers every difference between the baseline and the tracked
  value, every mutation keeps it so, and a flush produces operations that bring any replica equal to
  the baseline to the tracked value.
\<close>

section \<open>Covering\<close>

text \<open>The children of the baseline that a node has to account for, and the shapes it admits.\<close>

fun fits :: "json \<Rightarrow> seg \<Rightarrow> bool" where
  "fits (Obj _) (Key _) = True"
| "fits (Arr xs) (Idx i) = (i < length xs)"
| "fits _ _ = False"

fun shape :: "ArrayDirty option \<Rightarrow> json \<Rightarrow> json \<Rightarrow> bool" where
  "shape None (Obj _) (Obj _) = True"
| "shape None (Arr xs) (Arr ys) = (length xs = length ys)"
| "shape (Some (Append start)) (Arr xs) (Arr ys) = (length xs = start \<and> start \<le> length ys)"
| "shape _ _ _ = False"

inductive covers :: "DirtyNode \<Rightarrow> json \<Rightarrow> json \<Rightarrow> bool" where
  whole: "stops n \<Longrightarrow> covers n b a"
| parts: "shape arr b a \<Longrightarrow> distinct (map fst cs) \<Longrightarrow> (\<forall>s\<in>fst ` set cs. safe_seg s \<and> kind_seg b s) \<Longrightarrow>
    (\<forall>s. fits b s \<longrightarrow> map_of cs s = None \<longrightarrow> rel_option jsonEqual (child b s) (child a s)) \<Longrightarrow>
    (\<forall>s c b' a'. fits b s \<longrightarrow> map_of cs s = Some c \<longrightarrow> child b s = Some b' \<longrightarrow> child a s = Some a' \<longrightarrow>
       isObj b' \<longrightarrow> isObj a' \<longrightarrow> covers c b' a') \<Longrightarrow>
    covers (Dirty False arr cs) b a"

lemma covers_parts:
  assumes "covers n b a" "\<not> stops n"
  obtains arr cs where "n = Dirty False arr cs" "shape arr b a" "distinct (map fst cs)"
    "\<forall>s\<in>fst ` set cs. safe_seg s \<and> kind_seg b s"
    "\<And>s. fits b s \<Longrightarrow> map_of cs s = None \<Longrightarrow> rel_option jsonEqual (child b s) (child a s)"
    "\<And>s c b' a'. fits b s \<Longrightarrow> map_of cs s = Some c \<Longrightarrow> child b s = Some b' \<Longrightarrow> child a s = Some a' \<Longrightarrow>
       isObj b' \<Longrightarrow> isObj a' \<Longrightarrow> covers c b' a'"
  using assms(1)
proof (cases rule: covers.cases)
  case (parts arr cs)
  show ?thesis by (rule that [OF parts(1,2,3,4)]) (use parts(5,6) in blast)+
qed (use assms(2) in simp)

lemma shape_kind: "shape arr b a \<Longrightarrow> kind_seg b s = kind_seg a s"
  by (induction arr b a rule: shape.induct; cases s) auto

lemma fits_kind: "fits b s \<Longrightarrow> kind_seg b s"
  by (cases "(b, s)" rule: fits.cases) auto

lemma kind_isObj: "kind_seg v s \<Longrightarrow> isObj v"
  by (cases "(v, s)" rule: kind_seg.cases) auto

lemma child_obj_distinct:
  "jsonEqual (Obj ps) (Obj qs) \<Longrightarrow> own_keys ps \<Longrightarrow> own_keys qs \<Longrightarrow> rel_option jsonEqual (map_of ps k) (map_of qs k)"
  using jsonEqual_Obj [of ps qs] by (simp add: own_keys_distinct del: jsonEqual_simps)

lemma jsonEqual_child:
  assumes "jsonEqual b a" "json_ok b" "json_ok a" "kind_seg b s"
  shows "rel_option jsonEqual (child b s) (child a s)"
proof (cases "(b, s)" rule: kind_seg.cases)
  case (1 ps k)
  with assms show ?thesis using child_obj_distinct [of ps _ k] by (cases a) auto
next
  case (2 xs i)
  with assms show ?thesis by (auto simp: list_all2_conv_all_nth)
qed (use assms in auto)

lemma covers_empty:
  assumes "jsonEqual b a" "json_ok b" "json_ok a" "isObj b"
  shows "covers dirtyNode b a"
  unfolding dirtyNode_def
proof (rule covers.parts)
  show "shape None b a" using assms(1,4) by (cases b; cases a) (auto dest: list_all2_lengthD)
qed (use assms jsonEqual_child fits_kind in auto)

section \<open>Marking\<close>

text \<open>A node of the value replaced by another of the same kind.\<close>

definition like :: "json \<Rightarrow> json \<Rightarrow> bool" where
  "like v w \<longleftrightarrow> (case (v, w) of (Obj _, Obj _) \<Rightarrow> True | (Arr xs, Arr ys) \<Rightarrow> length xs = length ys | _ \<Rightarrow> False)"

lemma write_like: "child v s = Some c \<Longrightarrow> like v (write_child v s w)"
  by (auto simp: child_def write_child_def like_def split: json.splits seg.splits if_splits)

lemma shape_like: "shape arr b a \<Longrightarrow> like a a' \<Longrightarrow> shape arr b a'"
  by (induction arr b a rule: shape.induct; cases a') (auto simp: like_def)

lemma child_write_other:
  "child v s = Some c \<Longrightarrow> kind_seg v s \<Longrightarrow> kind_seg v s' \<Longrightarrow> s' \<noteq> s \<Longrightarrow> child (write_child v s w) s' = child v s'"
  by (cases "(v, s)" rule: kind_seg.cases; cases "(v, s')" rule: kind_seg.cases)
    (auto simp: write_child_def child_def)

lemma map_of_filter_other: "s' \<noteq> s \<Longrightarrow> map_of (filter (\<lambda>(t, _). t \<noteq> s) cs) s' = map_of cs s'"
  by (induction cs) auto

lemma map_of_filter_same: "map_of (filter (\<lambda>(t, _). t \<noteq> s) cs) s = None"
  by (induction cs) auto

lemma map_of_moved:
  "map_of (filter (\<lambda>(t, _). t \<noteq> s) cs @ [(s, m)]) s' = (if s' = s then Some m else map_of cs s')"
  by (auto simp: map_of_filter_other map_of_filter_same map_add_def split: option.splits)

lemma distinct_moved: "distinct (map fst cs) \<Longrightarrow> distinct (map fst (filter (\<lambda>(t, _). t \<noteq> s) cs @ [(s, m)]))"
  by (auto simp: distinct_map_filter)

text \<open>
  One child of a covered value changes and its new entry in the tree covers the change; all other
  children keep theirs.
\<close>

lemma covers_step:
  assumes "covers n b a" "\<not> stops n" "like a a'" "kind_seg a s" "safe_seg s"
    "\<And>s'. s' \<noteq> s \<Longrightarrow> kind_seg a s' \<Longrightarrow> child a' s' = child a s'"
    "\<And>b' x. fits b s \<Longrightarrow> child b s = Some b' \<Longrightarrow> child a' s = Some x \<Longrightarrow> isObj b' \<Longrightarrow> isObj x \<Longrightarrow> covers m b' x"
  shows "covers (Dirty (valueDirty n) (dirtyArray n) (filter (\<lambda>(s', _). s' \<noteq> s) (dirtyChildren n) @ [(s, m)])) b a'"
  using assms(1,2)
proof (rule covers_parts)
  fix arr cs
  assume n: "n = Dirty False arr cs" "shape arr b a" "distinct (map fst cs)" "\<forall>s\<in>fst ` set cs. safe_seg s \<and> kind_seg b s"
    and none: "\<And>s. fits b s \<Longrightarrow> map_of cs s = None \<Longrightarrow> rel_option jsonEqual (child b s) (child a s)"
    and some: "\<And>s c b' a'. fits b s \<Longrightarrow> map_of cs s = Some c \<Longrightarrow> child b s = Some b' \<Longrightarrow> child a s = Some a' \<Longrightarrow>
       isObj b' \<Longrightarrow> isObj a' \<Longrightarrow> covers c b' a'"
  note kind = shape_kind [OF n(2)]
  have same: "child a' s' = child a s'" if "fits b s'" "s' \<noteq> s" for s'
    using assms(6) [OF that(2)] fits_kind [OF that(1)] kind by simp
  show ?thesis unfolding n(1) DirtyNode.sel
  proof (rule covers.parts [OF shape_like [OF n(2) assms(3)] distinct_moved [OF n(3)]])
    show "\<forall>s'\<in>fst ` set (filter (\<lambda>(t, _). t \<noteq> s) cs @ [(s, m)]). safe_seg s' \<and> kind_seg b s'"
      using n(4) assms(4,5) kind by auto
    show "\<forall>s'. fits b s' \<longrightarrow> map_of (filter (\<lambda>(t, _). t \<noteq> s) cs @ [(s, m)]) s' = None \<longrightarrow>
        rel_option jsonEqual (child b s') (child a' s')"
      using none same by (auto simp: map_of_moved simp del: map_of_append)
    show "\<forall>s' c b' x. fits b s' \<longrightarrow> map_of (filter (\<lambda>(t, _). t \<noteq> s) cs @ [(s, m)]) s' = Some c \<longrightarrow>
        child b s' = Some b' \<longrightarrow> child a' s' = Some x \<longrightarrow> isObj b' \<longrightarrow> isObj x \<longrightarrow> covers c b' x"
      using some same assms(7) by (auto simp: map_of_moved simp del: map_of_append split: if_splits)
  qed
qed

text \<open>Marking at a path, given what the mark achieves at the node of that path.\<close>

lemma covers_mark:
  assumes "covers n b a" "get_path a p = Some x" "normal_path a p" "safe_path p" "json_ok b" "json_ok a" "isObj x" "isObj x'"
    "\<And>n b. json_ok b \<Longrightarrow> covers n b x \<Longrightarrow> covers (f n) b x'"
  shows "covers (mark_at p f n) b (put_path a p x')"
  using assms(1-6)
proof (induction p arbitrary: n b a)
  case Nil
  then show ?case using assms(9) by simp
next
  case (Cons s p)
  obtain c where c: "child a s = Some c" "get_path c p = Some x" "kind_seg a s" "normal_path c p"
    using Cons.prems by (auto simp: bind_eq_Some_conv split: option.splits)
  have okc: "json_ok c" using json_ok_child [OF Cons.prems(6) c(1)] .
  have objc: "isObj c" using c(2,4) assms(7) kind_isObj by (cases p) auto
  show ?case
  proof (cases "stops n")
    case True
    then show ?thesis by (simp add: covers.whole)
  next
    case False
    let ?c = "case map_of (dirtyChildren n) s of None \<Rightarrow> dirtyNode | Some c \<Rightarrow> c"
    have old: "covers ?c b' c" if "fits b s" "child b s = Some b'" "isObj b'" for b'
      using Cons.prems(1) False
    proof (rule covers_parts)
      fix arr cs
      assume n: "n = Dirty False arr cs"
        and none: "\<And>s. fits b s \<Longrightarrow> map_of cs s = None \<Longrightarrow> rel_option jsonEqual (child b s) (child a s)"
        and some: "\<And>s c b' a'. fits b s \<Longrightarrow> map_of cs s = Some c \<Longrightarrow> child b s = Some b' \<Longrightarrow> child a s = Some a' \<Longrightarrow>
          isObj b' \<Longrightarrow> isObj a' \<Longrightarrow> covers c b' a'"
      show ?thesis
      proof (cases "map_of cs s")
        case None
        with none [OF that(1) None] that c(1) have "jsonEqual b' c" by simp
        with None n covers_empty [of b' c] json_ok_child [OF Cons.prems(5) that(2)] okc that(3) show ?thesis by simp
      next
        case (Some d)
        with some [OF that(1) Some that(2) c(1) that(3) objc] n show ?thesis by simp
      qed
    qed
    have "covers (mark_at p f ?c) b' y"
      if "fits b s" "child b s = Some b'" "child (write_child a s (put_path c p x')) s = Some y" "isObj b'" for b' y
    proof -
      have "y = put_path c p x'" using that(3) child_write [OF c(1)] by simp
      then show ?thesis
        using Cons.IH [OF old [OF that(1,2,4)] c(2,4) _ json_ok_child [OF Cons.prems(5) that(2)] okc] Cons.prems(4) by simp
    qed
    then have "covers (Dirty (valueDirty n) (dirtyArray n) (filter (\<lambda>(s', _). s' \<noteq> s) (dirtyChildren n) @ [(s, mark_at p f ?c)]))
        b (write_child a s (put_path c p x'))"
      using Cons.prems(4) child_write_other [OF c(1,3)]
      by (intro covers_step [OF Cons.prems(1) False write_like [OF c(1)] c(3)]) auto
    with False c(1) show ?thesis by (simp add: Let_def)
  qed
qed

text \<open>A change that needs no mark because the node found at the path already covers it.\<close>

lemma covers_find:
  assumes "covers n b a" "findNode p n = Some m" "get_path a p = Some x" "normal_path a p" "isObj x" "isObj x'" "json_ok a"
    "\<And>b. covers m b x \<Longrightarrow> covers m b x'"
  shows "covers n b (put_path a p x')"
  using assms(1-4,7)
proof (induction p arbitrary: n b a)
  case Nil
  then show ?case using assms(8) by simp
next
  case (Cons s p)
  obtain c where c: "child a s = Some c" "get_path c p = Some x" "kind_seg a s" "normal_path c p"
    using Cons.prems by (auto simp: bind_eq_Some_conv split: option.splits)
  obtain d where d: "map_of (dirtyChildren n) s = Some d" "findNode p d = Some m"
    using Cons.prems(2) by (auto simp: bind_eq_Some_conv)
  have objc: "isObj c" using c(2,4) assms(5) kind_isObj by (cases p) auto
  have eq: "put_path a (s # p) x' = write_child a s (put_path c p x')" using c(1) by simp
  show ?case
  proof (cases "stops n")
    case True
    then show ?thesis by (rule covers.whole)
  next
    case False
    show ?thesis using Cons.prems(1) False
    proof (rule covers_parts)
      fix arr cs
      assume n: "n = Dirty False arr cs" "shape arr b a" "distinct (map fst cs)" "\<forall>s\<in>fst ` set cs. safe_seg s \<and> kind_seg b s"
        and none: "\<And>s. fits b s \<Longrightarrow> map_of cs s = None \<Longrightarrow> rel_option jsonEqual (child b s) (child a s)"
        and some: "\<And>s c b' a'. fits b s \<Longrightarrow> map_of cs s = Some c \<Longrightarrow> child b s = Some b' \<Longrightarrow> child a s = Some a' \<Longrightarrow>
          isObj b' \<Longrightarrow> isObj a' \<Longrightarrow> covers c b' a'"
      note kind = shape_kind [OF n(2)]
      have same: "child (write_child a s (put_path c p x')) s' = child a s'" if "fits b s'" "s' \<noteq> s" for s'
        using child_write_other [OF c(1,3)] fits_kind [OF that(1)] kind that(2) by simp
      have ds: "map_of cs s = Some d" using d(1) n(1) by simp
      have new: "covers d b' (put_path c p x')" if "fits b s" "child b s = Some b'" "isObj b'" for b'
        using Cons.IH [OF some [OF that(1) ds that(2) c(1) that(3) objc] d(2) c(2,4) json_ok_child [OF Cons.prems(5) c(1)]] .
      show ?thesis unfolding n(1) eq
      proof (rule covers.parts [OF shape_like [OF n(2) write_like [OF c(1)]] n(3,4)])
        show "\<forall>s'. fits b s' \<longrightarrow> map_of cs s' = None \<longrightarrow> rel_option jsonEqual (child b s') (child (write_child a s (put_path c p x')) s')"
          using none same ds by (metis option.distinct(1))
        show "\<forall>s' e b' y. fits b s' \<longrightarrow> map_of cs s' = Some e \<longrightarrow> child b s' = Some b' \<longrightarrow>
            child (write_child a s (put_path c p x')) s' = Some y \<longrightarrow> isObj b' \<longrightarrow> isObj y \<longrightarrow> covers e b' y"
          using some same ds new child_write [OF c(1)] by (metis option.inject)
      qed
    qed
  qed
qed

section \<open>What the marks achieve at a node\<close>

lemma mark_at_append: "mark_at (p @ q) f n = mark_at p (mark_at q f) n"
  by (induction p arbitrary: n) (auto simp: Let_def)

lemma covers_mark_value:
  assumes "covers n b a" "like a a'" "kind_seg a s" "safe_seg s" "\<And>s'. s' \<noteq> s \<Longrightarrow> kind_seg a s' \<Longrightarrow> child a' s' = child a s'"
  shows "covers (mark_at [s] mark_value n) b a'"
proof (cases "stops n")
  case True
  then show ?thesis by (simp add: covers.whole)
next
  case False
  have m: "covers (mark_value k) b' x" for k b' x by (rule covers.whole) (simp add: mark_value_def stops_def)
  from covers_step [OF assms(1) False assms(2-5) m] False show ?thesis by (simp add: Let_def)
qed

lemma covers_mark_diff: "covers (mark_diff n) b a"
  by (rule covers.whole) (simp add: mark_diff_def stops_def)

lemma covers_mark_replace: "covers (mark_replace n) b a"
  by (rule covers.whole) (simp add: mark_replace_def stops_def)

lemma covers_mark_append:
  assumes "covers n b (Arr ys)"
  shows "covers (mark_append (length ys) n) b (Arr (ys @ zs))"
proof (cases "stops n")
  case True
  then show ?thesis by (simp add: covers.whole mark_append_def)
next
  case False
  show ?thesis using assms False
  proof (rule covers_parts)
    fix arr cs
    assume n: "n = Dirty False arr cs" "shape arr b (Arr ys)" "distinct (map fst cs)" "\<forall>s\<in>fst ` set cs. safe_seg s \<and> kind_seg b s"
      and none: "\<And>s. fits b s \<Longrightarrow> map_of cs s = None \<Longrightarrow> rel_option jsonEqual (child b s) (child (Arr ys) s)"
      and some: "\<And>s c b' a'. fits b s \<Longrightarrow> map_of cs s = Some c \<Longrightarrow> child b s = Some b' \<Longrightarrow> child (Arr ys) s = Some a' \<Longrightarrow>
        isObj b' \<Longrightarrow> isObj a' \<Longrightarrow> covers c b' a'"
    obtain xs start where b: "b = Arr xs" "length xs \<le> length ys" "arr = None \<and> start = length ys \<or> arr = Some (Append start)" "length xs = start"
      using n(2) by (cases "(arr, b, Arr ys)" rule: shape.cases) auto
    have same: "child (Arr (ys @ zs)) s = child (Arr ys) s" if "fits b s" for s
      using that b(1,2) by (cases s) (auto simp: nth_append)
    have "covers (Dirty False (Some (Append start)) cs) b (Arr (ys @ zs))"
      by (rule covers.parts [OF _ n(3,4)]) (use b none some same in auto)
    with b(3) n(1) False show ?thesis by (auto simp: mark_append_def)
  qed
qed

lemma covers_tail:
  assumes "covers n b (Arr ys)" "dirtyArray n = Some (Append start)" "start \<le> length ys'" "take start ys' = take start ys"
  shows "covers n b (Arr ys')"
proof (cases "stops n")
  case True
  then show ?thesis by (rule covers.whole)
next
  case False
  show ?thesis using assms(1) False
  proof (rule covers_parts)
    fix arr cs
    assume n: "n = Dirty False arr cs" "shape arr b (Arr ys)" "distinct (map fst cs)" "\<forall>s\<in>fst ` set cs. safe_seg s \<and> kind_seg b s"
      and none: "\<And>s. fits b s \<Longrightarrow> map_of cs s = None \<Longrightarrow> rel_option jsonEqual (child b s) (child (Arr ys) s)"
      and some: "\<And>s c b' a'. fits b s \<Longrightarrow> map_of cs s = Some c \<Longrightarrow> child b s = Some b' \<Longrightarrow> child (Arr ys) s = Some a' \<Longrightarrow>
        isObj b' \<Longrightarrow> isObj a' \<Longrightarrow> covers c b' a'"
    have arr: "arr = Some (Append start)" using n(1) assms(2) by simp
    then obtain xs where b: "b = Arr xs" "length xs = start" "start \<le> length ys"
      using n(2) by (cases b) auto
    have same: "child (Arr ys') s = child (Arr ys) s" if "fits b s" for s
    proof (cases s)
      case (Idx i)
      with that b have "i < start" by simp
      with assms(4) have "ys' ! i = ys ! i" by (metis nth_take)
      with Idx b(3) assms(3) \<open>i < start\<close> show ?thesis by simp
    qed (use that b in simp)
    show ?thesis unfolding n(1) arr
      by (rule covers.parts [OF _ n(3,4)]) (use b none some same assms(3) in auto)
  qed
qed

section \<open>The invariant of the tracker\<close>

definition track_inv :: "tracker \<Rightarrow> bool" where
  "track_inv t \<longleftrightarrow> json_ok (t_root t) \<and> isObj (t_root t) \<and> \<not> valueDirty (pending t) \<and>
     (\<not> hasPending t \<longrightarrow> pending t = dirtyNode) \<and>
     (\<not> forceBase t \<longrightarrow> (\<exists>b. baseline t = Some b \<and> json_ok b \<and> isObj b \<and> covers (pending t) b (t_root t)))"

lemma mark_at_valueDirty: "(\<And>n. valueDirty (f n) = valueDirty n) \<Longrightarrow> valueDirty (mark_at p f n) = valueDirty n"
  by (cases p) (simp_all add: Let_def)

lemma mark_at_Cons_valueDirty: "p \<noteq> [] \<Longrightarrow> valueDirty (mark_at p f n) = valueDirty n"
  by (cases p) (simp_all add: Let_def)

lemma marks_valueDirty [simp]:
  "valueDirty (mark_append k n) = valueDirty n" "valueDirty (mark_diff n) = valueDirty n" "valueDirty (mark_replace n) = valueDirty n"
  by (auto simp: mark_append_def mark_diff_def mark_replace_def)

lemma put_isObj: "isObj a \<Longrightarrow> isObj x' \<Longrightarrow> isObj (put_path a p x')"
  by (cases p; cases a) (auto simp: write_child_def split: option.splits seg.splits)

lemma proxy_targetD:
  assumes "proxy_target t p = Inr x"
  shows "get_path (t_root t) p = Some x" "normal_path (t_root t) p" "safe_path p"
proof -
  have f: "find (\<lambda>s. \<not> safe_seg s) p = None" using assms by (auto simp: proxy_target_def split: option.splits)
  then show "safe_path p" by (simp add: safe_path_def find_None_iff list_all_iff)
  show "get_path (t_root t) p = Some x" "normal_path (t_root t) p"
    using assms f by (auto simp: proxy_target_def split: option.splits if_splits)
qed

text \<open>A marked change and a change without a mark keep the invariant.\<close>

lemma inv_mark:
  assumes "track_inv t" "proxy_target t p = Inr x" "isObj x" "isObj x'" "json_ok x'"
    "\<And>n. valueDirty (mark_at p f n) = valueDirty n" "\<And>n b. json_ok b \<Longrightarrow> covers n b x \<Longrightarrow> covers (f n) b x'"
  shows "track_inv (update_target p x' (mark p f t))"
proof -
  note x = proxy_targetD [OF assms(2)]
  have ok: "json_ok (put_path (t_root t) p x')" using assms(1,5) json_ok_put by (simp add: track_inv_def)
  have "covers (mark_at p f (pending t)) b (put_path (t_root t) p x')" if "covers (pending t) b (t_root t)" "json_ok b" for b
    by (rule covers_mark [OF that(1) x(1-3) that(2) _ assms(3,4)]) (use assms(1,7) in \<open>auto simp: track_inv_def\<close>)
  with assms(1,4,6) ok show ?thesis by (auto simp: track_inv_def update_target_def mark_def put_isObj)
qed

lemma inv_tail:
  assumes "track_inv t" "proxy_target t p = Inr (Arr ys)" "json_ok (Arr ys')" "tail_edit (appendStart p t) i"
    "\<And>start. start \<le> i \<Longrightarrow> start \<le> length ys' \<and> take start ys' = take start ys"
  shows "track_inv (update_target p (Arr ys') t)"
proof -
  note x = proxy_targetD [OF assms(2)]
  obtain m start where m: "findNode p (pending t) = Some m" "dirtyArray m = Some (Append start)" "start \<le> i"
    using assms(4) by (auto simp: tail_edit_def appendStart_def split: option.splits ArrayDirty.splits)
  have ok: "json_ok (put_path (t_root t) p (Arr ys'))" using assms(1,3) json_ok_put by (simp add: track_inv_def)
  have "covers (pending t) b (put_path (t_root t) p (Arr ys'))" if "covers (pending t) b (t_root t)" for b
    by (rule covers_find [OF that m(1) x(1,2)])
      (use assms(1,5) covers_tail [OF _ m(2)] m(3) in \<open>auto simp: track_inv_def\<close>)
  moreover have "hasPending t" using assms(1) m by (cases p) (auto simp: track_inv_def dirtyNode_def)
  ultimately show ?thesis using assms(1) ok by (auto simp: track_inv_def update_target_def put_isObj)
qed

lemma inv_same:
  assumes "track_inv t" "proxy_target t p = Inr x"
  shows "update_target p x t = t"
  using assms(1) proxy_targetD(1) [OF assms(2)] put_same [of "t_root t" p x]
  by (simp add: update_target_def track_inv_def)

lemma inv_append:
  assumes "track_inv t" "proxy_target t p = Inr (Arr ys)" "json_ok (Arr (ys @ zs))"
  shows "track_inv (update_target p (Arr (ys @ zs)) (markArrayAppend p (length ys) t))"
  unfolding markArrayAppend_def
  by (rule inv_mark [OF assms(1,2)]) (use assms(3) covers_mark_append in \<open>auto simp: mark_at_valueDirty\<close>)

lemma inv_diff:
  assumes "track_inv t" "proxy_target t p = Inr (Arr ys)" "json_ok (Arr ys')"
  shows "track_inv (update_target p (Arr ys') (markArrayDiff p t))"
  unfolding markArrayDiff_def
  by (rule inv_mark [OF assms(1,2)]) (use assms(3) covers_mark_diff in \<open>auto simp: mark_at_valueDirty\<close>)

lemma inv_replace:
  assumes "track_inv t" "proxy_target t p = Inr (Arr ys)" "json_ok (Arr ys')"
  shows "track_inv (update_target p (Arr ys') (markArrayReplace p t))"
  unfolding markArrayReplace_def
  by (rule inv_mark [OF assms(1,2)]) (use assms(3) covers_mark_replace in \<open>auto simp: mark_at_valueDirty\<close>)

lemma inv_value:
  assumes "track_inv t" "proxy_target t p = Inr x" "json_ok x'" "like x x'" "kind_seg x s" "safe_seg s"
    "\<And>s'. s' \<noteq> s \<Longrightarrow> kind_seg x s' \<Longrightarrow> child x' s' = child x s'"
  shows "track_inv (update_target p x' (markValue (p @ [s]) t))"
proof -
  have m: "markValue (p @ [s]) t = mark p (mark_at [s] mark_value) t"
    by (simp only: markValue_def mark_def mark_at_append)
  have o: "isObj x" "isObj x'" using assms(4) by (auto simp: like_def split: json.splits)
  show ?thesis unfolding m
    by (rule inv_mark [OF assms(1,2) o assms(3)])
      (use covers_mark_value [OF _ assms(4-7)] in \<open>auto simp: mark_at_append [symmetric] mark_at_Cons_valueDirty simp del: mark_at.simps\<close>)
qed

section \<open>Mutations keep the invariant\<close>

fun call_ok :: "array_call \<Rightarrow> bool" where
  "call_ok (Push items) = list_all json_ok items"
| "call_ok (Unshift items) = list_all json_ok items"
| "call_ok Pop = True"
| "call_ok Shift = True"
| "call_ok (Splice _ _ items) = list_all json_ok items"
| "call_ok (Permute g) = (\<forall>xs. list_all json_ok xs \<longrightarrow> list_all json_ok (g xs))"

lemma spliceRange_bounds: "spliceRange n start count = (i, r) \<Longrightarrow> i \<le> n \<and> i + r \<le> n"
proof -
  assume s: "spliceRange n start count = (i, r)"
  define a where "a = (case start of None \<Rightarrow> 0 | Some i \<Rightarrow> i)"
  define j where "j = (if a < 0 then max 0 (int n + a) else min a (int n))"
  define m where "m = (case start of None \<Rightarrow> 0 | Some _ \<Rightarrow>
    (case count of None \<Rightarrow> int n - j | Some d \<Rightarrow> max 0 (min d (int n - j))))"
  have "i = nat j" "r = nat m" using s unfolding spliceRange_def Let_def a_def [symmetric] j_def [symmetric] m_def [symmetric] by simp_all
  moreover have "0 \<le> j" "j \<le> int n" by (auto simp: j_def)
  moreover have "0 \<le> m" "m \<le> int n - j" using calculation(3,4) by (auto simp: m_def split: option.splits)
  ultimately show ?thesis by linarith
qed

lemma array_result_ok: "json_ok (Arr xs) \<Longrightarrow> call_ok c \<Longrightarrow> json_ok (Arr (array_result xs c))"
proof (cases c)
  case (Splice start count items)
  obtain i r where r: "spliceRange (length xs) start count = (i, r)" by fastforce
  show "json_ok (Arr xs) \<Longrightarrow> call_ok c \<Longrightarrow> ?thesis"
    using json_ok_splice [of xs items i r] by (simp add: Splice r array_result_def insert_chunks_eq js_splice_twice del: json_ok.simps)
next
  case Shift
  then show "json_ok (Arr xs) \<Longrightarrow> call_ok c \<Longrightarrow> ?thesis" by (cases xs) (simp_all add: array_result_def)
qed (auto simp: array_result_def insert_chunks_eq js_splice_def list_all_iff dest: in_set_butlastD)

lemma call_array_inv:
  assumes "track_inv t" "call_ok c" "call_array p c t = Inr t'"
  shows "track_inv t'"
proof -
  obtain xs where x: "proxy_target t p = Inr (Arr xs)"
    and t': "t' = update_target p (Arr (array_result xs c)) (array_marks p (length xs) c t)"
  proof -
    obtain v where v: "proxy_target t p = Inr v" using assms(3) by (cases "proxy_target t p") (simp_all add: call_array_def)
    with assms(3) that show ?thesis by (cases v) (auto simp: call_array_def)
  qed
  have okx: "json_ok (Arr xs)"
    using json_ok_get [OF _ proxy_targetD(1) [OF x]] assms(1) by (simp add: track_inv_def)
  note ok = array_result_ok [OF okx assms(2)]
  note same = inv_same [OF assms(1) x]
  note diff = inv_diff [OF assms(1) x ok]
  show ?thesis
  proof (cases c)
    case (Push items)
    then have r: "array_result xs c = xs @ items" by (simp add: array_result_def insert_chunks_eq js_splice_def)
    from inv_append [OF assms(1) x ok [unfolded r]] same assms(1) show ?thesis
      unfolding t' r by (cases "items = []") (simp_all add: array_marks_def Push)
  next
    case (Unshift items)
    then have "array_result xs c = items @ xs" by (simp add: array_result_def insert_chunks_eq js_splice_def)
    with diff same assms(1) show ?thesis unfolding t' by (cases "items = []") (simp_all add: array_marks_def Unshift)
  next
    case Pop
    then have r: "array_result xs c = butlast xs" by (simp add: array_result_def)
    show ?thesis
    proof (cases "xs = []")
      case True
      with r same assms(1) show ?thesis unfolding t' by (simp add: array_marks_def Pop)
    next
      case False
      have "track_inv (update_target p (Arr (butlast xs)) t)" if "tail_edit (appendStart p t) (length xs - 1)"
        by (rule inv_tail [OF assms(1) x _ that]) (use ok r in \<open>auto simp: butlast_conv_take\<close>)
      with diff r False show ?thesis unfolding t' by (auto simp: array_marks_def Pop)
    qed
  next
    case Shift
    with diff same assms(1) show ?thesis unfolding t' by (cases xs) (auto simp: array_marks_def array_result_def)
  next
    case (Splice start count items)
    obtain i r where ir: "spliceRange (length xs) start count = (i, r)" by fastforce
    note bounds = spliceRange_bounds [OF ir]
    have res: "array_result xs c = js_splice xs i r items"
      by (simp add: Splice ir array_result_def insert_chunks_eq js_splice_twice)
    consider (none) "r = 0" "items = []" | (all) "r > 0 \<or> items \<noteq> []" "i = 0" "r = length xs"
      | (tail) "r > 0 \<or> items \<noteq> []" "\<not> (i = 0 \<and> r = length xs)" "tail_edit (appendStart p t) i"
      | (app) "items \<noteq> []" "\<not> (i = 0 \<and> r = length xs)" "\<not> tail_edit (appendStart p t) i" "i = length xs" "r = 0"
      | (other) "r > 0 \<or> items \<noteq> []" "\<not> (i = 0 \<and> r = length xs)" "\<not> tail_edit (appendStart p t) i" "\<not> (i = length xs \<and> r = 0)"
      by blast
    then show ?thesis
    proof cases
      case none
      with same assms(1) res show ?thesis unfolding t' by (simp add: array_marks_def Splice ir)
    next
      case all
      with inv_replace [OF assms(1) x ok] show ?thesis unfolding t' by (auto simp: array_marks_def Splice ir)
    next
      case tail
      have "track_inv (update_target p (Arr (js_splice xs i r items)) t)"
        by (rule inv_tail [OF assms(1) x _ tail(3)]) (use ok res bounds in \<open>auto simp: js_splice_def min_def\<close>)
      with tail res show ?thesis unfolding t' by (auto simp: array_marks_def Splice ir)
    next
      case app
      then have "js_splice xs i r items = xs @ items" by (simp add: js_splice_def)
      with inv_append [OF assms(1) x, of items] ok res app show ?thesis unfolding t' by (auto simp: array_marks_def Splice ir)
    next
      case other
      with diff show ?thesis unfolding t' by (auto simp: array_marks_def Splice ir)
    qed
  next
    case (Permute g)
    with diff show ?thesis unfolding t' by (simp add: array_marks_def)
  qed
qed

lemma set_length_inv:
  assumes "track_inv t" "set_length p n t = Inr t'"
  shows "track_inv t'"
proof -
  obtain xs where x: "proxy_target t p = Inr (Arr xs)"
  proof -
    obtain v where v: "proxy_target t p = Inr v" using assms(2) by (cases "proxy_target t p") (simp_all add: set_length_def)
    with assms(2) that show ?thesis by (cases v) (auto simp: set_length_def)
  qed
  have okx: "json_ok (Arr xs)"
    using json_ok_get [OF _ proxy_targetD(1) [OF x]] assms(1) by (simp add: track_inv_def)
  then have take_ok: "json_ok (Arr (take n xs))" and app_ok: "json_ok (Arr (xs @ replicate (n - length xs) Null))"
    by (auto dest: in_set_takeD)
  have tail: "track_inv (update_target p (Arr (take n xs)) t)" if "tail_edit (appendStart p t) n" "n < length xs"
    by (rule inv_tail [OF assms(1) x take_ok that(1)]) (use that(2) in \<open>auto simp: min_absorb1\<close>)
  from assms x tail inv_replace [OF assms(1) x take_ok] inv_diff [OF assms(1) x take_ok] inv_append [OF assms(1) x app_ok]
  show ?thesis by (auto simp: set_length_def Let_def split: if_splits)
qed

lemma set_key_inv:
  assumes "track_inv t" "\<forall>w. v = Some w \<longrightarrow> json_ok w" "set_key p s v t = Inr t'"
  shows "track_inv t'"
proof -
  obtain x where x: "proxy_target t p = Inr x" using assms(3) by (cases "proxy_target t p") (simp_all add: set_key_def)
  have okx: "json_ok x" using json_ok_get [OF _ proxy_targetD(1) [OF x]] assms(1) by (simp add: track_inv_def)
  have safe: "safe_seg s" using assms(3) x by (auto simp: set_key_def split: if_splits)
  consider (arr) xs i w where "x = Arr xs" "s = Idx i" "i \<le> length xs" "v = Some w"
    | (obj) ps k where "x = Obj ps" "s = Key k"
    using assms(3) x safe by (cases x; cases s; cases v) (auto simp: set_key_def split: if_splits)
  then show ?thesis
  proof cases
    case arr
    have okw: "json_ok w" using assms(2) arr(4) by simp
    have okn: "json_ok (write_child x s w)" by (rule json_ok_write [OF okx okw])
    consider (same) "i < length xs" "t' = t" | (new) "i = length xs" | (old) "i < length xs" "t' \<noteq> t" using arr(3) by linarith
    then show ?thesis
    proof cases
      case same
      with assms(1) show ?thesis by simp
    next
      case new
      then have wr: "write_child x s w = Arr (xs @ [w])" using arr(1,2) by (simp add: write_child_def)
      from inv_append [OF assms(1) x [unfolded arr(1)] okn [unfolded wr]] show ?thesis
        using assms(3) x safe arr(1,2,4) new wr by (simp add: set_key_def Let_def)
    next
      case old
      have wr: "write_child x s w = Arr (xs[i := w])" using arr(1,2) old by (simp add: write_child_def)
      have l: "like x (Arr (xs[i := w]))" "kind_seg x s" using arr by (simp_all add: like_def)
      have o: "child (Arr (xs[i := w])) s' = child x s'" if "s' \<noteq> s" for s' using that arr by (cases s') (auto simp: child_def)
      have "track_inv (update_target p (Arr (xs[i := w])) (markValue (p @ [s]) t))"
        by (rule inv_value [OF assms(1) x okn [unfolded wr] l safe o])
      moreover have "track_inv (update_target p (Arr (xs[i := w])) t)" if "tail_edit (appendStart p t) i"
        by (rule inv_tail [OF assms(1) x [unfolded arr(1)] okn [unfolded wr] that]) (use old in auto)
      ultimately show ?thesis using assms(3) x safe arr old wr by (auto simp: set_key_def Let_def split: if_splits)
    qed
  next
    case obj
    have l: "like x (Obj qs)" "kind_seg x s" for qs using obj by (simp_all add: like_def)
    have o: "child (Obj (obj_delete k ps)) s' = child x s'" "child (Obj (obj_put k w ps)) s' = child x s'"
      if "s' \<noteq> s" "kind_seg x s'" for s' w using that obj by (cases s'; auto)+
    have del: "track_inv (update_target p (Obj (obj_delete k ps)) (markValue (p @ [s]) t))"
      by (rule inv_value [OF assms(1) x _ l safe o(1)]) (use json_ok_delete okx obj in auto)
    have put: "track_inv (update_target p (Obj (obj_put k w ps)) (markValue (p @ [s]) t))" if "json_ok w" for w
      by (rule inv_value [OF assms(1) x _ l safe o(2)]) (use json_ok_write [OF okx that, of s] obj in auto)
    show ?thesis
    proof (cases v)
      case None
      with assms(3) x safe obj del show ?thesis by (simp add: set_key_def)
    next
      case (Some w)
      with assms x safe obj put [of w] show ?thesis by (auto simp: set_key_def split: if_splits option.splits)
    qed
  qed
qed

lemma delete_key_inv:
  assumes "track_inv t" "delete_key p s t = Inr t'"
  shows "track_inv t'"
proof -
  have "set_key p s None t = Inr t'"
    using assms(2) by (cases "proxy_target t p") (auto simp: delete_key_def set_key_def split: json.splits seg.splits if_splits)
  from set_key_inv [OF assms(1) _ this] show ?thesis by simp
qed

section \<open>Flushing a covered value\<close>

lemma diffValue_shift:
  "isObj b \<Longrightarrow> diffValue (Some b) (Some a) (p @ path) scan = map (op_prefix p) (diffValue (Some b) (Some a) path scan)"
  using diff_shift(1) [of path "Some b" "Some a" p scan] diff_shift(2,4) [of _ _ p "[]" scan] emitSet_shift [of p "[]"]
  by (cases path; cases b; cases a) auto

lemma walk_shift:
  "isObj b \<Longrightarrow> walkDirty b a n (p @ path) scan = map (op_prefix p) (walkDirty b a n path scan)"
  "walk_children b a limit cs (p @ path) scan = map (op_prefix p) (walk_children b a limit cs path scan)"
proof (induction b a n path scan and b a limit cs path scan rule: walkDirty_walk_children.induct)
  case (1 before after vd arr children path scan)
  note d = diffValue_shift [OF "1.prems", of after p path scan]
  show ?case
  proof (cases vd)
    case False
    show ?thesis
    proof (cases arr)
      case None
      with False "1.IH" show ?thesis by simp
    next
      case (Some k)
      show ?thesis
      proof (cases k)
        case (Append start)
        with Some False d "1.IH" show ?thesis by (cases before; cases after) auto
      qed (use Some False d in \<open>simp_all add: emitSet_shift\<close>)
    qed
  qed (use d in simp)
next
  case (3 before after limit s c children path scan)
  have d: "diffValue x y (p @ path @ [s]) scan = map (op_prefix p) (diffValue x y (path @ [s]) scan)" for x y
    by (rule diff_shift(1)) simp
  from 3 d show ?case
    by (auto split: option.splits)
qed simp

lemma own_child: "kind_seg v s \<Longrightarrow> ownValue v s = child v s"
  by (cases "(v, s)" rule: kind_seg.cases) (auto simp: ownValue_def child_def)

lemma like_kind: "like v w \<Longrightarrow> kind_seg w s = kind_seg v s"
  by (cases s) (auto simp: like_def split: json.splits)

lemma like_trans: "like u v \<Longrightarrow> like v w \<Longrightarrow> like u w"
  by (auto simp: like_def split: json.splits)

lemma like_isObj: "like v w \<Longrightarrow> isObj v \<and> isObj w"
  by (auto simp: like_def split: json.splits)

definition flush_ok :: "nat \<Rightarrow> DirtyNode \<Rightarrow> json \<Rightarrow> json \<Rightarrow> bool" where
  "flush_ok scan n b a \<longleftrightarrow>
     (\<exists>r. applyOps (Some b) (walkDirty b a n [] scan) = Inr (Some r) \<and> jsonEqual r a \<and> json_ok r)"

definition child_ops :: "json \<Rightarrow> json \<Rightarrow> seg \<Rightarrow> DirtyNode \<Rightarrow> nat \<Rightarrow> op list" where
  "child_ops b a s c scan =
     (case (child b s, child a s) of
        (Some b', Some a') \<Rightarrow>
          if \<not> valueDirty c \<and> isObj b' \<and> isObj a' then walkDirty b' a' c [s] scan
          else diffValue (Some b') (Some a') [s] scan
      | (b', a') \<Rightarrow> diffValue b' a' [s] scan)"

definition child_synced :: "json \<Rightarrow> json \<Rightarrow> seg \<Rightarrow> json \<Rightarrow> json \<Rightarrow> bool" where
  "child_synced b a s cur cur' \<longleftrightarrow> json_ok cur' \<and> like b cur' \<and> rel_option jsonEqual (child cur' s) (child a s) \<and>
     (\<forall>s'. s' \<noteq> s \<longrightarrow> kind_seg b s' \<longrightarrow> child cur' s' = child cur s')"

lemma synced_write:
  assumes "json_ok cur" "like b cur" "kind_seg b s" "child cur s \<noteq> None \<or> (\<exists>qs. cur = Obj qs)"
    "child a s = Some a'" "jsonEqual r a'" "json_ok r"
  shows "child_synced b a s cur (write_child cur s r)"
proof -
  have k: "kind_seg cur s" using like_kind [OF assms(2)] assms(3) by simp
  have l: "like cur (write_child cur s r) \<and> child (write_child cur s r) s = Some r \<and>
      (\<forall>s'. s' \<noteq> s \<longrightarrow> kind_seg cur s' \<longrightarrow> child (write_child cur s r) s' = child cur s')"
  proof (cases cur)
    case (Obj qs)
    then obtain q where "s = Key q" using k by (cases s) auto
    moreover have "child (write_child cur s r) s' = child cur s'" if "s' \<noteq> s" "kind_seg cur s'" for s'
      using that Obj \<open>s = Key q\<close> by (cases s') auto
    ultimately show ?thesis using Obj by (simp add: like_def)
  next
    case (Arr xs)
    then obtain i where i: "s = Idx i" "i < length xs" using k assms(4) by (cases s) (auto split: if_splits)
    have "child (write_child cur s r) s' = child cur s'" if "s' \<noteq> s" "kind_seg cur s'" for s'
      using that Arr i by (cases s') (auto simp: write_Arr)
    then show ?thesis using Arr i by (simp add: like_def write_Arr)
  qed (use k in auto)
  show ?thesis unfolding child_synced_def
    using l json_ok_write [OF assms(1,7), of s] like_trans [OF assms(2)] like_kind [OF assms(2)] assms(5,6) by simp
qed

lemma synced_delete:
  assumes "json_ok (Obj qs)" "like b (Obj qs)" "child a (Key k) = None"
  shows "child_synced b a (Key k) (Obj qs) (Obj (obj_delete k qs))"
proof -
  have "child (Obj (obj_delete k qs)) s' = child (Obj qs) s'" if "s' \<noteq> Key k" "kind_seg b s'" for s'
    using that like_kind [OF assms(2), of s'] by (cases s') auto
  with assms json_ok_delete [OF assms(1)] show ?thesis
    by (auto simp: child_synced_def like_def split: json.splits simp del: json_ok.simps)
qed

lemma walk_step:
  assumes "json_ok cur" "json_ok b" "json_ok a" "like b cur" "kind_seg b s" "safe_seg s" "child cur s = child b s"
    "\<And>xs. b = Arr xs \<Longrightarrow> child b s = None \<longleftrightarrow> child a s = None"
    "\<And>b' a'. child b s = Some b' \<Longrightarrow> child a s = Some a' \<Longrightarrow> isObj b' \<Longrightarrow> isObj a' \<Longrightarrow> \<not> valueDirty c \<Longrightarrow> flush_ok scan c b' a'"
  shows "\<exists>cur'. applyOps (Some cur) (child_ops b a s c scan) = Inr (Some cur') \<and> child_synced b a s cur cur'"
proof -
  have k: "kind_seg cur s" using like_kind [OF assms(4)] assms(5) by simp
  have obj: "\<exists>qs. cur = Obj qs" if "child b s = None" "child a s \<noteq> None \<or> child b s \<noteq> None"
    using that assms(4,8) by (cases b; cases cur) (auto simp: like_def)
  consider (nn) "child b s = None" "child a s = None" | (ns) a' where "child b s = None" "child a s = Some a'"
    | (sn) b' where "child b s = Some b'" "child a s = None" | (ss) b' a' where "child b s = Some b'" "child a s = Some a'"
    by fastforce
  then show ?thesis
  proof cases
    case nn
    with assms show ?thesis by (auto simp: child_ops_def child_synced_def)
  next
    case ns
    with obj obtain qs where qs: "cur = Obj qs" by auto
    then obtain q where s: "s = Key q" using k by (cases s) auto
    have ok: "json_ok a'" using json_ok_child [OF assms(3) ns(2)] .
    have "applyOp (Some cur) (OpS [s] a') = Inr (Some (write_child cur s a'))"
      by (rule apply_child_op [where s = s]) (use assms(6) qs in \<open>simp_all add: child_op_def check_key_def\<close>)
    moreover have "child_synced b a s cur (write_child cur s a')"
      by (rule synced_write [OF assms(1,4,5) _ ns(2) jsonEqual_refl [OF ok] ok]) (use qs in simp)
    ultimately show ?thesis using ns by (simp add: child_ops_def emitSet_def)
  next
    case sn
    then have "\<exists>qs. cur = Obj qs" using assms(4,8) by (cases b; cases cur) (auto simp: like_def)
    then obtain qs q where qs: "cur = Obj qs" "s = Key q" using k by (cases s) auto
    have "applyOp (Some cur) (OpD [s]) = Inr (Some (Obj (obj_delete q qs)))"
      by (rule apply_child_op [where s = s]) (use assms(6) qs in \<open>simp_all add: child_op_def check_key_def delete_child_def\<close>)
    with sn synced_delete [of qs b a q] assms(1,4) qs show ?thesis by (auto simp: child_ops_def emitDelete_def)
  next
    case ss
    have ok: "json_ok a'" using json_ok_child [OF assms(3) ss(2)] .
    have cur: "child cur s = Some b'" using assms(7) ss(1) by simp
    have "\<exists>r. applyOps (Some cur) (child_ops b a s c scan) = Inr (Some (write_child cur s r)) \<and> jsonEqual r a' \<and> json_ok r"
    proof (cases "\<not> valueDirty c \<and> isObj b' \<and> isObj a'")
      case True
      with assms(9) [OF ss] obtain r where r: "applyOps (Some b') (walkDirty b' a' c [] scan) = Inr (Some r)" "jsonEqual r a'" "json_ok r"
        by (auto simp: flush_ok_def simp del: jsonEqual_simps)
      have "applyOps (Some cur) (map (op_prefix [s]) (walkDirty b' a' c [] scan)) = Inr (Some (put_path cur [s] r))"
        by (rule applyOps_prefix [OF _ _ r(1)]) (use cur assms(1,6) write_same [OF assms(1) cur] in auto)
      with True r ss cur walk_shift(1) [of b' a' c "[s]" "[]" scan] show ?thesis
        by (auto simp: child_ops_def simp del: jsonEqual_simps)
    next
      case False
      have "child_ops b a s c scan = diffValue (Some b') (Some a') [s] scan"
        using False ss by (auto simp: child_ops_def)
      moreover obtain r where "applyOps (Some cur) (diffValue (Some b') (Some a') [s] scan) = Inr (Some (write_child cur s r))"
          "jsonEqual r a'" "json_ok r"
        by (rule child_diff_okD [OF child_diff_ok assms(1) ok cur assms(6)])
      ultimately show ?thesis by auto
    qed
    then obtain r where r: "applyOps (Some cur) (child_ops b a s c scan) = Inr (Some (write_child cur s r))" "jsonEqual r a'" "json_ok r"
      by blast
    have "child_synced b a s cur (write_child cur s r)"
      by (rule synced_write [OF assms(1,4,5) _ ss(2) r(2,3)]) (use cur in simp)
    with r(1) show ?thesis by blast
  qed
qed

definition active :: "nat option \<Rightarrow> seg \<Rightarrow> bool" where
  "active limit s = (case limit of None \<Rightarrow> True | Some start \<Rightarrow> (case s of Idx i \<Rightarrow> i < start | Key _ \<Rightarrow> False))"

text \<open>What a loop over the children has brought in line, and what it has left alone.\<close>

definition synced :: "json \<Rightarrow> json \<Rightarrow> nat option \<Rightarrow> seg set \<Rightarrow> json \<Rightarrow> json \<Rightarrow> bool" where
  "synced b a limit S cur cur' \<longleftrightarrow> json_ok cur' \<and> like b cur' \<and>
     (\<forall>s\<in>S. active limit s \<longrightarrow> rel_option jsonEqual (child cur' s) (child a s)) \<and>
     (\<forall>s. kind_seg b s \<longrightarrow> s \<notin> S \<or> \<not> active limit s \<longrightarrow> child cur' s = child cur s)"

lemma synced_step:
  assumes "child_synced b a s cur cur1" "synced b a limit S cur1 cur2" "s \<notin> S" "kind_seg b s" "active limit s"
  shows "synced b a limit (insert s S) cur cur2"
  using assms unfolding child_synced_def synced_def by auto

lemma synced_skip:
  "synced b a limit S cur cur2 \<Longrightarrow> \<not> active limit s \<Longrightarrow> synced b a limit (insert s S) cur cur2"
  unfolding synced_def by auto

lemma walk_children_ok:
  assumes "json_ok cur" "json_ok b" "json_ok a" "like b cur" "distinct (map fst cs)"
    "\<forall>(s, c)\<in>set cs. safe_seg s \<and> kind_seg b s \<and> kind_seg a s \<and> child cur s = child b s"
    "\<And>s xs. active limit s \<Longrightarrow> b = Arr xs \<Longrightarrow> child b s = None \<longleftrightarrow> child a s = None"
    "\<And>s c b' a'. (s, c) \<in> set cs \<Longrightarrow> active limit s \<Longrightarrow> child b s = Some b' \<Longrightarrow> child a s = Some a' \<Longrightarrow>
       isObj b' \<Longrightarrow> isObj a' \<Longrightarrow> \<not> valueDirty c \<Longrightarrow> flush_ok scan c b' a'"
  shows "\<exists>cur'. applyOps (Some cur) (walk_children b a limit cs [] scan) = Inr (Some cur') \<and>
    synced b a limit (fst ` set cs) cur cur'"
  using assms(1,4-6,8)
proof (induction cs arbitrary: cur)
  case Nil
  then show ?case by (simp add: synced_def)
next
  case (Cons p cs)
  obtain s c where p: "p = (s, c)" by (cases p)
  have s: "safe_seg s" "kind_seg b s" "kind_seg a s" "child cur s = child b s" using Cons.prems(4) p by auto
  have new: "s \<notin> fst ` set cs" using Cons.prems(3) p by auto
  have ops: "walk_children b a limit (p # cs) [] scan =
      (if active limit s then child_ops b a s c scan else []) @ walk_children b a limit cs [] scan"
    using own_child [OF s(2)] own_child [OF s(3)] by (cases "child b s"; cases "child a s") (simp_all add: p active_def child_ops_def)
  show ?case
  proof (cases "active limit s")
    case True
    have "\<exists>cur1. applyOps (Some cur) (child_ops b a s c scan) = Inr (Some cur1) \<and> child_synced b a s cur cur1"
      by (rule walk_step [OF Cons.prems(1) assms(2,3) Cons.prems(2) s(2,1,4) assms(7) [OF True] Cons.prems(5) [OF _ True]])
        (simp_all add: p)
    then obtain cur1 where c1: "applyOps (Some cur) (child_ops b a s c scan) = Inr (Some cur1)" "child_synced b a s cur cur1" by blast
    have keep: "child cur1 s' = child b s'" if "(s', d) \<in> set cs" for s' d
      using c1(2) Cons.prems(4) that new by (force simp: child_synced_def)
    have "\<exists>cur'. applyOps (Some cur1) (walk_children b a limit cs [] scan) = Inr (Some cur') \<and> synced b a limit (fst ` set cs) cur1 cur'"
      by (rule Cons.IH) (use c1(2) Cons.prems(3,4,5) keep in \<open>auto simp: child_synced_def\<close>)
    then obtain cur2 where c2: "applyOps (Some cur1) (walk_children b a limit cs [] scan) = Inr (Some cur2)" "synced b a limit (fst ` set cs) cur1 cur2"
      by blast
    have "synced b a limit (fst ` set (p # cs)) cur cur2"
      using synced_step [OF c1(2) c2(2) new s(2) True] by (simp add: p)
    with ops True c1(1) c2(1) show ?thesis by (simp add: applyOps_append)
  next
    case False
    have "\<exists>cur'. applyOps (Some cur) (walk_children b a limit cs [] scan) = Inr (Some cur') \<and> synced b a limit (fst ` set cs) cur cur'"
      by (rule Cons.IH) (use Cons.prems in auto)
    with ops False synced_skip [OF _ False] p show ?thesis by auto
  qed
qed

lemma jsonEqual_childwise:
  assumes "json_ok v" "json_ok a" "like v a" "\<And>s. kind_seg v s \<Longrightarrow> rel_option jsonEqual (child v s) (child a s)"
  shows "jsonEqual v a"
proof (cases v)
  case (Obj ps)
  then obtain qs where a: "a = Obj qs" using assms(3) by (cases a) (auto simp: like_def)
  have "rel_option jsonEqual (map_of ps k) (map_of qs k)" for k using assms(4) [of "Key k"] Obj a by simp
  then show ?thesis using jsonEqual_Obj [of ps qs] assms(1,2) Obj a by (simp add: own_keys_distinct del: jsonEqual_simps)
next
  case (Arr xs)
  then obtain ys where a: "a = Arr ys" "length xs = length ys" using assms(3) by (cases a) (auto simp: like_def)
  have "jsonEqual (xs ! i) (ys ! i)" if "i < length xs" for i using assms(4) [of "Idx i"] that Arr a by simp
  with Arr a show ?thesis by (simp add: list_all2_conv_all_nth)
qed (use assms(3) in \<open>auto simp: like_def\<close>)

text \<open>
  A loop over all children of a covered node: for an array under an append, the base elements are in line
  afterwards.
\<close>

lemma synced_parts:
  assumes "shape arr b a" "json_ok a"
    "\<And>s. fits b s \<Longrightarrow> map_of cs s = None \<Longrightarrow> rel_option jsonEqual (child b s) (child a s)"
    "synced b a limit (fst ` set cs) b cur" "limit = (case arr of Some (Append start) \<Rightarrow> Some start | _ \<Rightarrow> None)"
  shows "case arr of
      None \<Rightarrow> jsonEqual cur a
    | Some _ \<Rightarrow> \<exists>zs ys start. cur = Arr zs \<and> a = Arr ys \<and> length zs = start \<and> arr = Some (Append start) \<and> start \<le> length ys \<and>
        list_all2 jsonEqual (zs @ drop start ys) ys"
proof -
  have cur: "json_ok cur" "like b cur" using assms(4) by (simp_all add: synced_def)
  have rel: "rel_option jsonEqual (child cur s) (child a s)" if "fits b s" for s
  proof -
    have act: "active limit s" using that assms(1,5)
      by (cases "(arr, b, a)" rule: shape.cases; cases s) (auto simp: active_def)
    show ?thesis
    proof (cases "map_of cs s")
      case None
      then have "s \<notin> fst ` set cs" by (simp add: map_of_eq_None_iff)
      with assms(3) [OF that None] assms(4) fits_kind [OF that] show ?thesis by (simp add: synced_def)
    next
      case (Some c)
      then have "s \<in> fst ` set cs" by (metis map_of_SomeD fst_conv image_eqI)
      with assms(4) act show ?thesis unfolding synced_def by blast
    qed
  qed
  show ?thesis
  proof (cases "(arr, b, a)" rule: shape.cases)
    case (1 ps qs)
    then obtain rs where r: "cur = Obj rs" using cur(2) by (cases cur) (auto simp: like_def)
    have "rel_option jsonEqual (child cur s) (child a s)" if "kind_seg cur s" for s
      using that rel [of s] 1 r by (cases s) auto
    from jsonEqual_childwise [OF cur(1) assms(2) _ this] 1 r show ?thesis by (simp add: like_def del: jsonEqual_simps)
  next
    case (2 xs ys)
    then obtain zs where z: "cur = Arr zs" "length zs = length ys" using cur(2) assms(1) by (cases cur) (auto simp: like_def)
    have "jsonEqual (zs ! i) (ys ! i)" if "i < length ys" for i using rel [of "Idx i"] that 2 z assms(1) by simp
    with 2 z show ?thesis by (simp add: list_all2_conv_all_nth)
  next
    case (3 start xs ys)
    then obtain zs where z: "cur = Arr zs" "length zs = start" "start \<le> length ys" using cur(2) assms(1) by (cases cur) (auto simp: like_def)
    have "jsonEqual (zs ! i) (ys ! i)" if "i < start" for i using rel [of "Idx i"] that 3 z assms(1) by simp
    then have "list_all2 jsonEqual zs (take start ys)" using z by (simp add: list_all2_conv_all_nth)
    then have "list_all2 jsonEqual (zs @ drop start ys) (take start ys @ drop start ys)"
      using list_jsonEqual_refl [of ys] assms(2) 3 by (intro list_all2_appendI list_all2_dropI) auto
    with 3 z show ?thesis by simp
  qed (use assms(1) in auto)
qed

lemma walk_ok: "covers n b a \<Longrightarrow> json_ok b \<Longrightarrow> json_ok a \<Longrightarrow> isObj b \<Longrightarrow> isObj a \<Longrightarrow> flush_ok scan n b a"
proof (induction rule: covers.induct)
  case (whole n b a)
  have diff: "\<exists>r. applyOps (Some b) (diffValue (Some b) (Some a) [] scan) = Inr (Some r) \<and> jsonEqual r a \<and> json_ok r"
    by (rule diff_root_ok [OF whole(2,3)])
  obtain vd arr cs where n: "n = Dirty vd arr cs" by (cases n)
  consider "vd \<or> arr = Some Diff" | "\<not> vd" "arr = Some Replace" using whole(1) n by (auto simp: stops_def)
  then show ?case
  proof cases
    case 1
    with diff n show ?thesis by (cases vd) (auto simp: flush_ok_def simp del: jsonEqual_simps)
  next
    case 2
    with n whole(2,3) jsonEqual_refl [OF whole(3)] show ?thesis
      by (auto simp: flush_ok_def emitSet_def simp del: jsonEqual_simps)
  qed
next
  case (parts arr b a cs)
  let ?limit = "case arr of Some (Append start) \<Rightarrow> Some start | _ \<Rightarrow> None"
  note kind = shape_kind [OF parts(1)]
  have arrs: "child b s = None \<longleftrightarrow> child a s = None" if "active ?limit s" "b = Arr xs" for s xs
    using that parts(1) by (cases "(arr, b, a)" rule: shape.cases; cases s) (auto simp: active_def child_def)
  have kids: "flush_ok scan c b' a'"
    if "(s, c) \<in> set cs" "child b s = Some b'" "child a s = Some a'" "isObj b'" "isObj a'" for s c b' a'
  proof -
    have "kind_seg b s" using parts(3) that(1) by force
    then have "fits b s" using that(2) by (cases "(b, s)" rule: kind_seg.cases) (auto split: if_splits)
    moreover have "map_of cs s = Some c" using parts(2) that(1) by simp
    ultimately show ?thesis
      using parts(5) that json_ok_child [OF parts(6) that(2)] json_ok_child [OF parts(7) that(3)] by blast
  qed
  have self: "like b b" using parts(8) by (cases b) (auto simp: like_def)
  have "\<exists>cur. applyOps (Some b) (walk_children b a ?limit cs [] scan) = Inr (Some cur) \<and> synced b a ?limit (fst ` set cs) b cur"
    by (rule walk_children_ok [OF parts(6,6,7) self parts(2)]) (use parts(3) kind arrs kids in auto)
  then obtain cur where cur: "applyOps (Some b) (walk_children b a ?limit cs [] scan) = Inr (Some cur)" "synced b a ?limit (fst ` set cs) b cur"
    by blast
  note res = synced_parts [OF parts(1,7) _ cur(2) refl]
  have ok: "json_ok cur" using cur(2) by (simp add: synced_def)
  show ?case
  proof (cases arr)
    case None
    with res parts(4) cur(1) ok show ?thesis by (auto simp: flush_ok_def simp del: jsonEqual_simps)
  next
    case (Some k)
    with res parts(4) obtain zs ys start where z: "cur = Arr zs" "a = Arr ys" "length zs = start" "k = Append start" "start \<le> length ys"
        "list_all2 jsonEqual (zs @ drop start ys) ys" by auto
    obtain xs where xs: "b = Arr xs" "length xs = start" using parts(1) Some z by (cases b) auto
    have "applyOp (Some cur) (OpP [] start 0 (drop start ys)) = Inr (Some (Arr (zs @ drop start ys)))"
      using z by (simp add: applyOp_P js_splice_def)
    moreover have "json_ok (Arr (zs @ drop start ys))" using ok parts(7) z by (auto dest: in_set_dropD)
    ultimately show ?thesis using cur(1) z xs Some
      by (cases "drop start ys = []") (auto simp: flush_ok_def applyOps_append)
  qed
qed

section \<open>The shared baseline\<close>

lemma sync_children_ok:
  assumes "json_ok cur" "json_ok b" "json_ok a" "like b cur" "distinct (map fst cs)"
    "\<forall>(s, c)\<in>set cs. kind_seg b s \<and> kind_seg a s \<and> child cur s = child b s"
    "\<And>s xs. active limit s \<Longrightarrow> b = Arr xs \<Longrightarrow> child b s = None \<longleftrightarrow> child a s = None"
    "\<And>s c b' a'. (s, c) \<in> set cs \<Longrightarrow> active limit s \<Longrightarrow> child b s = Some b' \<Longrightarrow> child a s = Some a' \<Longrightarrow> same_kind a' b' \<Longrightarrow>
       \<not> valueDirty c \<Longrightarrow> jsonEqual (syncInto b' a' c) a' \<and> json_ok (syncInto b' a' c)"
  shows "synced b a limit (fst ` set cs) cur (sync_children cur a limit cs)"
  using assms(1,4-6,8)
proof (induction cs arbitrary: cur)
  case Nil
  then show ?case by (simp add: synced_def)
next
  case (Cons p cs)
  obtain s c where p: "p = (s, c)" by (cases p)
  have s: "kind_seg b s" "kind_seg a s" "child cur s = child b s" "kind_seg cur s"
    using Cons.prems(4) p like_kind [OF Cons.prems(2)] by auto
  have new: "s \<notin> fst ` set cs" using Cons.prems(3) p by auto
  show ?case
  proof (cases "active limit s")
    case False
    have "synced b a limit (fst ` set cs) cur (sync_children cur a limit cs)" by (rule Cons.IH) (use Cons.prems in auto)
    with synced_skip [OF _ False] False p show ?thesis by (simp add: active_def)
  next
    case True
    define cur1 where "cur1 = (case child a s of None \<Rightarrow> remove_child cur s
      | Some a' \<Rightarrow> (case child cur s of
           Some b' \<Rightarrow> if valueDirty c \<or> \<not> same_kind a' b' then write_child cur s a' else write_child cur s (syncInto b' a' c)
         | None \<Rightarrow> write_child cur s a'))"
    have step: "sync_children cur a limit (p # cs) = sync_children cur1 a limit cs"
      using True own_child [OF s(2)] own_child [OF s(4)]
      by (cases "child a s"; cases "child cur s") (simp_all add: p cur1_def active_def)
    have c1: "child_synced b a s cur cur1"
    proof (cases "child a s")
      case None
      show ?thesis
      proof (cases cur)
        case (Obj qs)
        then obtain q where "s = Key q" using s(4) by (cases s) auto
        with None Obj synced_delete [of qs b a q] Cons.prems(1,2) show ?thesis by (simp add: cur1_def remove_child_def)
      next
        case (Arr xs)
        then obtain ys where "b = Arr ys" using Cons.prems(2) by (cases b) (auto simp: like_def)
        with assms(7) [OF True] None s(3) have "child cur s = None" by auto
        then obtain i where "s = Idx i" "length xs \<le> i" using Arr s(4) by (cases s) (auto split: if_splits)
        then have "cur1 = cur" using None Arr by (simp add: cur1_def remove_child_def js_splice_def)
        with None Cons.prems(1,2) \<open>child cur s = None\<close> show ?thesis by (simp add: child_synced_def)
      qed (use s(4) in auto)
    next
      case (Some a')
      have oka: "json_ok a'" "jsonEqual a' a'" using json_ok_child [OF assms(3) Some] jsonEqual_refl by auto
      have there: "child cur s \<noteq> None \<or> (\<exists>qs. cur = Obj qs)"
        using assms(7) [OF True] Some s(3,4) Cons.prems(2) by (cases b; cases cur) (auto simp: like_def)
      have "\<exists>r. cur1 = write_child cur s r \<and> jsonEqual r a' \<and> json_ok r"
      proof (cases "child b s")
        case None
        with Some oka s(3) show ?thesis by (auto simp: cur1_def simp del: jsonEqual_simps)
      next
        case b': (Some b')
        with Some oka s(3) Cons.prems(5) [of s c b' a'] p True show ?thesis
          by (cases "valueDirty c \<or> \<not> same_kind a' b'") (auto simp: cur1_def simp del: jsonEqual_simps)
      qed
      with synced_write [OF Cons.prems(1,2) s(1) there Some] show ?thesis by blast
    qed
    have keep: "child cur1 s' = child b s'" if "(s', d) \<in> set cs" for s' d
      using c1 Cons.prems(4) that new by (force simp: child_synced_def)
    have "synced b a limit (fst ` set cs) cur1 (sync_children cur1 a limit cs)"
      by (rule Cons.IH) (use c1 Cons.prems(3,4,5) keep in \<open>auto simp: child_synced_def\<close>)
    from synced_step [OF c1 this new s(1) True] step p show ?thesis by simp
  qed
qed

lemma sync_ok:
  "covers n b a \<Longrightarrow> json_ok b \<Longrightarrow> json_ok a \<Longrightarrow> isObj b \<Longrightarrow> isObj a \<Longrightarrow> canSync n \<Longrightarrow> \<not> valueDirty n \<Longrightarrow>
     jsonEqual (syncInto b a n) a \<and> json_ok (syncInto b a n)"
proof (induction rule: covers.induct)
  case (whole n b a)
  then show ?case by (cases n) (auto simp: stops_def)
next
  case (parts arr b a cs)
  let ?limit = "case arr of Some (Append start) \<Rightarrow> Some start | _ \<Rightarrow> None"
  note kind = shape_kind [OF parts(1)]
  have sync_all: "can_sync_children ds \<longleftrightarrow> (\<forall>(s, c)\<in>set ds. canSync c)" for ds by (induction ds) auto
  have arrs: "child b s = None \<longleftrightarrow> child a s = None" if "active ?limit s" "b = Arr xs" for s xs
    using that parts(1) by (cases "(arr, b, a)" rule: shape.cases; cases s) (auto simp: active_def child_def)
  have kids: "jsonEqual (syncInto b' a' c) a' \<and> json_ok (syncInto b' a' c)"
    if "(s, c) \<in> set cs" "child b s = Some b'" "child a s = Some a'" "same_kind a' b'" "\<not> valueDirty c" for s c b' a'
  proof -
    have "kind_seg b s" using parts(3) that(1) by force
    then have "fits b s" using that(2) by (cases "(b, s)" rule: kind_seg.cases) (auto split: if_splits)
    moreover have "map_of cs s = Some c" using parts(2) that(1) by simp
    moreover have "isObj b'" "isObj a'" using that(4) by (auto simp: same_kind_def split: json.splits)
    moreover have "canSync c" using parts(10) sync_all that(1) by auto
    ultimately show ?thesis
      using parts(5) that json_ok_child [OF parts(6) that(2)] json_ok_child [OF parts(7) that(3)] by blast
  qed
  have self: "like b b" using parts(8) by (cases b) (auto simp: like_def)
  have cur: "synced b a ?limit (fst ` set cs) b (sync_children b a ?limit cs)"
    by (rule sync_children_ok [OF parts(6,6,7) self parts(2)]) (use parts(3) kind arrs kids in auto)
  note res = synced_parts [OF parts(1,7) _ cur refl]
  have ok: "json_ok (sync_children b a ?limit cs)" using cur by (simp add: synced_def)
  show ?case
  proof (cases arr)
    case None
    with res parts(4) ok show ?thesis by (auto simp del: jsonEqual_simps)
  next
    case (Some k)
    with res parts(4) obtain zs ys start where z: "sync_children b a ?limit cs = Arr zs" "a = Arr ys" "length zs = start" "k = Append start"
        "start \<le> length ys" "list_all2 jsonEqual (zs @ drop start ys) ys" by auto
    obtain xs where xs: "b = Arr xs" using parts(1) Some z by (cases b) auto
    have "json_ok (Arr (zs @ drop start ys))" using ok parts(7) z by (auto dest: in_set_dropD)
    with z xs Some show ?thesis by simp
  qed
qed

section \<open>Replicas\<close>

text \<open>Equal values stay equal under the same operations.\<close>

lemma rel_get:
  "jsonEqual v w \<Longrightarrow> json_ok v \<Longrightarrow> json_ok w \<Longrightarrow> get_path v p = Some x \<Longrightarrow>
     \<exists>y. get_path w p = Some y \<and> jsonEqual x y \<and> json_ok x \<and> json_ok y"
proof (induction p arbitrary: v w)
  case (Cons s p)
  then obtain c where c: "child v s = Some c" "get_path c p = Some x" by (auto simp: bind_eq_Some_conv)
  have "rel_option jsonEqual (child v s) (child w s)"
  proof (cases v)
    case (Obj ps)
    then obtain qs where "w = Obj qs" using Cons.prems(1) by auto
    with Obj Cons.prems show ?thesis
      using child_obj_distinct [of ps qs "seg_key s"] by (simp add: child_def del: jsonEqual_simps)
  next
    case (Arr xs)
    then show ?thesis using Cons.prems c(1) by (cases s) (auto simp: child_def list_all2_conv_all_nth split: if_splits)
  qed (use c(1) in \<open>auto simp: child_def\<close>)
  with c(1) obtain d where d: "child w s = Some d" "jsonEqual c d" by (auto simp: option_rel_Some1)
  from Cons.IH [OF d(2) json_ok_child [OF Cons.prems(2) c(1)] json_ok_child [OF Cons.prems(3) d(1)] c(2)] d(1) show ?case by simp
qed simp

lemma rel_write:
  assumes "jsonEqual v w" "json_ok v" "json_ok w" "jsonEqual x y" "json_ok x" "json_ok y"
  shows "jsonEqual (write_child v s x) (write_child w s y)"
proof (cases v)
  case (Obj ps)
  then obtain qs where w: "w = Obj qs" using assms(1) by auto
  have "rel_option jsonEqual (map_of (obj_put k x ps) k') (map_of (obj_put k y qs) k')" for k k'
    using child_obj_distinct [of ps qs k'] assms(1-4) Obj w by (auto simp del: jsonEqual_simps)
  then show ?thesis
    using jsonEqual_Obj [of "obj_put (seg_key s) x ps" "obj_put (seg_key s) y qs"] assms(2,3) Obj w
    by (auto simp: write_child_def own_keys_distinct simp del: jsonEqual_simps)
next
  case (Arr xs)
  then obtain ys where w: "w = Arr ys" "list_all2 jsonEqual xs ys" using assms(1) by auto
  then show ?thesis using assms(4) Arr list_all2_lengthD [OF w(2)]
    by (cases s) (auto simp: write_child_def list_all2_update_cong intro!: list_all2_appendI)
qed (use assms(1) in \<open>auto simp: write_child_def\<close>)

lemma rel_put:
  "jsonEqual v w \<Longrightarrow> json_ok v \<Longrightarrow> json_ok w \<Longrightarrow> jsonEqual x y \<Longrightarrow> json_ok x \<Longrightarrow> json_ok y \<Longrightarrow> get_path v p = Some u \<Longrightarrow>
     jsonEqual (put_path v p x) (put_path w p y)"
proof (induction p arbitrary: v w)
  case (Cons s p)
  then obtain c where c: "child v s = Some c" "get_path c p = Some u" by (auto simp: bind_eq_Some_conv)
  from rel_get [OF Cons.prems(1-3), of "[s]" c] c(1) obtain d where d: "child w s = Some d" "jsonEqual c d" "json_ok c" "json_ok d"
    by (auto simp: bind_eq_Some_conv simp del: jsonEqual_simps)
  have "jsonEqual (put_path c p x) (put_path d p y)" by (rule Cons.IH [OF d(2-4) Cons.prems(4-6) c(2)])
  moreover have "json_ok (put_path c p x)" "json_ok (put_path d p y)" using json_ok_put d(3,4) Cons.prems(5,6) by auto
  ultimately show ?case using c(1) d(1) rel_write [OF Cons.prems(1-3)] by simp
qed simp

lemma rel_child_op:
  assumes "edits_child x" "jsonEqual v w" "json_ok v" "json_ok w" "op_ok x" "child_op x v = Inr v'"
  shows "\<exists>w'. child_op x w = Inr w' \<and> jsonEqual v' w'"
proof -
  define key where "key = last (op_path x)"
  have unf: "child_op x n = rbind (check_key n key) (\<lambda>_.
      case x of OpS _ u \<Rightarrow> Inr (write_child n key u) | OpD _ \<Rightarrow> delete_child (op_path x) n key
      | OpA _ s \<Rightarrow> edit_text (op_path x) (\<lambda>current. current @ s) n key | OpT _ k \<Rightarrow> edit_text (op_path x) (drop k) n key
      | _ \<Rightarrow> Inr n)" for n
    unfolding child_op_def Let_def key_def by (rule refl)
  have ck: "check_key v key = check_key w key"
    using assms(2) by (cases v; cases key) (auto simp: check_key_def dest: list_all2_lengthD)
  have edit: "\<exists>w'. edit_text p g w key = Inr w' \<and> jsonEqual v' w'" if "edit_text p g v key = Inr v'" "check_key v key = Inr ()" for p g
  proof -
    from that obtain s where s: "ownValue v key = Some (Str s)" "v' = write_child v key (Str (g s))"
      by (auto simp: edit_text_def split: option.splits json.splits)
    have "ownValue v key = child v key"
      using that(2) s(1) by (cases v; cases key) (auto simp: ownValue_def child_def check_key_def)
    with s(1) rel_get [OF assms(2-4), of "[key]" "Str s"] have "child w key = Some (Str s)" by (auto simp: bind_eq_Some_conv)
    with s(2) child_ownValue rel_write [OF assms(2-4), of "Str (g s)" "Str (g s)" key] show ?thesis by (auto simp: edit_text_def)
  qed
  note e = assms(6) [unfolded unf]
  have "\<exists>w'. rbind (check_key w key) (\<lambda>_.
         case x of OpS _ u \<Rightarrow> Inr (write_child w key u) | OpD _ \<Rightarrow> delete_child (op_path x) w key
         | OpA _ s \<Rightarrow> edit_text (op_path x) (\<lambda>current. current @ s) w key | OpT _ k \<Rightarrow> edit_text (op_path x) (drop k) w key
         | _ \<Rightarrow> Inr w) = Inr w' \<and> jsonEqual v' w'"
  proof (cases x)
    case (OpS p u)
    with assms(5) e rel_write [OF assms(2-4) jsonEqual_refl [of u], of key] ck show ?thesis
      by (auto simp: res_simps simp del: jsonEqual_simps)
  next
    case (OpD p)
    show ?thesis
    proof (cases v)
      case (Obj ps)
      then obtain qs where w: "w = Obj qs" using assms(2) by auto
      have "rel_option jsonEqual (map_of (obj_delete k ps) k') (map_of (obj_delete k qs) k')" for k k'
        using child_obj_distinct [of ps qs k'] assms(2-4) Obj w by (auto simp del: jsonEqual_simps)
      then have "jsonEqual (Obj (obj_delete k ps)) (Obj (obj_delete k qs))" for k
        using jsonEqual_Obj [of "obj_delete k ps" "obj_delete k qs"] assms(3,4) Obj w by (simp add: own_keys_distinct del: jsonEqual_simps)
      with e OpD Obj w show ?thesis
        by (auto simp: check_key_def delete_child_def simp del: jsonEqual_simps)
    next
      case (Arr xs)
      then obtain ys where w: "w = Arr ys" "list_all2 jsonEqual xs ys" using assms(2) by auto
      then show ?thesis using e OpD Arr ck list_all2_lengthD [OF w(2)]
        by (cases key) (auto simp: delete_child_def res_simps js_splice_def split: if_splits
            intro!: list_all2_appendI list_all2_takeI list_all2_dropI)
    qed (use assms(2) e OpD in \<open>auto simp: check_key_def delete_child_def num_eq_def\<close>)
  next
    case (OpA p u)
    with e edit ck show ?thesis by (auto simp: res_simps simp del: jsonEqual_simps)
  next
    case (OpT p u)
    with e edit ck show ?thesis by (auto simp: res_simps simp del: jsonEqual_simps)
  qed (use assms(1) in auto)
  then show ?thesis unfolding unf .
qed

lemma rel_applyOp:
  assumes "jsonEqual v w" "json_ok v" "json_ok w" "op_ok x" "applyOp (Some v) x = Inr (Some v')"
  shows "\<exists>w'. applyOp (Some w) x = Inr (Some w') \<and> jsonEqual v' w'"
proof -
  consider u where "x = OpR u" | q i r items where "x = OpP q i r items" | "edits_child x" by (cases x) auto
  then show ?thesis
  proof cases
    case 1
    with assms jsonEqual_refl [of u] show ?thesis by (auto simp del: jsonEqual_simps)
  next
    case 2
    with assms(5) obtain xs where x: "safe_path q" "get_path v q = Some (Arr xs)" "v' = put_path v q (Arr (js_splice xs i r items))"
      by (auto simp: applyOp_P)
    from rel_get [OF assms(1-3) x(2)] obtain ys where y: "get_path w q = Some (Arr ys)" "list_all2 jsonEqual xs ys" "json_ok (Arr xs)" "json_ok (Arr ys)"
      by auto
    have it: "list_all json_ok items" using assms(4) 2 by simp
    have "list_all2 jsonEqual items items" using it by (auto intro!: list_jsonEqual_refl simp: list_all_iff)
    then have "jsonEqual (Arr (js_splice xs i r items)) (Arr (js_splice ys i r items))"
      using y(2) by (auto simp: js_splice_def intro!: list_all2_appendI list_all2_takeI list_all2_dropI)
    then have "jsonEqual v' (put_path w q (Arr (js_splice ys i r items)))" unfolding x(3)
      using rel_put [OF assms(1-3) _ json_ok_splice [OF y(3) it] json_ok_splice [OF y(4) it] x(2)] by blast
    with x(1) y(1) 2 show ?thesis by (simp add: applyOp_P del: jsonEqual_simps)
  next
    case 3
    with assms(5) obtain n u where n: "op_path x \<noteq> []" "safe_path (op_path x)" "get_path v (butlast (op_path x)) = Some n" "isObj n"
        "child_op x n = Inr u" "v' = put_path v (butlast (op_path x)) u"
      by (auto simp: applyOp_child)
    from rel_get [OF assms(1-3) n(3)] obtain m where m: "get_path w (butlast (op_path x)) = Some m" "jsonEqual n m" "json_ok n" "json_ok m" by blast
    from rel_child_op [OF 3 m(2-4) assms(4) n(5)] obtain u' where u: "child_op x m = Inr u'" "jsonEqual u u'" by blast
    have "jsonEqual v' (put_path w (butlast (op_path x)) u')" unfolding n(6)
      by (rule rel_put [OF assms(1-3) u(2) json_ok_child_op [OF m(3) assms(4) n(5)] json_ok_child_op [OF m(4) assms(4) u(1)] n(3)])
    moreover have "isObj m" using m(2) n(4) by (cases n) auto
    ultimately show ?thesis using n m(1) u(1) 3 by (auto simp: applyOp_child simp del: jsonEqual_simps)
  qed
qed

lemma rel_applyOps:
  "jsonEqual v w \<Longrightarrow> json_ok v \<Longrightarrow> json_ok w \<Longrightarrow> list_all op_ok ops \<Longrightarrow> applyOps (Some v) ops = Inr (Some v') \<Longrightarrow>
     \<exists>w'. applyOps (Some w) ops = Inr (Some w') \<and> jsonEqual v' w' \<and> json_ok w'"
proof (induction ops arbitrary: v w)
  case (Cons x ops)
  then obtain v1 where v1: "applyOp (Some v) x = Inr (Some v1)" "applyOps (Some v1) ops = Inr (Some v')"
    using applyOp_defined by (fastforce simp: res_simps)
  have okx: "op_ok x" "list_all op_ok ops" using Cons.prems(4) by auto
  from rel_applyOp [OF Cons.prems(1-3) okx(1) v1(1)] obtain w1 where w1: "applyOp (Some w) x = Inr (Some w1)" "jsonEqual v1 w1" by blast
  from Cons.IH [OF w1(2) json_ok_applyOp [OF Cons.prems(2) okx(1) v1(1)] json_ok_applyOp [OF Cons.prems(3) okx(1) w1(1)] okx(2) v1(2)]
  show ?case using w1(1) by (auto simp del: jsonEqual_simps)
qed auto

text \<open>The values that a flush puts into operations are parts of the tracked value.\<close>

lemma emit_ok [simp]: "list_all op_ok (emitSet p v) = json_ok v" "list_all op_ok (emitDelete p)"
  by (simp_all add: emitSet_def emitDelete_def)

lemma diffString_op_ok: "list_all op_ok (diffString b a p scan)"
  by (simp add: diffString_def emitSet_def Let_def)

lemma list_all_drop: "list_all P xs \<Longrightarrow> list_all P (drop n xs)"
  by (auto simp: list_all_iff dest: in_set_dropD)

lemma list_all_take: "list_all P xs \<Longrightarrow> list_all P (take n xs)"
  by (auto simp: list_all_iff dest: in_set_takeD)

lemma diff_op_ok:
  "(\<forall>v. a = Some v \<longrightarrow> json_ok v) \<Longrightarrow> list_all op_ok (diffValue b a path scan)"
  "json_ok (Obj qs) \<Longrightarrow> list_all op_ok (diffObject ps qs path scan)"
  "entries_ok qs \<Longrightarrow> list_all op_ok (diffEntries ps qs path scan)"
  "json_ok (Arr ys) \<Longrightarrow> list_all op_ok (diffArray xs ys path scan)"
  "json_ok (Arr ys) \<Longrightarrow> list_all op_ok (diffItems xs ys i path scan)"
proof (induction b a path scan and ps qs path scan and ps qs path scan and xs ys path scan and xs ys i path scan
    rule: diffValue_diffObject_diffEntries_diffArray_diffItems.induct)
  case (8 before after path scan)
  then show ?case by (auto simp: diffObject.simps) (auto simp: list_all_iff emitDelete_def)
next
  case (11 before after path scan)
  have ys: "list_all json_ok after" using 11(3) by (simp add: list_all_iff)
  with 11 show ?case by (auto simp: diffArray.simps Let_def list_all_drop list_all_take)
qed (auto simp: diffString_op_ok)

lemma json_ok_own: "json_ok v \<Longrightarrow> ownValue v s = Some c \<Longrightarrow> json_ok c"
  by (auto simp: ownValue_def dest: map_of_SomeD split: json.splits seg.splits option.splits if_splits)

lemma walk_op_ok:
  "json_ok a \<Longrightarrow> list_all op_ok (walkDirty b a n path scan)"
  "json_ok a \<Longrightarrow> list_all op_ok (walk_children b a limit cs path scan)"
proof (induction b a n path scan and b a limit cs path scan rule: walkDirty_walk_children.induct)
  case (1 before after vd arr children path scan)
  have d: "list_all op_ok (diffValue (Some before) (Some after) path scan)" using diff_op_ok(1) [of "Some after"] 1(3) by blast
  have it: "list_all json_ok (drop k ys)" if "after = Arr ys" for k ys using 1(3) that by (auto simp: list_all_iff dest: in_set_dropD)
  show ?case
  proof (cases vd)
    case False
    show ?thesis
    proof (cases arr)
      case None
      with False 1 show ?thesis by simp
    next
      case (Some k)
      show ?thesis
      proof (cases k)
        case (Append start)
        with Some False d it 1 show ?thesis by (cases before; cases after) auto
      qed (use Some False d 1(3) in simp_all)
    qed
  qed (use d in simp)
next
  case (3 before after limit s c children path scan)
  have d: "list_all op_ok (diffValue x (ownValue after s) p scan)" for x p
    using diff_op_ok(1) [of "ownValue after s"] json_ok_own [OF 3(3)] by blast
  have h: "list_all op_ok (case (ownValue before s, ownValue after s) of
           (Some previous, Some current) \<Rightarrow>
             if \<not> valueDirty c \<and> isObj previous \<and> isObj current
             then walkDirty previous current c (path @ [s]) scan
             else diffValue (Some previous) (Some current) (path @ [s]) scan
         | (previous, current) \<Rightarrow> diffValue previous current (path @ [s]) scan)" if act: "active limit s"
  proof (cases "ownValue before s")
    case None
    with d [of None] show ?thesis by simp
  next
    case (Some b')
    note d' = d [of "Some b'" "path @ [s]"]
    show ?thesis
    proof (cases "ownValue after s")
      case None
      with Some d' show ?thesis by simp
    next
      case a': (Some a')
      with 3(1) [OF act [unfolded active_def] _ Some a'] Some d' json_ok_own [OF 3(3) a'] show ?thesis by simp
    qed
  qed
  with 3 show ?case unfolding walk_children.simps active_def by simp
qed simp

section \<open>A tracker and a replica\<close>

text \<open>
  Every run of a tracker: any mutations, replacements of the state and rebases, and flushes whose
  operations are applied to a replica, which starts undefined. (\<^verbatim>\<open>discard\<close> withholds changes from the
  replica on purpose and is no step of these runs.)
\<close>

inductive tracked :: "tracker \<Rightarrow> json option \<Rightarrow> bool" where
  tracked_start: "json_ok root \<Longrightarrow> isObj root \<Longrightarrow> tracked (track root maxOverlapScan) None"
| tracked_call: "tracked t rep \<Longrightarrow> call_ok c \<Longrightarrow> call_array path c t = Inr t' \<Longrightarrow> tracked t' rep"
| tracked_length: "tracked t rep \<Longrightarrow> set_length path n t = Inr t' \<Longrightarrow> tracked t' rep"
| tracked_set: "tracked t rep \<Longrightarrow> (\<forall>w. v = Some w \<longrightarrow> json_ok w) \<Longrightarrow> set_key path s v t = Inr t' \<Longrightarrow> tracked t' rep"
| tracked_delete: "tracked t rep \<Longrightarrow> delete_key path s t = Inr t' \<Longrightarrow> tracked t' rep"
| tracked_state: "tracked t rep \<Longrightarrow> json_ok next \<Longrightarrow> isObj next \<Longrightarrow> tracked (set_state next t) rep"
| tracked_rebase: "tracked t rep \<Longrightarrow> tracked (rebase t) rep"
| tracked_flush: "tracked t rep \<Longrightarrow> flush t = Inr (t', ops) \<Longrightarrow> applyOps rep ops = Inr rep' \<Longrightarrow> tracked t' rep'"

definition replica_inv :: "tracker \<Rightarrow> json option \<Rightarrow> bool" where
  "replica_inv t rep \<longleftrightarrow> track_inv t \<and>
     (\<not> forceBase t \<longrightarrow> (\<exists>b r. baseline t = Some b \<and> rep = Some r \<and> jsonEqual b r \<and> json_ok r))"

lemma flush_replica:
  assumes "replica_inv t rep"
  shows "\<exists>t' ops r. flush t = Inr (t', ops) \<and> applyOps rep ops = Inr (Some r) \<and> jsonEqual r (t_root t) \<and> replica_inv t' (Some r)"
proof -
  have root: "json_ok (t_root t)" "isObj (t_root t)" "\<not> valueDirty (pending t)" using assms by (simp_all add: replica_inv_def track_inv_def)
  have clean: "track_inv (clearPending u)" if "t_root u = t_root t" "baseline u = Some b" "json_ok b" "isObj b" "jsonEqual b (t_root t)" for u b
    using that root covers_empty [of b "t_root t"] by (auto simp: track_inv_def clearPending_def dirtyNode_def simp del: jsonEqual_simps)
  show ?thesis
  proof (cases "forceBase t")
    case True
    let ?t = "clearPending (t\<lparr>baseline := Some (t_root t), forceBase := False\<rparr>)"
    have "track_inv ?t" by (rule clean) (use root jsonEqual_refl [OF root(1)] in simp_all)
    then have "replica_inv ?t (Some (t_root t))"
      using root jsonEqual_refl [OF root(1)] by (simp add: replica_inv_def clearPending_def del: jsonEqual_simps)
    with True jsonEqual_refl [OF root(1)] show ?thesis by (auto simp: flush_def simp del: jsonEqual_simps)
  next
    case False
    obtain b r where b: "baseline t = Some b" "json_ok b" "isObj b" "covers (pending t) b (t_root t)" "rep = Some r" "jsonEqual b r" "json_ok r"
      using assms False unfolding replica_inv_def track_inv_def by force
    define out where "out = walkDirty b (t_root t) (pending t) [] (t_scan t)"
    obtain v where v: "applyOps (Some b) out = Inr (Some v)" "jsonEqual v (t_root t)" "json_ok v"
      using walk_ok [OF b(4,2) root(1) b(3) root(2), of "t_scan t"] by (auto simp: flush_ok_def out_def)
    have "list_all op_ok out" unfolding out_def by (rule walk_op_ok(1) [OF root(1)])
    from rel_applyOps [OF b(6,2,7) this v(1)] obtain r' where r': "applyOps (Some r) out = Inr (Some r')" "jsonEqual v r'" "json_ok r'" by blast
    have eq: "jsonEqual r' (t_root t)" using jsonEqual_trans [OF jsonEqual_sym [OF r'(2) v(3) r'(3)] v(2)] .
    have moved: "replica_inv (clearPending (t\<lparr>baseline := Some b'\<rparr>)) (Some r')"
      if "jsonEqual b' (t_root t)" "json_ok b'" for b'
    proof -
      have "isObj b'" using that(1) root(2) by (cases b'; cases "t_root t") auto
      then have "track_inv (clearPending (t\<lparr>baseline := Some b'\<rparr>))" by (intro clean) (use that in auto)
      moreover have "jsonEqual b' r'" using jsonEqual_trans [OF that(1) jsonEqual_sym [OF eq r'(3) root(1)]] .
      ultimately show ?thesis using r'(3) by (simp add: replica_inv_def clearPending_def del: jsonEqual_simps)
    qed
    show ?thesis
    proof (cases "hasPending t")
      case hp: False
      have "jsonEqual b (t_root t)"
      proof -
        have "pending t = dirtyNode" using assms hp by (simp add: replica_inv_def track_inv_def)
        then have "out = []" by (simp add: out_def dirtyNode_def)
        with v show ?thesis by simp
      qed
      then have "jsonEqual r (t_root t)" using jsonEqual_trans [OF jsonEqual_sym [OF b(6,2,7)]] by blast
      with hp False b assms show ?thesis by (auto simp: flush_def simp del: jsonEqual_simps)
    next
      case hp: True
      define b' where "b' = (if canSync (pending t) then syncInto b (t_root t) (pending t) else v)"
      have b': "jsonEqual b' (t_root t)" "json_ok b'"
        using sync_ok [OF b(4,2) root(1) b(3) root(2) _ root(3)] v by (auto simp: b'_def simp del: jsonEqual_simps)
      have "flush t = Inr (clearPending (t\<lparr>baseline := Some b'\<rparr>), out)"
        using False hp b(1) v(1) by (auto simp: flush_def Let_def out_def [symmetric] b'_def)
      with r'(1) eq moved [OF b'] b(5) show ?thesis by (auto simp del: jsonEqual_simps)
    qed
  qed
qed

lemma marks_force [simp]:
  "forceBase (mark p f t) = forceBase t" "baseline (mark p f t) = baseline t"
  "forceBase (update_target p v t) = forceBase t" "baseline (update_target p v t) = baseline t"
  by (simp_all add: mark_def update_target_def)

lemma calls_force:
  "call_array p c t = Inr t' \<Longrightarrow> forceBase t' = forceBase t \<and> baseline t' = baseline t"
  "set_length p n t = Inr t' \<Longrightarrow> forceBase t' = forceBase t \<and> baseline t' = baseline t"
  "set_key p s v t = Inr t' \<Longrightarrow> forceBase t' = forceBase t \<and> baseline t' = baseline t"
  "delete_key p s t = Inr t' \<Longrightarrow> forceBase t' = forceBase t \<and> baseline t' = baseline t"
proof -
  note marks = markValue_def markArrayAppend_def markArrayDiff_def markArrayReplace_def
  show "call_array p c t = Inr t' \<Longrightarrow> forceBase t' = forceBase t \<and> baseline t' = baseline t"
    by (cases "proxy_target t p") (auto simp: call_array_def array_marks_def marks split: json.splits array_call.splits prod.splits if_splits)
  show "set_length p n t = Inr t' \<Longrightarrow> forceBase t' = forceBase t \<and> baseline t' = baseline t"
    by (cases "proxy_target t p") (auto simp: set_length_def Let_def marks split: json.splits if_splits)
  show "set_key p s v t = Inr t' \<Longrightarrow> forceBase t' = forceBase t \<and> baseline t' = baseline t"
    by (cases "proxy_target t p") (auto simp: set_key_def Let_def marks split: json.splits seg.splits option.splits if_splits)
  show "delete_key p s t = Inr t' \<Longrightarrow> forceBase t' = forceBase t \<and> baseline t' = baseline t"
    by (cases "proxy_target t p") (auto simp: delete_key_def marks split: json.splits seg.splits if_splits)
qed

lemma tracked_inv: "tracked t rep \<Longrightarrow> replica_inv t rep"
proof (induction rule: tracked.induct)
  case (tracked_start root n)
  then show ?case by (simp add: replica_inv_def track_inv_def track_def dirtyNode_def)
next
  case (tracked_call t rep c path t')
  with calls_force(1) [OF tracked_call(3)] call_array_inv show ?case by (auto simp: replica_inv_def)
next
  case (tracked_length t rep path n t')
  with calls_force(2) [OF tracked_length(2)] set_length_inv show ?case by (auto simp: replica_inv_def)
next
  case (tracked_set t rep v path s t')
  with calls_force(3) [OF tracked_set(3)] set_key_inv show ?case by (auto simp: replica_inv_def)
next
  case (tracked_delete t rep path s t')
  with calls_force(4) [OF tracked_delete(2)] delete_key_inv show ?case by (auto simp: replica_inv_def)
next
  case (tracked_flush t rep t' ops rep')
  with flush_replica [of t rep] show ?case by auto
qed (auto simp: replica_inv_def track_inv_def set_state_def rebase_def clearPending_def dirtyNode_def)

section \<open>Property\<close>

text \<open>
  C2. Replicas converge: in every run of a tracker, whatever was changed through the proxy and however often it
  was flushed, the next flush succeeds, its operations apply to the replica that has applied all earlier
  ones, and the replica then equals the tracked value.
\<close>

theorem replica_converges:
  assumes "tracked t rep"
  shows "\<exists>t' ops r. flush t = Inr (t', ops) \<and> applyOps rep ops = Inr (Some r) \<and> jsonEqual r (t_root t)"
  using flush_replica [OF tracked_inv [OF assms]] by blast

definition sample_tracker :: tracker where
  "sample_tracker = \<lparr>t_root = Obj [(js ''a'', Null)], pending = Dirty False None [(Key (js ''a''), Dirty True None [])],
     hasPending = True, baseline = None, forceBase = True, t_scan = 65536\<rparr>"

lemma sample_tracked: "tracked sample_tracker None"
proof -
  have start: "tracked (track (Obj []) None) None" by (rule tracked_start) simp_all
  have step: "set_key [] (Key (js ''a'')) (Some Null) (track (Obj []) None) = Inr sample_tracker"
    by (simp add: set_key_def proxy_target_def track_def RESERVED_SEGMENTS_def js_def markValue_def mark_def mark_value_def
        stops_def dirtyNode_def update_target_def sample_tracker_def obj_put_def)
  show ?thesis by (rule tracked_set [OF start _ step]) simp
qed

theorem replica_converges_witness:
  "\<exists>t' ops r. flush sample_tracker = Inr (t', ops) \<and> applyOps None ops = Inr (Some r) \<and> jsonEqual r (t_root sample_tracker)"
  by (rule replica_converges [OF sample_tracked])

end
