(* ===== verification/Delta_Codec.thy ===== *)
theory Delta_Codec
  imports Delta_Apply
begin

text \<open>
  The wire codec of \<^verbatim>\<open>packages/chord/src/delta/index.ts\<close>: \<^verbatim>\<open>encoder()\<close> interns a path on its second use and drops
  a path equal to the previous one of the batch, \<^verbatim>\<open>decoder()\<close> undoes both. The contract of a pair of
  stateful coders is stated as a locale; the pair satisfies it from any common state, and a fresh decoder
  can start at any base batch.

  The encoder keys its tables by \<^verbatim>\<open>JSON.stringify(path)\<close>, which tells any two paths apart; the path itself
  is the key here.
\<close>

section \<open>Wire operations\<close>

datatype path_ref = Inline path | Ref nat

text \<open>The forms with an option in place of the path are the full tuple and the shortened one.\<close>

datatype wire_op =
    WireR json
  | WireS "path_ref option" json
  | WireD "path_ref option"
  | WireA "path_ref option" jstring
  | WireT "path_ref option" nat
  | WireP "path_ref option" nat nat "json list"
  | WireDef nat path

record Encoder =
  seen :: "path list"
  ids :: "path \<rightharpoonup> nat"
  nextId :: nat

definition encoder :: Encoder where
  "encoder = \<lparr>seen = [], ids = Map.empty, nextId = 0\<rparr>"

fun with_ref :: "op \<Rightarrow> path_ref option \<Rightarrow> wire_op" where
  "with_ref (OpR v) _ = WireR v"
| "with_ref (OpS _ v) ref = WireS ref v"
| "with_ref (OpD _) ref = WireD ref"
| "with_ref (OpA _ s) ref = WireA ref s"
| "with_ref (OpT _ n) ref = WireT ref n"
| "with_ref (OpP _ i r items) ref = WireP ref i r items"

text \<open>One operation: the tables, the previous path of the batch, and what is pushed to \<^verbatim>\<open>out\<close>.\<close>

definition encode_op :: "Encoder \<Rightarrow> path option \<Rightarrow> op \<Rightarrow> Encoder \<times> path option \<times> wire_op list" where
  "encode_op e previous x =
     (if isReplace x then (encoder, None, [with_ref x None])
      else let key = op_path x in
        if previous = Some key then (e, previous, [with_ref x None])
        else case ids e key of
          Some existing \<Rightarrow> (e, Some key, [with_ref x (Some (Ref existing))])
        | None \<Rightarrow>
            if key \<in> set (seen e) then
              let i = nextId e in
              (e\<lparr>ids := (ids e)(key \<mapsto> i), nextId := i + 1\<rparr>, Some key, [WireDef i key, with_ref x (Some (Ref i))])
            else (e\<lparr>seen := key # seen e\<rparr>, Some key, [with_ref x (Some (Inline key))]))"

fun encode_ops :: "Encoder \<Rightarrow> path option \<Rightarrow> op list \<Rightarrow> Encoder \<times> wire_op list" where
  "encode_ops e previous [] = (e, [])"
| "encode_ops e previous (x # ops) =
     (case encode_op e previous x of
        (e', previous', out) \<Rightarrow> (case encode_ops e' previous' ops of (e'', out') \<Rightarrow> (e'', out @ out')))"

definition encode :: "Encoder \<Rightarrow> op list \<Rightarrow> Encoder \<times> wire_op list" where
  "encode e ops = encode_ops e None ops"

section \<open>Decoding\<close>

fun wire_ref :: "wire_op \<Rightarrow> path_ref option" where
  "wire_ref (WireS ref _) = ref"
| "wire_ref (WireD ref) = ref"
| "wire_ref (WireA ref _) = ref"
| "wire_ref (WireT ref _) = ref"
| "wire_ref (WireP ref _ _ _) = ref"
| "wire_ref _ = None"

text \<open>\<^verbatim>\<open>assertValidWireOp\<close> on a tuple of the right shape: an inline path and a defined path must be safe.\<close>

definition assertValidWireOp :: "wire_op \<Rightarrow> (delta_error, unit) res" where
  "assertValidWireOp x =
     (case x of
        WireDef _ path \<Rightarrow> assertSafePath path
      | _ \<Rightarrow> (case wire_ref x of Some (Inline path) \<Rightarrow> assertSafePath path | _ \<Rightarrow> Inr ()))"

fun with_path :: "wire_op \<Rightarrow> path \<Rightarrow> op" where
  "with_path (WireS _ v) path = OpS path v"
| "with_path (WireD _) path = OpD path"
| "with_path (WireA _ s) path = OpA path s"
| "with_path (WireT _ n) path = OpT path n"
| "with_path (WireP _ i r items) path = OpP path i r items"
| "with_path (WireR v) path = OpR v"
| "with_path (WireDef _ _) path = OpP path 0 0 []"

fun is_splice :: "wire_op \<Rightarrow> bool" where
  "is_splice (WireP _ _ _ _) = True"
| "is_splice _ = False"

text \<open>The path an operation refers to: the previous one for a short form, else the reference.\<close>

definition wire_path :: "(nat \<rightharpoonup> path) \<Rightarrow> path option \<Rightarrow> wire_op \<Rightarrow> (delta_error, path) res" where
  "wire_path paths previous x =
     (case wire_ref x of
        None \<Rightarrow> (case previous of None \<Rightarrow> Inl (PathError []) | Some path \<Rightarrow> Inr path)
      | Some (Ref i) \<Rightarrow> (case paths i of None \<Rightarrow> Inl (PathIdError i) | Some path \<Rightarrow> Inr path)
      | Some (Inline path) \<Rightarrow> Inr path)"

fun decode_ops :: "(nat \<rightharpoonup> path) \<Rightarrow> path option \<Rightarrow> wire_op list \<Rightarrow> (nat \<rightharpoonup> path) \<times> (delta_error, op list) res" where
  "decode_ops paths previous [] = (paths, Inr [])"
| "decode_ops paths previous (x # wire) =
     (case assertValidWireOp x of
        Inl err \<Rightarrow> (paths, Inl err)
      | Inr _ \<Rightarrow>
         (case x of
            WireDef i path \<Rightarrow>
              (case assertSafePath path of
                 Inl err \<Rightarrow> (paths, Inl err)
               | Inr _ \<Rightarrow> decode_ops (paths(i \<mapsto> path)) previous wire)
          | WireR v \<Rightarrow>
              (case decode_ops Map.empty None wire of (paths', r) \<Rightarrow> (paths', rbind r (\<lambda>ops. Inr (OpR v # ops))))
          | _ \<Rightarrow>
              (case wire_path paths previous x of
                 Inl err \<Rightarrow> (paths, Inl err)
               | Inr path \<Rightarrow>
                   if \<not> is_splice x \<and> path = [] then (paths, Inl (PathError path))
                   else (case decode_ops paths (Some path) wire of
                           (paths', r) \<Rightarrow> (paths', rbind r (\<lambda>ops. Inr (with_path x path # ops)))))))"

definition decode :: "(nat \<rightharpoonup> path) \<Rightarrow> wire_op list \<Rightarrow> (nat \<rightharpoonup> path) \<times> (delta_error, op list) res" where
  "decode paths wire = decode_ops paths None wire"

section \<open>Pairs of stateful coders\<close>

text \<open>
  Two coders that each keep a state across messages: if every good message sent from related states
  arrives and leaves related states, then so does every sequence of them.
\<close>

fun send_all :: "('s \<Rightarrow> 'm \<Rightarrow> 's \<times> 'w) \<Rightarrow> 's \<Rightarrow> 'm list \<Rightarrow> 'w list" where
  "send_all enc s [] = []"
| "send_all enc s (m # ms) = (case enc s m of (s', w) \<Rightarrow> w # send_all enc s' ms)"

fun receive_all :: "('d \<Rightarrow> 'w \<Rightarrow> 'd \<times> ('e, 'm) res) \<Rightarrow> 'd \<Rightarrow> 'w list \<Rightarrow> ('e, 'm list) res" where
  "receive_all dec d [] = Inr []"
| "receive_all dec d (w # ws) = (case dec d w of (d', r) \<Rightarrow> rbind r (\<lambda>m. rbind (receive_all dec d' ws) (\<lambda>ms. Inr (m # ms))))"

locale stateful_codec =
  fixes enc :: "'s \<Rightarrow> 'm \<Rightarrow> 's \<times> 'w"
    and dec :: "'d \<Rightarrow> 'w \<Rightarrow> 'd \<times> ('e, 'm) res"
    and good :: "'m \<Rightarrow> bool"
    and agree :: "'s \<Rightarrow> 'd \<Rightarrow> bool"
  assumes arrives: "agree s d \<Longrightarrow> good m \<Longrightarrow> enc s m = (s', w) \<Longrightarrow> \<exists>d'. dec d w = (d', Inr m) \<and> agree s' d'"
begin

lemma all_arrive: "agree s d \<Longrightarrow> list_all good ms \<Longrightarrow> receive_all dec d (send_all enc s ms) = Inr ms"
proof (induction ms arbitrary: s d)
  case (Cons m ms)
  obtain s' w where e: "enc s m = (s', w)" by fastforce
  from arrives [OF Cons.prems(1) _ e] Cons.prems(2) obtain d' where "dec d w = (d', Inr m)" "agree s' d'" by auto
  with Cons e show ?case by simp
qed simp

end

section \<open>The delta coders as such a pair\<close>

lemma decode_WireR [simp]:
  "decode_ops paths previous (WireR v # wire) =
     (case decode_ops Map.empty None wire of (paths', r) \<Rightarrow> (paths', rbind r (\<lambda>ops. Inr (OpR v # ops))))"
  by (simp add: assertValidWireOp_def)

lemma safe_path_asserts: "safe_path p \<Longrightarrow> assertSafePath p = Inr ()"
  by simp

lemma decode_WireDef [simp]:
  "safe_path p \<Longrightarrow> decode_ops paths previous (WireDef i p # wire) = decode_ops (paths(i \<mapsto> p)) previous wire"
  by (simp add: assertValidWireOp_def safe_path_asserts)

lemma decode_other:
  "assertValidWireOp x = Inr () \<Longrightarrow> wire_path paths previous x = Inr path \<Longrightarrow> is_splice x \<or> path \<noteq> [] \<Longrightarrow>
     (\<forall>v. x \<noteq> WireR v) \<Longrightarrow> (\<forall>i p. x \<noteq> WireDef i p) \<Longrightarrow>
     decode_ops paths previous (x # wire) =
       (case decode_ops paths (Some path) wire of (paths', r) \<Rightarrow> (paths', rbind r (\<lambda>ops. Inr (with_path x path # ops))))"
  by (cases x) auto

declare decode_ops.simps(2) [simp del]

definition tables_agree :: "Encoder \<Rightarrow> (nat \<rightharpoonup> path) \<Rightarrow> bool" where
  "tables_agree e paths \<longleftrightarrow>
     (\<forall>p i. ids e p = Some i \<longrightarrow> paths i = Some p \<and> i < nextId e) \<and>
     (\<forall>p i. ids e p = Some i \<longrightarrow> p \<in> set (seen e)) \<and> (\<forall>p\<in>set (seen e). safe_path p)"

definition valid_op :: "op \<Rightarrow> bool" where
  "valid_op x \<longleftrightarrow> assertValidOp x = Inr ()"

lemma valid_op_path: "valid_op x \<Longrightarrow> safe_path (op_path x)" "valid_op x \<Longrightarrow> edits_child x \<Longrightarrow> op_path x \<noteq> []"
  by (cases x; auto simp: valid_op_def assertPathArg_def split: if_splits)+

lemma with_path_with_ref [simp]: "\<not> isReplace x \<Longrightarrow> with_path (with_ref x ref) (op_path x) = x"
  "\<not> isReplace x \<Longrightarrow> wire_ref (with_ref x ref) = ref"
  "\<not> isReplace x \<Longrightarrow> is_splice (with_ref x ref) = (\<not> edits_child x)"
  by (cases x; simp add: isReplace_def)+

lemma decode_with_ref:
  assumes "\<not> isReplace x" "valid_op x" "wire_path paths previous (with_ref x ref) = Inr (op_path x)"
  shows "decode_ops paths previous (with_ref x ref # wire) =
    (case decode_ops paths (Some (op_path x)) wire of (paths', r) \<Rightarrow> (paths', rbind r (\<lambda>ops. Inr (x # ops))))"
proof -
  have v: "assertValidWireOp (with_ref x ref) = Inr ()"
    using valid_op_path(1) [OF assms(2)] assms(1,3)
    by (cases x; auto simp: assertValidWireOp_def wire_path_def isReplace_def split: option.splits path_ref.splits)
  have p: "is_splice (with_ref x ref) \<or> op_path x \<noteq> []" using valid_op_path(2) [OF assms(2)] assms(1) by auto
  show ?thesis
    using decode_other [OF v assms(3) p, of wire] assms(1) by (cases x) (simp_all add: isReplace_def)
qed

lemma encode_op_decodes:
  assumes "tables_agree e paths" "valid_op x" "encode_op e previous x = (e', previous', out)"
  shows "\<exists>paths'. tables_agree e' paths' \<and>
    (\<forall>wire. decode_ops paths previous (out @ wire) =
       (case decode_ops paths' previous' wire of (paths'', r) \<Rightarrow> (paths'', rbind r (\<lambda>ops. Inr (x # ops)))))"
proof (cases "isReplace x")
  case True
  with assms(3) show ?thesis
    by (cases x) (auto simp: isReplace_def encode_op_def tables_agree_def encoder_def intro!: exI [of _ Map.empty])
next
  case False
  note safe = valid_op_path(1) [OF assms(2)]
  consider (short) "previous = Some (op_path x)"
    | (known) i where "previous \<noteq> Some (op_path x)" "ids e (op_path x) = Some i"
    | (second) "previous \<noteq> Some (op_path x)" "ids e (op_path x) = None" "op_path x \<in> set (seen e)"
    | (fresh) "previous \<noteq> Some (op_path x)" "ids e (op_path x) = None" "op_path x \<notin> set (seen e)"
    by fastforce
  then show ?thesis
  proof cases
    case short
    then have "wire_path paths previous (with_ref x None) = Inr (op_path x)" using False by (simp add: wire_path_def)
    with decode_with_ref [OF False assms(2) this] assms(1,3) short False show ?thesis
      by (intro exI [of _ paths]) (auto simp: encode_op_def)
  next
    case known
    then have "wire_path paths previous (with_ref x (Some (Ref i))) = Inr (op_path x)"
      using False assms(1) by (simp add: wire_path_def tables_agree_def)
    with decode_with_ref [OF False assms(2) this] assms(1,3) known False show ?thesis
      by (intro exI [of _ paths]) (auto simp: encode_op_def)
  next
    case second
    let ?paths = "paths(nextId e \<mapsto> op_path x)"
    have out: "out = [WireDef (nextId e) (op_path x), with_ref x (Some (Ref (nextId e)))]"
      and e': "e' = e\<lparr>ids := (ids e)(op_path x \<mapsto> nextId e), nextId := nextId e + 1\<rparr>" "previous' = Some (op_path x)"
      using assms(3) second False by (auto simp: encode_op_def Let_def)
    have "wire_path ?paths previous (with_ref x (Some (Ref (nextId e)))) = Inr (op_path x)"
      using False by (simp add: wire_path_def)
    note d = decode_with_ref [OF False assms(2) this]
    have "tables_agree e' ?paths"
      using assms(1) second(3) unfolding tables_agree_def e' by (auto simp: less_Suc_eq)
    with d e' out safe show ?thesis
      by (intro exI [of _ ?paths]) simp
  next
    case fresh
    have "wire_path paths previous (with_ref x (Some (Inline (op_path x)))) = Inr (op_path x)"
      using False by (simp add: wire_path_def)
    note d = decode_with_ref [OF False assms(2) this]
    have "tables_agree (e\<lparr>seen := op_path x # seen e\<rparr>) paths"
      using assms(1) safe by (auto simp: tables_agree_def)
    with d assms(3) fresh False show ?thesis
      by (intro exI [of _ paths]) (auto simp: encode_op_def Let_def)
  qed
qed

lemma encode_ops_decodes:
  "tables_agree e paths \<Longrightarrow> list_all valid_op ops \<Longrightarrow> encode_ops e previous ops = (e', out) \<Longrightarrow>
     \<exists>paths'. decode_ops paths previous out = (paths', Inr ops) \<and> tables_agree e' paths'"
proof (induction ops arbitrary: e e' paths previous out)
  case (Cons x ops)
  obtain e1 prev1 out1 where x: "encode_op e previous x = (e1, prev1, out1)" using prod_cases3 by blast
  obtain e2 out2 where r: "encode_ops e1 prev1 ops = (e2, out2)" by fastforce
  from encode_op_decodes [OF Cons.prems(1) _ x] Cons.prems(2) obtain paths1 where
    p: "tables_agree e1 paths1" "\<And>wire. decode_ops paths previous (out1 @ wire) =
       (case decode_ops paths1 prev1 wire of (paths'', r) \<Rightarrow> (paths'', rbind r (\<lambda>ops. Inr (x # ops))))" by auto
  from Cons.IH [OF p(1) _ r] Cons.prems(2) obtain paths' where "decode_ops paths1 prev1 out2 = (paths', Inr ops)" "tables_agree e2 paths'"
    by auto
  with Cons.prems(3) x r p show ?case by auto
qed simp

interpretation delta: stateful_codec encode decode "list_all valid_op" tables_agree
  by unfold_locales (auto simp: encode_def decode_def dest: encode_ops_decodes)

text \<open>A base batch brings any encoder and any decoder into agreement: both clear their tables.\<close>

lemma base_batch_decodes:
  assumes "isBase ops" "list_all valid_op ops" "encode e ops = (e', out)"
  shows "\<exists>paths'. decode paths out = (paths', Inr ops) \<and> tables_agree e' paths'"
proof -
  obtain v rest where ops: "ops = OpR v # rest"
    using assms(1) by (cases ops) (auto simp: isBase_def isReplace_def split: op.splits)
  obtain out2 where o: "encode_ops encoder None rest = (e', out2)" "out = WireR v # out2"
    using assms(3) ops by (auto simp: encode_def encode_op_def isReplace_def split: prod.splits)
  have "tables_agree encoder Map.empty" by (simp add: tables_agree_def encoder_def)
  from encode_ops_decodes [OF this _ o(1)] assms(2) ops obtain paths' where
    "decode_ops Map.empty None out2 = (paths', Inr rest)" "tables_agree e' paths'" by auto
  with o(2) ops show ?thesis by (simp add: decode_def)
qed

section \<open>Properties\<close>

text \<open>
  C11. The wire round trip: every sequence of batches of valid operations that goes through one encoder and
  one decoder, both fresh at the start, is decoded to exactly those batches, whatever paths are
  interned, referenced or omitted on the way.
\<close>

theorem delta_codec_roundtrip:
  assumes "list_all (list_all valid_op) batches"
  shows "receive_all decode Map.empty (send_all encode encoder batches) = Inr batches"
  by (rule delta.all_arrive [OF _ assms]) (simp add: tables_agree_def encoder_def)

text \<open>
  C22. Recovery: from a batch that begins with a replacement on, the stream can be read by a decoder in any
  state (a fresh one included), however long the encoder has run before; all later batches arrive.
\<close>

theorem delta_codec_recovery:
  assumes "isBase b" "list_all (list_all valid_op) (b # batches)"
  shows "receive_all decode paths (send_all encode e (b # batches)) = Inr (b # batches)"
proof -
  obtain e' out where o: "encode e b = (e', out)" by fastforce
  from base_batch_decodes [OF assms(1) _ o] assms(2) obtain paths' where
    "decode paths out = (paths', Inr b)" "tables_agree e' paths'" by auto
  with o assms(2) delta.all_arrive [of e' paths' batches] show ?thesis by simp
qed

definition sample_batch :: "op list" where
  "sample_batch = [OpS [Key (js ''a'')] Null, OpD [Key (js ''b'')], OpA [Key (js ''a'')] (js ''x''), OpT [Key (js ''a'')] 1]"

lemma sample_batch_valid: "list_all valid_op sample_batch"
  by (simp add: sample_batch_def valid_op_def assertPathArg_def RESERVED_SEGMENTS_def js_def)

theorem delta_codec_roundtrip_witness:
  "receive_all decode Map.empty (send_all encode encoder [[OpR Null], sample_batch, sample_batch]) = Inr [[OpR Null], sample_batch, sample_batch]"
  by (rule delta_codec_roundtrip) (simp add: sample_batch_valid, simp add: valid_op_def)

theorem delta_codec_recovery_witness:
  "receive_all decode (Map.empty(0 \<mapsto> [])) (send_all encode (fst (encode encoder (sample_batch @ sample_batch))) [OpR Null # sample_batch, sample_batch])
     = Inr [OpR Null # sample_batch, sample_batch]"
  by (rule delta_codec_recovery) (simp_all add: isBase_def isReplace_def sample_batch_valid valid_op_def [of "OpR _"])

end
