(* ===== verification/Js_Arith.thy ===== *)
theory Js_Arith
  imports Js_Values
begin

text \<open>
  Addition of JavaScript numbers, which the token and cost totals of a session use: IEEE 754
  binary64 addition with rounding to nearest, ties to even, on the numbers of \<^verbatim>\<open>Js_Values\<close>.
\<close>

text \<open>
  A finite double is an integral multiple of \<open>2 ^ (- 1074)\<close>; \<open>num_scaled\<close> is that multiple.
\<close>

definition dbl_scaled :: "64 word \<Rightarrow> int" where
  "dbl_scaled b =
     dbl_sgn b * int (if dbl_exp b = 0 then dbl_man b else (2 ^ 52 + dbl_man b) * 2 ^ (dbl_exp b - 1))"

fun num_scaled :: "jnum \<Rightarrow> int" where
  "num_scaled (JInt i) = i * 2 ^ 1074"
| "num_scaled (JDbl b) = dbl_scaled b"

fun bit_length :: "nat \<Rightarrow> nat" where
  "bit_length n = (if n = 0 then 0 else Suc (bit_length (n div 2)))"

declare bit_length.simps [simp del]

text \<open>Rounding a multiple to 53 significant bits, and the bits of a rounded multiple.\<close>

definition round_scaled :: "nat \<Rightarrow> nat" where
  "round_scaled n =
     (if bit_length n \<le> 53 then n
      else let s = bit_length n - 53; q = n div 2 ^ s; r = n mod 2 ^ s in
        (if 2 * r < 2 ^ s \<or> 2 * r = 2 ^ s \<and> even q then q else Suc q) * 2 ^ s)"

definition scaled_bits :: "nat \<Rightarrow> nat" where
  "scaled_bits v =
     (if v < 2 ^ 52 then v
      else let e = bit_length v - 52 in
        if 2047 \<le> e then 2047 * 2 ^ 52 else e * 2 ^ 52 + (v div 2 ^ (e - 1) - 2 ^ 52))"

definition round_number :: "int \<Rightarrow> jnum" where
  "round_number z =
     number_of_bits (of_nat (scaled_bits (round_scaled (nat \<bar>z\<bar>)) + (if z < 0 then 2 ^ 63 else 0)))"

definition quiet_nan :: jnum where
  "quiet_nan = JDbl 0x7ff8000000000000"

text \<open>
  The sum of two integers within the safe range is exact. Otherwise a NaN or two opposite
  infinities give NaN, an infinity absorbs, two negative zeros give negative zero, and the exact sum
  of finite numbers is rounded.
\<close>

definition num_add :: "jnum \<Rightarrow> jnum \<Rightarrow> jnum" where
  "num_add a b =
     (case (a, b) of
        (JInt i, JInt j) \<Rightarrow> if safe_int (i + j) then JInt (i + j) else round_number ((i + j) * 2 ^ 1074)
      | _ \<Rightarrow>
        if num_nan a \<or> num_nan b then quiet_nan
        else if \<not> num_finite a then (if num_finite b \<or> a = b then a else quiet_nan)
        else if \<not> num_finite b then b
        else if a = JDbl neg_zero \<and> b = JDbl neg_zero then JDbl neg_zero
        else round_number (num_scaled a + num_scaled b))"

lemma num_add_ints [simp]: "safe_int (i + j) \<Longrightarrow> num_add (JInt i) (JInt j) = JInt (i + j)"
  by (simp add: num_add_def)

lemma num_add_0 [simp]: "safe_int i \<Longrightarrow> num_add (JInt 0) (JInt i) = JInt i"
  by (simp add: num_add_def)

end
