(* ===== verification/Agent_Messages.thy ===== *)
theory Agent_Messages
  imports Js_Arith Json
begin

text \<open>
  The messages of a conversation: the provider messages and token usage of \<^verbatim>\<open>packages/ai/src/types.ts\<close>,
  the harness messages of \<^verbatim>\<open>packages/agent/src/harness/messages.ts\<close> with their conversion to provider
  messages, and the usage arithmetic of \<^verbatim>\<open>packages/agent/src/harness/utils/usage.ts\<close>. Timestamps are
  whole milliseconds (\<open>int\<close>); token counts and costs are JavaScript numbers.
\<close>

section \<open>Usage\<close>

record usage_cost =
  c_input :: jnum
  c_output :: jnum
  c_cacheRead :: jnum
  c_cacheWrite :: jnum
  c_total :: jnum

record usage =
  u_input :: jnum
  u_output :: jnum
  u_cacheRead :: jnum
  u_cacheWrite :: jnum
  u_cacheWrite1h :: "jnum option"
  u_reasoning :: "jnum option"
  u_totalTokens :: jnum
  u_cost :: usage_cost

definition emptyUsage :: usage where
  "emptyUsage =
     \<lparr>u_input = JInt 0, u_output = JInt 0, u_cacheRead = JInt 0, u_cacheWrite = JInt 0,
      u_cacheWrite1h = None, u_reasoning = None, u_totalTokens = JInt 0,
      u_cost = \<lparr>c_input = JInt 0, c_output = JInt 0, c_cacheRead = JInt 0, c_cacheWrite = JInt 0, c_total = JInt 0\<rparr>\<rparr>"

text \<open>An optional counter is present in the sum when it is present on either side.\<close>

definition add_optional :: "jnum option \<Rightarrow> jnum option \<Rightarrow> jnum option" where
  "add_optional l r =
     (if l = None \<and> r = None then None
      else Some (num_add (case l of None \<Rightarrow> JInt 0 | Some n \<Rightarrow> n) (case r of None \<Rightarrow> JInt 0 | Some n \<Rightarrow> n)))"

definition addUsage :: "usage \<Rightarrow> usage \<Rightarrow> usage" where
  "addUsage left right =
     \<lparr>u_input = num_add (u_input left) (u_input right),
      u_output = num_add (u_output left) (u_output right),
      u_cacheRead = num_add (u_cacheRead left) (u_cacheRead right),
      u_cacheWrite = num_add (u_cacheWrite left) (u_cacheWrite right),
      u_cacheWrite1h = add_optional (u_cacheWrite1h left) (u_cacheWrite1h right),
      u_reasoning = add_optional (u_reasoning left) (u_reasoning right),
      u_totalTokens = num_add (u_totalTokens left) (u_totalTokens right),
      u_cost =
        \<lparr>c_input = num_add (c_input (u_cost left)) (c_input (u_cost right)),
         c_output = num_add (c_output (u_cost left)) (c_output (u_cost right)),
         c_cacheRead = num_add (c_cacheRead (u_cost left)) (c_cacheRead (u_cost right)),
         c_cacheWrite = num_add (c_cacheWrite (u_cost left)) (c_cacheWrite (u_cost right)),
         c_total = num_add (c_total (u_cost left)) (c_total (u_cost right))\<rparr>\<rparr>"

section \<open>Provider messages\<close>

datatype stop_reason =
  StopPending | StopStop | StopLength | StopToolUse | StopError | StopAborted | StopDeferred

text \<open>
  Content blocks. User and tool-result content holds text and images, assistant content holds text,
  thinking and tool calls; \<open>arguments\<close> is a JSON object.
\<close>

record text_content =
  tc_text :: jstring
  tc_textSignature :: "jstring option"

record image_content =
  im_data :: jstring
  im_mimeType :: jstring

record thinking_content =
  th_thinking :: jstring
  th_thinkingSignature :: "jstring option"
  th_redacted :: "bool option"

record tool_call_content =
  tcall_id :: jstring
  tcall_name :: jstring
  tcall_arguments :: "(jstring \<times> json) list"
  tcall_thoughtSignature :: "jstring option"
  tcall_namespace :: "jstring option"

datatype input_content = InText text_content | InImage image_content

datatype assistant_content = AsText text_content | AsThinking thinking_content | AsToolCall tool_call_content

datatype message_content = PlainText jstring | Blocks "input_content list"

record deferred_handle =
  dh_provider :: jstring
  dh_modelId :: jstring
  dh_api :: jstring
  dh_id :: jstring
  dh_expiresAt :: "int option"
  dh_pollAfterMs :: "jnum option"
  dh_data :: "json option"

record user_message =
  um_content :: message_content
  um_timestamp :: int

record assistant_message =
  am_content :: "assistant_content list"
  am_api :: jstring
  am_provider :: jstring
  am_model :: jstring
  am_responseModel :: "jstring option"
  am_responseId :: "jstring option"
  am_providerThinkingLevel :: "jstring option"
  am_diagnostics :: "json option"
  am_usage :: usage
  am_stopReason :: stop_reason
  am_deferred :: "deferred_handle option"
  am_errorMessage :: "jstring option"
  am_rawStopReason :: "jstring option"
  am_endTurn :: "bool option"
  am_timestamp :: int

record tool_result_message =
  tr_toolCallId :: jstring
  tr_toolName :: jstring
  tr_content :: "input_content list"
  tr_details :: "json option"
  tr_usage :: "usage option"
  tr_addedToolNames :: "jstring list option"
  tr_isError :: bool
  tr_timestamp :: int

datatype llm_message =
    UserMsg user_message
  | AssistantMsg assistant_message
  | ToolResultMsg tool_result_message

section \<open>Harness messages\<close>

text \<open>The exit code of a command is a number or undefined; it is a whole number.\<close>

record bash_execution =
  be_command :: jstring
  be_output :: jstring
  be_exitCode :: "int option"
  be_cancelled :: bool
  be_truncated :: bool
  be_fullOutputPath :: "jstring option"
  be_timestamp :: int
  be_excludeFromContext :: "bool option"

record custom_message =
  cm_customType :: jstring
  cm_content :: message_content
  cm_display :: bool
  cm_details :: "json option"
  cm_timestamp :: int

record branch_summary_message =
  bs_summary :: jstring
  bs_fromId :: "jstring option"
  bs_timestamp :: int

record compaction_summary_message =
  cs_summary :: jstring
  cs_tokensBefore :: jnum
  cs_timestamp :: int

text \<open>
  \<^verbatim>\<open>AgentMessage\<close>: the provider messages and the harness's own. Applications may add roles by
  declaration merging; such a message is its role and its JSON body.
\<close>

datatype agent_message =
    Llm llm_message
  | BashExecution bash_execution
  | CustomMsg custom_message
  | BranchSummaryMsg branch_summary_message
  | CompactionSummaryMsg compaction_summary_message
  | AppMsg jstring json

text \<open>The role of a message is assistant, and its stop reason is the one given.\<close>

definition stops_with :: "stop_reason \<Rightarrow> agent_message \<Rightarrow> bool" where
  "stops_with r m = (case m of Llm (AssistantMsg a) \<Rightarrow> am_stopReason a = r | _ \<Rightarrow> False)"

section \<open>Conversion to provider messages\<close>

definition nl :: jstring where
  "nl = [10]"

definition COMPACTION_SUMMARY_PREFIX :: jstring where
  "COMPACTION_SUMMARY_PREFIX =
     js ''The conversation history before this point was compacted into the following summary:'' @ nl @ nl @
     js ''<summary>'' @ nl"

definition COMPACTION_SUMMARY_SUFFIX :: jstring where
  "COMPACTION_SUMMARY_SUFFIX = nl @ js ''</summary>''"

definition BRANCH_SUMMARY_PREFIX :: jstring where
  "BRANCH_SUMMARY_PREFIX =
     js ''The following is a summary of a branch that this conversation came back from:'' @ nl @ nl @
     js ''<summary>'' @ nl"

definition BRANCH_SUMMARY_SUFFIX :: jstring where
  "BRANCH_SUMMARY_SUFFIX = js ''</summary>''"

text \<open>Decimal text of a whole number, as a template literal prints it.\<close>

fun nat_text :: "nat \<Rightarrow> jstring" where
  "nat_text n = (if n < 10 then [of_nat (48 + n)] else nat_text (n div 10) @ [of_nat (48 + n mod 10)])"

declare nat_text.simps [simp del]

definition int_text :: "int \<Rightarrow> jstring" where
  "int_text i = (if i < 0 then js ''-'' @ nat_text (nat (- i)) else nat_text (nat i))"

definition bashExecutionToText :: "bash_execution \<Rightarrow> jstring" where
  "bashExecutionToText msg =
     (let text = js ''Ran `'' @ be_command msg @ js ''`'' @ nl;
          text = text @ (if be_output msg \<noteq> [] then js ''```'' @ nl @ be_output msg @ nl @ js ''```''
                         else js ''(no output)'');
          text = text @ (if be_cancelled msg then nl @ nl @ js ''(command cancelled)''
                         else case be_exitCode msg of
                             Some c \<Rightarrow> if c \<noteq> 0 then nl @ nl @ js ''Command exited with code '' @ int_text c else []
                           | None \<Rightarrow> [])
      in text @ (case be_fullOutputPath msg of
            Some p \<Rightarrow> if be_truncated msg \<and> p \<noteq> [] then nl @ nl @ js ''[Output truncated. Full output: '' @ p @ js '']'' else []
          | None \<Rightarrow> []))"

definition createBranchSummaryMessage :: "jstring \<Rightarrow> jstring option \<Rightarrow> int \<Rightarrow> agent_message" where
  "createBranchSummaryMessage summary fromId timestamp =
     BranchSummaryMsg \<lparr>bs_summary = summary, bs_fromId = fromId, bs_timestamp = timestamp\<rparr>"

definition createCompactionSummaryMessage :: "jstring \<Rightarrow> jnum \<Rightarrow> int \<Rightarrow> agent_message" where
  "createCompactionSummaryMessage summary tokensBefore timestamp =
     CompactionSummaryMsg \<lparr>cs_summary = summary, cs_tokensBefore = tokensBefore, cs_timestamp = timestamp\<rparr>"

definition createCustomMessage :: "jstring \<Rightarrow> message_content \<Rightarrow> bool \<Rightarrow> json option \<Rightarrow> int \<Rightarrow> agent_message" where
  "createCustomMessage customType content display details timestamp =
     CustomMsg \<lparr>cm_customType = customType, cm_content = content, cm_display = display, cm_details = details,
       cm_timestamp = timestamp\<rparr>"

definition user_text :: "jstring \<Rightarrow> int \<Rightarrow> llm_message" where
  "user_text s t =
     UserMsg \<lparr>um_content = Blocks [InText \<lparr>tc_text = s, tc_textSignature = None\<rparr>], um_timestamp = t\<rparr>"

fun convert_message :: "agent_message \<Rightarrow> llm_message option" where
  "convert_message (BashExecution m) =
     (if be_excludeFromContext m = Some True then None
      else Some (user_text (bashExecutionToText m) (be_timestamp m)))"
| "convert_message (CustomMsg m) =
     Some (case cm_content m of
         PlainText s \<Rightarrow> user_text s (cm_timestamp m)
       | Blocks bs \<Rightarrow> UserMsg \<lparr>um_content = Blocks bs, um_timestamp = cm_timestamp m\<rparr>)"
| "convert_message (BranchSummaryMsg m) =
     Some (user_text (BRANCH_SUMMARY_PREFIX @ bs_summary m @ BRANCH_SUMMARY_SUFFIX) (bs_timestamp m))"
| "convert_message (CompactionSummaryMsg m) =
     Some (user_text (COMPACTION_SUMMARY_PREFIX @ cs_summary m @ COMPACTION_SUMMARY_SUFFIX) (cs_timestamp m))"
| "convert_message (Llm m) = Some m"
| "convert_message (AppMsg role body) = None"

definition convertToLlm :: "agent_message list \<Rightarrow> llm_message list" where
  "convertToLlm messages = List.map_filter convert_message messages"

lemma convertToLlm_append: "convertToLlm (xs @ ys) = convertToLlm xs @ convertToLlm ys"
  by (simp add: convertToLlm_def List.map_filter_def)

lemma convertToLlm_provider: "convertToLlm (map Llm ms) = ms"
  by (induction ms) (simp_all add: convertToLlm_def List.map_filter_def)

end
