(* ===== verification/Session_Types.thy ===== *)
theory Session_Types
  imports Agent_Messages
begin

text \<open>
  The data of \<^verbatim>\<open>packages/agent/src/harness/session/types.ts\<close>: transcript entries, the durable lane and
  operation records, usage rows, queries, and the metadata of a session. An interface is a record, a
  discriminated union a datatype whose constructors are its members, an optional property an
  option. Sequence numbers, timestamps and counts are whole numbers (\<open>int\<close>), exact below \<open>2 ^ 53\<close>.
\<close>

section \<open>Entries\<close>

datatype entry_type = EMessage | ECompaction | EBranchSummary | ECustom

record compaction_data =
  co_summary :: jstring
  co_retainedTail :: "agent_message list"
  co_tokensBefore :: jnum
  co_details :: "json option"
  co_usage :: "usage option"
  co_fromHook :: bool

record branch_summary_data =
  br_fromId :: "jstring option"
  br_summary :: jstring
  br_details :: "json option"
  br_usage :: "usage option"
  br_fromHook :: bool

text \<open>The part of an entry that depends on its type; the flag of a message is \<^verbatim>\<open>terminate\<close>.\<close>

datatype entry_body =
    MessageBody agent_message bool
  | CompactionBody compaction_data
  | BranchSummaryBody branch_summary_data
  | CustomBody "json option"

record new_entry =
  ne_id :: jstring
  ne_parentId :: "jstring option"
  ne_customType :: "jstring option"
  ne_body :: entry_body

record entry = new_entry +
  e_seq :: int
  e_timestamp :: int

fun body_type :: "entry_body \<Rightarrow> entry_type" where
  "body_type (MessageBody _ _) = EMessage"
| "body_type (CompactionBody _) = ECompaction"
| "body_type (BranchSummaryBody _) = EBranchSummary"
| "body_type (CustomBody _) = ECustom"

definition entry_type_of :: "('a) new_entry_scheme \<Rightarrow> entry_type" where
  "entry_type_of e = body_type (ne_body e)"

record entry_structure =
  es_id :: jstring
  es_parentId :: "jstring option"
  es_seq :: int
  es_timestamp :: int
  es_type :: entry_type
  es_customType :: "jstring option"

section \<open>Lanes and operations\<close>

datatype thinking_level = TOff | TMinimal | TLow | TMedium | THigh | TXhigh | TMax

record model_ref =
  mr_provider :: jstring
  mr_modelId :: jstring

record lane_configuration =
  lc_model :: model_ref
  lc_thinkingLevel :: thinking_level
  lc_activeToolNames :: "jstring list"

datatype operation_intent =
    RunIntent "jstring list"
  | CompactionIntent "jstring option"
  | NavigationIntent (intent_targetId: "jstring option") (intent_summarize: bool)
      (intent_label: "jstring option") (intent_customInstructions: "jstring option")

record operation_meta =
  om_operationId :: jstring
  om_lane :: jstring
  om_sourceTipId :: "jstring option"
  om_startedAt :: int
  om_intent :: operation_intent

datatype op_kind = KRun | KCompaction | KNavigation

fun intent_kind :: "operation_intent \<Rightarrow> op_kind" where
  "intent_kind (RunIntent _) = KRun"
| "intent_kind (CompactionIntent _) = KCompaction"
| "intent_kind (NavigationIntent _ _ _ _) = KNavigation"

datatype op_control = Running | CancelRequested int

record operation_error =
  oe_code :: jstring
  oe_message :: jstring
  oe_details :: "json option"

datatype terminal_status = Completed | Declined | Aborted | Failed

record operation_result =
  or_operationId :: jstring
  or_kind :: op_kind
  or_status :: terminal_status
  or_error :: "operation_error option"
  or_fromTipId :: "jstring option"
  or_tipId :: "jstring option"
  or_startedAt :: int
  or_endedAt :: int

datatype continuation =
    NeedAssistant bool
  | MayFinish bool

record checkpoint_data =
  cp_continuation :: continuation
  cp_triggerEntryId :: jstring

datatype inbox_kind = Steer | FollowUp | NextRun | WriteItem

record inbox_item =
  ii_entryId :: jstring
  ii_kind :: inbox_kind

record retry_policy =
  rp_maxAttempts :: int
  rp_baseDelayMs :: jnum

text \<open>The options of a provider request; nothing in the session reads them.\<close>

record stream_options =
  so_transport :: "jstring option"
  so_timeoutMs :: "jnum option"
  so_maxRetries :: "jnum option"
  so_maxRetryDelayMs :: "jnum option"
  so_headers :: "(jstring \<times> jstring) list option"
  so_metadata :: "json option"
  so_cacheRetention :: "jstring option"
  so_deferred :: "json option"

record generation_context =
  gc_stepId :: jstring
  gc_triggerEntryId :: jstring
  gc_configuration :: lane_configuration
  gc_streamOptions :: stream_options
  gc_retryPolicy :: retry_policy
  gc_overflowRecoveryUsed :: bool

datatype tool_replay = ReplayNever | ReplaySafe

datatype tool_call_status =
    Planned
  | EffectPending tool_replay
  | OutcomeReady bool
  | CallCompleted bool

record tool_call =
  tl_sourceIndex :: int
  tl_resultEntryId :: jstring
  tl_status :: tool_call_status

record tool_batch =
  tb_assistantEntryId :: jstring
  tb_configuration :: lane_configuration
  tb_turnId :: jstring
  tb_calls :: "tool_call list"

record summary_context =
  sc_resultEntryId :: jstring
  sc_configuration :: lane_configuration
  sc_streamOptions :: stream_options
  sc_retryPolicy :: retry_policy

record compaction_settings =
  cse_enabled :: bool
  cse_reserveTokens :: jnum
  cse_keepRecentTokens :: jnum

datatype queue_mode = QueueAll | OneAtATime

datatype tool_execution = Sequential | Parallel

record run_settings =
  rs_compaction :: compaction_settings
  rs_steeringMode :: queue_mode
  rs_followUpMode :: queue_mode
  rs_toolExecution :: tool_execution

record operation_scope =
  os_control :: op_control
  os_settings :: run_settings
  os_latestAssistantEntryId :: "jstring option"

record retry_wait =
  rw_nextAttempt :: int
  rw_notBefore :: jnum
  rw_errorMessage :: jstring

datatype result_boundary =
    ResumeCheckpoint checkpoint_data
  | Finish
  | CommitNavigation jstring "jstring option"

datatype summary_reason = RManual | RThreshold | ROverflow

record summary_task =
  st_taskId :: jstring
  st_reason :: "summary_reason option"
  st_customInstructions :: "jstring option"
  st_boundary :: result_boundary

record summary_request =
  sr_index :: int
  sr_usageId :: jstring

record deferred_scope =
  ds_stepId :: jstring
  ds_sourceEntryId :: jstring
  ds_poll :: int
  ds_configuration :: lane_configuration
  ds_streamOptions :: stream_options

text \<open>
  The flat union of the thirteen leaves. Each carries the scope every leaf has; the arguments
  that follow are the leaf's own properties in declaration order.
\<close>

datatype operation_state =
    Starting operation_scope
  | Checkpoint operation_scope checkpoint_data
  | AssistantReady operation_scope generation_context int
  | AssistantEffectPending operation_scope generation_context int jstring jstring jnum jnum
  | AssistantRetryWait operation_scope generation_context retry_wait
  | Tools operation_scope tool_batch
  | DeferredSuspended operation_scope deferred_scope
  | DeferredEffectPending operation_scope deferred_scope jstring jstring
  | SummaryDeciding operation_scope summary_task
  | SummaryReady operation_scope summary_task summary_context int
  | SummaryEffectPending operation_scope summary_task summary_context int "summary_request option" "jstring list"
  | SummaryRetryWait operation_scope summary_task summary_context retry_wait
  | NavigationReadyToCommit operation_scope "jstring option" "jstring option"

fun operationScopeOf :: "operation_state \<Rightarrow> operation_scope" where
  "operationScopeOf (Starting s) = s"
| "operationScopeOf (Checkpoint s _) = s"
| "operationScopeOf (AssistantReady s _ _) = s"
| "operationScopeOf (AssistantEffectPending s _ _ _ _ _ _) = s"
| "operationScopeOf (AssistantRetryWait s _ _) = s"
| "operationScopeOf (Tools s _) = s"
| "operationScopeOf (DeferredSuspended s _) = s"
| "operationScopeOf (DeferredEffectPending s _ _ _) = s"
| "operationScopeOf (SummaryDeciding s _) = s"
| "operationScopeOf (SummaryReady s _ _ _) = s"
| "operationScopeOf (SummaryEffectPending s _ _ _ _ _) = s"
| "operationScopeOf (SummaryRetryWait s _ _ _) = s"
| "operationScopeOf (NavigationReadyToCommit s _ _) = s"

record operation =
  op_meta :: operation_meta
  op_state :: operation_state

record lane_state =
  ls_currentOperationId :: "jstring option"
  ls_lastOperationId :: "jstring option"
  ls_inbox :: "inbox_item list"

datatype pending_entry =
    PendingMessage agent_message
  | PendingCustom jstring "json option"

record durable_file_ops =
  df_read :: "jstring list"
  df_written :: "jstring list"
  df_edited :: "jstring list"

record compaction_preparation =
  dp_messagesToSummarize :: "agent_message list"
  dp_turnPrefixMessages :: "agent_message list"
  dp_retainedTail :: "agent_message list"
  dp_isSplitTurn :: bool
  dp_tokensBefore :: jnum
  dp_previousSummary :: "jstring option"
  dp_fileOps :: durable_file_ops
  dp_settings :: compaction_settings

datatype structural_preparation =
    CompactionPrep compaction_preparation
  | BranchSummaryPrep "agent_message list" durable_file_ops jnum

section \<open>Usage rows, statistics and queries\<close>

record new_usage_row =
  ur_id :: jstring
  ur_usage :: usage
  ur_entryId :: "jstring option"
  ur_adjustment :: bool
  ur_details :: "json option"

record usage_row = new_usage_row +
  ur_seq :: int

record session_stats =
  ss_messageCount :: int
  ss_usage :: usage

datatype branch_order = NewestFirst | OldestFirst

datatype seq_order = Asc | Desc

text \<open>A cursor is a sequence number. The record is \<^verbatim>\<open>StorageBranchScan\<close>, whose start is given.\<close>

record branch_scan =
  bq_start :: jstring
  bq_stopAtType :: "entry_type option"
  bq_stopAtId :: "jstring option"
  bq_type :: "entry_type option"
  bq_customType :: "jstring option"
  bq_order :: "branch_order option"
  bq_limit :: "int option"
  bq_cursor :: "int option"

record entry_scan =
  eq_type :: "entry_type option"
  eq_customType :: "jstring option"
  eq_fromSeq :: "int option"
  eq_toSeq :: "int option"
  eq_order :: "seq_order option"
  eq_limit :: "int option"

record usage_scan =
  uq_fromSeq :: "int option"
  uq_toSeq :: "int option"
  uq_order :: "seq_order option"
  uq_limit :: "int option"

record entry_query =
  q_type :: "entry_type option"
  q_customType :: "jstring option"
  q_order :: "seq_order option"
  q_limit :: "int option"
  q_cursor :: "int option"

record session_metadata =
  sm_id :: jstring
  sm_createdAt :: int
  sm_storageVersion :: int
  sm_cwd :: "jstring option"
  sm_parentSessionId :: "jstring option"
  sm_legacyParentSessionPath :: "jstring option"

record session_create_options =
  sco_id :: "jstring option"
  sco_parentSessionId :: "jstring option"

datatype fork_position = PositionBefore | PositionAt

datatype fork_options =
    ForkBranch (fork_branch: jstring) (fork_entryId: "jstring option") (fork_position: "fork_position option")
      (fork_id: "jstring option")
  | ForkTree (fork_id: "jstring option")

end
