(* ===== verification/Js_Collections.thy ===== *)
theory Js_Collections
  imports Prelude "HOL-Library.AList" "HOL-Library.Sublist" "HOL-Library.Multiset"
begin

text \<open>
  Collections of the JavaScript library as the session code uses them. A \<^verbatim>\<open>Map\<close> is an association
  list in insertion order: \<open>AList.update\<close> is \<^verbatim>\<open>set\<close> (an existing key keeps its place, a new one goes to
  the end), \<open>AList.delete\<close> is \<^verbatim>\<open>delete\<close>, \<open>map_of\<close> is \<^verbatim>\<open>get\<close>. \<^verbatim>\<open>Array.prototype.sort\<close> is
  stable; \<open>js_sort\<close> is a stable sort by a comparison function that returns a number.
\<close>

section \<open>Maps in insertion order\<close>

abbreviation keys :: "('k \<times> 'v) list \<Rightarrow> 'k list" where
  "keys m \<equiv> map fst m"

abbreviation has_key :: "('k \<times> 'v) list \<Rightarrow> 'k \<Rightarrow> bool" where
  "has_key m k \<equiv> map_of m k \<noteq> None"

definition map_values :: "('k \<times> 'v) list \<Rightarrow> 'v list" where
  "map_values m = map snd m"

lemma map_of_update [simp]: "map_of (AList.update k v m) k' = (if k' = k then Some v else map_of m k')"
  by (simp add: update_conv')

lemma map_of_delete [simp]: "map_of (AList.delete k m) k' = (if k' = k then None else map_of m k')"
  by (simp add: delete_conv')

lemma update_new: "map_of m k = None \<Longrightarrow> AList.update k v m = m @ [(k, v)]"
  by (induction m) (auto split: if_splits)

lemma distinct_keys_update [simp]: "distinct (keys m) \<Longrightarrow> distinct (keys (AList.update k v m))"
  by (rule distinct_update)

lemma distinct_keys_delete [simp]: "distinct (keys m) \<Longrightarrow> distinct (keys (AList.delete k m))"
  by (rule distinct_delete)

lemma map_values_lookup:
  "distinct (keys m) \<Longrightarrow> v \<in> set (map_values m) \<longleftrightarrow> (\<exists>k. map_of m k = Some v)"
  by (force simp: map_values_def)

lemma map_values_snoc: "map_of m k = None \<Longrightarrow> map_values (AList.update k v m) = map_values m @ [v]"
  by (simp add: map_values_def update_new)

section \<open>Stable sorting\<close>

fun insert_by :: "('a \<Rightarrow> 'a \<Rightarrow> int) \<Rightarrow> 'a \<Rightarrow> 'a list \<Rightarrow> 'a list" where
  "insert_by cmp x [] = [x]"
| "insert_by cmp x (y # ys) = (if cmp x y \<le> 0 then x # y # ys else y # insert_by cmp x ys)"

definition js_sort :: "('a \<Rightarrow> 'a \<Rightarrow> int) \<Rightarrow> 'a list \<Rightarrow> 'a list" where
  "js_sort cmp xs = foldr (insert_by cmp) xs []"

lemma js_sort_simps [simp]:
  "js_sort cmp [] = []" "js_sort cmp (x # xs) = insert_by cmp x (js_sort cmp xs)"
  by (simp_all add: js_sort_def)

lemma mset_insert_by [simp]: "mset (insert_by cmp x ys) = add_mset x (mset ys)"
  by (induction ys) auto

lemma mset_js_sort [simp]: "mset (js_sort cmp xs) = mset xs"
  by (induction xs) auto

lemma set_js_sort [simp]: "set (js_sort cmp xs) = set xs"
  by (metis mset_js_sort set_mset_mset)

lemma length_js_sort [simp]: "length (js_sort cmp xs) = length xs"
  by (metis mset_js_sort size_mset)

lemma set_insert_by: "set (insert_by cmp x ys) = insert x (set ys)"
  by (metis mset_insert_by set_mset_add_mset_insert set_mset_mset)

lemma sorted_insert_by:
  assumes total: "\<And>x y. cmp x y \<le> 0 \<or> cmp y x \<le> 0"
    and trans: "\<And>x y z. cmp x y \<le> 0 \<Longrightarrow> cmp y z \<le> 0 \<Longrightarrow> cmp x z \<le> 0"
    and "sorted_wrt (\<lambda>x y. cmp x y \<le> 0) ys"
  shows "sorted_wrt (\<lambda>x y. cmp x y \<le> 0) (insert_by cmp x ys)"
  using assms(3) by (induction ys) (auto simp: set_insert_by dest: trans intro: total [THEN disjE])

lemma sorted_js_sort:
  assumes "\<And>x y. cmp x y \<le> 0 \<or> cmp y x \<le> 0"
    and "\<And>x y z. cmp x y \<le> 0 \<Longrightarrow> cmp y z \<le> 0 \<Longrightarrow> cmp x z \<le> 0"
  shows "sorted_wrt (\<lambda>x y. cmp x y \<le> 0) (js_sort cmp xs)"
  by (induction xs) (simp_all add: sorted_insert_by [OF assms])

lemma js_sort_id: "sorted_wrt (\<lambda>x y. cmp x y \<le> 0) xs \<Longrightarrow> js_sort cmp xs = xs"
proof (induction xs)
  case (Cons x xs)
  then show ?case by (cases xs) auto
qed simp

text \<open>Sorting by a numeric key.\<close>

lemma sorted_js_sort_key: "sorted_wrt (\<lambda>x y. f x \<le> f y) (js_sort (\<lambda>x y. f x - f y) xs)"
  using sorted_js_sort [of "\<lambda>x y. f x - f y" xs] by (simp add: linear)

lemma js_sort_key_id: "sorted_wrt (\<lambda>x y. f x \<le> f y) xs \<Longrightarrow> js_sort (\<lambda>x y. f x - f y) xs = xs"
  by (rule js_sort_id) simp

section \<open>String literals\<close>

lemma js_Nil [simp]: "js [] = []"
  by (simp add: js_def)

lemma js_append: "js (s @ t) = js s @ js t"
  by (simp add: js_def)

lemma unat_of_char16: "unat (of_char c :: 16 word) = of_char c"
proof -
  have "(of_char c :: 16 word) = of_nat (of_char c)" by (simp only: of_nat_of_char)
  moreover have "of_char c mod (65536 :: nat) = of_char c"
  proof (rule mod_less)
    have "of_char c mod 256 < (256 :: nat)" by (rule mod_less_divisor) simp
    then have "of_char c < (256 :: nat)" by (simp only: of_char_mod_256)
    then show "of_char c < (65536 :: nat)" by (rule less_trans) simp
  qed
  ultimately show ?thesis by (simp add: unat_of_nat)
qed

lemma inj_of_char16: "inj (of_char :: char \<Rightarrow> 16 word)"
  by (rule injI) (metis unat_of_char16 of_char_eq_iff)

lemma js_eq_iff [simp]: "js s = js t \<longleftrightarrow> s = t"
  unfolding js_def by (rule inj_map_eq_map [OF inj_of_char16])

lemma js_eq_Nil [simp]: "js s = [] \<longleftrightarrow> s = []"
  by (simp add: js_def)

lemma js_prefix_iff [simp]: "prefix (js s) (js t) \<longleftrightarrow> prefix s t"
proof
  assume "prefix (js s) (js t)"
  then have "js (take (length s) t) = js s"
    by (auto simp: js_def prefix_def take_map [symmetric])
  then show "prefix s t" by (metis js_eq_iff take_is_prefix)
qed (auto simp: prefix_def js_append)

end
