(* ===== verification/Session_Values.thy ===== *)
theory Session_Values
  imports Session_Types Js_Collections
begin

text \<open>
  Addresses and writes of a session: \<^verbatim>\<open>packages/agent/src/harness/session/values.ts\<close> and
  \<^verbatim>\<open>commit.ts\<close>. A scalar value or list lives at a namespace and a key; a write inserts an entry or
  usage row, or sets, deletes or appends at an address. \<open>validateCommittedWrites\<close> is the gate every
  transaction passes.
\<close>

section \<open>Errors\<close>

text \<open>
  The errors thrown by the session code. \<open>NeverReturns\<close> is not thrown: it is the outcome of a loop
  that does not end.
\<close>

datatype (plugins only: code) session_error =
    EmptyNamespace | NamespaceHasNul | KeyHasNul
  | InvalidListLimit int
  | NonMonotonicSeq int | DuplicateId jstring | MissingParentEntry jstring
  | InvalidHighWater int
  | UnknownBranchStart jstring | CorruptBranch
  | NeverReturns
  | StorageClosed
  | UnknownForkNamespace jstring | UnknownSourceBranch jstring | CorruptSourceBranch jstring
  | ForkEntryNotOnBranch "jstring option" jstring
  | BranchMissingTip jstring | BranchIncompleteLane jstring | BranchNotLane jstring | BranchUnknownTip jstring
  | SessionClosed | InvalidBranchEmpty | InvalidBranchNul | BranchExists jstring
  | PendingAssistantMessage | UnknownTarget jstring | UnknownBranch jstring
  | CommitAlreadyAttempted | MutatorInactive
  | RepoClosed | SessionIdExists jstring | UnknownSession jstring | SessionAlreadyOpen jstring | SessionIsOpen jstring
  | LaneMissingTip jstring | LaneMissingConfig jstring | LaneMissingState jstring
  | OperationMissingMeta jstring | OperationMissingState jstring
  | OperationIdMismatch jstring jstring | OperationLaneMismatch jstring jstring jstring
  | IntentStateMismatch jstring
  | PendingMissingPayload inbox_kind jstring | PendingNotMessage inbox_kind jstring | MissingMessagePayload jstring
  | RunWithoutTip | NullOperation | MissingPreparation
  | PendingHoldsAssistant inbox_kind jstring | LaneMissingResult jstring jstring
  | DeferredSourceInvalid | ToolBatchInvalid | ToolSourceInvalid int | ToolArgsMissing jstring
  | StagedResultMissing jstring | StagedResultMismatch jstring
  | CompactionFailed jstring jstring
  | SessionInvariant jstring
  | WrongLeaf

section \<open>Stored values\<close>

text \<open>
  The value at an address is \<^verbatim>\<open>unknown\<close> to the storage. Each typed address constructor below fixes a type,
  and \<open>sval\<close> has a constructor for each of them; everything an application stores under its own
  namespaces is JSON.
\<close>

datatype sval =
    STip "jstring option"
  | SConfig lane_configuration
  | SLane lane_state
  | SResult operation_result
  | SMeta operation_meta
  | SOperation operation_state
  | SArgs "(jstring \<times> json) list"
  | SMemo json
  | SPreparation structural_preparation
  | SPending pending_entry
  | SToolOutput json
  | SFrame json
  | SText jstring
  | SApp json

datatype address_kind = AValue | AList

record address =
  a_namespace :: jstring
  a_key :: jstring
  a_kind :: address_kind

record stored_value =
  sv_address :: address
  sv_value :: sval
  sv_seq :: int

record list_element =
  le_seq :: int
  le_value :: sval

record list_read_options =
  lo_cursor :: "int option"
  lo_order :: "seq_order option"
  lo_limit :: "int option"

record resolved_list_options =
  rl_cursor :: "int option"
  rl_order :: seq_order
  rl_limit :: int

definition validateAddress :: "jstring \<Rightarrow> jstring \<Rightarrow> (session_error, unit) res" where
  "validateAddress ns k =
     (if ns = [] then Inl EmptyNamespace
      else if 0 \<in> set ns then Inl NamespaceHasNul
      else if 0 \<in> set k then Inl KeyHasNul
      else Inr ())"

definition value_address :: "jstring \<Rightarrow> jstring \<Rightarrow> (session_error, address) res" where
  "value_address ns k =
     rbind (validateAddress ns k) (\<lambda>_. Inr \<lparr>a_namespace = ns, a_key = k, a_kind = AValue\<rparr>)"

definition list_address :: "jstring \<Rightarrow> jstring \<Rightarrow> (session_error, address) res" where
  "list_address ns k =
     rbind (validateAddress ns k) (\<lambda>_. Inr \<lparr>a_namespace = ns, a_key = k, a_kind = AList\<rparr>)"

definition resolveListReadOptions :: "list_read_options option \<Rightarrow> (session_error, resolved_list_options) res" where
  "resolveListReadOptions opts =
     (let options = (case opts of None \<Rightarrow> \<lparr>lo_cursor = None, lo_order = None, lo_limit = None\<rparr> | Some o' \<Rightarrow> o');
          requestedLimit = (case lo_limit options of None \<Rightarrow> 1000 | Some l \<Rightarrow> l)
      in if \<not> safe_int requestedLimit \<or> requestedLimit \<le> 0 then Inl (InvalidListLimit requestedLimit)
         else Inr \<lparr>rl_cursor = lo_cursor options,
                   rl_order = (case lo_order options of None \<Rightarrow> Asc | Some d \<Rightarrow> d),
                   rl_limit = min requestedLimit 10000\<rparr>)"

section \<open>The address constructors\<close>

definition colon :: jstring where
  "colon = js '':''"

definition branchTip :: "jstring \<Rightarrow> (session_error, address) res" where
  "branchTip branch = value_address (js ''phi.branch.tip'') branch"

definition branchTipInventoryPrefix :: "(session_error, address) res" where
  "branchTipInventoryPrefix = value_address (js ''phi.branch.tip'') []"

definition laneConfig :: "jstring \<Rightarrow> (session_error, address) res" where
  "laneConfig lane = value_address (js ''phi.lane.config'') lane"

definition laneState :: "jstring \<Rightarrow> (session_error, address) res" where
  "laneState lane = value_address (js ''phi.lane.state'') lane"

definition operationResult :: "jstring \<Rightarrow> (session_error, address) res" where
  "operationResult operationId = value_address (js ''phi.result'') operationId"

definition operationMeta :: "jstring \<Rightarrow> (session_error, address) res" where
  "operationMeta operationId = value_address (js ''phi.op.meta'') operationId"

definition operationState :: "jstring \<Rightarrow> (session_error, address) res" where
  "operationState operationId = value_address (js ''phi.op.state'') operationId"

definition operationToolArgs :: "jstring \<Rightarrow> jstring \<Rightarrow> int \<Rightarrow> (session_error, address) res" where
  "operationToolArgs operationId stepId sourceIndex =
     value_address (js ''phi.op.tool_args'') (operationId @ colon @ stepId @ colon @ int_text sourceIndex)"

definition operationToolMemo :: "jstring \<Rightarrow> jstring \<Rightarrow> jstring \<Rightarrow> (session_error, address) res" where
  "operationToolMemo operationId invocationId name =
     value_address (js ''phi.op.tool_memo'') (operationId @ colon @ invocationId @ colon @ name)"

definition operationPreparation :: "jstring \<Rightarrow> jstring \<Rightarrow> (session_error, address) res" where
  "operationPreparation operationId taskId =
     value_address (js ''phi.op.preparation'') (operationId @ colon @ taskId)"

definition operationToolArgsPrefix :: "jstring \<Rightarrow> jstring option \<Rightarrow> (session_error, address) res" where
  "operationToolArgsPrefix operationId stepId =
     value_address (js ''phi.op.tool_args'')
       (case stepId of None \<Rightarrow> operationId @ colon | Some s \<Rightarrow> operationId @ colon @ s @ colon)"

definition operationToolMemoPrefix :: "jstring \<Rightarrow> jstring option \<Rightarrow> (session_error, address) res" where
  "operationToolMemoPrefix operationId invocationId =
     value_address (js ''phi.op.tool_memo'')
       (case invocationId of None \<Rightarrow> operationId @ colon | Some s \<Rightarrow> operationId @ colon @ s @ colon)"

definition operationPreparationPrefix :: "jstring \<Rightarrow> (session_error, address) res" where
  "operationPreparationPrefix operationId = value_address (js ''phi.op.preparation'') (operationId @ colon)"

definition pendingEntry :: "jstring \<Rightarrow> (session_error, address) res" where
  "pendingEntry entryId = value_address (js ''phi.pending.entry'') entryId"

definition pendingToolOutput :: "jstring \<Rightarrow> jstring \<Rightarrow> (session_error, address) res" where
  "pendingToolOutput operationId invocationId =
     value_address (js ''phi.pending.tool_output'') (operationId @ colon @ invocationId)"

definition pendingAssistantFrames :: "jstring \<Rightarrow> jstring \<Rightarrow> (session_error, address) res" where
  "pendingAssistantFrames operationId responseEntryId =
     list_address (js ''phi.pending.assistant_frame'') (operationId @ colon @ responseEntryId)"

definition pendingToolOutputPrefix :: "jstring \<Rightarrow> (session_error, address) res" where
  "pendingToolOutputPrefix operationId = value_address (js ''phi.pending.tool_output'') (operationId @ colon)"

definition sessionName :: "(session_error, address) res" where
  "sessionName = value_address (js ''phi.session.name'') []"

definition entryLabel :: "jstring \<Rightarrow> (session_error, address) res" where
  "entryLabel entryId = value_address (js ''phi.entry.label'') entryId"

section \<open>Writes\<close>

datatype store_write =
    WEntry new_entry
  | WUsage new_usage_row
  | WValueSet jstring jstring sval
  | WValueDelete jstring jstring
  | WListAppend jstring jstring sval
  | WListDelete jstring jstring

datatype committed_write =
    CEntry entry
  | CUsage usage_row
  | CValueSet int jstring jstring sval
  | CValueDelete int jstring jstring
  | CListAppend int jstring jstring sval
  | CListDelete int jstring jstring

definition setValue :: "address \<Rightarrow> sval \<Rightarrow> store_write" where
  "setValue a next = WValueSet (a_namespace a) (a_key a) next"

definition deleteValue :: "address \<Rightarrow> store_write" where
  "deleteValue a = WValueDelete (a_namespace a) (a_key a)"

definition appendList :: "address \<Rightarrow> sval \<Rightarrow> store_write" where
  "appendList a element = WListAppend (a_namespace a) (a_key a) element"

definition deleteList :: "address \<Rightarrow> store_write" where
  "deleteList a = WListDelete (a_namespace a) (a_key a)"

definition insertEntry :: "new_entry \<Rightarrow> store_write" where
  "insertEntry e = WEntry e"

definition insertUsage :: "new_usage_row \<Rightarrow> store_write" where
  "insertUsage row = WUsage row"

fun write_seq :: "committed_write \<Rightarrow> int" where
  "write_seq (CEntry e) = e_seq e"
| "write_seq (CUsage r) = ur_seq r"
| "write_seq (CValueSet s _ _ _) = s"
| "write_seq (CValueDelete s _ _) = s"
| "write_seq (CListAppend s _ _ _) = s"
| "write_seq (CListDelete s _ _) = s"

definition materializeCommittedEntry :: "new_entry \<Rightarrow> int \<Rightarrow> int \<Rightarrow> entry" where
  "materializeCommittedEntry e seq timestamp =
     \<lparr>ne_id = ne_id e, ne_parentId = ne_parentId e, ne_customType = ne_customType e, ne_body = ne_body e,
      e_seq = seq, e_timestamp = timestamp\<rparr>"

fun commitWrite :: "store_write \<Rightarrow> int \<Rightarrow> int \<Rightarrow> committed_write" where
  "commitWrite (WEntry e) seq timestamp =
     CEntry \<lparr>ne_id = ne_id e, ne_parentId = ne_parentId e, ne_customType = ne_customType e, ne_body = ne_body e,
             e_seq = seq, e_timestamp = timestamp\<rparr>"
| "commitWrite (WUsage r) seq timestamp =
     CUsage \<lparr>ur_id = ur_id r, ur_usage = ur_usage r, ur_entryId = ur_entryId r, ur_adjustment = ur_adjustment r,
             ur_details = ur_details r, ur_seq = seq\<rparr>"
| "commitWrite (WValueSet ns k v) seq timestamp = CValueSet seq ns k v"
| "commitWrite (WValueDelete ns k) seq timestamp = CValueDelete seq ns k"
| "commitWrite (WListAppend ns k v) seq timestamp = CListAppend seq ns k v"
| "commitWrite (WListDelete ns k) seq timestamp = CListDelete seq ns k"

record prepared_commit =
  pc_writes :: "committed_write list"
  pc_firstSeq :: int
  pc_seqs :: "int list"
  pc_timestamp :: int

fun commit_writes :: "store_write list \<Rightarrow> int \<Rightarrow> int \<Rightarrow> committed_write list" where
  "commit_writes [] seq timestamp = []"
| "commit_writes (w # ws) seq timestamp = commitWrite w seq timestamp # commit_writes ws (seq + 1) timestamp"

definition prepareStorageCommit :: "store_write list \<Rightarrow> int \<Rightarrow> int \<Rightarrow> prepared_commit" where
  "prepareStorageCommit writes firstSeq timestamp =
     (let committedWrites = commit_writes writes firstSeq timestamp in
      \<lparr>pc_writes = committedWrites, pc_firstSeq = firstSeq, pc_seqs = map write_seq committedWrites,
       pc_timestamp = timestamp\<rparr>)"

section \<open>Validation of a transaction\<close>

text \<open>
  The loop of \<^verbatim>\<open>validateCommittedWrites\<close>: its variables are the previous sequence number and the two
  sets of ids of the transaction; \<open>known\<close> and \<open>entry_known\<close> are the two queries on the state.
\<close>

fun validate_writes ::
  "(jstring \<Rightarrow> bool) \<Rightarrow> (jstring \<Rightarrow> bool) \<Rightarrow> committed_write list \<Rightarrow> int \<Rightarrow> jstring list \<Rightarrow> jstring list \<Rightarrow>
     (session_error, unit) res" where
  "validate_writes known entry_known [] previousSeq ids entryIds = Inr ()"
| "validate_writes known entry_known (w # ws) previousSeq ids entryIds =
     (if write_seq w \<le> previousSeq then Inl (NonMonotonicSeq (write_seq w))
      else case w of
        CEntry e \<Rightarrow>
          if known (ne_id e) \<or> ne_id e \<in> set ids then Inl (DuplicateId (ne_id e))
          else (case ne_parentId e of
              Some p \<Rightarrow>
                if \<not> entry_known p \<and> p \<notin> set entryIds then Inl (MissingParentEntry p)
                else validate_writes known entry_known ws (e_seq e) (ids @ [ne_id e]) (entryIds @ [ne_id e])
            | None \<Rightarrow> validate_writes known entry_known ws (e_seq e) (ids @ [ne_id e]) (entryIds @ [ne_id e]))
      | CUsage r \<Rightarrow>
          if known (ur_id r) \<or> ur_id r \<in> set ids then Inl (DuplicateId (ur_id r))
          else validate_writes known entry_known ws (ur_seq r) (ids @ [ur_id r]) entryIds
      | _ \<Rightarrow> validate_writes known entry_known ws (write_seq w) ids entryIds)"

definition validateCommittedWrites ::
  "committed_write list \<Rightarrow> int \<Rightarrow> (jstring \<Rightarrow> bool) \<Rightarrow> (jstring \<Rightarrow> bool) \<Rightarrow> (session_error, unit) res" where
  "validateCommittedWrites writes firstSeq hasEntryOrUsageId hasEntryId =
     validate_writes hasEntryOrUsageId hasEntryId writes (firstSeq - 1) [] []"

section \<open>Addresses are valid or rejected\<close>

definition valid_address :: "jstring \<Rightarrow> jstring \<Rightarrow> bool" where
  "valid_address ns k \<longleftrightarrow> ns \<noteq> [] \<and> 0 \<notin> set ns \<and> 0 \<notin> set k"

lemma value_address_eq_Inr:
  "value_address ns k = Inr a \<longleftrightarrow> valid_address ns k \<and> a = \<lparr>a_namespace = ns, a_key = k, a_kind = AValue\<rparr>"
  by (auto simp: value_address_def validateAddress_def valid_address_def)

lemma list_address_eq_Inr:
  "list_address ns k = Inr a \<longleftrightarrow> valid_address ns k \<and> a = \<lparr>a_namespace = ns, a_key = k, a_kind = AList\<rparr>"
  by (auto simp: list_address_def validateAddress_def valid_address_def)

lemma value_address_valid: "valid_address ns k \<Longrightarrow> value_address ns k = Inr \<lparr>a_namespace = ns, a_key = k, a_kind = AValue\<rparr>"
  by (simp add: value_address_eq_Inr)

lemma list_address_valid: "valid_address ns k \<Longrightarrow> list_address ns k = Inr \<lparr>a_namespace = ns, a_key = k, a_kind = AList\<rparr>"
  by (simp add: list_address_eq_Inr)

lemma resolveListReadOptions_bounds:
  "resolveListReadOptions o' = Inr r \<Longrightarrow> 1 \<le> rl_limit r \<and> rl_limit r \<le> 10000"
  by (auto simp: resolveListReadOptions_def Let_def split: if_splits)

section \<open>What a validated transaction satisfies\<close>

lemma write_seq_commitWrite [simp]: "write_seq (commitWrite w s t) = s"
  by (cases w) simp_all

lemma seqs_commit_writes: "map write_seq (commit_writes ws s t) = map (\<lambda>i. s + int i) [0..<length ws]"
proof (induction ws arbitrary: s)
  case (Cons w ws)
  have "map (\<lambda>i. s + int i) [0..<length (w # ws)] = s # map (\<lambda>i. s + 1 + int i) [0..<length ws]"
    by (simp add: upt_conv_Cons map_Suc_upt [symmetric] del: upt_Suc)
  with Cons show ?case by simp
qed simp

end
