(* ===== verification/Storage_State.thy ===== *)
theory Storage_State
  imports Session_Values
begin

text \<open>
  The materialized state of a session, \<^verbatim>\<open>InMemoryStorageState\<close> of
  \<^verbatim>\<open>packages/agent/src/harness/session/in-memory-storage-state.ts\<close>, with every operation. The four maps
  are association lists in insertion order.
\<close>

record stored_list =
  sl_address :: address
  sl_elements :: "list_element list"

record storage_state =
  s_entries :: "(jstring \<times> entry) list"
  s_entriesBySeq :: "entry list"
  s_scalarValues :: "(jstring \<times> stored_value) list"
  s_listValues :: "(jstring \<times> stored_list) list"
  s_usage :: "(jstring \<times> usage_row) list"
  s_stats :: session_stats
  s_nextSeq :: int

definition physicalKey :: "jstring \<Rightarrow> jstring \<Rightarrow> jstring" where
  "physicalKey ns k = ns @ [0] @ k"

text \<open>\<^verbatim>\<open>compareKeys\<close>: the first differing code point decides, then the number of code points.\<close>

fun compare_points :: "nat list \<Rightarrow> nat list \<Rightarrow> int" where
  "compare_points (l # ls) (r # rs) = (if l \<noteq> r then int l - int r else compare_points ls rs)"
| "compare_points ls rs = int (length ls) - int (length rs)"

definition compareKeys :: "jstring \<Rightarrow> jstring \<Rightarrow> int" where
  "compareKeys left right = compare_points (code_points left) (code_points right)"

definition new_storage_state :: storage_state where
  "new_storage_state =
     \<lparr>s_entries = [], s_entriesBySeq = [], s_scalarValues = [], s_listValues = [], s_usage = [],
      s_stats = \<lparr>ss_messageCount = 0, ss_usage = emptyUsage\<rparr>, s_nextSeq = 1\<rparr>"

section \<open>Commits\<close>

definition validateCommitted :: "storage_state \<Rightarrow> committed_write list \<Rightarrow> (session_error, unit) res" where
  "validateCommitted s writes =
     validateCommittedWrites writes (s_nextSeq s)
       (\<lambda>i. has_key (s_entries s) i \<or> has_key (s_usage s) i)
       (\<lambda>i. has_key (s_entries s) i)"

definition prepareCommit :: "storage_state \<Rightarrow> store_write list \<Rightarrow> int \<Rightarrow> (session_error, prepared_commit) res" where
  "prepareCommit s writes timestamp =
     (let prepared = prepareStorageCommit writes (s_nextSeq s) timestamp in
      rbind (validateCommitted s (pc_writes prepared)) (\<lambda>_. Inr prepared))"

text \<open>The body of the loop of \<^verbatim>\<open>applyValidated\<close>; the address constructors may throw.\<close>

fun apply_write :: "storage_state \<Rightarrow> committed_write \<Rightarrow> (session_error, storage_state) res" where
  "apply_write s (CEntry e) =
     Inr (s\<lparr>s_entries := AList.update (ne_id e) e (s_entries s),
            s_entriesBySeq := s_entriesBySeq s @ [e],
            s_stats := (if entry_type_of e = EMessage
                        then (s_stats s)\<lparr>ss_messageCount := ss_messageCount (s_stats s) + 1\<rparr> else s_stats s),
            s_nextSeq := e_seq e + 1\<rparr>)"
| "apply_write s (CUsage r) =
     Inr (s\<lparr>s_usage := AList.update (ur_id r) r (s_usage s),
            s_stats := (s_stats s)\<lparr>ss_usage := addUsage (ss_usage (s_stats s)) (ur_usage r)\<rparr>,
            s_nextSeq := ur_seq r + 1\<rparr>)"
| "apply_write s (CValueDelete seq ns k) =
     Inr (s\<lparr>s_scalarValues := AList.delete (physicalKey ns k) (s_scalarValues s), s_nextSeq := seq + 1\<rparr>)"
| "apply_write s (CValueSet seq ns k v) =
     rbind (value_address ns k) (\<lambda>a.
       Inr (s\<lparr>s_scalarValues :=
                AList.update (physicalKey ns k) \<lparr>sv_address = a, sv_value = v, sv_seq = seq\<rparr> (s_scalarValues s),
              s_nextSeq := seq + 1\<rparr>))"
| "apply_write s (CListDelete seq ns k) =
     Inr (s\<lparr>s_listValues := AList.delete (physicalKey ns k) (s_listValues s), s_nextSeq := seq + 1\<rparr>)"
| "apply_write s (CListAppend seq ns k v) =
     (let key = physicalKey ns k; element = \<lparr>le_seq = seq, le_value = v\<rparr> in
      case map_of (s_listValues s) key of
        None \<Rightarrow>
          rbind (list_address ns k) (\<lambda>a.
            Inr (s\<lparr>s_listValues := AList.update key \<lparr>sl_address = a, sl_elements = [element]\<rparr> (s_listValues s),
                   s_nextSeq := seq + 1\<rparr>))
      | Some stored \<Rightarrow>
          Inr (s\<lparr>s_listValues :=
                   AList.update key (stored\<lparr>sl_elements := sl_elements stored @ [element]\<rparr>) (s_listValues s),
                 s_nextSeq := seq + 1\<rparr>))"

text \<open>
  \<^verbatim>\<open>applyValidated\<close>: the state after the loop, and the totals it returns. When an address is
  rejected the writes before it stay applied.
\<close>

fun applyValidated :: "storage_state \<Rightarrow> committed_write list \<Rightarrow> storage_state \<times> (session_error, session_stats) res" where
  "applyValidated s [] = (s, Inr (s_stats s))"
| "applyValidated s (w # ws) = (case apply_write s w of Inl e \<Rightarrow> (s, Inl e) | Inr s' \<Rightarrow> applyValidated s' ws)"

definition advanceNextSeq :: "storage_state \<Rightarrow> int \<Rightarrow> (session_error, storage_state) res" where
  "advanceNextSeq s nextSeq =
     (if \<not> safe_int nextSeq \<or> nextSeq < 1 then Inl (InvalidHighWater nextSeq)
      else Inr (s\<lparr>s_nextSeq := max (s_nextSeq s) nextSeq\<rparr>))"

section \<open>Reads\<close>

fun collect_entries :: "(jstring \<times> entry) list \<Rightarrow> jstring list \<Rightarrow> (jstring \<times> entry) list \<Rightarrow> (jstring \<times> entry) list" where
  "collect_entries m [] found = found"
| "collect_entries m (i # ids) found =
     collect_entries m ids (case map_of m i of None \<Rightarrow> found | Some e \<Rightarrow> AList.update i e found)"

definition getEntries :: "storage_state \<Rightarrow> jstring list \<Rightarrow> (jstring \<times> entry) list" where
  "getEntries s ids = collect_entries (s_entries s) ids []"

definition getValue :: "storage_state \<Rightarrow> address \<Rightarrow> stored_value option" where
  "getValue s a = map_of (s_scalarValues s) (physicalKey (a_namespace a) (a_key a))"

definition scanValues :: "storage_state \<Rightarrow> address \<Rightarrow> stored_value list" where
  "scanValues s p =
     js_sort (\<lambda>l r. compareKeys (a_key (sv_address l)) (a_key (sv_address r)))
       (filter (\<lambda>stored. a_namespace (sv_address stored) = a_namespace p \<and> prefix (a_key p) (a_key (sv_address stored)))
         (map_values (s_scalarValues s)))"

definition readList :: "storage_state \<Rightarrow> address \<Rightarrow> list_read_options option \<Rightarrow> (session_error, list_element list) res" where
  "readList s a options =
     rbind (resolveListReadOptions options) (\<lambda>resolved.
       let elements = (case map_of (s_listValues s) (physicalKey (a_namespace a) (a_key a)) of
                         None \<Rightarrow> [] | Some stored \<Rightarrow> sl_elements stored);
           filtered = filter (\<lambda>element. case rl_cursor resolved of
                         None \<Rightarrow> True
                       | Some c \<Rightarrow> if rl_order resolved = Asc then c < le_seq element else le_seq element < c) elements;
           ordered = (if rl_order resolved = Asc then filtered else rev filtered)
       in Inr (take (nat (rl_limit resolved)) ordered))"

text \<open>The loop of \<^verbatim>\<open>scanBranch\<close> from an entry to the root; \<open>None\<close> when it never ends.\<close>

partial_function (option) walk_branch ::
  "(jstring \<times> entry) list \<Rightarrow> entry \<Rightarrow> entry list \<Rightarrow> (session_error, entry list) res option" where
  "walk_branch m e path =
     (case ne_parentId e of
        None \<Rightarrow> Some (Inr (path @ [e]))
      | Some p \<Rightarrow> (case map_of m p of
            None \<Rightarrow> Some (Inl CorruptBranch)
          | Some e' \<Rightarrow> walk_branch m e' (path @ [e])))"

fun stop_after :: "('a \<Rightarrow> bool) \<Rightarrow> 'a list \<Rightarrow> 'a list" where
  "stop_after p [] = []"
| "stop_after p (c # cs) = c # (if p c then [] else stop_after p cs)"

definition take_limit :: "int option \<Rightarrow> 'a list \<Rightarrow> 'a list" where
  "take_limit limit xs = (case limit of None \<Rightarrow> xs | Some l \<Rightarrow> take (nat (max 0 l)) xs)"

definition scan_path :: "branch_scan \<Rightarrow> entry list \<Rightarrow> entry list" where
  "scan_path q path =
     (let ordered = (if bq_order q = Some OldestFirst then rev path else path);
          stopped = stop_after (\<lambda>c. bq_stopAtId q = Some (ne_id c) \<or> bq_stopAtType q = Some (entry_type_of c)) ordered;
          filtered = filter (\<lambda>c. case bq_cursor q of
                         None \<Rightarrow> True
                       | Some seq \<Rightarrow> if bq_order q = Some OldestFirst then seq < e_seq c else e_seq c < seq)
            (filter (\<lambda>c. bq_customType q = None \<or> ne_customType c = bq_customType q)
              (filter (\<lambda>c. bq_type q = None \<or> bq_type q = Some (entry_type_of c)) stopped))
      in take_limit (bq_limit q) filtered)"

definition scanBranch :: "storage_state \<Rightarrow> branch_scan \<Rightarrow> (session_error, entry list) res" where
  "scanBranch s q =
     (case map_of (s_entries s) (bq_start q) of
        None \<Rightarrow> Inl (UnknownBranchStart (bq_start q))
      | Some start \<Rightarrow> (case walk_branch (s_entries s) start [] of
            None \<Rightarrow> Inl NeverReturns
          | Some r \<Rightarrow> rbind r (\<lambda>path. Inr (scan_path q path))))"

definition structure_of :: "entry \<Rightarrow> entry_structure" where
  "structure_of e =
     \<lparr>es_id = ne_id e, es_parentId = ne_parentId e, es_seq = e_seq e, es_timestamp = e_timestamp e,
      es_type = entry_type_of e, es_customType = ne_customType e\<rparr>"

definition scanBranchStructure :: "storage_state \<Rightarrow> branch_scan \<Rightarrow> (session_error, entry_structure list) res" where
  "scanBranchStructure s q = rbind (scanBranch s q) (\<lambda>es. Inr (map structure_of es))"

definition entry_matches :: "entry_scan \<Rightarrow> entry \<Rightarrow> bool" where
  "entry_matches q e \<longleftrightarrow>
     (eq_type q = None \<or> eq_type q = Some (entry_type_of e)) \<and>
     (eq_customType q = None \<or> ne_customType e = eq_customType q) \<and>
     (case eq_fromSeq q of None \<Rightarrow> True | Some f \<Rightarrow> f \<le> e_seq e) \<and>
     (case eq_toSeq q of None \<Rightarrow> True | Some t \<Rightarrow> e_seq e \<le> t)"

text \<open>
  The loop of \<^verbatim>\<open>scanEntries\<close>: the index runs up or down over \<open>bySeq\<close> until it leaves the array or the
  limit is reached.
\<close>

function scan_entries_loop :: "entry_scan \<Rightarrow> entry list \<Rightarrow> int option \<Rightarrow> int \<Rightarrow> entry list \<Rightarrow> entry list" where
  "scan_entries_loop q bySeq limit index entries =
     (if 0 \<le> index \<and> index < int (length bySeq) \<and>
         (case limit of None \<Rightarrow> True | Some l \<Rightarrow> int (length entries) < l)
      then scan_entries_loop q bySeq limit (if eq_order q = Some Desc then index - 1 else index + 1)
             (if entry_matches q (bySeq ! nat index) then entries @ [bySeq ! nat index] else entries)
      else entries)"
  by auto
termination
  by (relation "measure (\<lambda>(q, bySeq, limit, index, entries).
        if eq_order q = Some Desc then nat (index + 1) else nat (int (length bySeq) - index))") auto

declare scan_entries_loop.simps [simp del]

definition scanEntries :: "storage_state \<Rightarrow> entry_scan \<Rightarrow> entry list" where
  "scanEntries s q =
     scan_entries_loop q (s_entriesBySeq s) (map_option (max 0) (eq_limit q))
       (if eq_order q = Some Desc then int (length (s_entriesBySeq s)) - 1 else 0) []"

definition scanUsage :: "storage_state \<Rightarrow> usage_scan \<Rightarrow> usage_row list" where
  "scanUsage s q =
     take_limit (uq_limit q)
       (js_sort (\<lambda>l r. if uq_order q = Some Desc then ur_seq r - ur_seq l else ur_seq l - ur_seq r)
         (filter (\<lambda>row. case uq_toSeq q of None \<Rightarrow> True | Some t \<Rightarrow> ur_seq row \<le> t)
           (filter (\<lambda>row. case uq_fromSeq q of None \<Rightarrow> True | Some f \<Rightarrow> f \<le> ur_seq row)
             (map_values (s_usage s)))))"

definition getStats :: "storage_state \<Rightarrow> session_stats" where
  "getStats s = s_stats s"

definition snapshotEntriesAndValues :: "storage_state \<Rightarrow> entry list \<times> stored_value list" where
  "snapshotEntriesAndValues s =
     (js_sort (\<lambda>l r. e_seq l - e_seq r) (map_values (s_entries s)), map_values (s_scalarValues s))"

end
