(* ===== verification/Storage_Correct.thy ===== *)
theory Storage_Correct
  imports Storage_State
begin

text \<open>
  Correctness of the materialized session state: the invariant every accepted transaction keeps, the
  branch walk it makes terminate, and what each read returns.
\<close>

section \<open>The invariant\<close>

text \<open>
  Entries are keyed by their id, listed by ascending sequence number, and every parent is an
  entry with a smaller number. Usage rows are keyed by id, apart from the entries. A value or list is stored
  under the physical key of its valid address; list elements ascend. The totals are those of the
  stored rows. Every sequence number is below the next one.
\<close>

definition stored_entries_ok :: "storage_state \<Rightarrow> bool" where
  "stored_entries_ok s \<longleftrightarrow>
     distinct (keys (s_entries s)) \<and>
     s_entries s = map (\<lambda>e. (ne_id e, e)) (s_entriesBySeq s) \<and>
     sorted_wrt (<) (map e_seq (s_entriesBySeq s)) \<and>
     (\<forall>e\<in>set (s_entriesBySeq s). 1 \<le> e_seq e \<and> e_seq e < s_nextSeq s \<and>
        (\<forall>p. ne_parentId e = Some p \<longrightarrow> (\<exists>e'. map_of (s_entries s) p = Some e' \<and> e_seq e' < e_seq e)))"

definition usage_ok :: "storage_state \<Rightarrow> bool" where
  "usage_ok s \<longleftrightarrow>
     distinct (keys (s_usage s)) \<and>
     (\<forall>(k, r)\<in>set (s_usage s). k = ur_id r \<and> 1 \<le> ur_seq r \<and> ur_seq r < s_nextSeq s \<and> \<not> has_key (s_entries s) k) \<and>
     sorted_wrt (<) (map ur_seq (map_values (s_usage s)))"

definition scalar_ok :: "int \<Rightarrow> jstring \<Rightarrow> stored_value \<Rightarrow> bool" where
  "scalar_ok n k v \<longleftrightarrow>
     k = physicalKey (a_namespace (sv_address v)) (a_key (sv_address v)) \<and>
     valid_address (a_namespace (sv_address v)) (a_key (sv_address v)) \<and>
     a_kind (sv_address v) = AValue \<and> 1 \<le> sv_seq v \<and> sv_seq v < n"

definition list_ok :: "int \<Rightarrow> jstring \<Rightarrow> stored_list \<Rightarrow> bool" where
  "list_ok n k l \<longleftrightarrow>
     k = physicalKey (a_namespace (sl_address l)) (a_key (sl_address l)) \<and>
     valid_address (a_namespace (sl_address l)) (a_key (sl_address l)) \<and>
     a_kind (sl_address l) = AList \<and> sl_elements l \<noteq> [] \<and>
     sorted_wrt (<) (map le_seq (sl_elements l)) \<and> (\<forall>x\<in>set (sl_elements l). 1 \<le> le_seq x \<and> le_seq x < n)"

definition values_ok :: "storage_state \<Rightarrow> bool" where
  "values_ok s \<longleftrightarrow>
     distinct (keys (s_scalarValues s)) \<and> (\<forall>(k, v)\<in>set (s_scalarValues s). scalar_ok (s_nextSeq s) k v) \<and>
     distinct (keys (s_listValues s)) \<and> (\<forall>(k, l)\<in>set (s_listValues s). list_ok (s_nextSeq s) k l)"

definition stats_ok :: "storage_state \<Rightarrow> bool" where
  "stats_ok s \<longleftrightarrow>
     ss_messageCount (s_stats s) = int (length (filter (\<lambda>e. entry_type_of e = EMessage) (s_entriesBySeq s))) \<and>
     ss_usage (s_stats s) = foldl addUsage emptyUsage (map ur_usage (map_values (s_usage s)))"

definition storage_ok :: "storage_state \<Rightarrow> bool" where
  "storage_ok s \<longleftrightarrow> 1 \<le> s_nextSeq s \<and> stored_entries_ok s \<and> usage_ok s \<and> values_ok s \<and> stats_ok s"

lemmas storage_ok_defs = storage_ok_def stored_entries_ok_def usage_ok_def values_ok_def stats_ok_def

lemma new_storage_ok: "storage_ok new_storage_state"
  by (simp add: storage_ok_defs new_storage_state_def map_values_def)

section \<open>Validation, one write at a time\<close>

abbreviation known_id :: "storage_state \<Rightarrow> jstring \<Rightarrow> bool" where
  "known_id s i \<equiv> has_key (s_entries s) i \<or> has_key (s_usage s) i"

definition write_ok :: "storage_state \<Rightarrow> committed_write \<Rightarrow> bool" where
  "write_ok s w \<longleftrightarrow>
     s_nextSeq s \<le> write_seq w \<and>
     (case w of
        CEntry e \<Rightarrow> \<not> known_id s (ne_id e) \<and> (\<forall>p. ne_parentId e = Some p \<longrightarrow> has_key (s_entries s) p)
      | CUsage r \<Rightarrow> \<not> known_id s (ur_id r)
      | _ \<Rightarrow> True)"

text \<open>Only the union of the known ids and the ids of the transaction matters.\<close>

lemma validate_writes_cong:
  assumes "\<And>i. (known i \<or> i \<in> set ids) = (known' i \<or> i \<in> set ids')"
    and "\<And>i. (ek i \<or> i \<in> set eids) = (ek' i \<or> i \<in> set eids')"
  shows "validate_writes known ek ws prev ids eids = validate_writes known' ek' ws prev ids' eids'"
  using assms
proof (induction ws arbitrary: prev ids eids ids' eids')
  case (Cons w ws)
  have ids: "(known i \<or> i \<in> set (ids @ [j])) = (known' i \<or> i \<in> set (ids' @ [j]))" for i j
    using Cons.prems(1) [of i] by auto
  have eids: "(ek i \<or> i \<in> set (eids @ [j])) = (ek' i \<or> i \<in> set (eids' @ [j]))" for i j
    using Cons.prems(2) [of i] by auto
  show ?case
  proof (cases w)
    case (CEntry e)
    have "validate_writes known ek ws (e_seq e) (ids @ [ne_id e]) (eids @ [ne_id e]) =
        validate_writes known' ek' ws (e_seq e) (ids' @ [ne_id e]) (eids' @ [ne_id e])"
      by (rule Cons.IH [OF ids eids])
    with CEntry Cons.prems show ?thesis by (auto split: option.splits)
  next
    case (CUsage r)
    have "validate_writes known ek ws (ur_seq r) (ids @ [ur_id r]) eids =
        validate_writes known' ek' ws (ur_seq r) (ids' @ [ur_id r]) eids'"
      by (rule Cons.IH [OF ids Cons.prems(2)])
    with CUsage Cons.prems show ?thesis by auto
  qed (simp_all add: Cons.IH [OF Cons.prems])
qed simp

lemma apply_write_nextSeq: "apply_write s w = Inr s' \<Longrightarrow> s_nextSeq s' = write_seq w + 1"
  by (cases w) (auto simp: Let_def rbind_eq_Inr split: option.splits)

lemma validateCommitted_Nil [simp]: "validateCommitted s [] = Inr ()"
  by (simp add: validateCommitted_def validateCommittedWrites_def)

lemma validateCommitted_Cons:
  assumes ap: "apply_write s w = Inr s'"
  shows "validateCommitted s (w # ws) = Inr () \<longleftrightarrow> write_ok s w \<and> validateCommitted s' ws = Inr ()"
proof -
  let ?ids = "\<lambda>w. case w of CEntry e \<Rightarrow> [ne_id e] | CUsage r \<Rightarrow> [ur_id r] | _ \<Rightarrow> []"
  let ?eids = "\<lambda>w. case w of CEntry e \<Rightarrow> [ne_id e] | _ \<Rightarrow> []"
  have known: "(known_id s i \<or> i \<in> set (?ids w)) = (known_id s' i \<or> i \<in> set [])" for i
    using ap by (cases w) (auto simp: Let_def rbind_eq_Inr split: option.splits if_splits)
  have entry: "(has_key (s_entries s) i \<or> i \<in> set (?eids w)) = (has_key (s_entries s') i \<or> i \<in> set [])" for i
    using ap by (cases w) (auto simp: Let_def rbind_eq_Inr split: option.splits)
  have "validate_writes (known_id s) (has_key (s_entries s)) ws (write_seq w) (?ids w) (?eids w) =
      validate_writes (known_id s') (has_key (s_entries s')) ws (write_seq w) [] []"
    by (rule validate_writes_cong [OF known entry])
  then have "validate_writes (known_id s) (has_key (s_entries s)) ws (write_seq w) (?ids w) (?eids w) = validateCommitted s' ws"
    by (simp add: validateCommitted_def validateCommittedWrites_def apply_write_nextSeq [OF ap])
  moreover have "validateCommitted s (w # ws) = Inr () \<longleftrightarrow> write_ok s w \<and>
      validate_writes (known_id s) (has_key (s_entries s)) ws (write_seq w) (?ids w) (?eids w) = Inr ()"
    unfolding validateCommitted_def validateCommittedWrites_def write_ok_def
    by (cases w) (auto split: option.splits if_splits)
  ultimately show ?thesis by simp
qed

section \<open>Every accepted write keeps the invariant\<close>

lemma values_ok_mono: "values_ok s \<Longrightarrow> s_scalarValues s' = s_scalarValues s \<Longrightarrow> s_listValues s' = s_listValues s \<Longrightarrow>
    s_nextSeq s \<le> s_nextSeq s' \<Longrightarrow> values_ok s'"
  by (fastforce simp: values_ok_def scalar_ok_def list_ok_def)

lemma stored_entries_ok_mono: "stored_entries_ok s \<Longrightarrow> s_entries s' = s_entries s \<Longrightarrow> s_entriesBySeq s' = s_entriesBySeq s \<Longrightarrow>
    s_nextSeq s \<le> s_nextSeq s' \<Longrightarrow> stored_entries_ok s'"
  by (fastforce simp: stored_entries_ok_def)

lemma usage_ok_mono: "usage_ok s \<Longrightarrow> s_entries s' = s_entries s \<Longrightarrow> s_usage s' = s_usage s \<Longrightarrow>
    s_nextSeq s \<le> s_nextSeq s' \<Longrightarrow> usage_ok s'"
  by (fastforce simp: usage_ok_def)

lemma stats_ok_cong: "stats_ok s \<Longrightarrow> s_stats s' = s_stats s \<Longrightarrow> s_entriesBySeq s' = s_entriesBySeq s \<Longrightarrow>
    s_usage s' = s_usage s \<Longrightarrow> stats_ok s'"
  by (simp add: stats_ok_def)


lemma entry_write_ok:
  assumes ok: "storage_ok s" and w: "write_ok s (CEntry e)" and ap: "apply_write s (CEntry e) = Inr s'"
  shows "storage_ok s'"
proof -
  have new: "map_of (s_entries s) (ne_id e) = None" "map_of (s_usage s) (ne_id e) = None" "s_nextSeq s \<le> e_seq e"
    and parent: "\<And>p. ne_parentId e = Some p \<Longrightarrow> has_key (s_entries s) p"
    using w by (auto simp: write_ok_def)
  have s': "s_entries s' = s_entries s @ [(ne_id e, e)]" "s_entriesBySeq s' = s_entriesBySeq s @ [e]"
      "s_usage s' = s_usage s" "s_nextSeq s' = e_seq e + 1"
    using ap update_new [OF new(1)] by auto
  have lt: "e_seq x < e_seq e" if "x \<in> set (s_entriesBySeq s)" for x
    using ok new(3) that by (fastforce simp: storage_ok_def stored_entries_ok_def)
  have lookup: "map_of (s_entries s') p = (if p = ne_id e \<and> map_of (s_entries s) p = None then Some e else map_of (s_entries s) p)" for p
    by (auto simp: s' map_add_def split: option.splits)
  have parents: "\<forall>x\<in>set (s_entriesBySeq s). \<forall>p. ne_parentId x = Some p \<longrightarrow>
      (\<exists>e'. map_of (s_entries s) p = Some e' \<and> e_seq e' < e_seq x)"
    using ok unfolding storage_ok_def stored_entries_ok_def by blast
  have mem: "x \<in> set (s_entriesBySeq s)" if "map_of (s_entries s) p = Some x" for p x
    using that ok by (auto simp: storage_ok_def stored_entries_ok_def dest!: map_of_SomeD)
  have "stored_entries_ok s'"
    unfolding stored_entries_ok_def
  proof (intro conjI ballI allI)
    show "distinct (keys (s_entries s'))"
    proof -
      have "distinct (keys (s_entries s))" using ok unfolding storage_ok_def stored_entries_ok_def by (elim conjE)
      with new(1) show ?thesis by (simp add: s' map_of_eq_None_iff)
    qed
    show "s_entries s' = map (\<lambda>e. (ne_id e, e)) (s_entriesBySeq s')"
      using ok by (simp add: s' storage_ok_def stored_entries_ok_def)
    show "sorted_wrt (<) (map e_seq (s_entriesBySeq s'))"
      using ok lt by (auto simp: s' storage_ok_def stored_entries_ok_def sorted_wrt_append)
  next
    fix x assume "x \<in> set (s_entriesBySeq s')"
    then consider "x \<in> set (s_entriesBySeq s)" | "x = e" by (auto simp: s')
    then have "1 \<le> e_seq x \<and> e_seq x < s_nextSeq s' \<and>
        (\<forall>p. ne_parentId x = Some p \<longrightarrow> (\<exists>e'. map_of (s_entries s') p = Some e' \<and> e_seq e' < e_seq x))"
    proof cases
      case 1
      with ok lt [OF 1] have "1 \<le> e_seq x" "e_seq x < s_nextSeq s'" by (auto simp: s' storage_ok_def stored_entries_ok_def)
      moreover from ok 1 have "\<forall>p. ne_parentId x = Some p \<longrightarrow> (\<exists>e'. map_of (s_entries s') p = Some e' \<and> e_seq e' < e_seq x)"
        by (auto simp: lookup storage_ok_def dest: parents [rule_format])
      ultimately show ?thesis by blast
    next
      case 2
      with ok new(3) have "1 \<le> e_seq x" "e_seq x < s_nextSeq s'" by (auto simp: s' storage_ok_def)
      moreover from 2 parent mem lt have "\<forall>p. ne_parentId x = Some p \<longrightarrow> (\<exists>e'. map_of (s_entries s') p = Some e' \<and> e_seq e' < e_seq x)"
        by (fastforce simp: lookup)
      ultimately show ?thesis by blast
    qed
    then show "1 \<le> e_seq x" "e_seq x < s_nextSeq s'"
        "\<And>p. ne_parentId x = Some p \<longrightarrow> (\<exists>e'. map_of (s_entries s') p = Some e' \<and> e_seq e' < e_seq x)"
      by blast+
  qed
  moreover have "usage_ok s'"
    using ok new lookup by (fastforce simp: storage_ok_def usage_ok_def s' dest: weak_map_of_SomeI)
  moreover have "values_ok s'"
    by (rule values_ok_mono [of s]) (use ok ap new in \<open>auto simp: storage_ok_def\<close>)
  moreover have "stats_ok s'" using ok ap by (auto simp: storage_ok_def stats_ok_def)
  ultimately show ?thesis using ok new by (auto simp: storage_ok_def s')
qed

lemma usage_write_ok:
  assumes ok: "storage_ok s" and w: "write_ok s (CUsage r)" and ap: "apply_write s (CUsage r) = Inr s'"
  shows "storage_ok s'"
proof -
  have new: "map_of (s_entries s) (ur_id r) = None" "map_of (s_usage s) (ur_id r) = None" "s_nextSeq s \<le> ur_seq r"
    using w by (auto simp: write_ok_def)
  have s': "s_usage s' = s_usage s @ [(ur_id r, r)]" "s_entries s' = s_entries s" "s_nextSeq s' = ur_seq r + 1"
    using ap update_new [OF new(2)] by auto
  have lt: "ur_seq x < ur_seq r" if "x \<in> set (map_values (s_usage s))" for x
    using ok new(3) that by (fastforce simp: storage_ok_def usage_ok_def map_values_def)
  have "usage_ok s'"
    unfolding usage_ok_def
  proof (intro conjI)
    show "distinct (keys (s_usage s'))"
      using ok new(2) by (auto simp: s' storage_ok_def usage_ok_def map_of_eq_None_iff)
    show "sorted_wrt (<) (map ur_seq (map_values (s_usage s')))"
      using ok lt by (auto simp: s' storage_ok_def usage_ok_def sorted_wrt_append map_values_def)
    show "\<forall>(k, x)\<in>set (s_usage s'). k = ur_id x \<and> 1 \<le> ur_seq x \<and> ur_seq x < s_nextSeq s' \<and> \<not> has_key (s_entries s') k"
      using ok new by (fastforce simp: s' storage_ok_def usage_ok_def)
  qed
  moreover have "stored_entries_ok s'"
    by (rule stored_entries_ok_mono [of s]) (use ok ap new in \<open>auto simp: storage_ok_def\<close>)
  moreover have "values_ok s'"
    by (rule values_ok_mono [of s]) (use ok ap new in \<open>auto simp: storage_ok_def\<close>)
  moreover have "stats_ok s'"
    using ok ap by (auto simp: storage_ok_def stats_ok_def map_values_snoc [OF new(2)])
  ultimately show ?thesis using ok new by (auto simp: storage_ok_def s')
qed

lemma set_update_subset: "set (AList.update k v m) \<subseteq> insert (k, v) (set m)"
  by (induction m) auto

lemma set_delete_subset: "set (AList.delete k m) \<subseteq> set m"
  by (auto simp: AList.delete_eq)

lemma value_write_ok:
  assumes ok: "storage_ok s" and w: "write_ok s w" and ap: "apply_write s w = Inr s'"
    and entries: "s_entries s' = s_entries s" "s_entriesBySeq s' = s_entriesBySeq s"
    and usage: "s_usage s' = s_usage s" "s_stats s' = s_stats s"
    and vals: "values_ok s'"
  shows "storage_ok s'"
proof -
  have le: "s_nextSeq s \<le> s_nextSeq s'" using w apply_write_nextSeq [OF ap] by (simp add: write_ok_def)
  have "stored_entries_ok s'" by (rule stored_entries_ok_mono [of s]) (use ok le entries in \<open>auto simp: storage_ok_def\<close>)
  moreover have "usage_ok s'" by (rule usage_ok_mono [of s]) (use ok le entries usage in \<open>auto simp: storage_ok_def\<close>)
  moreover have "stats_ok s'" by (rule stats_ok_cong [of s]) (use ok entries usage in \<open>auto simp: storage_ok_def\<close>)
  ultimately show ?thesis using ok le vals by (auto simp: storage_ok_def)
qed

lemma scalar_ok_mono: "scalar_ok n k v \<Longrightarrow> n \<le> m \<Longrightarrow> scalar_ok m k v"
  by (auto simp: scalar_ok_def)

lemma list_ok_mono: "list_ok n k v \<Longrightarrow> n \<le> m \<Longrightarrow> list_ok m k v"
  by (fastforce simp: list_ok_def)

text \<open>A write that changes one stored value or list keeps the others, and they stay well formed.\<close>

lemma values_ok_change:
  assumes ok: "values_ok s" and le: "s_nextSeq s \<le> s_nextSeq s'"
    and scalars: "distinct (keys (s_scalarValues s'))"
      "\<And>k v. (k, v) \<in> set (s_scalarValues s') \<Longrightarrow> (k, v) \<in> set (s_scalarValues s) \<or> scalar_ok (s_nextSeq s') k v"
    and lists: "distinct (keys (s_listValues s'))"
      "\<And>k l. (k, l) \<in> set (s_listValues s') \<Longrightarrow> (k, l) \<in> set (s_listValues s) \<or> list_ok (s_nextSeq s') k l"
  shows "values_ok s'"
  unfolding values_ok_def
proof (intro conjI scalars(1) lists(1) ballI; clarify)
  fix k v assume "(k, v) \<in> set (s_scalarValues s')"
  with scalars(2) [OF this] ok show "scalar_ok (s_nextSeq s') k v"
    by (auto simp: values_ok_def intro: scalar_ok_mono [OF _ le])
next
  fix k l assume "(k, l) \<in> set (s_listValues s')"
  with lists(2) [OF this] ok show "list_ok (s_nextSeq s') k l"
    by (auto simp: values_ok_def intro: list_ok_mono [OF _ le])
qed

lemma appended_list_ok:
  assumes "list_ok n k l" "n \<le> q" "1 \<le> q"
  shows "list_ok (q + 1) k (l\<lparr>sl_elements := sl_elements l @ [\<lparr>le_seq = q, le_value = v\<rparr>]\<rparr>)"
  using assms unfolding list_ok_def by (fastforce simp: sorted_wrt_append dest: bspec)

lemma appended_list:
  assumes vals: "values_ok s" and q: "s_nextSeq s \<le> q" "1 \<le> q" and ap: "apply_write s (CListAppend q ns k v) = Inr s'"
  obtains l where "list_ok (q + 1) (physicalKey ns k) l"
    "s' = s\<lparr>s_listValues := AList.update (physicalKey ns k) l (s_listValues s), s_nextSeq := q + 1\<rparr>"
proof (cases "map_of (s_listValues s) (physicalKey ns k)")
  case None
  with ap q show ?thesis by (auto simp: rbind_eq_Inr list_address_eq_Inr list_ok_def intro!: that)
next
  case (Some l)
  have "list_ok (s_nextSeq s) (physicalKey ns k) l" using vals map_of_SomeD [OF Some] by (auto simp: values_ok_def)
  from appended_list_ok [OF this q] ap Some show ?thesis by (intro that) auto
qed

lemma apply_write_ok:
  assumes ok: "storage_ok s" and w: "write_ok s w" and ap: "apply_write s w = Inr s'"
  shows "storage_ok s'"
proof -
  have vals: "values_ok s" using ok by (simp add: storage_ok_def)
  show ?thesis
  proof (cases w)
  case (CEntry e)
  with assms show ?thesis by (auto intro: entry_write_ok)
next
  case (CUsage r)
  with assms show ?thesis by (auto intro: usage_write_ok)
next
  case (CValueSet q ns k v)
  have q: "s_nextSeq s \<le> q" "1 \<le> q" using w ok CValueSet by (auto simp: write_ok_def storage_ok_def)
  obtain a where a: "value_address ns k = Inr a"
    and s': "s' = s\<lparr>s_scalarValues := AList.update (physicalKey ns k) \<lparr>sv_address = a, sv_value = v, sv_seq = q\<rparr> (s_scalarValues s),
      s_nextSeq := q + 1\<rparr>"
    using ap CValueSet by (auto simp: rbind_eq_Inr)
  have "scalar_ok (q + 1) (physicalKey ns k) \<lparr>sv_address = a, sv_value = v, sv_seq = q\<rparr>"
    using a q by (auto simp: scalar_ok_def value_address_eq_Inr)
  then have "values_ok s'"
    by (intro values_ok_change [OF vals]) (use vals q in \<open>auto simp: s' values_ok_def dest!: set_update_subset [THEN subsetD]\<close>)
  then show ?thesis by (intro value_write_ok [OF ok w ap]) (simp_all add: s')
next
  case (CValueDelete q ns k)
  have q: "s_nextSeq s \<le> q" using w CValueDelete by (auto simp: write_ok_def)
  have s': "s' = s\<lparr>s_scalarValues := AList.delete (physicalKey ns k) (s_scalarValues s), s_nextSeq := q + 1\<rparr>"
    using ap CValueDelete by simp
  have "values_ok s'"
    by (intro values_ok_change [OF vals]) (use vals q in \<open>auto simp: s' values_ok_def dest!: set_delete_subset [THEN subsetD]\<close>)
  then show ?thesis by (intro value_write_ok [OF ok w ap]) (simp_all add: s')
next
  case (CListDelete q ns k)
  have q: "s_nextSeq s \<le> q" using w CListDelete by (auto simp: write_ok_def)
  have s': "s' = s\<lparr>s_listValues := AList.delete (physicalKey ns k) (s_listValues s), s_nextSeq := q + 1\<rparr>"
    using ap CListDelete by simp
  have "values_ok s'"
    by (intro values_ok_change [OF vals]) (use vals q in \<open>auto simp: s' values_ok_def dest!: set_delete_subset [THEN subsetD]\<close>)
  then show ?thesis by (intro value_write_ok [OF ok w ap]) (simp_all add: s')
next
  case (CListAppend q ns k v)
  have q: "s_nextSeq s \<le> q" "1 \<le> q" using w ok CListAppend by (auto simp: write_ok_def storage_ok_def)
  obtain l where new: "list_ok (q + 1) (physicalKey ns k) l"
    and s': "s' = s\<lparr>s_listValues := AList.update (physicalKey ns k) l (s_listValues s), s_nextSeq := q + 1\<rparr>"
    by (rule appended_list [OF vals q ap [unfolded CListAppend]])
  have "values_ok s'"
    by (intro values_ok_change [OF vals]) (use vals q new in \<open>auto simp: s' values_ok_def dest!: set_update_subset [THEN subsetD]\<close>)
  then show ?thesis by (intro value_write_ok [OF ok w ap]) (simp_all add: s')
  qed
qed

section \<open>Transactions\<close>

text \<open>Whether an address occurring in a write is one the constructors accept.\<close>

fun write_address_ok :: "committed_write \<Rightarrow> bool" where
  "write_address_ok (CValueSet _ ns k _) = valid_address ns k"
| "write_address_ok (CListAppend _ ns k _) = valid_address ns k"
| "write_address_ok _ = True"

lemma apply_write_total:
  assumes "write_address_ok w"
  shows "\<exists>s'. apply_write s w = Inr s'"
  using assms by (cases w) (auto simp: value_address_valid list_address_valid Let_def split: option.splits)

lemma apply_write_invalid:
  assumes ok: "values_ok s" and "\<not> write_address_ok w"
  shows "\<exists>e. apply_write s w = Inl e"
proof (cases w)
  case (CListAppend q ns k v)
  have "map_of (s_listValues s) (physicalKey ns k) = None"
  proof (rule ccontr)
    assume "map_of (s_listValues s) (physicalKey ns k) \<noteq> None"
    then obtain l where "(physicalKey ns k, l) \<in> set (s_listValues s)" by (auto dest: map_of_SomeD)
    with ok have l: "list_ok (s_nextSeq s) (physicalKey ns k) l" by (auto simp: values_ok_def)
    then have eq: "ns @ 0 # k = a_namespace (sl_address l) @ 0 # a_key (sl_address l)"
      and valid: "valid_address (a_namespace (sl_address l)) (a_key (sl_address l))"
      by (auto simp: list_ok_def physicalKey_def)
    have "count_list (ns @ 0 # k) 0 = 1" using valid unfolding eq by (simp add: valid_address_def count_list_0_iff)
    then have "0 \<notin> set ns" "0 \<notin> set k" by (auto simp: count_list_0_iff)
    moreover have "ns \<noteq> []" using eq valid by (cases "a_namespace (sl_address l)") (auto simp: valid_address_def)
    ultimately show False using assms(2) CListAppend by (simp add: valid_address_def)
  qed
  then show ?thesis
    using assms CListAppend by (auto simp: list_address_def validateAddress_def valid_address_def)
qed (use assms in \<open>auto simp: value_address_def validateAddress_def valid_address_def\<close>)

text \<open>
  An accepted transaction whose addresses are valid is applied in full, and the invariant holds
  again; the next sequence number is past the last write.
\<close>

lemma applyValidated_ok:
  assumes "storage_ok s" "validateCommitted s ws = Inr ()" "\<forall>w\<in>set ws. write_address_ok w"
  shows "\<exists>s'. applyValidated s ws = (s', Inr (s_stats s')) \<and> storage_ok s' \<and> s_nextSeq s \<le> s_nextSeq s' \<and>
    s_nextSeq s' = (if ws = [] then s_nextSeq s else write_seq (last ws) + 1)"
  using assms
proof (induction ws arbitrary: s)
  case (Cons w ws)
  obtain s1 where ap: "apply_write s w = Inr s1" using apply_write_total [of w s] Cons.prems(3) by auto
  have w: "write_ok s w" and rest: "validateCommitted s1 ws = Inr ()"
    using Cons.prems(2) by (simp_all add: validateCommitted_Cons [OF ap])
  have s1: "storage_ok s1" "s_nextSeq s \<le> s_nextSeq s1" "s_nextSeq s1 = write_seq w + 1"
    using apply_write_ok [OF Cons.prems(1) w ap] w apply_write_nextSeq [OF ap] by (auto simp: write_ok_def)
  obtain s' where "applyValidated s1 ws = (s', Inr (s_stats s'))" "storage_ok s'" "s_nextSeq s1 \<le> s_nextSeq s'"
      "s_nextSeq s' = (if ws = [] then s_nextSeq s1 else write_seq (last ws) + 1)"
    using Cons.IH [OF s1(1) rest] Cons.prems(3) by auto
  with ap s1 show ?case by auto
qed simp

lemma advanceNextSeq_ok:
  assumes ok: "storage_ok s" and ap: "advanceNextSeq s n = Inr s'"
  shows "storage_ok s'"
proof -
  have s': "s' = s\<lparr>s_nextSeq := max (s_nextSeq s) n\<rparr>" using ap by (auto simp: advanceNextSeq_def split: if_splits)
  have "stored_entries_ok s'" by (rule stored_entries_ok_mono [of s]) (use ok in \<open>auto simp: s' storage_ok_def\<close>)
  moreover have "usage_ok s'" by (rule usage_ok_mono [of s]) (use ok in \<open>auto simp: s' storage_ok_def\<close>)
  moreover have "values_ok s'" by (rule values_ok_mono [of s]) (use ok in \<open>auto simp: s' storage_ok_def\<close>)
  moreover have "stats_ok s'" by (rule stats_ok_cong [of s]) (use ok in \<open>auto simp: s' storage_ok_def\<close>)
  ultimately show ?thesis using ok by (auto simp: s' storage_ok_def)
qed

section \<open>The branch walk\<close>

text \<open>The path from an entry to the root: each next entry is the parent of the one before.\<close>

fun parent_path :: "(jstring \<times> entry) list \<Rightarrow> entry list \<Rightarrow> bool" where
  "parent_path m [] = False"
| "parent_path m [e] = (ne_parentId e = None)"
| "parent_path m (e # e' # es) = (ne_parentId e \<noteq> None \<and> map_of m (the (ne_parentId e)) = Some e' \<and> parent_path m (e' # es))"

lemma walk_branch_path:
  assumes ok: "stored_entries_ok s" and e: "e \<in> set (s_entriesBySeq s)"
  shows "\<exists>es. walk_branch (s_entries s) e path = Some (Inr (path @ e # es)) \<and> parent_path (s_entries s) (e # es) \<and>
    sorted_wrt (>) (map e_seq (e # es)) \<and> set (e # es) \<subseteq> set (s_entriesBySeq s)"
  using e
proof (induction "nat (e_seq e)" arbitrary: e path rule: less_induct)
  case less
  show ?case
  proof (cases "ne_parentId e")
    case None
    with less.prems show ?thesis by (subst walk_branch.simps) (auto intro!: exI [of _ "[]"])
  next
    case (Some p)
    with ok less.prems obtain e' where e': "map_of (s_entries s) p = Some e'" "e_seq e' < e_seq e" "1 \<le> e_seq e"
      by (fastforce simp: stored_entries_ok_def)
    have mem: "e' \<in> set (s_entriesBySeq s)"
      using ok e'(1) by (auto simp: stored_entries_ok_def dest!: map_of_SomeD)
    have "nat (e_seq e') < nat (e_seq e)" using e' by simp
    from less.hyps [OF this mem, of "path @ [e]"] obtain es where es:
        "walk_branch (s_entries s) e' (path @ [e]) = Some (Inr (path @ e # e' # es))"
        "parent_path (s_entries s) (e' # es)" "sorted_wrt (>) (map e_seq (e' # es))" "set (e' # es) \<subseteq> set (s_entriesBySeq s)"
      by auto
    have "walk_branch (s_entries s) e path = Some (Inr (path @ e # e' # es))"
      using Some e' es(1) by (subst walk_branch.simps) simp
    moreover have "sorted_wrt (>) (map e_seq (e # e' # es))" using es(3) e'(2) by auto
    ultimately show ?thesis using Some e' es less.prems by (intro exI [of _ "e' # es"]) auto
  qed
qed

lemma parent_path_unique:
  "parent_path m (e # es) \<Longrightarrow> parent_path m (e # fs) \<Longrightarrow> es = fs"
proof (induction es arbitrary: e fs)
  case Nil
  then show ?case by (cases fs) auto
next
  case (Cons x es)
  then show ?case by (cases fs) auto
qed

end
