(* ===== verification/Storage_Reads.thy ===== *)
theory Storage_Reads
  imports Storage_Correct
begin

text \<open>
  The properties of the materialized session state: reachable states satisfy the invariant, branch
  scans end, the state refines an abstract store, and the scans and paged reads equal their
  reference definitions.
\<close>

section \<open>Reachable states\<close>

text \<open>
  The ways the code changes a storage state: a commit, the replay of a committed transaction, and the
  high-water mark of a snapshot. A commit may stop at an address its constructor rejects.
\<close>

inductive storage_reachable :: "storage_state \<Rightarrow> bool" where
  init: "storage_reachable new_storage_state"
| commit: "storage_reachable s \<Longrightarrow> prepareCommit s ws t = Inr pc \<Longrightarrow> storage_reachable (fst (applyValidated s (pc_writes pc)))"
| replay: "storage_reachable s \<Longrightarrow> validateCommitted s ws = Inr () \<Longrightarrow> storage_reachable (fst (applyValidated s ws))"
| advance: "storage_reachable s \<Longrightarrow> advanceNextSeq s n = Inr s' \<Longrightarrow> storage_reachable s'"

lemma applyValidated_keeps_ok:
  "storage_ok s \<Longrightarrow> validateCommitted s ws = Inr () \<Longrightarrow> storage_ok (fst (applyValidated s ws))"
proof (induction ws arbitrary: s)
  case (Cons w ws)
  show ?case
  proof (cases "apply_write s w")
    case (Inr s1)
    with Cons.prems have "write_ok s w" "validateCommitted s1 ws = Inr ()" by (simp_all add: validateCommitted_Cons)
    with Cons Inr show ?thesis by (simp add: apply_write_ok)
  qed (use Cons in simp)
qed simp

lemma storage_reachable_ok: "storage_reachable s \<Longrightarrow> storage_ok s"
proof (induction rule: storage_reachable.induct)
  case (commit s ws t pc)
  then show ?case by (auto simp: prepareCommit_def Let_def rbind_eq_Inr applyValidated_keeps_ok)
qed (auto simp: new_storage_ok applyValidated_keeps_ok advanceNextSeq_ok)

text \<open>
  C24. Every state the storage can reach by commits, replays of committed transactions and sequence
  high-water marks satisfies the invariant: unique ids, entries in ascending sequence order
  with their parents before them, values under the keys of their addresses, ascending list elements and
  exact message and usage totals. It also holds when a commit stops at an address that is rejected.
\<close>

theorem storage_invariant:
  assumes "storage_reachable s"
  shows "storage_ok s"
  using assms by (rule storage_reachable_ok)

theorem storage_invariant_witness: "storage_ok new_storage_state"
  by (rule storage_invariant) (rule storage_reachable.init)

section \<open>Branch scans end\<close>

lemma scanBranch_path:
  assumes ok: "storage_ok s" and start: "map_of (s_entries s) (bq_start q) = Some e"
  shows "\<exists>es. scanBranch s q = Inr (scan_path q (e # es)) \<and> parent_path (s_entries s) (e # es) \<and>
    sorted_wrt (>) (map e_seq (e # es))"
proof -
  have "e \<in> set (s_entriesBySeq s)" and ok': "stored_entries_ok s"
    using ok start by (auto simp: storage_ok_def stored_entries_ok_def dest!: map_of_SomeD)
  with walk_branch_path [OF ok' this(1), of "[]"] show ?thesis
    using start by (auto simp: scanBranch_def)
qed

section \<open>Physical keys\<close>

lemma physicalKey_inject:
  assumes "valid_address ns k"
  shows "physicalKey ns k = physicalKey ns' k' \<longleftrightarrow> ns = ns' \<and> k = k'"
  using assms append_Cons_eq_iff [of 0 ns k ns' k'] by (auto simp: physicalKey_def valid_address_def)

lemma physicalKey_inject2:
  "valid_address ns k \<Longrightarrow> physicalKey ns' k' = physicalKey ns k \<longleftrightarrow> ns' = ns \<and> k' = k"
  using physicalKey_inject [of ns k ns' k'] by metis

lemma physicalKey_eq_valid:
  "valid_address ns k \<Longrightarrow> physicalKey ns' k' = physicalKey ns k \<Longrightarrow> valid_address ns' k'"
  using physicalKey_inject by metis

section \<open>Refinement of an abstract store\<close>

text \<open>
  What a client may assume of a session store: entries by id, one value and sequence number per address,
  and the elements of each list, changed write by write.
\<close>

record abstract_store =
  st_entries :: "jstring \<Rightarrow> entry option"
  st_values :: "jstring \<times> jstring \<Rightarrow> (sval \<times> int) option"
  st_lists :: "jstring \<times> jstring \<Rightarrow> (int \<times> sval) list"

fun spec_write :: "abstract_store \<Rightarrow> committed_write \<Rightarrow> abstract_store" where
  "spec_write a (CEntry e) = a\<lparr>st_entries := (st_entries a)(ne_id e := Some e)\<rparr>"
| "spec_write a (CUsage r) = a"
| "spec_write a (CValueSet q ns k v) = a\<lparr>st_values := (st_values a)((ns, k) := Some (v, q))\<rparr>"
| "spec_write a (CValueDelete q ns k) = a\<lparr>st_values := (st_values a)((ns, k) := None)\<rparr>"
| "spec_write a (CListAppend q ns k v) = a\<lparr>st_lists := (st_lists a)((ns, k) := st_lists a (ns, k) @ [(q, v)])\<rparr>"
| "spec_write a (CListDelete q ns k) = a\<lparr>st_lists := (st_lists a)((ns, k) := [])\<rparr>"

definition list_at :: "storage_state \<Rightarrow> jstring \<Rightarrow> jstring \<Rightarrow> list_element list" where
  "list_at s ns k = (case map_of (s_listValues s) (physicalKey ns k) of None \<Rightarrow> [] | Some l \<Rightarrow> sl_elements l)"

definition abs_store :: "storage_state \<Rightarrow> abstract_store" where
  "abs_store s =
     \<lparr>st_entries = map_of (s_entries s),
      st_values = (\<lambda>(ns, k). map_option (\<lambda>v. (sv_value v, sv_seq v)) (map_of (s_scalarValues s) (physicalKey ns k))),
      st_lists = (\<lambda>(ns, k). map (\<lambda>x. (le_seq x, le_value x)) (list_at s ns k))\<rparr>"

lemma scalar_stored_valid: "values_ok s \<Longrightarrow> map_of (s_scalarValues s) (physicalKey ns k) = Some v \<Longrightarrow> valid_address ns k"
  by (auto simp: values_ok_def scalar_ok_def dest!: map_of_SomeD intro: physicalKey_eq_valid)

lemma list_stored_valid: "values_ok s \<Longrightarrow> map_of (s_listValues s) (physicalKey ns k) = Some v \<Longrightarrow> valid_address ns k"
  by (auto simp: values_ok_def list_ok_def dest!: map_of_SomeD intro: physicalKey_eq_valid)

text \<open>Two addresses share a physical key only if they are equal or nothing can be stored at either.\<close>

lemma scalar_key_cases:
  assumes "values_ok s" "physicalKey ns k = physicalKey ns' k'"
  shows "(ns, k) = (ns', k') \<or>
    map_of (s_scalarValues s) (physicalKey ns k) = None \<and> map_of (s_listValues s) (physicalKey ns k) = None \<and>
    \<not> valid_address ns k"
proof (cases "valid_address ns k")
  case True
  with assms(2) show ?thesis by (simp add: physicalKey_inject)
next
  case False
  then show ?thesis using scalar_stored_valid [OF assms(1)] list_stored_valid [OF assms(1)] by (metis not_Some_eq)
qed

lemma refine_write:
  assumes ok: "storage_ok s" and ap: "apply_write s w = Inr s'"
  shows "abs_store s' = spec_write (abs_store s) w"
proof -
  have vals: "values_ok s" using ok by (simp add: storage_ok_def)
  note key = scalar_key_cases [OF vals]
  show ?thesis
  proof (cases w)
    case (CValueSet q ns k v)
    with ap have "valid_address ns k" by (auto simp: rbind_eq_Inr value_address_eq_Inr)
    with ap CValueSet show ?thesis
      by (auto simp: rbind_eq_Inr abs_store_def list_at_def fun_eq_iff physicalKey_inject2)
  next
    case (CValueDelete q ns k)
    have "map_of (s_scalarValues s) (physicalKey ns' k') = None" if "physicalKey ns' k' = physicalKey ns k" "(ns', k') \<noteq> (ns, k)" for ns' k'
      using key [OF that(1)] that(2) by auto
    with ap CValueDelete show ?thesis by (auto simp: abs_store_def list_at_def fun_eq_iff)
  next
    case (CListAppend q ns k v)
    have "valid_address ns k"
      using ap CListAppend list_stored_valid [OF vals] by (auto simp: rbind_eq_Inr list_address_eq_Inr Let_def split: option.splits)
    with ap CListAppend show ?thesis
      by (auto simp: rbind_eq_Inr abs_store_def list_at_def fun_eq_iff physicalKey_inject2 Let_def split: option.splits)
  next
    case (CListDelete q ns k)
    have "map_of (s_listValues s) (physicalKey ns' k') = None" if "physicalKey ns' k' = physicalKey ns k" "(ns', k') \<noteq> (ns, k)" for ns' k'
      using key [OF that(1)] that(2) by auto
    with ap CListDelete show ?thesis by (auto simp: abs_store_def list_at_def fun_eq_iff)
  qed (use ap in \<open>auto simp: abs_store_def list_at_def fun_eq_iff\<close>)
qed

lemma refine_transaction:
  assumes "storage_ok s" "validateCommitted s ws = Inr ()" "applyValidated s ws = (s', Inr st)"
  shows "abs_store s' = foldl spec_write (abs_store s) ws"
  using assms
proof (induction ws arbitrary: s)
  case (Cons w ws)
  then obtain s1 where ap: "apply_write s w = Inr s1" "applyValidated s1 ws = (s', Inr st)"
    by (auto split: sum.splits)
  with Cons.prems have "write_ok s w" "validateCommitted s1 ws = Inr ()" by (simp_all add: validateCommitted_Cons)
  then have "abs_store s' = foldl spec_write (abs_store s1) ws"
    by (intro Cons.IH apply_write_ok [OF Cons.prems(1) _ ap(1)] ap(2))
  then show ?case by (simp add: refine_write [OF Cons.prems(1) ap(1)])
qed simp


section \<open>Scans and paged reads\<close>

text \<open>The loop of \<^verbatim>\<open>scanEntries\<close> over the entries in the order it visits them.\<close>

fun collect_upto :: "('a \<Rightarrow> bool) \<Rightarrow> int option \<Rightarrow> 'a list \<Rightarrow> 'a list \<Rightarrow> 'a list" where
  "collect_upto p limit acc [] = acc"
| "collect_upto p limit acc (x # xs) =
     (if (case limit of None \<Rightarrow> True | Some l \<Rightarrow> int (length acc) < l)
      then collect_upto p limit (if p x then acc @ [x] else acc) xs else acc)"

lemma collect_upto_eq:
  "collect_upto p limit acc xs =
     acc @ (case limit of None \<Rightarrow> filter p xs | Some l \<Rightarrow> take (nat (l - int (length acc))) (filter p xs))"
proof (induction xs arbitrary: acc)
  case (Cons x xs)
  have "nat (l - int (length acc)) = Suc (nat (l - (1 + int (length acc))))" if "int (length acc) < l" for l
    using that by simp
  then show ?case by (auto simp: Cons.IH split: option.splits)
qed (simp split: option.splits)

lemma scan_up:
  assumes "eq_order q \<noteq> Some Desc" "i \<le> length xs"
  shows "scan_entries_loop q xs limit (int i) acc = collect_upto (entry_matches q) limit acc (drop i xs)"
  using assms(2)
proof (induction "length xs - i" arbitrary: i acc)
  case 0
  then show ?case by (subst scan_entries_loop.simps) simp
next
  case (Suc n)
  then have i: "i < length xs" "n = length xs - Suc i" by simp_all
  have "int i + 1 = int (Suc i)" by simp
  with Suc(1) [OF i(2)] i(1) assms(1) show ?case
    by (subst scan_entries_loop.simps) (auto simp: Cons_nth_drop_Suc [symmetric] add.commute)
qed

lemma scan_down:
  assumes "eq_order q = Some Desc" "i \<le> length xs"
  shows "scan_entries_loop q xs limit (int i - 1) acc = collect_upto (entry_matches q) limit acc (rev (take i xs))"
  using assms(2)
proof (induction i arbitrary: acc)
  case 0
  then show ?case by (subst scan_entries_loop.simps) simp
next
  case (Suc i)
  then show ?case using assms(1) by (subst scan_entries_loop.simps) (simp add: take_Suc_conv_app_nth)
qed

lemma scanEntries_eq:
  "scanEntries s q =
     take_limit (eq_limit q) (filter (entry_matches q)
       (if eq_order q = Some Desc then rev (s_entriesBySeq s) else s_entriesBySeq s))"
  using scan_down [OF _ order_refl, of q "s_entriesBySeq s" "map_option (max 0) (eq_limit q)" "[]"]
    scan_up [OF _ le0, of q "s_entriesBySeq s" "map_option (max 0) (eq_limit q)" "[]"]
  by (auto simp: scanEntries_def take_limit_def collect_upto_eq split: option.splits)

text \<open>An ascending list cut at the sequence number of one of its elements.\<close>

lemma filter_after:
  assumes "sorted_wrt (<) (map f xs)" "i < length xs"
  shows "filter (\<lambda>x. f (xs ! i) < (f x :: int)) xs = drop (Suc i) xs"
proof -
  have "xs = take (Suc i) xs @ drop (Suc i) xs" by simp
  moreover have "filter (\<lambda>x. f (xs ! i) < f x) (take (Suc i) xs) = []"
    using assms by (auto simp: filter_empty_conv in_set_conv_nth sorted_wrt_iff_nth_less not_less le_less less_Suc_eq)
  moreover have "filter (\<lambda>x. f (xs ! i) < f x) (drop (Suc i) xs) = drop (Suc i) xs"
    using assms by (auto simp: filter_id_conv in_set_conv_nth sorted_wrt_iff_nth_less)
  ultimately show ?thesis by (metis filter_append append_Nil)
qed

lemma filter_before:
  assumes "sorted_wrt (<) (map f xs)" "i < length xs"
  shows "filter (\<lambda>x. (f x :: int) < f (xs ! i)) xs = take i xs"
proof -
  have "xs = take i xs @ drop i xs" by simp
  moreover have "filter (\<lambda>x. f x < f (xs ! i)) (take i xs) = take i xs"
    using assms by (auto simp: filter_id_conv in_set_conv_nth sorted_wrt_iff_nth_less)
  moreover have "filter (\<lambda>x. f x < f (xs ! i)) (drop i xs) = []"
  proof -
    have "f (xs ! i) \<le> f (xs ! (i + j))" if "i + j < length xs" for j
      using assms that by (cases j) (auto simp: sorted_wrt_iff_nth_less less_imp_le)
    then show ?thesis using assms(2) by (auto simp: filter_empty_conv in_set_conv_nth not_less)
  qed
  ultimately show ?thesis by (metis filter_append append_Nil2)
qed

lemma list_at_sorted: "storage_ok s \<Longrightarrow> sorted_wrt (<) (map le_seq (list_at s ns k))"
  by (auto simp: list_at_def storage_ok_def values_ok_def list_ok_def split: option.splits dest!: map_of_SomeD)

lemma readList_cursor:
  assumes ok: "storage_ok s" and n: "safe_int n" "0 < n"
    and i: "i < length (list_at s (a_namespace a) (a_key a))"
  shows "readList s a (Some \<lparr>lo_cursor = Some (le_seq (list_at s (a_namespace a) (a_key a) ! i)), lo_order = Some d, lo_limit = Some n\<rparr>) =
    Inr (take (nat (min n 10000))
      (if d = Asc then drop (Suc i) (list_at s (a_namespace a) (a_key a)) else rev (take i (list_at s (a_namespace a) (a_key a)))))"
  using n filter_after [OF list_at_sorted [OF ok] i] filter_before [OF list_at_sorted [OF ok] i]
  by (cases d) (auto simp: readList_def resolveListReadOptions_def list_at_def [symmetric])

text \<open>The comparison of keys is the lexicographic order on code points.\<close>

lemma compare_points_self [simp]: "compare_points xs xs = 0"
  by (induction xs) auto

lemma compare_points_total: "compare_points xs ys \<le> 0 \<or> compare_points ys xs \<le> 0"
  by (induction xs ys rule: compare_points.induct) auto

lemma compare_points_le: "compare_points xs ys \<le> 0 \<longleftrightarrow> xs = ys \<or> (xs, ys) \<in> lexord {(x, y). x < y}"
proof (induction xs arbitrary: ys)
  case Nil
  then show ?case by (cases ys) auto
next
  case (Cons x xs)
  then show ?case by (cases ys) auto
qed

lemma compare_points_trans: "compare_points xs ys \<le> 0 \<Longrightarrow> compare_points ys zs \<le> 0 \<Longrightarrow> compare_points xs zs \<le> 0"
  unfolding compare_points_le using lexord_trans [of _ _ "{(x, y). x < (y :: nat)}"] by (auto simp: trans_def)

lemma scanValues_sorted:
  "sorted_wrt (\<lambda>l r. compareKeys (a_key (sv_address l)) (a_key (sv_address r)) \<le> 0) (scanValues s p)"
  unfolding scanValues_def compareKeys_def
  by (rule sorted_js_sort) (metis compare_points_total, metis compare_points_trans)

lemma scanValues_members:
  assumes "storage_ok s" "a_kind p = AValue"
  shows "v \<in> set (scanValues s p) \<longleftrightarrow>
    a_namespace (sv_address v) = a_namespace p \<and> prefix (a_key p) (a_key (sv_address v)) \<and> getValue s (sv_address v) = Some v"
proof -
  have d: "distinct (keys (s_scalarValues s))" and ok: "\<forall>(k, v)\<in>set (s_scalarValues s). scalar_ok (s_nextSeq s) k v"
    using assms by (auto simp: storage_ok_def values_ok_def)
  have "v \<in> set (map_values (s_scalarValues s)) \<longleftrightarrow> getValue s (sv_address v) = Some v"
    unfolding map_values_lookup [OF d] getValue_def
  proof
    assume "\<exists>k. map_of (s_scalarValues s) k = Some v"
    then obtain k where k: "map_of (s_scalarValues s) k = Some v" ..
    from map_of_SomeD [OF this] ok have "k = physicalKey (a_namespace (sv_address v)) (a_key (sv_address v))"
      by (auto simp: scalar_ok_def)
    with k show "map_of (s_scalarValues s) (physicalKey (a_namespace (sv_address v)) (a_key (sv_address v))) = Some v" by simp
  qed blast
  then show ?thesis by (auto simp: scanValues_def)
qed

section \<open>Which commits are accepted\<close>

fun new_ids :: "store_write list \<Rightarrow> jstring list" where
  "new_ids [] = []"
| "new_ids (WEntry e # ws) = ne_id e # new_ids ws"
| "new_ids (WUsage r # ws) = ur_id r # new_ids ws"
| "new_ids (_ # ws) = new_ids ws"

fun new_entry_ids :: "store_write list \<Rightarrow> jstring list" where
  "new_entry_ids [] = []"
| "new_entry_ids (WEntry e # ws) = ne_id e # new_entry_ids ws"
| "new_entry_ids (_ # ws) = new_entry_ids ws"

text \<open>Every parent is known or is inserted earlier in the same transaction.\<close>

definition parents_before :: "(jstring \<Rightarrow> bool) \<Rightarrow> store_write list \<Rightarrow> bool" where
  "parents_before ek ws \<longleftrightarrow>
     (\<forall>before e after p. ws = before @ WEntry e # after \<longrightarrow> ne_parentId e = Some p \<longrightarrow> ek p \<or> p \<in> set (new_entry_ids before))"

lemma new_entry_ids_Cons: "new_entry_ids (w # ws) = (case w of WEntry e \<Rightarrow> [ne_id e] | _ \<Rightarrow> []) @ new_entry_ids ws"
  by (cases w) simp_all

lemma parents_before_Cons:
  "parents_before ek (w # ws) \<longleftrightarrow>
     (\<forall>e p. w = WEntry e \<longrightarrow> ne_parentId e = Some p \<longrightarrow> ek p) \<and>
     parents_before (\<lambda>p. ek p \<or> p \<in> set (case w of WEntry e \<Rightarrow> [ne_id e] | _ \<Rightarrow> [])) ws"
  (is "?l \<longleftrightarrow> ?r")
proof
  assume l: ?l
  show ?r
    unfolding parents_before_def
  proof (intro conjI allI impI)
    fix e p assume "w = WEntry e" "ne_parentId e = Some p"
    with l [unfolded parents_before_def, rule_format, of "[]" e ws p] show "ek p" by simp
  next
    fix before e after p
    assume "ws = before @ WEntry e # after" "ne_parentId e = Some p"
    with l [unfolded parents_before_def, rule_format, of "w # before" e after p]
    show "(ek p \<or> p \<in> set (case w of WEntry e \<Rightarrow> [ne_id e] | _ \<Rightarrow> [])) \<or> p \<in> set (new_entry_ids before)"
      by (auto simp: new_entry_ids_Cons)
  qed
next
  assume r: ?r
  show ?l
    unfolding parents_before_def
  proof (intro allI impI)
    fix before e after p assume eq: "w # ws = before @ WEntry e # after" and p: "ne_parentId e = Some p"
    show "ek p \<or> p \<in> set (new_entry_ids before)"
    proof (cases before)
      case Nil
      with eq p r show ?thesis by simp
    next
      case (Cons w' before')
      with eq have "ws = before' @ WEntry e # after" "w' = w" by simp_all
      with r p Cons show ?thesis by (auto simp: parents_before_def new_entry_ids_Cons)
    qed
  qed
qed

lemma validate_commit_writes:
  "validate_writes known ek (commit_writes ws q t) (q - 1) ids eids = Inr () \<longleftrightarrow>
     distinct (new_ids ws) \<and> (\<forall>i\<in>set (new_ids ws). \<not> known i \<and> i \<notin> set ids) \<and>
     parents_before (\<lambda>p. ek p \<or> p \<in> set eids) ws"
proof (induction ws arbitrary: q ids eids)
  case Nil
  then show ?case by (simp add: parents_before_def)
next
  case (Cons w ws)
  have IH: "validate_writes known ek (commit_writes ws (q + 1) t) q ids eids = Inr () \<longleftrightarrow>
      distinct (new_ids ws) \<and> (\<forall>i\<in>set (new_ids ws). \<not> known i \<and> i \<notin> set ids) \<and> parents_before (\<lambda>p. ek p \<or> p \<in> set eids) ws" for ids eids
    using Cons.IH [of "q + 1" ids eids] by simp
  have union: "(\<lambda>p. (ek p \<or> p \<in> set eids) \<or> p \<in> {i}) = (\<lambda>p. ek p \<or> p \<in> set (eids @ [i]))" for i by auto
  show ?case
  proof (cases w)
    case (WEntry e)
    show ?thesis
      unfolding parents_before_Cons [of _ w]
      by (cases "ne_parentId e") (auto simp: WEntry IH union [simplified])
  next
    case (WUsage r)
    then show ?thesis unfolding parents_before_Cons [of _ w] by (auto simp: IH)
  qed (unfold parents_before_Cons [of _ w], simp_all add: IH)
qed

lemma validate_commit_error:
  "validate_writes known ek (commit_writes ws q t) (q - 1) ids eids = Inl err \<Longrightarrow>
     (\<exists>i. err = DuplicateId i) \<or> (\<exists>i. err = MissingParentEntry i)"
proof (induction ws arbitrary: q ids eids)
  case (Cons w ws)
  note IH = Cons.IH [of "q + 1", simplified]
  from Cons.prems IH show ?case by (cases w) (auto split: if_splits option.splits)
qed simp

lemma prepareCommit_eq:
  "prepareCommit s ws t =
     rbind (validate_writes (\<lambda>i. has_key (s_entries s) i \<or> has_key (s_usage s) i) (\<lambda>i. has_key (s_entries s) i)
       (commit_writes ws (s_nextSeq s) t) (s_nextSeq s - 1) [] [])
       (\<lambda>_. Inr (prepareStorageCommit ws (s_nextSeq s) t))"
  by (simp add: prepareCommit_def prepareStorageCommit_def validateCommitted_def validateCommittedWrites_def Let_def)

lemma prepareCommit_ok_iff:
  "is_ok (prepareCommit s ws t) \<longleftrightarrow>
     distinct (new_ids ws) \<and> (\<forall>i\<in>set (new_ids ws). \<not> has_key (s_entries s) i \<and> \<not> has_key (s_usage s) i) \<and>
     parents_before (\<lambda>p. has_key (s_entries s) p) ws"
proof -
  have "is_ok (rbind v (\<lambda>_. Inr x)) \<longleftrightarrow> v = Inr ()" for v :: "(session_error, unit) res" and x :: prepared_commit
    by (cases v) simp_all
  then show ?thesis by (simp add: prepareCommit_eq validate_commit_writes)
qed

lemma prepareCommit_error:
  "prepareCommit s ws t = Inl err \<Longrightarrow> (\<exists>i. err = DuplicateId i) \<or> (\<exists>i. err = MissingParentEntry i)"
  by (auto simp: prepareCommit_eq rbind_eq_Inl dest!: validate_commit_error)

section \<open>The properties\<close>

text \<open>
  C25. On a reachable state, a branch scan from a known entry returns, never reports a corrupt branch, and
  selects from the unique path of parents from that entry to its root, on which sequence numbers strictly
  decrease. Without the invariant the loop over parents might not end.
\<close>

theorem scanBranch_total:
  assumes "storage_reachable s" and "map_of (s_entries s) (bq_start q) = Some e"
  shows "\<exists>!path. hd path = e \<and> parent_path (s_entries s) path \<and> sorted_wrt (>) (map e_seq path) \<and>
    scanBranch s q = Inr (scan_path q path)"
proof -
  from scanBranch_path [OF storage_reachable_ok [OF assms(1)] assms(2)] obtain es where
    "scanBranch s q = Inr (scan_path q (e # es))" "parent_path (s_entries s) (e # es)" "sorted_wrt (>) (map e_seq (e # es))"
    by blast
  then show ?thesis
  proof (intro ex1I [of _ "e # es"])
    fix path assume "hd path = e \<and> parent_path (s_entries s) path \<and> sorted_wrt (>) (map e_seq path) \<and> scanBranch s q = Inr (scan_path q path)"
    with \<open>parent_path (s_entries s) (e # es)\<close> show "path = e # es" by (cases path) (auto dest: parent_path_unique)
  qed simp
qed

definition sample_entry :: "string \<Rightarrow> string option \<Rightarrow> new_entry" where
  "sample_entry i p = \<lparr>ne_id = js i, ne_parentId = map_option js p, ne_customType = Some (js ''note''), ne_body = CustomBody None\<rparr>"

definition sample_writes :: "store_write list" where
  "sample_writes = [WEntry (sample_entry ''a'' None), WEntry (sample_entry ''b'' (Some ''a'')),
     WListAppend (js ''app'') (js ''log'') (SText (js ''x'')), WListAppend (js ''app'') (js ''log'') (SText (js ''y'')),
     WValueSet (js ''app'') (js ''k'') (SText (js ''v''))]"

definition sample_prepared :: prepared_commit where
  "sample_prepared = prepareStorageCommit sample_writes 1 7"

definition sample_state :: storage_state where
  "sample_state = fst (applyValidated new_storage_state (pc_writes sample_prepared))"

lemma js_nonzero: "0 \<in> set (js s) \<longleftrightarrow> CHR 0x00 \<in> set s"
proof -
  have "(of_char c :: 16 word) = 0 \<longleftrightarrow> c = CHR 0x00" for c
    using inj_of_char16 by (auto dest: injD [where y = "CHR 0x00"])
  then show ?thesis by (auto simp: js_def image_iff)
qed

lemmas sample_defs = sample_state_def sample_prepared_def sample_writes_def sample_entry_def prepareStorageCommit_def
  new_storage_state_def value_address_def list_address_def validateAddress_def js_nonzero physicalKey_def Let_def

lemma sample_prepare: "prepareCommit new_storage_state sample_writes 7 = Inr sample_prepared"
  by (simp add: prepareCommit_def validateCommitted_def validateCommittedWrites_def sample_defs)

lemma sample_reachable: "storage_reachable sample_state"
  unfolding sample_state_def by (rule storage_reachable.commit [OF storage_reachable.init sample_prepare])

lemma sample_entries:
  "map_of (s_entries sample_state) (js ''b'') =
     Some (materializeCommittedEntry (sample_entry ''b'' (Some ''a'')) 2 7)"
  by (simp add: sample_defs materializeCommittedEntry_def entry_type_of_def)


theorem scanBranch_total_witness:
  "\<exists>!path. hd path = materializeCommittedEntry (sample_entry ''b'' (Some ''a'')) 2 7 \<and>
     parent_path (s_entries sample_state) path \<and> sorted_wrt (>) (map e_seq path) \<and>
     scanBranch sample_state \<lparr>bq_start = js ''b'', bq_stopAtType = None, bq_stopAtId = None, bq_type = None, bq_customType = None,
       bq_order = Some OldestFirst, bq_limit = None, bq_cursor = None\<rparr> = Inr (scan_path \<lparr>bq_start = js ''b'', bq_stopAtType = None,
       bq_stopAtId = None, bq_type = None, bq_customType = None, bq_order = Some OldestFirst, bq_limit = None, bq_cursor = None\<rparr> path)"
  by (rule scanBranch_total [OF sample_reachable]) (simp add: sample_entries)

text \<open>
  C3. A commit that is accepted and whose addresses are valid (which validation does not check) is applied in full: the writes are
  numbered consecutively from the next sequence number, and the state after it implements exactly the write-by-write
  update of an abstract store of entries, values and lists. Distinct addresses never share a
  physical key.
\<close>

theorem commit_refines:
  assumes "storage_reachable s" and "prepareCommit s ws t = Inr pc" and "\<forall>w\<in>set (pc_writes pc). write_address_ok w"
  shows "\<exists>s'. applyValidated s (pc_writes pc) = (s', Inr (s_stats s')) \<and> storage_reachable s' \<and>
    abs_store s' = foldl spec_write (abs_store s) (pc_writes pc) \<and>
    pc_seqs pc = map (\<lambda>i. s_nextSeq s + int i) [0..<length ws] \<and>
    s_nextSeq s' = s_nextSeq s + int (length ws)"
proof -
  have pc: "pc = prepareStorageCommit ws (s_nextSeq s) t" and v: "validateCommitted s (pc_writes pc) = Inr ()"
    using assms(2) by (auto simp: prepareCommit_def Let_def rbind_eq_Inr)
  have seqs: "map write_seq (pc_writes pc) = map (\<lambda>i. s_nextSeq s + int i) [0..<length ws]"
    by (simp add: pc prepareStorageCommit_def Let_def seqs_commit_writes)
  from applyValidated_ok [OF storage_reachable_ok [OF assms(1)] v assms(3)] obtain s' where
    s': "applyValidated s (pc_writes pc) = (s', Inr (s_stats s'))"
      "s_nextSeq s' = (if pc_writes pc = [] then s_nextSeq s else write_seq (last (pc_writes pc)) + 1)" by blast
  have "s_nextSeq s' = s_nextSeq s + int (length ws)"
  proof (cases "ws = []")
    case True
    then show ?thesis using s'(2) by (simp add: pc prepareStorageCommit_def)
  next
    case False
    then have ne: "pc_writes pc \<noteq> []" using seqs by auto
    have "write_seq (last (pc_writes pc)) = last (map write_seq (pc_writes pc))" using ne by (simp add: last_map)
    also have "\<dots> = s_nextSeq s + int (length ws - 1)" using False by (simp add: seqs last_map)
    finally show ?thesis using s'(2) ne False by (simp add: of_nat_diff Suc_leI)
  qed
  moreover have "pc_seqs pc = map (\<lambda>i. s_nextSeq s + int i) [0..<length ws]"
    using seqs by (simp add: pc prepareStorageCommit_def Let_def)
  moreover have "storage_reachable s'" using storage_reachable.commit [OF assms(1,2)] s'(1) by simp
  ultimately show ?thesis
    using s'(1) refine_transaction [OF storage_reachable_ok [OF assms(1)] v s'(1)] by blast
qed

theorem commit_refines_witness:
  "\<exists>s'. applyValidated new_storage_state (pc_writes sample_prepared) = (s', Inr (s_stats s')) \<and> storage_reachable s' \<and>
    abs_store s' = foldl spec_write (abs_store new_storage_state) (pc_writes sample_prepared) \<and>
    pc_seqs sample_prepared = map (\<lambda>i. s_nextSeq new_storage_state + int i) [0..<length sample_writes] \<and>
    s_nextSeq s' = s_nextSeq new_storage_state + int (length sample_writes)"
  by (rule commit_refines [OF storage_reachable.init sample_prepare])
    (simp add: sample_prepared_def sample_writes_def prepareStorageCommit_def valid_address_def js_nonzero)

text \<open>
  Validation does not look at addresses. A commit with an entry and a value whose namespace is empty is accepted, and
  applying it throws after the entry has been stored.
\<close>

lemma partial_commit:
  assumes "ws = [WEntry (sample_entry ''a'' None), WValueSet [] (js ''k'') (SText (js ''v''))]"
  shows "prepareCommit new_storage_state ws 7 = Inr (prepareStorageCommit ws 1 7)" (is ?accepted)
    and "\<exists>s' e. applyValidated new_storage_state (pc_writes (prepareStorageCommit ws 1 7)) = (s', Inl e) \<and> has_key (s_entries s') (js ''a'')" (is ?partial)
proof -
  show ?accepted unfolding assms by (simp add: prepareCommit_def validateCommitted_def validateCommittedWrites_def sample_defs)
  show ?partial unfolding assms by (simp add: sample_defs materializeCommittedEntry_def entry_type_of_def)
qed

text \<open>
  \<^verbatim>\<open>scanEntries\<close>, whose loop runs an index up or down and stops at the limit, returns exactly the
  matching entries in ascending (or descending) sequence order, cut to the limit.
\<close>

theorem scanEntries_reference:
  "scanEntries s q =
     take_limit (eq_limit q) (filter (entry_matches q)
       (if eq_order q = Some Desc then rev (s_entriesBySeq s) else s_entriesBySeq s))"
  by (rule scanEntries_eq)

text \<open>
  Reading a list page by page with cursors loses and repeats nothing: from the sequence number of the
  element at position \<open>i\<close>, an ascending read returns the elements after \<open>i\<close> and a descending one those
  before \<open>i\<close> in reverse, up to the requested limit or 10000.
\<close>

theorem readList_pages:
  assumes "storage_reachable s" and "safe_int n" and "0 < n" and "i < length (list_at s (a_namespace a) (a_key a))"
  shows "readList s a (Some \<lparr>lo_cursor = Some (le_seq (list_at s (a_namespace a) (a_key a) ! i)), lo_order = Some d, lo_limit = Some n\<rparr>) =
    Inr (take (nat (min n 10000))
      (if d = Asc then drop (Suc i) (list_at s (a_namespace a) (a_key a)) else rev (take i (list_at s (a_namespace a) (a_key a)))))"
  by (rule readList_cursor [OF storage_reachable_ok [OF assms(1)] assms(2-4)])

lemma sample_list:
  "list_at sample_state (js ''app'') (js ''log'') = [\<lparr>le_seq = 3, le_value = SText (js ''x'')\<rparr>, \<lparr>le_seq = 4, le_value = SText (js ''y'')\<rparr>]"
  by (simp add: list_at_def sample_defs)

theorem readList_pages_witness:
  "readList sample_state \<lparr>a_namespace = js ''app'', a_key = js ''log'', a_kind = AList\<rparr>
     (Some \<lparr>lo_cursor = Some 3, lo_order = Some Asc, lo_limit = Some 5\<rparr>) = Inr [\<lparr>le_seq = 4, le_value = SText (js ''y'')\<rparr>]"
  using readList_pages [OF sample_reachable, of 5 0 "\<lparr>a_namespace = js ''app'', a_key = js ''log'', a_kind = AList\<rparr>" Asc]
  by (simp add: sample_list safe_int_def max_safe_def)

text \<open>
  \<^verbatim>\<open>scanValues\<close> returns, each exactly once and in ascending code point order of the keys, the stored
  values of the namespace whose key starts with the prefix.
\<close>

theorem scanValues_exact:
  assumes "storage_reachable s" and "a_kind p = AValue"
  shows "sorted_wrt (\<lambda>l r. compareKeys (a_key (sv_address l)) (a_key (sv_address r)) \<le> 0) (scanValues s p) \<and>
    distinct (map sv_address (scanValues s p)) \<and>
    set (scanValues s p) = {v. a_namespace (sv_address v) = a_namespace p \<and> prefix (a_key p) (a_key (sv_address v)) \<and>
      getValue s (sv_address v) = Some v}"
proof -
  have ok: "storage_ok s" by (rule storage_reachable_ok [OF assms(1)])
  have "distinct (map sv_address (map_values (s_scalarValues s)))"
  proof -
    have d: "distinct (keys (s_scalarValues s))" and k: "\<forall>(k, v)\<in>set (s_scalarValues s). scalar_ok (s_nextSeq s) k v"
      using ok by (auto simp: storage_ok_def values_ok_def)
    have "keys (s_scalarValues s) = map (\<lambda>v. physicalKey (a_namespace (sv_address v)) (a_key (sv_address v))) (map_values (s_scalarValues s))"
      using k by (auto simp: map_values_def scalar_ok_def)
    with d have "distinct (map (\<lambda>a. physicalKey (a_namespace a) (a_key a)) (map sv_address (map_values (s_scalarValues s))))"
      by (simp add: comp_def)
    then show ?thesis by (rule distinct_map [THEN iffD1, THEN conjunct1])
  qed
  then have "distinct (map sv_address (scanValues s p))"
    unfolding scanValues_def
    by (metis (no_types, lifting) distinct_map_filter mset_eq_imp_distinct_iff mset_js_sort mset_map)
  then show ?thesis using scanValues_sorted scanValues_members [OF ok assms(2)] by blast
qed

theorem scanValues_exact_witness:
  "set (scanValues sample_state \<lparr>a_namespace = js ''app'', a_key = [], a_kind = AValue\<rparr>) =
     {v. a_namespace (sv_address v) = js ''app'' \<and> getValue sample_state (sv_address v) = Some v}"
  using scanValues_exact [OF sample_reachable, of "\<lparr>a_namespace = js ''app'', a_key = [], a_kind = AValue\<rparr>"] by simp


text \<open>
  C40. A commit is accepted exactly when the ids it inserts are distinct and new to the session, among entries and
  usage rows alike, and every parent is already stored or is inserted earlier in the commit. Otherwise the error
  names a duplicate id or a missing parent; the sequence check never fails.
\<close>

theorem prepareCommit_accepts:
  "(is_ok (prepareCommit s ws t) \<longleftrightarrow>
     distinct (new_ids ws) \<and> (\<forall>i\<in>set (new_ids ws). \<not> has_key (s_entries s) i \<and> \<not> has_key (s_usage s) i) \<and>
     parents_before (\<lambda>p. has_key (s_entries s) p) ws) \<and>
   (\<forall>err. prepareCommit s ws t = Inl err \<longrightarrow> (\<exists>i. err = DuplicateId i) \<or> (\<exists>i. err = MissingParentEntry i))"
  using prepareCommit_ok_iff prepareCommit_error by blast

theorem prepareCommit_accepts_witness:
  "is_ok (prepareCommit new_storage_state sample_writes 7) \<and>
   \<not> is_ok (prepareCommit sample_state [WEntry (sample_entry ''b'' None)] 8)"
proof -
  have "has_key (s_entries sample_state) (js ''b'')" by (simp add: sample_entries)
  then have "\<not> is_ok (prepareCommit sample_state [WEntry (sample_entry ''b'' None)] 8)"
    using prepareCommit_accepts [of sample_state "[WEntry (sample_entry ''b'' None)]" 8]
    by (auto simp: sample_entry_def)
  then show ?thesis by (simp add: sample_prepare)
qed

end
