(* ===== verification/Session_Context.thy ===== *)
theory Session_Context
  imports Storage_Reads
begin

text \<open>
  The model context of a branch: \<^verbatim>\<open>packages/agent/src/harness/session/context.ts\<close>. Everything before the
  last compaction is replaced by its summary; a custom entry becomes what its projector returns. The
  projectors are supplied by the application and are a parameter.
\<close>

section \<open>Building the context\<close>

text \<open>The backward loop of \<^verbatim>\<open>buildContextEntries\<close>: the index of the last compaction.\<close>

fun last_compaction :: "entry list \<Rightarrow> nat \<Rightarrow> nat option" where
  "last_compaction path 0 = None"
| "last_compaction path (Suc i) = (if entry_type_of (path ! i) = ECompaction then Some i else last_compaction path i)"

definition buildContextEntries :: "entry list \<Rightarrow> entry list" where
  "buildContextEntries pathEntries =
     (case last_compaction pathEntries (length pathEntries) of
        None \<Rightarrow> pathEntries
      | Some i \<Rightarrow> pathEntries ! i # drop (i + 1) pathEntries)"

definition isContextMessage :: "agent_message \<Rightarrow> bool" where
  "isContextMessage m =
     (case m of
        Llm (AssistantMsg a) \<Rightarrow>
          am_stopReason a \<noteq> StopError \<and> am_stopReason a \<noteq> StopAborted \<and> am_stopReason a \<noteq> StopDeferred
      | _ \<Rightarrow> True)"

definition sessionEntryToContextMessages :: "entry \<Rightarrow> agent_message list" where
  "sessionEntryToContextMessages e =
     (case ne_body e of
        MessageBody m _ \<Rightarrow> if isContextMessage m then [m] else []
      | CompactionBody c \<Rightarrow>
          createCompactionSummaryMessage (co_summary c) (co_tokensBefore c) (e_timestamp e) # filter isContextMessage (co_retainedTail c)
      | BranchSummaryBody b \<Rightarrow>
          if br_summary b \<noteq> [] then [createBranchSummaryMessage (br_summary b) (br_fromId b) (e_timestamp e)] else []
      | CustomBody _ \<Rightarrow> [])"

type_synonym projectors = "jstring \<Rightarrow> (entry \<Rightarrow> agent_message list option) option"

definition entry_messages :: "projectors \<Rightarrow> entry \<Rightarrow> agent_message list" where
  "entry_messages projectors e =
     (if entry_type_of e \<noteq> ECustom then sessionEntryToContextMessages e
      else case Option.bind (ne_customType e) projectors of
          None \<Rightarrow> []
        | Some p \<Rightarrow> (case p e of None \<Rightarrow> [] | Some ms \<Rightarrow> ms))"

definition buildSessionContext :: "projectors \<Rightarrow> entry list \<Rightarrow> agent_message list" where
  "buildSessionContext projectors pathEntries = concat (map (entry_messages projectors) (buildContextEntries pathEntries))"

section \<open>The bounded read\<close>

text \<open>
  \<^verbatim>\<open>readBoundedEntries\<close> of \<^verbatim>\<open>packages/agent/src/harness/runtime/transcript.ts\<close>: a branch scan from the
  tip that stops at the first compaction, reversed.
\<close>

definition bounded_query :: "jstring \<Rightarrow> branch_scan" where
  "bounded_query tipId =
     \<lparr>bq_start = tipId, bq_stopAtType = Some ECompaction, bq_stopAtId = None, bq_type = None, bq_customType = None,
      bq_order = Some NewestFirst, bq_limit = None, bq_cursor = None\<rparr>"

definition readBoundedEntries :: "storage_state \<Rightarrow> jstring option \<Rightarrow> (session_error, entry list) res" where
  "readBoundedEntries s tipId =
     (case tipId of
        None \<Rightarrow> Inl RunWithoutTip
      | Some i \<Rightarrow> rbind (scanBranch s (bounded_query i)) (\<lambda>entries. Inr (rev entries)))"

definition full_query :: "jstring \<Rightarrow> branch_scan" where
  "full_query tipId =
     \<lparr>bq_start = tipId, bq_stopAtType = None, bq_stopAtId = None, bq_type = None, bq_customType = None,
      bq_order = Some OldestFirst, bq_limit = None, bq_cursor = None\<rparr>"

section \<open>The last compaction\<close>

abbreviation is_compaction :: "entry \<Rightarrow> bool" where
  "is_compaction e \<equiv> entry_type_of e = ECompaction"

lemma last_compaction_None: "n \<le> length xs \<Longrightarrow> last_compaction xs n = None \<longleftrightarrow> (\<forall>e\<in>set (take n xs). \<not> is_compaction e)"
  by (induction n) (auto simp: take_Suc_conv_app_nth)

lemma last_compaction_append:
  "\<forall>e\<in>set ys. \<not> is_compaction e \<Longrightarrow> last_compaction (xs @ ys) (length xs + length ys) = last_compaction (xs @ ys) (length xs)"
proof (induction ys rule: rev_induct)
  case (snoc y ys)
  have cong: "(\<And>j. j < n \<Longrightarrow> as ! j = bs ! j) \<Longrightarrow> last_compaction as n = last_compaction bs n" for as bs n
    by (induction n) auto
  have "last_compaction (xs @ ys @ [y]) n = last_compaction (xs @ ys) n" if "n \<le> length xs + length ys" for n
    by (rule cong) (use that in \<open>simp add: nth_append\<close>)
  with snoc show ?case by (simp add: nth_append)
qed simp

lemma buildContextEntries_split:
  assumes "is_compaction c" "\<forall>e\<in>set after. \<not> is_compaction e"
  shows "buildContextEntries (before @ c # after) = c # after"
proof -
  have "last_compaction ((before @ [c]) @ after) (length (before @ [c]) + length after) = Some (length before)"
    using assms(1) by (subst last_compaction_append [OF assms(2)]) (simp add: nth_append)
  then show ?thesis by (simp add: buildContextEntries_def nth_append)
qed

lemma buildContextEntries_none: "\<forall>e\<in>set path. \<not> is_compaction e \<Longrightarrow> buildContextEntries path = path"
  using last_compaction_None [of "length path" path] by (simp add: buildContextEntries_def)

lemma stop_after_split: "\<forall>x\<in>set xs. \<not> p x \<Longrightarrow> p c \<Longrightarrow> stop_after p (xs @ c # ys) = xs @ [c]"
  by (induction xs) auto

lemma stop_after_none: "\<forall>x\<in>set xs. \<not> p x \<Longrightarrow> stop_after p xs = xs"
  by (induction xs) auto

text \<open>Cutting at the last compaction first changes nothing.\<close>

lemma bounded_context:
  "buildContextEntries (rev (stop_after is_compaction path)) = buildContextEntries (rev path)"
proof (cases "\<exists>c\<in>set path. is_compaction c")
  case True
  from split_list_first_prop [OF True] obtain newer c older where
    split: "path = newer @ c # older" "is_compaction c" "\<forall>e\<in>set newer. \<not> is_compaction e" by blast
  have "stop_after is_compaction path = newer @ [c]" using split by (simp add: stop_after_split)
  moreover have "buildContextEntries (rev path) = c # rev newer"
    using buildContextEntries_split [of c "rev newer" "rev older"] split by simp
  moreover have "buildContextEntries ([] @ c # rev newer) = c # rev newer"
    by (rule buildContextEntries_split) (use split in auto)
  ultimately show ?thesis by simp
qed (simp add: stop_after_none)

text \<open>
  C26. The context the runtime builds from its bounded read of a lane (back to the most recent compaction only) is the
  context of the whole branch, and neither read fails.
\<close>

theorem bounded_read_context:
  assumes "storage_reachable s" and "map_of (s_entries s) tipId = Some e"
  shows "\<exists>bounded full. readBoundedEntries s (Some tipId) = Inr bounded \<and> scanBranch s (full_query tipId) = Inr full \<and>
    buildSessionContext projectors bounded = buildSessionContext projectors full"
proof -
  note path = scanBranch_path [OF storage_reachable_ok [OF assms(1)]]
  from path [of "bounded_query tipId" e] path [of "full_query tipId" e] assms(2) obtain es fs where
    es: "scanBranch s (bounded_query tipId) = Inr (scan_path (bounded_query tipId) (e # es))" "parent_path (s_entries s) (e # es)" and
    fs: "scanBranch s (full_query tipId) = Inr (scan_path (full_query tipId) (e # fs))" "parent_path (s_entries s) (e # fs)"
    by (auto simp: bounded_query_def full_query_def)
  have "fs = es" by (rule parent_path_unique [OF fs(2) es(2)])
  moreover have "scan_path (bounded_query tipId) (e # es) = stop_after is_compaction (e # es)"
    by (simp add: scan_path_def bounded_query_def take_limit_def eq_commute)
  moreover have "scan_path (full_query tipId) (e # es) = rev (e # es)"
    using stop_after_none [of "rev (e # es)" "\<lambda>_. False"] by (simp add: scan_path_def full_query_def take_limit_def del: rev.simps)
  ultimately show ?thesis
    using es(1) fs(1) bounded_context [of "e # es"] by (simp add: readBoundedEntries_def buildSessionContext_def)
qed

theorem bounded_read_context_witness:
  "\<exists>bounded full. readBoundedEntries sample_state (Some (js ''b'')) = Inr bounded \<and> scanBranch sample_state (full_query (js ''b'')) = Inr full \<and>
    buildSessionContext (\<lambda>_. None) bounded = buildSessionContext (\<lambda>_. None) full"
  by (rule bounded_read_context [OF sample_reachable sample_entries])

end
