(* ===== verification/Mutation_Line.thy ===== *)
theory Mutation_Line
  imports Session_Values
begin

text \<open>
  The line on which the mutations of a session take turns: \<^verbatim>\<open>packages/agent/src/harness/session/mutation-line.ts\<close>, at the level of its promises. A job does not run at
  once: it waits for the promise that was the tail when it was submitted, then takes any number of steps on the shared state, with other code in between, and settles with a
  value or with an error. Which callback runs next is left open.
\<close>

section \<open>Promises and jobs\<close>

datatype 'r settlement = Fulfilled 'r | Rejected session_error

text \<open>What a caller submits: what its operation does to the shared state from one await to the next, and how it settles in the end.\<close>

record ('s, 'r) line_operation =
  lo_steps :: "('s \<Rightarrow> 's) list"
  lo_result :: "'s \<Rightarrow> 'r settlement"

text \<open>
  A submitted job: the tail it waits for (\<open>None\<close> is the resolved promise the line starts with, \<open>Some i\<close> the tail made of job \<open>i\<close>), the steps left once its callback was called,
  and the settlement of its promise.
\<close>

record ('s, 'r) line_job =
  lj_operation :: "('s, 'r) line_operation"
  lj_after :: "nat option"
  lj_left :: "('s \<Rightarrow> 's) list option"
  lj_settled :: "'r settlement option"

record ('s, 'r) mutation_line =
  ml_tail :: "nat option"
  ml_sealedError :: "session_error option"
  ml_jobs :: "('s, 'r) line_job list"
  ml_shared :: 's




definition update_job :: "nat \<Rightarrow> (('s, 'r) line_job \<Rightarrow> ('s, 'r) line_job) \<Rightarrow> ('s, 'r) mutation_line \<Rightarrow> ('s, 'r) mutation_line" where
  "update_job i f l = l\<lparr>ml_jobs := (ml_jobs l)[i := f (ml_jobs l ! i)]\<rparr>"

section \<open>The operations\<close>





section \<open>Histories\<close>





section \<open>Operations one after the other\<close>





section \<open>The invariant\<close>



definition chained :: "('s, 'r) mutation_line \<Rightarrow> bool" where
  "chained l \<longleftrightarrow> (\<forall>i<length (ml_jobs l). lj_after (ml_jobs l ! i) = (if i = 0 then None else Some (i - 1))) \<and>
     ml_tail l = (if ml_jobs l = [] then None else Some (length (ml_jobs l) - 1))"


lemma chained_shared [simp]: "chained (l\<lparr>ml_shared := s\<rparr>) = chained l" "chained (l\<lparr>ml_sealedError := e\<rparr>) = chained l"
  by (simp_all add: chained_def)


lemma update_job_fields [simp]: "ml_shared (update_job i f l) = ml_shared l" "ml_sealedError (update_job i f l) = ml_sealedError l"
  by (simp_all add: update_job_def)















end
