(* ===== verification/Session_Fork.thy ===== *)
theory Session_Fork
  imports Storage_Reads
begin

text \<open>
  Forking a session: \<^verbatim>\<open>packages/agent/src/harness/session/fork-policy.ts\<close> decides what happens to each
  address, \<^verbatim>\<open>fork.ts\<close> selects the entries, rebuilds the branch tips and lanes, and turns the result into the
  writes of a new session.
\<close>

section \<open>The policy\<close>

datatype fork_disposition = Copy | Exclude | Reconstruct

datatype fork_scope = ScopeBranch | ScopeTree

definition scope_of :: "fork_options \<Rightarrow> fork_scope" where
  "scope_of o' = (case o' of ForkBranch _ _ _ _ \<Rightarrow> ScopeBranch | ForkTree _ \<Rightarrow> ScopeTree)"

definition classifyForkAddress ::
  "address \<Rightarrow> fork_scope \<Rightarrow> (jstring \<Rightarrow> bool) \<Rightarrow> (session_error, fork_disposition) res" where
  "classifyForkAddress a scope isEntryCopied =
     (let ns = a_namespace a in
      if ns = js ''phi.session.name'' then Inr Copy
      else if ns = js ''phi.entry.label'' then Inr (if isEntryCopied (a_key a) then Copy else Exclude)
      else if ns = js ''phi.branch.tip'' \<or> ns = js ''phi.lane.config'' \<or> ns = js ''phi.lane.state'' then Inr Reconstruct
      else if ns = js ''phi.result'' then Inr Exclude
      else if prefix (js ''phi.op.'') ns \<or> prefix (js ''phi.pending.'') ns then Inr Exclude
      else if ns = js ''phi'' \<or> prefix (js ''phi.'') ns then Inl (UnknownForkNamespace ns)
      else Inr (if scope = ScopeTree then Copy else Exclude))"

section \<open>Snapshots\<close>

record fork_source =
  fs_entries :: "entry list"
  fs_scalarValues :: "stored_value list"
  fs_entriesComplete :: "bool option"

record fork_destination =
  fd_entries :: "(jstring \<times> entry) list"
  fd_scalarValues :: "stored_value list"
  fd_nextSeq :: int

text \<open>
  The typed reads \<^verbatim>\<open>as StoredValue<T>\<close> check nothing; a value of another type than the address's own
  is read as a null tip.
\<close>

definition tip_value :: "stored_value \<Rightarrow> jstring option" where
  "tip_value v = (case sv_value v of STip t \<Rightarrow> t | _ \<Rightarrow> None)"

definition storedValuesInNamespace :: "stored_value list \<Rightarrow> address \<Rightarrow> stored_value list" where
  "storedValuesInNamespace vs a = filter (\<lambda>stored. a_namespace (sv_address stored) = a_namespace a) vs"

definition findStoredValue :: "stored_value list \<Rightarrow> address \<Rightarrow> stored_value option" where
  "findStoredValue vs a =
     List.find (\<lambda>stored. a_namespace (sv_address stored) = a_namespace a \<and> a_key (sv_address stored) = a_key a) vs"

text \<open>A \<^verbatim>\<open>for\<close> loop whose body may throw.\<close>

fun check_each :: "('a \<Rightarrow> ('e, unit) res) \<Rightarrow> 'a list \<Rightarrow> ('e, unit) res" where
  "check_each f [] = Inr ()"
| "check_each f (x # xs) = rbind (f x) (\<lambda>_. check_each f xs)"

definition check_tip :: "fork_source \<Rightarrow> (jstring \<times> entry) list \<Rightarrow> fork_options \<Rightarrow> stored_value \<Rightarrow> (session_error, unit) res" where
  "check_tip source sourceEntries options tip =
     (let key = a_key (sv_address tip) in
      rbind (laneConfig key) (\<lambda>configAddress. rbind (laneState key) (\<lambda>stateAddress.
        let configuration = findStoredValue (fs_scalarValues source) configAddress;
            state = findStoredValue (fs_scalarValues source) stateAddress
        in if (configuration = None) \<noteq> (state = None) then Inl (BranchIncompleteLane key)
           else if (case options of ForkBranch b _ _ _ \<Rightarrow> key = b \<and> configuration = None | ForkTree _ \<Rightarrow> False)
           then Inl (BranchNotLane key)
           else if (fs_entriesComplete source \<noteq> Some False \<or> scope_of options = ScopeTree) \<and>
              (case tip_value tip of None \<Rightarrow> False | Some t \<Rightarrow> \<not> has_key sourceEntries t)
           then Inl (BranchUnknownTip key)
           else Inr ())))"

definition validateForkSourceSnapshot ::
  "fork_source \<Rightarrow> (jstring \<times> entry) list \<Rightarrow> stored_value list \<Rightarrow> fork_options \<Rightarrow> (session_error, unit) res" where
  "validateForkSourceSnapshot source sourceEntries sourceTips options =
     (let sourceTipKeys = map (\<lambda>stored. a_key (sv_address stored)) sourceTips in
      rbind (check_each (\<lambda>stored.
          if (a_namespace (sv_address stored) = js ''phi.lane.config'' \<or> a_namespace (sv_address stored) = js ''phi.lane.state'') \<and>
             a_key (sv_address stored) \<notin> set sourceTipKeys
          then Inl (BranchMissingTip (a_key (sv_address stored))) else Inr ()) (fs_scalarValues source)) (\<lambda>_.
        check_each (check_tip source sourceEntries options) sourceTips))"

text \<open>
  The loop of \<^verbatim>\<open>selectForkContents\<close> from the branch tip towards the root; \<open>None\<close> when it never ends. A
  \<^verbatim>\<open>Set\<close> of ids is a list without duplicates, in insertion order.
\<close>

definition set_add :: "'a \<Rightarrow> 'a list \<Rightarrow> 'a list" where
  "set_add x xs = (if x \<in> set xs then xs else xs @ [x])"

partial_function (option) select_walk ::
  "(jstring \<times> entry) list \<Rightarrow> jstring option \<Rightarrow> fork_position option \<Rightarrow> jstring option \<Rightarrow> bool \<Rightarrow> jstring option \<Rightarrow>
     jstring list \<Rightarrow> (session_error, bool \<times> jstring option \<times> jstring list) res option" where
  "select_walk m requested position entryId found tipId entryIds =
     (case entryId of
        None \<Rightarrow> Some (Inr (found, tipId, entryIds))
      | Some i \<Rightarrow> (case map_of m i of
            None \<Rightarrow> Some (Inl (CorruptSourceBranch i))
          | Some e \<Rightarrow>
              if requested = Some (ne_id e)
              then select_walk m requested position (ne_parentId e) True
                     (if position = Some PositionBefore then ne_parentId e else Some (ne_id e))
                     (if position \<noteq> Some PositionBefore then set_add (ne_id e) entryIds else entryIds)
              else select_walk m requested position (ne_parentId e) found tipId
                     (if found then set_add (ne_id e) entryIds else entryIds)))"

definition selectForkContents ::
  "(jstring \<times> entry) list \<Rightarrow> stored_value list \<Rightarrow> fork_options \<Rightarrow>
     (session_error, jstring list \<times> (jstring \<times> jstring option) list) res" where
  "selectForkContents sourceEntries sourceTips options =
     (case options of
        ForkTree _ \<Rightarrow>
          Inr (foldl (\<lambda>ids i. set_add i ids) [] (keys sourceEntries),
               foldl (\<lambda>m stored. AList.update (a_key (sv_address stored)) (tip_value stored) m) [] sourceTips)
      | ForkBranch branch entryId position _ \<Rightarrow>
          (case List.find (\<lambda>stored. a_key (sv_address stored) = branch) sourceTips of
             None \<Rightarrow> Inl (UnknownSourceBranch branch)
           | Some sourceTip \<Rightarrow>
               let requested = (case entryId of Some i \<Rightarrow> Some i | None \<Rightarrow> tip_value sourceTip) in
               (case select_walk sourceEntries requested position (tip_value sourceTip) (requested = None) None [] of
                  None \<Rightarrow> Inl NeverReturns
                | Some r \<Rightarrow> rbind r (\<lambda>(found, tipId, entryIds).
                    if \<not> found then Inl (ForkEntryNotOnBranch requested branch)
                    else Inr (entryIds, AList.update branch tipId [])))))"

text \<open>
  \<^verbatim>\<open>store\<close> appends a value with the next sequence number; the accumulator is the list of stored values
  and the counter.
\<close>

type_synonym fork_acc = "stored_value list \<times> int"

definition fork_store :: "address \<Rightarrow> sval \<Rightarrow> fork_acc \<Rightarrow> (session_error, fork_acc) res" where
  "fork_store a v acc =
     rbind (value_address (a_namespace a) (a_key a)) (\<lambda>a'.
       Inr (fst acc @ [\<lparr>sv_address = a', sv_value = v, sv_seq = snd acc\<rparr>], snd acc + 1))"

fun fork_tips :: "stored_value list \<Rightarrow> (jstring \<times> jstring option) list \<Rightarrow> fork_acc \<Rightarrow> (session_error, fork_acc) res" where
  "fork_tips source [] acc = Inr acc"
| "fork_tips source ((branch, tipId) # tips) acc =
     rbind (laneConfig branch) (\<lambda>configAddress.
     rbind (branchTip branch) (\<lambda>tipAddress.
     rbind (fork_store tipAddress (STip tipId) acc) (\<lambda>acc.
       case findStoredValue source configAddress of
         None \<Rightarrow> fork_tips source tips acc
       | Some configuration \<Rightarrow>
           rbind (fork_store configAddress (sv_value configuration) acc) (\<lambda>acc.
           rbind (laneState branch) (\<lambda>stateAddress.
           rbind (fork_store stateAddress (SLane \<lparr>ls_currentOperationId = None, ls_lastOperationId = None, ls_inbox = []\<rparr>) acc)
             (\<lambda>acc. fork_tips source tips acc))))))"

fun fork_values :: "fork_scope \<Rightarrow> jstring list \<Rightarrow> stored_value list \<Rightarrow> fork_acc \<Rightarrow> (session_error, fork_acc) res" where
  "fork_values scope entryIds [] acc = Inr acc"
| "fork_values scope entryIds (stored # vs) acc =
     rbind (classifyForkAddress (sv_address stored) scope (\<lambda>i. i \<in> set entryIds)) (\<lambda>d.
       if d = Copy then rbind (fork_store (sv_address stored) (sv_value stored) acc) (\<lambda>acc. fork_values scope entryIds vs acc)
       else fork_values scope entryIds vs acc)"

definition createForkSnapshot :: "fork_source \<Rightarrow> fork_options \<Rightarrow> (session_error, fork_destination) res" where
  "createForkSnapshot source options =
     (let sourceEntries = foldl (\<lambda>m e. AList.update (ne_id e) e m) [] (fs_entries source) in
      rbind (branchTip []) (\<lambda>tipPrefix.
      let sourceTips = storedValuesInNamespace (fs_scalarValues source) tipPrefix in
      rbind (validateForkSourceSnapshot source sourceEntries sourceTips options) (\<lambda>_.
      rbind (selectForkContents sourceEntries sourceTips options) (\<lambda>(entryIds, destinationTips).
      let entries = foldl (\<lambda>m i. AList.update i (the (map_of sourceEntries i)) m) [] entryIds;
          nextSeq = fold max (map e_seq (map_values entries)) 0 + 1
      in rbind (fork_tips (fs_scalarValues source) destinationTips ([], nextSeq)) (\<lambda>acc.
         rbind (fork_values (scope_of options) entryIds (fs_scalarValues source) acc) (\<lambda>acc.
         Inr \<lparr>fd_entries = entries, fd_scalarValues = fst acc, fd_nextSeq = snd acc\<rparr>))))))"

definition value_set_write :: "stored_value \<Rightarrow> committed_write" where
  "value_set_write v = CValueSet (sv_seq v) (a_namespace (sv_address v)) (a_key (sv_address v)) (sv_value v)"

definition forkSnapshotWrites :: "fork_destination \<Rightarrow> committed_write list" where
  "forkSnapshotWrites snapshot =
     js_sort (\<lambda>l r. write_seq l - write_seq r)
       (map CEntry (map_values (fd_entries snapshot)) @ map value_set_write (fd_scalarValues snapshot))"

end
