(* ===== verification/Session_Store.thy ===== *)
theory Session_Store
  imports Session_Fork
begin

text \<open>
  The storage interface of a session (\<^verbatim>\<open>interface Storage\<close> of
  \<^verbatim>\<open>packages/agent/src/harness/session/types.ts\<close>) and its in-memory implementation
  (\<^verbatim>\<open>class MemoryStorage\<close> of \<^verbatim>\<open>memory.ts\<close>), with the queue that serializes commits. Clients rely on the
  locale \<open>session_storage\<close>.
\<close>

section \<open>The interface\<close>

record commit_result =
  cr_firstSeq :: int
  cr_seqs :: "int list"
  cr_timestamp :: int
  cr_stats :: session_stats

text \<open>
  One field per method the session calls. An operation of the implementation's state \<open>'s\<close> answers or rejects; the clock
  of the implementation is the last argument of a commit.
\<close>

record 's storage_ops =
  so_commit :: "'s \<Rightarrow> store_write list \<Rightarrow> int \<Rightarrow> 's \<times> (session_error, commit_result) res"
  so_getEntries :: "'s \<Rightarrow> jstring list \<Rightarrow> (session_error, (jstring \<times> entry) list) res"
  so_getValue :: "'s \<Rightarrow> address \<Rightarrow> (session_error, stored_value option) res"
  so_scanValues :: "'s \<Rightarrow> address \<Rightarrow> (session_error, stored_value list) res"
  so_readList :: "'s \<Rightarrow> address \<Rightarrow> list_read_options option \<Rightarrow> (session_error, list_element list) res"
  so_scanBranch :: "'s \<Rightarrow> branch_scan \<Rightarrow> (session_error, entry list) res"
  so_scanBranchStructure :: "'s \<Rightarrow> branch_scan \<Rightarrow> (session_error, entry_structure list) res"
  so_scanEntries :: "'s \<Rightarrow> entry_scan \<Rightarrow> (session_error, entry list) res"
  so_scanUsage :: "'s \<Rightarrow> usage_scan \<Rightarrow> (session_error, usage_row list) res"
  so_getStats :: "'s \<Rightarrow> (session_error, session_stats) res"
  so_close :: "'s \<Rightarrow> 's"

text \<open>What a commit does to the materialized state when its turn comes.\<close>

definition commit_job :: "storage_state \<Rightarrow> store_write list \<Rightarrow> int \<Rightarrow> storage_state \<times> (session_error, commit_result) res" where
  "commit_job s writes now =
     (case prepareCommit s writes now of
        Inl e \<Rightarrow> (s, Inl e)
      | Inr prepared \<Rightarrow>
          (case applyValidated s (pc_writes prepared) of (s', r) \<Rightarrow>
             (s', rbind r (\<lambda>stats. Inr \<lparr>cr_firstSeq = pc_firstSeq prepared, cr_seqs = pc_seqs prepared,
                                        cr_timestamp = pc_timestamp prepared, cr_stats = stats\<rparr>))))"

section \<open>MemoryStorage\<close>

datatype open_state = IsOpen | IsClosing | IsClosed

datatype memory_job = CommitJob "store_write list" | CaptureJob | CloseJob

record memory_storage =
  ms_storageState :: storage_state
  ms_commitQueue :: "memory_job list"
  ms_state :: open_state

definition new_memory_storage :: memory_storage where
  "new_memory_storage = \<lparr>ms_storageState = new_storage_state, ms_commitQueue = [], ms_state = IsOpen\<rparr>"

text \<open>
  The calls append to the promise chain \<^verbatim>\<open>commitQueue\<close>: a commit or capture is admitted only while the storage is open; the first
  close marks it closing and waits behind everything admitted.
\<close>

definition memory_enqueue_commit :: "memory_storage \<Rightarrow> store_write list \<Rightarrow> (session_error, memory_storage) res" where
  "memory_enqueue_commit m writes =
     (if ms_state m \<noteq> IsOpen then Inl StorageClosed
      else Inr (m\<lparr>ms_commitQueue := ms_commitQueue m @ [CommitJob writes]\<rparr>))"

definition memory_enqueue_capture :: "memory_storage \<Rightarrow> (session_error, memory_storage) res" where
  "memory_enqueue_capture m =
     (if ms_state m \<noteq> IsOpen then Inl StorageClosed
      else Inr (m\<lparr>ms_commitQueue := ms_commitQueue m @ [CaptureJob]\<rparr>))"

definition memory_enqueue_close :: "memory_storage \<Rightarrow> memory_storage" where
  "memory_enqueue_close m =
     (if ms_state m \<noteq> IsOpen then m
      else m\<lparr>ms_state := IsClosing, ms_commitQueue := ms_commitQueue m @ [CloseJob]\<rparr>)"

datatype job_outcome =
    CommitOutcome "(session_error, commit_result) res"
  | CaptureOutcome "entry list \<times> stored_value list"
  | CloseOutcome

text \<open>The turn of the first job of the chain.\<close>

definition memory_run :: "memory_storage \<Rightarrow> int \<Rightarrow> (memory_storage \<times> job_outcome) option" where
  "memory_run m now =
     (case ms_commitQueue m of
        [] \<Rightarrow> None
      | CommitJob writes # jobs \<Rightarrow>
          (case commit_job (ms_storageState m) writes now of (s', r) \<Rightarrow>
             Some (m\<lparr>ms_storageState := s', ms_commitQueue := jobs\<rparr>, CommitOutcome r))
      | CaptureJob # jobs \<Rightarrow>
          Some (m\<lparr>ms_commitQueue := jobs\<rparr>, CaptureOutcome (snapshotEntriesAndValues (ms_storageState m)))
      | CloseJob # jobs \<Rightarrow> Some (m\<lparr>ms_commitQueue := jobs, ms_state := IsClosed\<rparr>, CloseOutcome))"

text \<open>
  The operations as a caller that awaits them sees them, with no other job admitted in between.
\<close>

definition memory_commit :: "memory_storage \<Rightarrow> store_write list \<Rightarrow> int \<Rightarrow> memory_storage \<times> (session_error, commit_result) res" where
  "memory_commit m writes now =
     (if ms_state m \<noteq> IsOpen then (m, Inl StorageClosed)
      else case commit_job (ms_storageState m) writes now of (s', r) \<Rightarrow> (m\<lparr>ms_storageState := s'\<rparr>, r))"

definition when_open :: "memory_storage \<Rightarrow> (storage_state \<Rightarrow> (session_error, 'a) res) \<Rightarrow> (session_error, 'a) res" where
  "when_open m f = (if ms_state m \<noteq> IsOpen then Inl StorageClosed else f (ms_storageState m))"

definition memory_captureForkSource :: "memory_storage \<Rightarrow> (session_error, fork_source) res" where
  "memory_captureForkSource m =
     when_open m (\<lambda>s. Inr \<lparr>fs_entries = fst (snapshotEntriesAndValues s), fs_scalarValues = snd (snapshotEntriesAndValues s),
       fs_entriesComplete = None\<rparr>)"

definition memory_close :: "memory_storage \<Rightarrow> memory_storage" where
  "memory_close m = m\<lparr>ms_state := IsClosed\<rparr>"

definition memory_fromSnapshot :: "fork_destination \<Rightarrow> (session_error, memory_storage) res" where
  "memory_fromSnapshot snapshot =
     (let writes = forkSnapshotWrites snapshot in
      rbind (validateCommitted new_storage_state writes) (\<lambda>_.
        case applyValidated new_storage_state writes of (s, r) \<Rightarrow>
          rbind r (\<lambda>_. Inr (new_memory_storage\<lparr>ms_storageState := s\<rparr>))))"

definition memory_ops :: "memory_storage storage_ops" where
  "memory_ops =
     \<lparr>so_commit = memory_commit,
      so_getEntries = (\<lambda>m ids. when_open m (\<lambda>s. Inr (getEntries s ids))),
      so_getValue = (\<lambda>m a. when_open m (\<lambda>s. Inr (getValue s a))),
      so_scanValues = (\<lambda>m p. when_open m (\<lambda>s. Inr (scanValues s p))),
      so_readList = (\<lambda>m a options. when_open m (\<lambda>s. readList s a options)),
      so_scanBranch = (\<lambda>m q. when_open m (\<lambda>s. scanBranch s q)),
      so_scanBranchStructure = (\<lambda>m q. when_open m (\<lambda>s. scanBranchStructure s q)),
      so_scanEntries = (\<lambda>m q. when_open m (\<lambda>s. Inr (scanEntries s q))),
      so_scanUsage = (\<lambda>m q. when_open m (\<lambda>s. Inr (scanUsage s q))),
      so_getStats = (\<lambda>m. when_open m (\<lambda>s. Inr (getStats s))),
      so_close = memory_close\<rparr>"

section \<open>The law of a storage\<close>

text \<open>
  A client sees an implementation through the materialized state it stands for: while it is ready, its state is reachable,
  a commit has the effect of \<open>commit_job\<close> or fails without effect, and the reads are those of the state.
\<close>

locale session_storage =
  fixes ops :: "'s storage_ops" and view :: "'s \<Rightarrow> storage_state" and ready :: "'s \<Rightarrow> bool"
  assumes view_reachable: "ready s \<Longrightarrow> storage_reachable (view s)"
    and commit_ok: "ready s \<Longrightarrow> so_commit ops s ws now = (s', Inr r) \<Longrightarrow> ready s' \<and> commit_job (view s) ws now = (view s', Inr r)"
    and commit_err: "ready s \<Longrightarrow> so_commit ops s ws now = (s', Inl e) \<Longrightarrow>
      ready s' \<and> (view s' = view s \<or> commit_job (view s) ws now = (view s', Inl e))"
    and getEntries_ok: "ready s \<Longrightarrow> so_getEntries ops s ids = Inr (getEntries (view s) ids)"
    and getValue_ok: "ready s \<Longrightarrow> so_getValue ops s a = Inr (getValue (view s) a)"
    and scanValues_ok: "ready s \<Longrightarrow> so_scanValues ops s a = Inr (scanValues (view s) a)"
    and scanBranch_ok: "ready s \<Longrightarrow> so_scanBranch ops s q = scanBranch (view s) q"
    and scanEntries_ok: "ready s \<Longrightarrow> so_scanEntries ops s eq = Inr (scanEntries (view s) eq)"
begin

lemma commit_reachable: "ready s \<Longrightarrow> so_commit ops s ws now = (s', r) \<Longrightarrow> storage_reachable (view s')"
  using commit_ok commit_err view_reachable by (cases r) (blast, blast)

end

lemma commit_job_reachable:
  assumes "storage_reachable s"
  shows "storage_reachable (fst (commit_job s ws now))"
proof (cases "prepareCommit s ws now")
  case (Inr pc)
  with storage_reachable.commit [OF assms Inr] show ?thesis by (auto simp: commit_job_def split: prod.splits)
qed (use assms in \<open>simp add: commit_job_def\<close>)

text \<open>The memory storage obeys the law while it is open and holds a reachable state.\<close>

definition memory_ready :: "memory_storage \<Rightarrow> bool" where
  "memory_ready m \<longleftrightarrow> ms_state m = IsOpen \<and> storage_reachable (ms_storageState m)"

lemma memory_commit_job:
  "memory_ready m \<Longrightarrow> memory_commit m ws now = (m', r) \<Longrightarrow>
     memory_ready m' \<and> commit_job (ms_storageState m) ws now = (ms_storageState m', r)"
  using commit_job_reachable [of "ms_storageState m" ws now]
  by (auto simp: memory_commit_def memory_ready_def split: prod.splits if_splits)

interpretation memory: session_storage memory_ops ms_storageState memory_ready
proof unfold_locales
  fix m ws now m' r
  assume "memory_ready m" "so_commit memory_ops m ws now = (m', Inr r)"
  then show "memory_ready m' \<and> commit_job (ms_storageState m) ws now = (ms_storageState m', Inr r)"
    by (simp add: memory_ops_def memory_commit_job)
next
  fix m ws now m' e
  assume "memory_ready m" "so_commit memory_ops m ws now = (m', Inl e)"
  then show "memory_ready m' \<and> (ms_storageState m' = ms_storageState m \<or> commit_job (ms_storageState m) ws now = (ms_storageState m', Inl e))"
    by (simp add: memory_ops_def memory_commit_job)
qed (auto simp: memory_ready_def memory_ops_def when_open_def)

section \<open>Commits run in the order they were admitted\<close>

text \<open>
  An event is a call or the turn of the next job. \<open>memory_events\<close> runs a schedule; a rejected call changes nothing, and so does a
  turn of an empty chain.
\<close>

datatype memory_event = CallCommit "store_write list" | CallCapture | CallClose | Turn int

definition memory_event :: "memory_storage \<Rightarrow> memory_event \<Rightarrow> memory_storage" where
  "memory_event m ev =
     (case ev of
        CallCommit ws \<Rightarrow> (case memory_enqueue_commit m ws of Inl _ \<Rightarrow> m | Inr m' \<Rightarrow> m')
      | CallCapture \<Rightarrow> (case memory_enqueue_capture m of Inl _ \<Rightarrow> m | Inr m' \<Rightarrow> m')
      | CallClose \<Rightarrow> memory_enqueue_close m
      | Turn now \<Rightarrow> (case memory_run m now of None \<Rightarrow> m | Some (m', _) \<Rightarrow> m'))"


text \<open>The commits a schedule admits: those called before the first close.\<close>

fun admitted :: "memory_event list \<Rightarrow> store_write list list" where
  "admitted [] = []"
| "admitted (CallCommit ws # evs) = ws # admitted evs"
| "admitted (CallClose # evs) = []"
| "admitted (_ # evs) = admitted evs"

fun queued_commits :: "memory_job list \<Rightarrow> store_write list list" where
  "queued_commits [] = []"
| "queued_commits (CommitJob ws # jobs) = ws # queued_commits jobs"
| "queued_commits (_ # jobs) = queued_commits jobs"

definition run_commits :: "storage_state \<Rightarrow> (store_write list \<times> int) list \<Rightarrow> storage_state" where
  "run_commits s cs = foldl (\<lambda>s (ws, now). fst (commit_job s ws now)) s cs"

lemma queued_commits_append [simp]: "queued_commits (xs @ ys) = queued_commits xs @ queued_commits ys"
  by (induction xs rule: queued_commits.induct) simp_all

lemma admitted_append: "admitted (evs @ fs) = admitted evs @ (if CallClose \<in> set evs then [] else admitted fs)"
  by (induction evs rule: admitted.induct) auto

text \<open>
  What holds after any schedule: the commits run so far and those still queued are the admitted ones in order, and the storage is
  open exactly while no close was called; then a close waits at the end of the chain or has run.
\<close>

definition schedule_inv :: "memory_event list \<Rightarrow> memory_storage \<Rightarrow> bool" where
  "schedule_inv evs m \<longleftrightarrow>
     (\<exists>cs. ms_storageState m = run_commits new_storage_state cs \<and> map fst cs @ queued_commits (ms_commitQueue m) = admitted evs) \<and>
     (ms_state m = IsOpen \<longleftrightarrow> CallClose \<notin> set evs) \<and>
     (ms_state m = IsOpen \<longrightarrow> CloseJob \<notin> set (ms_commitQueue m)) \<and>
     (ms_state m = IsClosing \<longrightarrow> (\<exists>jobs. ms_commitQueue m = jobs @ [CloseJob] \<and> CloseJob \<notin> set jobs)) \<and>
     (ms_state m = IsClosed \<longrightarrow> ms_commitQueue m = [])"

lemma schedule_call:
  assumes "schedule_inv evs m" "ev = CallCommit ws \<or> ev = CallCapture \<or> ev = CallClose"
  shows "schedule_inv (evs @ [ev]) (memory_event m ev)"
  using assms
  by (cases "ms_state m")
    (auto simp: schedule_inv_def memory_event_def memory_enqueue_commit_def memory_enqueue_capture_def memory_enqueue_close_def admitted_append)

lemma schedule_turn:
  assumes inv: "schedule_inv evs m"
  shows "schedule_inv (evs @ [Turn now]) (memory_event m (Turn now))"
proof (cases "ms_commitQueue m")
  case Nil
  with inv show ?thesis by (simp add: schedule_inv_def memory_event_def memory_run_def admitted_append)
next
  case (Cons job jobs)
  from inv obtain cs where cs: "ms_storageState m = run_commits new_storage_state cs"
      "map fst cs @ queued_commits (ms_commitQueue m) = admitted evs" by (auto simp: schedule_inv_def)
  have adm: "admitted (evs @ [Turn now]) = admitted evs" by (simp add: admitted_append)
  show ?thesis
  proof (cases job)
    case (CommitJob ws)
    obtain s' r where job: "commit_job (ms_storageState m) ws now = (s', r)" by (cases "commit_job (ms_storageState m) ws now")
    have "s' = run_commits new_storage_state (cs @ [(ws, now)])"
      using job cs(1) by (simp add: run_commits_def)
    moreover have "map fst (cs @ [(ws, now)]) @ queued_commits jobs = admitted evs" using cs(2) Cons CommitJob by simp
    ultimately have "\<exists>cs. s' = run_commits new_storage_state cs \<and> map fst cs @ queued_commits jobs = admitted evs" by blast
    with inv job show ?thesis
      unfolding schedule_inv_def adm
      by (cases "ms_state m") (auto simp: memory_event_def memory_run_def Cons CommitJob Cons_eq_append_conv)
  next
    case CaptureJob
    with inv Cons show ?thesis
      unfolding schedule_inv_def adm
      by (cases "ms_state m") (auto simp: memory_event_def memory_run_def Cons_eq_append_conv)
  next
    case CloseJob
    with inv Cons show ?thesis
      unfolding schedule_inv_def adm
      by (cases "ms_state m") (auto simp: memory_event_def memory_run_def Cons_eq_append_conv)
  qed
qed

lemma schedule_keeps: "schedule_inv evs (foldl memory_event new_memory_storage evs)"
proof (induction evs rule: rev_induct)
  case Nil
  then show ?case by (simp add: schedule_inv_def new_memory_storage_def run_commits_def)
next
  case (snoc ev evs)
  then show ?case by (cases ev) (simp_all add: schedule_call schedule_turn)
qed

text \<open>
  C32. Under every interleaving of calls and turns, a memory storage runs exactly the commits called before the first close, one
  at a time and in the order of the calls: those run so far followed by those still queued are the admitted ones, a commit
  called after a close is rejected, and the storage is closed only when nothing is left to run.
\<close>

theorem commits_serialized:
  "\<exists>cs. let m = foldl memory_event new_memory_storage evs in
     ms_storageState m = run_commits new_storage_state cs \<and>
     map fst cs @ queued_commits (ms_commitQueue m) = admitted evs \<and>
     (ms_state m = IsClosed \<longrightarrow> ms_commitQueue m = []) \<and>
     (CallClose \<in> set evs \<longrightarrow> memory_enqueue_commit m ws = Inl StorageClosed)"
  using schedule_keeps [of evs] by (auto simp: schedule_inv_def memory_enqueue_commit_def Let_def)

theorem commits_serialized_witness:
  "\<exists>cs. let m = foldl memory_event new_memory_storage [CallCommit [], CallClose, CallCommit [WValueDelete (js ''a'') (js ''b'')], Turn 1, Turn 2] in
     ms_storageState m = run_commits new_storage_state cs \<and> map fst cs @ queued_commits (ms_commitQueue m) = [[]] \<and>
     ms_state m = IsClosed \<and> memory_enqueue_commit m [] = Inl StorageClosed"
  using commits_serialized [of "[CallCommit [], CallClose, CallCommit [WValueDelete (js ''a'') (js ''b'')], Turn 1, Turn 2]" "[]"]
  by (simp add: memory_event_def memory_enqueue_commit_def memory_enqueue_close_def memory_run_def commit_job_def prepareCommit_def
      prepareStorageCommit_def new_memory_storage_def Let_def)

end
