(* ===== verification/Session_Core.thy ===== *)
theory Session_Core
  imports Session_Store Session_Context
begin

text \<open>
  Sessions over a storage: \<^verbatim>\<open>packages/agent/src/harness/session/session.ts\<close>. An operation is what its caller sees when its turn on the
  mutation line has come; the line itself is the subject of \<open>Mutation_Line\<close>. The storage is any
  implementation of the interface, and ids come from the caller's generator.
\<close>

section \<open>The mutation capability\<close>

record 's mutation =
  mu_storage :: 's
  mu_active :: bool
  mu_attempted :: bool

definition new_mutation :: "'s \<Rightarrow> 's mutation" where
  "new_mutation storage = \<lparr>mu_storage = storage, mu_active = True, mu_attempted = False\<rparr>"

definition pending_assistant_write :: "store_write \<Rightarrow> bool" where
  "pending_assistant_write w =
     (case w of WEntry e \<Rightarrow> (case ne_body e of MessageBody m _ \<Rightarrow> stops_with StopPending m | _ \<Rightarrow> False) | _ \<Rightarrow> False)"

definition mutation_commit ::
  "'s storage_ops \<Rightarrow> 's mutation \<Rightarrow> store_write list \<Rightarrow> int \<Rightarrow> 's mutation \<times> (session_error, commit_result) res" where
  "mutation_commit ops m writes now =
     (if \<not> mu_active m then (m, Inl MutatorInactive)
      else if mu_attempted m then (m, Inl CommitAlreadyAttempted)
      else if \<exists>w\<in>set writes. pending_assistant_write w then (m\<lparr>mu_attempted := True\<rparr>, Inl PendingAssistantMessage)
      else case so_commit ops (mu_storage m) writes now of (st, r) \<Rightarrow> (m\<lparr>mu_storage := st, mu_attempted := True\<rparr>, r))"

definition mutation_getValue :: "'s storage_ops \<Rightarrow> 's mutation \<Rightarrow> address \<Rightarrow> (session_error, stored_value option) res" where
  "mutation_getValue ops m a = (if \<not> mu_active m then Inl MutatorInactive else so_getValue ops (mu_storage m) a)"

definition mutation_getEntries :: "'s storage_ops \<Rightarrow> 's mutation \<Rightarrow> jstring list \<Rightarrow> (session_error, (jstring \<times> entry) list) res" where
  "mutation_getEntries ops m ids = (if \<not> mu_active m then Inl MutatorInactive else so_getEntries ops (mu_storage m) ids)"

definition mutation_scanValues :: "'s storage_ops \<Rightarrow> 's mutation \<Rightarrow> address \<Rightarrow> (session_error, stored_value list) res" where
  "mutation_scanValues ops m p = (if \<not> mu_active m then Inl MutatorInactive else so_scanValues ops (mu_storage m) p)"

definition mutation_readList ::
  "'s storage_ops \<Rightarrow> 's mutation \<Rightarrow> address \<Rightarrow> list_read_options option \<Rightarrow> (session_error, list_element list) res" where
  "mutation_readList ops m a options = (if \<not> mu_active m then Inl MutatorInactive else so_readList ops (mu_storage m) a options)"

definition mutation_scanBranch :: "'s storage_ops \<Rightarrow> 's mutation \<Rightarrow> branch_scan \<Rightarrow> (session_error, entry list) res" where
  "mutation_scanBranch ops m q = (if \<not> mu_active m then Inl MutatorInactive else so_scanBranch ops (mu_storage m) q)"

definition mutation_getStats :: "'s storage_ops \<Rightarrow> 's mutation \<Rightarrow> (session_error, session_stats) res" where
  "mutation_getStats ops m = (if \<not> mu_active m then Inl MutatorInactive else so_getStats ops (mu_storage m))"

definition mutation_end :: "'s mutation \<Rightarrow> 's mutation" where
  "mutation_end m = m\<lparr>mu_active := False\<rparr>"

section \<open>The session\<close>

record 's session =
  se_metadata :: session_metadata
  se_storage :: 's
  se_branches :: "jstring list"
  se_state :: open_state

definition new_session :: "session_metadata \<Rightarrow> 's \<Rightarrow> 's session" where
  "new_session metadata storage = \<lparr>se_metadata = metadata, se_storage = storage, se_branches = [], se_state = IsOpen\<rparr>"

definition assertOpen :: "'s session \<Rightarrow> (session_error, unit) res" where
  "assertOpen se = (if se_state se \<noteq> IsOpen then Inl SessionClosed else Inr ())"

text \<open>\<^verbatim>\<open>mutate\<close>: the callback gets a fresh capability, which ends when it is done, whatever its outcome.\<close>

definition mutate :: "'s session \<Rightarrow> ('s mutation \<Rightarrow> 's mutation \<times> (session_error, 'a) res) \<Rightarrow> 's session \<times> (session_error, 'a) res" where
  "mutate se callback =
     (case assertOpen se of
        Inl e \<Rightarrow> (se, Inl e)
      | Inr _ \<Rightarrow> (case callback (new_mutation (se_storage se)) of
          (m, r) \<Rightarrow> (se\<lparr>se_storage := mu_storage (mutation_end m)\<rparr>, r)))"

definition session_getEntries :: "'s storage_ops \<Rightarrow> 's session \<Rightarrow> jstring list \<Rightarrow> (session_error, (jstring \<times> entry) list) res" where
  "session_getEntries ops se ids = rbind (assertOpen se) (\<lambda>_. so_getEntries ops (se_storage se) ids)"

definition session_getEntry :: "'s storage_ops \<Rightarrow> 's session \<Rightarrow> jstring \<Rightarrow> (session_error, entry option) res" where
  "session_getEntry ops se i = rbind (session_getEntries ops se [i]) (\<lambda>m. Inr (map_of m i))"

definition session_getValue :: "'s storage_ops \<Rightarrow> 's session \<Rightarrow> address \<Rightarrow> (session_error, stored_value option) res" where
  "session_getValue ops se a = rbind (assertOpen se) (\<lambda>_. so_getValue ops (se_storage se) a)"

definition session_scanValues :: "'s storage_ops \<Rightarrow> 's session \<Rightarrow> address \<Rightarrow> (session_error, stored_value list) res" where
  "session_scanValues ops se p = rbind (assertOpen se) (\<lambda>_. so_scanValues ops (se_storage se) p)"

definition session_readList ::
  "'s storage_ops \<Rightarrow> 's session \<Rightarrow> address \<Rightarrow> list_read_options option \<Rightarrow> (session_error, list_element list) res" where
  "session_readList ops se a options = rbind (assertOpen se) (\<lambda>_. so_readList ops (se_storage se) a options)"

definition session_scanBranch :: "'s storage_ops \<Rightarrow> 's session \<Rightarrow> branch_scan \<Rightarrow> (session_error, entry list) res" where
  "session_scanBranch ops se q = rbind (assertOpen se) (\<lambda>_. so_scanBranch ops (se_storage se) q)"

definition session_getStats :: "'s storage_ops \<Rightarrow> 's session \<Rightarrow> (session_error, session_stats) res" where
  "session_getStats ops se = rbind (assertOpen se) (\<lambda>_. so_getStats ops (se_storage se))"

text \<open>The value of a text address; a value of another type is read as absent.\<close>

definition text_value :: "stored_value option \<Rightarrow> jstring option" where
  "text_value v = (case v of Some w \<Rightarrow> (case sv_value w of SText t \<Rightarrow> Some t | _ \<Rightarrow> None) | None \<Rightarrow> None)"

definition session_getName :: "'s storage_ops \<Rightarrow> 's session \<Rightarrow> (session_error, jstring option) res" where
  "session_getName ops se = rbind sessionName (\<lambda>a. rbind (session_getValue ops se a) (\<lambda>v. Inr (text_value v)))"

definition session_getLabel :: "'s storage_ops \<Rightarrow> 's session \<Rightarrow> jstring \<Rightarrow> (session_error, jstring option) res" where
  "session_getLabel ops se targetId =
     rbind (entryLabel targetId) (\<lambda>a. rbind (session_getValue ops se a) (\<lambda>v. Inr (text_value v)))"

definition session_findEntries :: "'s storage_ops \<Rightarrow> 's session \<Rightarrow> entry_query \<Rightarrow> (session_error, entry list) res" where
  "session_findEntries ops se q =
     rbind (assertOpen se) (\<lambda>_.
       let order = (case q_order q of None \<Rightarrow> Desc | Some d \<Rightarrow> d) in
       if (case q_cursor q of None \<Rightarrow> False | Some c \<Rightarrow> order = Asc \<and> c = max_safe \<or> order = Desc \<and> c \<le> 1) then Inr []
       else so_scanEntries ops (se_storage se)
         \<lparr>eq_type = q_type q, eq_customType = q_customType q,
          eq_fromSeq = (if order = Asc then map_option (\<lambda>c. c + 1) (q_cursor q) else None),
          eq_toSeq = (if order = Asc then None else map_option (\<lambda>c. c - 1) (q_cursor q)),
          eq_order = Some order, eq_limit = q_limit q\<rparr>)"

definition first_of :: "'a list \<Rightarrow> 'a option" where
  "first_of xs = (case xs of [] \<Rightarrow> None | x # _ \<Rightarrow> Some x)"

definition session_findEntry :: "'s storage_ops \<Rightarrow> 's session \<Rightarrow> entry_query \<Rightarrow> (session_error, entry option) res" where
  "session_findEntry ops se q =
     rbind (session_findEntries ops se (q\<lparr>q_limit := Some (case q_limit q of None \<Rightarrow> 1 | Some l \<Rightarrow> min l 1)\<rparr>))
       (\<lambda>es. Inr (first_of es))"

definition assertValidBranchName :: "jstring \<Rightarrow> (session_error, unit) res" where
  "assertValidBranchName name =
     (if name = [] then Inl InvalidBranchEmpty else if 0 \<in> set name then Inl InvalidBranchNul else Inr ())"

definition getOrCreateBranchObject :: "'s session \<Rightarrow> jstring \<Rightarrow> 's session" where
  "getOrCreateBranchObject se name = se\<lparr>se_branches := set_add name (se_branches se)\<rparr>"

text \<open>A branch object is its name; \<^verbatim>\<open>branch\<close> answers it when the branch has a tip.\<close>

definition session_branch :: "'s storage_ops \<Rightarrow> 's session \<Rightarrow> jstring \<Rightarrow> 's session \<times> (session_error, jstring option) res" where
  "session_branch ops se name =
     (case rbind (assertValidBranchName name) (\<lambda>_. rbind (branchTip name) (session_getValue ops se)) of
        Inl e \<Rightarrow> (se, Inl e)
      | Inr None \<Rightarrow> (se, Inr None)
      | Inr (Some _) \<Rightarrow> (getOrCreateBranchObject se name, Inr (Some name)))"

text \<open>A step of a callback that may throw: the capability is kept as it is.\<close>

definition with_read :: "'s mutation \<Rightarrow> (session_error, 'a) res \<Rightarrow> ('a \<Rightarrow> 's mutation \<times> (session_error, 'b) res) \<Rightarrow>
    's mutation \<times> (session_error, 'b) res" where
  "with_read m r k = (case r of Inl e \<Rightarrow> (m, Inl e) | Inr x \<Rightarrow> k x)"

definition session_createBranch ::
  "'s storage_ops \<Rightarrow> 's session \<Rightarrow> jstring \<Rightarrow> jstring option \<Rightarrow> int \<Rightarrow> 's session \<times> (session_error, jstring) res" where
  "session_createBranch ops se name at now =
     (case rbind (assertOpen se) (\<lambda>_. assertValidBranchName name) of
        Inl e \<Rightarrow> (se, Inl e)
      | Inr _ \<Rightarrow>
          (case mutate se (\<lambda>m.
              with_read m (branchTip name) (\<lambda>address.
              with_read m (mutation_getValue ops m address) (\<lambda>tip.
                if tip \<noteq> None then (m, Inl (BranchExists name))
                else with_read m (case at of None \<Rightarrow> Inr True
                                   | Some i \<Rightarrow> rbind (mutation_getEntries ops m [i]) (\<lambda>found. Inr (has_key found i))) (\<lambda>known.
                  if \<not> known then (m, Inl (UnknownTarget (the at)))
                  else mutation_commit ops m [setValue address (STip at)] now)))) of
             (se', Inl e) \<Rightarrow> (se', Inl e)
           | (se', Inr _) \<Rightarrow> (getOrCreateBranchObject se' name, Inr name)))"

text \<open>The public writers commit one write.\<close>

definition commit_one :: "'s storage_ops \<Rightarrow> 's session \<Rightarrow> store_write \<Rightarrow> int \<Rightarrow> 's session \<times> (session_error, unit) res" where
  "commit_one ops se w now =
     mutate se (\<lambda>m. case mutation_commit ops m [w] now of (m', r) \<Rightarrow> (m', rbind r (\<lambda>_. Inr ())))"

definition session_setValue :: "'s storage_ops \<Rightarrow> 's session \<Rightarrow> address \<Rightarrow> sval \<Rightarrow> int \<Rightarrow> 's session \<times> (session_error, unit) res" where
  "session_setValue ops se a v now = commit_one ops se (setValue a v) now"

definition session_deleteValue :: "'s storage_ops \<Rightarrow> 's session \<Rightarrow> address \<Rightarrow> int \<Rightarrow> 's session \<times> (session_error, unit) res" where
  "session_deleteValue ops se a now = commit_one ops se (deleteValue a) now"

definition session_appendList :: "'s storage_ops \<Rightarrow> 's session \<Rightarrow> address \<Rightarrow> sval \<Rightarrow> int \<Rightarrow> 's session \<times> (session_error, unit) res" where
  "session_appendList ops se a v now = commit_one ops se (appendList a v) now"

definition session_deleteList :: "'s storage_ops \<Rightarrow> 's session \<Rightarrow> address \<Rightarrow> int \<Rightarrow> 's session \<times> (session_error, unit) res" where
  "session_deleteList ops se a now = commit_one ops se (deleteList a) now"

definition session_setName :: "'s storage_ops \<Rightarrow> 's session \<Rightarrow> jstring option \<Rightarrow> int \<Rightarrow> 's session \<times> (session_error, unit) res" where
  "session_setName ops se name now =
     (case sessionName of
        Inl e \<Rightarrow> (se, Inl e)
      | Inr a \<Rightarrow> (case name of None \<Rightarrow> session_deleteValue ops se a now | Some n \<Rightarrow> session_setValue ops se a (SText n) now))"

definition session_setLabel ::
  "'s storage_ops \<Rightarrow> 's session \<Rightarrow> jstring \<Rightarrow> jstring option \<Rightarrow> int \<Rightarrow> 's session \<times> (session_error, unit) res" where
  "session_setLabel ops se targetId label now =
     (case entryLabel targetId of
        Inl e \<Rightarrow> (se, Inl e)
      | Inr a \<Rightarrow> (case label of None \<Rightarrow> session_deleteValue ops se a now | Some l \<Rightarrow> session_setValue ops se a (SText l) now))"

text \<open>
  \<^verbatim>\<open>close\<close> in its two phases: it refuses new operations and seals the line, and once the line has drained it closes the storage. A
  second close waits for the first one. \<open>session_close\<close> is what a caller sees that waits for both, with nothing in between.
\<close>

definition session_close_begin :: "'s session \<Rightarrow> 's session" where
  "session_close_begin se = (if se_state se \<noteq> IsOpen then se else se\<lparr>se_state := IsClosing\<rparr>)"

definition session_close_drained :: "'s storage_ops \<Rightarrow> 's session \<Rightarrow> 's session" where
  "session_close_drained ops se = se\<lparr>se_storage := so_close ops (se_storage se), se_state := IsClosed\<rparr>"

definition session_close :: "'s storage_ops \<Rightarrow> 's session \<Rightarrow> 's session" where
  "session_close ops se =
     (if se_state se \<noteq> IsOpen then se else se\<lparr>se_storage := so_close ops (se_storage se), se_state := IsClosed\<rparr>)"

lemma session_close_phases:
  "session_close ops se = (if se_state se \<noteq> IsOpen then se else session_close_drained ops (session_close_begin se))"
  by (simp add: session_close_def session_close_drained_def session_close_begin_def)

definition session_getBranchTip :: "'s storage_ops \<Rightarrow> 's session \<Rightarrow> jstring \<Rightarrow> (session_error, jstring option) res" where
  "session_getBranchTip ops se name =
     rbind (branchTip name) (\<lambda>a. rbind (session_getValue ops se a) (\<lambda>stored.
       case stored of None \<Rightarrow> Inl (UnknownBranch name) | Some v \<Rightarrow> Inr (tip_value v)))"

text \<open>What a branch accepts: a message or a custom entry.\<close>

datatype branch_entry = BranchMessage agent_message | BranchCustom jstring "json option"

definition branch_new_entry :: "branch_entry \<Rightarrow> jstring \<Rightarrow> jstring option \<Rightarrow> new_entry" where
  "branch_new_entry entry i parentId =
     (case entry of
        BranchMessage m \<Rightarrow> \<lparr>ne_id = i, ne_parentId = parentId, ne_customType = None, ne_body = MessageBody m False\<rparr>
      | BranchCustom t d \<Rightarrow> \<lparr>ne_id = i, ne_parentId = parentId, ne_customType = Some t, ne_body = CustomBody d\<rparr>)"

definition session_appendToBranch ::
  "'s storage_ops \<Rightarrow> 's session \<Rightarrow> jstring \<Rightarrow> branch_entry \<Rightarrow> jstring \<Rightarrow> int \<Rightarrow> 's session \<times> (session_error, jstring) res" where
  "session_appendToBranch ops se name entry i now =
     (case assertOpen se of
        Inl e \<Rightarrow> (se, Inl e)
      | Inr _ \<Rightarrow>
          if (case entry of BranchMessage m \<Rightarrow> stops_with StopPending m | BranchCustom _ _ \<Rightarrow> False)
          then (se, Inl PendingAssistantMessage)
          else mutate se (\<lambda>m.
            with_read m (branchTip name) (\<lambda>address.
            with_read m (mutation_getValue ops m address) (\<lambda>tip.
              case tip of
                None \<Rightarrow> (m, Inl (UnknownBranch name))
              | Some t \<Rightarrow>
                  (case mutation_commit ops m
                      [insertEntry (branch_new_entry entry i (tip_value t)), setValue address (STip (Some i))] now of
                     (m', r) \<Rightarrow> (m', rbind r (\<lambda>_. Inr i)))))))"

section \<open>Branch objects\<close>

definition branch_findEntries ::
  "'s storage_ops \<Rightarrow> 's session \<Rightarrow> jstring \<Rightarrow> jstring option \<Rightarrow> branch_scan \<Rightarrow> (session_error, entry list) res" where
  "branch_findEntries ops se name start q =
     rbind (case start of Some i \<Rightarrow> Inr (Some i) | None \<Rightarrow> session_getBranchTip ops se name) (\<lambda>start.
       case start of
         None \<Rightarrow> Inr []
       | Some i \<Rightarrow> session_scanBranch ops se
           (q\<lparr>bq_start := i, bq_order := Some (case bq_order q of None \<Rightarrow> NewestFirst | Some d \<Rightarrow> d)\<rparr>))"

definition branch_findEntry ::
  "'s storage_ops \<Rightarrow> 's session \<Rightarrow> jstring \<Rightarrow> jstring option \<Rightarrow> branch_scan \<Rightarrow> (session_error, entry option) res" where
  "branch_findEntry ops se name start q =
     rbind (branch_findEntries ops se name start (q\<lparr>bq_limit := Some (case bq_limit q of None \<Rightarrow> 1 | Some l \<Rightarrow> min l 1)\<rparr>))
       (\<lambda>es. Inr (first_of es))"

definition branch_appendMessage ::
  "'s storage_ops \<Rightarrow> 's session \<Rightarrow> jstring \<Rightarrow> agent_message \<Rightarrow> jstring \<Rightarrow> int \<Rightarrow> 's session \<times> (session_error, jstring) res" where
  "branch_appendMessage ops se name message i now = session_appendToBranch ops se name (BranchMessage message) i now"

definition branch_appendCustomEntry ::
  "'s storage_ops \<Rightarrow> 's session \<Rightarrow> jstring \<Rightarrow> jstring \<Rightarrow> json option \<Rightarrow> jstring \<Rightarrow> int \<Rightarrow> 's session \<times> (session_error, jstring) res" where
  "branch_appendCustomEntry ops se name customType data i now =
     session_appendToBranch ops se name (BranchCustom customType data) i now"

section \<open>What a session operation does to the store\<close>

lemma commit_writes_snoc: "commit_writes (ws @ [w]) q t = commit_writes ws q t @ [commitWrite w (q + int (length ws)) t]"
  by (induction ws arbitrary: q) (simp_all add: add.assoc)

lemma applied_nextSeq:
  "applyValidated t us = (t', Inr st) \<Longrightarrow> s_nextSeq t' = (if us = [] then s_nextSeq t else write_seq (last us) + 1)"
proof (induction us arbitrary: t)
  case (Cons w us)
  then obtain t1 where t1: "apply_write t w = Inr t1" "applyValidated t1 us = (t', Inr st)" by (auto split: sum.splits)
  from Cons.IH [OF t1(2)] apply_write_nextSeq [OF t1(1)] show ?case by simp
qed simp

lemma commit_job_ok:
  assumes "storage_reachable s" "commit_job s ws now = (s', Inr r)"
  shows "storage_reachable s'" and "abs_store s' = foldl spec_write (abs_store s) (commit_writes ws (s_nextSeq s) now)"
    and "s_nextSeq s' = s_nextSeq s + int (length ws)" and "cr_seqs r = map (\<lambda>i. s_nextSeq s + int i) [0..<length ws]"
proof -
  from assms(2) obtain pc stats where pc: "prepareCommit s ws now = Inr pc" "applyValidated s (pc_writes pc) = (s', Inr stats)"
      "cr_seqs r = pc_seqs pc"
    by (auto simp: commit_job_def rbind_eq_Inr split: sum.splits prod.splits)
  then have v: "validateCommitted s (pc_writes pc) = Inr ()" and w: "pc_writes pc = commit_writes ws (s_nextSeq s) now"
    and q: "pc_seqs pc = map write_seq (commit_writes ws (s_nextSeq s) now)"
    by (auto simp: prepareCommit_def prepareStorageCommit_def Let_def rbind_eq_Inr)
  have ok: "storage_ok s" by (rule storage_reachable_ok [OF assms(1)])
  show "storage_reachable s'" using storage_reachable.commit [OF assms(1) pc(1)] pc(2) by simp
  show "abs_store s' = foldl spec_write (abs_store s) (commit_writes ws (s_nextSeq s) now)"
    using refine_transaction [OF ok v pc(2)] w by simp
  show "cr_seqs r = map (\<lambda>i. s_nextSeq s + int i) [0..<length ws]" by (simp add: pc(3) q seqs_commit_writes)
  show "s_nextSeq s' = s_nextSeq s + int (length ws)"
    using applied_nextSeq [OF pc(2)] unfolding w by (cases ws rule: rev_cases) (simp_all add: commit_writes_snoc)
qed

end
