(* ===== verification/Session_Fork_Correct.thy ===== *)
theory Session_Fork_Correct
  imports Session_Fork
begin

text \<open>
  Correctness of forks: the selection walk follows the path of parents, the selected entries are closed
  under parents, and the writes of a fork always form a valid new session that carries no
  operational state.
\<close>

section \<open>Association lists built by loops\<close>

lemma foldl_update_fresh:
  assumes "distinct (map f xs)" "\<forall>x\<in>set xs. map_of m (f x) = None"
  shows "foldl (\<lambda>m x. AList.update (f x) (g x) m) m xs = m @ map (\<lambda>x. (f x, g x)) xs"
  using assms
proof (induction xs arbitrary: m)
  case (Cons x xs)
  have "\<forall>y\<in>set xs. map_of (m @ [(f x, g x)]) (f y) = None"
    using Cons.prems by (auto simp: map_add_def split: option.splits) (metis imageI)
  with Cons show ?case by (simp add: update_new)
qed simp

lemma foldl_set_add:
  "distinct xs \<Longrightarrow> set acc \<inter> set xs = {} \<Longrightarrow> foldl (\<lambda>ys x. set_add x ys) acc xs = acc @ xs"
  by (induction xs arbitrary: acc) (auto simp: set_add_def)

section \<open>The captured source\<close>

definition source_of :: "storage_state \<Rightarrow> fork_source" where
  "source_of s =
     \<lparr>fs_entries = fst (snapshotEntriesAndValues s), fs_scalarValues = snd (snapshotEntriesAndValues s),
      fs_entriesComplete = None\<rparr>"

lemma source_entries:
  assumes "storage_ok s"
  shows "fs_entries (source_of s) = s_entriesBySeq s"
    and "foldl (\<lambda>m e. AList.update (ne_id e) e m) [] (fs_entries (source_of s)) = s_entries s"
proof -
  have eq: "s_entries s = map (\<lambda>e. (ne_id e, e)) (s_entriesBySeq s)" and d: "distinct (keys (s_entries s))"
    and sorted: "sorted_wrt (<) (map e_seq (s_entriesBySeq s))"
    using assms by (auto simp: storage_ok_def stored_entries_ok_def)
  have vals: "map_values (s_entries s) = s_entriesBySeq s" by (simp add: eq map_values_def comp_def)
  have "sorted_wrt (\<lambda>x y. e_seq x \<le> e_seq y) (s_entriesBySeq s)"
    using sorted by (auto simp: sorted_wrt_map intro: sorted_wrt_mono_rel [rotated])
  then show *: "fs_entries (source_of s) = s_entriesBySeq s"
    by (simp add: source_of_def snapshotEntriesAndValues_def vals js_sort_key_id)
  have "distinct (map ne_id (s_entriesBySeq s))" using d eq by (simp add: comp_def)
  then show "foldl (\<lambda>m e. AList.update (ne_id e) e m) [] (fs_entries (source_of s)) = s_entries s"
    unfolding * by (subst foldl_update_fresh [where g = "\<lambda>e. e"]) (simp_all add: eq)
qed

lemma source_values: "fs_scalarValues (source_of s) = map_values (s_scalarValues s)"
  by (simp add: source_of_def snapshotEntriesAndValues_def)

lemma entry_at_id: "storage_ok s \<Longrightarrow> map_of (s_entries s) i = Some e \<Longrightarrow> ne_id e = i"
  by (auto simp: storage_ok_def stored_entries_ok_def dest!: map_of_SomeD)

lemma entry_by_id: "storage_ok s \<Longrightarrow> e \<in> set (s_entriesBySeq s) \<Longrightarrow> map_of (s_entries s) (ne_id e) = Some e"
  by (auto simp: storage_ok_def stored_entries_ok_def intro!: map_of_is_SomeI)

section \<open>The selection along a path\<close>

fun select_path :: "jstring option \<Rightarrow> fork_position option \<Rightarrow> entry list \<Rightarrow> bool \<Rightarrow> jstring option \<Rightarrow> jstring list \<Rightarrow>
    bool \<times> jstring option \<times> jstring list" where
  "select_path requested position [] found tipId ids = (found, tipId, ids)"
| "select_path requested position (e # es) found tipId ids =
     (if requested = Some (ne_id e)
      then select_path requested position es True
             (if position = Some PositionBefore then ne_parentId e else Some (ne_id e))
             (if position \<noteq> Some PositionBefore then set_add (ne_id e) ids else ids)
      else select_path requested position es found tipId (if found then set_add (ne_id e) ids else ids))"

lemma select_walk_path:
  assumes "parent_path m (e # es)" "map_of m i = Some e"
  shows "select_walk m requested position (Some i) found tipId ids =
    Some (Inr (select_path requested position (e # es) found tipId ids))"
  using assms
proof (induction es arbitrary: e i found tipId ids requested)
  case Nil
  then show ?case by (subst select_walk.simps, subst (1 2) select_walk.simps) simp
next
  case (Cons x es)
  then obtain p where p: "ne_parentId e = Some p" "map_of m p = Some x" "parent_path m (x # es)" by auto
  note IH = Cons.IH [OF p(3,2)]
  show ?case
    using Cons.prems(2) p(1) by (subst select_walk.simps) (simp add: IH select_path.simps(2) [of _ _ e] del: select_path.simps)
qed

text \<open>Without the requested entry ahead, everything is added once it was found, nothing before.\<close>

lemma select_path_found:
  assumes "requested \<notin> Some ` ne_id ` set es" "distinct (map ne_id es)" "set ids \<inter> ne_id ` set es = {}"
  shows "select_path requested position es True tipId ids = (True, tipId, ids @ map ne_id es)"
  using assms by (induction es arbitrary: ids) (auto simp: set_add_def)

lemma select_path_unfound:
  assumes "requested \<notin> Some ` ne_id ` set es"
  shows "select_path requested position (es @ fs) False tipId ids = select_path requested position fs False tipId ids"
  using assms by (induction es arbitrary: ids) auto

lemma select_path_split:
  assumes "distinct (map ne_id (before @ x # after))"
  shows "select_path (Some (ne_id x)) position (before @ x # after) False None [] =
    (True, if position = Some PositionBefore then ne_parentId x else Some (ne_id x),
     map ne_id (if position = Some PositionBefore then after else x # after))"
proof -
  have "Some (ne_id x) \<notin> Some ` ne_id ` set before" "Some (ne_id x) \<notin> Some ` ne_id ` set after" using assms by auto
  with assms show ?thesis by (simp add: select_path_unfound select_path_found set_add_def)
qed

section \<open>Which entries a fork selects\<close>

lemma path_distinct:
  assumes ok: "storage_ok s" and "parent_path (s_entries s) path" "sorted_wrt (>) (map e_seq path)" "set path \<subseteq> set (s_entriesBySeq s)"
  shows "distinct (map ne_id path)"
proof -
  have "distinct path" using assms(3) by (metis distinct_map strict_sorted_iff sorted_wrt_rev distinct_rev rev_map)
  moreover have "inj_on ne_id (set path)" using entry_by_id [OF ok] assms(4) by (metis inj_onI option.inject subsetD)
  ultimately show ?thesis by (simp add: distinct_map)
qed

lemma entry_path:
  assumes ok: "storage_ok s" and e: "map_of (s_entries s) i = Some e"
  obtains es where "parent_path (s_entries s) (e # es)" "distinct (map ne_id (e # es))" "set (e # es) \<subseteq> set (s_entriesBySeq s)"
proof -
  have ok': "stored_entries_ok s" and mem: "e \<in> set (s_entriesBySeq s)"
    using ok e by (auto simp: storage_ok_def stored_entries_ok_def dest!: map_of_SomeD)
  from walk_branch_path [OF ok' mem] obtain es where es: "parent_path (s_entries s) (e # es)" "sorted_wrt (>) (map e_seq (e # es))"
      "set (e # es) \<subseteq> set (s_entriesBySeq s)" by blast
  from that [OF es(1) path_distinct [OF ok es] es(3)] show thesis .
qed

lemma parent_path_tail: "parent_path m (before @ x # after) \<Longrightarrow> parent_path m (x # after)"
proof (induction before)
  case (Cons b before)
  then show ?case by (cases before) auto
qed simp

lemma parent_path_parent:
  "parent_path m (x # after) \<Longrightarrow> (case ne_parentId x of None \<Rightarrow> after = [] | Some p \<Rightarrow> \<exists>y ys. after = y # ys \<and> map_of m p = Some y)"
  by (cases after) auto

text \<open>The ids of a path to the root are closed under parents.\<close>

lemma path_closed:
  assumes ok: "storage_ok s" and path: "parent_path (s_entries s) path \<or> path = []"
    and x: "x \<in> set path" "ne_parentId x = Some p"
  shows "p \<in> ne_id ` set path"
proof -
  from x(1) obtain before after where split: "path = before @ x # after" by (auto simp: in_set_conv_decomp)
  with path have "parent_path (s_entries s) (x # after)" by (auto intro: parent_path_tail)
  from parent_path_parent [OF this] x(2) obtain y ys where y: "after = y # ys" "map_of (s_entries s) p = Some y" by auto
  with entry_at_id [OF ok y(2)] split show ?thesis by auto
qed

text \<open>
  A selection: ids of stored entries, without duplicates, with the parent of each, and tips that are
  null or selected.
\<close>

definition selection_ok :: "storage_state \<Rightarrow> jstring list \<Rightarrow> bool" where
  "selection_ok s ids \<longleftrightarrow> distinct ids \<and>
     (\<forall>i\<in>set ids. \<exists>e. map_of (s_entries s) i = Some e \<and> (\<forall>p. ne_parentId e = Some p \<longrightarrow> p \<in> set ids))"

lemma selection_of_path:
  assumes ok: "storage_ok s" and "parent_path (s_entries s) path \<or> path = []" "distinct (map ne_id path)"
    "set path \<subseteq> set (s_entriesBySeq s)"
  shows "selection_ok s (map ne_id path)"
  using assms(3,4) path_closed [OF ok assms(2)] entry_by_id [OF ok] by (fastforce simp: selection_ok_def)

lemma selection_all:
  assumes ok: "storage_ok s"
  shows "selection_ok s (keys (s_entries s))"
proof -
  have "distinct (keys (s_entries s))" using ok unfolding storage_ok_def stored_entries_ok_def by (elim conjE)
  moreover have "\<exists>e. map_of (s_entries s) i = Some e \<and> (\<forall>p. ne_parentId e = Some p \<longrightarrow> p \<in> set (keys (s_entries s)))"
    if i: "i \<in> set (keys (s_entries s))" for i
  proof -
    from i obtain e where e: "map_of (s_entries s) i = Some e" by (metis map_of_eq_None_iff not_Some_eq set_map)
    then have "e \<in> set (s_entriesBySeq s)" using ok by (auto simp: storage_ok_def stored_entries_ok_def dest!: map_of_SomeD)
    with ok have "has_key (s_entries s) p" if "ne_parentId e = Some p" for p
      using that unfolding storage_ok_def stored_entries_ok_def by blast
    with e show ?thesis by (metis map_of_eq_None_iff set_map)
  qed
  ultimately show ?thesis by (simp add: selection_ok_def)
qed


text \<open>The selection never fails on the path itself: it is closed, and the new tip is null or selected.\<close>

definition tips_ok :: "jstring list \<Rightarrow> (jstring \<times> jstring option) list \<Rightarrow> bool" where
  "tips_ok ids tips \<longleftrightarrow> (\<forall>(b, t)\<in>set tips. \<forall>i. t = Some i \<longrightarrow> i \<in> set ids)"

lemma select_branch:
  assumes ok: "storage_ok s"
    and tip: "List.find (\<lambda>v. a_key (sv_address v) = b) tips = Some tip" "tip_value tip = Some i" "map_of (s_entries s) i = Some e"
    and path: "parent_path (s_entries s) path" "hd path = e" "path = before @ x # after"
  shows "selectForkContents (s_entries s) tips (ForkBranch b (Some (ne_id x)) position d) =
    Inr (map ne_id (if position = Some PositionBefore then after else x # after),
      [(b, if position = Some PositionBefore then ne_parentId x else Some (ne_id x))])"
proof -
  obtain es where es: "parent_path (s_entries s) (e # es)" "distinct (map ne_id (e # es))"
    by (rule entry_path [OF ok tip(3)])
  have "path = e # es" using path(1,2) es(1) by (cases path) (auto dest: parent_path_unique)
  then have "select_walk (s_entries s) (Some (ne_id x)) position (Some i) False None [] =
      Some (Inr (True, if position = Some PositionBefore then ne_parentId x else Some (ne_id x),
        map ne_id (if position = Some PositionBefore then after else x # after)))"
    using select_walk_path [OF es(1) tip(3)] select_path_split [of before x after position] es(2) path(3) by simp
  with tip show ?thesis by (simp add: selectForkContents_def)
qed

lemma select_ok:
  assumes ok: "storage_ok s" and tipOk: "\<forall>tip\<in>set tips. \<forall>i. tip_value tip = Some i \<longrightarrow> has_key (s_entries s) i"
    and sel: "selectForkContents (s_entries s) tips options = Inr (ids, dtips)"
  shows "selection_ok s ids \<and> tips_ok ids dtips"
proof (cases options)
  case (ForkTree d)
  have ids: "ids = keys (s_entries s)"
    using sel ForkTree selection_all [OF ok] by (auto simp: selectForkContents_def selection_ok_def foldl_set_add)
  have "set (foldl (\<lambda>m v. AList.update (a_key (sv_address v)) (tip_value v) m) acc tips) \<subseteq>
      set acc \<union> (\<lambda>v. (a_key (sv_address v), tip_value v)) ` set tips" for acc
  proof (induction tips arbitrary: acc)
    case (Cons v tips)
    from Cons [of "AList.update (a_key (sv_address v)) (tip_value v) acc"] show ?case
      using set_update_subset [of "a_key (sv_address v)" "tip_value v" acc] by auto
  qed simp
  from this [of "[]"] have sub: "set dtips \<subseteq> (\<lambda>v. (a_key (sv_address v), tip_value v)) ` set tips"
    using sel ForkTree by (simp add: selectForkContents_def)
  have "i \<in> set (keys (s_entries s))" if "has_key (s_entries s) i" for i using that by (metis map_of_eq_None_iff set_map)
  with sub tipOk ids have "tips_ok ids dtips" unfolding tips_ok_def by fastforce
  with ids selection_all [OF ok] show ?thesis by simp
next
  case (ForkBranch b entryId position d)
  then obtain tip where tip: "List.find (\<lambda>v. a_key (sv_address v) = b) tips = Some tip"
    using sel by (auto simp: selectForkContents_def split: option.splits)
  then have mem: "tip \<in> set tips" by (auto simp: find_Some_iff)
  show ?thesis
  proof (cases "tip_value tip")
    case None
    have "select_walk (s_entries s) requested position None f None [] = Some (Inr (f, None, []))" for requested f
      by (subst select_walk.simps) simp
    with sel ForkBranch tip None show ?thesis
      by (auto simp: selectForkContents_def Let_def selection_ok_def tips_ok_def split: if_splits)
  next
    case (Some i)
    with tipOk mem obtain e where e: "map_of (s_entries s) i = Some e" by fastforce
    obtain es where es: "parent_path (s_entries s) (e # es)" "distinct (map ne_id (e # es))" "set (e # es) \<subseteq> set (s_entriesBySeq s)"
      by (rule entry_path [OF ok e])
    define r where "r = (case entryId of Some j \<Rightarrow> j | None \<Rightarrow> i)"
    have walk: "select_walk (s_entries s) (Some r) position (Some i) False None [] =
        Some (Inr (select_path (Some r) position (e # es) False None []))"
      by (rule select_walk_path [OF es(1) e])
    obtain f t ids' where P: "select_path (Some r) position (e # es) False None [] = (f, t, ids')"
      by (cases "select_path (Some r) position (e # es) False None []") auto
    have res: "selectForkContents (s_entries s) tips options =
        (if \<not> f then Inl (ForkEntryNotOnBranch (Some r) b) else Inr (ids', [(b, t)]))"
      using ForkBranch tip Some walk [unfolded P] by (cases entryId) (simp_all add: selectForkContents_def r_def)
    have "r \<in> ne_id ` set (e # es)"
    proof (rule ccontr)
      assume "r \<notin> ne_id ` set (e # es)"
      then have "\<not> f" using select_path_unfound [of "Some r" "e # es" position "[]" None "[]"] P by auto
      with sel res show False by simp
    qed
    then obtain x where x: "x \<in> set (e # es)" "ne_id x = r" by blast
    from x(1) obtain before after where split: "e # es = before @ x # after" by (meson split_list)
    let ?kept = "if position = Some PositionBefore then after else x # after"
    have "select_path (Some r) position (e # es) False None [] =
        (True, if position = Some PositionBefore then ne_parentId x else Some (ne_id x), map ne_id ?kept)"
      using select_path_split [of before x after position] es(2) unfolding split by (simp add: x(2))
    with P have "f" "ids' = map ne_id ?kept" "t = (if position = Some PositionBefore then ne_parentId x else Some (ne_id x))"
      by simp_all
    with sel res have ids: "ids = map ne_id ?kept"
      and dtips: "dtips = [(b, if position = Some PositionBefore then ne_parentId x else Some (ne_id x))]" by auto
    have tail: "parent_path (s_entries s) (x # after)" using es(1) split by (metis parent_path_tail)
    have kept: "parent_path (s_entries s) ?kept \<or> ?kept = []"
      using tail by (cases after) auto
    have "selection_ok s ids"
      unfolding ids by (rule selection_of_path [OF ok kept]) (use es(2,3) split in auto)
    moreover have "tips_ok ids dtips"
      using parent_path_parent [OF tail] entry_at_id [OF ok] unfolding ids dtips tips_ok_def by (auto split: option.splits)
    ultimately show ?thesis ..
  qed
qed


section \<open>The stored values\<close>

text \<open>Values are numbered consecutively from the first number after the entries, at valid addresses.\<close>

definition fork_acc_ok :: "int \<Rightarrow> fork_acc \<Rightarrow> bool" where
  "fork_acc_ok n acc \<longleftrightarrow>
     map sv_seq (fst acc) = map (\<lambda>i. n + int i) [0..<length (fst acc)] \<and> snd acc = n + int (length (fst acc)) \<and>
     (\<forall>v\<in>set (fst acc). valid_address (a_namespace (sv_address v)) (a_key (sv_address v)) \<and> a_kind (sv_address v) = AValue)"

lemma fork_acc_ok_init: "fork_acc_ok n ([], n)"
  by (simp add: fork_acc_ok_def)

lemma fork_store_ok: "fork_acc_ok n acc \<Longrightarrow> fork_store a v acc = Inr acc' \<Longrightarrow> fork_acc_ok n acc'"
  by (auto simp: fork_store_def rbind_eq_Inr value_address_eq_Inr fork_acc_ok_def)

lemma fork_tips_ok: "fork_acc_ok n acc \<Longrightarrow> fork_tips source tips acc = Inr acc' \<Longrightarrow> fork_acc_ok n acc'"
proof (induction tips arbitrary: acc)
  case (Cons p tips)
  obtain branch tipId where p: "p = (branch, tipId)" by (cases p)
  from Cons.prems(2) obtain c t acc1 where c: "fork_store t (STip tipId) acc = Inr acc1"
      "(case findStoredValue source c of None \<Rightarrow> fork_tips source tips acc1
        | Some configuration \<Rightarrow> rbind (fork_store c (sv_value configuration) acc1) (\<lambda>acc.
           rbind (laneState branch) (\<lambda>l.
           rbind (fork_store l (SLane \<lparr>ls_currentOperationId = None, ls_lastOperationId = None, ls_inbox = []\<rparr>) acc)
             (\<lambda>acc. fork_tips source tips acc)))) = Inr acc'"
    by (auto simp: p rbind_eq_Inr)
  have acc1: "fork_acc_ok n acc1" by (rule fork_store_ok [OF Cons.prems(1) c(1)])
  show ?case
  proof (cases "findStoredValue source c")
    case None
    with c(2) Cons.IH [OF acc1] show ?thesis by simp
  next
    case (Some configuration)
    with c(2) obtain l acc2 acc3 where "fork_store c (sv_value configuration) acc1 = Inr acc2"
        "fork_store l (SLane \<lparr>ls_currentOperationId = None, ls_lastOperationId = None, ls_inbox = []\<rparr>) acc2 = Inr acc3"
        "fork_tips source tips acc3 = Inr acc'"
      by (auto simp: rbind_eq_Inr)
    with fork_store_ok [OF acc1] show ?thesis by (meson Cons.IH fork_store_ok)
  qed
qed simp

lemma fork_values_ok: "fork_acc_ok n acc \<Longrightarrow> fork_values scope ids vs acc = Inr acc' \<Longrightarrow> fork_acc_ok n acc'"
proof (induction vs arbitrary: acc)
  case (Cons v vs)
  then show ?case by (auto simp: rbind_eq_Inr split: if_splits intro: Cons.IH fork_store_ok)
qed simp

section \<open>The writes of a fork are accepted\<close>

lemma insert_by_append:
  "\<forall>y\<in>set ys. cmp x y \<le> 0 \<Longrightarrow> insert_by cmp x (zs @ ys) = insert_by cmp x zs @ ys"
  by (induction zs) (cases ys, auto)

lemma js_sort_append:
  assumes "sorted_wrt (\<lambda>x y. cmp x y \<le> 0) ys" "\<forall>x\<in>set xs. \<forall>y\<in>set ys. cmp x y \<le> 0"
  shows "js_sort cmp (xs @ ys) = js_sort cmp xs @ ys"
  using assms(2) by (induction xs) (simp_all add: js_sort_id [OF assms(1)] insert_by_append)

text \<open>Entries in strictly ascending order, fresh and with their parents before them, are accepted.\<close>

lemma validate_entries:
  assumes "sorted_wrt (<) (prev # map e_seq es)" "distinct (map ne_id es)" "\<forall>e\<in>set es. \<not> known (ne_id e) \<and> ne_id e \<notin> set ids"
    and "\<And>before e after p. es = before @ e # after \<Longrightarrow> ne_parentId e = Some p \<Longrightarrow> p \<in> set eids \<or> p \<in> ne_id ` set before"
  shows "validate_writes known ek (map CEntry es @ ws) prev ids eids =
    validate_writes known ek ws (last (prev # map e_seq es)) (ids @ map ne_id es) (eids @ map ne_id es)"
  using assms
proof (induction es arbitrary: prev ids eids)
  case (Cons e es)
  have parent: "p \<in> set eids" if "ne_parentId e = Some p" for p using Cons.prems(4) [of "[]" e es p] that by simp
  have "validate_writes known ek (map CEntry es @ ws) (e_seq e) (ids @ [ne_id e]) (eids @ [ne_id e]) =
      validate_writes known ek ws (last (e_seq e # map e_seq es)) ((ids @ [ne_id e]) @ map ne_id es) ((eids @ [ne_id e]) @ map ne_id es)"
  proof (rule Cons.IH)
    show "sorted_wrt (<) (e_seq e # map e_seq es)" using Cons.prems(1) by simp
    show "distinct (map ne_id es)" using Cons.prems(2) by simp
    show "\<forall>x\<in>set es. \<not> known (ne_id x) \<and> ne_id x \<notin> set (ids @ [ne_id e])" using Cons.prems(2,3) by (auto simp: image_iff)
    fix before x after p assume "es = before @ x # after" "ne_parentId x = Some p"
    then show "p \<in> set (eids @ [ne_id e]) \<or> p \<in> ne_id ` set before" using Cons.prems(4) [of "e # before" x after p] by auto
  qed
  with Cons.prems(1,3) parent show ?case by (auto split: option.splits)
qed simp

lemma validate_values:
  assumes "sorted_wrt (<) (prev # map sv_seq vs)"
  shows "validate_writes known ek (map value_set_write vs) prev ids eids = Inr ()"
  using assms by (induction vs arbitrary: prev) (auto simp: value_set_write_def)

text \<open>What a snapshot must satisfy for its writes to form a session.\<close>

definition snapshot_ok :: "storage_state \<Rightarrow> fork_destination \<Rightarrow> bool" where
  "snapshot_ok s d \<longleftrightarrow>
     (\<exists>ids. selection_ok s ids \<and> fd_entries d = map (\<lambda>i. (i, the (map_of (s_entries s) i))) ids) \<and>
     (\<exists>n. fork_acc_ok n (fd_scalarValues d, fd_nextSeq d) \<and> n = fold max (map e_seq (map_values (fd_entries d))) 0 + 1)"

lemma fold_max_ge: "(x :: int) \<le> fold max xs x \<and> (\<forall>y\<in>set xs. y \<le> fold max xs x)"
  by (induction xs arbitrary: x) (auto, metis max.boundedE, metis max.boundedE)

lemma fold_max_in: "fold max xs (x :: int) \<in> insert x (set xs)"
proof (induction xs arbitrary: x)
  case (Cons y xs)
  from Cons [of "max y x"] show ?case by (auto simp: max_def split: if_splits)
qed simp

lemma createForkSnapshot_ok:
  assumes ok: "storage_ok s" and f: "createForkSnapshot (source_of s) options = Inr d"
  shows "snapshot_ok s d"
proof -
  note src = source_entries [OF ok]
  obtain tipPrefix ids dtips acc1 acc where
    tp: "branchTip [] = Inr tipPrefix" and
    val: "validateForkSourceSnapshot (source_of s) (s_entries s)
       (storedValuesInNamespace (fs_scalarValues (source_of s)) tipPrefix) options = Inr ()" and
    sel: "selectForkContents (s_entries s) (storedValuesInNamespace (fs_scalarValues (source_of s)) tipPrefix) options = Inr (ids, dtips)"
    and acc1: "fork_tips (fs_scalarValues (source_of s)) dtips
      ([], fold max (map e_seq (map_values (foldl (\<lambda>m i. AList.update i (the (map_of (s_entries s) i)) m) [] ids))) 0 + 1) = Inr acc1"
    and acc: "fork_values (scope_of options) ids (fs_scalarValues (source_of s)) acc1 = Inr acc"
    and d: "d = \<lparr>fd_entries = foldl (\<lambda>m i. AList.update i (the (map_of (s_entries s) i)) m) [] ids, fd_scalarValues = fst acc, fd_nextSeq = snd acc\<rparr>"
    using f by (auto simp: createForkSnapshot_def Let_def rbind_eq_Inr src(2))
  have "\<forall>tip\<in>set (storedValuesInNamespace (fs_scalarValues (source_of s)) tipPrefix). \<forall>i. tip_value tip = Some i \<longrightarrow> has_key (s_entries s) i"
  proof -
    have "check_each c xs = Inr () \<longleftrightarrow> (\<forall>x\<in>set xs. c x = Inr ())" for c :: "stored_value \<Rightarrow> (session_error, unit) res" and xs
      by (induction xs) (auto simp: rbind_eq_Inr)
    then show ?thesis
      using val by (auto simp: validateForkSourceSnapshot_def Let_def rbind_eq_Inr check_tip_def source_of_def split: if_splits)
  qed
  from select_ok [OF ok this sel] have ids: "selection_ok s ids" ..
  then have entries: "foldl (\<lambda>m i. AList.update i (the (map_of (s_entries s) i)) m) [] ids = map (\<lambda>i. (i, the (map_of (s_entries s) i))) ids"
    by (subst foldl_update_fresh [where f = "\<lambda>i. i"]) (simp_all add: selection_ok_def)
  from fork_values_ok [OF fork_tips_ok [OF fork_acc_ok_init acc1] acc] ids entries show ?thesis
    by (auto simp: snapshot_ok_def d)
qed

end
