(* ===== verification/Session_Fork_Props.thy ===== *)
theory Session_Fork_Props
  imports Session_Fork_Correct
begin

text \<open>
  The properties of forks: the writes of a fork always form a valid session with the selected entries, the
  fork carries no operational state, and a branch fork keeps exactly the path to the fork point.
\<close>

section \<open>The writes in order\<close>

lemma insert_by_map: "insert_by cmp (f x) (map f ys) = map f (insert_by (\<lambda>x y. cmp (f x) (f y)) x ys)"
  by (induction ys) auto

lemma js_sort_map: "js_sort cmp (map f xs) = map f (js_sort (\<lambda>x y. cmp (f x) (f y)) xs)"
  by (induction xs) (simp_all add: insert_by_map)

definition fork_entries_sorted :: "fork_destination \<Rightarrow> entry list" where
  "fork_entries_sorted d = js_sort (\<lambda>x y. e_seq x - e_seq y) (map_values (fd_entries d))"

lemma write_seq_value_set [simp]: "write_seq (value_set_write v) = sv_seq v"
  by (simp add: value_set_write_def)

lemma consecutive_sorted: "map f xs = map (\<lambda>i. n + int i) [0..<length xs] \<Longrightarrow> sorted_wrt (<) (map f xs)"
  by (simp add: sorted_wrt_map sorted_wrt_iff_nth_less)

lemma consecutive_last:
  assumes "map f xs = map (\<lambda>i. n + int i) [0..<length xs]" "xs \<noteq> []"
  shows "f (last xs) = n + int (length xs) - 1"
proof -
  have "f (last xs) = last (map f xs)" using assms(2) by (simp add: last_map)
  also have "\<dots> = n + int (length xs - 1)" unfolding assms(1) using assms(2) by (simp add: last_map)
  finally show ?thesis using assms(2) by (cases xs) auto
qed

lemma snapshot_values_after:
  assumes "snapshot_ok s d"
  shows "sorted_wrt (<) (map sv_seq (fd_scalarValues d))"
    and "e \<in> set (map_values (fd_entries d)) \<Longrightarrow> v \<in> set (fd_scalarValues d) \<Longrightarrow> e_seq e < sv_seq v"
    and "v \<in> set (fd_scalarValues d) \<Longrightarrow> 0 < sv_seq v"
proof -
  let ?m = "fold max (map e_seq (map_values (fd_entries d))) 0"
  have acc: "fork_acc_ok (?m + 1) (fd_scalarValues d, fd_nextSeq d)" using assms by (auto simp: snapshot_ok_def)
  then show "sorted_wrt (<) (map sv_seq (fd_scalarValues d))" by (auto simp: fork_acc_ok_def intro: consecutive_sorted)
  have ge: "?m < sv_seq v" if "v \<in> set (fd_scalarValues d)" for v
  proof -
    have eq: "map sv_seq (fd_scalarValues d) = map (\<lambda>i. ?m + 1 + int i) [0..<length (fd_scalarValues d)]"
      using acc by (simp add: fork_acc_ok_def)
    from that have "sv_seq v \<in> set (map sv_seq (fd_scalarValues d))" by simp
    then show ?thesis unfolding eq by auto
  qed
  from ge fold_max_ge [of 0 "map e_seq (map_values (fd_entries d))"]
  show "e \<in> set (map_values (fd_entries d)) \<Longrightarrow> v \<in> set (fd_scalarValues d) \<Longrightarrow> e_seq e < sv_seq v"
    and "v \<in> set (fd_scalarValues d) \<Longrightarrow> 0 < sv_seq v" by fastforce+
qed

lemma forkSnapshotWrites_eq:
  assumes "snapshot_ok s d"
  shows "forkSnapshotWrites d = map CEntry (fork_entries_sorted d) @ map value_set_write (fd_scalarValues d)"
proof -
  have "sorted_wrt (\<lambda>x y. write_seq x - write_seq y \<le> 0) (map value_set_write (fd_scalarValues d))"
    using snapshot_values_after(1) [OF assms] by (auto simp: sorted_wrt_map intro: sorted_wrt_mono_rel [rotated])
  moreover have "\<forall>x\<in>set (map CEntry (map_values (fd_entries d))). \<forall>y\<in>set (map value_set_write (fd_scalarValues d)). write_seq x - write_seq y \<le> 0"
    using snapshot_values_after(2) [OF assms] by fastforce
  ultimately show ?thesis by (simp add: forkSnapshotWrites_def js_sort_append js_sort_map fork_entries_sorted_def)
qed

lemma fork_entries_props:
  assumes ok: "storage_ok s" and d: "snapshot_ok s d"
  shows "set (fork_entries_sorted d) \<subseteq> set (s_entriesBySeq s)"
    and "distinct (map ne_id (fork_entries_sorted d))"
    and "sorted_wrt (<) (0 # map e_seq (fork_entries_sorted d))"
    and "\<And>e p. e \<in> set (fork_entries_sorted d) \<Longrightarrow> ne_parentId e = Some p \<Longrightarrow> \<exists>e'\<in>set (fork_entries_sorted d). ne_id e' = p \<and> e_seq e' < e_seq e"
    and "map_of (map (\<lambda>e. (ne_id e, e)) (fork_entries_sorted d)) = map_of (fd_entries d)"
proof -
  let ?es = "fork_entries_sorted d" and ?at = "\<lambda>i. the (map_of (s_entries s) i)"
  from d obtain ids where ids: "selection_ok s ids" "fd_entries d = map (\<lambda>i. (i, ?at i)) ids" by (auto simp: snapshot_ok_def)
  have at: "map_of (s_entries s) i = Some (?at i)" "ne_id (?at i) = i" "?at i \<in> set (s_entriesBySeq s)" if "i \<in> set ids" for i
  proof -
    from ids(1) that obtain e where e: "map_of (s_entries s) i = Some e" by (auto simp: selection_ok_def)
    then show "map_of (s_entries s) i = Some (?at i)" "ne_id (?at i) = i" using entry_at_id [OF ok e] by simp_all
    from e ok show "?at i \<in> set (s_entriesBySeq s)" by (auto simp: storage_ok_def stored_entries_ok_def dest!: map_of_SomeD)
  qed
  have vals: "map_values (fd_entries d) = map ?at ids" by (simp add: ids(2) map_values_def)
  have set: "set ?es = ?at ` set ids" by (simp add: fork_entries_sorted_def vals)
  then show sub: "set ?es \<subseteq> set (s_entriesBySeq s)" using at(3) by auto
  have "map ne_id (map_values (fd_entries d)) = ids" using at(2) by (simp add: vals map_idI)
  then have "distinct (map ne_id (map_values (fd_entries d)))" using ids(1) by (simp add: selection_ok_def)
  moreover have "mset (map ne_id ?es) = mset (map ne_id (map_values (fd_entries d)))"
    unfolding fork_entries_sorted_def mset_map by simp
  ultimately show dist: "distinct (map ne_id ?es)" by (metis mset_eq_imp_distinct_iff)
  have "distinct (map e_seq (s_entriesBySeq s))" "\<forall>e\<in>set (s_entriesBySeq s). 0 < e_seq e"
    using ok by (auto simp: storage_ok_def stored_entries_ok_def strict_sorted_iff)
  then have inj: "inj_on e_seq (set ?es)" and pos: "\<forall>e\<in>set ?es. 0 < e_seq e"
    using sub by (auto simp: distinct_map intro: inj_on_subset)
  have "distinct (map e_seq ?es)" using inj dist by (simp add: distinct_map)
  moreover have "sorted (map e_seq ?es)" using sorted_js_sort_key [of e_seq] by (simp add: fork_entries_sorted_def sorted_wrt_map)
  ultimately show "sorted_wrt (<) (0 # map e_seq ?es)" using pos by (simp add: strict_sorted_iff)
  show "\<exists>e'\<in>set ?es. ne_id e' = p \<and> e_seq e' < e_seq e" if e: "e \<in> set ?es" "ne_parentId e = Some p" for e p
  proof -
    from e(1) set obtain i where i: "i \<in> set ids" "e = ?at i" by auto
    with ids(1) e(2) at(1) have "p \<in> set ids" by (force simp: selection_ok_def)
    moreover have "\<exists>e'. map_of (s_entries s) p = Some e' \<and> e_seq e' < e_seq e"
      using ok e sub unfolding storage_ok_def stored_entries_ok_def by blast
    ultimately show ?thesis using at(1,2) set by (metis imageI option.inject)
  qed
  show "map_of (map (\<lambda>e. (ne_id e, e)) ?es) = map_of (fd_entries d)"
  proof (rule map_of_eqI)
    show "set (keys (map (\<lambda>e. (ne_id e, e)) ?es)) = set (keys (fd_entries d))" using at(2) set ids(2) by force
    show "\<forall>k\<in>set (keys (map (\<lambda>e. (ne_id e, e)) ?es)). map_of (map (\<lambda>e. (ne_id e, e)) ?es) k = map_of (fd_entries d) k"
    proof
      fix k assume "k \<in> set (keys (map (\<lambda>e. (ne_id e, e)) ?es))"
      then obtain i where i: "i \<in> set ids" "k = i" "?at i \<in> set ?es" using at(2) set by auto
      have "map_of (map (\<lambda>e. (ne_id e, e)) ?es) k = Some (?at i)"
        using i at(2) [OF i(1)] dist by (intro map_of_is_SomeI) (auto simp: comp_def image_iff)
      moreover have "map_of (fd_entries d) k = Some (?at i)" using i(1,2) by (simp add: ids(2) map_of_map_restrict)
      ultimately show "map_of (map (\<lambda>e. (ne_id e, e)) ?es) k = map_of (fd_entries d) k" by simp
    qed
  qed
qed


lemma spec_entries:
  assumes "distinct (map ne_id es)"
  shows "st_entries (foldl spec_write a (map CEntry es @ map value_set_write vs)) i =
    (case map_of (map (\<lambda>e. (ne_id e, e)) es) i of Some e \<Rightarrow> Some e | None \<Rightarrow> st_entries a i)"
proof -
  have "st_entries (foldl spec_write b (map value_set_write vs)) = st_entries b" for b
    by (induction vs arbitrary: b) (simp_all add: value_set_write_def)
  moreover have "st_entries (foldl spec_write a (map CEntry es)) i =
      (case map_of (map (\<lambda>e. (ne_id e, e)) es) i of Some e \<Rightarrow> Some e | None \<Rightarrow> st_entries a i)"
    using assms
  proof (induction es arbitrary: a)
    case (Cons e es)
    have "map_of (map (\<lambda>e. (ne_id e, e)) es) (ne_id e) = None"
      using Cons.prems by (auto simp: map_of_eq_None_iff image_iff)
    with Cons show ?case by (auto split: option.splits)
  qed simp
  ultimately show ?thesis by simp
qed

lemma fork_writes_valid:
  assumes ok: "storage_ok s" and d: "snapshot_ok s d"
  shows "validateCommitted new_storage_state (forkSnapshotWrites d) = Inr ()"
proof -
  note es = fork_entries_props [OF ok d]
  have "validate_writes (\<lambda>_. False) (\<lambda>_. False) (map CEntry (fork_entries_sorted d) @ map value_set_write (fd_scalarValues d)) 0 [] [] =
      validate_writes (\<lambda>_. False) (\<lambda>_. False) (map value_set_write (fd_scalarValues d)) (last (0 # map e_seq (fork_entries_sorted d)))
        ([] @ map ne_id (fork_entries_sorted d)) ([] @ map ne_id (fork_entries_sorted d))"
  proof (rule validate_entries [OF es(3,2)])
    fix before e after p assume split: "fork_entries_sorted d = before @ e # after" and p: "ne_parentId e = Some p"
    from es(4) [of e p] split p obtain e' where e': "e' \<in> set (fork_entries_sorted d)" "ne_id e' = p" "e_seq e' < e_seq e" by auto
    have "e' \<notin> set (e # after)"
      using es(3) e'(3) by (auto simp: split sorted_wrt_append)
    with e'(1,2) show "p \<in> set [] \<or> p \<in> ne_id ` set before" by (auto simp: split)
  qed simp
  also have "\<dots> = Inr ()"
  proof (rule validate_values)
    have "last (0 # map e_seq (fork_entries_sorted d)) \<in> insert 0 (e_seq ` set (map_values (fd_entries d)))"
      using last_in_set [of "0 # map e_seq (fork_entries_sorted d)"] by (simp add: fork_entries_sorted_def)
    then show "sorted_wrt (<) (last (0 # map e_seq (fork_entries_sorted d)) # map sv_seq (fd_scalarValues d))"
      using snapshot_values_after [OF d] by auto
  qed
  finally show ?thesis
    by (simp add: validateCommitted_def validateCommittedWrites_def new_storage_state_def forkSnapshotWrites_eq [OF d])
qed

lemma fold_max_last:
  assumes "sorted_wrt (<) (0 # xs)" "set ys = set xs"
  shows "fold max ys (0 :: int) = last (0 # xs)"
proof (rule antisym)
  have "x \<le> last l" if "sorted l" "x \<in> set l" for x :: int and l using that by (induction l) auto
  moreover have "sorted (0 # xs)" using assms(1) by (auto simp: strict_sorted_iff)
  ultimately show "fold max ys 0 \<le> last (0 # xs)" using fold_max_in [of ys 0] assms(2) by (metis insert_iff list.set(2))
  show "last (0 # xs) \<le> fold max ys 0"
    using fold_max_ge [of 0 ys] last_in_set [of "0 # xs"] assms(2) by (metis insert_iff list.distinct(1) list.set(2))
qed

lemma fork_applies:
  assumes ok: "storage_ok s" and d: "snapshot_ok s d"
  obtains s' where "applyValidated new_storage_state (forkSnapshotWrites d) = (s', Inr (s_stats s'))"
    "storage_reachable s'" "map_of (s_entries s') = map_of (fd_entries d)" "s_nextSeq s' = fd_nextSeq d"
    "abs_store s' = foldl spec_write (abs_store new_storage_state) (forkSnapshotWrites d)"
proof -
  note v = fork_writes_valid [OF ok d] and es = fork_entries_props [OF ok d]
  let ?ws = "forkSnapshotWrites d"
  have acc: "fork_acc_ok (fold max (map e_seq (map_values (fd_entries d))) 0 + 1) (fd_scalarValues d, fd_nextSeq d)"
    using d by (auto simp: snapshot_ok_def)
  have "\<forall>w\<in>set ?ws. write_address_ok w"
    using acc by (auto simp: forkSnapshotWrites_def value_set_write_def fork_acc_ok_def)
  from applyValidated_ok [OF new_storage_ok v this] obtain s' where
    s': "applyValidated new_storage_state ?ws = (s', Inr (s_stats s'))"
      "s_nextSeq s' = (if ?ws = [] then s_nextSeq new_storage_state else write_seq (last ?ws) + 1)" by blast
  have refine: "abs_store s' = foldl spec_write (abs_store new_storage_state) ?ws"
    by (rule refine_transaction [OF new_storage_ok v s'(1)])
  have "st_entries (abs_store s') = map_of (fd_entries d)"
    unfolding refine forkSnapshotWrites_eq [OF d] es(5) [symmetric]
    by (rule ext, subst spec_entries [OF es(2)]) (simp add: abs_store_def new_storage_state_def split: option.splits)
  then have entries: "map_of (s_entries s') = map_of (fd_entries d)" by (simp add: abs_store_def)
  have "s_nextSeq s' = fd_nextSeq d"
  proof (cases "fd_scalarValues d = []")
    case True
    then have nextSeq: "fd_nextSeq d = fold max (map e_seq (map_values (fd_entries d))) 0 + 1" using acc by (simp add: fork_acc_ok_def)
    have "fold max (map e_seq (map_values (fd_entries d))) 0 = last (0 # map e_seq (fork_entries_sorted d))"
      by (rule fold_max_last [OF es(3)]) (simp add: fork_entries_sorted_def)
    with True nextSeq s'(2) show ?thesis
      by (cases "fork_entries_sorted d") (simp_all add: forkSnapshotWrites_eq [OF d] last_map new_storage_state_def)
  next
    case False
    then have "last ?ws = value_set_write (last (fd_scalarValues d))" "?ws \<noteq> []"
      by (simp_all add: forkSnapshotWrites_eq [OF d] last_map)
    moreover have "sv_seq (last (fd_scalarValues d)) = fd_nextSeq d - 1"
    proof -
      have "sv_seq (last (fd_scalarValues d)) = fold max (map e_seq (map_values (fd_entries d))) 0 + 1 + int (length (fd_scalarValues d)) - 1"
        by (rule consecutive_last [OF _ False]) (use acc in \<open>simp add: fork_acc_ok_def\<close>)
      then show ?thesis using acc by (simp add: fork_acc_ok_def)
    qed
    ultimately show ?thesis using s'(2) by simp
  qed
  moreover have "storage_reachable s'" using storage_reachable.replay [OF storage_reachable.init v] s'(1) by simp
  ultimately show thesis using that s'(1) entries refine by blast
qed


section \<open>What a fork stores\<close>

definition idle_lane :: sval where
  "idle_lane = SLane \<lparr>ls_currentOperationId = None, ls_lastOperationId = None, ls_inbox = []\<rparr>"

text \<open>
  A stored value of a fork: no operation, pending or result state, an idle lane, labels of copied entries
  only, and in a branch fork nothing outside the reserved namespaces.
\<close>

definition forked_value_ok :: "fork_scope \<Rightarrow> (jstring \<Rightarrow> bool) \<Rightarrow> stored_value \<Rightarrow> bool" where
  "forked_value_ok scope copied v \<longleftrightarrow>
     (let ns = a_namespace (sv_address v) in
      ns \<noteq> js ''phi.result'' \<and> \<not> prefix (js ''phi.op.'') ns \<and> \<not> prefix (js ''phi.pending.'') ns \<and>
      (ns = js ''phi.lane.state'' \<longrightarrow> sv_value v = idle_lane) \<and>
      (ns = js ''phi.entry.label'' \<longrightarrow> copied (a_key (sv_address v))) \<and>
      (scope = ScopeBranch \<longrightarrow> prefix (js ''phi.'') ns))"

lemma forked_store:
  assumes "fork_store a v acc = Inr acc'"
  shows "fst acc' = fst acc @ [\<lparr>sv_address = \<lparr>a_namespace = a_namespace a, a_key = a_key a, a_kind = AValue\<rparr>,
    sv_value = v, sv_seq = snd acc\<rparr>]"
  using assms by (auto simp: fork_store_def rbind_eq_Inr value_address_eq_Inr)

lemma lane_namespaces:
  "branchTip b = Inr a \<Longrightarrow> a_namespace a = js ''phi.branch.tip'' \<and> a_key a = b"
  "laneConfig b = Inr a \<Longrightarrow> a_namespace a = js ''phi.lane.config'' \<and> a_key a = b"
  "laneState b = Inr a \<Longrightarrow> a_namespace a = js ''phi.lane.state'' \<and> a_key a = b"
  by (auto simp: branchTip_def laneConfig_def laneState_def value_address_eq_Inr)

lemma fork_tips_values:
  "fork_tips source tips acc = Inr acc' \<Longrightarrow> \<exists>new. fst acc' = fst acc @ new \<and> (\<forall>v\<in>set new. forked_value_ok scope copied v)"
proof (induction tips arbitrary: acc)
  case (Cons p tips)
  obtain branch tipId where p: "p = (branch, tipId)" by (cases p)
  from Cons.prems obtain c t acc1 where c: "laneConfig branch = Inr c" "branchTip branch = Inr t" "fork_store t (STip tipId) acc = Inr acc1"
      "(case findStoredValue source c of None \<Rightarrow> fork_tips source tips acc1
        | Some configuration \<Rightarrow> rbind (fork_store c (sv_value configuration) acc1) (\<lambda>acc.
           rbind (laneState branch) (\<lambda>l.
           rbind (fork_store l (SLane \<lparr>ls_currentOperationId = None, ls_lastOperationId = None, ls_inbox = []\<rparr>) acc)
             (\<lambda>acc. fork_tips source tips acc)))) = Inr acc'"
    by (auto simp: p rbind_eq_Inr)
  show ?case
  proof (cases "findStoredValue source c")
    case None
    with c(4) have "fork_tips source tips acc1 = Inr acc'" by simp
    from Cons.IH [OF this] forked_store [OF c(3)] lane_namespaces(1) [OF c(2)] show ?thesis
      by (auto simp: forked_value_ok_def)
  next
    case (Some configuration)
    with c(4) obtain l acc2 acc3 where l: "fork_store c (sv_value configuration) acc1 = Inr acc2" "laneState branch = Inr l"
        "fork_store l idle_lane acc2 = Inr acc3" "fork_tips source tips acc3 = Inr acc'"
      by (auto simp: rbind_eq_Inr idle_lane_def)
    from Cons.IH [OF l(4)] forked_store [OF c(3)] forked_store [OF l(1)] forked_store [OF l(3)]
      lane_namespaces(1) [OF c(2)] lane_namespaces(2) [OF c(1)] lane_namespaces(3) [OF l(2)]
    show ?thesis by (auto simp: forked_value_ok_def)
  qed
qed simp

lemma copied_value_ok:
  assumes "classifyForkAddress (sv_address w) scope copied = Inr Copy" "a_namespace (sv_address v) = a_namespace (sv_address w)"
    "a_key (sv_address v) = a_key (sv_address w)"
  shows "forked_value_ok scope copied v"
  using assms by (auto simp: classifyForkAddress_def forked_value_ok_def Let_def split: if_splits)

lemma fork_values_values:
  "fork_values scope ids vs acc = Inr acc' \<Longrightarrow>
     \<exists>new. fst acc' = fst acc @ new \<and> (\<forall>v\<in>set new. forked_value_ok scope (\<lambda>i. i \<in> set ids) v)"
proof (induction vs arbitrary: acc)
  case (Cons w vs)
  from Cons.prems obtain d where d: "classifyForkAddress (sv_address w) scope (\<lambda>i. i \<in> set ids) = Inr d" by (auto simp: rbind_eq_Inr)
  show ?case
  proof (cases "d = Copy")
    case True
    with Cons.prems d obtain acc1 where acc1: "fork_store (sv_address w) (sv_value w) acc = Inr acc1" "fork_values scope ids vs acc1 = Inr acc'"
      by (auto simp: rbind_eq_Inr)
    from Cons.IH [OF acc1(2)] forked_store [OF acc1(1)] copied_value_ok [OF d [unfolded True]] show ?thesis by fastforce
  next
    case False
    with Cons.prems d have "fork_values scope ids vs acc = Inr acc'" by (auto simp: rbind_eq_Inr)
    from Cons.IH [OF this] show ?thesis .
  qed
qed simp


section \<open>The properties\<close>

text \<open>A session with a configured lane whose branch has two entries, and one with an open operation beside it.\<close>

definition sample_config :: lane_configuration where
  "sample_config = \<lparr>lc_model = \<lparr>mr_provider = js ''p'', mr_modelId = js ''m''\<rparr>, lc_thinkingLevel = TOff, lc_activeToolNames = []\<rparr>"

definition lane_writes :: "store_write list" where
  "lane_writes = [WEntry (sample_entry ''a'' None), WEntry (sample_entry ''b'' (Some ''a'')),
     WValueSet (js ''phi.branch.tip'') (js ''main'') (STip (Some (js ''b''))),
     WValueSet (js ''phi.lane.config'') (js ''main'') (SConfig sample_config),
     WValueSet (js ''phi.lane.state'') (js ''main'')
       (SLane \<lparr>ls_currentOperationId = Some (js ''op''), ls_lastOperationId = None, ls_inbox = []\<rparr>),
     WValueSet (js ''phi.result'') (js ''op0'') (SText (js ''r''))]"

definition lane_prepared :: prepared_commit where
  "lane_prepared = prepareStorageCommit lane_writes 1 7"

definition lane_session :: storage_state where
  "lane_session = fst (applyValidated new_storage_state (pc_writes lane_prepared))"

lemmas lane_sample_defs = lane_session_def lane_prepared_def lane_writes_def

lemma lane_session_reachable: "storage_reachable lane_session"
proof -
  have "prepareCommit new_storage_state lane_writes 7 = Inr lane_prepared"
    by (simp add: prepareCommit_def validateCommitted_def validateCommittedWrites_def lane_prepared_def lane_writes_def
        prepareStorageCommit_def sample_entry_def new_storage_state_def Let_def)
  from storage_reachable.commit [OF storage_reachable.init this] show ?thesis by (simp add: lane_session_def)
qed

lemma lane_session_entries:
  "s_entries lane_session =
     [(js ''a'', materializeCommittedEntry (sample_entry ''a'' None) 1 7),
      (js ''b'', materializeCommittedEntry (sample_entry ''b'' (Some ''a'')) 2 7)]"
  by (simp add: lane_sample_defs sample_entry_def materializeCommittedEntry_def prepareStorageCommit_def new_storage_state_def
      value_address_def validateAddress_def js_nonzero physicalKey_def Let_def entry_type_of_def)

lemma physicalKey_js:
  "CHR 0x00 \<notin> set a \<Longrightarrow> CHR 0x00 \<notin> set b \<Longrightarrow>
     physicalKey (js a) (js b) = physicalKey (js c) (js d) \<longleftrightarrow> a = c \<and> b = d"
  using append_Cons_eq_iff [of 0 "js a" "js b" "js c" "js d"] by (simp add: physicalKey_def js_nonzero)

lemma lane_session_values:
  "map_values (s_scalarValues lane_session) =
     [\<lparr>sv_address = \<lparr>a_namespace = js ''phi.branch.tip'', a_key = js ''main'', a_kind = AValue\<rparr>, sv_value = STip (Some (js ''b'')), sv_seq = 3\<rparr>,
      \<lparr>sv_address = \<lparr>a_namespace = js ''phi.lane.config'', a_key = js ''main'', a_kind = AValue\<rparr>, sv_value = SConfig sample_config, sv_seq = 4\<rparr>,
      \<lparr>sv_address = \<lparr>a_namespace = js ''phi.lane.state'', a_key = js ''main'', a_kind = AValue\<rparr>,
        sv_value = SLane \<lparr>ls_currentOperationId = Some (js ''op''), ls_lastOperationId = None, ls_inbox = []\<rparr>, sv_seq = 5\<rparr>,
      \<lparr>sv_address = \<lparr>a_namespace = js ''phi.result'', a_key = js ''op0'', a_kind = AValue\<rparr>, sv_value = SText (js ''r''), sv_seq = 6\<rparr>]"
  by (simp add: lane_sample_defs sample_entry_def prepareStorageCommit_def new_storage_state_def map_values_def
      value_address_def validateAddress_def js_nonzero physicalKey_js Let_def entry_type_of_def)

lemma lane_session_fork:
  "createForkSnapshot (source_of lane_session) (ForkBranch (js ''main'') (Some (js ''b'')) (Some PositionBefore) None) =
     Inr \<lparr>fd_entries = [(js ''a'', materializeCommittedEntry (sample_entry ''a'' None) 1 7)],
          fd_scalarValues =
            [\<lparr>sv_address = \<lparr>a_namespace = js ''phi.branch.tip'', a_key = js ''main'', a_kind = AValue\<rparr>, sv_value = STip (Some (js ''a'')), sv_seq = 2\<rparr>,
             \<lparr>sv_address = \<lparr>a_namespace = js ''phi.lane.config'', a_key = js ''main'', a_kind = AValue\<rparr>, sv_value = SConfig sample_config, sv_seq = 3\<rparr>,
             \<lparr>sv_address = \<lparr>a_namespace = js ''phi.lane.state'', a_key = js ''main'', a_kind = AValue\<rparr>, sv_value = idle_lane, sv_seq = 4\<rparr>],
          fd_nextSeq = 5\<rparr>"
proof -
  let ?a = "materializeCommittedEntry (sample_entry ''a'' None) 1 7" and ?b = "materializeCommittedEntry (sample_entry ''b'' (Some ''a'')) 2 7"
  have ok: "storage_ok lane_session" by (rule storage_reachable_ok [OF lane_session_reachable])
  have ab: "ne_id ?a = js ''a''" "ne_parentId ?a = None" "ne_id ?b = js ''b''" "ne_parentId ?b = Some (js ''a'')" "e_seq ?a = 1"
    by (simp_all add: materializeCommittedEntry_def sample_entry_def)
  have walk: "select_walk (s_entries lane_session) (Some (js ''b'')) (Some PositionBefore) (Some (js ''b'')) False None [] =
      Some (Inr (True, Some (js ''a''), [js ''a'']))"
    by (subst select_walk_path [where e = ?b and es = "[?a]"]) (simp_all add: lane_session_entries ab set_add_def)
  note vals = source_values [of lane_session, unfolded lane_session_values]
  show ?thesis
    using walk
    by (simp add: createForkSnapshot_def source_entries(2) [OF ok] vals branchTip_def laneConfig_def laneState_def value_address_def
        validateAddress_def js_nonzero storedValuesInNamespace_def validateForkSourceSnapshot_def check_tip_def findStoredValue_def
        tip_value_def selectForkContents_def scope_of_def fork_store_def classifyForkAddress_def map_values_def idle_lane_def
        lane_session_entries ab Let_def)
qed

text \<open>
  C10. Whenever a fork of a reachable session succeeds, the writes it produces are accepted by a new storage and applied in
  full: the result is again a reachable state, its entries are the selected ones, each identical to the source's, and
  its next sequence number is the one the snapshot announces.
\<close>

theorem fork_valid:
  assumes "storage_reachable s" and "createForkSnapshot (source_of s) options = Inr d"
  shows "validateCommitted new_storage_state (forkSnapshotWrites d) = Inr () \<and>
    (\<exists>s'. applyValidated new_storage_state (forkSnapshotWrites d) = (s', Inr (s_stats s')) \<and> storage_reachable s' \<and>
       s_nextSeq s' = fd_nextSeq d \<and> map_of (s_entries s') = map_of (fd_entries d) \<and>
       (\<forall>i e. map_of (s_entries s') i = Some e \<longrightarrow> map_of (s_entries s) i = Some e))"
proof -
  note ok = storage_reachable_ok [OF assms(1)]
  have d: "snapshot_ok s d" by (rule createForkSnapshot_ok [OF ok assms(2)])
  obtain s' where s': "applyValidated new_storage_state (forkSnapshotWrites d) = (s', Inr (s_stats s'))"
      "storage_reachable s'" "map_of (s_entries s') = map_of (fd_entries d)" "s_nextSeq s' = fd_nextSeq d"
    by (rule fork_applies [OF ok d])
  have "map_of (s_entries s) i = Some e" if "map_of (s_entries s') i = Some e" for i e
  proof -
    from d obtain ids where ids: "selection_ok s ids" "fd_entries d = map (\<lambda>i. (i, the (map_of (s_entries s) i))) ids"
      by (auto simp: snapshot_ok_def)
    from that have "i \<in> set ids" "e = the (map_of (s_entries s) i)" by (auto simp: s'(3) ids(2) dest!: map_of_SomeD)
    with ids(1) show ?thesis by (auto simp: selection_ok_def dest!: bspec)
  qed
  with s' fork_writes_valid [OF ok d] show ?thesis by blast
qed

theorem fork_valid_witness:
  "\<exists>d. createForkSnapshot (source_of lane_session) (ForkBranch (js ''main'') (Some (js ''b'')) (Some PositionBefore) None) = Inr d \<and>
     validateCommitted new_storage_state (forkSnapshotWrites d) = Inr ()"
  using fork_valid [OF lane_session_reachable lane_session_fork] lane_session_fork by blast

text \<open>
  C38. A fork carries no operational state: none of its values lies in the operation, pending or result namespaces, every
  lane state is idle, labels belong to copied entries, and a branch fork copies nothing from application
  namespaces. This holds for any source.
\<close>

theorem fork_no_operational_state:
  assumes "createForkSnapshot source options = Inr d"
  shows "\<forall>v\<in>set (fd_scalarValues d). forked_value_ok (scope_of options) (\<lambda>i. has_key (fd_entries d) i) v"
proof -
  obtain m ids dtips n acc1 acc where
    acc1: "fork_tips (fs_scalarValues source) dtips ([], n) = Inr acc1" and
    acc: "fork_values (scope_of options) ids (fs_scalarValues source) acc1 = Inr acc" and
    d: "d = \<lparr>fd_entries = foldl (\<lambda>m' i. AList.update i (the (map_of m i)) m') [] ids, fd_scalarValues = fst acc, fd_nextSeq = snd acc\<rparr>"
    using assms by (auto simp: createForkSnapshot_def Let_def rbind_eq_Inr)
  have "has_key (foldl (\<lambda>m' i. AList.update i (the (map_of m i)) m') acc ids) i \<longleftrightarrow> has_key acc i \<or> i \<in> set ids" for acc i
    by (induction ids arbitrary: acc) auto
  from this [of "[]"] have keys: "(\<lambda>i. has_key (fd_entries d) i) = (\<lambda>i. i \<in> set ids)" by (simp add: d)
  obtain new1 where "fst acc1 = new1" "\<forall>v\<in>set new1. forked_value_ok (scope_of options) (\<lambda>i. i \<in> set ids) v"
    using fork_tips_values [OF acc1] by auto
  moreover obtain new2 where "fst acc = fst acc1 @ new2" "\<forall>v\<in>set new2. forked_value_ok (scope_of options) (\<lambda>i. i \<in> set ids) v"
    using fork_values_values [OF acc] by auto
  moreover have "fd_scalarValues d = fst acc" by (simp add: d)
  ultimately show ?thesis unfolding keys by auto
qed

theorem fork_no_operational_state_witness:
  "\<exists>d. createForkSnapshot (source_of lane_session) (ForkBranch (js ''main'') (Some (js ''b'')) (Some PositionBefore) None) = Inr d \<and>
     (\<forall>v\<in>set (fd_scalarValues d). forked_value_ok ScopeBranch (\<lambda>i. has_key (fd_entries d) i) v)"
  using fork_no_operational_state [OF lane_session_fork] lane_session_fork by (auto simp: scope_of_def)

lemma find_unique:
  assumes "x \<in> set xs" "P x" "\<And>y. y \<in> set xs \<Longrightarrow> P y \<Longrightarrow> y = x"
  shows "List.find P xs = Some x"
proof (cases "List.find P xs")
  case None
  with assms(1,2) show ?thesis by (simp add: find_None_iff)
next
  case (Some y)
  then have "y \<in> set xs" "P y" by (auto simp: find_Some_iff)
  from assms(3) [OF this] Some show ?thesis by (simp only:)
qed

lemma find_value:
  assumes ok: "storage_ok s" and v: "getValue s a = Some v"
  shows "List.find (\<lambda>w. a_key (sv_address w) = a_key a) (filter (\<lambda>w. a_namespace (sv_address w) = a_namespace a) (map_values (s_scalarValues s))) = Some v"
proof -
  have d: "distinct (keys (s_scalarValues s))" and k: "\<forall>(k, v)\<in>set (s_scalarValues s). scalar_ok (s_nextSeq s) k v"
    using ok by (auto simp: storage_ok_def values_ok_def)
  have key: "w \<in> set (map_values (s_scalarValues s)) \<Longrightarrow>
      map_of (s_scalarValues s) (physicalKey (a_namespace (sv_address w)) (a_key (sv_address w))) = Some w" for w
    using k d by (fastforce simp: map_values_def scalar_ok_def)
  have v': "map_of (s_scalarValues s) (physicalKey (a_namespace a) (a_key a)) = Some v" using v by (simp add: getValue_def)
  from map_of_SomeD [OF this] k have ph: "physicalKey (a_namespace a) (a_key a) = physicalKey (a_namespace (sv_address v)) (a_key (sv_address v))"
      "valid_address (a_namespace (sv_address v)) (a_key (sv_address v))"
    by (auto simp: scalar_ok_def)
  then have "a_namespace a = a_namespace (sv_address v)" "a_key a = a_key (sv_address v)"
    using physicalKey_inject2 [OF ph(2)] by metis+
  note a = this
  show ?thesis
  proof (rule find_unique)
    show "v \<in> set (filter (\<lambda>w. a_namespace (sv_address w) = a_namespace a) (map_values (s_scalarValues s)))"
      using map_of_SomeD [OF v'] a by (auto simp: map_values_def intro: rev_image_eqI)
    show "a_key (sv_address v) = a_key a" using a by simp
    show "w = v" if "w \<in> set (filter (\<lambda>w. a_namespace (sv_address w) = a_namespace a) (map_values (s_scalarValues s)))"
        "a_key (sv_address w) = a_key a" for w
      using key [of w] that v' by simp
  qed
qed

lemma fork_tips_tip:
  assumes "fork_tips source [(b, t)] ([], n) = Inr acc"
  shows "\<exists>v\<in>set (fst acc). a_namespace (sv_address v) = js ''phi.branch.tip'' \<and> a_key (sv_address v) = b \<and> sv_value v = STip t"
  using assms by (auto simp: rbind_eq_Inr split: option.splits dest!: forked_store lane_namespaces)

text \<open>
  C39. A branch fork at an entry on the branch keeps exactly the path from that entry to the root (without the entry itself
  when the position is before it), and its branch tip is that entry or its parent.
\<close>

theorem fork_branch_path:
  assumes "storage_reachable s" and "createForkSnapshot (source_of s) (ForkBranch b (Some (ne_id x)) position d) = Inr f"
    and "getValue s \<lparr>a_namespace = js ''phi.branch.tip'', a_key = b, a_kind = AValue\<rparr> = Some tip" and "tip_value tip = Some i"
    and "map_of (s_entries s) i = Some e" and "parent_path (s_entries s) path" and "hd path = e" and "path = before @ x # after"
  shows "keys (fd_entries f) = map ne_id (if position = Some PositionBefore then after else x # after) \<and>
    (\<exists>v\<in>set (fd_scalarValues f). a_namespace (sv_address v) = js ''phi.branch.tip'' \<and> a_key (sv_address v) = b \<and>
       sv_value v = STip (if position = Some PositionBefore then ne_parentId x else Some (ne_id x)))"
proof -
  note ok = storage_reachable_ok [OF assms(1)]
  let ?tips = "filter (\<lambda>v. a_namespace (sv_address v) = js ''phi.branch.tip'') (map_values (s_scalarValues s))"
  let ?t = "if position = Some PositionBefore then ne_parentId x else Some (ne_id x)"
  have tips: "List.find (\<lambda>v. a_key (sv_address v) = b) ?tips = Some tip"
    using find_value [OF ok assms(3)] by simp
  have tp: "branchTip [] = Inr \<lparr>a_namespace = js ''phi.branch.tip'', a_key = [], a_kind = AValue\<rparr>"
    by (simp add: branchTip_def value_address_eq_Inr valid_address_def js_nonzero)
  note sel = select_branch [OF ok tips assms(4-8), of position d]
  let ?ids = "map ne_id (if position = Some PositionBefore then after else x # after)"
  obtain n acc1 acc where acc1: "fork_tips (fs_scalarValues (source_of s)) [(b, ?t)] ([], n) = Inr acc1"
    and acc: "fork_values ScopeBranch ?ids (fs_scalarValues (source_of s)) acc1 = Inr acc"
    and f: "f = \<lparr>fd_entries = foldl (\<lambda>m i. AList.update i (the (map_of (s_entries s) i)) m) [] ?ids, fd_scalarValues = fst acc, fd_nextSeq = snd acc\<rparr>"
    using assms(2) by (auto simp: createForkSnapshot_def Let_def rbind_eq_Inr source_entries(2) [OF ok] tp storedValuesInNamespace_def
        source_values sel scope_of_def simp del: map_map fork_tips.simps)
  obtain es where es: "distinct (map ne_id (e # es))" "parent_path (s_entries s) (e # es)" by (rule entry_path [OF ok assms(5)])
  have "path = e # es" using assms(6,7) es(2) by (cases path) (auto dest: parent_path_unique)
  then have "distinct (map ne_id (before @ x # after))" using es(1) assms(8) by (simp only:)
  then have "distinct ?ids" by simp
  then have "foldl (\<lambda>m i. AList.update i (the (map_of (s_entries s) i)) m) [] ?ids = [] @ map (\<lambda>i. (i, the (map_of (s_entries s) i))) ?ids"
    by (intro foldl_update_fresh [where f = "\<lambda>i. i"]) simp_all
  then have "keys (fd_entries f) = ?ids" by (simp add: f comp_def)
  moreover from fork_tips_tip [OF acc1] fork_values_values [OF acc] have "\<exists>v\<in>set (fd_scalarValues f).
      a_namespace (sv_address v) = js ''phi.branch.tip'' \<and> a_key (sv_address v) = b \<and> sv_value v = STip ?t"
    by (force simp: f)
  ultimately show ?thesis by blast
qed

theorem fork_branch_path_witness:
  "\<exists>f. createForkSnapshot (source_of lane_session) (ForkBranch (js ''main'') (Some (js ''b'')) (Some PositionBefore) None) = Inr f \<and>
     keys (fd_entries f) = [js ''a'']"
proof -
  let ?a = "materializeCommittedEntry (sample_entry ''a'' None) 1 7" and ?b = "materializeCommittedEntry (sample_entry ''b'' (Some ''a'')) 2 7"
  let ?tip = "\<lparr>sv_address = \<lparr>a_namespace = js ''phi.branch.tip'', a_key = js ''main'', a_kind = AValue\<rparr>, sv_value = STip (Some (js ''b'')), sv_seq = 3\<rparr>"
  have ab: "ne_id ?a = js ''a''" "ne_parentId ?a = None" "ne_id ?b = js ''b''" "ne_parentId ?b = Some (js ''a'')"
    by (simp_all add: materializeCommittedEntry_def sample_entry_def)
  have ok: "storage_ok lane_session" by (rule storage_reachable_ok [OF lane_session_reachable])
  have "?tip \<in> set (scanValues lane_session \<lparr>a_namespace = js ''phi.branch.tip'', a_key = [], a_kind = AValue\<rparr>)"
    by (simp add: scanValues_def lane_session_values)
  then have tip: "getValue lane_session \<lparr>a_namespace = js ''phi.branch.tip'', a_key = js ''main'', a_kind = AValue\<rparr> = Some ?tip"
    by (simp add: scanValues_members [OF ok])
  obtain f where f: "createForkSnapshot (source_of lane_session) (ForkBranch (js ''main'') (Some (js ''b'')) (Some PositionBefore) None) = Inr f"
    using lane_session_fork by blast
  with fork_branch_path [OF lane_session_reachable, of "js ''main''" ?b "Some PositionBefore" None f ?tip "js ''b''" ?b "[?b, ?a]" "[]" "[?a]"]
    tip ab show ?thesis by (simp add: tip_value_def lane_session_entries)
qed

end
