(* ===== verification/Session_Core_Props.thy ===== *)
theory Session_Core_Props
  imports Session_Core Session_Fork_Props
begin

text \<open>
  The properties of sessions, proved for every storage that obeys the law of \<open>session_storage\<close> and stated for
  the memory storage: appending extends the branch by one entry and leaves the others alone.
\<close>

section \<open>Reading a branch from its tip\<close>

definition oldest_first :: branch_scan where
  "oldest_first =
     \<lparr>bq_start = [], bq_stopAtType = None, bq_stopAtId = None, bq_type = None, bq_customType = None,
      bq_order = Some OldestFirst, bq_limit = None, bq_cursor = None\<rparr>"

lemma oldest_first_query: "oldest_first\<lparr>bq_start := i, bq_order := Some OldestFirst\<rparr> = full_query i"
  by (simp add: oldest_first_def full_query_def)

lemma scan_full: "scan_path (full_query i) path = rev path"
  using stop_after_none [of "rev path" "\<lambda>_. False"] by (simp add: scan_path_def full_query_def take_limit_def)

lemma getValue_abs:
  "map_option (\<lambda>v. (sv_value v, sv_seq v)) (getValue s a) = st_values (abs_store s) (a_namespace a, a_key a)"
  by (simp add: getValue_def abs_store_def)

text \<open>The path of a tip: empty for the root, else from the tip to the root.\<close>

definition tip_path :: "storage_state \<Rightarrow> jstring option \<Rightarrow> entry list \<Rightarrow> bool" where
  "tip_path s tip path \<longleftrightarrow>
     (case tip of None \<Rightarrow> path = []
      | Some i \<Rightarrow> parent_path (s_entries s) path \<and> map_of (s_entries s) i = Some (hd path))"

lemma tip_path_exists:
  assumes "storage_reachable s" "\<forall>i. tip = Some i \<longrightarrow> has_key (s_entries s) i"
  shows "\<exists>path. tip_path s tip path"
proof (cases tip)
  case (Some i)
  with assms(2) obtain e where e: "map_of (s_entries s) i = Some e" by auto
  obtain es where "parent_path (s_entries s) (e # es)" by (rule entry_path [OF storage_reachable_ok [OF assms(1)] e])
  with Some e show ?thesis by (auto simp: tip_path_def intro!: exI [of _ "e # es"])
qed (simp add: tip_path_def)

lemma parent_path_extend:
  "parent_path m path \<Longrightarrow> (\<And>i e. map_of m i = Some e \<Longrightarrow> map_of m' i = Some e) \<Longrightarrow> parent_path m' path"
  by (induction m path rule: parent_path.induct) auto

lemma scan_tip_path:
  assumes "storage_reachable s" "tip_path s (Some i) path"
  shows "scanBranch s (full_query i) = Inr (rev path)"
proof -
  have p: "parent_path (s_entries s) path" "map_of (s_entries s) (bq_start (full_query i)) = Some (hd path)"
    using assms(2) by (auto simp: tip_path_def full_query_def)
  from scanBranch_path [OF storage_reachable_ok [OF assms(1)] p(2)] obtain es where
    es: "scanBranch s (full_query i) = Inr (scan_path (full_query i) (hd path # es))" "parent_path (s_entries s) (hd path # es)" by blast
  have "path = hd path # es" using p(1) es(2) by (cases path) (auto dest: parent_path_unique)
  with es(1) show ?thesis by (simp add: scan_full)
qed

section \<open>Appending, for any lawful storage\<close>

lemma mutate_ok:
  assumes "mutate se f = (se', Inr x)"
  obtains m where "se_state se = IsOpen" "f (new_mutation (se_storage se)) = (m, Inr x)" "se' = se\<lparr>se_storage := mu_storage m\<rparr>"
  using assms by (auto simp: mutate_def assertOpen_def mutation_end_def split: if_splits prod.splits)

lemma mutation_commit_new:
  "mutation_commit ops (new_mutation st) ws now = (m, Inr r) \<Longrightarrow> so_commit ops st ws now = (mu_storage m, Inr r)"
  by (auto simp: mutation_commit_def new_mutation_def split: if_splits prod.splits)

context session_storage
begin

text \<open>What an accepted append has committed.\<close>

lemma append_commits:
  assumes r: "ready (se_storage se)" and ap: "session_appendToBranch ops se name entry i now = (se', Inr j)"
  obtains a t cr where "branchTip name = Inr a" "getValue (view (se_storage se)) a = Some t" "j = i" "se_state se' = IsOpen" "ready (se_storage se')"
    "commit_job (view (se_storage se)) [insertEntry (branch_new_entry entry i (tip_value t)), setValue a (STip (Some i))] now =
       (view (se_storage se'), Inr cr)"
proof -
  from ap obtain f where f: "mutate se f = (se', Inr j)" "f = (\<lambda>m. with_read m (branchTip name) (\<lambda>address.
            with_read m (mutation_getValue ops m address) (\<lambda>tip.
              case tip of
                None \<Rightarrow> (m, Inl (UnknownBranch name))
              | Some t \<Rightarrow>
                  (case mutation_commit ops m
                      [insertEntry (branch_new_entry entry i (tip_value t)), setValue address (STip (Some i))] now of
                     (m', r) \<Rightarrow> (m', rbind r (\<lambda>_. Inr i))))))"
    by (auto simp: session_appendToBranch_def split: sum.splits if_splits)
  obtain m where m: "se_state se = IsOpen" "f (new_mutation (se_storage se)) = (m, Inr j)" "se' = se\<lparr>se_storage := mu_storage m\<rparr>"
    by (rule mutate_ok [OF f(1)])
  have read: "mutation_getValue ops (new_mutation (se_storage se)) a = Inr (getValue (view (se_storage se)) a)" for a
    by (simp add: mutation_getValue_def new_mutation_def getValue_ok [OF r])
  from m(2) obtain a t cr where a: "branchTip name = Inr a" "getValue (view (se_storage se)) a = Some t" "j = i"
      "mutation_commit ops (new_mutation (se_storage se))
        [insertEntry (branch_new_entry entry i (tip_value t)), setValue a (STip (Some i))] now = (m, Inr cr)"
    by (auto simp: f(2) with_read_def read rbind_eq_Inr split: sum.splits option.splits prod.splits)
  have "so_commit ops (se_storage se) [insertEntry (branch_new_entry entry i (tip_value t)), setValue a (STip (Some i))] now = (mu_storage m, Inr cr)"
    by (rule mutation_commit_new [OF a(4)])
  from commit_ok [OF r this] a m that show thesis by simp
qed

lemma append_store:
  assumes r: "ready (se_storage se)" and ap: "session_appendToBranch ops se name entry i now = (se', Inr j)"
  obtains a t where "branchTip name = Inr a" "getValue (view (se_storage se)) a = Some t" "j = i" "se_state se' = IsOpen" "ready (se_storage se')"
    "map_of (s_entries (view (se_storage se))) i = None"
    "\<forall>p. tip_value t = Some p \<longrightarrow> has_key (s_entries (view (se_storage se))) p"
    "abs_store (view (se_storage se')) =
       (abs_store (view (se_storage se)))
         \<lparr>st_entries := (st_entries (abs_store (view (se_storage se))))
            (i \<mapsto> materializeCommittedEntry (branch_new_entry entry i (tip_value t)) (s_nextSeq (view (se_storage se))) now),
          st_values := (st_values (abs_store (view (se_storage se))))
            ((js ''phi.branch.tip'', name) \<mapsto> (STip (Some i), s_nextSeq (view (se_storage se)) + 1))\<rparr>"
proof -
  let ?s = "view (se_storage se)"
  obtain a t cr where a: "branchTip name = Inr a" "getValue ?s a = Some t" "j = i" "se_state se' = IsOpen" "ready (se_storage se')"
    "commit_job ?s [insertEntry (branch_new_entry entry i (tip_value t)), setValue a (STip (Some i))] now = (view (se_storage se'), Inr cr)"
    by (rule append_commits [OF r ap])
  let ?e = "branch_new_entry entry i (tip_value t)"
  have ne: "ne_id ?e = i" "ne_parentId ?e = tip_value t" by (auto simp: branch_new_entry_def split: branch_entry.splits)
  have "is_ok (prepareCommit ?s [insertEntry ?e, setValue a (STip (Some i))] now)"
    using a(6) by (cases "prepareCommit ?s [insertEntry ?e, setValue a (STip (Some i))] now") (auto simp: commit_job_def split: prod.splits)
  then have fresh: "map_of (s_entries ?s) i = None" "\<forall>p. tip_value t = Some p \<longrightarrow> has_key (s_entries ?s) p"
    unfolding prepareCommit_ok_iff by (simp_all add: insertEntry_def setValue_def ne parents_before_Cons)
  have "abs_store (view (se_storage se')) = foldl spec_write (abs_store ?s) (commit_writes [insertEntry ?e, setValue a (STip (Some i))] (s_nextSeq ?s) now)"
    by (rule commit_job_ok(2) [OF view_reachable [OF r] a(6)])
  then have "abs_store (view (se_storage se')) = (abs_store ?s)
      \<lparr>st_entries := (st_entries (abs_store ?s))(i \<mapsto> materializeCommittedEntry ?e (s_nextSeq ?s) now),
       st_values := (st_values (abs_store ?s))((js ''phi.branch.tip'', name) \<mapsto> (STip (Some i), s_nextSeq ?s + 1))\<rparr>"
    using lane_namespaces(1) [OF a(1)] by (simp add: insertEntry_def setValue_def materializeCommittedEntry_def ne)
  from that [OF a(1-5) fresh this] show thesis .
qed

text \<open>
  The branch read after an append is the branch before it with the new entry at the end, and every other address keeps its value.
\<close>

lemma append_extends:
  assumes r: "ready (se_storage se)" and ap: "session_appendToBranch ops se name entry i now = (se', Inr j)"
  shows "j = i \<and> ready (se_storage se') \<and> session_getBranchTip ops se' name = Inr (Some i) \<and>
    (\<exists>old t. branch_findEntries ops se name None oldest_first = Inr old \<and> session_getBranchTip ops se name = Inr t \<and>
       branch_findEntries ops se' name None oldest_first =
         Inr (old @ [materializeCommittedEntry (branch_new_entry entry i t) (s_nextSeq (view (se_storage se))) now])) \<and>
    (\<forall>a. (a_namespace a, a_key a) \<noteq> (js ''phi.branch.tip'', name) \<longrightarrow>
       map_option sv_value (getValue (view (se_storage se')) a) = map_option sv_value (getValue (view (se_storage se)) a))"
proof -
  let ?s = "view (se_storage se)" and ?s' = "view (se_storage se')"
  obtain a t where a: "branchTip name = Inr a" "getValue ?s a = Some t" "j = i" "se_state se' = IsOpen" "ready (se_storage se')"
    and fresh: "map_of (s_entries ?s) i = None" "\<forall>p. tip_value t = Some p \<longrightarrow> has_key (s_entries ?s) p"
    and abs: "abs_store ?s' = (abs_store ?s)
       \<lparr>st_entries := (st_entries (abs_store ?s))(i \<mapsto> materializeCommittedEntry (branch_new_entry entry i (tip_value t)) (s_nextSeq ?s) now),
        st_values := (st_values (abs_store ?s))((js ''phi.branch.tip'', name) \<mapsto> (STip (Some i), s_nextSeq ?s + 1))\<rparr>"
    by (rule append_store [OF r ap])
  let ?e = "materializeCommittedEntry (branch_new_entry entry i (tip_value t)) (s_nextSeq ?s) now"
  note adr = lane_namespaces(1) [OF a(1)]
  have open1: "se_state se = IsOpen"
    using ap by (auto simp: session_appendToBranch_def assertOpen_def split: if_splits)
  have ne: "ne_parentId ?e = tip_value t"
    by (auto simp: branch_new_entry_def materializeCommittedEntry_def split: branch_entry.splits)
  have vals: "map_option (\<lambda>v. (sv_value v, sv_seq v)) (getValue ?s' b) =
      (if (a_namespace b, a_key b) = (js ''phi.branch.tip'', name) then Some (STip (Some i), s_nextSeq ?s + 1)
       else map_option (\<lambda>v. (sv_value v, sv_seq v)) (getValue ?s b))" for b
    unfolding getValue_abs abs by simp
  have "map_option sv_value (getValue s b) = map_option fst (map_option (\<lambda>v. (sv_value v, sv_seq v)) (getValue s b))" for s b
    by (cases "getValue s b") simp_all
  then have frame: "map_option sv_value (getValue ?s' b) = map_option sv_value (getValue ?s b)"
    if "(a_namespace b, a_key b) \<noteq> (js ''phi.branch.tip'', name)" for b
    using vals [of b] that by auto
  obtain t' where t': "getValue ?s' a = Some t'" "sv_value t' = STip (Some i)" using vals [of a] adr by auto
  have tip': "session_getBranchTip ops se' name = Inr (Some i)"
    using a t' by (simp add: session_getBranchTip_def session_getValue_def assertOpen_def getValue_ok tip_value_def)
  have tip: "session_getBranchTip ops se name = Inr (tip_value t)"
    using a(1,2) open1 by (simp add: session_getBranchTip_def session_getValue_def assertOpen_def getValue_ok [OF r])
  have entries: "map_of (s_entries ?s') = (map_of (s_entries ?s))(i \<mapsto> ?e)"
    using arg_cong [OF abs, of st_entries] by (simp add: abs_store_def)
  obtain path where path: "tip_path ?s (tip_value t) path" using tip_path_exists [OF view_reachable [OF r] fresh(2)] by blast
  have "tip_path ?s' (Some i) (?e # path)"
  proof (cases "tip_value t")
    case None
    with path ne show ?thesis by (simp add: tip_path_def entries)
  next
    case (Some p)
    with path obtain x xs where x: "path = x # xs" "parent_path (s_entries ?s) (x # xs)" "map_of (s_entries ?s) p = Some x"
      by (cases path) (auto simp: tip_path_def)
    have "parent_path (s_entries ?s') (x # xs)"
      by (rule parent_path_extend [OF x(2)]) (use fresh(1) in \<open>auto simp: entries\<close>)
    moreover have "p \<noteq> i" using x(3) fresh(1) by auto
    ultimately show ?thesis using x ne Some by (simp add: tip_path_def entries)
  qed
  then have new: "scanBranch ?s' (full_query i) = Inr (rev path @ [?e])"
    using scan_tip_path [OF view_reachable [OF a(5)]] by fastforce
  have read': "branch_findEntries ops se' name None oldest_first = Inr (rev path @ [?e])"
    using new a(4,5) by (simp add: branch_findEntries_def tip' session_scanBranch_def assertOpen_def scanBranch_ok oldest_first_query
        oldest_first_def full_query_def)
  have "branch_findEntries ops se name None oldest_first = Inr (rev path)"
  proof (cases "tip_value t")
    case None
    with path tip show ?thesis by (simp add: branch_findEntries_def tip_path_def)
  next
    case (Some p)
    then have "scanBranch ?s (full_query p) = Inr (rev path)" using scan_tip_path [OF view_reachable [OF r]] path by simp
    with Some tip open1 r show ?thesis
      by (simp add: branch_findEntries_def session_scanBranch_def assertOpen_def scanBranch_ok oldest_first_def full_query_def)
  qed
  with a(3,5) tip' tip read' frame show ?thesis by blast
qed

end

section \<open>The properties\<close>

text \<open>
  C20. A successful append to a branch of a session extends the branch by exactly that entry: the tip is the new id, the branch read
  from the root is the old branch followed by the new entry with the old tip as its parent, and no value at another address
  changes. This holds for every storage that obeys the law; here for the memory storage.
\<close>

theorem append_extends_branch:
  assumes "memory_ready (se_storage se)" and "session_appendToBranch memory_ops se name entry i now = (se', Inr j)"
  shows "j = i \<and> memory_ready (se_storage se') \<and> session_getBranchTip memory_ops se' name = Inr (Some i) \<and>
    (\<exists>old t. branch_findEntries memory_ops se name None oldest_first = Inr old \<and> session_getBranchTip memory_ops se name = Inr t \<and>
       branch_findEntries memory_ops se' name None oldest_first =
         Inr (old @ [materializeCommittedEntry (branch_new_entry entry i t) (s_nextSeq (ms_storageState (se_storage se))) now])) \<and>
    (\<forall>a. (a_namespace a, a_key a) \<noteq> (js ''phi.branch.tip'', name) \<longrightarrow>
       map_option sv_value (getValue (ms_storageState (se_storage se')) a) = map_option sv_value (getValue (ms_storageState (se_storage se)) a))"
  by (rule memory.append_extends [OF assms])

lemma memory_append_succeeds:
  assumes "memory_ready (se_storage se)" and "se_state se = IsOpen"
    and "session_getBranchTip memory_ops se name = Inr t"
    and "\<forall>p. t = Some p \<longrightarrow> has_key (s_entries (ms_storageState (se_storage se))) p"
    and "\<not> has_key (s_entries (ms_storageState (se_storage se))) i" and "\<not> has_key (s_usage (ms_storageState (se_storage se))) i"
    and "\<forall>m. entry = BranchMessage m \<longrightarrow> \<not> stops_with StopPending m"
  shows "\<exists>se'. session_appendToBranch memory_ops se name entry i now = (se', Inr i)"
proof -
  let ?s = "ms_storageState (se_storage se)"
  have open1: "ms_state (se_storage se) = IsOpen" using assms(1) by (simp add: memory_ready_def)
  from assms(3) obtain a v where a: "branchTip name = Inr a" "getValue ?s a = Some v" "t = tip_value v"
    using assms(2) open1
    by (auto simp: session_getBranchTip_def session_getValue_def rbind_eq_Inr assertOpen_def memory_ops_def when_open_def split: option.splits)
  let ?e = "branch_new_entry entry i (tip_value v)"
  let ?ws = "[insertEntry ?e, setValue a (STip (Some i))]"
  have ne: "ne_id ?e = i" "ne_parentId ?e = tip_value v" by (auto simp: branch_new_entry_def split: branch_entry.splits)
  have "is_ok (prepareCommit ?s ?ws now)"
    unfolding prepareCommit_ok_iff using assms(4-6) a(3)
    by (simp add: insertEntry_def setValue_def ne parents_before_Cons) (simp add: parents_before_def)
  then obtain pc where pc: "prepareCommit ?s ?ws now = Inr pc" by (auto simp: is_ok_iff)
  have w: "pc_writes pc = commit_writes ?ws (s_nextSeq ?s) now" and v: "validateCommitted ?s (pc_writes pc) = Inr ()"
    using pc by (auto simp: prepareCommit_def prepareStorageCommit_def Let_def rbind_eq_Inr)
  have "valid_address (a_namespace a) (a_key a)" using a(1) by (auto simp: branchTip_def value_address_eq_Inr)
  then have "\<forall>w\<in>set (pc_writes pc). write_address_ok w" by (simp add: w insertEntry_def setValue_def)
  from applyValidated_ok [OF storage_reachable_ok v this] assms(1) obtain s' where
    s': "applyValidated ?s (pc_writes pc) = (s', Inr (s_stats s'))" by (auto simp: memory_ready_def)
  then obtain r where job: "commit_job ?s ?ws now = (s', Inr r)" using pc by (simp add: commit_job_def)
  have not_pending: "\<not> (\<exists>w\<in>set ?ws. pending_assistant_write w)"
    using assms(7) by (auto simp: pending_assistant_write_def insertEntry_def setValue_def branch_new_entry_def split: branch_entry.splits)
  have guard: "\<not> (case entry of BranchMessage m \<Rightarrow> stops_with StopPending m | BranchCustom _ _ \<Rightarrow> False)"
    using assms(7) by (auto split: branch_entry.splits)
  have commit: "mutation_commit memory_ops (new_mutation (se_storage se)) ?ws now =
      (\<lparr>mu_storage = (se_storage se)\<lparr>ms_storageState := s'\<rparr>, mu_active = True, mu_attempted = True\<rparr>, Inr r)"
    using not_pending job open1 by (simp add: mutation_commit_def new_mutation_def memory_ops_def memory_commit_def)
  have read: "mutation_getValue memory_ops (new_mutation (se_storage se)) a = Inr (Some v)"
    using a(2) open1 by (simp add: mutation_getValue_def new_mutation_def memory_ops_def when_open_def)
  show ?thesis
    using assms(2) guard a(1) commit read
    by (simp add: session_appendToBranch_def assertOpen_def mutate_def with_read_def)
qed

text \<open>
  An append succeeds whenever it should: on an open session, if the branch exists, its tip is null or a stored entry, the
  new id is fresh and the message is not a pending assistant message.
\<close>

theorem append_succeeds:
  assumes "memory_ready (se_storage se)" and "se_state se = IsOpen"
    and "session_getBranchTip memory_ops se name = Inr t"
    and "\<forall>p. t = Some p \<longrightarrow> has_key (s_entries (ms_storageState (se_storage se))) p"
    and "\<not> has_key (s_entries (ms_storageState (se_storage se))) i" and "\<not> has_key (s_usage (ms_storageState (se_storage se))) i"
    and "\<forall>m. entry = BranchMessage m \<longrightarrow> \<not> stops_with StopPending m"
  shows "\<exists>se'. session_appendToBranch memory_ops se name entry i now = (se', Inr i)"
  by (rule memory_append_succeeds [OF assms])

text \<open>A session over the storage with one configured lane.\<close>

definition sample_session :: "memory_storage session" where
  "sample_session = new_session \<lparr>sm_id = js ''s'', sm_createdAt = 0, sm_storageVersion = 1, sm_cwd = None, sm_parentSessionId = None,
     sm_legacyParentSessionPath = None\<rparr> (new_memory_storage\<lparr>ms_storageState := lane_session\<rparr>)"

lemma sample_session_ready: "memory_ready (se_storage sample_session)" "se_state sample_session = IsOpen"
  "ms_storageState (se_storage sample_session) = lane_session"
  using lane_session_reachable by (simp_all add: sample_session_def new_session_def memory_ready_def new_memory_storage_def)

lemma sample_session_tip: "session_getBranchTip memory_ops sample_session (js ''main'') = Inr (Some (js ''b''))"
proof -
  let ?tip = "\<lparr>sv_address = \<lparr>a_namespace = js ''phi.branch.tip'', a_key = js ''main'', a_kind = AValue\<rparr>, sv_value = STip (Some (js ''b'')), sv_seq = 3\<rparr>"
  have "?tip \<in> set (scanValues lane_session \<lparr>a_namespace = js ''phi.branch.tip'', a_key = [], a_kind = AValue\<rparr>)"
    by (simp add: scanValues_def lane_session_values)
  then have "getValue lane_session \<lparr>a_namespace = js ''phi.branch.tip'', a_key = js ''main'', a_kind = AValue\<rparr> = Some ?tip"
    by (simp add: scanValues_members [OF storage_reachable_ok [OF lane_session_reachable]])
  then show ?thesis
    by (simp add: session_getBranchTip_def session_getValue_def assertOpen_def sample_session_ready branchTip_def value_address_def
        validateAddress_def js_nonzero memory_ops_def when_open_def tip_value_def sample_session_ready(1) [unfolded memory_ready_def])
qed

lemma sample_session_usage: "s_usage lane_session = []"
  by (simp add: lane_sample_defs sample_entry_def prepareStorageCommit_def new_storage_state_def
      value_address_def validateAddress_def js_nonzero Let_def entry_type_of_def)

theorem append_succeeds_witness:
  "\<exists>se'. session_appendToBranch memory_ops sample_session (js ''main'') (BranchCustom (js ''note'') None) (js ''c'') 9 = (se', Inr (js ''c''))"
  by (rule append_succeeds [OF sample_session_ready(1,2) sample_session_tip])
    (simp_all add: sample_session_ready lane_session_entries sample_session_usage)

theorem append_extends_branch_witness:
  "\<exists>se' old. session_appendToBranch memory_ops sample_session (js ''main'') (BranchCustom (js ''note'') None) (js ''c'') 9 = (se', Inr (js ''c'')) \<and>
     branch_findEntries memory_ops sample_session (js ''main'') None oldest_first = Inr old \<and>
     branch_findEntries memory_ops se' (js ''main'') None oldest_first = Inr (old @ [materializeCommittedEntry
       (branch_new_entry (BranchCustom (js ''note'') None) (js ''c'') (Some (js ''b''))) (s_nextSeq lane_session) 9])"
proof -
  have "\<exists>se'. session_appendToBranch memory_ops sample_session (js ''main'') (BranchCustom (js ''note'') None) (js ''c'') 9 = (se', Inr (js ''c''))"
    by (rule memory_append_succeeds [OF sample_session_ready(1,2) sample_session_tip])
      (simp_all add: sample_session_ready lane_session_entries sample_session_usage)
  then obtain se' where ap:
    "session_appendToBranch memory_ops sample_session (js ''main'') (BranchCustom (js ''note'') None) (js ''c'') 9 = (se', Inr (js ''c''))" ..
  from append_extends_branch [OF sample_session_ready(1) ap] ap sample_session_tip show ?thesis
    by (auto simp: sample_session_ready(3))
qed

end
