(* ===== verification/Session_Repo.thy ===== *)
theory Session_Repo
  imports Session_Core_Props
begin

text \<open>
  The in-memory session repository of \<^verbatim>\<open>packages/agent/src/harness/session/memory.ts\<close>: \<^verbatim>\<open>MemorySessionRepo\<close> with its records, and the
  facades through which callers hold open sessions. A record and a facade are objects that several parties share, so they are known by their position in the list of all that were ever made,
  and a caller's facade outlives the entry of the map. A call that waits is split where it waits: a deletion, a fork, the close of a facade and of a session have a first and a last
  part, with any other steps in between, and the calls through a facade wait in line for their turn. New ids come from the options or from the generator, whose value is an argument.
  The facade's \<^verbatim>\<open>beginMutation\<close>, which hands the turn out to the caller, is not modelled.
\<close>

section \<open>Calls on a session\<close>

text \<open>The state-changing calls a facade forwards; \<open>CallMutate\<close> is a callback that commits the given writes.\<close>

datatype session_call =
    CallMutate "store_write list"
  | CallSetValue address sval
  | CallDeleteValue address
  | CallAppendList address sval
  | CallDeleteList address
  | CallSetName "jstring option"
  | CallSetLabel jstring "jstring option"
  | CallCreateBranch jstring "jstring option"
  | CallAppend jstring branch_entry jstring

text \<open>What the session checks when it is called, before the call waits for its turn.\<close>

fun call_guard :: "session_call \<Rightarrow> 's session \<Rightarrow> (session_error, unit) res" where
  "call_guard (CallSetLabel i l) se = rbind (entryLabel i) (\<lambda>_. assertOpen se)"
| "call_guard (CallCreateBranch b at) se = rbind (assertOpen se) (\<lambda>_. assertValidBranchName b)"
| "call_guard (CallAppend b e i) se =
     rbind (assertOpen se) (\<lambda>_.
       if (case e of BranchMessage m \<Rightarrow> stops_with StopPending m | BranchCustom _ _ \<Rightarrow> False) then Inl PendingAssistantMessage else Inr ())"
| "call_guard _ se = assertOpen se"

definition forget :: "'s session \<times> (session_error, 'a) res \<Rightarrow> 's session \<times> (session_error, unit) res" where
  "forget x = (fst x, rbind (snd x) (\<lambda>_. Inr ()))"

text \<open>
  The turn of a call, given the state of the facade at that time: only the callback of \<^verbatim>\<open>mutate\<close> looks at it again.
\<close>

fun run_call :: "session_call \<Rightarrow> open_state \<Rightarrow> int \<Rightarrow> memory_storage session \<Rightarrow> memory_storage session \<times> (session_error, unit) res" where
  "run_call (CallMutate ws) state now se =
     forget (mutate se (\<lambda>m. if state \<noteq> IsOpen then (m, Inl SessionClosed) else mutation_commit memory_ops m ws now))"
| "run_call (CallSetValue a v) state now se = session_setValue memory_ops se a v now"
| "run_call (CallDeleteValue a) state now se = session_deleteValue memory_ops se a now"
| "run_call (CallAppendList a v) state now se = session_appendList memory_ops se a v now"
| "run_call (CallDeleteList a) state now se = session_deleteList memory_ops se a now"
| "run_call (CallSetName n) state now se = session_setName memory_ops se n now"
| "run_call (CallSetLabel i l) state now se = session_setLabel memory_ops se i l now"
| "run_call (CallCreateBranch b at) state now se = forget (session_createBranch memory_ops se b at now)"
| "run_call (CallAppend b e i) state now se = forget (session_appendToBranch memory_ops se b e i now)"

section \<open>Records, facades and the calls under way\<close>

text \<open>\<open>sr_line\<close> holds the calls that wait on the mutation line of the session, each with the facade it came through. The storage of a record is the one its session holds.\<close>

record session_record =
  sr_metadata :: session_metadata
  sr_session :: "memory_storage session"
  sr_open :: bool
  sr_line :: "(nat \<times> session_call) list"

record facade =
  fa_metadata :: session_metadata
  fa_record :: nat
  fa_state :: open_state

text \<open>
  A deletion that passed its checks: the id, the record whose session it closes, and once it is done the record that it took from the map. A fork
  that reserved its id: what it asked for, and what the source storage answered.
\<close>

record deletion =
  dl_id :: jstring
  dl_record :: nat
  dl_done :: bool
  dl_removed :: "nat option"

record fork_call =
  fk_id :: jstring
  fk_parent :: jstring
  fk_createdAt :: int
  fk_options :: fork_options
  fk_captured :: "(session_error, fork_source) res"
  fk_done :: bool

record memory_repo =
  re_sessions :: "(jstring \<times> nat) list"
  re_pendingIds :: "jstring list"
  re_closed :: bool
  re_records :: "session_record list"
  re_facades :: "facade list"
  re_deletions :: "deletion list"
  re_forks :: "fork_call list"

definition MEMORY_STORAGE_VERSION :: int where
  "MEMORY_STORAGE_VERSION = 1"

definition new_repo :: memory_repo where
  "new_repo = \<lparr>re_sessions = [], re_pendingIds = [], re_closed = False, re_records = [], re_facades = [], re_deletions = [], re_forks = []\<rparr>"

abbreviation record_at :: "memory_repo \<Rightarrow> nat \<Rightarrow> session_record" where
  "record_at r k \<equiv> re_records r ! k"

definition update_record :: "nat \<Rightarrow> (session_record \<Rightarrow> session_record) \<Rightarrow> memory_repo \<Rightarrow> memory_repo" where
  "update_record k g r = r\<lparr>re_records := (re_records r)[k := g (record_at r k)]\<rparr>"

section \<open>The repository\<close>

definition repo_assertOpen :: "memory_repo \<Rightarrow> (session_error, unit) res" where
  "repo_assertOpen r = (if re_closed r then Inl RepoClosed else Inr ())"

definition reserveId :: "memory_repo \<Rightarrow> jstring \<Rightarrow> (session_error, memory_repo) res" where
  "reserveId r i =
     (if has_key (re_sessions r) i \<or> i \<in> set (re_pendingIds r) then Inl (SessionIdExists i)
      else Inr (r\<lparr>re_pendingIds := re_pendingIds r @ [i]\<rparr>))"

definition release_id :: "memory_repo \<Rightarrow> jstring \<Rightarrow> memory_repo" where
  "release_id r i = r\<lparr>re_pendingIds := filter (\<lambda>j. j \<noteq> i) (re_pendingIds r)\<rparr>"

definition new_record :: "session_metadata \<Rightarrow> memory_storage \<Rightarrow> session_record" where
  "new_record metadata storage = \<lparr>sr_metadata = metadata, sr_session = new_session metadata storage, sr_open = True, sr_line = []\<rparr>"

definition openRecord :: "memory_repo \<Rightarrow> nat \<Rightarrow> memory_repo \<times> nat" where
  "openRecord r k =
     (r\<lparr>re_facades := re_facades r @ [\<lparr>fa_metadata = se_metadata (sr_session (record_at r k)), fa_record = k, fa_state = IsOpen\<rparr>]\<rparr>, length (re_facades r))"

text \<open>A new record under its id, opened for the caller.\<close>

definition add_session :: "memory_repo \<Rightarrow> session_metadata \<Rightarrow> memory_storage \<Rightarrow> memory_repo \<times> nat" where
  "add_session r metadata storage =
     openRecord (r\<lparr>re_records := re_records r @ [new_record metadata storage],
                   re_sessions := AList.update (sm_id metadata) (length (re_records r)) (re_sessions r)\<rparr>) (length (re_records r))"

text \<open>A step that may throw leaves the repository as it is then.\<close>

definition repo_try :: "memory_repo \<Rightarrow> (session_error, 'a) res \<Rightarrow> ('a \<Rightarrow> memory_repo \<times> (session_error, 'b) res) \<Rightarrow>
    memory_repo \<times> (session_error, 'b) res" where
  "repo_try r x k = (case x of Inl e \<Rightarrow> (r, Inl e) | Inr y \<Rightarrow> k y)"

definition repo_create :: "memory_repo \<Rightarrow> session_create_options \<Rightarrow> int \<Rightarrow> jstring \<Rightarrow> memory_repo \<times> (session_error, nat) res" where
  "repo_create r options createdAt uuid =
     repo_try r (repo_assertOpen r) (\<lambda>_.
       let i = (case sco_id options of Some i \<Rightarrow> i | None \<Rightarrow> uuid) in
       repo_try r (reserveId r i) (\<lambda>r.
         let metadata = \<lparr>sm_id = i, sm_createdAt = createdAt, sm_storageVersion = MEMORY_STORAGE_VERSION, sm_cwd = None,
               sm_parentSessionId = sco_parentSessionId options, sm_legacyParentSessionPath = None\<rparr>
         in case add_session r metadata new_memory_storage of (r, f) \<Rightarrow> (release_id r i, Inr f)))"

definition repo_open :: "memory_repo \<Rightarrow> session_metadata \<Rightarrow> memory_repo \<times> (session_error, nat) res" where
  "repo_open r metadata =
     repo_try r (repo_assertOpen r) (\<lambda>_.
       case map_of (re_sessions r) (sm_id metadata) of
         None \<Rightarrow> (r, Inl (UnknownSession (sm_id metadata)))
       | Some k \<Rightarrow>
           if sr_open (record_at r k) then (r, Inl (SessionAlreadyOpen (sm_id metadata)))
           else (case openRecord (update_record k (\<lambda>rec. rec\<lparr>sr_open := True\<rparr>) r) k of (r, f) \<Rightarrow> (r, Inr f)))"

definition repo_list :: "memory_repo \<Rightarrow> (session_error, session_metadata list) res" where
  "repo_list r = rbind (repo_assertOpen r) (\<lambda>_. Inr (map (\<lambda>k. sr_metadata (record_at r k)) (map_values (re_sessions r))))"

text \<open>\<^verbatim>\<open>delete\<close> up to its await, which begins to close the session, and after it.\<close>

definition delete_begin :: "memory_repo \<Rightarrow> session_metadata \<Rightarrow> memory_repo \<times> (session_error, nat) res" where
  "delete_begin r metadata =
     repo_try r (repo_assertOpen r) (\<lambda>_.
       case map_of (re_sessions r) (sm_id metadata) of
         None \<Rightarrow> (r, Inl (UnknownSession (sm_id metadata)))
       | Some k \<Rightarrow>
           if sr_open (record_at r k) then (r, Inl (SessionIsOpen (sm_id metadata)))
           else ((update_record k (\<lambda>rec. rec\<lparr>sr_session := session_close_begin (sr_session rec)\<rparr>) r)
                   \<lparr>re_deletions := re_deletions r @ [\<lparr>dl_id = sm_id metadata, dl_record = k, dl_done = False, dl_removed = None\<rparr>]\<rparr>,
                 Inr (length (re_deletions r))))"

definition delete_end :: "memory_repo \<Rightarrow> nat \<Rightarrow> memory_repo" where
  "delete_end r d =
     (if d < length (re_deletions r) \<and> \<not> dl_done (re_deletions r ! d) \<and> se_state (sr_session (record_at r (dl_record (re_deletions r ! d)))) = IsClosed
      then let i = dl_id (re_deletions r ! d)
           in r\<lparr>re_sessions := AList.delete i (re_sessions r),
                re_deletions := (re_deletions r)[d := (re_deletions r ! d)\<lparr>dl_done := True, dl_removed := map_of (re_sessions r) i\<rparr>]\<rparr>
      else r)"

text \<open>\<^verbatim>\<open>fork\<close> up to its await and after it; the reserved id is released however it ends.\<close>

definition fork_begin ::
  "memory_repo \<Rightarrow> session_metadata \<Rightarrow> fork_options \<Rightarrow> int \<Rightarrow> jstring \<Rightarrow> memory_repo \<times> (session_error, nat) res" where
  "fork_begin r source options createdAt uuid =
     repo_try r (repo_assertOpen r) (\<lambda>_.
       case map_of (re_sessions r) (sm_id source) of
         None \<Rightarrow> (r, Inl (UnknownSession (sm_id source)))
       | Some k \<Rightarrow>
           let i = (case fork_id options of Some i \<Rightarrow> i | None \<Rightarrow> uuid) in
           repo_try r (reserveId r i) (\<lambda>r.
             (r\<lparr>re_forks := re_forks r @
                  [\<lparr>fk_id = i, fk_parent = sm_id (sr_metadata (record_at r k)), fk_createdAt = createdAt, fk_options = options,
                    fk_captured = memory_captureForkSource (se_storage (sr_session (record_at r k))), fk_done = False\<rparr>]\<rparr>,
              Inr (length (re_forks r)))))"

definition fork_finish :: "nat \<Rightarrow> memory_repo \<Rightarrow> memory_repo" where
  "fork_finish j r = release_id (r\<lparr>re_forks := (re_forks r)[j := (re_forks r ! j)\<lparr>fk_done := True\<rparr>]\<rparr>) (fk_id (re_forks r ! j))"

definition fork_end :: "memory_repo \<Rightarrow> nat \<Rightarrow> memory_repo \<times> (session_error, nat) res option" where
  "fork_end r j =
     (if length (re_forks r) \<le> j \<or> fk_done (re_forks r ! j) then (r, None)
      else let fk = re_forks r ! j in
        case rbind (fk_captured fk) (\<lambda>source. rbind (createForkSnapshot source (fk_options fk)) memory_fromSnapshot) of
          Inl e \<Rightarrow> (fork_finish j r, Some (Inl e))
        | Inr storage \<Rightarrow>
            let metadata = \<lparr>sm_id = fk_id fk, sm_createdAt = fk_createdAt fk, sm_storageVersion = MEMORY_STORAGE_VERSION, sm_cwd = None,
                  sm_parentSessionId = Some (fk_parent fk), sm_legacyParentSessionPath = None\<rparr>
            in case add_session r metadata storage of (r, f) \<Rightarrow> (fork_finish j r, Some (Inr f)))"

text \<open>\<^verbatim>\<open>close\<close> begins to close every session of the map; a session is closed once the calls in its line had their turn.\<close>

definition repo_close :: "memory_repo \<Rightarrow> memory_repo" where
  "repo_close r =
     (if re_closed r then r
      else r\<lparr>re_closed := True,
             re_records := map (\<lambda>k. if k \<in> set (map_values (re_sessions r))
                                    then (record_at r k)\<lparr>sr_session := session_close_begin (sr_session (record_at r k))\<rparr>
                                    else record_at r k) [0..<length (re_records r)]\<rparr>)"

definition session_drained :: "memory_repo \<Rightarrow> nat \<Rightarrow> memory_repo" where
  "session_drained r k =
     (if k < length (re_records r) \<and> se_state (sr_session (record_at r k)) = IsClosing \<and> sr_line (record_at r k) = []
      then update_record k (\<lambda>rec. rec\<lparr>sr_session := session_close_drained memory_ops (sr_session rec)\<rparr>) r else r)"

section \<open>The facade\<close>

text \<open>
  An open facade forwards a call to the session of its record, where it waits in line. A sealed line rejects the calls whose turn comes after the seal. Closing a facade refuses
  new calls at once; the record stays marked open until the admitted calls have settled.
\<close>

definition facade_admit :: "memory_repo \<Rightarrow> nat \<Rightarrow> session_call \<Rightarrow> memory_repo \<times> (session_error, unit) res" where
  "facade_admit r f c =
     (let k = fa_record (re_facades r ! f) in
      if fa_state (re_facades r ! f) \<noteq> IsOpen then (r, Inl SessionClosed)
      else repo_try r (call_guard c (sr_session (record_at r k))) (\<lambda>_.
        (update_record k (\<lambda>rec. rec\<lparr>sr_line := sr_line rec @ [(f, c)]\<rparr>) r, Inr ())))"

definition call_turn :: "memory_repo \<Rightarrow> nat \<Rightarrow> int \<Rightarrow> memory_repo \<times> (session_error, unit) res option" where
  "call_turn r k now =
     (if length (re_records r) \<le> k then (r, None)
      else case sr_line (record_at r k) of
        [] \<Rightarrow> (r, None)
      | (f, c) # rest \<Rightarrow>
          (case (if se_state (sr_session (record_at r k)) \<noteq> IsOpen then (sr_session (record_at r k), Inl SessionClosed)
                 else run_call c (fa_state (re_facades r ! f)) now (sr_session (record_at r k))) of
             (se, x) \<Rightarrow> (update_record k (\<lambda>rec. rec\<lparr>sr_line := rest, sr_session := se\<rparr>) r, Some x)))"

definition facade_close :: "memory_repo \<Rightarrow> nat \<Rightarrow> memory_repo" where
  "facade_close r f =
     (if fa_state (re_facades r ! f) \<noteq> IsOpen then r
      else r\<lparr>re_facades := (re_facades r)[f := (re_facades r ! f)\<lparr>fa_state := IsClosing\<rparr>]\<rparr>)"

definition facade_settled :: "memory_repo \<Rightarrow> nat \<Rightarrow> memory_repo" where
  "facade_settled r f =
     (let k = fa_record (re_facades r ! f) in
      if fa_state (re_facades r ! f) = IsClosing \<and> f \<notin> fst ` set (sr_line (record_at r k))
      then update_record k (\<lambda>rec. rec\<lparr>sr_open := False\<rparr>) (r\<lparr>re_facades := (re_facades r)[f := (re_facades r ! f)\<lparr>fa_state := IsClosed\<rparr>]\<rparr>)
      else r)"

section \<open>Histories\<close>

text \<open>What can happen next: a call, or the next part of one that waits. A part whose time has not come changes nothing.\<close>

datatype repo_event =
    RepoCreate session_create_options int jstring
  | RepoOpen session_metadata
  | RepoDelete session_metadata
  | DeleteEnd nat
  | RepoFork session_metadata fork_options int jstring
  | ForkEnd nat
  | RepoClose
  | SessionDrained nat
  | FacadeCall nat session_call
  | CallTurn nat int
  | FacadeClose nat
  | FacadeSettled nat

fun repo_step :: "memory_repo \<Rightarrow> repo_event \<Rightarrow> memory_repo" where
  "repo_step r (RepoCreate options t uuid) = fst (repo_create r options t uuid)"
| "repo_step r (RepoOpen metadata) = fst (repo_open r metadata)"
| "repo_step r (RepoDelete metadata) = fst (delete_begin r metadata)"
| "repo_step r (DeleteEnd d) = delete_end r d"
| "repo_step r (RepoFork source options t uuid) = fst (fork_begin r source options t uuid)"
| "repo_step r (ForkEnd j) = fst (fork_end r j)"
| "repo_step r RepoClose = repo_close r"
| "repo_step r (SessionDrained k) = session_drained r k"
| "repo_step r (FacadeCall f c) = (if f < length (re_facades r) then fst (facade_admit r f c) else r)"
| "repo_step r (CallTurn k now) = fst (call_turn r k now)"
| "repo_step r (FacadeClose f) = (if f < length (re_facades r) then facade_close r f else r)"
| "repo_step r (FacadeSettled f) = (if f < length (re_facades r) then facade_settled r f else r)"

section \<open>What a call keeps\<close>

lemma new_memory_ready: "memory_ready new_memory_storage"
  by (simp add: memory_ready_def new_memory_storage_def storage_reachable.init)

text \<open>A fork captures a reachable source, so the writes of the snapshot always make a storage.\<close>

lemma capture_source: "ms_state m = IsOpen \<Longrightarrow> memory_captureForkSource m = Inr (source_of (ms_storageState m))"
  by (simp add: memory_captureForkSource_def when_open_def source_of_def)

lemma fromSnapshot_ready:
  assumes "storage_reachable s" "createForkSnapshot (source_of s) options = Inr d"
  obtains m where "memory_fromSnapshot d = Inr m" "memory_ready m" "map_of (s_entries (ms_storageState m)) = map_of (fd_entries d)"
proof -
  note ok = storage_reachable_ok [OF assms(1)]
  have d: "snapshot_ok s d" by (rule createForkSnapshot_ok [OF ok assms(2)])
  obtain s' where s': "applyValidated new_storage_state (forkSnapshotWrites d) = (s', Inr (s_stats s'))"
      "storage_reachable s'" "map_of (s_entries s') = map_of (fd_entries d)"
    by (rule fork_applies [OF ok d])
  show thesis
    by (rule that [of "new_memory_storage\<lparr>ms_storageState := s'\<rparr>"])
      (use s' fork_writes_valid [OF ok d] in \<open>auto simp: memory_fromSnapshot_def Let_def memory_ready_def new_memory_storage_def\<close>)
qed

text \<open>A call on a session keeps its identity, its life-cycle state and the reachability of its storage.\<close>

definition storage_kept :: "memory_storage \<Rightarrow> memory_storage \<Rightarrow> bool" where
  "storage_kept m m' \<longleftrightarrow> ms_state m' = ms_state m \<and> (storage_reachable (ms_storageState m) \<longrightarrow> storage_reachable (ms_storageState m'))"

definition session_kept :: "memory_storage session \<Rightarrow> memory_storage session \<Rightarrow> bool" where
  "session_kept se se' \<longleftrightarrow> se_metadata se' = se_metadata se \<and> se_state se' = se_state se \<and> storage_kept (se_storage se) (se_storage se')"

lemma kept_refl [simp]: "storage_kept m m" "session_kept se se"
  by (simp_all add: storage_kept_def session_kept_def)

lemma commit_kept: "storage_kept (mu_storage m) (mu_storage (fst (mutation_commit memory_ops m ws now)))"
proof -
  have "storage_kept st (fst (memory_commit st ws now))" for st
    using commit_job_reachable [of "ms_storageState st" ws now]
    by (auto simp: storage_kept_def memory_commit_def split: prod.splits)
  then show ?thesis by (auto simp: mutation_commit_def memory_ops_def split: prod.splits) (metis fst_conv)
qed

lemma mutate_kept:
  assumes "\<And>m. storage_kept (mu_storage m) (mu_storage (fst (f m)))"
  shows "session_kept se (fst (mutate se f))"
  using assms [of "new_mutation (se_storage se)"]
  by (auto simp: session_kept_def mutate_def mutation_end_def new_mutation_def split: sum.splits prod.splits)

lemma with_read_kept:
  "(\<And>x. storage_kept (mu_storage m) (mu_storage (fst (k x)))) \<Longrightarrow> storage_kept (mu_storage m) (mu_storage (fst (with_read m r k)))"
  by (auto simp: with_read_def split: sum.splits)

lemma commit_one_kept: "session_kept se (fst (commit_one memory_ops se w now))"
  unfolding commit_one_def by (rule mutate_kept) (simp add: case_prod_beta commit_kept)

lemma createBranch_kept: "session_kept se (fst (session_createBranch memory_ops se name at now))"
proof -
  define f where "f m = with_read m (branchTip name) (\<lambda>address.
      with_read m (mutation_getValue memory_ops m address) (\<lambda>tip.
        if tip \<noteq> None then (m, Inl (BranchExists name))
        else with_read m (case at of None \<Rightarrow> Inr True
                           | Some i \<Rightarrow> rbind (mutation_getEntries memory_ops m [i]) (\<lambda>found. Inr (has_key found i))) (\<lambda>known.
          if \<not> known then (m, Inl (UnknownTarget (the at)))
          else mutation_commit memory_ops m [setValue address (STip at)] now)))" for m
  have "session_kept se (fst (mutate se f))"
    unfolding f_def by (intro mutate_kept with_read_kept) (auto intro!: with_read_kept commit_kept)
  moreover have "session_kept se se' \<Longrightarrow> session_kept se (getOrCreateBranchObject se' name)" for se'
    by (simp add: session_kept_def getOrCreateBranchObject_def)
  ultimately show ?thesis
    unfolding session_createBranch_def f_def [symmetric] by (auto split: sum.splits prod.splits)
qed

lemma append_kept: "session_kept se (fst (session_appendToBranch memory_ops se name entry i now))"
proof -
  have "session_kept se (fst (mutate se (\<lambda>m.
      with_read m (branchTip name) (\<lambda>address.
      with_read m (mutation_getValue memory_ops m address) (\<lambda>tip.
        case tip of
          None \<Rightarrow> (m, Inl (UnknownBranch name))
        | Some t \<Rightarrow>
            (case mutation_commit memory_ops m
                [insertEntry (branch_new_entry entry i (tip_value t)), setValue address (STip (Some i))] now of
               (m', r) \<Rightarrow> (m', rbind r (\<lambda>_. Inr i))))))))"
    by (intro mutate_kept with_read_kept) (simp add: case_prod_beta commit_kept split: option.splits)
  then show ?thesis
    unfolding session_appendToBranch_def by (auto split: sum.splits)
qed

lemma run_call_kept: "session_kept se (fst (run_call c state now se))"
  by (cases c)
    (auto simp: forget_def session_setValue_def session_deleteValue_def session_appendList_def session_deleteList_def session_setName_def
      session_setLabel_def split: sum.splits option.splits
      intro!: mutate_kept commit_kept commit_one_kept createBranch_kept append_kept)

section \<open>The invariant\<close>

definition record_ok :: "session_record \<Rightarrow> bool" where
  "record_ok rec \<longleftrightarrow> se_metadata (sr_session rec) = sr_metadata rec \<and> storage_reachable (ms_storageState (se_storage (sr_session rec))) \<and>
     (se_state (sr_session rec) = IsOpen \<longrightarrow> ms_state (se_storage (sr_session rec)) = IsOpen)"

definition map_ok :: "memory_repo \<Rightarrow> bool" where
  "map_ok r \<longleftrightarrow> distinct (keys (re_sessions r)) \<and>
     (\<forall>i k. map_of (re_sessions r) i = Some k \<longrightarrow> k < length (re_records r) \<and> sm_id (sr_metadata (record_at r k)) = i)"

text \<open>A facade holds its record until it is closed.\<close>

definition holds :: "memory_repo \<Rightarrow> nat \<Rightarrow> nat \<Rightarrow> bool" where
  "holds r f k \<longleftrightarrow> f < length (re_facades r) \<and> fa_record (re_facades r ! f) = k \<and> fa_state (re_facades r ! f) \<noteq> IsClosed"

definition owners_ok :: "memory_repo \<Rightarrow> bool" where
  "owners_ok r \<longleftrightarrow> (\<forall>f<length (re_facades r). fa_record (re_facades r ! f) < length (re_records r)) \<and>
     (\<forall>k<length (re_records r). sr_open (record_at r k) \<longleftrightarrow> (\<exists>f. holds r f k)) \<and> (\<forall>f g k. holds r f k \<and> holds r g k \<longrightarrow> f = g)"

definition lines_ok :: "memory_repo \<Rightarrow> bool" where
  "lines_ok r \<longleftrightarrow> (\<forall>k<length (re_records r). \<forall>f\<in>fst ` set (sr_line (record_at r k)). holds r f k)"

definition live_fork :: "memory_repo \<Rightarrow> nat \<Rightarrow> bool" where
  "live_fork r j \<longleftrightarrow> j < length (re_forks r) \<and> \<not> fk_done (re_forks r ! j)"

definition forks_ok :: "memory_repo \<Rightarrow> bool" where
  "forks_ok r \<longleftrightarrow>
     (\<forall>i. i \<in> set (re_pendingIds r) \<longleftrightarrow> (\<exists>j. live_fork r j \<and> fk_id (re_forks r ! j) = i)) \<and>
     (\<forall>j k. live_fork r j \<and> live_fork r k \<and> fk_id (re_forks r ! j) = fk_id (re_forks r ! k) \<longrightarrow> j = k) \<and>
     (\<forall>i\<in>set (re_pendingIds r). \<not> has_key (re_sessions r) i) \<and>
     (\<forall>j<length (re_forks r). \<forall>source. fk_captured (re_forks r ! j) = Inr source \<longrightarrow> (\<exists>s. storage_reachable s \<and> source = source_of s))"

lemma forks_ok_frame:
  assumes "forks_ok r" "re_forks r' = re_forks r" "re_pendingIds r' = re_pendingIds r" "\<And>i. i \<in> set (re_pendingIds r) \<Longrightarrow> has_key (re_sessions r') i \<Longrightarrow> has_key (re_sessions r) i"
  shows "forks_ok r'"
proof -
  have l: "live_fork r' = live_fork r" by (simp add: live_fork_def fun_eq_iff assms(2))
  from assms(1,4) show ?thesis unfolding forks_ok_def assms(2,3) l by blast
qed

lemma fork_source:
  assumes "forks_ok r" "j < length (re_forks r)" "fk_captured (re_forks r ! j) = Inr source"
  obtains s where "storage_reachable s" "source = source_of s"
  using assms unfolding forks_ok_def by blast

text \<open>A session is closed, and a record leaves the map, only by the close of the repository or a deletion.\<close>

definition losses_ok :: "memory_repo \<Rightarrow> bool" where
  "losses_ok r \<longleftrightarrow> (\<forall>d\<in>set (re_deletions r). \<not> dl_done d \<longrightarrow> dl_removed d = None) \<and> (\<forall>k<length (re_records r).
     (se_state (sr_session (record_at r k)) = IsOpen \<or> re_closed r \<or> (\<exists>d\<in>set (re_deletions r). dl_record d = k)) \<and>
     (map_of (re_sessions r) (sm_id (sr_metadata (record_at r k))) = Some k \<or> (\<exists>d\<in>set (re_deletions r). dl_removed d = Some k)))"

definition repo_ok :: "memory_repo \<Rightarrow> bool" where
  "repo_ok r \<longleftrightarrow> (\<forall>rec\<in>set (re_records r). record_ok rec) \<and> map_ok r \<and> owners_ok r \<and> lines_ok r \<and> forks_ok r \<and> losses_ok r"

lemma new_record_ok: "memory_ready storage \<Longrightarrow> record_ok (new_record metadata storage)"
  by (simp add: record_ok_def new_record_def new_session_def memory_ready_def)

lemma update_record_fields [simp]:
  "re_sessions (update_record k g r) = re_sessions r" "re_pendingIds (update_record k g r) = re_pendingIds r"
  "re_closed (update_record k g r) = re_closed r" "re_facades (update_record k g r) = re_facades r"
  "re_deletions (update_record k g r) = re_deletions r" "re_forks (update_record k g r) = re_forks r"
  "length (re_records (update_record k g r)) = length (re_records r)"
  by (simp_all add: update_record_def)

lemma upd_nth: "j < length xs \<Longrightarrow> xs[k := x] ! j = (if j = k then x else xs ! j)"
  by simp

lemma update_record_at: "j < length (re_records r) \<Longrightarrow> record_at (update_record k g r) j = (if j = k then g (record_at r k) else record_at r j)"
  by (auto simp: update_record_def upd_nth)

lemma holds_update [simp]: "holds (update_record k g r) = holds r"
  by (simp add: holds_def fun_eq_iff)

lemma holds_cong: "re_facades r' = re_facades r \<Longrightarrow> holds r' = holds r"
  by (simp add: holds_def fun_eq_iff)

text \<open>The fields of a record that the other parts of the invariant read.\<close>

lemma repo_ok_update:
  assumes "repo_ok r" and "k < length (re_records r)" and "record_ok (g (record_at r k))"
    and "sr_metadata (g (record_at r k)) = sr_metadata (record_at r k)" "sr_open (g (record_at r k)) = sr_open (record_at r k)"
    and "\<forall>f\<in>fst ` set (sr_line (g (record_at r k))). holds r f k"
    and "se_state (sr_session (g (record_at r k))) = IsOpen \<or> se_state (sr_session (record_at r k)) \<noteq> IsOpen"
  shows "repo_ok (update_record k g r)"
proof -
  have "map_ok (update_record k g r)" using assms(1,4) by (auto simp: repo_ok_def map_ok_def update_record_at)
  moreover have "owners_ok (update_record k g r)" using assms(1,5) by (auto simp: repo_ok_def owners_ok_def update_record_at)
  moreover have "lines_ok (update_record k g r)" using assms(1,6) by (auto simp: repo_ok_def lines_ok_def update_record_at)
  moreover have "forks_ok (update_record k g r)" using assms(1) by (auto simp: repo_ok_def intro: forks_ok_frame)
  moreover have "losses_ok (update_record k g r)" using assms(1,4,7) by (auto simp: repo_ok_def losses_ok_def update_record_at)
  moreover have "\<forall>rec\<in>set (re_records (update_record k g r)). record_ok rec"
    using assms(1,3) by (auto simp: repo_ok_def update_record_def dest!: set_update_subset_insert [THEN subsetD])
  ultimately show ?thesis by (simp add: repo_ok_def)
qed

lemma add_session_fields [simp]:
  "re_records (fst (add_session r metadata storage)) = re_records r @ [new_record metadata storage]"
  "re_sessions (fst (add_session r metadata storage)) = AList.update (sm_id metadata) (length (re_records r)) (re_sessions r)"
  "re_facades (fst (add_session r metadata storage)) =
     re_facades r @ [\<lparr>fa_metadata = metadata, fa_record = length (re_records r), fa_state = IsOpen\<rparr>]"
  "re_pendingIds (fst (add_session r metadata storage)) = re_pendingIds r" "re_closed (fst (add_session r metadata storage)) = re_closed r"
  "re_deletions (fst (add_session r metadata storage)) = re_deletions r" "re_forks (fst (add_session r metadata storage)) = re_forks r"
  "snd (add_session r metadata storage) = length (re_facades r)"
  by (simp_all add: add_session_def openRecord_def nth_append new_record_def new_session_def)

lemma holds_add: "re_facades r' = re_facades r @ [fa] \<Longrightarrow> holds r' f k \<longleftrightarrow> holds r f k \<or> f = length (re_facades r) \<and> fa_record fa = k \<and> fa_state fa \<noteq> IsClosed"
  by (auto simp: holds_def nth_append less_Suc_eq)

lemma holds_record: "owners_ok r \<Longrightarrow> holds r f k \<Longrightarrow> k < length (re_records r)"
  by (auto simp: owners_ok_def holds_def)

lemma repo_okD:
  assumes "repo_ok r"
  shows "rec \<in> set (re_records r) \<Longrightarrow> record_ok rec" "map_ok r" "owners_ok r" "lines_ok r" "forks_ok r" "losses_ok r"
  using assms by (simp_all add: repo_ok_def)

lemma mapped_record:
  assumes "repo_ok r" "map_of (re_sessions r) i = Some k"
  shows "k < length (re_records r)" "sm_id (sr_metadata (record_at r k)) = i"
  using assms unfolding repo_ok_def map_ok_def by blast+

lemma map_ok_frame:
  assumes "map_ok r" "re_sessions r' = re_sessions r" "length (re_records r') = length (re_records r)"
    and "\<And>j. j < length (re_records r) \<Longrightarrow> sr_metadata (record_at r' j) = sr_metadata (record_at r j)"
  shows "map_ok r'"
  using assms unfolding map_ok_def by metis

lemma owners_ok_frame:
  assumes "owners_ok r" "re_facades r' = re_facades r" "length (re_records r') = length (re_records r)"
    and "\<And>j. j < length (re_records r) \<Longrightarrow> sr_open (record_at r' j) = sr_open (record_at r j)"
  shows "owners_ok r'"
  using assms(1) unfolding owners_ok_def holds_cong [OF assms(2)] assms(2,3) using assms(4) by blast

lemma lines_ok_frame:
  assumes "lines_ok r" "length (re_records r') = length (re_records r)"
    and "\<And>f j. holds r f j \<Longrightarrow> j < length (re_records r) \<Longrightarrow> f \<in> fst ` set (sr_line (record_at r j)) \<Longrightarrow> holds r' f j"
    and "\<And>j. j < length (re_records r) \<Longrightarrow> sr_line (record_at r' j) = sr_line (record_at r j)"
  shows "lines_ok r'"
  using assms unfolding lines_ok_def by metis

text \<open>A new facade on a record that nobody holds.\<close>

lemma owners_ok_add:
  assumes o: "owners_ok r" and fa: "re_facades r' = re_facades r @ [fa]" "fa_record fa = k" "fa_state fa = IsOpen" and free: "\<And>f. \<not> holds r f k"
    and k: "k < length (re_records r')" "length (re_records r) \<le> length (re_records r')"
    and opens: "\<And>j. j < length (re_records r') \<Longrightarrow> sr_open (record_at r' j) \<longleftrightarrow> j = k \<or> j < length (re_records r) \<and> sr_open (record_at r j)"
  shows "owners_ok r'"
proof -
  have h: "holds r' f j \<longleftrightarrow> holds r f j \<or> f = length (re_facades r) \<and> k = j" for f j
    using fa(2,3) by (auto simp: holds_add [OF fa(1)])
  have "fa_record (re_facades r' ! f) < length (re_records r')" if "f < length (re_facades r')" for f
    using that o k fa by (auto simp: owners_ok_def fa(1) nth_append intro: less_le_trans)
  moreover have "sr_open (record_at r' j) \<longleftrightarrow> (\<exists>f. holds r' f j)" if "j < length (re_records r')" for j
    using opens [OF that] holds_record [OF o] o unfolding h owners_ok_def by metis
  moreover have "f = g" if "holds r' f j" "holds r' g j" for f g j
    using that o free unfolding h owners_ok_def by metis
  ultimately show ?thesis unfolding owners_ok_def by blast
qed

lemma add_session_ok:
  assumes ok: "repo_ok r" and i: "\<not> has_key (re_sessions r) (sm_id metadata)" "sm_id metadata \<notin> set (re_pendingIds r)" and "memory_ready storage"
  shows "repo_ok (fst (add_session r metadata storage))"
proof -
  let ?r = "fst (add_session r metadata storage)"
  note p = repo_okD [OF ok]
  have n: "\<not> holds r f (length (re_records r))" for f using p(3) holds_record [of r f] by auto
  have old: "record_at ?r j = record_at r j" if "j < length (re_records r)" for j using that by (simp add: nth_append)
  have new: "record_at ?r (length (re_records r)) = new_record metadata storage" by (simp add: nth_append)
  have "map_ok ?r"
    using p(2) unfolding map_ok_def
    by (auto simp: update_conv' nth_append new_record_def distinct_update simp del: map_of_eq_Some_iff split: if_splits) (metis less_SucI less_irrefl)+
  moreover have "owners_ok ?r"
    by (rule owners_ok_add [OF p(3) _ _ _ n]) (auto simp: nth_append new_record_def less_Suc_eq)
  moreover have "lines_ok ?r" using p(4) by (auto simp: lines_ok_def holds_add nth_append less_Suc_eq new_record_def)
  moreover have "forks_ok ?r" by (rule forks_ok_frame [OF p(5)]) (use i in \<open>auto simp: update_conv' split: if_splits\<close>)
  moreover have "losses_ok ?r"
    using p(6) i(1) by (auto simp: losses_ok_def nth_append less_Suc_eq new_record_def new_session_def update_conv')
  moreover have "\<forall>rec\<in>set (re_records ?r). record_ok rec" using p(1) new_record_ok [OF assms(4)] by auto
  ultimately show ?thesis by (simp add: repo_ok_def)
qed

lemma reserved_filter: "i \<notin> set xs \<Longrightarrow> filter (\<lambda>j. j \<noteq> i) xs = xs"
  by (induction xs) auto

lemma add_session_pending:
  "add_session (r\<lparr>re_pendingIds := p\<rparr>) metadata storage = (case add_session r metadata storage of (r', f) \<Rightarrow> (r'\<lparr>re_pendingIds := p\<rparr>, f))"
  "add_session (r\<lparr>re_forks := fs\<rparr>) metadata storage = (case add_session r metadata storage of (r', f) \<Rightarrow> (r'\<lparr>re_forks := fs\<rparr>, f))"
  by (simp_all add: add_session_def openRecord_def)

lemma repo_create_eq:
  assumes "\<not> re_closed r" "reserveId r i = Inr r1" "i = (case sco_id options of Some i \<Rightarrow> i | None \<Rightarrow> uuid)"
  shows "\<exists>metadata. sm_id metadata = i \<and> repo_create r options t uuid = (fst (add_session r metadata new_memory_storage), Inr (length (re_facades r)))"
proof -
  let ?meta = "\<lparr>sm_id = i, sm_createdAt = t, sm_storageVersion = MEMORY_STORAGE_VERSION, sm_cwd = None,
    sm_parentSessionId = sco_parentSessionId options, sm_legacyParentSessionPath = None\<rparr>"
  from assms(2) have r1: "r1 = r\<lparr>re_pendingIds := re_pendingIds r @ [i]\<rparr>" "i \<notin> set (re_pendingIds r)" by (auto simp: reserveId_def split: if_splits)
  have "repo_create r options t uuid = (fst (add_session r ?meta new_memory_storage), Inr (length (re_facades r)))"
    using assms(1,2) r1(2)
    by (simp add: repo_create_def repo_try_def repo_assertOpen_def assms(3) [symmetric] Let_def r1(1) add_session_pending case_prod_beta release_id_def reserved_filter)
  then show ?thesis by (intro exI [of _ ?meta]) simp
qed

lemma repo_create_ok: "repo_ok r \<Longrightarrow> repo_ok (fst (repo_create r options t uuid))"
proof -
  assume ok: "repo_ok r"
  let ?i = "case sco_id options of Some i \<Rightarrow> i | None \<Rightarrow> uuid"
  show ?thesis
  proof (cases "re_closed r \<or> \<not> is_ok (reserveId r ?i)")
    case True
    then have "fst (repo_create r options t uuid) = r"
      by (auto simp: repo_create_def repo_try_def repo_assertOpen_def Let_def is_ok_iff split: sum.splits)
    with ok show ?thesis by simp
  next
    case False
    then obtain r1 where r1: "reserveId r ?i = Inr r1" "\<not> re_closed r" by (auto simp: is_ok_iff)
    from repo_create_eq [OF r1(2,1) refl] obtain metadata where
      "sm_id metadata = ?i" "fst (repo_create r options t uuid) = fst (add_session r metadata new_memory_storage)" by (metis fst_conv)
    with r1(1) ok add_session_ok [of r metadata] new_memory_ready show ?thesis by (auto simp: reserveId_def split: if_splits)
  qed
qed

lemma repo_open_ok:
  assumes ok: "repo_ok r"
  shows "repo_ok (fst (repo_open r metadata))"
proof (cases "\<not> re_closed r \<and> (\<exists>k. map_of (re_sessions r) (sm_id metadata) = Some k \<and> \<not> sr_open (record_at r k))")
  case True
  then obtain k where k: "map_of (re_sessions r) (sm_id metadata) = Some k" "\<not> sr_open (record_at r k)" "\<not> re_closed r" by blast
  let ?r = "fst (openRecord (update_record k (\<lambda>rec. rec\<lparr>sr_open := True\<rparr>) r) k)"
  note p = repo_okD [OF ok] and len = mapped_record(1) [OF ok k(1)]
  have fields: "re_records ?r = (re_records r)[k := (record_at r k)\<lparr>sr_open := True\<rparr>]" "re_sessions ?r = re_sessions r" "re_closed ?r = re_closed r"
      "re_deletions ?r = re_deletions r" "re_forks ?r = re_forks r" "re_pendingIds ?r = re_pendingIds r"
    by (simp_all add: openRecord_def) (simp add: update_record_def)
  obtain fa where fa: "re_facades ?r = re_facades r @ [fa]" "fa_record fa = k" "fa_state fa = IsOpen" by (simp add: openRecord_def)
  have n: "\<not> holds r f k" for f using p(3) k(2) len by (auto simp: owners_ok_def)
  have "map_ok ?r" by (rule map_ok_frame [OF p(2)]) (simp_all add: fields upd_nth)
  moreover have "owners_ok ?r" by (rule owners_ok_add [OF p(3) fa n]) (use len in \<open>auto simp: fields upd_nth\<close>)
  moreover have "lines_ok ?r" by (rule lines_ok_frame [OF p(4)]) (auto simp: fields upd_nth holds_add [OF fa(1)])
  moreover have "forks_ok ?r" by (rule forks_ok_frame [OF p(5)]) (simp_all add: fields)
  moreover have "losses_ok ?r" using p(6) by (auto simp: losses_ok_def fields upd_nth)
  moreover have "\<forall>rec\<in>set (re_records ?r). record_ok rec"
    using p(1) nth_mem [OF len] by (auto simp: fields record_ok_def dest!: set_update_subset_insert [THEN subsetD])
  ultimately show ?thesis using k by (simp add: repo_open_def repo_try_def repo_assertOpen_def case_prod_beta repo_ok_def)
next
  case False
  then have "fst (repo_open r metadata) = r" by (auto simp: repo_open_def repo_try_def repo_assertOpen_def split: option.splits)
  with ok show ?thesis by simp
qed

lemma close_begin_ok: "record_ok rec \<Longrightarrow> record_ok (rec\<lparr>sr_session := session_close_begin (sr_session rec)\<rparr>)"
  by (simp add: record_ok_def session_close_begin_def)

lemma delete_begin_ok:
  assumes ok: "repo_ok r"
  shows "repo_ok (fst (delete_begin r metadata))"
proof (cases "\<not> re_closed r \<and> (\<exists>k. map_of (re_sessions r) (sm_id metadata) = Some k \<and> \<not> sr_open (record_at r k))")
  case True
  then obtain k where k: "map_of (re_sessions r) (sm_id metadata) = Some k" "\<not> sr_open (record_at r k)" "\<not> re_closed r" by blast
  note p = repo_okD [OF ok] and len = mapped_record(1) [OF ok k(1)]
  let ?rec = "(record_at r k)\<lparr>sr_session := session_close_begin (sr_session (record_at r k))\<rparr>"
  let ?d = "\<lparr>dl_id = sm_id metadata, dl_record = k, dl_done = False, dl_removed = None\<rparr>"
  let ?r = "r\<lparr>re_records := (re_records r)[k := ?rec], re_deletions := re_deletions r @ [?d]\<rparr>"
  have "map_ok ?r" by (rule map_ok_frame [OF p(2)]) (simp_all add: upd_nth)
  moreover have "owners_ok ?r" by (rule owners_ok_frame [OF p(3)]) (simp_all add: upd_nth)
  moreover have "lines_ok ?r" by (rule lines_ok_frame [OF p(4)]) (simp_all add: upd_nth holds_def)
  moreover have "forks_ok ?r" by (rule forks_ok_frame [OF p(5)]) simp_all
  moreover have "losses_ok ?r" using p(6) by (auto simp: losses_ok_def upd_nth)
  moreover have "\<forall>rec\<in>set (re_records ?r). record_ok rec"
    using p(1) close_begin_ok nth_mem [OF len] by (auto dest!: set_update_subset_insert [THEN subsetD])
  ultimately show ?thesis using k by (simp add: delete_begin_def repo_try_def repo_assertOpen_def repo_ok_def update_record_def)
next
  case False
  then have "fst (delete_begin r metadata) = r" by (auto simp: delete_begin_def repo_try_def repo_assertOpen_def split: option.splits)
  with ok show ?thesis by simp
qed

lemma losses_ok_step:
  assumes l: "losses_ok r" and same: "re_records r' = re_records r" "re_closed r' = re_closed r"
    and "\<forall>x\<in>set (re_deletions r'). \<not> dl_done x \<longrightarrow> dl_removed x = None"
    and "\<And>y. y \<in> set (re_deletions r) \<Longrightarrow> \<exists>x\<in>set (re_deletions r'). dl_record x = dl_record y"
    and "\<And>y k. y \<in> set (re_deletions r) \<Longrightarrow> dl_removed y = Some k \<Longrightarrow> \<exists>x\<in>set (re_deletions r'). dl_removed x = Some k"
    and "\<And>i k. map_of (re_sessions r) i = Some k \<Longrightarrow> map_of (re_sessions r') i = Some k \<or> (\<exists>x\<in>set (re_deletions r'). dl_removed x = Some k)"
  shows "losses_ok r'"
proof -
  have "se_state (sr_session (record_at r k)) = IsOpen \<or> re_closed r \<or> (\<exists>d\<in>set (re_deletions r'). dl_record d = k)" if "k < length (re_records r)" for k
    using l that assms(5) unfolding losses_ok_def by metis
  moreover have "map_of (re_sessions r') (sm_id (sr_metadata (record_at r k))) = Some k \<or> (\<exists>d\<in>set (re_deletions r'). dl_removed d = Some k)"
    if "k < length (re_records r)" for k
    using l that assms(6,7) unfolding losses_ok_def by meson
  ultimately show ?thesis using assms(4) unfolding losses_ok_def same by blast
qed

lemma delete_end_ok:
  assumes ok: "repo_ok r"
  shows "repo_ok (delete_end r d)"
proof (cases "d < length (re_deletions r) \<and> \<not> dl_done (re_deletions r ! d) \<and> se_state (sr_session (record_at r (dl_record (re_deletions r ! d)))) = IsClosed")
  case True
  note p = repo_okD [OF ok]
  let ?i = "dl_id (re_deletions r ! d)"
  let ?d = "(re_deletions r ! d)\<lparr>dl_done := True, dl_removed := map_of (re_sessions r) ?i\<rparr>"
  let ?r = "r\<lparr>re_sessions := AList.delete ?i (re_sessions r), re_deletions := (re_deletions r)[d := ?d]\<rparr>"
  have "map_ok ?r" using p(2) unfolding map_ok_def by (auto simp: delete_conv' simp del: map_of_eq_Some_iff split: if_splits)
  moreover have "owners_ok ?r" by (rule owners_ok_frame [OF p(3)]) simp_all
  moreover have "lines_ok ?r" by (rule lines_ok_frame [OF p(4)]) (simp_all add: holds_def)
  moreover have "forks_ok ?r" by (rule forks_ok_frame [OF p(5)]) (auto simp: delete_conv' split: if_splits)
  moreover have "losses_ok ?r"
  proof -
    have u: "x \<in> set ((re_deletions r)[d := ?d])" if "x \<in> set (re_deletions r)" "x \<noteq> re_deletions r ! d" for x
      using that unfolding in_set_conv_nth length_list_update by (metis nth_list_update_neq)
    have new: "?d \<in> set ((re_deletions r)[d := ?d])" using True by (simp add: set_update_memI)
    have none: "dl_removed (re_deletions r ! d) = None" using p(6) True by (simp add: losses_ok_def)
    show ?thesis
    proof (rule losses_ok_step [OF p(6)])
      show "\<forall>x\<in>set (re_deletions ?r). \<not> dl_done x \<longrightarrow> dl_removed x = None"
        using p(6) by (auto simp: losses_ok_def dest!: set_update_subset_insert [THEN subsetD])
    next
      fix y assume y: "y \<in> set (re_deletions r)"
      show "\<exists>x\<in>set (re_deletions ?r). dl_record x = dl_record y"
      proof (cases "y = re_deletions r ! d")
        case True
        then show ?thesis by (intro bexI [of _ ?d]) (use new in simp_all)
      qed (use y u in auto)
    next
      fix y k assume y: "y \<in> set (re_deletions r)" "dl_removed y = Some k"
      with none u [OF y(1)] show "\<exists>x\<in>set (re_deletions ?r). dl_removed x = Some k" by (cases "y = re_deletions r ! d") auto
    next
      fix i k assume k: "map_of (re_sessions r) i = Some k"
      show "map_of (re_sessions ?r) i = Some k \<or> (\<exists>x\<in>set (re_deletions ?r). dl_removed x = Some k)"
      proof (cases "i = ?i")
        case True
        then have "\<exists>x\<in>set (re_deletions ?r). dl_removed x = Some k" by (intro bexI [of _ ?d]) (use new k in simp_all)
        then show ?thesis ..
      qed (use k in \<open>simp add: delete_conv'\<close>)
    qed simp_all
  qed
  ultimately show ?thesis using p(1) True by (simp add: repo_ok_def delete_end_def Let_def)
next
  case False
  then have "delete_end r d = r" by (auto simp: delete_end_def)
  with ok show ?thesis by simp
qed

lemma fork_begin_ok:
  assumes ok: "repo_ok r"
  shows "repo_ok (fst (fork_begin r source options t uuid))"
proof (cases "fst (fork_begin r source options t uuid) = r")
  case False
  note p = repo_okD [OF ok]
  let ?i = "case fork_id options of Some i \<Rightarrow> i | None \<Rightarrow> uuid"
  from False obtain k where k: "map_of (re_sessions r) (sm_id source) = Some k" "\<not> re_closed r" and i: "\<not> has_key (re_sessions r) ?i" "?i \<notin> set (re_pendingIds r)"
    by (auto simp: fork_begin_def repo_try_def repo_assertOpen_def reserveId_def Let_def split: option.splits if_splits)
  note len = mapped_record(1) [OF ok k(1)]
  let ?fk = "\<lparr>fk_id = ?i, fk_parent = sm_id (sr_metadata (record_at r k)), fk_createdAt = t, fk_options = options,
    fk_captured = memory_captureForkSource (se_storage (sr_session (record_at r k))), fk_done = False\<rparr>"
  let ?r = "r\<lparr>re_pendingIds := re_pendingIds r @ [?i], re_forks := re_forks r @ [?fk]\<rparr>"
  have r: "fst (fork_begin r source options t uuid) = ?r"
    using k i by (simp add: fork_begin_def repo_try_def repo_assertOpen_def reserveId_def Let_def)
  have "map_ok ?r" by (rule map_ok_frame [OF p(2)]) simp_all
  moreover have "owners_ok ?r" by (rule owners_ok_frame [OF p(3)]) simp_all
  moreover have "lines_ok ?r" by (rule lines_ok_frame [OF p(4)]) (simp_all add: holds_def)
  moreover have "losses_ok ?r" using p(6) by (simp add: losses_ok_def)
  moreover have "forks_ok ?r"
  proof -
    have src: "\<exists>s. storage_reachable s \<and> src = source_of s" if "fk_captured ?fk = Inr src" for src
      using that p(1) [OF nth_mem [OF len]]
      by (auto simp: memory_captureForkSource_def when_open_def record_ok_def source_of_def split: if_splits)
    have live: "live_fork ?r j \<longleftrightarrow> live_fork r j \<or> j = length (re_forks r)" for j by (auto simp: live_fork_def nth_append less_Suc_eq)
    have o: "fk_id (re_forks r ! j) \<noteq> ?i" if "live_fork r j" for j using that p(5) i(2) unfolding forks_ok_def by metis
    have "x \<in> set (re_pendingIds ?r) \<longleftrightarrow> (\<exists>j. live_fork ?r j \<and> fk_id (re_forks ?r ! j) = x)" for x
    proof -
      have "live_fork ?r j \<and> fk_id (re_forks ?r ! j) = x \<longleftrightarrow> live_fork r j \<and> fk_id (re_forks r ! j) = x \<or> j = length (re_forks r) \<and> ?i = x" for j
        by (cases "j = length (re_forks r)") (simp_all add: live_fork_def nth_append)
      then have "(\<exists>j. live_fork ?r j \<and> fk_id (re_forks ?r ! j) = x) \<longleftrightarrow> (\<exists>j. live_fork r j \<and> fk_id (re_forks r ! j) = x) \<or> ?i = x"
        by blast
      also have "\<dots> \<longleftrightarrow> x \<in> set (re_pendingIds r) \<or> ?i = x" using p(5) by (simp add: forks_ok_def)
      finally show ?thesis by auto
    qed
    moreover have "j = l" if "live_fork ?r j" "live_fork ?r l" "fk_id (re_forks ?r ! j) = fk_id (re_forks ?r ! l)" for j l
    proof -
      have id: "fk_id (re_forks ?r ! x) = (if x = length (re_forks r) then ?i else fk_id (re_forks r ! x))" if "live_fork ?r x" for x
        using that unfolding live by (auto simp: nth_append live_fork_def)
      from p(5) have u: "j = l" if "live_fork r j" "live_fork r l" "fk_id (re_forks r ! j) = fk_id (re_forks r ! l)" using that unfolding forks_ok_def by blast
      from that(3) [unfolded id [OF that(1)] id [OF that(2)]] that(1,2) o [of j] o [of l] u show ?thesis unfolding live by (auto split: if_splits)
    qed
    moreover have "\<forall>x\<in>set (re_pendingIds ?r). \<not> has_key (re_sessions ?r) x" using p(5) i(1) by (simp add: forks_ok_def)
    moreover have "\<exists>s. storage_reachable s \<and> x = source_of s" if "j < length (re_forks ?r)" "fk_captured (re_forks ?r ! j) = Inr x" for j x
      using that src fork_source [OF p(5), of j x] by (cases "j = length (re_forks r)") (auto simp: nth_append less_Suc_eq)
    ultimately show ?thesis unfolding forks_ok_def by blast
  qed
  ultimately show ?thesis using p(1) by (simp add: r repo_ok_def)
qed (use ok in simp)

lemma fork_finish_ok:
  assumes ok: "repo_ok r" and j: "j < length (re_forks r)" "\<not> fk_done (re_forks r ! j)"
  shows "repo_ok (fork_finish j r)" "fk_id (re_forks r ! j) \<notin> set (re_pendingIds (fork_finish j r))" "\<not> has_key (re_sessions r) (fk_id (re_forks r ! j))"
proof -
  note p = repo_okD [OF ok]
  let ?r = "fork_finish j r"
  have fields: "re_records ?r = re_records r" "re_sessions ?r = re_sessions r" "re_facades ?r = re_facades r" "re_deletions ?r = re_deletions r" "re_closed ?r = re_closed r"
    by (simp_all add: fork_finish_def release_id_def)
  have "map_ok ?r" by (rule map_ok_frame [OF p(2)]) (simp_all add: fields)
  moreover have "owners_ok ?r" by (rule owners_ok_frame [OF p(3)]) (simp_all add: fields)
  moreover have "lines_ok ?r" by (rule lines_ok_frame [OF p(4)]) (simp_all add: fields holds_def)
  moreover have "losses_ok ?r" using p(6) by (simp add: losses_ok_def fields)
  moreover have "forks_ok ?r"
  proof -
    have live: "live_fork ?r l \<longleftrightarrow> live_fork r l \<and> l \<noteq> j" for l using j by (auto simp: live_fork_def fork_finish_def release_id_def upd_nth split: if_splits)
    have same: "fk_id (re_forks ?r ! l) = fk_id (re_forks r ! l)" "fk_captured (re_forks ?r ! l) = fk_captured (re_forks r ! l)" if "l < length (re_forks r)" for l
      using that by (simp_all add: fork_finish_def release_id_def upd_nth)
    have lt: "l < length (re_forks r)" if "live_fork r l" for l using that by (simp add: live_fork_def)
    have pend: "x \<in> set (re_pendingIds ?r) \<longleftrightarrow> x \<in> set (re_pendingIds r) \<and> x \<noteq> fk_id (re_forks r ! j)" for x by (auto simp: fork_finish_def release_id_def)
    have "live_fork r j" using j by (simp add: live_fork_def)
    with p(5) have "x \<in> set (re_pendingIds ?r) \<longleftrightarrow> (\<exists>l. live_fork ?r l \<and> fk_id (re_forks ?r ! l) = x)" for x
      unfolding pend live forks_ok_def using same(1) lt by metis
    moreover have "l = k" if "live_fork ?r l" "live_fork ?r k" "fk_id (re_forks ?r ! l) = fk_id (re_forks ?r ! k)" for l k
      using that p(5) same(1) lt unfolding live forks_ok_def by metis
    moreover have "\<forall>x\<in>set (re_pendingIds ?r). \<not> has_key (re_sessions ?r) x" using p(5) pend fields(2) unfolding forks_ok_def by metis
    moreover have "\<forall>l<length (re_forks ?r). \<forall>x. fk_captured (re_forks ?r ! l) = Inr x \<longrightarrow> (\<exists>s. storage_reachable s \<and> x = source_of s)"
      using p(5) same(2) unfolding forks_ok_def by (simp add: fork_finish_def release_id_def)
    ultimately show ?thesis unfolding forks_ok_def by blast
  qed
  ultimately show "repo_ok ?r" using p(1) by (simp add: repo_ok_def fields)
  show "fk_id (re_forks r ! j) \<notin> set (re_pendingIds ?r)" by (simp add: fork_finish_def release_id_def)
  show "\<not> has_key (re_sessions r) (fk_id (re_forks r ! j))" using p(5) j unfolding forks_ok_def live_fork_def by blast
qed

lemma fork_finish_add:
  "fork_finish j (fst (add_session r metadata storage)) = fst (add_session (fork_finish j r) metadata storage)"
  by (simp add: fork_finish_def release_id_def add_session_pending case_prod_beta)

lemma fork_end_ok:
  assumes ok: "repo_ok r"
  shows "repo_ok (fst (fork_end r j))"
proof (cases "length (re_forks r) \<le> j \<or> fk_done (re_forks r ! j)")
  case False
  then have j: "j < length (re_forks r)" "\<not> fk_done (re_forks r ! j)" by simp_all
  let ?fk = "re_forks r ! j"
  note fin = fork_finish_ok [OF ok j]
  show ?thesis
  proof (cases "rbind (fk_captured ?fk) (\<lambda>source. rbind (createForkSnapshot source (fk_options ?fk)) memory_fromSnapshot)")
    case (Inl e)
    with j fin(1) show ?thesis by (simp add: fork_end_def Let_def)
  next
    case (Inr storage)
    then obtain source d where src: "fk_captured ?fk = Inr source" "createForkSnapshot source (fk_options ?fk) = Inr d" "memory_fromSnapshot d = Inr storage"
      by (auto simp: rbind_eq_Inr)
    obtain s where s: "storage_reachable s" "source = source_of s" by (rule fork_source [OF repo_okD(5) [OF ok] j(1) src(1)])
    obtain m where "memory_fromSnapshot d = Inr m" "memory_ready m" by (rule fromSnapshot_ready [OF s(1) src(2) [unfolded s(2)]])
    with src(3) have m: "memory_ready storage" by simp
    let ?meta = "\<lparr>sm_id = fk_id ?fk, sm_createdAt = fk_createdAt ?fk, sm_storageVersion = MEMORY_STORAGE_VERSION, sm_cwd = None,
      sm_parentSessionId = Some (fk_parent ?fk), sm_legacyParentSessionPath = None\<rparr>"
    have "fst (fork_end r j) = fst (add_session (fork_finish j r) ?meta storage)"
      using False Inr by (simp add: fork_end_def Let_def case_prod_beta fork_finish_add)
    moreover have "repo_ok (fst (add_session (fork_finish j r) ?meta storage))"
      by (rule add_session_ok [OF fin(1) _ _ m]) (use fin in \<open>simp_all add: fork_finish_def release_id_def\<close>)
    ultimately show ?thesis by simp
  qed
qed (use ok in \<open>simp add: fork_end_def\<close>)

lemma repo_close_ok:
  assumes ok: "repo_ok r"
  shows "repo_ok (repo_close r)"
proof (cases "re_closed r")
  case False
  note p = repo_okD [OF ok]
  let ?r = "repo_close r"
  have fields: "re_sessions ?r = re_sessions r" "re_facades ?r = re_facades r" "re_deletions ?r = re_deletions r" "re_closed ?r" "re_forks ?r = re_forks r"
      "re_pendingIds ?r = re_pendingIds r" "length (re_records ?r) = length (re_records r)"
    using False by (simp_all add: repo_close_def)
  have at: "record_at ?r k = (record_at r k)\<lparr>sr_session := session_close_begin (sr_session (record_at r k))\<rparr> \<or> record_at ?r k = record_at r k"
    if "k < length (re_records r)" for k
    using that False by (auto simp: repo_close_def)
  then have same: "sr_metadata (record_at ?r k) = sr_metadata (record_at r k)" "sr_open (record_at ?r k) = sr_open (record_at r k)"
      "sr_line (record_at ?r k) = sr_line (record_at r k)" if "k < length (re_records r)" for k
    using at [OF that] by auto
  have "map_ok ?r" by (rule map_ok_frame [OF p(2)]) (simp_all add: fields same)
  moreover have "owners_ok ?r" by (rule owners_ok_frame [OF p(3)]) (simp_all add: fields same)
  moreover have "lines_ok ?r" by (rule lines_ok_frame [OF p(4)]) (simp_all add: fields same holds_def)
  moreover have "losses_ok ?r" using p(6) by (simp add: losses_ok_def fields same)
  moreover have "forks_ok ?r" by (rule forks_ok_frame [OF p(5)]) (simp_all add: fields)
  moreover have "record_ok rec" if "rec \<in> set (re_records ?r)" for rec
  proof -
    from that obtain k where "k < length (re_records r)" "rec = record_at ?r k" by (auto simp: in_set_conv_nth fields)
    with at [of k] p(1) [of "record_at r k"] close_begin_ok [of "record_at r k"] show ?thesis by auto
  qed
  ultimately show ?thesis by (simp add: repo_ok_def)
qed (use ok in \<open>simp add: repo_close_def\<close>)

lemma session_drained_ok: "repo_ok r \<Longrightarrow> repo_ok (session_drained r k)"
  unfolding session_drained_def
  by (auto intro!: repo_ok_update simp: session_close_drained_def memory_ops_def memory_close_def)
    (auto simp: repo_ok_def record_ok_def lines_ok_def)

lemma facade_record: "repo_ok r \<Longrightarrow> f < length (re_facades r) \<Longrightarrow> fa_record (re_facades r ! f) < length (re_records r)"
  by (simp add: repo_ok_def owners_ok_def)

lemma facade_admit_ok:
  assumes ok: "repo_ok r" and f: "f < length (re_facades r)"
  shows "repo_ok (fst (facade_admit r f c))"
proof (cases "fa_state (re_facades r ! f) = IsOpen \<and> is_ok (call_guard c (sr_session (record_at r (fa_record (re_facades r ! f)))))")
  case True
  let ?k = "fa_record (re_facades r ! f)"
  note len = facade_record [OF ok f]
  have "repo_ok (update_record ?k (\<lambda>rec. rec\<lparr>sr_line := sr_line rec @ [(f, c)]\<rparr>) r)"
    by (rule repo_ok_update [OF ok len]) (use repo_okD(1,4) [OF ok] nth_mem [OF len] True f len in \<open>auto simp: record_ok_def lines_ok_def holds_def\<close>)
  with True show ?thesis by (auto simp: facade_admit_def Let_def repo_try_def is_ok_iff)
next
  case False
  then have "fst (facade_admit r f c) = r" by (auto simp: facade_admit_def Let_def repo_try_def is_ok_iff split: sum.splits)
  with ok show ?thesis by simp
qed

lemma call_turn_ok:
  assumes ok: "repo_ok r"
  shows "repo_ok (fst (call_turn r k now))"
proof (cases "length (re_records r) \<le> k \<or> sr_line (record_at r k) = []")
  case True
  then have "fst (call_turn r k now) = r" by (auto simp: call_turn_def)
  with ok show ?thesis by simp
next
  case False
  then obtain f c rest where l: "sr_line (record_at r k) = (f, c) # rest" and len: "k < length (re_records r)" by (cases "sr_line (record_at r k)") auto
  let ?se = "sr_session (record_at r k)"
  let ?x = "if se_state ?se \<noteq> IsOpen then (?se, Inl SessionClosed) else run_call c (fa_state (re_facades r ! f)) now ?se"
  have kept: "session_kept ?se (fst ?x)" using run_call_kept by auto
  have "repo_ok (update_record k (\<lambda>rec. rec\<lparr>sr_line := rest, sr_session := fst ?x\<rparr>) r)"
    using repo_okD(1) [OF ok nth_mem [OF len]] repo_okD(4) [OF ok] kept len l
    by (intro repo_ok_update [OF ok len]) (auto simp: record_ok_def session_kept_def storage_kept_def lines_ok_def)
  then show ?thesis using len l by (cases "se_state ?se = IsOpen") (simp_all add: call_turn_def case_prod_beta)
qed

lemma facade_close_ok:
  assumes ok: "repo_ok r" and f: "f < length (re_facades r)"
  shows "repo_ok (facade_close r f)"
proof (cases "fa_state (re_facades r ! f) = IsOpen")
  case True
  note p = repo_okD [OF ok]
  let ?r = "r\<lparr>re_facades := (re_facades r)[f := (re_facades r ! f)\<lparr>fa_state := IsClosing\<rparr>]\<rparr>"
  have h: "holds ?r = holds r" using True by (auto simp: holds_def fun_eq_iff upd_nth split: if_splits)
  have "map_ok ?r" by (rule map_ok_frame [OF p(2)]) simp_all
  moreover have "owners_ok ?r" using p(3) unfolding owners_ok_def h by (auto simp: upd_nth)
  moreover have "lines_ok ?r" by (rule lines_ok_frame [OF p(4)]) (simp_all add: h)
  moreover have "losses_ok ?r" using p(6) by (simp add: losses_ok_def)
  moreover have "forks_ok ?r" by (rule forks_ok_frame [OF p(5)]) simp_all
  ultimately show ?thesis using p(1) True by (simp add: repo_ok_def facade_close_def)
qed (use ok in \<open>simp add: facade_close_def\<close>)

lemma facade_settled_ok:
  assumes ok: "repo_ok r" and f: "f < length (re_facades r)"
  shows "repo_ok (facade_settled r f)"
proof (cases "fa_state (re_facades r ! f) = IsClosing \<and> f \<notin> fst ` set (sr_line (record_at r (fa_record (re_facades r ! f))))")
  case True
  note p = repo_okD [OF ok]
  let ?k = "fa_record (re_facades r ! f)"
  let ?r = "facade_settled r f"
  note len = facade_record [OF ok f]
  have fields: "re_sessions ?r = re_sessions r" "re_deletions ?r = re_deletions r" "re_forks ?r = re_forks r" "re_closed ?r = re_closed r"
      "re_pendingIds ?r = re_pendingIds r" "re_records ?r = (re_records r)[?k := (record_at r ?k)\<lparr>sr_open := False\<rparr>]"
      "re_facades ?r = (re_facades r)[f := (re_facades r ! f)\<lparr>fa_state := IsClosed\<rparr>]"
    using True by (simp_all add: facade_settled_def) (simp add: update_record_def)
  have h: "holds ?r g j \<longleftrightarrow> holds r g j \<and> g \<noteq> f" for g j by (auto simp: holds_def fields upd_nth split: if_splits)
  have mine: "holds r f ?k" using True f by (simp add: holds_def)
  have "map_ok ?r" by (rule map_ok_frame [OF p(2)]) (simp_all add: fields upd_nth)
  moreover have "owners_ok ?r"
  proof -
    have "fa_record (re_facades ?r ! g) < length (re_records ?r)" if "g < length (re_facades ?r)" for g
      using that p(3) by (auto simp: owners_ok_def fields upd_nth)
    moreover have "sr_open (record_at ?r j) \<longleftrightarrow> (\<exists>g. holds ?r g j)" if "j < length (re_records ?r)" for j
    proof (cases "j = ?k")
      case True
      have "g = f" if "holds r g ?k" for g using p(3) mine that unfolding owners_ok_def by blast
      with True len show ?thesis unfolding h by (auto simp: fields)
    next
      case False
      with that p(3) mine show ?thesis unfolding h by (auto simp: fields upd_nth owners_ok_def holds_def)
    qed
    moreover have "g = g'" if "holds ?r g j" "holds ?r g' j" for g g' j using that p(3) unfolding h owners_ok_def by blast
    ultimately show ?thesis unfolding owners_ok_def by blast
  qed
  moreover have "lines_ok ?r"
  proof (rule lines_ok_frame [OF p(4)])
    fix g j assume "holds r g j" "j < length (re_records r)" "g \<in> fst ` set (sr_line (record_at r j))"
    with True mine show "holds ?r g j" unfolding h by (auto simp: holds_def)
  qed (simp_all add: fields upd_nth)
  moreover have "losses_ok ?r" using p(6) by (auto simp: losses_ok_def fields upd_nth)
  moreover have "forks_ok ?r" by (rule forks_ok_frame [OF p(5)]) (simp_all add: fields)
  moreover have "\<forall>rec\<in>set (re_records ?r). record_ok rec"
    using p(1) nth_mem [OF len] by (auto simp: fields record_ok_def dest!: set_update_subset_insert [THEN subsetD])
  ultimately show ?thesis by (simp add: repo_ok_def)
next
  case False
  then have "facade_settled r f = r" by (auto simp: facade_settled_def Let_def)
  with ok show ?thesis by simp
qed

lemmas repo_step_oks = repo_create_ok repo_open_ok delete_begin_ok delete_end_ok fork_begin_ok fork_end_ok repo_close_ok session_drained_ok
  facade_admit_ok call_turn_ok facade_close_ok facade_settled_ok

lemma repo_step_ok: "repo_ok r \<Longrightarrow> repo_ok (repo_step r ev)"
  by (cases ev) (simp_all add: repo_step_oks)

lemma repo_history_ok: "repo_ok (foldl repo_step new_repo evs)"
proof (induction evs rule: rev_induct)
  case Nil
  show ?case
    by (simp add: repo_ok_def new_repo_def map_ok_def owners_ok_def lines_ok_def forks_ok_def losses_ok_def holds_def live_fork_def)
qed (simp add: repo_step_ok)

section \<open>The properties\<close>


definition sample_options :: session_create_options where
  "sample_options = \<lparr>sco_id = Some (js ''s''), sco_parentSessionId = None\<rparr>"

definition sample_metadata :: session_metadata where
  "sample_metadata = \<lparr>sm_id = js ''s'', sm_createdAt = 5, sm_storageVersion = 1, sm_cwd = None, sm_parentSessionId = None, sm_legacyParentSessionPath = None\<rparr>"

lemmas repo_eval = new_repo_def repo_create_def repo_open_def repo_try_def repo_assertOpen_def reserveId_def release_id_def add_session_def openRecord_def
  new_record_def new_session_def delete_begin_def delete_end_def update_record_def session_drained_def session_close_begin_def session_close_drained_def
  facade_close_def facade_settled_def sample_options_def sample_metadata_def MEMORY_STORAGE_VERSION_def Let_def


text \<open>
  The exceptions are real: a session that is opened while its deletion waits for the close is deleted under its open facade, in a repository that was never closed.
\<close>

lemma deletion_under_facade:
  "let r = foldl repo_step new_repo
       [RepoCreate sample_options 5 [], FacadeClose 0, FacadeSettled 0, RepoDelete sample_metadata, RepoOpen sample_metadata, SessionDrained 0, DeleteEnd 0] in
     fa_state (re_facades r ! 1) = IsOpen \<and> fa_record (re_facades r ! 1) = 0 \<and> se_state (sr_session (record_at r 0)) = IsClosed \<and>
     re_sessions r = [] \<and> \<not> re_closed r"
  by (simp add: repo_eval)

section \<open>Forks\<close>

text \<open>Nothing but its own end changes a fork that waits.\<close>

lemma forks_step:
  assumes "j < length (re_forks r)"
  shows "j < length (re_forks (repo_step r ev)) \<and> (\<exists>b. re_forks (repo_step r ev) ! j = (re_forks r ! j)\<lparr>fk_done := b\<rparr>)"
proof -
  have same: "\<exists>b. re_forks r ! j = (re_forks r ! j)\<lparr>fk_done := b\<rparr>" by (rule exI [of _ "fk_done (re_forks r ! j)"]) simp
  show ?thesis
  proof (cases ev)
    case (RepoCreate options t uuid)
    have "re_forks (fst (repo_create r options t uuid)) = re_forks r"
      by (auto simp: repo_create_def repo_try_def repo_assertOpen_def reserveId_def Let_def case_prod_beta release_id_def)
    with assms same show ?thesis by (simp add: RepoCreate)
  next
    case (RepoOpen metadata)
    have "re_forks (fst (repo_open r metadata)) = re_forks r"
      by (auto simp: repo_open_def repo_try_def repo_assertOpen_def openRecord_def split: option.splits)
    with assms same show ?thesis by (simp add: RepoOpen)
  next
    case (RepoDelete metadata)
    have "re_forks (fst (delete_begin r metadata)) = re_forks r"
      by (auto simp: delete_begin_def repo_try_def repo_assertOpen_def split: option.splits)
    with assms same show ?thesis by (simp add: RepoDelete)
  next
    case (RepoFork source options t uuid)
    have "fst (fork_begin r source options t uuid) = r \<or> (\<exists>fk. re_forks (fst (fork_begin r source options t uuid)) = re_forks r @ [fk])"
      by (auto simp: fork_begin_def repo_try_def repo_assertOpen_def reserveId_def Let_def split: option.splits)
    with assms same show ?thesis by (auto simp: RepoFork nth_append)
  next
    case (ForkEnd l)
    have "fst (fork_end r l) = r \<or> re_forks (fst (fork_end r l)) = (re_forks r)[l := (re_forks r ! l)\<lparr>fk_done := True\<rparr>]"
      by (auto simp: fork_end_def Let_def fork_finish_def release_id_def case_prod_beta split: sum.splits)
    with assms same show ?thesis by (auto simp: ForkEnd upd_nth)
  next
    case (FacadeCall f c)
    have "re_forks (fst (facade_admit r f c)) = re_forks r" by (auto simp: facade_admit_def Let_def repo_try_def split: sum.splits)
    with assms same show ?thesis by (simp add: FacadeCall)
  next
    case (CallTurn k now)
    have "re_forks (fst (call_turn r k now)) = re_forks r" by (auto simp: call_turn_def case_prod_beta split: list.splits)
    with assms same show ?thesis by (simp add: CallTurn)
  qed (use assms same in \<open>auto simp: delete_end_def repo_close_def session_drained_def facade_close_def facade_settled_def Let_def\<close>)
qed

lemma forks_kept:
  assumes "j < length (re_forks r)"
  shows "j < length (re_forks (foldl repo_step r evs)) \<and> (\<exists>b. re_forks (foldl repo_step r evs) ! j = (re_forks r ! j)\<lparr>fk_done := b\<rparr>)"
proof (induction evs rule: rev_induct)
  case Nil
  show ?case using assms by (auto intro: exI [of _ "fk_done (re_forks r ! j)"])
next
  case (snoc ev evs)
  with forks_step [of j "foldl repo_step r evs" ev] show ?case by auto
qed

lemma fork_begin_result:
  assumes "\<not> re_closed r" "map_of (re_sessions r) (sm_id source) = Some k" "i = (case fork_id options of Some i \<Rightarrow> i | None \<Rightarrow> uuid)"
    and "\<not> has_key (re_sessions r) i" "i \<notin> set (re_pendingIds r)"
  shows "fork_begin r source options t uuid =
    (r\<lparr>re_pendingIds := re_pendingIds r @ [i],
       re_forks := re_forks r @ [\<lparr>fk_id = i, fk_parent = sm_id (sr_metadata (record_at r k)), fk_createdAt = t, fk_options = options,
         fk_captured = memory_captureForkSource (se_storage (sr_session (record_at r k))), fk_done = False\<rparr>]\<rparr>, Inr (length (re_forks r)))"
  using assms(1,2,4,5) by (simp add: fork_begin_def repo_try_def repo_assertOpen_def reserveId_def Let_def assms(3) [symmetric])

lemma fork_end_result:
  assumes ok: "repo_ok r" and j: "live_fork r j" and fk: "fk = re_forks r ! j"
  shows "fk_id fk \<notin> set (re_pendingIds (fst (fork_end r j))) \<and>
    (case rbind (fk_captured fk) (\<lambda>source. createForkSnapshot source (fk_options fk)) of
       Inl e \<Rightarrow> fork_end r j = (fork_finish j r, Some (Inl e))
     | Inr d \<Rightarrow> \<exists>m metadata. memory_ready m \<and> map_of (s_entries (ms_storageState m)) = map_of (fd_entries d) \<and>
         sm_id metadata = fk_id fk \<and> sm_parentSessionId metadata = Some (fk_parent fk) \<and>
         fork_end r j = (fst (add_session (fork_finish j r) metadata m), Some (Inr (length (re_facades r)))))"
proof (cases "rbind (fk_captured fk) (\<lambda>source. createForkSnapshot source (fk_options fk))")
  case (Inl e)
  then have "rbind (fk_captured fk) (\<lambda>source. rbind (createForkSnapshot source (fk_options fk)) memory_fromSnapshot) = Inl e"
    by (cases "fk_captured fk") auto
  with j have "fork_end r j = (fork_finish j r, Some (Inl e))" by (simp add: fork_end_def fk live_fork_def Let_def)
  with Inl show ?thesis by (simp add: fork_finish_def release_id_def fk)
next
  case (Inr d)
  then obtain source where src: "fk_captured fk = Inr source" "createForkSnapshot source (fk_options fk) = Inr d" by (auto simp: rbind_eq_Inr)
  from j have j': "j < length (re_forks r)" by (simp add: live_fork_def)
  obtain s where s: "storage_reachable s" "source = source_of s" by (rule fork_source [OF repo_okD(5) [OF ok] j' src(1) [unfolded fk]])
  obtain m where m: "memory_fromSnapshot d = Inr m" "memory_ready m" "map_of (s_entries (ms_storageState m)) = map_of (fd_entries d)"
    by (rule fromSnapshot_ready [OF s(1) src(2) [unfolded s(2)]])
  let ?meta = "\<lparr>sm_id = fk_id fk, sm_createdAt = fk_createdAt fk, sm_storageVersion = MEMORY_STORAGE_VERSION, sm_cwd = None,
    sm_parentSessionId = Some (fk_parent fk), sm_legacyParentSessionPath = None\<rparr>"
  have "fork_end r j = (fst (add_session (fork_finish j r) ?meta m), Some (Inr (length (re_facades r))))"
    using j src m(1) by (simp add: fork_end_def Let_def live_fork_def fk [symmetric] case_prod_beta fork_finish_add)
  with Inr m(2,3) show ?thesis
    by (auto simp: fork_finish_def release_id_def fk intro!: exI [of _ m] exI [of _ ?meta])
qed

text \<open>
  C31. A fork call fails at once and changes nothing when the repository is closed, when it does not know the source, or when the id is taken by a session or by
  another fork under way; otherwise it begins. From then on its id is reserved, whatever else happens, until it ends; and it ends with what the source's storage
  held when it began: either it fails, with the error of the storage or of the snapshot, and adds nothing, or it adds exactly one session under its id, child of the source,
  with an open facade, whose storage is open and reachable and holds exactly the entries of the snapshot. The id is released in both cases.
\<close>

theorem repo_fork_total:
  assumes r: "r = foldl repo_step new_repo evs" and i: "i = (case fork_id options of Some i \<Rightarrow> i | None \<Rightarrow> uuid)"
  shows "case fork_begin r source options t uuid of
    (r1, Inl e) \<Rightarrow> r1 = r \<and> (re_closed r \<and> e = RepoClosed \<or>
       \<not> re_closed r \<and> map_of (re_sessions r) (sm_id source) = None \<and> e = UnknownSession (sm_id source) \<or>
       \<not> re_closed r \<and> (has_key (re_sessions r) i \<or> i \<in> set (re_pendingIds r)) \<and> e = SessionIdExists i)
  | (r1, Inr j) \<Rightarrow> \<not> re_closed r \<and> \<not> has_key (re_sessions r) i \<and> (\<exists>k. map_of (re_sessions r) (sm_id source) = Some k \<and>
       (let r2 = foldl repo_step r1 evs'; r3 = fst (fork_end r2 j) in
          \<not> fk_done (re_forks r2 ! j) \<longrightarrow> reserveId r2 i = Inl (SessionIdExists i) \<and> i \<notin> set (re_pendingIds r3) \<and>
          (case rbind (memory_captureForkSource (se_storage (sr_session (record_at r k)))) (\<lambda>s. createForkSnapshot s options) of
             Inl e \<Rightarrow> snd (fork_end r2 j) = Some (Inl e) \<and> re_records r3 = re_records r2 \<and> re_sessions r3 = re_sessions r2 \<and> re_facades r3 = re_facades r2
           | Inr d \<Rightarrow> snd (fork_end r2 j) = Some (Inr (length (re_facades r2))) \<and>
               (\<exists>m metadata. memory_ready m \<and> map_of (s_entries (ms_storageState m)) = map_of (fd_entries d) \<and>
                  sm_id metadata = i \<and> sm_parentSessionId metadata = Some (sm_id source) \<and> re_records r3 = re_records r2 @ [new_record metadata m] \<and>
                  map_of (re_sessions r3) = (map_of (re_sessions r2))(i \<mapsto> length (re_records r2)) \<and>
                  re_facades r3 = re_facades r2 @ [\<lparr>fa_metadata = metadata, fa_record = length (re_records r2), fa_state = IsOpen\<rparr>]))))"
proof (cases "\<not> re_closed r \<and> map_of (re_sessions r) (sm_id source) \<noteq> None \<and> \<not> has_key (re_sessions r) i \<and> i \<notin> set (re_pendingIds r)")
  case False
  then show ?thesis
    by (auto simp: fork_begin_def repo_try_def repo_assertOpen_def reserveId_def Let_def i [symmetric] split: option.splits)
next
  case True
  then obtain k where k: "map_of (re_sessions r) (sm_id source) = Some k" by blast
  have ok: "repo_ok r" unfolding r by (rule repo_history_ok)
  let ?fk = "\<lparr>fk_id = i, fk_parent = sm_id (sr_metadata (record_at r k)), fk_createdAt = t, fk_options = options,
    fk_captured = memory_captureForkSource (se_storage (sr_session (record_at r k))), fk_done = False\<rparr>"
  let ?r1 = "r\<lparr>re_pendingIds := re_pendingIds r @ [i], re_forks := re_forks r @ [?fk]\<rparr>" and ?j = "length (re_forks r)"
  have b: "fork_begin r source options t uuid = (?r1, Inr ?j)" using fork_begin_result [OF _ k i] True by simp
  define r2 where "r2 = foldl repo_step ?r1 evs'"
  have ok2: "repo_ok r2"
    using repo_history_ok [of "evs @ RepoFork source options t uuid # evs'"] by (simp add: r2_def b r [symmetric])
  from forks_kept [of ?j ?r1 evs', folded r2_def] have fk2: "?j < length (re_forks r2)" "\<exists>x. re_forks r2 ! ?j = ?fk\<lparr>fk_done := x\<rparr>" by (simp_all add: nth_append)
  have parent: "sm_id (sr_metadata (record_at r k)) = sm_id source" by (rule mapped_record(2) [OF ok k])
  have main: "reserveId r2 i = Inl (SessionIdExists i) \<and> i \<notin> set (re_pendingIds (fst (fork_end r2 ?j))) \<and>
      (case rbind (fk_captured ?fk) (\<lambda>s. createForkSnapshot s options) of
         Inl e \<Rightarrow> fork_end r2 ?j = (fork_finish ?j r2, Some (Inl e))
       | Inr d \<Rightarrow> \<exists>m metadata. memory_ready m \<and> map_of (s_entries (ms_storageState m)) = map_of (fd_entries d) \<and>
           sm_id metadata = i \<and> sm_parentSessionId metadata = Some (sm_id source) \<and>
           fork_end r2 ?j = (fst (add_session (fork_finish ?j r2) metadata m), Some (Inr (length (re_facades r2)))))"
    if "\<not> fk_done (re_forks r2 ! ?j)"
  proof -
    from that fk2 have live: "live_fork r2 ?j" and fk: "re_forks r2 ! ?j = ?fk" by (auto simp: live_fork_def)
    have "i \<in> set (re_pendingIds r2)" using repo_okD(5) [OF ok2] live fk unfolding forks_ok_def by force
    then have "reserveId r2 i = Inl (SessionIdExists i)" by (simp add: reserveId_def)
    with fork_end_result [OF ok2 live fk [symmetric], unfolded fork_call.select_convs parent] show ?thesis unfolding fork_call.select_convs by simp
  qed
  have fin: "re_records (fork_finish l x) = re_records x" "re_sessions (fork_finish l x) = re_sessions x" "re_facades (fork_finish l x) = re_facades x" for l x
    by (simp_all add: fork_finish_def release_id_def)
  show ?thesis
    unfolding b prod.case sum.case Let_def r2_def [symmetric]
    using True k main
    by (cases "rbind (fk_captured ?fk) (\<lambda>s. createForkSnapshot s options)") (fastforce simp: fin update_conv')+
qed

text \<open>The session with one configured lane, in a repository, and its fork before the last entry; its facade begins to close in between.\<close>

definition sample_events :: "repo_event list" where
  "sample_events = [RepoCreate sample_options 5 [], FacadeCall 0 (CallMutate lane_writes), CallTurn 0 7]"

definition sample_fork :: fork_options where
  "sample_fork = ForkBranch (js ''main'') (Some (js ''b'')) (Some PositionBefore) None"

lemma lane_commit: "fst (commit_job new_storage_state lane_writes 7) = lane_session"
proof -
  have "prepareCommit new_storage_state lane_writes 7 = Inr lane_prepared"
    by (simp add: prepareCommit_def validateCommitted_def validateCommittedWrites_def lane_prepared_def lane_writes_def
        prepareStorageCommit_def sample_entry_def new_storage_state_def Let_def)
  then show ?thesis by (simp add: commit_job_def lane_session_def case_prod_beta)
qed

lemma sample_call:
  "fst (run_call (CallMutate lane_writes) IsOpen 7 (new_session metadata new_memory_storage)) = new_session metadata (new_memory_storage\<lparr>ms_storageState := lane_session\<rparr>)"
proof -
  have "\<not> (\<exists>w\<in>set lane_writes. pending_assistant_write w)" by (simp add: lane_writes_def pending_assistant_write_def sample_entry_def)
  then show ?thesis
    by (simp add: forget_def mutate_def assertOpen_def new_session_def new_mutation_def mutation_commit_def mutation_end_def memory_ops_def memory_commit_def
        new_memory_storage_def case_prod_beta lane_commit)
qed

lemma sample_repo_state:
  "re_records (foldl repo_step new_repo sample_events) =
     [\<lparr>sr_metadata = sample_metadata, sr_session = new_session sample_metadata (new_memory_storage\<lparr>ms_storageState := lane_session\<rparr>), sr_open = True, sr_line = []\<rparr>]"
  "re_sessions (foldl repo_step new_repo sample_events) = [(js ''s'', 0)]" "\<not> re_closed (foldl repo_step new_repo sample_events)"
  "re_forks (foldl repo_step new_repo sample_events) = []" "re_pendingIds (foldl repo_step new_repo sample_events) = []"
  "re_facades (foldl repo_step new_repo sample_events) = [\<lparr>fa_metadata = sample_metadata, fa_record = 0, fa_state = IsOpen\<rparr>]"
  using sample_call [of sample_metadata]
  by (simp_all add: sample_events_def repo_eval facade_admit_def call_turn_def assertOpen_def case_prod_beta del: run_call.simps)

theorem repo_fork_total_witness:
  "let r = foldl repo_step new_repo sample_events; r1 = fst (fork_begin r sample_metadata sample_fork 9 (js ''t'')); r3 = fst (fork_end (repo_step r1 (FacadeClose 0)) 0) in
     map_of (re_sessions r3) (js ''t'') = Some 1 \<and>
     (\<exists>m metadata. re_records r3 = re_records (repo_step r1 (FacadeClose 0)) @ [new_record metadata m] \<and> memory_ready m \<and>
        map_of (s_entries (ms_storageState m)) = map_of [(js ''a'', materializeCommittedEntry (sample_entry ''a'' None) 1 7)])"
proof -
  let ?r = "foldl repo_step new_repo sample_events"
  note st = sample_repo_state
  have k: "map_of (re_sessions ?r) (sm_id sample_metadata) = Some 0" by (simp add: st sample_metadata_def)
  have i: "js ''t'' = (case fork_id sample_fork of Some i \<Rightarrow> i | None \<Rightarrow> js ''t'')" by (simp add: sample_fork_def)
  let ?fk = "\<lparr>fk_id = js ''t'', fk_parent = sm_id (sr_metadata (record_at ?r 0)), fk_createdAt = 9, fk_options = sample_fork,
    fk_captured = memory_captureForkSource (se_storage (sr_session (record_at ?r 0))), fk_done = False\<rparr>"
  define r1 where "r1 = ?r\<lparr>re_pendingIds := re_pendingIds ?r @ [js ''t''], re_forks := re_forks ?r @ [?fk]\<rparr>"
  define r2 where "r2 = repo_step r1 (FacadeClose 0)"
  have b: "fork_begin ?r sample_metadata sample_fork 9 (js ''t'') = (r1, Inr 0)"
    using fork_begin_result [where t = 9, OF st(3) k i] by (simp add: st r1_def)
  have r2: "\<not> fk_done (re_forks r2 ! 0)" "length (re_records r2) = 1" by (simp_all add: st facade_close_def r2_def r1_def)
  have cap: "rbind (memory_captureForkSource (se_storage (sr_session (record_at ?r 0)))) (\<lambda>s. createForkSnapshot s sample_fork) =
      createForkSnapshot (source_of lane_session) sample_fork"
    by (simp add: st new_session_def capture_source new_memory_storage_def)
  have f: "foldl repo_step r1 [FacadeClose 0] = r2" by (simp add: r2_def)
  have "\<exists>m metadata. memory_ready m \<and>
      map_of (s_entries (ms_storageState m)) = map_of [(js ''a'', materializeCommittedEntry (sample_entry ''a'' None) 1 7)] \<and>
      re_records (fst (fork_end r2 0)) = re_records r2 @ [new_record metadata m] \<and>
      map_of (re_sessions (fst (fork_end r2 0))) = (map_of (re_sessions r2))(js ''t'' \<mapsto> length (re_records r2))"
    using repo_fork_total [where evs = sample_events and evs' = "[FacadeClose 0]" and source = sample_metadata and t = 9, OF refl i] r2(1)
    unfolding b k Let_def prod.case sum.case f option.inject
    by (elim conjE exE) (simp add: cap, simp add: sample_fork_def lane_session_fork, blast)
  then show ?thesis unfolding b fst_conv Let_def r2_def [symmetric] using r2(2) by (elim exE conjE) (intro conjI exI; simp)
qed

text \<open>A fork that waits while the repository closes still adds its session, which nothing closes.\<close>

lemma fork_into_closed:
  "let r1 = fst (fork_begin (foldl repo_step new_repo [RepoCreate sample_options 5 []]) sample_metadata (ForkTree (Some (js ''t''))) 9 []);
       r = foldl repo_step r1 [RepoClose, ForkEnd 0] in
     re_closed r \<and> fa_state (re_facades r ! 1) = IsOpen \<and> se_state (sr_session (record_at r 1)) = IsOpen \<and> map_of (re_sessions r) (js ''t'') = Some 1"
proof -
  have "createForkSnapshot (source_of new_storage_state) (ForkTree (Some (js ''t''))) = Inr \<lparr>fd_entries = [], fd_scalarValues = [], fd_nextSeq = 1\<rparr>"
    by (simp add: createForkSnapshot_def source_of_def snapshotEntriesAndValues_def new_storage_state_def branchTip_def value_address_def
        validateAddress_def js_nonzero storedValuesInNamespace_def validateForkSourceSnapshot_def selectForkContents_def map_values_def)
  moreover have "\<exists>m. memory_fromSnapshot \<lparr>fd_entries = [], fd_scalarValues = [], fd_nextSeq = 1\<rparr> = Inr m"
    using calculation fromSnapshot_ready [OF storage_reachable.init] by blast
  ultimately show ?thesis
    by (auto simp: repo_eval fork_begin_def fork_end_def fork_finish_def repo_close_def capture_source new_memory_storage_def)
qed

section \<open>Calls through a facade\<close>


lemma call_turn_fields [simp]:
  "re_facades (fst (call_turn r k now)) = re_facades r" "length (re_records (fst (call_turn r k now))) = length (re_records r)"
  by (auto simp: call_turn_def case_prod_beta split: list.splits)









end
