(* ===== verification/Js_Print.thy ===== *)
theory Js_Print
  imports Agent_Messages
begin

text \<open>
  What the sources use of the standard library to order, multiply and print numbers and to print JSON: the relations \<^verbatim>\<open><\<close> and \<^verbatim>\<open><=\<close>,
  multiplication, \<^verbatim>\<open>Math.floor\<close> and \<^verbatim>\<open>Math.min\<close>, \<^verbatim>\<open>Number.prototype.toString\<close> and \<^verbatim>\<open>JSON.stringify\<close>.
\<close>

section \<open>Order and arithmetic\<close>

text \<open>An infinity has the largest multiple of all, so the multiples order all numbers but NaN.\<close>

definition num_less :: "jnum \<Rightarrow> jnum \<Rightarrow> bool" where
  "num_less a b \<longleftrightarrow> \<not> num_nan a \<and> \<not> num_nan b \<and> num_scaled a < num_scaled b"

definition num_less_eq :: "jnum \<Rightarrow> jnum \<Rightarrow> bool" where
  "num_less_eq a b \<longleftrightarrow> \<not> num_nan a \<and> \<not> num_nan b \<and> num_scaled a \<le> num_scaled b"

lemma num_less_ints [simp]: "num_less (JInt i) (JInt j) \<longleftrightarrow> i < j" "num_less_eq (JInt i) (JInt j) \<longleftrightarrow> i \<le> j"
  by (simp_all add: num_less_def num_less_eq_def num_nan_def)

definition infinity :: "bool \<Rightarrow> jnum" where
  "infinity negative = JDbl (if negative then 0xfff0000000000000 else 0x7ff0000000000000)"

definition num_negative :: "jnum \<Rightarrow> bool" where
  "num_negative a = (case a of JInt i \<Rightarrow> i < 0 | JDbl b \<Rightarrow> dbl_sgn b < 0)"

definition num_neg :: "jnum \<Rightarrow> jnum" where
  "num_neg a =
     (case a of
        JInt i \<Rightarrow> if i = 0 then JDbl neg_zero else JInt (- i)
      | JDbl b \<Rightarrow> if b = neg_zero then JInt 0 else JDbl (xor b neg_zero))"

definition num_sub :: "jnum \<Rightarrow> jnum \<Rightarrow> jnum" where
  "num_sub a b = num_add a (num_neg b)"

text \<open>
  The exact product of two finite numbers is an integral multiple of \<open>2 ^ (- 2148)\<close>; it is rounded to 53 significant bits, or to a multiple of
  \<open>2 ^ (- 1074)\<close> when it is that small.
\<close>

definition round_product :: "nat \<Rightarrow> nat" where
  "round_product n =
     (let s = max 1074 (bit_length n - 53); q = n div 2 ^ s; r = n mod 2 ^ s in
        (if 2 * r < 2 ^ s \<or> 2 * r = 2 ^ s \<and> even q then q else Suc q) * 2 ^ (s - 1074))"

definition num_mul :: "jnum \<Rightarrow> jnum \<Rightarrow> jnum" where
  "num_mul a b =
     (let negative = (num_negative a \<noteq> num_negative b) in
      if num_nan a \<or> num_nan b then quiet_nan
      else if \<not> num_finite a \<or> \<not> num_finite b then (if num_zero a \<or> num_zero b then quiet_nan else infinity negative)
      else number_of_bits (of_nat (scaled_bits (round_product (nat \<bar>num_scaled a * num_scaled b\<bar>)) + (if negative then 2 ^ 63 else 0))))"

text \<open>\<^verbatim>\<open>Math.floor\<close>: a fraction between minus one and zero gives minus one, a positive one below one gives zero.\<close>

definition num_floor :: "jnum \<Rightarrow> jnum" where
  "num_floor a = (case a of JInt i \<Rightarrow> a | JDbl b \<Rightarrow> if \<not> dbl_finite b \<or> b = neg_zero then a else JInt (dbl_scaled b div 2 ^ 1074))"

definition num_min :: "jnum \<Rightarrow> jnum \<Rightarrow> jnum" where
  "num_min a b =
     (if num_nan a \<or> num_nan b then quiet_nan
      else if a = JDbl neg_zero \<and> num_zero b then a
      else if num_less b a then b else if num_less a b then a else b)"

definition num_truthy :: "jnum \<Rightarrow> bool" where
  "num_truthy a \<longleftrightarrow> \<not> num_zero a \<and> \<not> num_nan a"

definition num_max_int :: jnum where
  "num_max_int = JInt max_safe"

section \<open>Printing a number\<close>

text \<open>
  The decimal digits of a positive number \<open>v * 2 ^ (- 1074)\<close>: the shortest \<open>s * 10 ^ e\<close> that rounds to it, and among the shortest the nearest. A decimal
  rounds to a double when it lies between the midpoints with its neighbours, an end belonging to the double with an even significand.
  \<open>rounds_to\<close> compares in units of \<open>2 ^ (- 1076)\<close>.
\<close>

definition gap :: "nat \<Rightarrow> nat" where
  "gap v = (if bit_length v \<le> 53 then 1 else 2 ^ (bit_length v - 53))"

definition scaled_decimal :: "nat \<Rightarrow> int \<Rightarrow> nat \<Rightarrow> nat \<times> nat" where
  "scaled_decimal s e v = (s * 10 ^ nat e * 2 ^ 1076, v * 10 ^ nat (- e))"

definition rounds_to :: "nat \<Rightarrow> int \<Rightarrow> nat \<Rightarrow> bool" where
  "rounds_to s e v =
     (let g = gap v;
          below = (if bit_length v > 53 \<and> v = 2 ^ (bit_length v - 1) then g else 2 * g);
          closed = even (v div g);
          d = fst (scaled_decimal s e v);
          low = snd (scaled_decimal s e (4 * v - below));
          high = snd (scaled_decimal s e (4 * v + 2 * g))
      in (low < d \<and> d < high) \<or> closed \<and> (d = low \<or> d = high))"

definition distance :: "nat \<Rightarrow> int \<Rightarrow> nat \<Rightarrow> nat" where
  "distance s e v =
     (let d = fst (scaled_decimal s e v); x = snd (scaled_decimal s e (4 * v)) in if d \<le> x then x - d else d - x)"

text \<open>The number of digits before the point, negative for a number with zeros after it.\<close>

fun digit_count :: "nat \<Rightarrow> nat" where
  "digit_count n = (if n < 10 then 1 else Suc (digit_count (n div 10)))"

declare digit_count.simps [simp del]

definition decimal_point :: "nat \<Rightarrow> int" where
  "decimal_point v =
     (if 2 ^ 1074 \<le> v then int (digit_count (v div 2 ^ 1074))
      else int (digit_count (v * 10 ^ 330 div 2 ^ 1074)) - 330)"

definition digits_at :: "nat \<Rightarrow> nat \<Rightarrow> (nat \<times> int) option" where
  "digits_at v k =
     (let n = decimal_point v; e = n - int k;
          s = v * 10 ^ nat (- e) div (2 ^ 1074 * 10 ^ nat e);
          found = filter (\<lambda>s. 0 < s \<and> rounds_to s e v) [s, Suc s];
          normal = (\<lambda>s. if s = 10 ^ k then (1, e + int k) else (s, e))
      in case found of
           [] \<Rightarrow> None
         | [s] \<Rightarrow> Some (normal s)
         | s # s' # _ \<Rightarrow> Some (normal (if distance s e v \<le> distance s' e v then s else s')))"

text \<open>Seventeen digits determine a double.\<close>

definition shortest_digits :: "nat \<Rightarrow> nat \<times> int" where
  "shortest_digits v = (case List.map_filter (digits_at v) [1..<18] of [] \<Rightarrow> (0, 0) | d # _ \<Rightarrow> d)"

text \<open>\<open>s\<close> has \<open>k\<close> digits, and the point stands after the \<open>n\<close>-th.\<close>

definition layout_digits :: "nat \<Rightarrow> int \<Rightarrow> jstring" where
  "layout_digits s e =
     (let k = digit_count s; n = int k + e; digits = nat_text s;
          sign = (\<lambda>x :: int. (if x < 0 then js ''-'' else js ''+'') @ nat_text (nat \<bar>x\<bar>)) in
      if int k \<le> n \<and> n \<le> 21 then digits @ replicate (nat (n - int k)) 48
      else if 0 < n \<and> n \<le> 21 then take (nat n) digits @ js ''.'' @ drop (nat n) digits
      else if -6 < n \<and> n \<le> 0 then js ''0.'' @ replicate (nat (- n)) 48 @ digits
      else take 1 digits @ (if k = 1 then [] else js ''.'' @ drop 1 digits) @ js ''e'' @ sign (n - 1))"

definition positive_text :: "nat \<Rightarrow> jstring" where
  "positive_text v = (case shortest_digits v of (s, e) \<Rightarrow> layout_digits s e)"

definition num_text :: "jnum \<Rightarrow> jstring" where
  "num_text a =
     (if num_nan a then js ''NaN''
      else if num_zero a then js ''0''
      else (if num_negative a then js ''-'' else []) @
        (if \<not> num_finite a then js ''Infinity''
         else case a of
             JInt i \<Rightarrow> if \<bar>i\<bar> \<le> max_safe then nat_text (nat \<bar>i\<bar>) else positive_text (nat \<bar>num_scaled a\<bar>)
           | JDbl _ \<Rightarrow> positive_text (nat \<bar>num_scaled a\<bar>)))"

section \<open>Printing JSON\<close>

definition hex_digit :: "nat \<Rightarrow> 16 word" where
  "hex_digit d = (if d < 10 then of_nat (48 + d) else of_nat (87 + d))"

definition unicode_escape :: "nat \<Rightarrow> jstring" where
  "unicode_escape u = [92, 117] @ [hex_digit (u div 4096), hex_digit (u div 256 mod 16), hex_digit (u div 16 mod 16), hex_digit (u mod 16)]"

definition quote_point :: "nat \<Rightarrow> jstring" where
  "quote_point c =
     (if c = 8 then [92, 98] else if c = 9 then [92, 116] else if c = 10 then [92, 110] else if c = 12 then [92, 102]
      else if c = 13 then [92, 114] else if c = 34 then [92, 34] else if c = 92 then [92, 92]
      else if c < 32 \<or> is_surrogate c then unicode_escape c
      else utf16_cp c)"

definition quote_text :: "jstring \<Rightarrow> jstring" where
  "quote_text s = [34] @ concat (map quote_point (code_points s)) @ [34]"

fun join_text :: "jstring \<Rightarrow> jstring list \<Rightarrow> jstring" where
  "join_text sep [] = []"
| "join_text sep [x] = x"
| "join_text sep (x # xs) = x @ sep @ join_text sep xs"

fun stringify :: "json \<Rightarrow> jstring" and stringify_items :: "json list \<Rightarrow> jstring list" and stringify_entries :: "(jstring \<times> json) list \<Rightarrow> jstring list" where
  "stringify Null = js ''null''"
| "stringify (Bool b) = (if b then js ''true'' else js ''false'')"
| "stringify (Num n) = (if num_finite n then num_text n else js ''null'')"
| "stringify (Str s) = quote_text s"
| "stringify (Arr xs) = js ''['' @ join_text (js '','') (stringify_items xs) @ js '']''"
| "stringify (Obj ps) = js ''{'' @ join_text (js '','') (stringify_entries ps) @ js ''}''"
| "stringify_items [] = []"
| "stringify_items (x # xs) = stringify x # stringify_items xs"
| "stringify_entries [] = []"
| "stringify_entries ((k, v) # ps) = (quote_text k @ js '':'' @ stringify v) # stringify_entries ps"

end
