(* ===== verification/Compaction.thy ===== *)
theory Compaction
  imports Js_Print Session_Context Session_Fork
begin

text \<open>
  Preparing and running a compaction or a branch summary: \<^verbatim>\<open>packages/agent/src/harness/compaction\<close>. The request to the provider is a parameter. A
  \<^verbatim>\<open>Set\<close> is a list without duplicates in insertion order, an index of -1 is \<open>None\<close>, and counts of characters and tokens are exact.
\<close>

section \<open>File operations\<close>

definition createFileOps :: durable_file_ops where
  "createFileOps = \<lparr>df_read = [], df_written = [], df_edited = []\<rparr>"

definition add_call :: "tool_call_content \<Rightarrow> durable_file_ops \<Rightarrow> durable_file_ops" where
  "add_call call fileOps =
     (case map_of (tcall_arguments call) (js ''path'') of
        Some (Str path) \<Rightarrow>
          if path = [] then fileOps
          else if tcall_name call = js ''read'' then fileOps\<lparr>df_read := set_add path (df_read fileOps)\<rparr>
          else if tcall_name call = js ''write'' then fileOps\<lparr>df_written := set_add path (df_written fileOps)\<rparr>
          else if tcall_name call = js ''edit'' then fileOps\<lparr>df_edited := set_add path (df_edited fileOps)\<rparr>
          else fileOps
      | _ \<Rightarrow> fileOps)"

fun tool_calls_of :: "assistant_content list \<Rightarrow> tool_call_content list" where
  "tool_calls_of [] = []"
| "tool_calls_of (AsToolCall call # blocks) = call # tool_calls_of blocks"
| "tool_calls_of (_ # blocks) = tool_calls_of blocks"

definition extractFileOpsFromMessage :: "agent_message \<Rightarrow> durable_file_ops \<Rightarrow> durable_file_ops" where
  "extractFileOpsFromMessage message fileOps =
     (case message of
        Llm (AssistantMsg a) \<Rightarrow> fold add_call (tool_calls_of (am_content a)) fileOps
      | _ \<Rightarrow> fileOps)"

text \<open>The strings in the array \<open>field\<close> of the details of a summary.\<close>

definition detail_paths :: "json option \<Rightarrow> jstring \<Rightarrow> jstring list" where
  "detail_paths details field =
     (case details of
        Some (Obj ps) \<Rightarrow>
          (case map_of ps field of
             Some (Arr xs) \<Rightarrow> List.map_filter (\<lambda>x. case x of Str path \<Rightarrow> Some path | _ \<Rightarrow> None) xs
           | _ \<Rightarrow> [])
      | _ \<Rightarrow> [])"

definition add_details :: "json option \<Rightarrow> durable_file_ops \<Rightarrow> durable_file_ops" where
  "add_details details fileOps =
     fileOps\<lparr>df_read := fold set_add (detail_paths details (js ''readFiles'')) (df_read fileOps),
       df_edited := fold set_add (detail_paths details (js ''modifiedFiles'')) (df_edited fileOps)\<rparr>"

definition extractFileOperations :: "agent_message list \<Rightarrow> entry list \<Rightarrow> nat option \<Rightarrow> durable_file_ops" where
  "extractFileOperations messages entries prevCompactionIndex =
     fold extractFileOpsFromMessage messages
       (case prevCompactionIndex of
          None \<Rightarrow> createFileOps
        | Some i \<Rightarrow> (case ne_body (entries ! i) of CompactionBody c \<Rightarrow> add_details (co_details c) createFileOps | _ \<Rightarrow> createFileOps))"

text \<open>The default order of \<^verbatim>\<open>sort\<close>: by UTF-16 code units.\<close>

fun compare_units :: "jstring \<Rightarrow> jstring \<Rightarrow> int" where
  "compare_units [] [] = 0"
| "compare_units [] (_ # _) = -1"
| "compare_units (_ # _) [] = 1"
| "compare_units (u # us) (v # vs) = (if u < v then -1 else if v < u then 1 else compare_units us vs)"

definition computeFileLists :: "durable_file_ops \<Rightarrow> jstring list \<times> jstring list" where
  "computeFileLists fileOps =
     (let modified = fold set_add (df_written fileOps) (fold set_add (df_edited fileOps) []) in
      (js_sort compare_units (filter (\<lambda>f. f \<notin> set modified) (df_read fileOps)), js_sort compare_units modified))"

definition formatFileOperations :: "jstring list \<Rightarrow> jstring list \<Rightarrow> jstring" where
  "formatFileOperations readFiles modifiedFiles =
     (let sections =
        (if readFiles \<noteq> [] then [js ''<read-files>'' @ nl @ join_text nl readFiles @ nl @ js ''</read-files>''] else []) @
        (if modifiedFiles \<noteq> [] then [js ''<modified-files>'' @ nl @ join_text nl modifiedFiles @ nl @ js ''</modified-files>''] else []) in
      if sections = [] then [] else nl @ nl @ join_text (nl @ nl) sections)"

section \<open>Text of a conversation\<close>

definition TOOL_RESULT_MAX_CHARS :: nat where
  "TOOL_RESULT_MAX_CHARS = 2000"

definition truncateForSummary :: "jstring \<Rightarrow> nat \<Rightarrow> jstring" where
  "truncateForSummary text' maxChars =
     (if length text' \<le> maxChars then text'
      else take maxChars text' @ nl @ nl @ js ''[... '' @ nat_text (length text' - maxChars) @ js '' more characters truncated]'')"

fun input_texts :: "input_content list \<Rightarrow> jstring list" where
  "input_texts [] = []"
| "input_texts (InText t # bs) = tc_text t # input_texts bs"
| "input_texts (InImage _ # bs) = input_texts bs"

fun assistant_texts :: "assistant_content list \<Rightarrow> jstring list" where
  "assistant_texts [] = []"
| "assistant_texts (AsText t # bs) = tc_text t # assistant_texts bs"
| "assistant_texts (_ # bs) = assistant_texts bs"

fun thinking_texts :: "assistant_content list \<Rightarrow> jstring list" where
  "thinking_texts [] = []"
| "thinking_texts (AsThinking t # bs) = th_thinking t # thinking_texts bs"
| "thinking_texts (_ # bs) = thinking_texts bs"

text \<open>\<^verbatim>\<open>contentText\<close> of user or tool content, and of assistant content with its default separator.\<close>

definition contentText :: "message_content \<Rightarrow> jstring \<Rightarrow> jstring" where
  "contentText content separator = (case content of PlainText s \<Rightarrow> s | Blocks bs \<Rightarrow> join_text separator (input_texts bs))"

definition assistantText :: "assistant_content list \<Rightarrow> jstring" where
  "assistantText content = join_text nl (assistant_texts content)"

definition call_text :: "tool_call_content \<Rightarrow> jstring" where
  "call_text call =
     tcall_name call @ js ''('' @ join_text (js '', '') (map (\<lambda>(k, v). k @ js ''='' @ stringify v) (tcall_arguments call)) @ js '')''"

definition message_parts :: "llm_message \<Rightarrow> jstring list" where
  "message_parts message =
     (case message of
        UserMsg u \<Rightarrow> (let content = contentText (um_content u) [] in if content = [] then [] else [js ''[User]: '' @ content])
      | AssistantMsg a \<Rightarrow>
          (let thinking = thinking_texts (am_content a); calls = map call_text (tool_calls_of (am_content a)) in
           (if thinking = [] then [] else [js ''[Assistant thinking]: '' @ join_text nl thinking]) @
           (if assistant_texts (am_content a) = [] then [] else [js ''[Assistant]: '' @ assistantText (am_content a)]) @
           (if calls = [] then [] else [js ''[Assistant tool calls]: '' @ join_text (js ''; '') calls]))
      | ToolResultMsg r \<Rightarrow>
          (let content = contentText (Blocks (tr_content r)) [] in
           if content = [] then [] else [js ''[Tool result]: '' @ truncateForSummary content TOOL_RESULT_MAX_CHARS]))"

definition serializeConversation :: "llm_message list \<Rightarrow> jstring" where
  "serializeConversation messages = join_text (nl @ nl) (concat (map message_parts messages))"

section \<open>Token estimates\<close>

definition calculateContextTokens :: "usage \<Rightarrow> jnum" where
  "calculateContextTokens usage =
     (if num_truthy (u_totalTokens usage) then u_totalTokens usage
      else num_add (num_add (num_add (u_input usage) (u_output usage)) (u_cacheRead usage)) (u_cacheWrite usage))"

definition getAssistantUsage :: "agent_message \<Rightarrow> usage option" where
  "getAssistantUsage message =
     (case message of
        Llm (AssistantMsg a) \<Rightarrow>
          if am_stopReason a \<noteq> StopAborted \<and> am_stopReason a \<noteq> StopError \<and> num_less (JInt 0) (calculateContextTokens (am_usage a))
          then Some (am_usage a) else None
      | _ \<Rightarrow> None)"

fun last_usage :: "agent_message list \<Rightarrow> nat \<Rightarrow> (usage \<times> nat) option" where
  "last_usage messages 0 = None"
| "last_usage messages (Suc i) = (case getAssistantUsage (messages ! i) of Some usage \<Rightarrow> Some (usage, i) | None \<Rightarrow> last_usage messages i)"

definition getLastAssistantUsageInfo :: "agent_message list \<Rightarrow> (usage \<times> nat) option" where
  "getLastAssistantUsageInfo messages = last_usage messages (length messages)"

definition ESTIMATED_IMAGE_CHARS :: nat where
  "ESTIMATED_IMAGE_CHARS = 4800"

definition block_chars :: "input_content \<Rightarrow> nat" where
  "block_chars block = (case block of InText t \<Rightarrow> length (tc_text t) | InImage _ \<Rightarrow> ESTIMATED_IMAGE_CHARS)"

definition estimateTextAndImageContentChars :: "message_content \<Rightarrow> nat" where
  "estimateTextAndImageContentChars content =
     (case content of PlainText s \<Rightarrow> length s | Blocks bs \<Rightarrow> sum_list (map block_chars bs))"

definition assistant_chars :: "assistant_content \<Rightarrow> nat" where
  "assistant_chars block =
     (case block of
        AsText t \<Rightarrow> length (tc_text t)
      | AsThinking t \<Rightarrow> length (th_thinking t)
      | AsToolCall call \<Rightarrow> length (tcall_name call) + length (stringify (Obj (tcall_arguments call))))"

definition message_chars :: "agent_message \<Rightarrow> nat" where
  "message_chars message =
     (case message of
        Llm (UserMsg u) \<Rightarrow> estimateTextAndImageContentChars (um_content u)
      | Llm (AssistantMsg a) \<Rightarrow> sum_list (map assistant_chars (am_content a))
      | Llm (ToolResultMsg r) \<Rightarrow> estimateTextAndImageContentChars (Blocks (tr_content r))
      | CustomMsg c \<Rightarrow> estimateTextAndImageContentChars (cm_content c)
      | BashExecution b \<Rightarrow> length (be_command b) + length (be_output b)
      | BranchSummaryMsg b \<Rightarrow> length (bs_summary b)
      | CompactionSummaryMsg c \<Rightarrow> length (cs_summary c)
      | AppMsg _ _ \<Rightarrow> 0)"

definition estimateTokens :: "agent_message \<Rightarrow> nat" where
  "estimateTokens message = (message_chars message + 3) div 4"

record context_usage_estimate =
  cu_tokens :: jnum
  cu_usageTokens :: jnum
  cu_trailingTokens :: jnum
  cu_lastUsageIndex :: "nat option"

definition estimateContextTokens :: "agent_message list \<Rightarrow> context_usage_estimate" where
  "estimateContextTokens messages =
     (case getLastAssistantUsageInfo messages of
        None \<Rightarrow>
          let estimated = JInt (int (sum_list (map estimateTokens messages))) in
          \<lparr>cu_tokens = estimated, cu_usageTokens = JInt 0, cu_trailingTokens = estimated, cu_lastUsageIndex = None\<rparr>
      | Some (usage, index) \<Rightarrow>
          let usageTokens = calculateContextTokens usage;
              trailingTokens = JInt (int (sum_list (map estimateTokens (drop (index + 1) messages)))) in
          \<lparr>cu_tokens = num_add usageTokens trailingTokens, cu_usageTokens = usageTokens, cu_trailingTokens = trailingTokens,
           cu_lastUsageIndex = Some index\<rparr>)"

definition shouldCompact :: "jnum \<Rightarrow> jnum \<Rightarrow> compaction_settings \<Rightarrow> bool" where
  "shouldCompact contextTokens contextWindow settings \<longleftrightarrow>
     cse_enabled settings \<and> num_less (num_sub contextWindow (cse_reserveTokens settings)) contextTokens"

definition DEFAULT_COMPACTION_SETTINGS :: compaction_settings where
  "DEFAULT_COMPACTION_SETTINGS = \<lparr>cse_enabled = True, cse_reserveTokens = JInt 16384, cse_keepRecentTokens = JInt 20000\<rparr>"

fun last_entry_usage :: "entry list \<Rightarrow> nat \<Rightarrow> usage option" where
  "last_entry_usage entries 0 = None"
| "last_entry_usage entries (Suc i) =
     (case ne_body (entries ! i) of
        MessageBody message _ \<Rightarrow> (case getAssistantUsage message of Some usage \<Rightarrow> Some usage | None \<Rightarrow> last_entry_usage entries i)
      | _ \<Rightarrow> last_entry_usage entries i)"

definition getLastAssistantUsage :: "entry list \<Rightarrow> usage option" where
  "getLastAssistantUsage entries = last_entry_usage entries (length entries)"

section \<open>The cut point\<close>

definition cut_role :: "agent_message \<Rightarrow> bool" where
  "cut_role message = (case message of Llm (ToolResultMsg _) \<Rightarrow> False | AppMsg _ _ \<Rightarrow> False | _ \<Rightarrow> True)"

definition is_cut_point :: "entry \<Rightarrow> bool" where
  "is_cut_point e = (case ne_body e of MessageBody message _ \<Rightarrow> cut_role message | BranchSummaryBody _ \<Rightarrow> True | _ \<Rightarrow> False)"

definition findValidCutPoints :: "entry list \<Rightarrow> nat \<Rightarrow> nat \<Rightarrow> nat list" where
  "findValidCutPoints entries startIndex endIndex = filter (\<lambda>i. is_cut_point (entries ! i)) [startIndex..<endIndex]"

definition starts_turn :: "entry \<Rightarrow> bool" where
  "starts_turn e =
     (case ne_body e of
        BranchSummaryBody _ \<Rightarrow> True
      | MessageBody (Llm (UserMsg _)) _ \<Rightarrow> True
      | MessageBody (BashExecution _) _ \<Rightarrow> True
      | _ \<Rightarrow> False)"

fun turn_start :: "entry list \<Rightarrow> nat \<Rightarrow> nat \<Rightarrow> nat option" where
  "turn_start entries startIndex 0 = None"
| "turn_start entries startIndex (Suc i) =
     (if i < startIndex then None else if starts_turn (entries ! i) then Some i else turn_start entries startIndex i)"

definition findTurnStartIndex :: "entry list \<Rightarrow> nat \<Rightarrow> nat \<Rightarrow> nat option" where
  "findTurnStartIndex entries entryIndex startIndex = turn_start entries startIndex (Suc entryIndex)"

record cut_point_result =
  cp_firstKeptEntryIndex :: nat
  cp_turnStartIndex :: "nat option"
  cp_isSplitTurn :: bool

text \<open>The first loop of \<^verbatim>\<open>findCutPoint\<close>, which adds up tokens from the end, and the second, which goes back over entries without a message.\<close>

fun cut_scan :: "entry list \<Rightarrow> nat list \<Rightarrow> nat \<Rightarrow> jnum \<Rightarrow> nat \<Rightarrow> nat \<Rightarrow> nat \<Rightarrow> nat" where
  "cut_scan entries cutPoints startIndex keepRecentTokens cutIndex accumulated 0 = cutIndex"
| "cut_scan entries cutPoints startIndex keepRecentTokens cutIndex accumulated (Suc i) =
     (if i < startIndex then cutIndex
      else case ne_body (entries ! i) of
          MessageBody message _ \<Rightarrow>
            let accumulated' = accumulated + estimateTokens message in
            if num_less_eq keepRecentTokens (JInt (int accumulated'))
            then (case List.find (\<lambda>c. i \<le> c) cutPoints of Some c \<Rightarrow> c | None \<Rightarrow> cutIndex)
            else cut_scan entries cutPoints startIndex keepRecentTokens cutIndex accumulated' i
        | _ \<Rightarrow> cut_scan entries cutPoints startIndex keepRecentTokens cutIndex accumulated i)"

fun cut_back :: "entry list \<Rightarrow> nat \<Rightarrow> nat \<Rightarrow> nat" where
  "cut_back entries startIndex 0 = 0"
| "cut_back entries startIndex (Suc i) =
     (if Suc i \<le> startIndex \<or> entry_type_of (entries ! i) = ECompaction \<or> entry_type_of (entries ! i) = EMessage then Suc i
      else cut_back entries startIndex i)"

definition findCutPoint :: "entry list \<Rightarrow> nat \<Rightarrow> nat \<Rightarrow> jnum \<Rightarrow> cut_point_result" where
  "findCutPoint entries startIndex endIndex keepRecentTokens =
     (case findValidCutPoints entries startIndex endIndex of
        [] \<Rightarrow> \<lparr>cp_firstKeptEntryIndex = startIndex, cp_turnStartIndex = None, cp_isSplitTurn = False\<rparr>
      | c # cs \<Rightarrow>
          let cutIndex = cut_back entries startIndex (cut_scan entries (c # cs) startIndex keepRecentTokens c 0 endIndex);
              isUserMessage = (case ne_body (entries ! cutIndex) of MessageBody (Llm (UserMsg _)) _ \<Rightarrow> True | _ \<Rightarrow> False);
              turnStartIndex = (if isUserMessage then None else findTurnStartIndex entries cutIndex startIndex)
          in \<lparr>cp_firstKeptEntryIndex = cutIndex, cp_turnStartIndex = turnStartIndex,
              cp_isSplitTurn = (\<not> isUserMessage \<and> turnStartIndex \<noteq> None)\<rparr>)"

section \<open>Preparing a compaction\<close>

definition getMessageFromEntry :: "entry \<Rightarrow> agent_message option" where
  "getMessageFromEntry e =
     (case ne_body e of
        MessageBody message _ \<Rightarrow> Some message
      | BranchSummaryBody b \<Rightarrow> Some (createBranchSummaryMessage (br_summary b) (br_fromId b) (e_timestamp e))
      | CompactionBody c \<Rightarrow> Some (createCompactionSummaryMessage (co_summary c) (co_tokensBefore c) (e_timestamp e))
      | CustomBody _ \<Rightarrow> None)"

definition getMessageFromEntryForCompaction :: "entry \<Rightarrow> agent_message option" where
  "getMessageFromEntryForCompaction e = (if entry_type_of e = ECompaction then None else getMessageFromEntry e)"

definition entry_range :: "entry list \<Rightarrow> nat \<Rightarrow> nat \<Rightarrow> agent_message list" where
  "entry_range entries from to = List.map_filter (\<lambda>i. getMessageFromEntryForCompaction (entries ! i)) [from..<to]"

text \<open>
  The retained messages of the last compaction as entries of their own. Their time is that of the message; one declared by the application
  carries it in its body, and it is not read below.
\<close>

fun message_timestamp :: "agent_message \<Rightarrow> int" where
  "message_timestamp (Llm (UserMsg u)) = um_timestamp u"
| "message_timestamp (Llm (AssistantMsg a)) = am_timestamp a"
| "message_timestamp (Llm (ToolResultMsg r)) = tr_timestamp r"
| "message_timestamp (BashExecution b) = be_timestamp b"
| "message_timestamp (CustomMsg c) = cm_timestamp c"
| "message_timestamp (BranchSummaryMsg b) = bs_timestamp b"
| "message_timestamp (CompactionSummaryMsg c) = cs_timestamp c"
| "message_timestamp (AppMsg _ body) =
     (case body of Obj ps \<Rightarrow> (case map_of ps (js ''timestamp'') of Some (Num (JInt i)) \<Rightarrow> i | _ \<Rightarrow> 0) | _ \<Rightarrow> 0)"

definition retained_id :: "entry \<Rightarrow> nat \<Rightarrow> jstring" where
  "retained_id e index = ne_id e @ js '':retained:'' @ nat_text index"

definition virtual_entry :: "entry \<Rightarrow> nat \<Rightarrow> agent_message \<Rightarrow> entry" where
  "virtual_entry e index message =
     \<lparr>ne_id = retained_id e index, ne_parentId = Some (if index = 0 then ne_id e else retained_id e (index - 1)), ne_customType = None,
      ne_body = MessageBody message False, e_seq = e_seq e, e_timestamp = message_timestamp message\<rparr>"

definition compactable :: "entry list \<Rightarrow> nat \<Rightarrow> jstring option \<times> entry list" where
  "compactable pathEntries i =
     (case ne_body (pathEntries ! i) of
        CompactionBody c \<Rightarrow>
          (Some (co_summary c),
           map (\<lambda>(index, message). virtual_entry (pathEntries ! i) index message) (List.enumerate 0 (co_retainedTail c)) @ drop (i + 1) pathEntries)
      | _ \<Rightarrow> (None, pathEntries))"

datatype compaction_error = CompactionError jstring jstring

definition prepareCompaction :: "entry list \<Rightarrow> compaction_settings \<Rightarrow> (compaction_error, compaction_preparation option) res" where
  "prepareCompaction pathEntries settings =
     (if pathEntries = [] \<or> entry_type_of (last pathEntries) = ECompaction then Inr None
      else
        let prevCompactionIndex = last_compaction pathEntries (length pathEntries);
            (previousSummary, compactableEntries) = (case prevCompactionIndex of None \<Rightarrow> (None, pathEntries) | Some i \<Rightarrow> compactable pathEntries i);
            boundaryEnd = length compactableEntries;
            tokensBefore = cu_tokens (estimateContextTokens (concat (map sessionEntryToContextMessages (buildContextEntries pathEntries))));
            cutPoint = findCutPoint compactableEntries 0 boundaryEnd (cse_keepRecentTokens settings);
            firstKept = cp_firstKeptEntryIndex cutPoint;
            historyEnd = (if cp_isSplitTurn cutPoint then the (cp_turnStartIndex cutPoint) else firstKept);
            messagesToSummarize = entry_range compactableEntries 0 historyEnd;
            turnPrefixMessages = (if cp_isSplitTurn cutPoint then entry_range compactableEntries (the (cp_turnStartIndex cutPoint)) firstKept else []);
            retainedTail = entry_range compactableEntries firstKept boundaryEnd;
            fileOps = extractFileOperations messagesToSummarize pathEntries prevCompactionIndex;
            fileOps' = (if cp_isSplitTurn cutPoint then fold extractFileOpsFromMessage turnPrefixMessages fileOps else fileOps)
        in Inr (Some \<lparr>dp_messagesToSummarize = messagesToSummarize, dp_turnPrefixMessages = turnPrefixMessages, dp_retainedTail = retainedTail,
             dp_isSplitTurn = cp_isSplitTurn cutPoint, dp_tokensBefore = tokensBefore, dp_previousSummary = previousSummary,
             dp_fileOps = fileOps', dp_settings = settings\<rparr>))"

section \<open>Preparing a branch summary\<close>

definition branch_message :: "entry \<Rightarrow> agent_message option" where
  "branch_message e = (case ne_body e of MessageBody (Llm (ToolResultMsg _)) _ \<Rightarrow> None | _ \<Rightarrow> getMessageFromEntry e)"

record branch_preparation =
  bp_messages :: "agent_message list"
  bp_fileOps :: durable_file_ops
  bp_totalTokens :: nat

definition number_0_9 :: jnum where
  "number_0_9 = JDbl 0x3feccccccccccccd"

text \<open>The backward loop, given the entries newest first.\<close>

fun select_branch :: "jnum \<Rightarrow> entry list \<Rightarrow> branch_preparation \<Rightarrow> branch_preparation" where
  "select_branch tokenBudget [] p = p"
| "select_branch tokenBudget (e # es) p =
     (case branch_message e of
        None \<Rightarrow> select_branch tokenBudget es p
      | Some message \<Rightarrow>
          let p' = p\<lparr>bp_fileOps := extractFileOpsFromMessage message (bp_fileOps p)\<rparr>;
              tokens = estimateTokens message;
              taken = p'\<lparr>bp_messages := message # bp_messages p', bp_totalTokens := bp_totalTokens p' + tokens\<rparr> in
          if num_less (JInt 0) tokenBudget \<and> num_less tokenBudget (JInt (int (bp_totalTokens p' + tokens)))
          then (if (entry_type_of e = ECompaction \<or> entry_type_of e = EBranchSummary) \<and>
                   num_less (JInt (int (bp_totalTokens p'))) (num_mul tokenBudget number_0_9)
                then taken else p')
          else select_branch tokenBudget es taken)"

definition branch_details :: "entry \<Rightarrow> durable_file_ops \<Rightarrow> durable_file_ops" where
  "branch_details e fileOps = (case ne_body e of BranchSummaryBody b \<Rightarrow> add_details (br_details b) fileOps | _ \<Rightarrow> fileOps)"

definition prepareBranchEntries :: "entry list \<Rightarrow> jnum \<Rightarrow> branch_preparation" where
  "prepareBranchEntries entries tokenBudget =
     select_branch tokenBudget (rev entries) \<lparr>bp_messages = [], bp_fileOps = fold branch_details entries createFileOps, bp_totalTokens = 0\<rparr>"

section \<open>Generating a summary\<close>

definition lines_text :: "string list \<Rightarrow> jstring" where
  "lines_text ls = join_text nl (map js ls)"

definition SUMMARIZATION_SYSTEM_PROMPT :: jstring where
  "SUMMARIZATION_SYSTEM_PROMPT = lines_text
     [''You are a context summarization assistant. Your task is to read a conversation between a user and an AI assistant, then produce a structured summary following the exact format specified.'',
      '''',
      ''Do NOT continue the conversation. Do NOT respond to any questions in the conversation. ONLY output the structured summary.'']"

definition SUMMARIZATION_PROMPT :: jstring where
  "SUMMARIZATION_PROMPT = lines_text
     [''The messages above are a conversation to summarize. Create a structured context checkpoint summary that another LLM will use to continue the work.'',
      '''',
      ''Use this EXACT format:'',
      '''',
      ''## Goal'',
      ''[What is the user trying to accomplish? Can be multiple items if the session covers different tasks.]'',
      '''',
      ''## Constraints & Preferences'',
      ''- [Any constraints, preferences, or requirements mentioned by user]'',
      ''- [Or \"(none)\" if none were mentioned]'',
      '''',
      ''## Progress'',
      ''### Done'',
      ''- [x] [Completed tasks/changes]'',
      '''',
      ''### In Progress'',
      ''- [ ] [Current work]'',
      '''',
      ''### Blocked'',
      ''- [Issues preventing progress, if any]'',
      '''',
      ''## Key Decisions'',
      ''- **[Decision]**: [Brief rationale]'',
      '''',
      ''## Next Steps'',
      ''1. [Ordered list of what should happen next]'',
      '''',
      ''## Critical Context'',
      ''- [Any data, examples, or references needed to continue]'',
      ''- [Or \"(none)\" if not applicable]'',
      '''',
      ''Keep each section concise. Preserve exact file paths, function names, and error messages.'']"

definition UPDATE_SUMMARIZATION_PROMPT :: jstring where
  "UPDATE_SUMMARIZATION_PROMPT = lines_text
     [''The messages above are NEW conversation messages to incorporate into the existing summary provided in <previous-summary> tags.'',
      '''',
      ''Update the existing structured summary with new information. RULES:'',
      ''- PRESERVE all existing information from the previous summary'',
      ''- ADD new progress, decisions, and context from the new messages'',
      ''- UPDATE the Progress section: move items from \"In Progress\" to \"Done\" when completed'',
      ''- UPDATE \"Next Steps\" based on what was accomplished'',
      ''- PRESERVE exact file paths, function names, and error messages'',
      ''- If something is no longer relevant, you may remove it'',
      '''',
      ''Use this EXACT format:'',
      '''',
      ''## Goal'',
      ''[Preserve existing goals, add new ones if the task expanded]'',
      '''',
      ''## Constraints & Preferences'',
      ''- [Preserve existing, add new ones discovered]'',
      '''',
      ''## Progress'',
      ''### Done'',
      ''- [x] [Include previously done items AND newly completed items]'',
      '''',
      ''### In Progress'',
      ''- [ ] [Current work - update based on progress]'',
      '''',
      ''### Blocked'',
      ''- [Current blockers - remove if resolved]'',
      '''',
      ''## Key Decisions'',
      ''- **[Decision]**: [Brief rationale] (preserve all previous, add new)'',
      '''',
      ''## Next Steps'',
      ''1. [Update based on current state]'',
      '''',
      ''## Critical Context'',
      ''- [Preserve important context, add new if needed]'',
      '''',
      ''Keep each section concise. Preserve exact file paths, function names, and error messages.'']"

definition TURN_PREFIX_SUMMARIZATION_PROMPT :: jstring where
  "TURN_PREFIX_SUMMARIZATION_PROMPT = lines_text
     [''This is the PREFIX of a turn that was too large to keep. The SUFFIX (recent work) is retained.'',
      '''',
      ''Summarize the prefix to provide context for the retained suffix:'',
      '''',
      ''## Original Request'',
      ''[What did the user ask for in this turn?]'',
      '''',
      ''## Early Progress'',
      ''- [Key decisions and work done in the prefix]'',
      '''',
      ''## Context for Suffix'',
      ''- [Information needed to understand the retained recent work]'',
      '''',
      ''Be concise. Focus on what's needed to understand the kept suffix.'']"

definition BRANCH_SUMMARY_PREAMBLE :: jstring where
  "BRANCH_SUMMARY_PREAMBLE = lines_text
     [''The user explored a different conversation branch before returning here.'',
      ''Summary of that exploration:'',
      '''',
      '''']"

definition BRANCH_SUMMARY_PROMPT :: jstring where
  "BRANCH_SUMMARY_PROMPT = lines_text
     [''Create a structured summary of this conversation branch for context when returning later.'',
      '''',
      ''Use this EXACT format:'',
      '''',
      ''## Goal'',
      ''[What was the user trying to accomplish in this branch?]'',
      '''',
      ''## Constraints & Preferences'',
      ''- [Any constraints, preferences, or requirements mentioned]'',
      ''- [Or \"(none)\" if none were mentioned]'',
      '''',
      ''## Progress'',
      ''### Done'',
      ''- [x] [Completed tasks/changes]'',
      '''',
      ''### In Progress'',
      ''- [ ] [Work that was started but not finished]'',
      '''',
      ''### Blocked'',
      ''- [Issues preventing progress, if any]'',
      '''',
      ''## Key Decisions'',
      ''- **[Decision]**: [Brief rationale]'',
      '''',
      ''## Next Steps'',
      ''1. [What should happen next to continue this work]'',
      '''',
      ''Keep each section concise. Preserve exact file paths, function names, and error messages.'']"

text \<open>
  The model a summary is asked of, the request, and the answer. \<open>request\<close> stands for the caller's boundary around the provider call: it may reject,
  and it threads the state \<^typ>\<open>'w\<close> of the outside. The abort signal, the telemetry context, the cache retention and the session id of
  the request options are left out.
\<close>

record summary_model =
  mo_reasoning :: bool
  mo_contextWindow :: jnum
  mo_maxTokens :: jnum

record summary_prompt =
  sp_systemPrompt :: jstring
  sp_messages :: "llm_message list"
  sp_maxTokens :: jnum
  sp_reasoning :: "thinking_level option"

type_synonym ('w, 't) summary_call = "summary_prompt \<Rightarrow> 'w \<Rightarrow> 'w \<times> ('t, assistant_message) res"

definition number_0_8 :: jnum where
  "number_0_8 = JDbl 0x3fe999999999999a"

definition number_0_5 :: jnum where
  "number_0_5 = JDbl 0x3fe0000000000000"

definition summary_tokens :: "jnum \<Rightarrow> jnum \<Rightarrow> summary_model \<Rightarrow> jnum" where
  "summary_tokens share reserveTokens model =
     num_min (num_floor (num_mul share reserveTokens)) (if num_less (JInt 0) (mo_maxTokens model) then mo_maxTokens model else infinity False)"

definition summary_reasoning :: "summary_model \<Rightarrow> thinking_level option \<Rightarrow> thinking_level option" where
  "summary_reasoning model thinkingLevel = (if mo_reasoning model \<and> thinkingLevel \<noteq> Some TOff then thinkingLevel else None)"

text \<open>An optional string counts when it is present and not empty.\<close>

definition given :: "jstring option \<Rightarrow> jstring option" where
  "given s = (if s = Some [] then None else s)"

definition conversation_text :: "agent_message list \<Rightarrow> jstring" where
  "conversation_text messages = js ''<conversation>'' @ nl @ serializeConversation (convertToLlm messages) @ nl @ js ''</conversation>'' @ nl @ nl"

definition focused :: "jstring \<Rightarrow> jstring option \<Rightarrow> jstring" where
  "focused prompt customInstructions =
     (case given customInstructions of None \<Rightarrow> prompt | Some focus \<Rightarrow> prompt @ nl @ nl @ js ''Additional focus: '' @ focus)"

definition summary_text :: "agent_message list \<Rightarrow> jstring option \<Rightarrow> jstring option \<Rightarrow> jstring" where
  "summary_text currentMessages customInstructions previousSummary =
     (case given previousSummary of
        None \<Rightarrow> conversation_text currentMessages @ focused SUMMARIZATION_PROMPT customInstructions
      | Some previous \<Rightarrow>
          conversation_text currentMessages @ js ''<previous-summary>'' @ nl @ previous @ nl @ js ''</previous-summary>'' @ nl @ nl @
          focused UPDATE_SUMMARIZATION_PROMPT customInstructions)"

definition error_text :: "assistant_message \<Rightarrow> jstring \<Rightarrow> jstring" where
  "error_text response fallback = (case given (am_errorMessage response) of None \<Rightarrow> fallback | Some message \<Rightarrow> message)"

text \<open>How the three kinds of summary read a response; \<open>what\<close> names the kind in the messages.\<close>

definition summary_answer :: "jstring \<Rightarrow> assistant_message \<Rightarrow> (compaction_error, jstring \<times> usage) res" where
  "summary_answer what response =
     (if am_stopReason response = StopAborted then Inl (CompactionError (js ''aborted'') (error_text response (what @ js '' aborted'')))
      else if am_stopReason response = StopError
      then Inl (CompactionError (js ''summarization_failed'') (what @ js '' failed: '' @ error_text response (js ''Unknown error'')))
      else Inr (assistantText (am_content response), am_usage response))"

text \<open>One request; its error is a rejected promise or an error value.\<close>

definition ask_summary ::
  "('w, 't) summary_call \<Rightarrow> jstring \<Rightarrow> jstring \<Rightarrow> jnum \<Rightarrow> thinking_level option \<Rightarrow> int \<Rightarrow> 'w \<Rightarrow>
     'w \<times> ('t, (compaction_error, jstring \<times> usage) res) res" where
  "ask_summary request what prompt maxTokens reasoning now w =
     (case request \<lparr>sp_systemPrompt = SUMMARIZATION_SYSTEM_PROMPT, sp_messages = [user_text prompt now], sp_maxTokens = maxTokens,
             sp_reasoning = reasoning\<rparr> w of
        (w', Inl t) \<Rightarrow> (w', Inl t)
      | (w', Inr response) \<Rightarrow> (w', Inr (summary_answer what response)))"

definition generateSummaryWithRequest ::
  "('w, 't) summary_call \<Rightarrow> agent_message list \<Rightarrow> summary_model \<Rightarrow> jnum \<Rightarrow> jstring option \<Rightarrow> jstring option \<Rightarrow> thinking_level option \<Rightarrow> int \<Rightarrow> 'w \<Rightarrow>
     'w \<times> ('t, (compaction_error, jstring \<times> usage) res) res" where
  "generateSummaryWithRequest request currentMessages model reserveTokens customInstructions previousSummary thinkingLevel now w =
     ask_summary request (js ''Summarization'') (summary_text currentMessages customInstructions previousSummary)
       (summary_tokens number_0_8 reserveTokens model) (summary_reasoning model thinkingLevel) now w"

definition generateTurnPrefixSummary ::
  "('w, 't) summary_call \<Rightarrow> agent_message list \<Rightarrow> summary_model \<Rightarrow> jnum \<Rightarrow> thinking_level option \<Rightarrow> int \<Rightarrow> 'w \<Rightarrow>
     'w \<times> ('t, (compaction_error, jstring \<times> usage) res) res" where
  "generateTurnPrefixSummary request messages model reserveTokens thinkingLevel now w =
     ask_summary request (js ''Turn prefix summarization'') (conversation_text messages @ TURN_PREFIX_SUMMARIZATION_PROMPT)
       (summary_tokens number_0_5 reserveTokens model) (summary_reasoning model thinkingLevel) now w"

record compact_result =
  cr_summary :: jstring
  cr_tokensBefore :: jnum
  cr_usage :: usage
  cr_retainedTail :: "agent_message list"
  cr_details :: json

text \<open>The two requests of a split turn run one after the other, the history first; an error ends both.\<close>

definition split_summary ::
  "('w, 't) summary_call \<Rightarrow> compaction_preparation \<Rightarrow> summary_model \<Rightarrow> jstring option \<Rightarrow> thinking_level option \<Rightarrow> int \<Rightarrow> 'w \<Rightarrow>
     'w \<times> ('t, (compaction_error, jstring \<times> usage) res) res" where
  "split_summary request p model customInstructions thinkingLevel now w =
     (case (if dp_messagesToSummarize p = [] then (w, Inr (Inr None))
            else case generateSummaryWithRequest request (dp_messagesToSummarize p) model (cse_reserveTokens (dp_settings p)) customInstructions
                        (dp_previousSummary p) thinkingLevel now w of
                (w', r) \<Rightarrow> (w', rbind r (\<lambda>answer. Inr (rbind answer (\<lambda>v. Inr (Some v)))))) of
        (w', Inl t) \<Rightarrow> (w', Inl t)
      | (w', Inr (Inl e)) \<Rightarrow> (w', Inr (Inl e))
      | (w', Inr (Inr history)) \<Rightarrow>
          (case generateTurnPrefixSummary request (dp_turnPrefixMessages p) model (cse_reserveTokens (dp_settings p)) thinkingLevel now w' of
             (w'', Inl t) \<Rightarrow> (w'', Inl t)
           | (w'', Inr (Inl e)) \<Rightarrow> (w'', Inr (Inl e))
           | (w'', Inr (Inr (prefixText, prefixUsage))) \<Rightarrow>
               (w'', Inr (Inr
                 ((case history of None \<Rightarrow> js ''No prior history.'' | Some (historyText, _) \<Rightarrow> historyText) @ nl @ nl @ js ''---'' @ nl @ nl @
                    js ''**Turn Context (split turn):**'' @ nl @ nl @ prefixText,
                  (case history of None \<Rightarrow> prefixUsage | Some (_, historyUsage) \<Rightarrow> addUsage historyUsage prefixUsage))))))"

definition file_details :: "jstring list \<Rightarrow> jstring list \<Rightarrow> json" where
  "file_details readFiles modifiedFiles = Obj [(js ''readFiles'', Arr (map Str readFiles)), (js ''modifiedFiles'', Arr (map Str modifiedFiles))]"

definition compactWithRequest ::
  "('w, 't) summary_call \<Rightarrow> compaction_preparation \<Rightarrow> summary_model \<Rightarrow> jstring option \<Rightarrow> thinking_level option \<Rightarrow> int \<Rightarrow> 'w \<Rightarrow>
     'w \<times> ('t, (compaction_error, compact_result) res) res" where
  "compactWithRequest request p model customInstructions thinkingLevel now w =
     (case (if dp_isSplitTurn p \<and> dp_turnPrefixMessages p \<noteq> [] then split_summary request p model customInstructions thinkingLevel now w
            else generateSummaryWithRequest request (dp_messagesToSummarize p) model (cse_reserveTokens (dp_settings p)) customInstructions
                   (dp_previousSummary p) thinkingLevel now w) of
        (w', Inl t) \<Rightarrow> (w', Inl t)
      | (w', Inr (Inl e)) \<Rightarrow> (w', Inr (Inl e))
      | (w', Inr (Inr (summary, usage))) \<Rightarrow>
          let (readFiles, modifiedFiles) = computeFileLists (dp_fileOps p) in
          (w', Inr (Inr \<lparr>cr_summary = summary @ formatFileOperations readFiles modifiedFiles, cr_tokensBefore = dp_tokensBefore p,
             cr_usage = usage, cr_retainedTail = dp_retainedTail p, cr_details = file_details readFiles modifiedFiles\<rparr>)))"

record branch_summary_result =
  bu_summary :: jstring
  bu_usage :: "usage option"
  bu_readFiles :: "jstring list"
  bu_modifiedFiles :: "jstring list"

definition branch_instructions :: "jstring option \<Rightarrow> bool option \<Rightarrow> jstring" where
  "branch_instructions customInstructions replaceInstructions =
     (case (replaceInstructions, given customInstructions) of
        (Some True, Some instructions) \<Rightarrow> instructions
      | _ \<Rightarrow> focused BRANCH_SUMMARY_PROMPT customInstructions)"

definition generateBranchSummaryWithRequest ::
  "('w, 't) summary_call \<Rightarrow> agent_message list \<Rightarrow> durable_file_ops \<Rightarrow> jstring option \<Rightarrow> bool option \<Rightarrow> int \<Rightarrow> 'w \<Rightarrow>
     'w \<times> ('t, (compaction_error, branch_summary_result) res) res" where
  "generateBranchSummaryWithRequest request messages fileOps customInstructions replaceInstructions now w =
     (if messages = [] then
        (w, Inr (Inr \<lparr>bu_summary = js ''No content to summarize'', bu_usage = None, bu_readFiles = [], bu_modifiedFiles = []\<rparr>))
      else case ask_summary request (js ''Branch summary'') (conversation_text messages @ branch_instructions customInstructions replaceInstructions)
             (JInt 2048) None now w of
          (w', Inl t) \<Rightarrow> (w', Inl t)
        | (w', Inr (Inl e)) \<Rightarrow> (w', Inr (Inl e))
        | (w', Inr (Inr (summary, usage))) \<Rightarrow>
            let (readFiles, modifiedFiles) = computeFileLists fileOps in
            (w', Inr (Inr \<lparr>bu_summary = BRANCH_SUMMARY_PREAMBLE @ summary @ formatFileOperations readFiles modifiedFiles, bu_usage = Some usage,
               bu_readFiles = readFiles, bu_modifiedFiles = modifiedFiles\<rparr>)))"

text \<open>The budget of a summary of entries is the context window less the reserve, 128000 and 16384 tokens unless given.\<close>

definition generateBranchSummary ::
  "('w, 't) summary_call \<Rightarrow> entry list \<Rightarrow> summary_model \<Rightarrow> jstring option \<Rightarrow> bool option \<Rightarrow> jnum option \<Rightarrow> int \<Rightarrow> 'w \<Rightarrow>
     'w \<times> ('t, (compaction_error, branch_summary_result) res) res" where
  "generateBranchSummary request entries model customInstructions replaceInstructions reserveTokens now w =
     (let contextWindow = (if num_truthy (mo_contextWindow model) then mo_contextWindow model else JInt 128000);
          preparation = prepareBranchEntries entries (num_sub contextWindow (case reserveTokens of None \<Rightarrow> JInt 16384 | Some n \<Rightarrow> n))
      in generateBranchSummaryWithRequest request (bp_messages preparation) (bp_fileOps preparation) customInstructions replaceInstructions now w)"

text \<open>A preparation never fails.\<close>

lemma prepareCompaction_total: "is_ok (prepareCompaction path settings)"
  by (simp add: prepareCompaction_def Let_def split: prod.splits)

end
