(* ===== verification/Compaction_Props.thy ===== *)
theory Compaction_Props
  imports Compaction
begin

text \<open>
  What a compaction keeps: the three parts of a preparation are the messages of the branch in order, the retained tail does not begin in
  the middle of a tool batch and goes over its budget by at most one message, and the context after the compaction is the summary and the tail.
\<close>

section \<open>Ranges of entries\<close>

lemma entry_range_append: "a \<le> b \<Longrightarrow> b \<le> c \<Longrightarrow> entry_range es a b @ entry_range es b c = entry_range es a c"
proof -
  assume "a \<le> b" "b \<le> c"
  then have "[a..<c] = [a..<b] @ [b..<c]" using upt_add_eq_append [of a b "c - b"] by simp
  then show ?thesis by (simp add: entry_range_def List.map_filter_def)
qed

lemma entry_range_all: "entry_range es 0 (length es) = List.map_filter getMessageFromEntryForCompaction es"
proof -
  have "List.map_filter f (map g xs) = List.map_filter (\<lambda>i. f (g i)) xs" for f :: "entry \<Rightarrow> agent_message option" and g :: "nat \<Rightarrow> entry" and xs
    by (induction xs) (simp_all add: List.map_filter_def)
  from this [of getMessageFromEntryForCompaction "(!) es" "[0..<length es]"] show ?thesis by (simp add: entry_range_def map_nth)
qed

lemma map_filter_append: "List.map_filter f (xs @ ys) = List.map_filter f xs @ List.map_filter f ys"
  by (simp add: List.map_filter_def)

section \<open>The cut point\<close>

lemma cut_scan_in: "cut_scan es cps start keep k0 acc n \<in> insert k0 (set cps)"
proof (induction n arbitrary: acc)
  case (Suc i)
  then show ?case by (auto simp: Let_def find_Some_iff split: entry_body.splits option.splits if_splits)
qed simp

lemma cut_back_le: "cut_back es start n \<le> n"
  by (induction n) (auto intro: le_SucI)

lemma cut_back_ge: "start \<le> n \<Longrightarrow> start \<le> cut_back es start n"
proof (induction n)
  case (Suc n)
  then show ?case by (cases "start = Suc n") auto
qed simp

text \<open>Between the two positions there are only entries without a message that are not a compaction.\<close>

lemma cut_back_skipped:
  "cut_back es start n \<le> i \<Longrightarrow> i < n \<Longrightarrow> entry_type_of (es ! i) \<noteq> EMessage \<and> entry_type_of (es ! i) \<noteq> ECompaction"
proof (induction n)
  case (Suc n)
  then show ?case by (cases "i = n") (auto split: if_splits)
qed simp

lemma turn_start_le: "turn_start es start n = Some i \<Longrightarrow> start \<le> i \<and> i < n"
  by (induction n) (auto split: if_splits)

text \<open>The selected cut point before the second loop.\<close>

definition chosen_cut :: "entry list \<Rightarrow> jnum \<Rightarrow> nat list \<Rightarrow> nat" where
  "chosen_cut es keep cps = cut_scan es cps 0 keep (hd cps) 0 (length es)"

lemma findCutPoint_cases:
  obtains "findValidCutPoints es 0 (length es) = []" "cp_firstKeptEntryIndex (findCutPoint es 0 (length es) keep) = 0"
    "\<not> cp_isSplitTurn (findCutPoint es 0 (length es) keep)"
  | cps where "findValidCutPoints es 0 (length es) = cps" "cps \<noteq> []"
    "cp_firstKeptEntryIndex (findCutPoint es 0 (length es) keep) = cut_back es 0 (chosen_cut es keep cps)" "chosen_cut es keep cps \<in> set cps"
proof (cases "findValidCutPoints es 0 (length es)")
  case Nil
  then show ?thesis by (intro that(1)) (simp_all add: findCutPoint_def)
next
  case (Cons c cs)
  have "chosen_cut es keep (c # cs) \<in> set (c # cs)" using cut_scan_in [of es "c # cs" 0 keep c 0 "length es"] by (auto simp: chosen_cut_def)
  with Cons show ?thesis by (intro that(2) [of "c # cs"]) (simp_all add: findCutPoint_def Let_def chosen_cut_def)
qed

lemma cut_points_valid: "c \<in> set (findValidCutPoints es 0 n) \<Longrightarrow> c < n \<and> is_cut_point (es ! c)"
  by (simp add: findValidCutPoints_def)

lemma cut_in_range: "cp_firstKeptEntryIndex (findCutPoint es 0 (length es) keep) \<le> length es"
proof (cases rule: findCutPoint_cases [of es keep])
  case (2 cps)
  with cut_points_valid [of "chosen_cut es keep cps" es "length es"] cut_back_le [of es 0 "chosen_cut es keep cps"] show ?thesis by auto
qed simp

lemma turn_in_range:
  assumes "cp_isSplitTurn (findCutPoint es 0 (length es) keep)"
  shows "the (cp_turnStartIndex (findCutPoint es 0 (length es) keep)) \<le> cp_firstKeptEntryIndex (findCutPoint es 0 (length es) keep)"
proof (cases "findValidCutPoints es 0 (length es)")
  case (Cons c cs)
  obtain k where k: "k = cut_back es 0 (cut_scan es (c # cs) 0 keep c 0 (length es))" by simp
  from assms Cons obtain i where "turn_start es 0 (Suc k) = Some i"
    by (simp add: findCutPoint_def findTurnStartIndex_def Let_def k [symmetric] split: if_splits del: turn_start.simps) blast
  with turn_start_le [OF this] Cons assms show ?thesis
    by (simp add: findCutPoint_def findTurnStartIndex_def Let_def k [symmetric] split: if_splits del: turn_start.simps)
qed (use assms in \<open>simp add: findCutPoint_def\<close>)

section \<open>The tokens of the tail\<close>

definition entry_tokens :: "entry \<Rightarrow> nat" where
  "entry_tokens e = (case ne_body e of MessageBody message _ \<Rightarrow> estimateTokens message | _ \<Rightarrow> 0)"

definition tail_tokens :: "entry list \<Rightarrow> nat \<Rightarrow> nat" where
  "tail_tokens es i = sum_list (map entry_tokens (drop i es))"

lemma tail_tokens_step: "i < length es \<Longrightarrow> tail_tokens es i = entry_tokens (es ! i) + tail_tokens es (Suc i)"
  by (simp add: tail_tokens_def Cons_nth_drop_Suc [symmetric])

lemma tail_tokens_mono: "i \<le> j \<Longrightarrow> tail_tokens es j \<le> tail_tokens es i"
proof -
  assume "i \<le> j"
  then have "drop i es = take (j - i) (drop i es) @ drop j es" by (metis append_take_drop_id drop_drop le_add_diff_inverse2)
  then have "sum_list (map entry_tokens (drop i es)) = sum_list (map entry_tokens (take (j - i) (drop i es))) + sum_list (map entry_tokens (drop j es))"
    by (metis map_append sum_list_append)
  then show ?thesis by (simp add: tail_tokens_def)
qed

text \<open>Unless the scan stays at the given position, the messages after the selected one are below the budget.\<close>

lemma cut_scan_budget:
  "n \<le> length es \<Longrightarrow> acc = tail_tokens es n \<Longrightarrow> acc = 0 \<or> \<not> num_less_eq keep (JInt (int acc)) \<Longrightarrow>
     cut_scan es cps 0 keep k0 acc n = k0 \<or>
     (let c = cut_scan es cps 0 keep k0 acc n in tail_tokens es (Suc c) = 0 \<or> \<not> num_less_eq keep (JInt (int (tail_tokens es (Suc c)))))"
proof (induction n arbitrary: acc)
  case (Suc i)
  have step: "tail_tokens es i = entry_tokens (es ! i) + acc" using tail_tokens_step [of i es] Suc.prems(1,2) by simp
  show ?case
  proof (cases "ne_body (es ! i)")
    case (MessageBody message t)
    then have acc': "acc + estimateTokens message = tail_tokens es i" using step by (simp add: entry_tokens_def)
    show ?thesis
    proof (cases "num_less_eq keep (JInt (int (acc + estimateTokens message)))")
      case True
      have "tail_tokens es (Suc c) = 0 \<or> \<not> num_less_eq keep (JInt (int (tail_tokens es (Suc c))))" if "i \<le> c" for c
      proof -
        have "tail_tokens es (Suc c) \<le> acc" using that tail_tokens_mono [of "Suc i" "Suc c" es] Suc.prems(2) by simp
        with Suc.prems(3) show ?thesis by (auto simp: num_less_eq_def num_nan_def)
      qed
      then show ?thesis
        using True MessageBody by (cases "List.find (\<lambda>c. i \<le> c) cps") (simp_all add: Let_def, metis (mono_tags, lifting) find_Some_iff)
    next
      case False
      with Suc.IH [OF _ acc'] Suc.prems(1) show ?thesis by (simp add: MessageBody Let_def)
    qed
  qed (use Suc.IH [of acc] Suc.prems step in \<open>simp_all add: entry_tokens_def Let_def\<close>)
qed simp

lemma skipped_tokens:
  "k \<le> c \<Longrightarrow> c < length es \<Longrightarrow> (\<And>i. k \<le> i \<Longrightarrow> i < c \<Longrightarrow> entry_type_of (es ! i) \<noteq> EMessage) \<Longrightarrow> tail_tokens es k = tail_tokens es c"
proof (induction c)
  case (Suc c)
  show ?case
  proof (cases "k = Suc c")
    case False
    then have le: "k \<le> c" using Suc.prems(1) by simp
    then have "tail_tokens es k = tail_tokens es c" using Suc.prems by (intro Suc.IH) auto
    moreover have "entry_tokens (es ! c) = 0"
      using Suc.prems(3) [of c] le by (cases "ne_body (es ! c)") (auto simp: entry_tokens_def entry_type_of_def)
    ultimately show ?thesis using tail_tokens_step [of c es] Suc.prems(2) by simp
  qed simp
qed simp

text \<open>The first message at or after the cut is not a tool result.\<close>

lemma map_filter_hd: "(\<And>x y. x \<in> set xs \<Longrightarrow> f x = Some y \<Longrightarrow> P y) \<Longrightarrow> List.map_filter f xs \<noteq> [] \<Longrightarrow> P (hd (List.map_filter f xs))"
  by (induction xs) (auto simp: List.map_filter_def split: if_splits)

lemma retained_head:
  assumes c: "c < length es" "is_cut_point (es ! c)" and k: "k = cut_back es 0 c"
  shows "entry_range es k (length es) \<noteq> [] \<and> cut_role (hd (entry_range es k (length es)))"
proof -
  have kc: "k \<le> c" using cut_back_le [of es 0 c] k by simp
  obtain message where m: "getMessageFromEntryForCompaction (es ! c) = Some message" "cut_role message"
    using c(2) by (auto simp: is_cut_point_def getMessageFromEntryForCompaction_def getMessageFromEntry_def entry_type_of_def cut_role_def
        createBranchSummaryMessage_def split: entry_body.splits)
  have later: "entry_range es c (length es) = message # entry_range es (Suc c) (length es)"
    using m(1) c(1) by (simp add: entry_range_def List.map_filter_def upt_conv_Cons)
  have "cut_role x" if "i \<in> set [k..<c]" "getMessageFromEntryForCompaction (es ! i) = Some x" for i x
    using cut_back_skipped [of es 0 c i] that k
    by (auto simp: getMessageFromEntryForCompaction_def getMessageFromEntry_def entry_type_of_def cut_role_def createBranchSummaryMessage_def
        split: entry_body.splits if_splits)
  then have earlier: "entry_range es k c \<noteq> [] \<Longrightarrow> cut_role (hd (entry_range es k c))"
    unfolding entry_range_def by (rule map_filter_hd)
  have "entry_range es k (length es) = entry_range es k c @ message # entry_range es (Suc c) (length es)"
    using entry_range_append [OF kc, of "length es" es] c(1) later by simp
  with earlier m(2) show ?thesis by (cases "entry_range es k c") auto
qed

section \<open>The messages of a branch\<close>

text \<open>The messages a branch holds since its last compaction, with the tail that compaction kept, and the summary before them.\<close>

definition branch_messages :: "entry list \<Rightarrow> agent_message list" where
  "branch_messages path =
     (case last_compaction path (length path) of
        None \<Rightarrow> List.map_filter getMessageFromEntryForCompaction path
      | Some i \<Rightarrow> (case ne_body (path ! i) of CompactionBody c \<Rightarrow> co_retainedTail c | _ \<Rightarrow> []) @
          List.map_filter getMessageFromEntryForCompaction (drop (Suc i) path))"

definition summary_before :: "entry list \<Rightarrow> agent_message list" where
  "summary_before path =
     (case last_compaction path (length path) of
        None \<Rightarrow> []
      | Some i \<Rightarrow> (case ne_body (path ! i) of
            CompactionBody c \<Rightarrow> [createCompactionSummaryMessage (co_summary c) (co_tokensBefore c) (e_timestamp (path ! i))]
          | _ \<Rightarrow> []))"

lemma last_compaction_body: "last_compaction path n = Some i \<Longrightarrow> i < n \<and> (\<exists>c. ne_body (path ! i) = CompactionBody c)"
proof (induction n)
  case (Suc n)
  then show ?case by (cases "ne_body (path ! n)") (auto simp: entry_type_of_def split: if_splits)
qed simp

lemma virtual_messages: "List.map_filter getMessageFromEntryForCompaction (map (\<lambda>(index, message). virtual_entry e index message) (List.enumerate n ms)) = ms"
  by (induction ms arbitrary: n)
    (simp_all add: List.map_filter_def getMessageFromEntryForCompaction_def getMessageFromEntry_def virtual_entry_def entry_type_of_def)

lemma prepareCompaction_parts:
  assumes "prepareCompaction path settings = Inr (Some p)"
  obtains es where "List.map_filter getMessageFromEntryForCompaction es = branch_messages path"
    "dp_messagesToSummarize p @ dp_turnPrefixMessages p @ dp_retainedTail p = entry_range es 0 (length es)"
    "dp_retainedTail p = entry_range es (cp_firstKeptEntryIndex (findCutPoint es 0 (length es) (cse_keepRecentTokens settings))) (length es)"
    "dp_messagesToSummarize p @ dp_turnPrefixMessages p = entry_range es 0 (cp_firstKeptEntryIndex (findCutPoint es 0 (length es) (cse_keepRecentTokens settings)))"
proof -
  define es where "es = (case last_compaction path (length path) of None \<Rightarrow> path | Some i \<Rightarrow> snd (compactable path i))"
  define cutp where "cutp = findCutPoint es 0 (length es) (cse_keepRecentTokens settings)"
  let ?k = "cp_firstKeptEntryIndex cutp"
  have "List.map_filter getMessageFromEntryForCompaction es = branch_messages path"
    using last_compaction_body [of path "length path"]
    by (auto simp: es_def branch_messages_def compactable_def map_filter_append virtual_messages split: option.splits)
  moreover have "(case last_compaction path (length path) of None \<Rightarrow> (None, path) | Some i \<Rightarrow> compactable path i) = (x, y) \<Longrightarrow> y = es" for x y
    by (auto simp: es_def split: option.splits)
  then have parts: "dp_messagesToSummarize p = entry_range es 0 (if cp_isSplitTurn cutp then the (cp_turnStartIndex cutp) else ?k)"
    "dp_turnPrefixMessages p = (if cp_isSplitTurn cutp then entry_range es (the (cp_turnStartIndex cutp)) ?k else [])"
    "dp_retainedTail p = entry_range es ?k (length es)"
    using assms by (auto simp: prepareCompaction_def Let_def cutp_def split: prod.splits if_splits)
  moreover have summarized: "dp_messagesToSummarize p @ dp_turnPrefixMessages p = entry_range es 0 ?k"
    using parts turn_in_range [of es "cse_keepRecentTokens settings"] by (auto simp: cutp_def intro: entry_range_append)
  moreover have "dp_messagesToSummarize p @ dp_turnPrefixMessages p @ dp_retainedTail p = entry_range es 0 (length es)"
    using summarized parts(3) cut_in_range [of es "cse_keepRecentTokens settings"]
    by (simp add: cutp_def entry_range_append flip: append_assoc)
  ultimately show ?thesis using that by (simp add: cutp_def)
qed

section \<open>Context\<close>

lemma entry_context:
  assumes "\<forall>b. ne_body e = BranchSummaryBody b \<longrightarrow> br_summary b \<noteq> []" "entry_type_of e \<noteq> ECompaction"
  shows "entry_messages (\<lambda>_. None) e = filter isContextMessage (List.map_filter getMessageFromEntryForCompaction [e])"
  using assms
  by (cases "ne_body e") (auto simp: entry_messages_def sessionEntryToContextMessages_def entry_type_of_def getMessageFromEntryForCompaction_def
      getMessageFromEntry_def List.map_filter_def isContextMessage_def createBranchSummaryMessage_def split: option.splits)

lemma entries_context:
  assumes "\<forall>e\<in>set es. (\<forall>b. ne_body e = BranchSummaryBody b \<longrightarrow> br_summary b \<noteq> []) \<and> entry_type_of e \<noteq> ECompaction"
  shows "concat (map (entry_messages (\<lambda>_. None)) es) = filter isContextMessage (List.map_filter getMessageFromEntryForCompaction es)"
  using assms
proof (induction es)
  case (Cons e es)
  then show ?case using entry_context [of e] map_filter_append [of getMessageFromEntryForCompaction "[e]" es] by simp
qed (simp add: List.map_filter_def)

lemma after_last_compaction: "last_compaction path n = Some i \<Longrightarrow> n \<le> length path \<Longrightarrow> e \<in> set (drop (Suc i) (take n path)) \<Longrightarrow> entry_type_of e \<noteq> ECompaction"
proof (induction n)
  case (Suc n)
  then show ?case by (auto simp: take_Suc_conv_app_nth drop_append split: if_splits dest: in_set_dropD)
qed simp

lemma branch_context:
  assumes "\<forall>e\<in>set path. \<forall>b. ne_body e = BranchSummaryBody b \<longrightarrow> br_summary b \<noteq> []"
  shows "buildSessionContext (\<lambda>_. None) path = summary_before path @ filter isContextMessage (branch_messages path)"
proof (cases "last_compaction path (length path)")
  case None
  then have "\<forall>e\<in>set path. \<not> is_compaction e" using last_compaction_None [of "length path" path] by simp
  with assms None show ?thesis by (simp add: buildSessionContext_def buildContextEntries_def summary_before_def branch_messages_def entries_context)
next
  case (Some i)
  from last_compaction_body [OF this] obtain c where c: "i < length path" "ne_body (path ! i) = CompactionBody c" by blast
  have "concat (map (entry_messages (\<lambda>_. None)) (drop (Suc i) path)) = filter isContextMessage (List.map_filter getMessageFromEntryForCompaction (drop (Suc i) path))"
    using assms after_last_compaction [OF Some] by (intro entries_context) (auto dest: in_set_dropD)
  with c Some show ?thesis
    by (simp add: buildSessionContext_def buildContextEntries_def summary_before_def branch_messages_def entry_messages_def
        sessionEntryToContextMessages_def entry_type_of_def)
qed

lemma compacted_context:
  assumes "ne_body e = CompactionBody c"
  shows "buildSessionContext projectors (path @ [e]) =
    createCompactionSummaryMessage (co_summary c) (co_tokensBefore c) (e_timestamp e) # filter isContextMessage (co_retainedTail c)"
  using buildContextEntries_split [of e "[]" path] assms
  by (simp add: buildSessionContext_def entry_messages_def sessionEntryToContextMessages_def entry_type_of_def)

section \<open>Properties\<close>

text \<open>
  C9. A compaction loses no message of the branch and repeats none: the messages to summarize, the prefix of a split turn and the retained tail are, in this order, the messages
  the branch holds since its last compaction. When no branch summary is empty, the context that is built from the branch before, without projectors of the application, is the earlier summary and those
  messages (without failed ones); what projectors make of custom entries is in none of the parts. The context after the entry of the compaction is its summary and the retained tail. The tail begins neither with a tool result nor with
  a message of the application, or else nothing is summarized.
\<close>

theorem compaction_partition:
  assumes "prepareCompaction path settings = Inr (Some p)"
    and "\<forall>e\<in>set path. \<forall>b. ne_body e = BranchSummaryBody b \<longrightarrow> br_summary b \<noteq> []"
    and "ne_body e = CompactionBody c" "co_retainedTail c = dp_retainedTail p"
  shows "buildSessionContext (\<lambda>_. None) path =
      summary_before path @ filter isContextMessage (dp_messagesToSummarize p @ dp_turnPrefixMessages p @ dp_retainedTail p) \<and>
    dp_messagesToSummarize p @ dp_turnPrefixMessages p @ dp_retainedTail p = branch_messages path \<and>
    buildSessionContext projectors (path @ [e]) =
      createCompactionSummaryMessage (co_summary c) (co_tokensBefore c) (e_timestamp e) # filter isContextMessage (dp_retainedTail p) \<and>
    (dp_retainedTail p \<noteq> [] \<and> cut_role (hd (dp_retainedTail p)) \<or> dp_messagesToSummarize p @ dp_turnPrefixMessages p = [])"
proof -
  from prepareCompaction_parts [OF assms(1)] obtain es where es: "List.map_filter getMessageFromEntryForCompaction es = branch_messages path"
    "dp_messagesToSummarize p @ dp_turnPrefixMessages p @ dp_retainedTail p = entry_range es 0 (length es)"
    "dp_retainedTail p = entry_range es (cp_firstKeptEntryIndex (findCutPoint es 0 (length es) (cse_keepRecentTokens settings))) (length es)"
    "dp_messagesToSummarize p @ dp_turnPrefixMessages p = entry_range es 0 (cp_firstKeptEntryIndex (findCutPoint es 0 (length es) (cse_keepRecentTokens settings)))" .
  have parts: "dp_messagesToSummarize p @ dp_turnPrefixMessages p @ dp_retainedTail p = branch_messages path"
    using es(1,2) by (simp add: entry_range_all)
  have "dp_retainedTail p \<noteq> [] \<and> cut_role (hd (dp_retainedTail p)) \<or> dp_messagesToSummarize p @ dp_turnPrefixMessages p = []"
  proof (cases rule: findCutPoint_cases [of es "cse_keepRecentTokens settings"])
    case 1
    then show ?thesis using es(4) by (simp add: entry_range_def List.map_filter_def)
  next
    case (2 cps)
    with cut_points_valid [of "chosen_cut es (cse_keepRecentTokens settings) cps" es "length es"] show ?thesis
      using retained_head [OF _ _ refl] es(3) by simp
  qed
  with parts branch_context [OF assms(2)] compacted_context [OF assms(3)] assms(4) show ?thesis by simp
qed

text \<open>The tokens of everything a cut retains, and of the branch summaries among it.\<close>

definition kept_tokens :: "entry list \<Rightarrow> nat \<Rightarrow> nat" where
  "kept_tokens es k = sum_list (map estimateTokens (entry_range es k (length es)))"

definition branch_tokens :: "entry list \<Rightarrow> nat \<Rightarrow> nat" where
  "branch_tokens es k =
     sum_list (map (\<lambda>e. case ne_body e of BranchSummaryBody b \<Rightarrow> estimateTokens (the (getMessageFromEntry e)) | _ \<Rightarrow> 0) (drop k es))"

lemma entry_range_drop: "entry_range es k (length es) = List.map_filter getMessageFromEntryForCompaction (drop k es)"
proof -
  have "drop k es = map ((!) es) [k..<length es]" by (rule nth_equalityI) (simp_all add: add.commute)
  then show ?thesis by (simp add: entry_range_def List.map_filter_def filter_map comp_def)
qed

lemma kept_split: "kept_tokens es k = branch_tokens es k + tail_tokens es k"
proof -
  have "sum_list (map estimateTokens (List.map_filter getMessageFromEntryForCompaction xs)) =
      sum_list (map (\<lambda>e. case ne_body e of BranchSummaryBody b \<Rightarrow> estimateTokens (the (getMessageFromEntry e)) | _ \<Rightarrow> 0) xs) + sum_list (map entry_tokens xs)" for xs
    by (induction xs)
      (auto simp: List.map_filter_def entry_tokens_def getMessageFromEntryForCompaction_def getMessageFromEntry_def entry_type_of_def split: entry_body.splits)
  then show ?thesis by (simp add: kept_tokens_def branch_tokens_def tail_tokens_def entry_range_drop)
qed

text \<open>
  C27. Apart from the branch summaries it holds, the tail a compaction retains exceeds its budget of recent tokens by at most one message: unless everything from the first possible cut on is kept, the
  tokens of all retained messages are those of the branch summaries among them, of one message, and of messages after it that together are below the budget. The branch summaries
  are retained, but the budget does not count them.
\<close>

theorem cut_point_budget:
  assumes "0 < b" "findValidCutPoints es 0 (length es) = c # cs" "k = cp_firstKeptEntryIndex (findCutPoint es 0 (length es) (JInt b))"
  shows "k \<le> c \<or> (\<exists>m. k \<le> m \<and> m < length es \<and> is_cut_point (es ! m) \<and>
    sum_list (map estimateTokens (entry_range es k (length es))) = branch_tokens es k + entry_tokens (es ! m) + tail_tokens es (Suc m) \<and>
    int (tail_tokens es (Suc m)) < b)"
proof -
  define m where "m = chosen_cut es (JInt b) (c # cs)"
  have m: "m < length es" "is_cut_point (es ! m)" "k = cut_back es 0 m"
    using findCutPoint_cases [of es "JInt b"] assms cut_points_valid [of m es "length es"] by (metis list.discI m_def)+
  have le: "k \<le> m" using cut_back_le [of es 0 m] m(3) by simp
  have "tail_tokens es k = tail_tokens es m" by (rule skipped_tokens [OF le m(1)]) (use cut_back_skipped [of es 0 m] m(3) in simp)
  then have t: "tail_tokens es k = entry_tokens (es ! m) + tail_tokens es (Suc m)" using tail_tokens_step [OF m(1)] by simp
  have "tail_tokens es (length es) = 0" by (simp add: tail_tokens_def)
  with cut_scan_budget [of "length es" es 0 "JInt b" "c # cs" c] have "m = c \<or> int (tail_tokens es (Suc m)) < b"
    using assms(1) by (auto simp: m_def chosen_cut_def Let_def)
  then show ?thesis using le t m kept_split [of es k] by (auto simp: kept_tokens_def)
qed

text \<open>
  When the last entry alone is a tool result over the budget, no cut point follows it and the scan falls back to the first one: nothing but what
  precedes the first cut point is summarized, however long the branch is.
\<close>

lemma oversized_result_keeps_all:
  assumes "findValidCutPoints es 0 (length es) = c # cs" "es \<noteq> []" "ne_body (last es) = MessageBody (Llm (ToolResultMsg r)) t"
    and "b \<le> int (estimateTokens (Llm (ToolResultMsg r)))"
  shows "cp_firstKeptEntryIndex (findCutPoint es 0 (length es) (JInt b)) = cut_back es 0 c"
proof -
  obtain n where n: "length es = Suc n" using assms(2) by (cases es) auto
  then have last: "ne_body (es ! n) = MessageBody (Llm (ToolResultMsg r)) t" using assms(2,3) by (simp add: last_conv_nth)
  have "x < n" if "x \<in> set (c # cs)" for x
  proof -
    have "x < Suc n" "is_cut_point (es ! x)" using cut_points_valid [of x es "length es"] that assms(1) n by auto
    moreover have "\<not> is_cut_point (es ! n)" by (simp add: is_cut_point_def last cut_role_def)
    ultimately show ?thesis by (metis less_Suc_eq)
  qed
  then have "List.find (\<lambda>x. n \<le> x) (c # cs) = None" by (fastforce simp: find_None_iff)
  then have "cut_scan es (c # cs) 0 (JInt b) c 0 (length es) = c" using last assms(4) n by (simp add: Let_def)
  with assms(1) show ?thesis by (simp add: findCutPoint_def Let_def)
qed

section \<open>An example\<close>

definition sample_entry :: "nat \<Rightarrow> agent_message \<Rightarrow> entry" where
  "sample_entry n message =
     \<lparr>ne_id = nat_text n, ne_parentId = (if n = 0 then None else Some (nat_text (n - 1))), ne_customType = None,
      ne_body = MessageBody message False, e_seq = int n, e_timestamp = int n\<rparr>"

definition sample_answer :: agent_message where
  "sample_answer = Llm (AssistantMsg
     \<lparr>am_content = [AsText \<lparr>tc_text = js ''done as asked'', tc_textSignature = None\<rparr>], am_api = [], am_provider = [], am_model = [], am_responseModel = None,
      am_responseId = None, am_providerThinkingLevel = None, am_diagnostics = None, am_usage = emptyUsage, am_stopReason = StopStop,
      am_deferred = None, am_errorMessage = None, am_rawStopReason = None, am_endTurn = None, am_timestamp = 1\<rparr>)"

definition sample_path :: "entry list" where
  "sample_path =
     [sample_entry 0 (Llm (user_text (js ''first question'') 0)), sample_entry 1 sample_answer,
      sample_entry 2 (Llm (user_text (js ''second question'') 2)), sample_entry 3 sample_answer]"

definition sample_settings :: compaction_settings where
  "sample_settings = \<lparr>cse_enabled = True, cse_reserveTokens = JInt 16384, cse_keepRecentTokens = JInt 5\<rparr>"

definition sample_compaction :: "agent_message list \<Rightarrow> entry" where
  "sample_compaction tail' =
     \<lparr>ne_id = nat_text 4, ne_parentId = Some (nat_text 3), ne_customType = None,
      ne_body = CompactionBody \<lparr>co_summary = js ''summary'', co_retainedTail = tail', co_tokensBefore = JInt 15, co_details = None, co_usage = None,
        co_fromHook = False\<rparr>,
      e_seq = 4, e_timestamp = 4\<rparr>"

lemma sample_cut: "findValidCutPoints sample_path 0 (length sample_path) = [0, 1, 2, 3]" "cp_firstKeptEntryIndex (findCutPoint sample_path 0 (length sample_path) (JInt 5)) = 2"
  by code_simp+

lemma sample_prepared:
  "case prepareCompaction sample_path sample_settings of
     Inr (Some p) \<Rightarrow> dp_retainedTail p = [Llm (user_text (js ''second question'') 2), sample_answer] \<and> dp_turnPrefixMessages p = []
   | _ \<Rightarrow> False"
  by code_simp

lemma sample_messages: "e \<in> set sample_path \<Longrightarrow> ne_body e \<noteq> BranchSummaryBody b"
  by (auto simp: sample_path_def sample_entry_def)

theorem compaction_partition_witness:
  "\<exists>p. prepareCompaction sample_path sample_settings = Inr (Some p) \<and>
     dp_messagesToSummarize p = [Llm (user_text (js ''first question'') 0), sample_answer] \<and>
     buildSessionContext (\<lambda>_. None) (sample_path @ [sample_compaction (dp_retainedTail p)]) =
       [createCompactionSummaryMessage (js ''summary'') (JInt 15) 4, Llm (user_text (js ''second question'') 2), sample_answer]"
proof -
  from sample_prepared obtain p where p: "prepareCompaction sample_path sample_settings = Inr (Some p)"
    "dp_retainedTail p = [Llm (user_text (js ''second question'') 2), sample_answer]" "dp_turnPrefixMessages p = []"
    by (auto split: sum.splits option.splits)
  have "branch_messages sample_path = [Llm (user_text (js ''first question'') 0), sample_answer, Llm (user_text (js ''second question'') 2), sample_answer]"
    by code_simp
  with compaction_partition [OF p(1), where e = "sample_compaction (dp_retainedTail p)" and projectors = "\<lambda>_. None"] sample_messages p
  have "dp_messagesToSummarize p = [Llm (user_text (js ''first question'') 0), sample_answer] \<and>
    buildSessionContext (\<lambda>_. None) (sample_path @ [sample_compaction (dp_retainedTail p)]) =
      [createCompactionSummaryMessage (js ''summary'') (JInt 15) 4, Llm (user_text (js ''second question'') 2), sample_answer]"
    by (simp add: sample_compaction_def isContextMessage_def sample_answer_def user_text_def)
  with p(1) show ?thesis by blast
qed

theorem cut_point_budget_witness:
  "\<exists>m. 2 \<le> m \<and> m < length sample_path \<and> is_cut_point (sample_path ! m) \<and> int (tail_tokens sample_path (Suc m)) < 5 \<and>
     sum_list (map estimateTokens (entry_range sample_path 2 (length sample_path))) =
       branch_tokens sample_path 2 + entry_tokens (sample_path ! m) + tail_tokens sample_path (Suc m)"
proof -
  have "2 \<le> (0 :: nat) \<or> (\<exists>m. 2 \<le> m \<and> m < length sample_path \<and> is_cut_point (sample_path ! m) \<and>
      sum_list (map estimateTokens (entry_range sample_path 2 (length sample_path))) = branch_tokens sample_path 2 + entry_tokens (sample_path ! m) + tail_tokens sample_path (Suc m) \<and>
      int (tail_tokens sample_path (Suc m)) < 5)"
    by (rule cut_point_budget [OF _ sample_cut(1)]) (simp_all add: sample_cut(2))
  then show ?thesis by (elim disjE exE conjE, simp, intro exI conjI)
qed

text \<open>What the budget does not count: a branch summary before the last answer is retained with it.\<close>

definition sample_summaries :: "entry list" where
  "sample_summaries =
     [sample_entry 0 (Llm (user_text (js ''first question'') 0)),
      (sample_entry 1 sample_answer)\<lparr>ne_body := BranchSummaryBody \<lparr>br_fromId = None, br_summary = js ''a summary that is much longer than the budget allows for'', br_details = None, br_usage = None, br_fromHook = False\<rparr>\<rparr>,
      sample_entry 2 sample_answer]"

lemma summaries_over_budget:
  "cp_firstKeptEntryIndex (findCutPoint sample_summaries 0 3 (JInt 3)) = 1" "15 < kept_tokens sample_summaries 1"
  by code_simp+

end
