(* ===== verification/Lane_Events.thy ===== *)
theory Lane_Events
  imports Session_Core_Props
begin

text \<open>
  What a lane tells its observers: the event and snapshot types of \<^verbatim>\<open>packages/agent/src/harness/agent-harness.ts\<close>, and the
  functions of \<^verbatim>\<open>runtime/transcript.ts\<close> that make events of committed entries and read the queues back from the
  session. Tool arguments and partial results are JSON; the raw provider event and frame inside a message update are left
  out, since only the message is used.
\<close>

section \<open>Events\<close>

record tool_result =
  tlr_content :: "input_content list"
  tlr_details :: "json option"
  tlr_usage :: "usage option"
  tlr_addedToolNames :: "jstring list option"
  tlr_terminate :: "bool option"

datatype lane_queued_item =
    QueuedMessage (qi_entryId: jstring) inbox_kind agent_message
  | QueuedCustom (qi_entryId: jstring) jstring "json option"

datatype config_change =
    ModelChange model_ref model_ref
  | ThinkingChange thinking_level thinking_level
  | ActiveToolsChange "jstring list" "jstring list"
  | GlobalChange jstring

datatype (plugins only: code) harness_payload =
    RunStart jstring int
  | RunResume jstring
  | RunSuspend jstring deferred_handle int
  | OperationAbort jstring "agent_message list" "agent_message list"
  | RunEnd jstring "jstring option" "jstring option" int terminal_status "operation_error option"
  | FaultRaised jstring jstring
  | HandlerError jstring jstring
  | TurnStart jstring jstring
  | TurnEnd jstring jstring assistant_message "tool_result_message list"
  | RetryScheduled jstring jstring int int jnum jnum jstring
  | RetryStart jstring jstring int
  | RetryEnd jstring jstring int bool "jstring option"
  | MessageStart "jstring option" agent_message
  | MessageUpdate jstring agent_message
  | MessageEnd "jstring option" agent_message "jstring option"
  | ToolStart jstring jstring jstring jstring json
  | ToolUpdate jstring jstring jstring jstring tool_result
  | ToolEnd jstring jstring jstring jstring tool_result bool bool
  | EntryAdded entry
  | QueueUpdate "lane_queued_item list"
  | SessionNameUpdate "jstring option"
  | EntryLabelUpdate jstring "jstring option"
  | ConfigUpdate config_change
  | CompactionStart jstring summary_reason int
  | CompactionEnd jstring summary_reason int terminal_status "jstring option" "operation_error option"
  | NavigationStart jstring "jstring option" int
  | NavigationEnd jstring "jstring option" "jstring option" int terminal_status "operation_error option"
  | LaneCreated "jstring option"
  | UsageRecorded usage_row usage

text \<open>The lane is absent from the events that concern the whole session.\<close>

record harness_event =
  ev_lane :: "jstring option"
  ev_payload :: harness_payload

definition on_lane :: "jstring \<Rightarrow> harness_payload \<Rightarrow> harness_event" where
  "on_lane lane p = \<lparr>ev_lane = Some lane, ev_payload = p\<rparr>"

section \<open>Events of committed entries\<close>

text \<open>The mutable \<^verbatim>\<open>parentId\<close> of \<^verbatim>\<open>chainEntries\<close> is an argument of the recursion.\<close>

fun chainEntries :: "jstring option \<Rightarrow> new_entry list \<Rightarrow> new_entry list" where
  "chainEntries parentId [] = []"
| "chainEntries parentId (item # items) = item\<lparr>ne_parentId := parentId\<rparr> # chainEntries (Some (ne_id item)) items"

definition entryLifecycleEvents :: "entry \<Rightarrow> jstring \<Rightarrow> jstring option \<Rightarrow> harness_event list" where
  "entryLifecycleEvents e lane runId =
     map (on_lane lane)
       (case ne_body e of
          MessageBody m _ \<Rightarrow> [MessageStart runId m, MessageEnd runId m (Some (ne_id e)), EntryAdded e]
        | _ \<Rightarrow> [EntryAdded e])"

fun committed_events_from :: "new_entry list \<Rightarrow> commit_result \<Rightarrow> jstring \<Rightarrow> jstring option \<Rightarrow> nat \<Rightarrow> harness_event list" where
  "committed_events_from [] commit lane runId i = []"
| "committed_events_from (e # es) commit lane runId i =
     entryLifecycleEvents (materializeCommittedEntry e (cr_seqs commit ! i) (cr_timestamp commit)) lane runId @
     committed_events_from es commit lane runId (Suc i)"

definition committedEntryEvents ::
  "new_entry list \<Rightarrow> commit_result \<Rightarrow> jstring \<Rightarrow> jstring option \<Rightarrow> nat \<Rightarrow> harness_event list" where
  "committedEntryEvents entries commit lane runId firstWriteIndex = committed_events_from entries commit lane runId firstWriteIndex"

section \<open>Typed reads\<close>

text \<open>
  An address fixes the type of its values. A value of another type, which only a caller that goes around the typed
  addresses can store, is read as if it were absent.
\<close>

definition typed :: "(sval \<Rightarrow> 'a option) \<Rightarrow> stored_value option \<Rightarrow> 'a option" where
  "typed f v = Option.bind v (\<lambda>v. f (sv_value v))"

fun as_tip :: "sval \<Rightarrow> jstring option option" where
  "as_tip (STip t) = Some t"
| "as_tip _ = None"

fun as_config :: "sval \<Rightarrow> lane_configuration option" where
  "as_config (SConfig c) = Some c"
| "as_config _ = None"

fun as_lane :: "sval \<Rightarrow> lane_state option" where
  "as_lane (SLane l) = Some l"
| "as_lane _ = None"

fun as_meta :: "sval \<Rightarrow> operation_meta option" where
  "as_meta (SMeta m) = Some m"
| "as_meta _ = None"

fun as_operation :: "sval \<Rightarrow> operation_state option" where
  "as_operation (SOperation s) = Some s"
| "as_operation _ = None"

fun as_pending :: "sval \<Rightarrow> pending_entry option" where
  "as_pending (SPending p) = Some p"
| "as_pending _ = None"

fun as_result :: "sval \<Rightarrow> operation_result option" where
  "as_result (SResult r) = Some r"
| "as_result _ = None"

definition read_typed ::
  "'s storage_ops \<Rightarrow> 's mutation \<Rightarrow> (sval \<Rightarrow> 'a option) \<Rightarrow> (session_error, address) res \<Rightarrow> (session_error, 'a option) res" where
  "read_typed ops m f address = rbind address (\<lambda>a. rbind (mutation_getValue ops m a) (\<lambda>v. Inr (typed f v)))"

section \<open>Queues\<close>

text \<open>\<^verbatim>\<open>Promise.all\<close> over reads of one state: the values in order, or the first error.\<close>

fun read_each :: "('a \<Rightarrow> ('e, 'b) res) \<Rightarrow> 'a list \<Rightarrow> ('e, 'b list) res" where
  "read_each f [] = Inr []"
| "read_each f (x # xs) = rbind (f x) (\<lambda>y. rbind (read_each f xs) (\<lambda>ys. Inr (y # ys)))"

definition read_queued :: "'s storage_ops \<Rightarrow> 's mutation \<Rightarrow> inbox_item \<Rightarrow> (session_error, lane_queued_item) res" where
  "read_queued ops m item =
     rbind (read_typed ops m as_pending (pendingEntry (ii_entryId item))) (\<lambda>stored.
       case stored of
         None \<Rightarrow> Inl (PendingMissingPayload (ii_kind item) (ii_entryId item))
       | Some (PendingMessage message) \<Rightarrow> Inr (QueuedMessage (ii_entryId item) (ii_kind item) message)
       | Some (PendingCustom customType payload) \<Rightarrow>
           if ii_kind item \<noteq> WriteItem then Inl (PendingNotMessage (ii_kind item) (ii_entryId item))
           else Inr (QueuedCustom (ii_entryId item) customType payload))"

definition readLaneQueues :: "'s storage_ops \<Rightarrow> 's mutation \<Rightarrow> inbox_item list \<Rightarrow> (session_error, lane_queued_item list) res" where
  "readLaneQueues ops m inbox = read_each (read_queued ops m) inbox"

definition readPendingMessages ::
  "'s storage_ops \<Rightarrow> 's mutation \<Rightarrow> jstring list \<Rightarrow> (session_error, (jstring \<times> agent_message) list) res" where
  "readPendingMessages ops m ids =
     read_each (\<lambda>entryId.
       rbind (read_typed ops m as_pending (pendingEntry entryId)) (\<lambda>value.
         case value of Some (PendingMessage payload) \<Rightarrow> Inr (entryId, payload) | _ \<Rightarrow> Inl (MissingMessagePayload entryId))) ids"

section \<open>Lemmas\<close>

lemma read_each_Inr:
  "(\<And>x. x \<in> set xs \<Longrightarrow> f x = Inr (g x)) \<Longrightarrow> read_each f xs = Inr (map g xs)"
  by (induction xs) simp_all

lemma read_each_length: "read_each f xs = Inr ys \<Longrightarrow> length ys = length xs"
  by (induction xs arbitrary: ys) (auto simp: rbind_eq_Inr)

lemma chainEntries_ids [simp]: "map ne_id (chainEntries p es) = map ne_id es"
  by (induction es arbitrary: p) simp_all

lemma length_chainEntries [simp]: "length (chainEntries p es) = length es"
  by (induction es arbitrary: p) simp_all

lemma chainEntries_Nil_iff [simp]: "chainEntries p es = [] \<longleftrightarrow> es = []"
  by (cases es) simp_all

lemma last_chainEntries: "es \<noteq> [] \<Longrightarrow> ne_id (last (chainEntries p es)) = ne_id (last es)"
  by (induction es arbitrary: p) auto

end
