(* ===== verification/Lane_Restore.thy ===== *)
theory Lane_Restore
  imports Lane_Events
begin

text \<open>
  Restoring lanes from a session, \<^verbatim>\<open>packages/agent/src/harness/runtime/restore.ts\<close>: a lane is configured when its branch tip, its configuration
  and its state are all stored, and an open operation must have metadata and a state that belong together.
\<close>

section \<open>The state of a lane\<close>

text \<open>\<^verbatim>\<open>LaneState\<close> of \<^verbatim>\<open>runtime/types.ts\<close>: what the running lane holds in memory.\<close>

record live_lane =
  ll_tipId :: "jstring option"
  ll_configuration :: lane_configuration
  ll_inbox :: "inbox_item list"
  ll_lastOperationId :: "jstring option"
  ll_operation :: "operation option"

section \<open>Intent and state of an operation\<close>

fun summary_task_of :: "operation_state \<Rightarrow> summary_task option" where
  "summary_task_of (SummaryDeciding _ t) = Some t"
| "summary_task_of (SummaryReady _ t _ _) = Some t"
| "summary_task_of (SummaryEffectPending _ t _ _ _ _) = Some t"
| "summary_task_of (SummaryRetryWait _ t _ _) = Some t"
| "summary_task_of _ = None"

definition isSummaryState :: "operation_state \<Rightarrow> bool" where
  "isSummaryState state \<longleftrightarrow> summary_task_of state \<noteq> None"

definition task_boundary :: "(result_boundary \<Rightarrow> bool) \<Rightarrow> operation_state \<Rightarrow> bool" where
  "task_boundary P state = (case summary_task_of state of None \<Rightarrow> False | Some t \<Rightarrow> P (st_boundary t))"

definition stateMatchesIntent :: "operation_intent \<Rightarrow> operation_state \<Rightarrow> bool" where
  "stateMatchesIntent intent state =
     (case intent of
        CompactionIntent _ \<Rightarrow> task_boundary (\<lambda>b. b = Finish) state
      | NavigationIntent targetId summarize label customInstructions \<Rightarrow>
          (case state of
             NavigationReadyToCommit _ target l \<Rightarrow> \<not> summarize \<and> target = targetId \<and> l = label
           | _ \<Rightarrow> summarize \<and> task_boundary (\<lambda>b. case b of CommitNavigation target l \<Rightarrow> Some target = targetId \<and> l = label | _ \<Rightarrow> False) state \<and>
               map_option st_customInstructions (summary_task_of state) = Some customInstructions)
      | RunIntent _ \<Rightarrow>
          (case state of
             NavigationReadyToCommit _ _ _ \<Rightarrow> False
           | _ \<Rightarrow> \<not> isSummaryState state \<or> task_boundary (\<lambda>b. case b of ResumeCheckpoint _ \<Rightarrow> True | _ \<Rightarrow> False) state))"

section \<open>Classification\<close>

datatype classified_lane =
    LaneAbsent
  | LaneBranch "jstring option"
  | LaneConfigured "jstring option" lane_configuration lane_state

definition classifyLaneStorage ::
  "jstring \<Rightarrow> jstring option option \<Rightarrow> lane_configuration option \<Rightarrow> lane_state option \<Rightarrow> (session_error, classified_lane) res" where
  "classifyLaneStorage lane tip configuration state =
     (case (tip, configuration, state) of
        (None, None, None) \<Rightarrow> Inr LaneAbsent
      | (Some t, None, None) \<Rightarrow> Inr (LaneBranch t)
      | (None, _, _) \<Rightarrow> Inl (LaneMissingTip lane)
      | (Some t, None, _) \<Rightarrow> Inl (LaneMissingConfig lane)
      | (Some t, Some c, None) \<Rightarrow> Inl (LaneMissingState lane)
      | (Some t, Some c, Some l) \<Rightarrow> Inr (LaneConfigured t c l))"

definition readLaneStorage :: "'s storage_ops \<Rightarrow> 's mutation \<Rightarrow> jstring \<Rightarrow> (session_error, classified_lane) res" where
  "readLaneStorage ops m lane =
     rbind (read_typed ops m as_tip (branchTip lane)) (\<lambda>tip.
     rbind (read_typed ops m as_config (laneConfig lane)) (\<lambda>configuration.
     rbind (read_typed ops m as_lane (laneState lane)) (\<lambda>state.
       classifyLaneStorage lane tip configuration state)))"

section \<open>Restoring\<close>

definition restore_operation :: "'s storage_ops \<Rightarrow> 's mutation \<Rightarrow> jstring \<Rightarrow> jstring \<Rightarrow> (session_error, operation) res" where
  "restore_operation ops m lane operationId =
     rbind (read_typed ops m as_meta (operationMeta operationId)) (\<lambda>meta.
     rbind (read_typed ops m as_operation (operationState operationId)) (\<lambda>state.
       case meta of
         None \<Rightarrow> Inl (OperationMissingMeta operationId)
       | Some meta \<Rightarrow>
           (case state of
              None \<Rightarrow> Inl (OperationMissingState operationId)
            | Some state \<Rightarrow>
                if om_operationId meta \<noteq> operationId then Inl (OperationIdMismatch operationId (om_operationId meta))
                else if om_lane meta \<noteq> lane then Inl (OperationLaneMismatch operationId (om_lane meta) lane)
                else if \<not> stateMatchesIntent (om_intent meta) state then Inl (IntentStateMismatch operationId)
                else Inr \<lparr>op_meta = meta, op_state = state\<rparr>)))"

definition restoreLaneState ::
  "'s storage_ops \<Rightarrow> 's mutation \<Rightarrow> jstring \<Rightarrow> jstring option \<Rightarrow> lane_configuration \<Rightarrow> lane_state \<Rightarrow> (session_error, live_lane) res" where
  "restoreLaneState ops m lane tip configuration stored =
     rbind (case ls_currentOperationId stored of
              None \<Rightarrow> Inr None
            | Some operationId \<Rightarrow> rbind (restore_operation ops m lane operationId) (\<lambda>operation. Inr (Some operation)))
       (\<lambda>operation. Inr \<lparr>ll_tipId = tip, ll_configuration = configuration, ll_inbox = ls_inbox stored,
          ll_lastOperationId = ls_lastOperationId stored, ll_operation = operation\<rparr>)"

definition read_lane :: "'s storage_ops \<Rightarrow> 's mutation \<Rightarrow> jstring \<Rightarrow> (session_error, live_lane) res" where
  "read_lane ops m lane =
     rbind (readLaneStorage ops m lane) (\<lambda>stored.
       case stored of
         LaneAbsent \<Rightarrow> Inl (LaneMissingTip lane)
       | LaneBranch _ \<Rightarrow> Inl (LaneMissingConfig lane)
       | LaneConfigured tip configuration state \<Rightarrow> restoreLaneState ops m lane tip configuration state)"

definition restoreLane :: "'s storage_ops \<Rightarrow> 's session \<Rightarrow> jstring \<Rightarrow> 's session \<times> (session_error, live_lane) res" where
  "restoreLane ops se lane = mutate se (\<lambda>m. (m, read_lane ops m lane))"

text \<open>
  \<^verbatim>\<open>restoreSession\<close> reads the three inventories, takes the union of their keys in order of first appearance, and restores the lanes that are configured.
\<close>

definition by_lane :: "(sval \<Rightarrow> 'a option) \<Rightarrow> stored_value list \<Rightarrow> (jstring \<times> 'a option) list" where
  "by_lane f vs = foldl (\<lambda>m v. AList.update (a_key (sv_address v)) (f (sv_value v)) m) [] vs"

definition lane_lookup :: "(jstring \<times> 'a option) list \<Rightarrow> jstring \<Rightarrow> 'a option" where
  "lane_lookup m lane = Option.bind (map_of m lane) (\<lambda>v. v)"

fun restore_each ::
  "'s storage_ops \<Rightarrow> 's mutation \<Rightarrow> (jstring \<Rightarrow> (session_error, classified_lane) res) \<Rightarrow> jstring list \<Rightarrow> (jstring \<times> live_lane) list \<Rightarrow>
     (session_error, (jstring \<times> live_lane) list) res" where
  "restore_each ops m classify [] restored = Inr restored"
| "restore_each ops m classify (lane # names) restored =
     rbind (classify lane) (\<lambda>stored.
       case stored of
         LaneConfigured tip configuration state \<Rightarrow>
           rbind (restoreLaneState ops m lane tip configuration state) (\<lambda>l.
             restore_each ops m classify names (AList.update lane l restored))
       | _ \<Rightarrow> restore_each ops m classify names restored)"

definition read_session :: "'s storage_ops \<Rightarrow> 's mutation \<Rightarrow> (session_error, (jstring \<times> live_lane) list) res" where
  "read_session ops m =
     rbind (rbind branchTipInventoryPrefix (mutation_scanValues ops m)) (\<lambda>tips.
     rbind (rbind (laneConfig []) (mutation_scanValues ops m)) (\<lambda>configurations.
     rbind (rbind (laneState []) (mutation_scanValues ops m)) (\<lambda>states.
       let tipByLane = by_lane as_tip tips;
           configurationByLane = by_lane as_config configurations;
           stateByLane = by_lane as_lane states;
           names = foldl (\<lambda>names name. set_add name names) [] (keys tipByLane @ keys configurationByLane @ keys stateByLane)
       in restore_each ops m
            (\<lambda>lane. classifyLaneStorage lane (lane_lookup tipByLane lane) (lane_lookup configurationByLane lane) (lane_lookup stateByLane lane))
            names [])))"

definition restoreSession :: "'s storage_ops \<Rightarrow> 's session \<Rightarrow> 's session \<times> (session_error, (jstring \<times> live_lane) list) res" where
  "restoreSession ops se = mutate se (\<lambda>m. (m, read_session ops m))"

end
