(* ===== verification/Prompt_Templates.thy ===== *)
theory Prompt_Templates
  imports Js_Print
begin

text \<open>
  Skills and prompt templates as a lane uses them: \<^verbatim>\<open>formatSkillInvocation\<close> of \<^verbatim>\<open>packages/agent/src/harness/skills.ts\<close>, the list of skills in
  \<^verbatim>\<open>system-prompt.ts\<close>, and the arguments of \<^verbatim>\<open>prompt-templates.ts\<close>. Reading them from files is not modelled.
\<close>

section \<open>Skills\<close>

record skill =
  sk_name :: jstring
  sk_description :: jstring
  sk_content :: jstring
  sk_filePath :: jstring
  sk_disableModelInvocation :: "bool option"

record prompt_template =
  pt_name :: jstring
  pt_description :: "jstring option"
  pt_content :: jstring

definition is_separator :: "16 word \<Rightarrow> bool" where
  "is_separator u \<longleftrightarrow> u = 47 \<or> u = 92"

text \<open>The path without its trailing separators; the index of the last separator left.\<close>

definition strip_separators :: "jstring \<Rightarrow> jstring" where
  "strip_separators path = rev (dropWhile is_separator (rev path))"

definition last_separator :: "jstring \<Rightarrow> nat option" where
  "last_separator path =
     (if \<exists>u\<in>set path. is_separator u then Some (length (dropWhile (\<lambda>u. \<not> is_separator u) (rev path)) - 1) else None)"

definition dirnameEnvPath :: "jstring \<Rightarrow> jstring" where
  "dirnameEnvPath path =
     (let normalized = strip_separators path in
      case last_separator normalized of
        None \<Rightarrow> js ''/''
      | Some i \<Rightarrow>
          if i = 2 \<and> normalized ! 1 = 58 then take 3 normalized
          else if i = 0 then js ''/''
          else take i normalized)"

definition formatSkillInvocation :: "skill \<Rightarrow> jstring option \<Rightarrow> jstring" where
  "formatSkillInvocation skill additionalInstructions =
     (let skillBlock =
        js ''<skill name='' @ [34] @ sk_name skill @ [34] @ js '' location='' @ [34] @ sk_filePath skill @ [34] @ js ''>'' @ nl @
        js ''References are relative to '' @ dirnameEnvPath (sk_filePath skill) @ js ''.'' @ nl @ nl @ sk_content skill @ nl @ js ''</skill>'' in
      case additionalInstructions of
        Some (c # cs) \<Rightarrow> skillBlock @ nl @ nl @ c # cs
      | _ \<Rightarrow> skillBlock)"

section \<open>Replacing text\<close>

text \<open>
  \<^verbatim>\<open>String.prototype.replace\<close> with a replacement text: the two-character sequences of a dollar with a dollar, an ampersand, a backquote and an apostrophe
  stand for a dollar, the match, the text before it and the text after it. The patterns here have no groups, so a dollar with a digit or
  a bracket is itself.
\<close>

fun expand_replacement :: "jstring \<Rightarrow> jstring \<Rightarrow> jstring \<Rightarrow> jstring \<Rightarrow> jstring" where
  "expand_replacement before matched after [] = []"
| "expand_replacement before matched after [c] = [c]"
| "expand_replacement before matched after (c # d # rest) =
     (if c = 36 \<and> d = 36 then 36 # expand_replacement before matched after rest
      else if c = 36 \<and> d = 38 then matched @ expand_replacement before matched after rest
      else if c = 36 \<and> d = 96 then before @ expand_replacement before matched after rest
      else if c = 36 \<and> d = 39 then after @ expand_replacement before matched after rest
      else c # expand_replacement before matched after (d # rest))"

text \<open>All occurrences of a literal pattern, left to right; \<open>before\<close> is the text scanned so far.\<close>

function replace_literal :: "jstring \<Rightarrow> jstring \<Rightarrow> jstring \<Rightarrow> jstring \<Rightarrow> jstring" where
  "replace_literal pat replacement before s =
     (if pat \<noteq> [] \<and> s \<noteq> [] \<and> take (length pat) s = pat
      then expand_replacement before pat (drop (length pat) s) replacement @
        replace_literal pat replacement (before @ pat) (drop (length pat) s)
      else case s of [] \<Rightarrow> [] | c # cs \<Rightarrow> c # replace_literal pat replacement (before @ [c]) cs)"
  by pat_completeness auto
termination by (relation "measure (\<lambda>(pat, replacement, before, s). length s)") auto

declare replace_literal.simps [simp del]

text \<open>A match of a pattern with a computed replacement: what replaces it and the text after it.\<close>

function replace_matches :: "(jstring \<Rightarrow> (jstring \<times> jstring) option) \<Rightarrow> jstring \<Rightarrow> jstring" where
  "replace_matches match s =
     (case s of
        [] \<Rightarrow> []
      | c # cs \<Rightarrow>
          (case match s of
             Some (new, rest) \<Rightarrow> if length rest < length s then new @ replace_matches match rest else c # replace_matches match cs
           | None \<Rightarrow> c # replace_matches match cs))"
  by pat_completeness auto
termination by (relation "measure (\<lambda>(match, s). length s)") auto

declare replace_matches.simps [simp del]

section \<open>The list of skills\<close>

definition escapeXml :: "jstring \<Rightarrow> jstring" where
  "escapeXml s =
     (let s = replace_literal (js ''&'') (js ''&amp;'') [] s;
          s = replace_literal (js ''<'') (js ''&lt;'') [] s;
          s = replace_literal (js ''>'') (js ''&gt;'') [] s;
          s = replace_literal [34] (js ''&quot;'') [] s
      in replace_literal [39] (js ''&apos;'') [] s)"

definition skill_lines :: "skill \<Rightarrow> jstring list" where
  "skill_lines skill =
     [js ''  <skill>'',
      js ''    <name>'' @ escapeXml (sk_name skill) @ js ''</name>'',
      js ''    <description>'' @ escapeXml (sk_description skill) @ js ''</description>'',
      js ''    <location>'' @ escapeXml (sk_filePath skill) @ js ''</location>'',
      js ''  </skill>'']"

definition formatSkillsForSystemPrompt :: "skill list \<Rightarrow> jstring" where
  "formatSkillsForSystemPrompt skills =
     (let visibleSkills = filter (\<lambda>skill. sk_disableModelInvocation skill \<noteq> Some True) skills in
      if visibleSkills = [] then []
      else join_text nl
        ([js ''The following skills provide specialized instructions for specific tasks.'',
          js ''Read the full skill file when the task matches its description.'',
          js ''When a skill file references a relative path, resolve it against the skill directory (parent of SKILL.md / dirname of the path) and use that absolute path in tool commands.'',
          [],
          js ''<available_skills>''] @
         concat (map skill_lines visibleSkills) @
         [js ''</available_skills>'']))"

section \<open>Arguments of a template\<close>

definition is_digit :: "16 word \<Rightarrow> bool" where
  "is_digit u \<longleftrightarrow> 48 \<le> u \<and> u \<le> 57"

definition digits_value :: "jstring \<Rightarrow> nat" where
  "digits_value ds = the (decimal 0 ds)"

definition match_position :: "jstring list \<Rightarrow> jstring \<Rightarrow> (jstring \<times> jstring) option" where
  "match_position args s =
     (case s of
        c # cs \<Rightarrow>
          let ds = takeWhile is_digit cs; n = digits_value ds in
          if c = 36 \<and> ds \<noteq> [] then Some (if 0 < n \<and> n \<le> length args then args ! (n - 1) else [], dropWhile is_digit cs) else None
      | [] \<Rightarrow> None)"

text \<open>A slice of the arguments: \<^verbatim>\<open>${@:N}\<close> and \<^verbatim>\<open>${@:N:L}\<close>.\<close>

definition match_slice :: "jstring list \<Rightarrow> jstring \<Rightarrow> (jstring \<times> jstring) option" where
  "match_slice args s =
     (if take 4 s \<noteq> js ''${@:'' then None
      else
        let ds = takeWhile is_digit (drop 4 s); rest = dropWhile is_digit (drop 4 s); start = digits_value ds - 1 in
        if ds = [] then None
        else case rest of
            c # cs \<Rightarrow>
              if c = 125 then Some (join_text (js '' '') (drop start args), cs)
              else if c = 58 then
                (let ls = takeWhile is_digit cs in
                 case dropWhile is_digit cs of
                   e # es \<Rightarrow> if ls \<noteq> [] \<and> e = 125 then Some (join_text (js '' '') (take (digits_value ls) (drop start args)), es) else None
                 | [] \<Rightarrow> None)
              else None
          | [] \<Rightarrow> None)"

definition substituteArgs :: "jstring \<Rightarrow> jstring list \<Rightarrow> jstring" where
  "substituteArgs content args =
     (let result = replace_matches (match_position args) content;
          result = replace_matches (match_slice args) result;
          allArgs = join_text (js '' '') args;
          result = replace_literal (js ''$ARGUMENTS'') allArgs [] result
      in replace_literal (js ''$@'') allArgs [] result)"

definition formatPromptTemplateInvocation :: "prompt_template \<Rightarrow> jstring list \<Rightarrow> jstring" where
  "formatPromptTemplateInvocation template args = substituteArgs (pt_content template) args"

text \<open>The loop of \<^verbatim>\<open>parseCommandArgs\<close>: the arguments so far, the current one, and the quote it is in.\<close>

fun parse_args :: "jstring list \<Rightarrow> jstring \<Rightarrow> 16 word option \<Rightarrow> jstring \<Rightarrow> jstring list" where
  "parse_args args current inQuote [] = (if current = [] then args else args @ [current])"
| "parse_args args current (Some q) (c # cs) =
     (if c = q then parse_args args current None cs else parse_args args (current @ [c]) (Some q) cs)"
| "parse_args args current None (c # cs) =
     (if c = 34 \<or> c = 39 then parse_args args current (Some c) cs
      else if c = 32 \<or> c = 9 then parse_args (if current = [] then args else args @ [current]) [] None cs
      else parse_args args (current @ [c]) None cs)"

definition parseCommandArgs :: "jstring \<Rightarrow> jstring list" where
  "parseCommandArgs argsString = parse_args [] [] None argsString"

section \<open>Escaping in one pass\<close>

lemma expand_plain: "36 \<notin> set r \<Longrightarrow> expand_replacement before matched after r = r"
  by (induction before matched after r rule: expand_replacement.induct) auto

lemma replace_unit:
  "36 \<notin> set r \<Longrightarrow> replace_literal [c] r before s = concat (map (\<lambda>u. if u = c then r else [u]) s)"
proof (induction s arbitrary: before)
  case (Cons u s)
  then show ?case by (subst replace_literal.simps) (simp add: expand_plain)
qed (simp add: replace_literal.simps)

definition escape_unit :: "16 word \<Rightarrow> jstring" where
  "escape_unit u =
     (if u = 38 then js ''&amp;'' else if u = 60 then js ''&lt;'' else if u = 62 then js ''&gt;''
      else if u = 34 then js ''&quot;'' else if u = 39 then js ''&apos;'' else [u])"

lemma escapeXml_units: "escapeXml s = concat (map escape_unit s)"
proof (induction s)
  case (Cons u s)
  then show ?case by (simp add: escapeXml_def replace_unit js_def escape_unit_def Let_def del: One_nat_def)
qed (simp add: escapeXml_def replace_unit js_def)

text \<open>
  The text of a skill in the system prompt cannot close or open a tag: no angle bracket and no quote is left of it, and nothing of a text without
  the five characters is changed.
\<close>

lemma escapeXml_safe: "set (escapeXml s) \<inter> {60, 62, 34, 39} = {}"
  by (auto simp: escapeXml_units escape_unit_def js_def split: if_splits)

lemma escapeXml_plain: "set s \<inter> {38, 60, 62, 34, 39} = {} \<Longrightarrow> escapeXml s = s"
  by (induction s) (auto simp: escapeXml_units escape_unit_def)

section \<open>Quoted arguments\<close>

definition quoted :: "jstring \<Rightarrow> jstring" where
  "quoted arg = [34] @ arg @ [34]"

lemma parse_quoted: "34 \<notin> set arg \<Longrightarrow> parse_args args current (Some 34) (arg @ 34 # rest) = parse_args args (current @ arg) None rest"
  by (induction arg arbitrary: current) auto

lemma parse_arguments:
  "\<forall>arg\<in>set new. arg \<noteq> [] \<and> 34 \<notin> set arg \<Longrightarrow> parse_args args [] None (join_text [32] (map quoted new)) = args @ new"
proof (induction new arbitrary: args)
  case (Cons arg new)
  then show ?case by (cases new) (simp_all add: quoted_def parse_quoted)
qed simp

lemma parse_command_args: "\<forall>arg\<in>set args. arg \<noteq> [] \<and> 34 \<notin> set arg \<Longrightarrow> parseCommandArgs (join_text [32] (map quoted args)) = args"
  by (simp add: parseCommandArgs_def parse_arguments)

section \<open>Dollars in arguments\<close>

lemma replace_matches_none:
  "(\<And>k. match (drop k s) = None) \<Longrightarrow> replace_matches match s = s"
proof (induction s)
  case (Cons c s)
  have "match (c # s) = None" using Cons.prems [of 0] by simp
  moreover have "match (drop k s) = None" for k using Cons.prems [of "Suc k"] by simp
  ultimately show ?case using Cons.IH by (subst replace_matches.simps) simp
qed (simp add: replace_matches.simps)

text \<open>
  An argument that holds a dollar is not always inserted as it is: the template that asks for all arguments turns two dollars into one.
\<close>

lemma dollar_argument_altered: "substituteArgs (js ''$@'') [js ''$$''] = js ''$''"
  by code_simp

end
