(* ===== verification/Lane_Commands.thy ===== *)
theory Lane_Commands
  imports Lane_Restore Compaction Prompt_Templates
begin

text \<open>
  The harness and its lanes: \<^verbatim>\<open>packages/agent/src/harness/runtime/lane.ts\<close> and \<^verbatim>\<open>harness.ts\<close>. A lane changes only through \<^verbatim>\<open>command\<close>: a planner decides on
  the state in memory and a read-only view of the session, and a decision to commit writes once, replaces the state in memory and
  emits events. A planner or commit that throws faults the whole harness.

  Ids and the time are arguments.
\<close>

section \<open>Errors\<close>

datatype lane_closed = HarnessClosed | HarnessFault session_error

text \<open>The tagged errors of \<^verbatim>\<open>result.ts\<close> a caller gets as a value, without their message texts.\<close>

datatype (plugins only: code) tagged_error =
    LaneBusy jstring jstring op_kind
  | OperationMismatch jstring jstring "jstring option" "jstring option"
  | NoActiveOperation jstring
  | NothingToResume jstring
  | NothingToCompact jstring
  | InvalidMessage jstring jstring
  | InvalidNavigation jstring jstring
  | UnknownSkill jstring
  | UnknownTemplate jstring
  | UnknownTargetEntry jstring
  | InvalidLane jstring jstring
  | Closed
  | SignalAborted

text \<open>
  What a call of a lane can throw: the error it was sealed with, an error of the session itself, or a tagged error. A command does
  not settle while a callback of \<^verbatim>\<open>runWhenIdle\<close> holds the lane; the value \<open>Waits\<close> stands for that, with nothing changed.
\<close>

datatype lane_throw =
    SealedBy lane_closed
  | SessionThrew session_error
  | Threw tagged_error
  | Waits
  | NoLane

section \<open>State\<close>

record lane =
  ln_state :: live_lane
  ln_idleOwner :: bool
  ln_activeDrive :: "jstring option"

record 's harness =
  hn_session :: "'s session"
  hn_lanes :: "(jstring \<times> lane) list"
  hn_closed :: "lane_closed option"
  hn_events :: "harness_event list"

record lane_config =
  cf_compaction :: compaction_settings
  cf_steeringMode :: queue_mode
  cf_followUpMode :: queue_mode
  cf_toolExecution :: tool_execution
  cf_skills :: "skill list"
  cf_promptTemplates :: "prompt_template list"

definition new_lane :: "live_lane \<Rightarrow> lane" where
  "new_lane state = \<lparr>ln_state = state, ln_idleOwner = False, ln_activeDrive = None\<rparr>"

definition update_lane :: "jstring \<Rightarrow> (lane \<Rightarrow> lane) \<Rightarrow> 's harness \<Rightarrow> 's harness" where
  "update_lane name f h =
     (case map_of (hn_lanes h) name of
        None \<Rightarrow> h
      | Some ln \<Rightarrow> h\<lparr>hn_lanes := AList.update name (f ln) (hn_lanes h)\<rparr>)"

definition emit :: "harness_event list \<Rightarrow> 's harness \<Rightarrow> 's harness" where
  "emit events h = (if hn_closed h \<noteq> None then h else h\<lparr>hn_events := hn_events h @ events\<rparr>)"

text \<open>
  The first error that closes a harness stays: \<^verbatim>\<open>fault\<close> returns it, and every lane is sealed with it.
\<close>

definition fault :: "session_error \<Rightarrow> 's harness \<Rightarrow> 's harness \<times> lane_closed" where
  "fault cause h =
     (case hn_closed h of
        Some c \<Rightarrow> (h, c)
      | None \<Rightarrow>
          ((emit [\<lparr>ev_lane = None, ev_payload = FaultRaised (js ''harness_fault'') (js ''AgentHarness storage or invariant fault'')\<rparr>] h)
             \<lparr>hn_closed := Some (HarnessFault cause)\<rparr>, HarnessFault cause))"

definition harness_close :: "'s storage_ops \<Rightarrow> 's harness \<Rightarrow> 's harness" where
  "harness_close ops h =
     h\<lparr>hn_closed := (case hn_closed h of None \<Rightarrow> Some HarnessClosed | c \<Rightarrow> c),
       hn_session := session_close ops (hn_session h)\<rparr>"

section \<open>Commands\<close>

datatype 'r lane_command =
    CommitCmd "store_write list" live_lane "commit_result \<Rightarrow> 'r" "commit_result \<Rightarrow> harness_event list"
  | ReturnCmd 'r
  | RejectCmd tagged_error

datatype 'r command_outcome =
    Committed live_lane "harness_event list" 'r
  | Returned 'r
  | Rejected tagged_error

definition run_decision ::
  "'s storage_ops \<Rightarrow> 's mutation \<Rightarrow> int \<Rightarrow> (session_error, 'r lane_command) res \<Rightarrow> 's mutation \<times> (session_error, 'r command_outcome) res" where
  "run_decision ops m now decision =
     (case decision of
        Inl e \<Rightarrow> (m, Inl e)
      | Inr (ReturnCmd r) \<Rightarrow> (m, Inr (Returned r))
      | Inr (RejectCmd e) \<Rightarrow> (m, Inr (Rejected e))
      | Inr (CommitCmd writes next materialize events) \<Rightarrow>
          (case mutation_commit ops m writes now of
             (m', Inl e) \<Rightarrow> (m', Inl e)
           | (m', Inr commit) \<Rightarrow> (m', Inr (Committed next (events commit) (materialize commit)))))"

definition command ::
  "'s storage_ops \<Rightarrow> jstring \<Rightarrow> int \<Rightarrow> (live_lane \<Rightarrow> 's mutation \<Rightarrow> (session_error, 'r lane_command) res) \<Rightarrow> 's harness \<Rightarrow>
     's harness \<times> (lane_throw, 'r) res" where
  "command ops name now plan h =
     (case hn_closed h of
        Some c \<Rightarrow> (h, Inl (SealedBy c))
      | None \<Rightarrow>
          (case map_of (hn_lanes h) name of
             None \<Rightarrow> (h, Inl NoLane)
           | Some ln \<Rightarrow>
               if ln_idleOwner ln then (h, Inl Waits)
               else case assertOpen (hn_session h) of
                 Inl e \<Rightarrow> (h, Inl (SessionThrew e))
               | Inr _ \<Rightarrow>
                   (case mutate (hn_session h) (\<lambda>m. run_decision ops m now (plan (ln_state ln) m)) of
                      (se, Inl e) \<Rightarrow> (case fault e (h\<lparr>hn_session := se\<rparr>) of (h', c) \<Rightarrow> (h', Inl (SealedBy c)))
                    | (se, Inr (Returned r)) \<Rightarrow> (h\<lparr>hn_session := se\<rparr>, Inr r)
                    | (se, Inr (Rejected e)) \<Rightarrow> (h\<lparr>hn_session := se\<rparr>, Inl (Threw e))
                    | (se, Inr (Committed next events r)) \<Rightarrow>
                        (emit events (update_lane name (\<lambda>ln. ln\<lparr>ln_state := next\<rparr>) (h\<lparr>hn_session := se\<rparr>)), Inr r))))"

text \<open>A public call of a closed harness answers the tagged error; a faulted one throws its fault.\<close>

definition unless_closed ::
  "'s harness \<Rightarrow> ('s harness \<times> (lane_throw, (tagged_error, 'r) res) res) \<Rightarrow> 's harness \<times> (lane_throw, (tagged_error, 'r) res) res" where
  "unless_closed h k =
     (case hn_closed h of
        Some HarnessClosed \<Rightarrow> (h, Inr (Inl Closed))
      | Some c \<Rightarrow> (h, Inl (SealedBy c))
      | None \<Rightarrow> k)"

section \<open>Operation commands\<close>

record lane_patch =
  lp_tipId :: "jstring option option"
  lp_configuration :: "lane_configuration option"
  lp_inbox :: "inbox_item list option"

datatype 'r operation_command =
    OpCommit "store_write list" operation_state lane_patch "commit_result \<Rightarrow> 'r" "commit_result \<Rightarrow> harness_event list"
  | OpFinish "store_write list" operation_result lane_patch "commit_result \<Rightarrow> 'r" "commit_result \<Rightarrow> harness_event list"
  | OpReturn 'r

definition patch_lane :: "lane_patch \<Rightarrow> live_lane \<Rightarrow> live_lane" where
  "patch_lane p state =
     state\<lparr>ll_tipId := (case lp_tipId p of None \<Rightarrow> ll_tipId state | Some t \<Rightarrow> t),
           ll_configuration := (case lp_configuration p of None \<Rightarrow> ll_configuration state | Some c \<Rightarrow> c),
           ll_inbox := (case lp_inbox p of None \<Rightarrow> ll_inbox state | Some i \<Rightarrow> i)\<rparr>"

definition durableLaneState :: "live_lane \<Rightarrow> jstring option \<Rightarrow> inbox_item list \<Rightarrow> lane_state" where
  "durableLaneState state currentOperationId inbox =
     \<lparr>ls_currentOperationId = currentOperationId, ls_lastOperationId = ll_lastOperationId state, ls_inbox = inbox\<rparr>"

definition current_id :: "live_lane \<Rightarrow> jstring option" where
  "current_id state = map_option (\<lambda>op. om_operationId (op_meta op)) (ll_operation state)"

text \<open>
  \<^verbatim>\<open>settleOperation\<close>: the planner sees the current operation; the state of the operation, and of the lane when the inbox changes, are written
  beside the writes of the planner.
\<close>

definition plan_settle ::
  "jstring \<Rightarrow> (live_lane \<Rightarrow> operation_state \<Rightarrow> operation_meta \<Rightarrow> 's mutation \<Rightarrow> (session_error, 'r operation_command) res) \<Rightarrow>
     live_lane \<Rightarrow> 's mutation \<Rightarrow> (session_error, 'r lane_command) res" where
  "plan_settle name plan state m =
     (case ll_operation state of
        None \<Rightarrow> Inl NullOperation
      | Some operation \<Rightarrow>
          let operationId = om_operationId (op_meta operation) in
          rbind (plan state (op_state operation) (op_meta operation) m) (\<lambda>decision.
            case decision of
              OpReturn r \<Rightarrow> Inr (ReturnCmd r)
            | OpCommit writes next patch materialize events \<Rightarrow>
                rbind (operationState operationId) (\<lambda>stateAddress.
                rbind (laneState name) (\<lambda>laneAddress.
                  Inr (CommitCmd
                    (writes @ [setValue stateAddress (SOperation next)] @
                      (case lp_inbox patch of None \<Rightarrow> [] | Some inbox \<Rightarrow> [setValue laneAddress (SLane (durableLaneState state (Some operationId) inbox))]))
                    ((patch_lane patch state)\<lparr>ll_operation := Some \<lparr>op_meta = op_meta operation, op_state = next\<rparr>\<rparr>)
                    materialize events)))
            | OpFinish writes record patch materialize events \<Rightarrow>
                rbind (operationResult operationId) (\<lambda>resultAddress.
                rbind (laneState name) (\<lambda>laneAddress.
                  let inbox = (case lp_inbox patch of None \<Rightarrow> ll_inbox state | Some i \<Rightarrow> i) in
                  Inr (CommitCmd
                    (writes @ [setValue resultAddress (SResult record),
                       setValue laneAddress (SLane \<lparr>ls_currentOperationId = None, ls_lastOperationId = Some operationId, ls_inbox = inbox\<rparr>)])
                    ((patch_lane patch state)\<lparr>ll_inbox := inbox, ll_lastOperationId := Some operationId, ll_operation := None\<rparr>)
                    materialize events)))))"

datatype 'r continue_result = ContinueCancelled | ContinueResult 'r

definition is_cancelled :: "operation_state \<Rightarrow> bool" where
  "is_cancelled s = (case os_control (operationScopeOf s) of Running \<Rightarrow> False | CancelRequested _ \<Rightarrow> True)"

definition plan_continue ::
  "(live_lane \<Rightarrow> operation_state \<Rightarrow> operation_meta \<Rightarrow> 's mutation \<Rightarrow> (session_error, 'r operation_command) res) \<Rightarrow>
     live_lane \<Rightarrow> operation_state \<Rightarrow> operation_meta \<Rightarrow> 's mutation \<Rightarrow> (session_error, 'r continue_result operation_command) res" where
  "plan_continue plan state latest meta m =
     (if is_cancelled latest then Inr (OpReturn ContinueCancelled)
      else rbind (plan state latest meta m) (\<lambda>decision.
        Inr (case decision of
          OpReturn r \<Rightarrow> OpReturn (ContinueResult r)
        | OpCommit writes next patch materialize events \<Rightarrow> OpCommit writes next patch (\<lambda>c. ContinueResult (materialize c)) events
        | OpFinish writes record patch materialize events \<Rightarrow> OpFinish writes record patch (\<lambda>c. ContinueResult (materialize c)) events)))"

definition settleOperation where
  "settleOperation ops name now plan h = command ops name now (plan_settle name plan) h"

definition continueOperation where
  "continueOperation ops name now plan h = settleOperation ops name now (plan_continue plan) h"

end
