(* ===== verification/Lane_Requests.thy ===== *)
theory Lane_Requests
  imports Lane_Commands
begin

text \<open>
  The calls of a lane, \<^verbatim>\<open>packages/agent/src/harness/runtime/lane.ts\<close>: accepting an operation, requesting its abort, the queues, appends,
  configuration and usage, and the acquisition of a lane by the harness. Each call is the validation of its input followed by one
  command, whose planner is a definition of its own.
\<close>

section \<open>Selection from the inbox\<close>

definition inboxItems :: "inbox_item list \<Rightarrow> inbox_kind \<Rightarrow> inbox_item list" where
  "inboxItems inbox kind = filter (\<lambda>item. ii_kind item = kind) inbox"

definition withoutInboxItems :: "inbox_item list \<Rightarrow> inbox_item list \<Rightarrow> inbox_item list" where
  "withoutInboxItems inbox removed = filter (\<lambda>item. ii_entryId item \<notin> set (map ii_entryId removed)) inbox"

text \<open>The loop of \<^verbatim>\<open>selectAcceptedInbox\<close>; the flags say whether a steering and a follow-up message have been taken.\<close>

fun select_inbox :: "queue_mode \<Rightarrow> queue_mode \<Rightarrow> bool \<Rightarrow> bool \<Rightarrow> inbox_item list \<Rightarrow> inbox_item list \<times> inbox_item list" where
  "select_inbox steeringMode followUpMode steerTaken followUpTaken [] = ([], [])"
| "select_inbox steeringMode followUpMode steerTaken followUpTaken (item # inbox) =
     (let eligible = (ii_kind item = WriteItem \<or> ii_kind item = NextRun \<or>
            ii_kind item = Steer \<and> (steeringMode = QueueAll \<or> \<not> steerTaken) \<or>
            ii_kind item = FollowUp \<and> (followUpMode = QueueAll \<or> \<not> followUpTaken)) in
      if eligible then
        (case select_inbox steeringMode followUpMode (steerTaken \<or> ii_kind item = Steer) (followUpTaken \<or> ii_kind item = FollowUp) inbox of
           (selected, remainder) \<Rightarrow> (item # selected, remainder))
      else
        (case select_inbox steeringMode followUpMode steerTaken followUpTaken inbox of
           (selected, remainder) \<Rightarrow> (selected, item # remainder)))"

definition selectAcceptedInbox :: "inbox_item list \<Rightarrow> queue_mode \<Rightarrow> queue_mode \<Rightarrow> inbox_item list \<times> inbox_item list" where
  "selectAcceptedInbox inbox steeringMode followUpMode = select_inbox steeringMode followUpMode False False inbox"

definition capturedSettings :: "lane_config \<Rightarrow> run_settings" where
  "capturedSettings config =
     \<lparr>rs_compaction = cf_compaction config, rs_steeringMode = cf_steeringMode config, rs_followUpMode = cf_followUpMode config,
      rs_toolExecution = cf_toolExecution config\<rparr>"

definition pendingEntryWrite :: "jstring \<Rightarrow> pending_entry \<Rightarrow> new_entry" where
  "pendingEntryWrite entryId pending =
     (case pending of
        PendingMessage payload \<Rightarrow> \<lparr>ne_id = entryId, ne_parentId = None, ne_customType = None, ne_body = MessageBody payload False\<rparr>
      | PendingCustom customType payload \<Rightarrow>
          \<lparr>ne_id = entryId, ne_parentId = None, ne_customType = Some customType, ne_body = CustomBody payload\<rparr>)"

definition pending_assistant :: "pending_entry \<Rightarrow> bool" where
  "pending_assistant p = (case p of PendingMessage m \<Rightarrow> stops_with StopPending m | PendingCustom _ _ \<Rightarrow> False)"

definition lane_busy :: "jstring \<Rightarrow> operation \<Rightarrow> tagged_error" where
  "lane_busy name operation = LaneBusy name (om_operationId (op_meta operation)) (intent_kind (om_intent (op_meta operation)))"

section \<open>Accepting a run\<close>

datatype run_request =
    PromptText jstring "image_content list"
  | PromptMessages "agent_message list"
  | SkillRequest jstring "jstring option"
  | TemplateRequest jstring "jstring list"

record admission =
  ad_operationId :: jstring
  ad_kind :: op_kind
  ad_startedAt :: int

definition text_block :: "jstring \<Rightarrow> input_content" where
  "text_block t = InText \<lparr>tc_text = t, tc_textSignature = None\<rparr>"

definition user_blocks :: "input_content list \<Rightarrow> int \<Rightarrow> agent_message" where
  "user_blocks blocks at = Llm (UserMsg \<lparr>um_content = Blocks blocks, um_timestamp = at\<rparr>)"

definition request_messages ::
  "lane_config \<Rightarrow> run_request \<Rightarrow> int \<Rightarrow> (tagged_error, agent_message list) res" where
  "request_messages config request startedAt =
     (case request of
        PromptText prompt images \<Rightarrow>
          Inr (if prompt = [] \<and> images = [] then []
               else [user_blocks ((if prompt = [] then [] else [text_block prompt]) @ map InImage images) startedAt])
      | PromptMessages messages \<Rightarrow> Inr messages
      | SkillRequest name additional \<Rightarrow>
          (case List.find (\<lambda>s. sk_name s = name) (cf_skills config) of
             None \<Rightarrow> Inl (UnknownSkill name)
           | Some skill \<Rightarrow> Inr [user_blocks [text_block (formatSkillInvocation skill additional)] startedAt])
      | TemplateRequest name args \<Rightarrow>
          (case List.find (\<lambda>t. pt_name t = name) (cf_promptTemplates config) of
             None \<Rightarrow> Inl (UnknownTemplate name)
           | Some template \<Rightarrow>
               let content = formatPromptTemplateInvocation template args in
               Inr (if content = [] then [] else [user_blocks [text_block content] startedAt])))"

definition capture_item :: "'s storage_ops \<Rightarrow> 's mutation \<Rightarrow> inbox_item \<Rightarrow> (session_error, inbox_item \<times> pending_entry) res" where
  "capture_item ops m item =
     rbind (read_typed ops m as_pending (pendingEntry (ii_entryId item))) (\<lambda>stored.
       case stored of
         None \<Rightarrow> Inl (PendingMissingPayload (ii_kind item) (ii_entryId item))
       | Some pending \<Rightarrow>
           if ii_kind item \<noteq> WriteItem \<and> (case pending of PendingMessage _ \<Rightarrow> False | _ \<Rightarrow> True)
           then Inl (PendingNotMessage (ii_kind item) (ii_entryId item))
           else if pending_assistant pending then Inl (PendingHoldsAssistant (ii_kind item) (ii_entryId item))
           else Inr (item, pending))"

definition delete_pending :: "inbox_item list \<Rightarrow> (session_error, store_write list) res" where
  "delete_pending items = read_each (\<lambda>item. rbind (pendingEntry (ii_entryId item)) (\<lambda>a. Inr (deleteValue a))) items"

definition message_entry :: "jstring \<times> agent_message \<Rightarrow> new_entry" where
  "message_entry p = \<lparr>ne_id = fst p, ne_parentId = None, ne_customType = None, ne_body = MessageBody (snd p) False\<rparr>"

definition starting :: "lane_config \<Rightarrow> operation_scope" where
  "starting config = \<lparr>os_control = Running, os_settings = capturedSettings config, os_latestAssistantEntryId = None\<rparr>"

definition plan_run ::
  "'s storage_ops \<Rightarrow> lane_config \<Rightarrow> jstring \<Rightarrow> jstring \<Rightarrow> int \<Rightarrow> (jstring \<times> agent_message) list \<Rightarrow> live_lane \<Rightarrow> 's mutation \<Rightarrow>
     (session_error, (tagged_error, admission) res lane_command) res" where
  "plan_run ops config name operationId startedAt prompt state m =
     (case ll_operation state of
        Some operation \<Rightarrow> Inr (ReturnCmd (Inl (lane_busy name operation)))
      | None \<Rightarrow>
          let (selectedItems, inbox) = selectAcceptedInbox (ll_inbox state) (cf_steeringMode config) (cf_followUpMode config) in
          rbind (read_each (capture_item ops m) selectedItems) (\<lambda>captured.
          if prompt = [] \<and> \<not> (\<exists>item\<in>set selectedItems. ii_kind item \<noteq> WriteItem)
          then Inr (ReturnCmd (Inl (InvalidMessage name (js ''empty''))))
          else
            let entries = chainEntries (ll_tipId state)
                  (map (\<lambda>(item, pending). pendingEntryWrite (ii_entryId item) pending) captured @ map message_entry prompt);
                parentId = ne_id (last entries);
                meta = \<lparr>om_operationId = operationId, om_lane = name, om_sourceTipId = ll_tipId state, om_startedAt = startedAt,
                  om_intent = RunIntent (map fst prompt)\<rparr>;
                operationState' = Starting (starting config)
            in rbind (readLaneQueues ops m inbox) (\<lambda>remainingQueues.
               rbind (delete_pending selectedItems) (\<lambda>deletes.
               rbind (branchTip name) (\<lambda>tipAddress.
               rbind (operationMeta operationId) (\<lambda>metaAddress.
               rbind (operationState operationId) (\<lambda>stateAddress.
               rbind (laneState name) (\<lambda>laneAddress.
                 Inr (CommitCmd
                   (map insertEntry entries @ deletes @
                    [setValue tipAddress (STip (Some parentId)), setValue metaAddress (SMeta meta),
                     setValue stateAddress (SOperation operationState'),
                     setValue laneAddress (SLane (durableLaneState state (Some operationId) inbox))])
                   (state\<lparr>ll_tipId := Some parentId, ll_inbox := inbox, ll_operation := Some \<lparr>op_meta = meta, op_state = operationState'\<rparr>\<rparr>)
                   (\<lambda>_. Inr \<lparr>ad_operationId = operationId, ad_kind = KRun, ad_startedAt = startedAt\<rparr>)
                   (\<lambda>commit. [on_lane name (RunStart operationId startedAt)] @ committedEntryEvents entries commit name (Some operationId) 0 @
                      (if selectedItems \<noteq> [] then [on_lane name (QueueUpdate remainingQueues)] else [])))))))))))"

definition acceptRun ::
  "'s storage_ops \<Rightarrow> lane_config \<Rightarrow> jstring \<Rightarrow> run_request \<Rightarrow> jstring \<Rightarrow> jstring list \<Rightarrow> int \<Rightarrow> 's harness \<Rightarrow>
     's harness \<times> (lane_throw, (tagged_error, admission) res) res" where
  "acceptRun ops config name request operationId promptIds startedAt h =
     unless_closed h
       (case request_messages config request startedAt of
          Inl e \<Rightarrow> (h, Inr (Inl e))
        | Inr messages \<Rightarrow>
            if \<exists>message\<in>set messages. stops_with StopPending message then (h, Inr (Inl (InvalidMessage name (js ''pending_assistant''))))
            else command ops name startedAt (plan_run ops config name operationId startedAt (zip promptIds messages)) h)"

section \<open>Accepting a compaction\<close>

definition bounded_path :: "'s storage_ops \<Rightarrow> 's mutation \<Rightarrow> jstring option \<Rightarrow> (session_error, entry list) res" where
  "bounded_path ops m tipId =
     (case tipId of
        None \<Rightarrow> Inr []
      | Some i \<Rightarrow> rbind (mutation_scanBranch ops m (bounded_query i)) (\<lambda>entries. Inr (rev entries)))"

definition plan_compaction ::
  "'s storage_ops \<Rightarrow> lane_config \<Rightarrow> jstring \<Rightarrow> jstring \<Rightarrow> int \<Rightarrow> jstring \<Rightarrow> jstring option \<Rightarrow> live_lane \<Rightarrow> 's mutation \<Rightarrow>
     (session_error, (tagged_error, admission) res lane_command) res" where
  "plan_compaction ops config name operationId startedAt taskId customInstructions state m =
     (case ll_operation state of
        Some operation \<Rightarrow> Inr (ReturnCmd (Inl (lane_busy name operation)))
      | None \<Rightarrow>
          rbind (bounded_path ops m (ll_tipId state)) (\<lambda>path.
          case prepareCompaction path (cf_compaction config) of
            Inl (CompactionError code message) \<Rightarrow> Inl (CompactionFailed code message)
          | Inr None \<Rightarrow> Inr (ReturnCmd (Inl (NothingToCompact name)))
          | Inr (Some preparation) \<Rightarrow>
              let meta = \<lparr>om_operationId = operationId, om_lane = name, om_sourceTipId = ll_tipId state, om_startedAt = startedAt,
                    om_intent = CompactionIntent customInstructions\<rparr>;
                  operationState' = SummaryDeciding (starting config)
                    \<lparr>st_taskId = taskId, st_reason = Some RManual, st_customInstructions = customInstructions, st_boundary = Finish\<rparr>
              in rbind (operationPreparation operationId taskId) (\<lambda>preparationAddress.
                 rbind (operationMeta operationId) (\<lambda>metaAddress.
                 rbind (operationState operationId) (\<lambda>stateAddress.
                 rbind (laneState name) (\<lambda>laneAddress.
                   Inr (CommitCmd
                     [setValue preparationAddress (SPreparation (CompactionPrep preparation)), setValue metaAddress (SMeta meta),
                      setValue stateAddress (SOperation operationState'),
                      setValue laneAddress (SLane (durableLaneState state (Some operationId) (ll_inbox state)))]
                     (state\<lparr>ll_operation := Some \<lparr>op_meta = meta, op_state = operationState'\<rparr>\<rparr>)
                     (\<lambda>_. Inr \<lparr>ad_operationId = operationId, ad_kind = KCompaction, ad_startedAt = startedAt\<rparr>)
                     (\<lambda>_. [on_lane name (CompactionStart operationId RManual startedAt)]))))))))"

definition acceptCompaction ::
  "'s storage_ops \<Rightarrow> lane_config \<Rightarrow> jstring \<Rightarrow> jstring \<Rightarrow> jstring \<Rightarrow> jstring option \<Rightarrow> int \<Rightarrow> 's harness \<Rightarrow>
     's harness \<times> (lane_throw, (tagged_error, admission) res) res" where
  "acceptCompaction ops config name operationId taskId customInstructions startedAt h =
     unless_closed h (command ops name startedAt (plan_compaction ops config name operationId startedAt taskId customInstructions) h)"

end
