(* ===== verification/Lane_Control.thy ===== *)
theory Lane_Control
  imports Lane_Requests
begin

text \<open>
  The rest of the calls of \<^verbatim>\<open>packages/agent/src/harness/runtime/lane.ts\<close> and \<^verbatim>\<open>harness.ts\<close>: navigation, abort, the queues, appends, configuration, usage,
  ownership of a drive pass and of an idle callback, and the acquisition of lanes.
\<close>

section \<open>Accepting a navigation\<close>

record navigate_options =
  no_summarize :: "bool option"
  no_label :: "jstring option"
  no_customInstructions :: "jstring option"

definition newest_query :: "jstring \<Rightarrow> branch_scan" where
  "newest_query start =
     \<lparr>bq_start = start, bq_stopAtType = None, bq_stopAtId = None, bq_type = None, bq_customType = None,
      bq_order = Some NewestFirst, bq_limit = None, bq_cursor = None\<rparr>"

text \<open>The entries between the old tip and the common ancestor with the target, oldest first.\<close>

definition left_branch :: "entry list \<Rightarrow> entry list \<Rightarrow> entry list" where
  "left_branch oldPath targetPath =
     (case List.find (\<lambda>e. ne_id e \<in> set (map ne_id oldPath)) targetPath of
        None \<Rightarrow> rev oldPath
      | Some ancestor \<Rightarrow> rev (takeWhile (\<lambda>e. ne_id e \<noteq> ne_id ancestor) oldPath))"

definition durable_branch :: "branch_preparation \<Rightarrow> structural_preparation" where
  "durable_branch p = BranchSummaryPrep (bp_messages p) (bp_fileOps p) (JInt (int (bp_totalTokens p)))"

definition navigation_preparation ::
  "'s storage_ops \<Rightarrow> 's session \<Rightarrow> bool \<Rightarrow> jstring option \<Rightarrow> jstring option \<Rightarrow> (session_error, structural_preparation option) res" where
  "navigation_preparation ops se summarize observedTipId targetId =
     (case (summarize, observedTipId, targetId) of
        (True, Some tip, Some target) \<Rightarrow>
          rbind (session_getEntries ops se [target]) (\<lambda>found.
            if has_key found target then
              rbind (session_scanBranch ops se (newest_query tip)) (\<lambda>oldPath.
              rbind (session_scanBranch ops se (newest_query target)) (\<lambda>targetPath.
                Inr (Some (durable_branch (prepareBranchEntries (left_branch oldPath targetPath) (JInt 0))))))
            else Inr None)
      | _ \<Rightarrow> Inr None)"

definition plan_navigation ::
  "'s storage_ops \<Rightarrow> lane_config \<Rightarrow> jstring \<Rightarrow> jstring \<Rightarrow> int \<Rightarrow> jstring \<Rightarrow> jstring option \<Rightarrow> navigate_options \<Rightarrow> jstring option \<Rightarrow>
     structural_preparation option \<Rightarrow> live_lane \<Rightarrow> 's mutation \<Rightarrow> (session_error, (tagged_error, admission) res option lane_command) res" where
  "plan_navigation ops config name operationId startedAt taskId targetId options observedTipId preparation state m =
     (let summarize = (no_summarize options = Some True);
          refuse = (\<lambda>reason. Inr (ReturnCmd (Some (Inl (InvalidNavigation name reason))))) in
      case ll_operation state of
        Some operation \<Rightarrow> Inr (ReturnCmd (Some (Inl (lane_busy name operation))))
      | None \<Rightarrow>
          if ll_tipId state \<noteq> observedTipId then Inr (ReturnCmd None)
          else if targetId = ll_tipId state then refuse (js ''current_tip'')
          else if targetId = None \<and> no_label options \<noteq> None then refuse (js ''root_label'')
          else if summarize \<and> (ll_tipId state = None \<or> targetId = None)
          then refuse (if ll_tipId state = None then js ''source_root'' else js ''target_root'')
          else rbind (case targetId of None \<Rightarrow> Inr True
                      | Some target \<Rightarrow> rbind (mutation_getEntries ops m [target]) (\<lambda>found. Inr (has_key found target))) (\<lambda>known.
            if \<not> known then Inr (ReturnCmd (Some (Inl (UnknownTargetEntry (the targetId)))))
            else
              let meta = \<lparr>om_operationId = operationId, om_lane = name, om_sourceTipId = ll_tipId state, om_startedAt = startedAt,
                    om_intent = NavigationIntent targetId summarize (no_label options) (no_customInstructions options)\<rparr>
              in rbind (if summarize then
                     (case (targetId, preparation) of
                        (Some target, Some p) \<Rightarrow>
                          rbind (operationPreparation operationId taskId) (\<lambda>a.
                            Inr ([setValue a (SPreparation p)],
                                 SummaryDeciding (starting config)
                                   \<lparr>st_taskId = taskId, st_reason = None, st_customInstructions = no_customInstructions options,
                                    st_boundary = CommitNavigation target (no_label options)\<rparr>))
                      | _ \<Rightarrow> Inl MissingPreparation)
                   else Inr ([], NavigationReadyToCommit (starting config) targetId (no_label options))) (\<lambda>(writes, operationState').
                 rbind (operationMeta operationId) (\<lambda>metaAddress.
                 rbind (operationState operationId) (\<lambda>stateAddress.
                 rbind (laneState name) (\<lambda>laneAddress.
                   Inr (CommitCmd
                     (writes @ [setValue metaAddress (SMeta meta), setValue stateAddress (SOperation operationState'),
                        setValue laneAddress (SLane (durableLaneState state (Some operationId) (ll_inbox state)))])
                     (state\<lparr>ll_operation := Some \<lparr>op_meta = meta, op_state = operationState'\<rparr>\<rparr>)
                     (\<lambda>_. Some (Inr \<lparr>ad_operationId = operationId, ad_kind = KNavigation, ad_startedAt = startedAt\<rparr>))
                     (\<lambda>_. [on_lane name (NavigationStart operationId targetId startedAt)]))))))))"

text \<open>
  One pass of the loop of \<^verbatim>\<open>acceptNavigation\<close>: the summary is prepared from the tip as it was observed, and the command answers \<open>None\<close>, upon
  which the loop repeats, when the tip has moved since.
\<close>

definition navigation_pass ::
  "'s storage_ops \<Rightarrow> lane_config \<Rightarrow> jstring \<Rightarrow> jstring \<Rightarrow> jstring \<Rightarrow> jstring option \<Rightarrow> navigate_options \<Rightarrow> int \<Rightarrow>
     jstring option \<Rightarrow> structural_preparation option \<Rightarrow> 's harness \<Rightarrow> 's harness \<times> (lane_throw, (tagged_error, admission) res option) res" where
  "navigation_pass ops config name operationId taskId targetId options startedAt observedTipId preparation h =
     command ops name startedAt (plan_navigation ops config name operationId startedAt taskId targetId options observedTipId preparation) h"

definition acceptNavigation ::
  "'s storage_ops \<Rightarrow> lane_config \<Rightarrow> jstring \<Rightarrow> jstring \<Rightarrow> jstring \<Rightarrow> jstring option \<Rightarrow> navigate_options \<Rightarrow> int \<Rightarrow>
     's harness \<Rightarrow> 's harness \<times> (lane_throw, (tagged_error, admission) res) res" where
  "acceptNavigation ops config name operationId taskId targetId options startedAt h =
     unless_closed h
       (case map_of (hn_lanes h) name of
          None \<Rightarrow> (h, Inl NoLane)
        | Some ln \<Rightarrow>
            let observedTipId = ll_tipId (ln_state ln) in
            (case navigation_preparation ops (hn_session h) (no_summarize options = Some True) observedTipId targetId of
               Inl e \<Rightarrow> (h, Inl (SessionThrew e))
             | Inr preparation \<Rightarrow>
                 (case navigation_pass ops config name operationId taskId targetId options startedAt observedTipId preparation h of
                    (h', Inl e) \<Rightarrow> (h', Inl e)
                  | (h', Inr (Some accepted)) \<Rightarrow> (h', Inr accepted)
                  | (h', Inr None) \<Rightarrow> (h', Inl Waits))))"

section \<open>Abort\<close>

fun map_scope :: "(operation_scope \<Rightarrow> operation_scope) \<Rightarrow> operation_state \<Rightarrow> operation_state" where
  "map_scope f (Starting s) = Starting (f s)"
| "map_scope f (Checkpoint s c) = Checkpoint (f s) c"
| "map_scope f (AssistantReady s g a) = AssistantReady (f s) g a"
| "map_scope f (AssistantEffectPending s g a r u t d) = AssistantEffectPending (f s) g a r u t d"
| "map_scope f (AssistantRetryWait s g w) = AssistantRetryWait (f s) g w"
| "map_scope f (Tools s b) = Tools (f s) b"
| "map_scope f (DeferredSuspended s d) = DeferredSuspended (f s) d"
| "map_scope f (DeferredEffectPending s d r u) = DeferredEffectPending (f s) d r u"
| "map_scope f (SummaryDeciding s t) = SummaryDeciding (f s) t"
| "map_scope f (SummaryReady s t c a) = SummaryReady (f s) t c a"
| "map_scope f (SummaryEffectPending s t c a r u) = SummaryEffectPending (f s) t c a r u"
| "map_scope f (SummaryRetryWait s t c w) = SummaryRetryWait (f s) t c w"
| "map_scope f (NavigationReadyToCommit s t l) = NavigationReadyToCommit (f s) t l"

record abort_request =
  ab_operationId :: jstring
  ab_newlyRequested :: bool
  ab_steer :: "agent_message list"
  ab_followUp :: "agent_message list"

definition mismatch :: "jstring \<Rightarrow> jstring \<Rightarrow> live_lane \<Rightarrow> tagged_error" where
  "mismatch name expected state = OperationMismatch name expected (current_id state) (ll_lastOperationId state)"

definition removed_message :: "'s storage_ops \<Rightarrow> 's mutation \<Rightarrow> inbox_item \<Rightarrow> (session_error, inbox_item \<times> agent_message) res" where
  "removed_message ops m item =
     rbind (read_typed ops m as_pending (pendingEntry (ii_entryId item))) (\<lambda>stored.
       case stored of Some (PendingMessage message) \<Rightarrow> Inr (item, message) | _ \<Rightarrow> Inl (MissingMessagePayload (ii_entryId item)))"

definition payloads_of :: "inbox_kind \<Rightarrow> (inbox_item \<times> agent_message) list \<Rightarrow> agent_message list" where
  "payloads_of kind payloads = map snd (filter (\<lambda>(item, _). ii_kind item = kind) payloads)"

definition plan_abort ::
  "'s storage_ops \<Rightarrow> jstring \<Rightarrow> jstring \<Rightarrow> int \<Rightarrow> live_lane \<Rightarrow> 's mutation \<Rightarrow> (session_error, (tagged_error, abort_request) res lane_command) res" where
  "plan_abort ops name operationId now state m =
     (case ll_operation state of
        None \<Rightarrow> Inr (ReturnCmd (Inl (mismatch name operationId state)))
      | Some operation \<Rightarrow>
          if om_operationId (op_meta operation) \<noteq> operationId then Inr (ReturnCmd (Inl (mismatch name operationId state)))
          else if is_cancelled (op_state operation)
          then Inr (ReturnCmd (Inr \<lparr>ab_operationId = operationId, ab_newlyRequested = False, ab_steer = [], ab_followUp = []\<rparr>))
          else
            let removed = filter (\<lambda>item. ii_kind item = Steer \<or> ii_kind item = FollowUp) (ll_inbox state) in
            rbind (read_each (removed_message ops m) removed) (\<lambda>payloads.
              let steer = payloads_of Steer payloads;
                  followUp = payloads_of FollowUp payloads;
                  inbox = withoutInboxItems (ll_inbox state) removed;
                  operationState' = map_scope (\<lambda>s. s\<lparr>os_control := CancelRequested now\<rparr>) (op_state operation)
              in rbind (readLaneQueues ops m inbox) (\<lambda>queues.
                 rbind (delete_pending removed) (\<lambda>deletes.
                 rbind (operationState operationId) (\<lambda>stateAddress.
                 rbind (laneState name) (\<lambda>laneAddress.
                   Inr (CommitCmd
                     (deletes @ [setValue stateAddress (SOperation operationState'),
                        setValue laneAddress (SLane (durableLaneState state (Some operationId) inbox))])
                     (state\<lparr>ll_inbox := inbox, ll_operation := Some \<lparr>op_meta = op_meta operation, op_state = operationState'\<rparr>\<rparr>)
                     (\<lambda>_. Inr \<lparr>ab_operationId = operationId, ab_newlyRequested = True, ab_steer = steer, ab_followUp = followUp\<rparr>)
                     (\<lambda>_. [on_lane name (OperationAbort operationId steer followUp)] @
                        (if removed = [] then [] else [on_lane name (QueueUpdate queues)])))))))))"

definition requestOperationAbort ::
  "'s storage_ops \<Rightarrow> jstring \<Rightarrow> jstring \<Rightarrow> int \<Rightarrow> 's harness \<Rightarrow> 's harness \<times> (lane_throw, (tagged_error, abort_request) res) res" where
  "requestOperationAbort ops name operationId now h = unless_closed h (command ops name now (plan_abort ops name operationId now) h)"

section \<open>Queues\<close>

datatype queue_input = TextInput jstring | MessageInput agent_message

text \<open>The message a queued input stands for, or the reason it is refused.\<close>

definition queue_message :: "queue_input \<Rightarrow> image_content list \<Rightarrow> int \<Rightarrow> (jstring, agent_message) res" where
  "queue_message input images at =
     (case input of
        TextInput s \<Rightarrow>
          if s = [] \<and> images = [] then Inl (js ''empty'')
          else Inr (user_blocks ((if s = [] then [] else [text_block s]) @ map InImage images) at)
      | MessageInput message \<Rightarrow>
          if stops_with StopPending message then Inl (js ''pending_assistant'')
          else (case message of
              Llm (UserMsg u) \<Rightarrow>
                Inr (if images = [] then message
                     else Llm (UserMsg (u\<lparr>um_content := Blocks
                       ((case um_content u of PlainText s \<Rightarrow> if s = [] then [] else [text_block s] | Blocks bs \<Rightarrow> bs) @ map InImage images)\<rparr>)))
            | _ \<Rightarrow> if images \<noteq> [] then Inl (js ''images_with_non_user'') else Inr message))"

definition plan_enqueue ::
  "'s storage_ops \<Rightarrow> jstring \<Rightarrow> jstring \<Rightarrow> inbox_kind \<Rightarrow> agent_message \<Rightarrow> live_lane \<Rightarrow> 's mutation \<Rightarrow>
     (session_error, (tagged_error, jstring) res lane_command) res" where
  "plan_enqueue ops name entryId kind message state m =
     (let inbox = ll_inbox state @ [\<lparr>ii_entryId = entryId, ii_kind = kind\<rparr>] in
      rbind (readLaneQueues ops m (ll_inbox state)) (\<lambda>queues.
      rbind (pendingEntry entryId) (\<lambda>pendingAddress.
      rbind (laneState name) (\<lambda>laneAddress.
        Inr (CommitCmd
          [setValue pendingAddress (SPending (PendingMessage message)),
           setValue laneAddress (SLane (durableLaneState state (current_id state) inbox))]
          (state\<lparr>ll_inbox := inbox\<rparr>)
          (\<lambda>_. Inr entryId)
          (\<lambda>_. [on_lane name (QueueUpdate (queues @ [QueuedMessage entryId kind message]))]))))))"

definition enqueue ::
  "'s storage_ops \<Rightarrow> jstring \<Rightarrow> inbox_kind \<Rightarrow> queue_input \<Rightarrow> image_content list \<Rightarrow> jstring \<Rightarrow> int \<Rightarrow> 's harness \<Rightarrow>
     's harness \<times> (lane_throw, (tagged_error, jstring) res) res" where
  "enqueue ops name kind input images entryId at h =
     unless_closed h
       (case queue_message input images at of
          Inl reason \<Rightarrow> (h, Inr (Inl (InvalidMessage name reason)))
        | Inr message \<Rightarrow> command ops name at (plan_enqueue ops name entryId kind message) h)"

datatype cancel_result = Cancelled | AlreadyConsumed | NotFound

definition plan_cancel ::
  "'s storage_ops \<Rightarrow> jstring \<Rightarrow> jstring \<Rightarrow> live_lane \<Rightarrow> 's mutation \<Rightarrow> (session_error, (tagged_error, cancel_result) res lane_command) res" where
  "plan_cancel ops name entryId state m =
     (case List.find (\<lambda>item. ii_entryId item = entryId) (ll_inbox state) of
        None \<Rightarrow>
          rbind (mutation_getEntries ops m [entryId]) (\<lambda>found.
            Inr (ReturnCmd (Inr (if has_key found entryId then AlreadyConsumed else NotFound))))
      | Some queued \<Rightarrow>
          rbind (pendingEntry entryId) (\<lambda>pendingAddress.
          rbind (mutation_getValue ops m pendingAddress) (\<lambda>stored.
            if stored = None then Inl (PendingMissingPayload (ii_kind queued) entryId)
            else
              let inbox = filter (\<lambda>item. ii_entryId item \<noteq> entryId) (ll_inbox state) in
              rbind (readLaneQueues ops m inbox) (\<lambda>queues.
              rbind (laneState name) (\<lambda>laneAddress.
                Inr (CommitCmd
                  [deleteValue pendingAddress, setValue laneAddress (SLane (durableLaneState state (current_id state) inbox))]
                  (state\<lparr>ll_inbox := inbox\<rparr>)
                  (\<lambda>_. Inr Cancelled)
                  (\<lambda>_. [on_lane name (QueueUpdate queues)])))))))"

definition cancelQueued ::
  "'s storage_ops \<Rightarrow> jstring \<Rightarrow> jstring \<Rightarrow> int \<Rightarrow> 's harness \<Rightarrow> 's harness \<times> (lane_throw, (tagged_error, cancel_result) res) res" where
  "cancelQueued ops name entryId now h = unless_closed h (command ops name now (plan_cancel ops name entryId) h)"

section \<open>Usage and configuration\<close>

definition plan_usage ::
  "jstring \<Rightarrow> jstring \<Rightarrow> usage \<Rightarrow> jstring option \<Rightarrow> json option \<Rightarrow> live_lane \<Rightarrow> 's mutation \<Rightarrow>
     (session_error, (tagged_error, jstring) res lane_command) res" where
  "plan_usage name usageId usage entryId details state m =
     (let row = \<lparr>ur_id = usageId, ur_usage = usage, ur_entryId = entryId, ur_adjustment = True, ur_details = details\<rparr> in
      Inr (CommitCmd [insertUsage row] state (\<lambda>_. Inr usageId)
        (\<lambda>commit. [on_lane name (UsageRecorded
           \<lparr>ur_id = usageId, ur_usage = usage, ur_entryId = entryId, ur_adjustment = True, ur_details = details, ur_seq = cr_seqs commit ! 0\<rparr>
           (ss_usage (cr_stats commit)))])))"

definition recordUsage ::
  "'s storage_ops \<Rightarrow> jstring \<Rightarrow> usage \<Rightarrow> jstring option \<Rightarrow> json option \<Rightarrow> jstring \<Rightarrow> int \<Rightarrow> 's harness \<Rightarrow>
     's harness \<times> (lane_throw, (tagged_error, jstring) res) res" where
  "recordUsage ops name usage entryId details usageId now h =
     unless_closed h (command ops name now (plan_usage name usageId usage entryId details) h)"

definition plan_configuration ::
  "jstring \<Rightarrow> (lane_configuration \<Rightarrow> lane_configuration) \<Rightarrow> (lane_configuration \<Rightarrow> lane_configuration \<Rightarrow> config_change) \<Rightarrow>
     live_lane \<Rightarrow> 's mutation \<Rightarrow> (session_error, unit lane_command) res" where
  "plan_configuration name update change state m =
     (let configuration = update (ll_configuration state) in
      rbind (laneConfig name) (\<lambda>a.
        Inr (CommitCmd [setValue a (SConfig configuration)] (state\<lparr>ll_configuration := configuration\<rparr>) (\<lambda>_. ())
          (\<lambda>_. [on_lane name (ConfigUpdate (change (ll_configuration state) configuration))]))))"

definition setModel :: "'s storage_ops \<Rightarrow> jstring \<Rightarrow> model_ref \<Rightarrow> int \<Rightarrow> 's harness \<Rightarrow> 's harness \<times> (lane_throw, unit) res" where
  "setModel ops name model now h =
     command ops name now (plan_configuration name (\<lambda>c. c\<lparr>lc_model := model\<rparr>) (\<lambda>p v. ModelChange (lc_model p) (lc_model v))) h"

definition setThinkingLevel :: "'s storage_ops \<Rightarrow> jstring \<Rightarrow> thinking_level \<Rightarrow> int \<Rightarrow> 's harness \<Rightarrow> 's harness \<times> (lane_throw, unit) res" where
  "setThinkingLevel ops name level now h =
     command ops name now
       (plan_configuration name (\<lambda>c. c\<lparr>lc_thinkingLevel := level\<rparr>) (\<lambda>p v. ThinkingChange (lc_thinkingLevel p) (lc_thinkingLevel v))) h"

definition setActiveTools :: "'s storage_ops \<Rightarrow> jstring \<Rightarrow> jstring list \<Rightarrow> int \<Rightarrow> 's harness \<Rightarrow> 's harness \<times> (lane_throw, unit) res" where
  "setActiveTools ops name tools now h =
     command ops name now
       (plan_configuration name (\<lambda>c. c\<lparr>lc_activeToolNames := tools\<rparr>) (\<lambda>p v. ActiveToolsChange (lc_activeToolNames p) (lc_activeToolNames v))) h"

section \<open>Appends\<close>

definition capture_write :: "'s storage_ops \<Rightarrow> 's mutation \<Rightarrow> inbox_item \<Rightarrow> (session_error, new_entry) res" where
  "capture_write ops m item =
     rbind (read_typed ops m as_pending (pendingEntry (ii_entryId item))) (\<lambda>stored.
       case stored of
         None \<Rightarrow> Inl (PendingMissingPayload WriteItem (ii_entryId item))
       | Some pending \<Rightarrow> Inr (pendingEntryWrite (ii_entryId item) pending))"

definition queued_write :: "jstring \<Rightarrow> pending_entry \<Rightarrow> lane_queued_item" where
  "queued_write i pending =
     (case pending of PendingMessage payload \<Rightarrow> QueuedMessage i WriteItem payload | PendingCustom t payload \<Rightarrow> QueuedCustom i t payload)"

definition plan_append ::
  "'s storage_ops \<Rightarrow> jstring \<Rightarrow> jstring \<Rightarrow> pending_entry \<Rightarrow> live_lane \<Rightarrow> 's mutation \<Rightarrow> (session_error, jstring lane_command) res" where
  "plan_append ops name i pending state m =
     (case ll_operation state of
        None \<Rightarrow>
          let queued = inboxItems (ll_inbox state) WriteItem in
          rbind (read_each (capture_write ops m) queued) (\<lambda>captured.
            let inbox = withoutInboxItems (ll_inbox state) queued;
                entries = chainEntries (ll_tipId state) (captured @ [pendingEntryWrite i pending]) in
            rbind (if queued = [] then Inr None else rbind (readLaneQueues ops m inbox) (\<lambda>qs. Inr (Some qs))) (\<lambda>queues.
            rbind (delete_pending queued) (\<lambda>deletes.
            rbind (branchTip name) (\<lambda>tipAddress.
            rbind (laneState name) (\<lambda>laneAddress.
              Inr (CommitCmd
                (map insertEntry entries @ deletes @
                 [setValue tipAddress (STip (Some i)), setValue laneAddress (SLane (durableLaneState state None inbox))])
                (state\<lparr>ll_tipId := Some i, ll_inbox := inbox\<rparr>)
                (\<lambda>_. i)
                (\<lambda>commit. committedEntryEvents entries commit name None 0 @
                   (case queues of None \<Rightarrow> [] | Some qs \<Rightarrow> [on_lane name (QueueUpdate qs)]))))))))
      | Some operation \<Rightarrow>
          let inbox = ll_inbox state @ [\<lparr>ii_entryId = i, ii_kind = WriteItem\<rparr>] in
          rbind (readLaneQueues ops m (ll_inbox state)) (\<lambda>queues.
          rbind (pendingEntry i) (\<lambda>pendingAddress.
          rbind (laneState name) (\<lambda>laneAddress.
            Inr (CommitCmd
              [setValue pendingAddress (SPending pending),
               setValue laneAddress (SLane (durableLaneState state (Some (om_operationId (op_meta operation))) inbox))]
              (state\<lparr>ll_inbox := inbox\<rparr>)
              (\<lambda>_. i)
              (\<lambda>_. [on_lane name (QueueUpdate (queues @ [queued_write i pending]))]))))))"

definition lane_append ::
  "'s storage_ops \<Rightarrow> jstring \<Rightarrow> pending_entry \<Rightarrow> jstring \<Rightarrow> int \<Rightarrow> 's harness \<Rightarrow> 's harness \<times> (lane_throw, jstring) res" where
  "lane_append ops name pending i now h =
     (case hn_closed h of
        Some c \<Rightarrow> (h, Inl (SealedBy c))
      | None \<Rightarrow>
          if pending_assistant pending then (h, Inl (SessionThrew PendingAssistantMessage))
          else command ops name now (plan_append ops name i pending) h)"

end
