(* ===== verification/Lane_Harness.thy ===== *)
theory Lane_Harness
  imports Lane_Control
begin

text \<open>
  The harness around its lanes, \<^verbatim>\<open>packages/agent/src/harness/runtime/harness.ts\<close>: acquiring a lane, which restores or creates it, the session-wide values,
  and the attachment of a harness to a session; and the process-local owners of a lane, a drive pass and an idle callback.
\<close>

section \<open>Owners of a lane\<close>

datatype claim_result =
    ClaimObserve jstring bool
  | ClaimOccupied jstring
  | ClaimSettled operation_result
  | ClaimMismatch tagged_error

definition plan_drive ::
  "'s storage_ops \<Rightarrow> jstring \<Rightarrow> jstring option \<Rightarrow> jstring \<Rightarrow> bool \<Rightarrow> live_lane \<Rightarrow> 's mutation \<Rightarrow> (session_error, claim_result lane_command) res" where
  "plan_drive ops name activeDrive operationId aborted state m =
     (if aborted then Inr (RejectCmd SignalAborted)
      else if current_id state = Some operationId then
        Inr (ReturnCmd (case activeDrive of
            None \<Rightarrow> ClaimObserve operationId True
          | Some d \<Rightarrow> if d = operationId then ClaimObserve d False else ClaimOccupied d))
      else rbind (read_typed ops m as_result (operationResult operationId)) (\<lambda>stored.
        Inr (ReturnCmd (case stored of None \<Rightarrow> ClaimMismatch (mismatch name operationId state) | Some outcome \<Rightarrow> ClaimSettled outcome))))"

text \<open>The claim installs a drive pass on the lane; the pass removes itself when it is done.\<close>

definition drive_claim ::
  "'s storage_ops \<Rightarrow> jstring \<Rightarrow> jstring \<Rightarrow> bool \<Rightarrow> int \<Rightarrow> 's harness \<Rightarrow> 's harness \<times> (lane_throw, (tagged_error, claim_result) res) res" where
  "drive_claim ops name operationId aborted now h =
     unless_closed h
       (case command ops name now (plan_drive ops name (Option.bind (map_of (hn_lanes h) name) ln_activeDrive) operationId aborted) h of
          (h', Inl e) \<Rightarrow> (h', Inl e)
        | (h', Inr (ClaimMismatch e)) \<Rightarrow> (h', Inr (Inl e))
        | (h', Inr (ClaimObserve i True)) \<Rightarrow>
            (update_lane name (\<lambda>ln. ln\<lparr>ln_activeDrive := Some i\<rparr>) h', Inr (Inr (ClaimObserve i True)))
        | (h', Inr c) \<Rightarrow> (h', Inr (Inr c)))"

definition drive_done :: "jstring \<Rightarrow> 's harness \<Rightarrow> 's harness" where
  "drive_done name h = update_lane name (\<lambda>ln. ln\<lparr>ln_activeDrive := None\<rparr>) h"

definition plan_idle :: "jstring option \<Rightarrow> live_lane \<Rightarrow> 's mutation \<Rightarrow> (session_error, bool lane_command) res" where
  "plan_idle activeDrive state m = Inr (ReturnCmd (ll_operation state = None \<and> activeDrive = None))"

text \<open>The claim of \<^verbatim>\<open>runWhenIdle\<close>, whether it was granted, and its release.\<close>

definition idle_claim :: "'s storage_ops \<Rightarrow> jstring \<Rightarrow> int \<Rightarrow> 's harness \<Rightarrow> 's harness \<times> (lane_throw, bool) res" where
  "idle_claim ops name now h =
     (case command ops name now (plan_idle (Option.bind (map_of (hn_lanes h) name) ln_activeDrive)) h of
        (h', Inr True) \<Rightarrow> (update_lane name (\<lambda>ln. ln\<lparr>ln_idleOwner := True\<rparr>) h', Inr True)
      | r \<Rightarrow> r)"

definition idle_release :: "jstring \<Rightarrow> 's harness \<Rightarrow> 's harness" where
  "idle_release name h = update_lane name (\<lambda>ln. ln\<lparr>ln_idleOwner := False\<rparr>) h"

section \<open>Inspection\<close>

definition capturedModel :: "operation_state \<Rightarrow> model_ref option" where
  "capturedModel state =
     (case state of
        AssistantReady _ g _ \<Rightarrow> Some (lc_model (gc_configuration g))
      | AssistantEffectPending _ g _ _ _ _ _ \<Rightarrow> Some (lc_model (gc_configuration g))
      | AssistantRetryWait _ g _ \<Rightarrow> Some (lc_model (gc_configuration g))
      | Tools _ b \<Rightarrow> Some (lc_model (tb_configuration b))
      | DeferredSuspended _ d \<Rightarrow> Some (lc_model (ds_configuration d))
      | DeferredEffectPending _ d _ _ \<Rightarrow> Some (lc_model (ds_configuration d))
      | SummaryReady _ _ c _ \<Rightarrow> Some (lc_model (sc_configuration c))
      | SummaryEffectPending _ _ c _ _ _ \<Rightarrow> Some (lc_model (sc_configuration c))
      | SummaryRetryWait _ _ c _ \<Rightarrow> Some (lc_model (sc_configuration c))
      | _ \<Rightarrow> None)"

record current_operation =
  co_id :: jstring
  co_kind :: op_kind
  co_aborting :: bool
  co_startedAt :: int
  co_capturedModel :: "model_ref option"

record lane_info =
  li_lane :: jstring
  li_tipId :: "jstring option"
  li_configuredModel :: model_ref
  li_current :: "current_operation option"
  li_lastOperationId :: "jstring option"

definition lane_info_of :: "jstring \<Rightarrow> live_lane \<Rightarrow> lane_info" where
  "lane_info_of name state =
     \<lparr>li_lane = name, li_tipId = ll_tipId state, li_configuredModel = lc_model (ll_configuration state),
      li_current = map_option (\<lambda>op. \<lparr>co_id = om_operationId (op_meta op), co_kind = intent_kind (om_intent (op_meta op)),
        co_aborting = is_cancelled (op_state op), co_startedAt = om_startedAt (op_meta op), co_capturedModel = capturedModel (op_state op)\<rparr>)
        (ll_operation state),
      li_lastOperationId = ll_lastOperationId state\<rparr>"

text \<open>\<^verbatim>\<open>readLane\<close> runs on the mutation line as a command does, but does not wait for an idle owner.\<close>

definition inspectExecution :: "jstring \<Rightarrow> 's harness \<Rightarrow> (lane_throw, lane_info) res" where
  "inspectExecution name h =
     (case hn_closed h of
        Some c \<Rightarrow> Inl (SealedBy c)
      | None \<Rightarrow>
          (case map_of (hn_lanes h) name of
             None \<Rightarrow> Inl NoLane
           | Some ln \<Rightarrow>
               (case assertOpen (hn_session h) of
                  Inl e \<Rightarrow> Inl (SessionThrew e)
                | Inr _ \<Rightarrow> Inr (lane_info_of name (ln_state ln)))))"

section \<open>Acquiring a lane\<close>

datatype acquired = LaneKnown | LaneRestored live_lane | LaneMade live_lane | TargetUnknown jstring

definition initial_lane :: "jstring option \<Rightarrow> lane_configuration \<Rightarrow> live_lane" where
  "initial_lane tipId seed =
     \<lparr>ll_tipId = tipId, ll_configuration = seed, ll_inbox = [], ll_lastOperationId = None, ll_operation = None\<rparr>"

definition make_lane ::
  "'s storage_ops \<Rightarrow> jstring \<Rightarrow> bool \<Rightarrow> jstring option \<Rightarrow> lane_configuration \<Rightarrow> int \<Rightarrow> 's mutation \<Rightarrow> 's mutation \<times> (session_error, acquired) res" where
  "make_lane ops name absent tipId seed now m =
     with_read m (case tipId of
         None \<Rightarrow> Inr True
       | Some t \<Rightarrow> if absent then rbind (mutation_getEntries ops m [t]) (\<lambda>found. Inr (has_key found t)) else Inr True) (\<lambda>known.
       if \<not> known then (m, Inr (TargetUnknown (the tipId)))
       else
         with_read m (branchTip name) (\<lambda>tipAddress.
         with_read m (laneConfig name) (\<lambda>configAddress.
         with_read m (laneState name) (\<lambda>stateAddress.
           (case mutation_commit ops m
              ((if absent then [setValue tipAddress (STip tipId)] else []) @
               [setValue configAddress (SConfig seed),
                setValue stateAddress (SLane \<lparr>ls_currentOperationId = None, ls_lastOperationId = None, ls_inbox = []\<rparr>)]) now of
              (m', Inl e) \<Rightarrow> (m', Inl e)
            | (m', Inr _) \<Rightarrow> (m', Inr (LaneMade (initial_lane tipId seed))))))))"

definition acquire_body ::
  "'s storage_ops \<Rightarrow> jstring \<Rightarrow> bool \<Rightarrow> jstring option \<Rightarrow> lane_configuration \<Rightarrow> int \<Rightarrow> 's mutation \<Rightarrow> 's mutation \<times> (session_error, acquired) res" where
  "acquire_body ops name known createAt seed now m =
     (if known then (m, Inr LaneKnown)
      else with_read m (readLaneStorage ops m name) (\<lambda>stored.
        case stored of
          LaneConfigured tip configuration state \<Rightarrow>
            (m, rbind (restoreLaneState ops m name tip configuration state) (\<lambda>l. Inr (LaneRestored l)))
        | LaneBranch tip \<Rightarrow> make_lane ops name False tip seed now m
        | LaneAbsent \<Rightarrow> make_lane ops name True createAt seed now m))"

definition add_lane :: "jstring \<Rightarrow> live_lane \<Rightarrow> 's harness \<Rightarrow> 's harness" where
  "add_lane name state h = h\<lparr>hn_lanes := AList.update name (new_lane state) (hn_lanes h)\<rparr>"

definition harness_lane ::
  "'s storage_ops \<Rightarrow> jstring \<Rightarrow> jstring option \<Rightarrow> lane_configuration \<Rightarrow> int \<Rightarrow> 's harness \<Rightarrow> 's harness \<times> (lane_throw, jstring) res" where
  "harness_lane ops name createAt seed now h =
     (case hn_closed h of
        Some c \<Rightarrow> (h, Inl (SealedBy c))
      | None \<Rightarrow>
          if name = [] then (h, Inl (Threw (InvalidLane name (js ''lane name must not be empty''))))
          else if 0 \<in> set name then (h, Inl (Threw (InvalidLane name (js (''lane name must not contain '' @ [CHR 0x5C] @ ''u0000'')))))
          else
            (case mutate (hn_session h) (acquire_body ops name (has_key (hn_lanes h) name) createAt seed now) of
               (se, Inl e) \<Rightarrow> (case fault e (h\<lparr>hn_session := se\<rparr>) of (h', c) \<Rightarrow> (h', Inl (SealedBy c)))
             | (se, Inr LaneKnown) \<Rightarrow> (h\<lparr>hn_session := se\<rparr>, Inr name)
             | (se, Inr (LaneRestored l)) \<Rightarrow> (add_lane name l (h\<lparr>hn_session := se\<rparr>), Inr name)
             | (se, Inr (LaneMade l)) \<Rightarrow>
                 (emit [on_lane name (LaneCreated (ll_tipId l))] (add_lane name l (h\<lparr>hn_session := se\<rparr>)), Inr name)
             | (se, Inr (TargetUnknown t)) \<Rightarrow> (h\<lparr>hn_session := se\<rparr>, Inl (Threw (UnknownTargetEntry t)))))"

section \<open>Session-wide values\<close>

definition set_session_value ::
  "'s storage_ops \<Rightarrow> (session_error, address) res \<Rightarrow> jstring option \<Rightarrow> harness_payload \<Rightarrow> int \<Rightarrow> 's harness \<Rightarrow> 's harness \<times> (lane_throw, unit) res" where
  "set_session_value ops address v payload now h =
     (case hn_closed h of
        Some c \<Rightarrow> (h, Inl (SealedBy c))
      | None \<Rightarrow>
          (case mutate (hn_session h) (\<lambda>m. with_read m address (\<lambda>a.
              mutation_commit ops m [case v of None \<Rightarrow> deleteValue a | Some t \<Rightarrow> setValue a (SText t)] now)) of
             (se, Inl e) \<Rightarrow> (case fault e (h\<lparr>hn_session := se\<rparr>) of (h', c) \<Rightarrow> (h', Inl (SealedBy c)))
           | (se, Inr _) \<Rightarrow> (emit [\<lparr>ev_lane = None, ev_payload = payload\<rparr>] (h\<lparr>hn_session := se\<rparr>), Inr ())))"

definition harness_setName :: "'s storage_ops \<Rightarrow> jstring option \<Rightarrow> int \<Rightarrow> 's harness \<Rightarrow> 's harness \<times> (lane_throw, unit) res" where
  "harness_setName ops name now h = set_session_value ops sessionName name (SessionNameUpdate name) now h"

definition harness_setLabel :: "'s storage_ops \<Rightarrow> jstring \<Rightarrow> jstring option \<Rightarrow> int \<Rightarrow> 's harness \<Rightarrow> 's harness \<times> (lane_throw, unit) res" where
  "harness_setLabel ops targetId label now h = set_session_value ops (entryLabel targetId) label (EntryLabelUpdate targetId label) now h"

section \<open>Attaching a harness\<close>

record open_operation =
  oo_lane :: jstring
  oo_operationId :: jstring
  oo_kind :: op_kind
  oo_startedAt :: int
  oo_aborting :: bool

definition open_operations :: "(jstring \<times> live_lane) list \<Rightarrow> open_operation list" where
  "open_operations restored =
     concat (map (\<lambda>(lane, state).
       case ll_operation state of
         None \<Rightarrow> []
       | Some op \<Rightarrow> [\<lparr>oo_lane = lane, oo_operationId = om_operationId (op_meta op), oo_kind = intent_kind (om_intent (op_meta op)),
           oo_startedAt = om_startedAt (op_meta op), oo_aborting = is_cancelled (op_state op)\<rparr>]) restored)"

definition createAgentHarness ::
  "'s storage_ops \<Rightarrow> 's session \<Rightarrow> (lane_closed, 's harness \<times> open_operation list) res" where
  "createAgentHarness ops se =
     (case restoreSession ops se of
        (se', Inl e) \<Rightarrow> Inl (HarnessFault e)
      | (se', Inr restored) \<Rightarrow>
          Inr (\<lparr>hn_session = se', hn_lanes = map (\<lambda>(name, state). (name, new_lane state)) restored, hn_closed = None, hn_events = []\<rparr>,
               open_operations restored))"

end
