(* ===== verification/Lane_Store.thy ===== *)
theory Lane_Store
  imports Lane_Harness
begin

text \<open>
  What a commit does to the values and ids that lanes rely on, and when it succeeds. The view of a storage state here is a function from
  addresses to values and two sets of ids, those of entries and those of entries or usage rows.
\<close>

section \<open>The view of a state\<close>

type_synonym values_view = "jstring \<times> jstring \<Rightarrow> sval option"

definition value_at :: "storage_state \<Rightarrow> values_view" where
  "value_at s p = map_option fst (st_values (abs_store s) p)"

definition entry_in :: "storage_state \<Rightarrow> jstring \<Rightarrow> bool" where
  "entry_in s i = has_key (s_entries s) i"

definition id_used :: "storage_state \<Rightarrow> jstring \<Rightarrow> bool" where
  "id_used s i = (has_key (s_entries s) i \<or> has_key (s_usage s) i)"

fun apply_values :: "store_write list \<Rightarrow> values_view \<Rightarrow> values_view" where
  "apply_values [] V = V"
| "apply_values (WValueSet ns k v # ws) V = apply_values ws (V((ns, k) := Some v))"
| "apply_values (WValueDelete ns k # ws) V = apply_values ws (V((ns, k) := None))"
| "apply_values (_ # ws) V = apply_values ws V"

fun touched :: "store_write list \<Rightarrow> (jstring \<times> jstring) set" where
  "touched [] = {}"
| "touched (WValueSet ns k v # ws) = insert (ns, k) (touched ws)"
| "touched (WValueDelete ns k # ws) = insert (ns, k) (touched ws)"
| "touched (_ # ws) = touched ws"

lemma apply_values_append: "apply_values (us @ ws) V = apply_values ws (apply_values us V)"
proof (induction us arbitrary: V)
  case (Cons u us)
  then show ?case by (cases u) (simp_all add: fun_upd_def)
qed simp

lemma touched_append [simp]: "touched (us @ ws) = touched us \<union> touched ws"
  by (induction us rule: touched.induct) auto

lemma new_ids_append [simp]: "new_ids (us @ ws) = new_ids us @ new_ids ws"
  by (induction us rule: new_ids.induct) auto

lemma new_entry_ids_append [simp]: "new_entry_ids (us @ ws) = new_entry_ids us @ new_entry_ids ws"
  by (induction us rule: new_entry_ids.induct) auto

lemma apply_values_untouched: "p \<notin> touched ws \<Longrightarrow> apply_values ws V p = V p"
proof (induction ws arbitrary: V)
  case (Cons w ws)
  then show ?case by (cases w) auto
qed simp

lemma entry_writes [simp]:
  "apply_values (map insertEntry es) V = V" "touched (map insertEntry es) = {}"
  "new_ids (map insertEntry es) = map ne_id es" "new_entry_ids (map insertEntry es) = map ne_id es"
  by (induction es) (simp_all add: insertEntry_def)

section \<open>The effect of a commit\<close>

lemma spec_values: "map_option fst (st_values (foldl spec_write a (commit_writes ws q t)) p) = apply_values ws (\<lambda>p. map_option fst (st_values a p)) p"
proof (induction ws arbitrary: a q)
  case (Cons w ws)
  show ?case
    by (cases w) (simp_all add: Cons fun_upd_def if_distrib [of "map_option fst"] cong: if_cong)
qed simp

lemma spec_entry_ids: "st_entries (foldl spec_write a (commit_writes ws q t)) i = None \<longleftrightarrow> st_entries a i = None \<and> i \<notin> set (new_entry_ids ws)"
proof (induction ws arbitrary: a q)
  case (Cons w ws)
  then show ?case by (cases w) auto
qed simp

lemma usage_written:
  "applyValidated s (commit_writes ws q t) = (s', Inr st) \<Longrightarrow>
     has_key (s_entries s') i \<or> has_key (s_usage s') i \<longleftrightarrow> has_key (s_entries s) i \<or> has_key (s_usage s) i \<or> i \<in> set (new_ids ws)"
proof (induction ws arbitrary: s q)
  case (Cons w ws)
  then obtain s1 where s1: "apply_write s (commitWrite w q t) = Inr s1" "applyValidated s1 (commit_writes ws (q + 1) t) = (s', Inr st)"
    by (auto split: sum.splits)
  have "has_key (s_entries s1) i \<or> has_key (s_usage s1) i \<longleftrightarrow>
      has_key (s_entries s) i \<or> has_key (s_usage s) i \<or> (case w of WEntry e \<Rightarrow> i = ne_id e | WUsage r \<Rightarrow> i = ur_id r | _ \<Rightarrow> False)"
    using s1(1) by (cases w) (auto simp: rbind_eq_Inr Let_def split: option.splits if_splits)
  with Cons.IH [OF s1(2)] show ?case by (cases w) auto
qed simp

lemma commit_job_unfold:
  assumes "commit_job s ws now = (s', Inr r)"
  obtains stats where "applyValidated s (commit_writes ws (s_nextSeq s) now) = (s', Inr stats)" "is_ok (prepareCommit s ws now)"
proof -
  from assms obtain pc stats where pc: "prepareCommit s ws now = Inr pc" "applyValidated s (pc_writes pc) = (s', Inr stats)"
    by (auto simp: commit_job_def rbind_eq_Inr split: sum.splits prod.splits)
  then have "pc_writes pc = commit_writes ws (s_nextSeq s) now"
    by (auto simp: prepareCommit_def prepareStorageCommit_def Let_def rbind_eq_Inr)
  with pc that show thesis by simp
qed

lemma commit_effect:
  assumes "storage_reachable s" "commit_job s ws now = (s', Inr r)"
  shows "value_at s' = apply_values ws (value_at s)"
    and "entry_in s' i \<longleftrightarrow> entry_in s i \<or> i \<in> set (new_entry_ids ws)"
    and "id_used s' i \<longleftrightarrow> id_used s i \<or> i \<in> set (new_ids ws)"
proof -
  note abs = commit_job_ok(2) [OF assms]
  show "value_at s' = apply_values ws (value_at s)"
    by (rule ext) (simp add: value_at_def [abs_def] abs spec_values)
  have "map_of (s_entries s') i = None \<longleftrightarrow> map_of (s_entries s) i = None \<and> i \<notin> set (new_entry_ids ws)"
    using spec_entry_ids [of "abs_store s" ws "s_nextSeq s" now i] unfolding abs [symmetric] by (simp add: abs_store_def)
  then show "entry_in s' i \<longleftrightarrow> entry_in s i \<or> i \<in> set (new_entry_ids ws)" by (auto simp: entry_in_def)
  obtain stats where "applyValidated s (commit_writes ws (s_nextSeq s) now) = (s', Inr stats)" by (rule commit_job_unfold [OF assms(2)])
  from usage_written [OF this] show "id_used s' i \<longleftrightarrow> id_used s i \<or> i \<in> set (new_ids ws)" by (auto simp: id_used_def)
qed

section \<open>When a commit succeeds\<close>

fun write_valid :: "store_write \<Rightarrow> bool" where
  "write_valid (WValueSet ns k v) = valid_address ns k"
| "write_valid (WListAppend ns k v) = valid_address ns k"
| "write_valid _ = True"

definition commit_fits :: "storage_state \<Rightarrow> store_write list \<Rightarrow> bool" where
  "commit_fits s ws \<longleftrightarrow>
     distinct (new_ids ws) \<and> (\<forall>i\<in>set (new_ids ws). \<not> id_used s i) \<and> parents_before (entry_in s) ws \<and> (\<forall>w\<in>set ws. write_valid w)"

lemma write_address_commit: "w \<in> set (commit_writes ws q t) \<Longrightarrow> \<forall>w\<in>set ws. write_valid w \<Longrightarrow> write_address_ok w"
proof (induction ws arbitrary: q)
  case (Cons v ws)
  then show ?case by (cases v) auto
qed simp

lemma commit_succeeds:
  assumes "storage_reachable s" "commit_fits s ws"
  shows "\<exists>s' r. commit_job s ws now = (s', Inr r)"
proof -
  have "is_ok (prepareCommit s ws now)"
    unfolding prepareCommit_ok_iff using assms(2)
    by (simp add: commit_fits_def id_used_def entry_in_def [abs_def])
  then obtain pc where pc: "prepareCommit s ws now = Inr pc" by (auto simp: is_ok_iff)
  have w: "pc_writes pc = commit_writes ws (s_nextSeq s) now" and v: "validateCommitted s (pc_writes pc) = Inr ()"
    using pc by (auto simp: prepareCommit_def prepareStorageCommit_def Let_def rbind_eq_Inr)
  have "\<forall>w\<in>set (pc_writes pc). write_address_ok w"
    using assms(2) write_address_commit unfolding w commit_fits_def by blast
  from applyValidated_ok [OF storage_reachable_ok [OF assms(1)] v this] obtain s' where
    "applyValidated s (pc_writes pc) = (s', Inr (s_stats s'))" by blast
  with pc show ?thesis by (simp add: commit_job_def)
qed

text \<open>A chain of entries hangs on its start.\<close>

lemma parents_before_values: "(\<And>w. w \<in> set ws \<Longrightarrow> \<exists>ns k v. w = WValueSet ns k v \<or> w = WValueDelete ns k) \<Longrightarrow> parents_before ek ws"
  by (fastforce simp: parents_before_def)

lemma parents_before_chain:
  assumes "\<And>w. w \<in> set ws \<Longrightarrow> \<exists>ns k v. w = WValueSet ns k v \<or> w = WValueDelete ns k" "\<And>t. p = Some t \<Longrightarrow> ek t"
  shows "parents_before ek (map insertEntry (chainEntries p es) @ ws)"
  using assms(2)
proof (induction es arbitrary: p ek)
  case Nil
  then show ?case using parents_before_values [OF assms(1)] by simp
next
  case (Cons e es)
  have "parents_before (\<lambda>p. ek p \<or> p = ne_id e) (map insertEntry (chainEntries (Some (ne_id e)) es) @ ws)" by (rule Cons.IH) simp
  with Cons.prems show ?case by (simp add: parents_before_Cons insertEntry_def [abs_def])
qed

end
