(* ===== verification/Lane_Invariant.thy ===== *)
theory Lane_Invariant
  imports Lane_Store
begin

text \<open>
  The invariant of a harness: what every lane holds in memory is what the session stores for it, every stored lane is in memory, the stored control
  values belong together, queued entries have their payloads, and no two lanes share a stored value they rely on. A command keeps it when its planner writes
  what it publishes (\<open>local_ok\<close>) and takes ids that no lane uses.
\<close>

section \<open>What a lane relies on\<close>

abbreviation "ns_tip \<equiv> js ''phi.branch.tip''"
abbreviation "ns_config \<equiv> js ''phi.lane.config''"
abbreviation "ns_state \<equiv> js ''phi.lane.state''"
abbreviation "ns_meta \<equiv> js ''phi.op.meta''"
abbreviation "ns_operation \<equiv> js ''phi.op.state''"
abbreviation "ns_pending \<equiv> js ''phi.pending.entry''"

definition item_ok :: "values_view \<Rightarrow> (jstring \<Rightarrow> bool) \<Rightarrow> inbox_item \<Rightarrow> bool" where
  "item_ok V K item \<longleftrightarrow>
     0 \<notin> set (ii_entryId item) \<and> \<not> K (ii_entryId item) \<and>
     (\<exists>p. V (ns_pending, ii_entryId item) = Some (SPending p) \<and> \<not> pending_assistant p \<and>
        (ii_kind item \<noteq> WriteItem \<longrightarrow> (\<exists>message. p = PendingMessage message)))"

definition operation_ok :: "values_view \<Rightarrow> jstring \<Rightarrow> operation \<Rightarrow> bool" where
  "operation_ok V name op \<longleftrightarrow>
     0 \<notin> set (om_operationId (op_meta op)) \<and> om_lane (op_meta op) = name \<and> stateMatchesIntent (om_intent (op_meta op)) (op_state op) \<and>
     V (ns_meta, om_operationId (op_meta op)) = Some (SMeta (op_meta op)) \<and>
     V (ns_operation, om_operationId (op_meta op)) = Some (SOperation (op_state op))"

definition lane_ok :: "values_view \<Rightarrow> (jstring \<Rightarrow> bool) \<Rightarrow> (jstring \<Rightarrow> bool) \<Rightarrow> jstring \<Rightarrow> live_lane \<Rightarrow> bool" where
  "lane_ok V E K name l \<longleftrightarrow>
     0 \<notin> set name \<and>
     V (ns_tip, name) = Some (STip (ll_tipId l)) \<and>
     V (ns_config, name) = Some (SConfig (ll_configuration l)) \<and>
     V (ns_state, name) = Some (SLane (durableLaneState l (current_id l) (ll_inbox l))) \<and>
     (\<forall>op. ll_operation l = Some op \<longrightarrow> operation_ok V name op) \<and>
     (\<forall>t. ll_tipId l = Some t \<longrightarrow> E t) \<and>
     distinct (map ii_entryId (ll_inbox l)) \<and> (\<forall>item\<in>set (ll_inbox l). item_ok V K item)"

definition inbox_ids :: "live_lane \<Rightarrow> jstring set" where
  "inbox_ids l = ii_entryId ` set (ll_inbox l)"

definition claims :: "jstring \<Rightarrow> live_lane \<Rightarrow> (jstring \<times> jstring) set" where
  "claims name l =
     {(ns_tip, name), (ns_config, name), (ns_state, name)} \<union>
     (case current_id l of None \<Rightarrow> {} | Some i \<Rightarrow> {(ns_meta, i), (ns_operation, i)}) \<union>
     Pair ns_pending ` inbox_ids l"

lemma lane_ok_frame:
  assumes "lane_ok V E K name l" "\<And>p. p \<in> claims name l \<Longrightarrow> V' p = V p" "\<And>i. E i \<Longrightarrow> E' i" "\<And>i. i \<in> inbox_ids l \<Longrightarrow> K' i \<Longrightarrow> K i"
  shows "lane_ok V' E' K' name l"
proof -
  have V: "V' (ns_tip, name) = V (ns_tip, name)" "V' (ns_config, name) = V (ns_config, name)" "V' (ns_state, name) = V (ns_state, name)"
    by (rule assms(2); simp add: claims_def)+
  have op: "operation_ok V' name op" if "ll_operation l = Some op" for op
  proof -
    have "V' (ns_meta, om_operationId (op_meta op)) = V (ns_meta, om_operationId (op_meta op))"
      "V' (ns_operation, om_operationId (op_meta op)) = V (ns_operation, om_operationId (op_meta op))"
      by (rule assms(2); simp add: claims_def current_id_def that)+
    with assms(1) that show ?thesis by (simp add: lane_ok_def operation_ok_def)
  qed
  have "item_ok V' K' item" if "item \<in> set (ll_inbox l)" for item
  proof -
    have "V' (ns_pending, ii_entryId item) = V (ns_pending, ii_entryId item)"
      by (rule assms(2)) (simp add: claims_def inbox_ids_def that)
    moreover have "K' (ii_entryId item) \<Longrightarrow> K (ii_entryId item)" by (rule assms(4)) (simp_all add: inbox_ids_def that)
    ultimately show ?thesis using assms(1) that by (auto simp: lane_ok_def item_ok_def)
  qed
  with assms(1,3) V op show ?thesis by (simp add: lane_ok_def)
qed

section \<open>The lanes of a harness\<close>

definition lane_map :: "'s harness \<Rightarrow> jstring \<Rightarrow> live_lane option" where
  "lane_map h name = map_option ln_state (map_of (hn_lanes h) name)"

text \<open>A name that no lane has: it may have a branch, with a tip that exists.\<close>

definition vacant :: "storage_state \<Rightarrow> jstring \<Rightarrow> bool" where
  "vacant s n \<longleftrightarrow>
     value_at s (ns_config, n) = None \<and> value_at s (ns_state, n) = None \<and>
     (\<forall>v. value_at s (ns_tip, n) = Some v \<longrightarrow> (\<exists>t. v = STip t \<and> (\<forall>i. t = Some i \<longrightarrow> entry_in s i)))"

definition lanes_ok :: "storage_state \<Rightarrow> (jstring \<Rightarrow> live_lane option) \<Rightarrow> bool" where
  "lanes_ok s M \<longleftrightarrow>
     (\<forall>n l. M n = Some l \<longrightarrow> lane_ok (value_at s) (entry_in s) (id_used s) n l) \<and>
     (\<forall>n l n' l'. M n = Some l \<longrightarrow> M n' = Some l' \<longrightarrow> n \<noteq> n' \<longrightarrow> claims n l \<inter> claims n' l' = {}) \<and>
     (\<forall>n. M n = None \<longrightarrow> vacant s n)"

definition harness_ok :: "('s \<Rightarrow> storage_state) \<Rightarrow> ('s \<Rightarrow> bool) \<Rightarrow> 's harness \<Rightarrow> bool" where
  "harness_ok view ready h \<longleftrightarrow>
     (hn_closed h = None \<longrightarrow> ready (se_storage (hn_session h)) \<and> lanes_ok (view (se_storage (hn_session h))) (lane_map h))"

definition unclaimed :: "(jstring \<Rightarrow> live_lane option) \<Rightarrow> jstring \<Rightarrow> bool" where
  "unclaimed M i \<longleftrightarrow> (\<forall>n l. M n = Some l \<longrightarrow> current_id l \<noteq> Some i \<and> i \<notin> inbox_ids l)"

definition fresh_addrs :: "jstring set \<Rightarrow> (jstring \<times> jstring) set" where
  "fresh_addrs F = {(ns, i). ns \<in> {ns_meta, ns_operation, ns_pending} \<and> i \<in> F}"

definition free_addrs :: "(jstring \<times> jstring) set" where
  "free_addrs = {(ns, k). ns \<notin> {ns_tip, ns_config, ns_state, ns_meta, ns_operation, ns_pending}}"

definition local_ok :: "storage_state \<Rightarrow> jstring set \<Rightarrow> jstring \<Rightarrow> live_lane \<Rightarrow> store_write list \<Rightarrow> live_lane \<Rightarrow> bool" where
  "local_ok s F name cur ws next \<longleftrightarrow>
     lane_ok (apply_values ws (value_at s)) (\<lambda>i. entry_in s i \<or> i \<in> set (new_entry_ids ws)) (\<lambda>i. id_used s i \<or> i \<in> set (new_ids ws)) name next \<and>
     touched ws \<subseteq> claims name cur \<union> fresh_addrs F \<union> free_addrs \<and>
     claims name next \<subseteq> claims name cur \<union> fresh_addrs F \<and>
     set (new_ids ws) \<subseteq> inbox_ids cur \<union> F"

lemma claims_free [simp]: "claims n l \<inter> free_addrs = {}"
  by (auto simp: claims_def free_addrs_def split: option.splits)

lemma claims_fresh: "unclaimed M i \<Longrightarrow> M n = Some l \<Longrightarrow> i \<in> F' \<Longrightarrow> (ns, i) \<in> claims n l \<Longrightarrow> ns \<in> {ns_tip, ns_config, ns_state}"
  by (auto simp: unclaimed_def claims_def split: option.splits)

lemma claims_fresh_disjoint: "\<forall>i\<in>F. unclaimed M i \<Longrightarrow> M n = Some l \<Longrightarrow> claims n l \<inter> fresh_addrs F = {}"
  by (auto simp: unclaimed_def claims_def fresh_addrs_def split: option.splits)

text \<open>
  A commit that writes for one lane, within addresses \<open>C\<close> that no other lane relies on, keeps the other lanes.
\<close>

lemma lanes_ok_update:
  assumes s: "storage_reachable s" "lanes_ok s M" and job: "commit_job s ws now = (s', Inr r)"
    and C: "\<And>n l. M n = Some l \<Longrightarrow> n \<noteq> name \<Longrightarrow> claims n l \<inter> C = {}" "\<And>n ns. n \<noteq> name \<Longrightarrow> ns \<in> {ns_tip, ns_config, ns_state} \<Longrightarrow> (ns, n) \<notin> C"
    and ws: "touched ws \<subseteq> C \<union> free_addrs" "Pair ns_pending ` set (new_ids ws) \<subseteq> C"
    and nx: "claims name next \<subseteq> C" "lane_ok (value_at s') (entry_in s') (id_used s') name next"
  shows "lanes_ok s' (M(name \<mapsto> next))"
proof -
  note eff = commit_effect [OF s(1) job]
  have other: "lane_ok (value_at s') (entry_in s') (id_used s') n l" if n: "M n = Some l" "n \<noteq> name" for n l
  proof (rule lane_ok_frame)
    show "lane_ok (value_at s) (entry_in s) (id_used s) n l" using s(2) n(1) by (simp add: lanes_ok_def)
    fix p assume "p \<in> claims n l"
    with C(1) [OF n] claims_free [of n l] ws(1) have "p \<notin> touched ws" by blast
    then show "value_at s' p = value_at s p" by (simp add: eff(1) apply_values_untouched)
  next
    fix i assume i: "i \<in> inbox_ids l" "id_used s' i"
    have "(ns_pending, i) \<in> claims n l" using i(1) by (simp add: claims_def)
    with C(1) [OF n] ws(2) have "i \<notin> set (new_ids ws)" by blast
    with i(2) show "id_used s i" by (simp add: eff(3))
  qed (simp add: eff(2))
  have apart: "claims n l \<inter> claims name next = {}" if "M n = Some l" "n \<noteq> name" for n l
    using C(1) [OF that] nx(1) by blast
  have absent: "vacant s' n" if "M n = None" "n \<noteq> name" for n
  proof -
    have "(ns, n) \<notin> touched ws" if "ns \<in> {ns_tip, ns_config, ns_state}" for ns
      using C(2) [OF \<open>n \<noteq> name\<close> that] ws(1) that by (auto simp: free_addrs_def)
    then have V: "value_at s' (ns, n) = value_at s (ns, n)" if "ns \<in> {ns_tip, ns_config, ns_state}" for ns
      using that by (simp add: eff(1) apply_values_untouched)
    have "vacant s n" using s(2) \<open>M n = None\<close> by (simp add: lanes_ok_def)
    moreover have "entry_in s i \<Longrightarrow> entry_in s' i" for i by (simp add: eff(2))
    ultimately show ?thesis unfolding vacant_def using V by simp blast
  qed
  show ?thesis
    unfolding lanes_ok_def
  proof (intro conjI allI impI)
    fix n l assume "(M(name \<mapsto> next)) n = Some l"
    then show "lane_ok (value_at s') (entry_in s') (id_used s') n l" using nx(2) other by (cases "n = name") auto
  next
    fix n l n' l' assume h: "(M(name \<mapsto> next)) n = Some l" "(M(name \<mapsto> next)) n' = Some l'" "n \<noteq> n'"
    consider "n = name" "n' \<noteq> name" | "n \<noteq> name" "n' = name" | "n \<noteq> name" "n' \<noteq> name" using h(3) by blast
    then show "claims n l \<inter> claims n' l' = {}"
    proof cases
      case 1
      then show ?thesis using apart [of n' l'] h(1,2) by (simp add: Int_commute)
    next
      case 2
      then show ?thesis using apart [of n l] h(1,2) by simp
    next
      case 3
      then show ?thesis using s(2) h unfolding lanes_ok_def by (metis fun_upd_other)
    qed
  next
    fix n assume "(M(name \<mapsto> next)) n = None"
    then have "M n = None" "n \<noteq> name" by (auto split: if_splits)
    from absent [OF this] show "vacant s' n" .
  qed
qed

lemma lanes_ok_commit:
  assumes s: "storage_reachable s" "lanes_ok s M" "M name = Some cur" and F: "\<forall>i\<in>F. unclaimed M i"
    and job: "commit_job s ws now = (s', Inr r)" and l: "local_ok s F name cur ws next"
  shows "lanes_ok s' (M(name \<mapsto> next))"
proof (rule lanes_ok_update [OF s(1,2) job, where C = "claims name cur \<union> fresh_addrs F"])
  fix n m assume n: "M n = Some m" "n \<noteq> name"
  have "claims n m \<inter> claims name cur = {}" using s(2,3) n unfolding lanes_ok_def by blast
  moreover have "claims n m \<inter> fresh_addrs F = {}" by (rule claims_fresh_disjoint [OF F n(1)])
  ultimately show "claims n m \<inter> (claims name cur \<union> fresh_addrs F) = {}" by blast
next
  show "Pair ns_pending ` set (new_ids ws) \<subseteq> claims name cur \<union> fresh_addrs F"
    using l unfolding local_ok_def claims_def fresh_addrs_def by blast
  have "entry_in s' = (\<lambda>i. entry_in s i \<or> i \<in> set (new_entry_ids ws))" "id_used s' = (\<lambda>i. id_used s i \<or> i \<in> set (new_ids ws))"
    using commit_effect(2,3) [OF s(1) job] by blast+
  with l show "lane_ok (value_at s') (entry_in s') (id_used s') name next" by (simp add: local_ok_def commit_effect(1) [OF s(1) job])
  show "touched ws \<subseteq> claims name cur \<union> fresh_addrs F \<union> free_addrs" "claims name next \<subseteq> claims name cur \<union> fresh_addrs F"
    using l unfolding local_ok_def by blast+
  show "(ns, n) \<notin> claims name cur \<union> fresh_addrs F" if "n \<noteq> name" "ns \<in> {ns_tip, ns_config, ns_state}" for n ns
    using that by (auto simp: claims_def fresh_addrs_def split: option.splits)
qed

section \<open>Commands keep the invariant\<close>

lemma lane_map_update_lane:
  "map_of (hn_lanes h) name = Some ln \<Longrightarrow> lane_map (update_lane name f h) = (lane_map h)(name \<mapsto> ln_state (f ln))"
  by (auto simp: lane_map_def update_lane_def)

lemma harness_fields [simp]:
  "lane_map (emit es h) = lane_map h" "hn_session (emit es h) = hn_session h" "hn_closed (emit es h) = hn_closed h"
  "hn_session (update_lane name f h) = hn_session h" "hn_closed (update_lane name f h) = hn_closed h"
  "lane_map (h\<lparr>hn_session := se\<rparr>) = lane_map h" "lane_map (h\<lparr>hn_closed := c\<rparr>) = lane_map h"
  by (simp_all add: lane_map_def emit_def update_lane_def fun_eq_iff split: option.splits)

lemma fault_closed: "hn_closed (fst (fault e h)) \<noteq> None"
  by (auto simp: fault_def split: option.splits)

lemma harness_ok_fault [simp]: "harness_ok view ready (fst (fault e h))"
  using fault_closed [of e h] by (auto simp: harness_ok_def)

context session_storage
begin

lemma reader [simp]: "ready st \<Longrightarrow> mutation_getValue ops (new_mutation st) a = Inr (getValue (view st) a)"
  "ready st \<Longrightarrow> mutation_getEntries ops (new_mutation st) ids = Inr (getEntries (view st) ids)"
  "ready st \<Longrightarrow> mutation_scanBranch ops (new_mutation st) q = scanBranch (view st) q"
  by (simp_all add: mutation_getValue_def mutation_getEntries_def mutation_scanBranch_def new_mutation_def getValue_ok getEntries_ok scanBranch_ok)

lemma read_value: "ready st \<Longrightarrow> typed f (getValue (view st) a) = Option.bind (value_at (view st) (a_namespace a, a_key a)) f"
  unfolding value_at_def getValue_abs [symmetric] by (cases "getValue (view st) a") (simp_all add: typed_def)

lemma read_typed_value:
  "ready st \<Longrightarrow> valid_address ns k \<Longrightarrow>
     read_typed ops (new_mutation st) f (value_address ns k) = Inr (Option.bind (value_at (view st) (ns, k)) f)"
  by (simp add: read_typed_def value_address_valid read_value)

lemma run_decision_ready:
  assumes "ready st" "run_decision ops (new_mutation st) now d = (m, Inr out)"
  shows "ready (mu_storage m) \<and>
    (case d of
       Inr (CommitCmd ws next mat ev) \<Rightarrow> (\<exists>r. commit_job (view st) ws now = (view (mu_storage m), Inr r) \<and> out = Committed next (ev r) (mat r))
     | Inr (ReturnCmd r) \<Rightarrow> m = new_mutation st \<and> out = Returned r
     | Inr (RejectCmd e) \<Rightarrow> m = new_mutation st \<and> out = Rejected e
     | Inl e \<Rightarrow> False)"
proof (cases d)
  case (Inr c)
  show ?thesis
  proof (cases c)
    case (CommitCmd ws nx mat ev)
    then obtain r where r: "mutation_commit ops (new_mutation st) ws now = (m, Inr r)" "out = Committed nx (ev r) (mat r)"
      using assms(2) Inr by (auto simp: run_decision_def split: prod.splits sum.splits)
    from commit_ok [OF assms(1) mutation_commit_new [OF r(1)]] r(2) show ?thesis by (auto simp: Inr CommitCmd)
  qed (use assms Inr in \<open>auto simp: run_decision_def new_mutation_def\<close>)
qed (use assms in \<open>simp add: run_decision_def\<close>)

lemma command_ok:
  assumes ok: "harness_ok view ready h" and F: "\<forall>i\<in>F. unclaimed (lane_map h) i"
    and plan: "\<And>l ws next mat ev. lane_map h name = Some l \<Longrightarrow> hn_closed h = None \<Longrightarrow>
      plan l (new_mutation (se_storage (hn_session h))) = Inr (CommitCmd ws next mat ev) \<Longrightarrow>
      local_ok (view (se_storage (hn_session h))) F name l ws next"
  shows "harness_ok view ready (fst (command ops name now plan h))"
proof (cases "hn_closed h = None \<and> se_state (hn_session h) = IsOpen \<and> (\<exists>ln. map_of (hn_lanes h) name = Some ln \<and> \<not> ln_idleOwner ln)")
  case False
  then show ?thesis using ok by (auto simp: command_def assertOpen_def split: option.splits)
next
  case True
  then obtain ln where ln: "map_of (hn_lanes h) name = Some ln" "\<not> ln_idleOwner ln" and cl: "hn_closed h = None" and op: "se_state (hn_session h) = IsOpen"
    by blast
  let ?st = "se_storage (hn_session h)"
  have st: "ready ?st" "lanes_ok (view ?st) (lane_map h)" using ok cl by (simp_all add: harness_ok_def)
  obtain m out where run: "run_decision ops (new_mutation ?st) now (plan (ln_state ln) (new_mutation ?st)) = (m, out)" by fastforce
  let ?se = "(hn_session h)\<lparr>se_storage := mu_storage m\<rparr>"
  have mut: "mutate (hn_session h) (\<lambda>m. run_decision ops m now (plan (ln_state ln) m)) = (?se, out)"
    using op run by (simp add: mutate_def assertOpen_def mutation_end_def)
  note cmd = command_def cl ln mut op assertOpen_def
  show ?thesis
  proof (cases out)
    case (Inl e)
    then show ?thesis by (simp add: cmd case_prod_beta)
  next
    case (Inr x)
    note rd = run_decision_ready [OF st(1) run [unfolded Inr]]
    then obtain d where d: "plan (ln_state ln) (new_mutation ?st) = Inr d" by (auto split: sum.splits)
    show ?thesis
    proof (cases d)
      case (CommitCmd ws nx mat ev)
      from rd [unfolded d CommitCmd] obtain r where r: "ready (mu_storage m)" "commit_job (view ?st) ws now = (view (mu_storage m), Inr r)"
          "x = Committed nx (ev r) (mat r)" by auto
      have l: "lane_map h name = Some (ln_state ln)" by (simp add: lane_map_def ln)
      have "lanes_ok (view (mu_storage m)) ((lane_map h)(name \<mapsto> nx))"
        using lanes_ok_commit [OF view_reachable [OF st(1)] st(2) l F r(2)] plan [OF l cl] d CommitCmd by blast
      then show ?thesis
        using r(1) ln by (simp add: cmd Inr r(3) harness_ok_def lane_map_update_lane)
    qed (use rd d st in \<open>auto simp: cmd Inr harness_ok_def new_mutation_def\<close>)
  qed
qed

end

end
