(* ===== verification/Lane_Planners.thy ===== *)
theory Lane_Planners
  imports Lane_Invariant
begin

text \<open>
  Every planner of a lane reads what the invariant promises, so it never throws, and decides on writes that store exactly the state it
  publishes and that the storage accepts.
\<close>

section \<open>Good decisions\<close>

definition decision_ok :: "storage_state \<Rightarrow> jstring set \<Rightarrow> jstring \<Rightarrow> live_lane \<Rightarrow> 'r lane_command \<Rightarrow> bool" where
  "decision_ok s F name cur d \<longleftrightarrow>
     (case d of
        CommitCmd ws next mat ev \<Rightarrow> local_ok s F name cur ws next \<and> commit_fits s ws \<and> \<not> (\<exists>w\<in>set ws. pending_assistant_write w)
      | _ \<Rightarrow> True)"

definition plan_ok :: "storage_state \<Rightarrow> jstring set \<Rightarrow> jstring \<Rightarrow> live_lane \<Rightarrow> (session_error, 'r lane_command) res \<Rightarrow> bool" where
  "plan_ok s F name cur r \<longleftrightarrow> (\<exists>d. r = Inr d \<and> decision_ok s F name cur d)"

lemma plan_ok_return [simp]: "plan_ok s F name cur (Inr (ReturnCmd r))" "plan_ok s F name cur (Inr (RejectCmd e))"
  by (simp_all add: plan_ok_def decision_ok_def)

lemma plan_ok_commit:
  assumes "local_ok s F name cur ws nx" "commit_fits s ws" "\<And>w. w \<in> set ws \<Longrightarrow> \<not> pending_assistant_write w"
  shows "plan_ok s F name cur (Inr (CommitCmd ws nx mat ev))"
  using assms by (auto simp: plan_ok_def decision_ok_def)

lemma plan_ok_local: "plan_ok s F name cur (Inr (CommitCmd ws nx mat ev)) \<Longrightarrow> local_ok s F name cur ws nx"
  by (simp add: plan_ok_def decision_ok_def)

abbreviation lane_in :: "storage_state \<Rightarrow> jstring \<Rightarrow> live_lane \<Rightarrow> bool" where
  "lane_in s \<equiv> lane_ok (value_at s) (entry_in s) (id_used s)"

section \<open>Addresses\<close>

lemma valid_ns [simp]:
  "valid_address ns_tip k \<longleftrightarrow> 0 \<notin> set k" "valid_address ns_config k \<longleftrightarrow> 0 \<notin> set k" "valid_address ns_state k \<longleftrightarrow> 0 \<notin> set k"
  "valid_address ns_meta k \<longleftrightarrow> 0 \<notin> set k" "valid_address ns_operation k \<longleftrightarrow> 0 \<notin> set k" "valid_address ns_pending k \<longleftrightarrow> 0 \<notin> set k"
  "valid_address (js ''phi.result'') k \<longleftrightarrow> 0 \<notin> set k" "valid_address (js ''phi.op.preparation'') k \<longleftrightarrow> 0 \<notin> set k"
  by (auto simp: valid_address_def js_nonzero)

lemma address_at:
  "0 \<notin> set k \<Longrightarrow> branchTip k = Inr \<lparr>a_namespace = ns_tip, a_key = k, a_kind = AValue\<rparr>"
  "0 \<notin> set k \<Longrightarrow> laneConfig k = Inr \<lparr>a_namespace = ns_config, a_key = k, a_kind = AValue\<rparr>"
  "0 \<notin> set k \<Longrightarrow> laneState k = Inr \<lparr>a_namespace = ns_state, a_key = k, a_kind = AValue\<rparr>"
  "0 \<notin> set k \<Longrightarrow> operationMeta k = Inr \<lparr>a_namespace = ns_meta, a_key = k, a_kind = AValue\<rparr>"
  "0 \<notin> set k \<Longrightarrow> operationState k = Inr \<lparr>a_namespace = ns_operation, a_key = k, a_kind = AValue\<rparr>"
  "0 \<notin> set k \<Longrightarrow> pendingEntry k = Inr \<lparr>a_namespace = ns_pending, a_key = k, a_kind = AValue\<rparr>"
  "0 \<notin> set k \<Longrightarrow> operationResult k = Inr \<lparr>a_namespace = js ''phi.result'', a_key = k, a_kind = AValue\<rparr>"
  "0 \<notin> set k \<Longrightarrow> 0 \<notin> set t \<Longrightarrow>
     operationPreparation k t = Inr \<lparr>a_namespace = js ''phi.op.preparation'', a_key = k @ colon @ t, a_kind = AValue\<rparr>"
  by (simp_all add: branchTip_def laneConfig_def laneState_def operationMeta_def operationState_def pendingEntry_def operationResult_def
      operationPreparation_def value_address_valid colon_def js_nonzero)

lemmas write_simps = setValue_def deleteValue_def

lemma value_writes_plain:
  "\<not> pending_assistant_write (WValueSet ns k v)" "\<not> pending_assistant_write (WValueDelete ns k)" "\<not> pending_assistant_write (WUsage r)"
  by (simp_all add: pending_assistant_write_def)

lemma parents_before_simps [simp]:
  "parents_before ek []" "parents_before ek (WValueSet ns k v # ws) \<longleftrightarrow> parents_before ek ws"
  "parents_before ek (WValueDelete ns k # ws) \<longleftrightarrow> parents_before ek ws" "parents_before ek (WUsage r # ws) \<longleftrightarrow> parents_before ek ws"
  by (simp_all add: parents_before_Cons) (simp add: parents_before_def)

lemma lane_okD:
  assumes "lane_ok V E K name l"
  shows "0 \<notin> set name" "\<forall>item\<in>set (ll_inbox l). item_ok V K item" "distinct (map ii_entryId (ll_inbox l))"
    "\<And>t. ll_tipId l = Some t \<Longrightarrow> E t" "\<And>op. ll_operation l = Some op \<Longrightarrow> operation_ok V name op"
  using assms by (simp_all add: lane_ok_def)

section \<open>The queue\<close>

definition payload :: "values_view \<Rightarrow> inbox_item \<Rightarrow> pending_entry" where
  "payload V item = (case V (ns_pending, ii_entryId item) of Some (SPending p) \<Rightarrow> p | _ \<Rightarrow> PendingCustom [] None)"

lemma item_payload:
  assumes "item_ok V K item"
  shows "V (ns_pending, ii_entryId item) = Some (SPending (payload V item))" "\<not> pending_assistant (payload V item)"
    "ii_kind item \<noteq> WriteItem \<Longrightarrow> \<exists>m. payload V item = PendingMessage m" "0 \<notin> set (ii_entryId item)" "\<not> K (ii_entryId item)"
  using assms by (auto simp: item_ok_def payload_def)

definition pending_deletes :: "inbox_item list \<Rightarrow> store_write list" where
  "pending_deletes items = map (\<lambda>item. WValueDelete ns_pending (ii_entryId item)) items"

lemma delete_pending_ok: "\<forall>item\<in>set items. 0 \<notin> set (ii_entryId item) \<Longrightarrow> delete_pending items = Inr (pending_deletes items)"
  unfolding delete_pending_def pending_deletes_def by (rule read_each_Inr) (simp add: address_at deleteValue_def)

lemma pending_deletes_simps [simp]:
  "new_ids (pending_deletes items) = []" "new_entry_ids (pending_deletes items) = []"
  "touched (pending_deletes items) = Pair ns_pending ` ii_entryId ` set items"
  by (induction items) (auto simp: pending_deletes_def)

lemma apply_pending_deletes:
  "apply_values (pending_deletes items) V p = (if p \<in> Pair ns_pending ` ii_entryId ` set items then None else V p)"
proof (induction items arbitrary: V)
  case (Cons item items)
  then show ?case by (auto simp: pending_deletes_def)
qed (simp add: pending_deletes_def)

lemma pending_deletes_plain: "w \<in> set (pending_deletes items) \<Longrightarrow> \<exists>k. w = WValueDelete ns_pending k"
  by (auto simp: pending_deletes_def)

context session_storage
begin

lemma read_pending:
  assumes "ready st" "item_ok (value_at (view st)) K item"
  shows "read_typed ops (new_mutation st) as_pending (pendingEntry (ii_entryId item)) = Inr (Some (payload (value_at (view st)) item))"
  using item_payload [OF assms(2)] assms(1) by (simp add: pendingEntry_def read_typed_value)

lemma queues_ok:
  assumes "ready st" "\<forall>item\<in>set items. item_ok (value_at (view st)) K item"
  shows "\<exists>qs. readLaneQueues ops (new_mutation st) items = Inr qs"
proof -
  let ?q = "\<lambda>item. case payload (value_at (view st)) item of
      PendingMessage m \<Rightarrow> QueuedMessage (ii_entryId item) (ii_kind item) m | PendingCustom t d \<Rightarrow> QueuedCustom (ii_entryId item) t d"
  have "read_queued ops (new_mutation st) item = Inr (?q item)" if "item \<in> set items" for item
  proof -
    have ok: "item_ok (value_at (view st)) K item" using assms(2) that by blast
    show ?thesis
      using item_payload(3) [OF ok]
      by (cases "ii_kind item = WriteItem") (auto simp: read_queued_def read_pending [OF assms(1) ok] split: pending_entry.splits)
  qed
  then have "read_each (read_queued ops (new_mutation st)) items = Inr (map ?q items)" by (rule read_each_Inr)
  then show ?thesis by (simp add: readLaneQueues_def)
qed

lemma captured_ok:
  assumes "ready st" "\<forall>item\<in>set items. item_ok (value_at (view st)) K item"
  shows "read_each (capture_item ops (new_mutation st)) items = Inr (map (\<lambda>item. (item, payload (value_at (view st)) item)) items)"
    and "read_each (capture_write ops (new_mutation st)) items = Inr (map (\<lambda>item. pendingEntryWrite (ii_entryId item) (payload (value_at (view st)) item)) items)"
proof -
  have "capture_item ops (new_mutation st) item = Inr (item, payload (value_at (view st)) item)"
    "capture_write ops (new_mutation st) item = Inr (pendingEntryWrite (ii_entryId item) (payload (value_at (view st)) item))" if "item \<in> set items" for item
  proof -
    have ok: "item_ok (value_at (view st)) K item" using assms(2) that by blast
    show "capture_item ops (new_mutation st) item = Inr (item, payload (value_at (view st)) item)"
      using item_payload(2,3) [OF ok]
      by (cases "ii_kind item = WriteItem") (auto simp: capture_item_def read_pending [OF assms(1) ok] split: pending_entry.splits)
    show "capture_write ops (new_mutation st) item = Inr (pendingEntryWrite (ii_entryId item) (payload (value_at (view st)) item))"
      by (simp add: capture_write_def read_pending [OF assms(1) ok])
  qed
  note each = this
  show "read_each (capture_item ops (new_mutation st)) items = Inr (map (\<lambda>item. (item, payload (value_at (view st)) item)) items)"
    by (rule read_each_Inr) (rule each(1))
  show "read_each (capture_write ops (new_mutation st)) items = Inr (map (\<lambda>item. pendingEntryWrite (ii_entryId item) (payload (value_at (view st)) item)) items)"
    by (rule read_each_Inr) (rule each(2))
qed

end

section \<open>Lanes after the writes\<close>

lemma current_id_simps [simp]:
  "current_id (l\<lparr>ll_tipId := t\<rparr>) = current_id l" "current_id (l\<lparr>ll_configuration := c\<rparr>) = current_id l" "current_id (l\<lparr>ll_inbox := i\<rparr>) = current_id l"
  "current_id (l\<lparr>ll_operation := Some op\<rparr>) = Some (om_operationId (op_meta op))" "current_id (l\<lparr>ll_operation := None\<rparr>) = None"
  "inbox_ids (l\<lparr>ll_tipId := t\<rparr>) = inbox_ids l" "inbox_ids (l\<lparr>ll_configuration := c\<rparr>) = inbox_ids l" "inbox_ids (l\<lparr>ll_operation := x\<rparr>) = inbox_ids l"
  "inbox_ids (l\<lparr>ll_inbox := i\<rparr>) = ii_entryId ` set i"
  by (simp_all add: current_id_def inbox_ids_def)

lemma item_ok_frame:
  "item_ok V K item \<Longrightarrow> V' (ns_pending, ii_entryId item) = V (ns_pending, ii_entryId item) \<Longrightarrow> (K' (ii_entryId item) \<Longrightarrow> K (ii_entryId item)) \<Longrightarrow>
     item_ok V' K' item"
  by (auto simp: item_ok_def)

text \<open>The queue grows by one item whose payload is written with it.\<close>

lemma plan_ok_queue:
  assumes l: "lane_in s name l" and i: "0 \<notin> set i" "\<not> id_used s i" "i \<notin> inbox_ids l" and p: "\<not> pending_assistant p"
    "kind \<noteq> WriteItem \<Longrightarrow> \<exists>m. p = PendingMessage m"
  shows "plan_ok s {i} name l (Inr (CommitCmd
    [WValueSet ns_pending i (SPending p), WValueSet ns_state name (SLane (durableLaneState l (current_id l) (ll_inbox l @ [\<lparr>ii_entryId = i, ii_kind = kind\<rparr>])))]
    (l\<lparr>ll_inbox := ll_inbox l @ [\<lparr>ii_entryId = i, ii_kind = kind\<rparr>]\<rparr>) mat ev))" (is "plan_ok s _ name l (Inr (CommitCmd ?ws ?nx _ _))")
proof (rule plan_ok_commit)
  let ?V = "apply_values ?ws (value_at s)"
  have "lane_ok ?V (entry_in s) (id_used s) name ?nx"
  proof -
    have "item_ok ?V (id_used s) item" if "item \<in> set (ll_inbox l)" for item
      by (rule item_ok_frame [where V = "value_at s" and K = "id_used s"])
        (use l that i(3) in \<open>auto simp: lane_ok_def inbox_ids_def\<close>)
    moreover have "item_ok ?V (id_used s) \<lparr>ii_entryId = i, ii_kind = kind\<rparr>" using i p by (simp add: item_ok_def)
    moreover have "operation_ok ?V name op" if "ll_operation l = Some op" for op
      using l that by (simp add: lane_ok_def operation_ok_def)
    ultimately show ?thesis
      using l i(3) by (auto simp: lane_ok_def durableLaneState_def inbox_ids_def)
  qed
  then show "local_ok s {i} name l ?ws ?nx"
    by (auto simp: local_ok_def claims_def fresh_addrs_def inbox_ids_def split: option.splits)
  show "commit_fits s ?ws" using lane_okD(1) [OF l] i(1) by (simp add: commit_fits_def)
qed (auto simp: value_writes_plain)

context session_storage
begin

lemma plan_enqueue_ok:
  assumes "ready st" "lane_in (view st) name l" "0 \<notin> set i" "\<not> id_used (view st) i" "i \<notin> inbox_ids l" "\<not> stops_with StopPending message"
  shows "plan_ok (view st) {i} name l (plan_enqueue ops name i kind message l (new_mutation st))"
proof -
  obtain qs where qs: "readLaneQueues ops (new_mutation st) (ll_inbox l) = Inr qs"
    using queues_ok [OF assms(1) lane_okD(2) [OF assms(2)]] by blast
  have "0 \<notin> set name" by (rule lane_okD [OF assms(2)])
  with qs assms(3) plan_ok_queue [OF assms(2-5), of "PendingMessage message" kind] assms(6) show ?thesis
    by (simp add: plan_enqueue_def address_at write_simps pending_assistant_def Let_def)
qed

end

section \<open>Consuming the queue\<close>

text \<open>
  Selected items become entries of the branch, in front of new ones; their payloads are deleted and the tip moves to the last entry.
  An operation may start in the same commit.
\<close>

definition start_writes :: "operation option \<Rightarrow> store_write list" where
  "start_writes op =
     (case op of None \<Rightarrow> []
      | Some op \<Rightarrow> [WValueSet ns_meta (om_operationId (op_meta op)) (SMeta (op_meta op)),
          WValueSet ns_operation (om_operationId (op_meta op)) (SOperation (op_state op))])"

definition started_ids :: "operation option \<Rightarrow> jstring set" where
  "started_ids op = (case op of None \<Rightarrow> {} | Some op \<Rightarrow> {om_operationId (op_meta op)})"

definition start_ok :: "jstring \<Rightarrow> operation option \<Rightarrow> bool" where
  "start_ok name op =
     (case op of None \<Rightarrow> True
      | Some op \<Rightarrow> 0 \<notin> set (om_operationId (op_meta op)) \<and> om_lane (op_meta op) = name \<and> stateMatchesIntent (om_intent (op_meta op)) (op_state op))"

lemma start_writes_simps [simp]:
  "new_ids (start_writes op) = []" "new_entry_ids (start_writes op) = []"
  "touched (start_writes op) = {ns_meta, ns_operation} \<times> started_ids op"
  by (auto simp: start_writes_def started_ids_def split: option.splits)

lemma apply_start_writes:
  "ns \<noteq> ns_meta \<Longrightarrow> ns \<noteq> ns_operation \<Longrightarrow> apply_values (start_writes op) V (ns, k) = V (ns, k)"
  "start_ok name (Some op') \<Longrightarrow> operation_ok (apply_values (start_writes (Some op')) V) name op'"
  by (auto simp: start_writes_def operation_ok_def start_ok_def split: option.splits)

lemma value_writes: "w \<in> set (pending_deletes sel @ WValueSet a b c # start_writes op @ [WValueSet d e f]) \<Longrightarrow>
    \<exists>ns k v. w = WValueSet ns k v \<or> w = WValueDelete ns k"
  by (auto simp: pending_deletes_def start_writes_def split: option.splits)

lemma operation_ok_cong:
  "operation_ok V name op \<Longrightarrow> (\<And>k. V' (ns_meta, k) = V (ns_meta, k)) \<Longrightarrow> (\<And>k. V' (ns_operation, k) = V (ns_operation, k)) \<Longrightarrow> operation_ok V' name op"
  by (simp add: operation_ok_def)

definition consume_writes :: "jstring \<Rightarrow> live_lane \<Rightarrow> inbox_item list \<Rightarrow> inbox_item list \<Rightarrow> new_entry list \<Rightarrow> operation option \<Rightarrow> store_write list" where
  "consume_writes name l sel rest es op =
     map insertEntry (chainEntries (ll_tipId l) es) @ pending_deletes sel @
     WValueSet ns_tip name (STip (Some (ne_id (last es)))) # start_writes op @
     [WValueSet ns_state name (SLane (durableLaneState l (map_option (\<lambda>op. om_operationId (op_meta op)) op) rest))]"

definition consumed :: "live_lane \<Rightarrow> inbox_item list \<Rightarrow> new_entry list \<Rightarrow> operation option \<Rightarrow> live_lane" where
  "consumed l rest es op = l\<lparr>ll_tipId := Some (ne_id (last es)), ll_inbox := rest, ll_operation := op\<rparr>"

definition consume_ok ::
  "storage_state \<Rightarrow> jstring \<Rightarrow> live_lane \<Rightarrow> inbox_item list \<Rightarrow> inbox_item list \<Rightarrow> new_entry list \<Rightarrow> jstring list \<Rightarrow> operation option \<Rightarrow> bool" where
  "consume_ok s name l sel rest es xs op \<longleftrightarrow>
     lane_in s name l \<and> mset sel + mset rest = mset (ll_inbox l) \<and>
     map ne_id es = map ii_entryId sel @ xs \<and> es \<noteq> [] \<and> distinct xs \<and> (\<forall>x\<in>set xs. \<not> id_used s x \<and> x \<notin> inbox_ids l) \<and>
     (\<forall>e\<in>set es. \<not> (case ne_body e of MessageBody m _ \<Rightarrow> stops_with StopPending m | _ \<Rightarrow> False)) \<and>
     ll_operation l = None \<and> start_ok name op"

lemma split_items:
  assumes "mset sel + mset rest = mset inbox" "distinct (map ii_entryId inbox)"
  shows "distinct (map ii_entryId sel)" "distinct (map ii_entryId rest)" "set (map ii_entryId sel) \<inter> set (map ii_entryId rest) = {}"
    "set sel \<subseteq> set inbox" "set rest \<subseteq> set inbox"
proof -
  have "mset (map ii_entryId (sel @ rest)) = mset (map ii_entryId inbox)" using assms(1) by (metis mset_append mset_map)
  then have "distinct (map ii_entryId (sel @ rest))" using assms(2) by (metis mset_eq_imp_distinct_iff)
  then show "distinct (map ii_entryId sel)" "distinct (map ii_entryId rest)" "set (map ii_entryId sel) \<inter> set (map ii_entryId rest) = {}" by auto
  have "set (sel @ rest) = set inbox" using assms(1) by (metis mset_append set_mset_mset)
  then show "set sel \<subseteq> set inbox" "set rest \<subseteq> set inbox" by auto
qed

lemma consume_values:
  "apply_values (consume_writes name l sel rest es op) V (ns_tip, name) = Some (STip (Some (ne_id (last es))))"
  "apply_values (consume_writes name l sel rest es op) V (ns_config, name) = V (ns_config, name)"
  "apply_values (consume_writes name l sel rest es op) V (ns_state, name) =
     Some (SLane (durableLaneState l (map_option (\<lambda>op. om_operationId (op_meta op)) op) rest))"
  "i \<notin> ii_entryId ` set sel \<Longrightarrow> apply_values (consume_writes name l sel rest es op) V (ns_pending, i) = V (ns_pending, i)"
  "start_ok name (Some x) \<Longrightarrow> operation_ok (apply_values (consume_writes name l sel rest es (Some x)) V) name x"
  by (auto simp: consume_writes_def apply_values_append apply_pending_deletes start_writes_def operation_ok_def start_ok_def split: option.splits)

lemma consume_ids:
  assumes "map ne_id es = map ii_entryId sel @ xs"
  shows "new_ids (consume_writes name l sel rest es op) = map ii_entryId sel @ xs"
    "new_entry_ids (consume_writes name l sel rest es op) = map ii_entryId sel @ xs"
    "touched (consume_writes name l sel rest es op) =
       Pair ns_pending ` ii_entryId ` set sel \<union> {(ns_tip, name), (ns_state, name)} \<union> {ns_meta, ns_operation} \<times> started_ids op"
  by (auto simp: consume_writes_def assms)

lemma chain_bodies: "map ne_body (chainEntries p es) = map ne_body es"
  by (induction es arbitrary: p) simp_all

lemma consume_plain:
  assumes "\<forall>e\<in>set es. \<not> (case ne_body e of MessageBody m _ \<Rightarrow> stops_with StopPending m | _ \<Rightarrow> False)" "w \<in> set (consume_writes name l sel rest es op)"
  shows "\<not> pending_assistant_write w"
proof -
  have "\<not> pending_assistant_write (WEntry e)" if "e \<in> set (chainEntries (ll_tipId l) es)" for e
  proof -
    from that have "ne_body e \<in> set (map ne_body (chainEntries (ll_tipId l) es))" by simp
    then have "ne_body e \<in> set (map ne_body es)" by (simp only: chain_bodies)
    with assms(1) show ?thesis by (auto simp: pending_assistant_write_def)
  qed
  with assms(2) show ?thesis
    by (auto simp: consume_writes_def insertEntry_def pending_deletes_def start_writes_def value_writes_plain split: option.splits)
qed

lemma plan_ok_consume:
  assumes "consume_ok s name l sel rest es xs op"
  shows "plan_ok s (set xs \<union> started_ids op) name l (Inr (CommitCmd (consume_writes name l sel rest es op) (consumed l rest es op) mat ev))"
proof (rule plan_ok_commit)
  let ?ws = "consume_writes name l sel rest es op"
  have l: "lane_in s name l" and items: "mset sel + mset rest = mset (ll_inbox l)" and ids: "map ne_id es = map ii_entryId sel @ xs" "es \<noteq> []"
      "distinct xs" "\<forall>x\<in>set xs. \<not> id_used s x \<and> x \<notin> inbox_ids l"
    and plain: "\<forall>e\<in>set es. \<not> (case ne_body e of MessageBody m _ \<Rightarrow> stops_with StopPending m | _ \<Rightarrow> False)"
    and op: "ll_operation l = None" "start_ok name op"
    using assms unfolding consume_ok_def by blast+
  note sp = split_items [OF items lane_okD(3) [OF l]] and nid = consume_ids [OF ids(1), of name l rest op]
  have "item_ok (apply_values ?ws (value_at s)) (\<lambda>i. id_used s i \<or> i \<in> set (new_ids ?ws)) item" if "item \<in> set rest" for item
  proof (rule item_ok_frame)
    show "item_ok (value_at s) (id_used s) item" using lane_okD(2) [OF l] sp(5) that by blast
    have n: "ii_entryId item \<notin> ii_entryId ` set sel" using sp(3) that by auto
    then show "apply_values ?ws (value_at s) (ns_pending, ii_entryId item) = value_at s (ns_pending, ii_entryId item)" by (rule consume_values(4))
    have "ii_entryId item \<notin> set xs" using ids(4) sp(5) that by (auto simp: inbox_ids_def)
    with n show "id_used s (ii_entryId item) \<or> ii_entryId item \<in> set (new_ids ?ws) \<Longrightarrow> id_used s (ii_entryId item)" by (simp add: nid)
  qed
  moreover have "operation_ok (apply_values ?ws (value_at s)) name x" if "op = Some x" for x
    using consume_values(5) op(2) that by blast
  moreover have "ne_id (last es) \<in> set (new_entry_ids ?ws)"
    unfolding nid ids(1) [symmetric] using ids(2) by (metis last_in_set last_map list.map_disc_iff)
  ultimately have ok: "lane_ok (apply_values ?ws (value_at s)) (\<lambda>i. entry_in s i \<or> i \<in> set (new_entry_ids ?ws))
      (\<lambda>i. id_used s i \<or> i \<in> set (new_ids ?ws)) name (consumed l rest es op)"
    using l sp(2) unfolding lane_ok_def consume_values by (auto simp: current_id_def durableLaneState_def consumed_def)
  have sel: "\<forall>item\<in>set sel. \<not> id_used s (ii_entryId item) \<and> ii_entryId item \<in> inbox_ids l"
    using lane_okD(2) [OF l] sp(4) by (auto simp: item_ok_def inbox_ids_def)
  have rst: "ii_entryId ` set rest \<subseteq> inbox_ids l" using sp(5) by (auto simp: inbox_ids_def)
  have "claims name (consumed l rest es op) \<subseteq> claims name l \<union> fresh_addrs (set xs \<union> started_ids op)"
    using rst by (auto simp: claims_def consumed_def current_id_def inbox_ids_def fresh_addrs_def started_ids_def split: option.splits)
  moreover have "touched ?ws \<subseteq> claims name l \<union> fresh_addrs (set xs \<union> started_ids op) \<union> free_addrs"
    using sel by (auto simp: nid claims_def fresh_addrs_def)
  moreover have "set (new_ids ?ws) \<subseteq> inbox_ids l \<union> (set xs \<union> started_ids op)" using sel by (auto simp: nid)
  ultimately show "local_ok s (set xs \<union> started_ids op) name l ?ws (consumed l rest es op)" using ok by (simp add: local_ok_def)
  have "distinct (new_ids ?ws)" "\<forall>i\<in>set (new_ids ?ws). \<not> id_used s i" using sel ids(3,4) sp(1) by (auto simp: nid)
  moreover have "parents_before (entry_in s) ?ws"
    unfolding consume_writes_def by (rule parents_before_chain [OF value_writes lane_okD(4) [OF l]])
  moreover have "\<forall>w\<in>set ?ws. write_valid w"
    using lane_okD(1) [OF l] op(2) by (auto simp: consume_writes_def insertEntry_def pending_deletes_def start_writes_def start_ok_def split: option.splits)
  ultimately show "commit_fits s ?ws" by (simp add: commit_fits_def)
qed (use assms consume_plain in \<open>auto simp: consume_ok_def\<close>)

end
