(* ===== verification/Lane_Plans.thy ===== *)
theory Lane_Plans
  imports Lane_Planners
begin

text \<open>
  The planner lemmas: each planner of \<open>Lane_Requests\<close> and \<open>Lane_Control\<close> makes a good decision on a lane that satisfies the invariant.
\<close>

section \<open>Splitting the inbox\<close>

lemma select_inbox_mset: "select_inbox sm fm st ft inbox = (sel, rest) \<Longrightarrow> mset sel + mset rest = mset inbox"
  by (induction inbox arbitrary: st ft sel rest) (auto simp: Let_def split: prod.splits if_splits)

lemma without_items_mset:
  assumes "distinct (map ii_entryId inbox)" "sel = filter P inbox"
  shows "mset sel + mset (withoutInboxItems inbox sel) = mset inbox"
proof -
  have "ii_entryId item \<in> set (map ii_entryId sel) \<longleftrightarrow> P item" if "item \<in> set inbox" for item
    using assms that by (auto simp: distinct_map inj_on_def)
  then have "withoutInboxItems inbox sel = filter (\<lambda>item. \<not> P item) inbox"
    unfolding withoutInboxItems_def by (intro filter_cong) auto
  then show ?thesis by (simp add: assms(2) flip: mset_filter) (metis multiset_partition mset_filter)
qed

lemma find_item_mset:
  assumes "distinct (map ii_entryId inbox)" "List.find (\<lambda>item. ii_entryId item = i) inbox = Some q"
  shows "mset [q] + mset (filter (\<lambda>item. ii_entryId item \<noteq> i) inbox) = mset inbox" "ii_entryId q = i" "q \<in> set inbox"
proof -
  show q: "ii_entryId q = i" "q \<in> set inbox" using assms(2) by (auto simp: find_Some_iff)
  have "filter (\<lambda>item. ii_entryId item = i) inbox = [q]" using assms(1) q
    by (induction inbox) (auto simp: filter_empty_conv image_iff)
  then have "mset [q] = filter_mset (\<lambda>item. ii_entryId item = i) (mset inbox)" by (metis mset_filter)
  then show "mset [q] + mset (filter (\<lambda>item. ii_entryId item \<noteq> i) inbox) = mset inbox"
    using multiset_partition [of "mset inbox" "\<lambda>item. ii_entryId item = i"] by simp
qed

section \<open>Appends and runs\<close>

lemma pending_entry_ids [simp]: "ne_id (pendingEntryWrite i p) = i"
  by (simp add: pendingEntryWrite_def split: pending_entry.splits)

lemma pending_entry_plain:
  "\<not> pending_assistant p \<Longrightarrow> \<not> (case ne_body (pendingEntryWrite i p) of MessageBody m _ \<Rightarrow> stops_with StopPending m | _ \<Rightarrow> False)"
  by (auto simp: pendingEntryWrite_def pending_assistant_def split: pending_entry.splits)

lemma no_operation: "ll_operation l = None \<Longrightarrow> l\<lparr>ll_operation := None\<rparr> = l"
  by (cases l) simp

text \<open>The entries an accepted run puts on the branch: the selected queue items in order, then the prompt.\<close>

definition run_entries :: "values_view \<Rightarrow> inbox_item list \<Rightarrow> (jstring \<times> agent_message) list \<Rightarrow> new_entry list" where
  "run_entries V sel prompt = map (\<lambda>item. pendingEntryWrite (ii_entryId item) (payload V item)) sel @ map message_entry prompt"

definition run_operation :: "lane_config \<Rightarrow> jstring \<Rightarrow> jstring \<Rightarrow> int \<Rightarrow> jstring list \<Rightarrow> live_lane \<Rightarrow> operation" where
  "run_operation config name operationId startedAt promptIds l =
     \<lparr>op_meta = \<lparr>om_operationId = operationId, om_lane = name, om_sourceTipId = ll_tipId l, om_startedAt = startedAt, om_intent = RunIntent promptIds\<rparr>,
      op_state = Starting (starting config)\<rparr>"

context session_storage
begin

lemma plan_append_ok:
  assumes st: "ready st" and l: "lane_in (view st) name l" and i: "0 \<notin> set i" "\<not> id_used (view st) i" "i \<notin> inbox_ids l"
    and p: "\<not> pending_assistant p"
  shows "plan_ok (view st) {i} name l (plan_append ops name i p l (new_mutation st))"
proof (cases "ll_operation l")
  case (Some op)
  obtain qs where qs: "readLaneQueues ops (new_mutation st) (ll_inbox l) = Inr qs"
    using queues_ok [OF st lane_okD(2) [OF l]] by blast
  have "current_id l = Some (om_operationId (op_meta op))" by (simp add: current_id_def Some)
  with qs i(1) plan_ok_queue [OF l i p, of WriteItem] lane_okD(1) [OF l] show ?thesis
    by (simp add: plan_append_def Some address_at write_simps Let_def)
next
  case None
  let ?V = "value_at (view st)"
  define sel where "sel = inboxItems (ll_inbox l) WriteItem"
  define rest where "rest = withoutInboxItems (ll_inbox l) sel"
  let ?es = "map (\<lambda>item. pendingEntryWrite (ii_entryId item) (payload ?V item)) sel @ [pendingEntryWrite i p]"
  have ms: "mset sel + mset rest = mset (ll_inbox l)"
    unfolding rest_def by (rule without_items_mset [OF lane_okD(3) [OF l]]) (simp add: sel_def inboxItems_def)
  note sp = split_items [OF ms lane_okD(3) [OF l]]
  have items: "\<forall>item\<in>set sel. item_ok ?V (id_used (view st)) item" "\<forall>item\<in>set rest. item_ok ?V (id_used (view st)) item"
    using lane_okD(2) [OF l] sp(4,5) by blast+
  obtain qs where qs: "readLaneQueues ops (new_mutation st) rest = Inr qs" using queues_ok [OF st items(2)] by blast
  have "consume_ok (view st) name l sel rest ?es [i] None"
    using l ms i p items(1) None by (auto simp: consume_ok_def start_ok_def pending_entry_plain item_payload(2) comp_def)
  from plan_ok_consume [OF this] have "plan_ok (view st) {i} name l (Inr (CommitCmd (consume_writes name l sel rest ?es None)
      (l\<lparr>ll_tipId := Some i, ll_inbox := rest\<rparr>) mat ev))" for mat :: "commit_result \<Rightarrow> jstring" and ev
    using None by (simp add: started_ids_def consumed_def no_operation)
  note decision = this
  have del: "delete_pending sel = Inr (pending_deletes sel)" by (rule delete_pending_ok) (use items(1) item_payload(4) in blast)
  have "\<exists>q. (if sel = [] then Inr None else rbind (readLaneQueues ops (new_mutation st) rest) (\<lambda>qs. Inr (Some qs))) = Inr q"
    by (simp add: qs)
  then obtain q where q: "(if sel = [] then Inr None else rbind (readLaneQueues ops (new_mutation st) rest) (\<lambda>qs. Inr (Some qs))) = Inr q" ..
  have nz: "0 \<notin> set name" by (rule lane_okD [OF l])
  show ?thesis
    using decision unfolding plan_append_def None Let_def option.case sel_def [symmetric] rest_def [symmetric] captured_ok(2) [OF st items(1)] rbind_simps q del
      address_at(1) [OF nz] address_at(3) [OF nz]
    by (simp add: write_simps consume_writes_def start_writes_def)
qed

lemma plan_run_eq:
  assumes st: "ready st" and l: "lane_in (view st) name l" "ll_operation l = None" and i: "0 \<notin> set operationId"
    and sel: "selectAcceptedInbox (ll_inbox l) (cf_steeringMode config) (cf_followUpMode config) = (sel, rest)"
  shows "if prompt = [] \<and> \<not> (\<exists>item\<in>set sel. ii_kind item \<noteq> WriteItem)
    then plan_run ops config name operationId startedAt prompt l (new_mutation st) = Inr (ReturnCmd (Inl (InvalidMessage name (js ''empty''))))
    else \<exists>ev. plan_run ops config name operationId startedAt prompt l (new_mutation st) =
      Inr (CommitCmd
        (consume_writes name l sel rest (run_entries (value_at (view st)) sel prompt) (Some (run_operation config name operationId startedAt (map fst prompt) l)))
        (consumed l rest (run_entries (value_at (view st)) sel prompt) (Some (run_operation config name operationId startedAt (map fst prompt) l)))
        (\<lambda>_. Inr \<lparr>ad_operationId = operationId, ad_kind = KRun, ad_startedAt = startedAt\<rparr>) ev)"
proof -
  let ?V = "value_at (view st)" and ?es = "run_entries (value_at (view st)) sel prompt"
  have ms: "mset sel + mset rest = mset (ll_inbox l)" using sel select_inbox_mset by (simp add: selectAcceptedInbox_def)
  note sp = split_items [OF ms lane_okD(3) [OF l(1)]]
  have items: "\<forall>item\<in>set sel. item_ok ?V (id_used (view st)) item" "\<forall>item\<in>set rest. item_ok ?V (id_used (view st)) item"
    using lane_okD(2) [OF l(1)] sp(4,5) by blast+
  obtain qs where qs: "readLaneQueues ops (new_mutation st) rest = Inr qs" using queues_ok [OF st items(2)] by blast
  show ?thesis
  proof (cases "prompt = [] \<and> \<not> (\<exists>item\<in>set sel. ii_kind item \<noteq> WriteItem)")
    case True
    then show ?thesis by (simp add: plan_run_def l(2) sel captured_ok(1) [OF st items(1)])
  next
    case False
    then have ne: "?es \<noteq> []" by (auto simp: run_entries_def)
    have del: "delete_pending sel = Inr (pending_deletes sel)" by (rule delete_pending_ok) (use items(1) item_payload(4) in blast)
    have es: "map (\<lambda>(item, pending). pendingEntryWrite (ii_entryId item) pending) (map (\<lambda>item. (item, payload ?V item)) sel) @ map message_entry prompt = ?es"
      by (simp add: run_entries_def)
    have nz: "0 \<notin> set name" by (rule lane_okD [OF l(1)])
    show ?thesis
      unfolding plan_run_def l(2) Let_def option.case sel prod.case captured_ok(1) [OF st items(1)] rbind_simps qs del es if_not_P [OF False]
        address_at(1,3) [OF nz] address_at(4,5) [OF i] last_chainEntries [OF ne]
      by (simp add: write_simps consume_writes_def start_writes_def consumed_def run_operation_def split del: if_split)
  qed
qed

lemma plan_run_ok:
  assumes st: "ready st" and l: "lane_in (view st) name l" and i: "0 \<notin> set operationId"
    and p: "distinct (map fst prompt)" "\<forall>(x, message)\<in>set prompt. \<not> id_used (view st) x \<and> x \<notin> inbox_ids l \<and> \<not> stops_with StopPending message"
  shows "plan_ok (view st) (set (map fst prompt) \<union> {operationId}) name l (plan_run ops config name operationId startedAt prompt l (new_mutation st))"
proof (cases "ll_operation l")
  case None
  let ?V = "value_at (view st)"
  obtain sel rest where sel: "selectAcceptedInbox (ll_inbox l) (cf_steeringMode config) (cf_followUpMode config) = (sel, rest)" by fastforce
  have ms: "mset sel + mset rest = mset (ll_inbox l)" using sel select_inbox_mset by (simp add: selectAcceptedInbox_def)
  have items: "\<forall>item\<in>set sel. item_ok ?V (id_used (view st)) item"
    using lane_okD(2) [OF l] split_items(4) [OF ms lane_okD(3) [OF l]] by blast
  let ?es = "run_entries ?V sel prompt" and ?op = "run_operation config name operationId startedAt (map fst prompt) l"
  show ?thesis
  proof (cases "prompt = [] \<and> \<not> (\<exists>item\<in>set sel. ii_kind item \<noteq> WriteItem)")
    case True
    then show ?thesis using plan_run_eq [OF st l None i sel, of prompt startedAt] by simp
  next
    case False
    then have "?es \<noteq> []" by (auto simp: run_entries_def)
    then have "consume_ok (view st) name l sel rest ?es (map fst prompt) (Some ?op)"
      using l ms i p items None
      by (auto simp: consume_ok_def start_ok_def pending_entry_plain item_payload(2) comp_def message_entry_def run_operation_def run_entries_def
          stateMatchesIntent_def isSummaryState_def)
    from plan_ok_consume [OF this] have "plan_ok (view st) (set (map fst prompt) \<union> {operationId}) name l
        (Inr (CommitCmd (consume_writes name l sel rest ?es (Some ?op)) (consumed l rest ?es (Some ?op)) mat ev))"
      for mat :: "commit_result \<Rightarrow> (tagged_error, admission) res" and ev
      by (simp add: started_ids_def run_operation_def)
    moreover obtain mat ev where "plan_run ops config name operationId startedAt prompt l (new_mutation st) =
        Inr (CommitCmd (consume_writes name l sel rest ?es (Some ?op)) (consumed l rest ?es (Some ?op)) mat ev)"
      using plan_run_eq [OF st l None i sel, of prompt startedAt, unfolded if_not_P [OF False]] by (elim exE)
    ultimately show ?thesis by (simp only:)
  qed
qed (simp add: plan_run_def)

end

section \<open>Removing from the queue\<close>

text \<open>Items are removed with their payloads; the state of the current operation may be replaced in the same commit.\<close>

definition state_write :: "live_lane \<Rightarrow> operation_state option \<Rightarrow> store_write list" where
  "state_write l nst =
     (case (current_id l, nst) of (Some i, Some x) \<Rightarrow> [WValueSet ns_operation i (SOperation x)] | _ \<Rightarrow> [])"

definition with_state :: "live_lane \<Rightarrow> operation_state option \<Rightarrow> live_lane" where
  "with_state l nst =
     (case nst of None \<Rightarrow> l | Some x \<Rightarrow> l\<lparr>ll_operation := map_option (\<lambda>op. op\<lparr>op_state := x\<rparr>) (ll_operation l)\<rparr>)"

lemma with_state_simps [simp]:
  "ll_tipId (with_state l nst) = ll_tipId l" "ll_configuration (with_state l nst) = ll_configuration l" "ll_inbox (with_state l nst) = ll_inbox l"
  "ll_lastOperationId (with_state l nst) = ll_lastOperationId l" "current_id (with_state l nst) = current_id l"
  by (auto simp: with_state_def current_id_def option.map_comp comp_def split: option.splits)

lemma state_write_simps [simp]:
  "state_write l None = []" "current_id l = Some i \<Longrightarrow> state_write l (Some x) = [WValueSet ns_operation i (SOperation x)]"
  by (auto simp: state_write_def split: option.splits)

lemma plan_ok_remove:
  assumes l: "lane_in s name l" and items: "mset sel + mset rest = mset (ll_inbox l)"
    and nst: "\<And>op x. ll_operation l = Some op \<Longrightarrow> nst = Some x \<Longrightarrow> stateMatchesIntent (om_intent (op_meta op)) x"
  shows "plan_ok s {} name l (Inr (CommitCmd
    (pending_deletes sel @ state_write l nst @ [WValueSet ns_state name (SLane (durableLaneState l (current_id l) rest))])
    ((with_state l nst)\<lparr>ll_inbox := rest\<rparr>) mat ev))" (is "plan_ok s _ name l (Inr (CommitCmd ?ws ?nx _ _))")
proof (rule plan_ok_commit)
  let ?V = "apply_values ?ws (value_at s)"
  note sp = split_items [OF items lane_okD(3) [OF l]]
  have V: "?V (ns_tip, name) = value_at s (ns_tip, name)" "?V (ns_config, name) = value_at s (ns_config, name)"
      "?V (ns_state, name) = Some (SLane (durableLaneState l (current_id l) rest))" "?V (ns_meta, k) = value_at s (ns_meta, k)" for k
    by (auto simp: apply_values_append apply_pending_deletes state_write_def split: option.splits)
  have "item_ok ?V (id_used s) item" if "item \<in> set rest" for item
  proof (rule item_ok_frame)
    show "item_ok (value_at s) (id_used s) item" using lane_okD(2) [OF l] sp(5) that by blast
    show "?V (ns_pending, ii_entryId item) = value_at s (ns_pending, ii_entryId item)"
      using sp(3) that by (auto simp: apply_values_append apply_pending_deletes state_write_def split: option.splits)
  qed
  moreover have "operation_ok ?V name op'" if "ll_operation ?nx = Some op'" for op'
  proof -
    from that obtain op where op: "ll_operation l = Some op" "op_meta op' = op_meta op" "op_state op' = (case nst of None \<Rightarrow> op_state op | Some x \<Rightarrow> x)"
      by (auto simp: with_state_def split: option.splits)
    have "?V (ns_operation, om_operationId (op_meta op)) = Some (SOperation (op_state op'))"
      using lane_okD(5) [OF l op(1)] op
      by (auto simp: apply_values_append apply_pending_deletes state_write_def current_id_def operation_ok_def split: option.splits)
    with lane_okD(5) [OF l op(1)] nst [OF op(1)] op(2,3) V(4) show ?thesis
      by (simp add: operation_ok_def split: option.splits)
  qed
  ultimately have ok: "lane_ok ?V (entry_in s) (id_used s) name ?nx"
    using l sp(2) unfolding lane_ok_def V by (simp add: durableLaneState_def)
  have n: "new_ids ?ws = []" "new_entry_ids ?ws = []" by (auto simp: state_write_def split: option.splits)
  have "touched ?ws \<subseteq> claims name l" using sp(4) by (auto simp: claims_def state_write_def inbox_ids_def split: option.splits)
  moreover have "claims name ?nx \<subseteq> claims name l" using sp(5) by (auto simp: claims_def inbox_ids_def split: option.splits)
  ultimately show "local_ok s {} name l ?ws ?nx" using ok unfolding local_ok_def n by auto
  have "0 \<notin> set i" if "current_id l = Some i" for i using lane_okD(5) [OF l] that by (auto simp: current_id_def operation_ok_def)
  then show "commit_fits s ?ws"
    using lane_okD(1) [OF l] unfolding commit_fits_def n
    by (auto simp: pending_deletes_def state_write_def intro!: parents_before_values split: option.splits)
qed (auto simp: pending_deletes_def state_write_def value_writes_plain split: option.splits)

text \<open>What an abort removes from the queue, and the messages it gives back.\<close>

definition abortable :: "inbox_item \<Rightarrow> bool" where
  "abortable item \<longleftrightarrow> ii_kind item = Steer \<or> ii_kind item = FollowUp"

definition queued_messages :: "values_view \<Rightarrow> inbox_kind \<Rightarrow> inbox_item list \<Rightarrow> agent_message list" where
  "queued_messages V kind items =
     concat (map (\<lambda>item. case payload V item of PendingMessage m \<Rightarrow> [m] | PendingCustom _ _ \<Rightarrow> []) (filter (\<lambda>item. ii_kind item = kind) items))"

definition cancelled_at :: "int \<Rightarrow> operation_state \<Rightarrow> operation_state" where
  "cancelled_at now x = map_scope (\<lambda>s. s\<lparr>os_control := CancelRequested now\<rparr>) x"

context session_storage
begin

lemma plan_cancel_ok:
  assumes st: "ready st" and l: "lane_in (view st) name l"
  shows "plan_ok (view st) {} name l (plan_cancel ops name i l (new_mutation st))"
proof (cases "List.find (\<lambda>item. ii_entryId item = i) (ll_inbox l)")
  case None
  then show ?thesis by (simp add: plan_cancel_def st)
next
  case (Some q)
  let ?rest = "filter (\<lambda>item. ii_entryId item \<noteq> i) (ll_inbox l)"
  note q = find_item_mset [OF lane_okD(3) [OF l] Some]
  have ok: "item_ok (value_at (view st)) (id_used (view st)) q" using lane_okD(2) [OF l] q(3) by blast
  obtain v where "getValue (view st) \<lparr>a_namespace = ns_pending, a_key = i, a_kind = AValue\<rparr> = Some v"
    using item_payload(1) [OF ok] getValue_abs [of "view st" "\<lparr>a_namespace = ns_pending, a_key = i, a_kind = AValue\<rparr>"] q(2) by (auto simp: value_at_def)
  moreover obtain qs where "readLaneQueues ops (new_mutation st) ?rest = Inr qs"
    using queues_ok [OF st, of ?rest "id_used (view st)"] lane_okD(2) [OF l] by auto
  ultimately show ?thesis
    using plan_ok_remove [OF l q(1), of None] q(2) item_payload(4) [OF ok] lane_okD(1) [OF l] st
    by (simp add: plan_cancel_def Some address_at write_simps Let_def pending_deletes_def with_state_def)
qed

lemma stateMatchesIntent_scope: "stateMatchesIntent intent (map_scope f x) = stateMatchesIntent intent x"
  by (cases x; cases intent) (simp_all add: stateMatchesIntent_def task_boundary_def isSummaryState_def)

lemma removed_messages:
  assumes st: "ready st" and items: "\<forall>item\<in>set sel. item_ok (value_at (view st)) K item \<and> abortable item"
  shows "\<exists>ps. read_each (removed_message ops (new_mutation st)) sel = Inr ps \<and> (\<forall>kind. payloads_of kind ps = queued_messages (value_at (view st)) kind sel)"
proof -
  have "\<exists>m. removed_message ops (new_mutation st) item = Inr (item, m) \<and> payload (value_at (view st)) item = PendingMessage m" if "item \<in> set sel" for item
  proof -
    have ok: "item_ok (value_at (view st)) K item" "ii_kind item \<noteq> WriteItem" using items that by (auto simp: abortable_def)
    from item_payload(3) [OF this] show ?thesis by (auto simp: removed_message_def read_pending [OF st ok(1)])
  qed
  then obtain g where g: "\<And>item. item \<in> set sel \<Longrightarrow> removed_message ops (new_mutation st) item = Inr (item, g item)"
    "\<And>item. item \<in> set sel \<Longrightarrow> payload (value_at (view st)) item = PendingMessage (g item)" by metis
  from g(1) have "read_each (removed_message ops (new_mutation st)) sel = Inr (map (\<lambda>item. (item, g item)) sel)" by (rule read_each_Inr)
  moreover have "payloads_of kind (map (\<lambda>item. (item, g item)) sel) = queued_messages (value_at (view st)) kind sel" for kind
    using g(2) by (induction sel) (auto simp: payloads_of_def queued_messages_def)
  ultimately show ?thesis by blast
qed

lemma without_abortable:
  assumes "distinct (map ii_entryId inbox)"
  shows "withoutInboxItems inbox (filter abortable inbox) = filter (\<lambda>item. \<not> abortable item) inbox"
  unfolding withoutInboxItems_def
  by (rule filter_cong) (use assms in \<open>auto simp: distinct_map inj_on_def\<close>)

lemma plan_abort_eq:
  assumes st: "ready st" and l: "lane_in (view st) name l" "ll_operation l = Some op" "om_operationId (op_meta op) = operationId" "\<not> is_cancelled (op_state op)"
  shows "\<exists>ev. plan_abort ops name operationId now l (new_mutation st) =
    Inr (CommitCmd
      (pending_deletes (filter abortable (ll_inbox l)) @ state_write l (Some (cancelled_at now (op_state op))) @
        [WValueSet ns_state name (SLane (durableLaneState l (current_id l) (filter (\<lambda>item. \<not> abortable item) (ll_inbox l))))])
      ((with_state l (Some (cancelled_at now (op_state op))))\<lparr>ll_inbox := filter (\<lambda>item. \<not> abortable item) (ll_inbox l)\<rparr>)
      (\<lambda>_. Inr \<lparr>ab_operationId = operationId, ab_newlyRequested = True, ab_steer = queued_messages (value_at (view st)) Steer (ll_inbox l),
        ab_followUp = queued_messages (value_at (view st)) FollowUp (ll_inbox l)\<rparr>) ev)"
proof -
  let ?V = "value_at (view st)"
  define sel where "sel = filter abortable (ll_inbox l)"
  define rest where "rest = filter (\<lambda>item. \<not> abortable item) (ll_inbox l)"
  have items: "\<forall>item\<in>set sel. item_ok ?V (id_used (view st)) item \<and> abortable item" "\<forall>item\<in>set rest. item_ok ?V (id_used (view st)) item"
    using lane_okD(2) [OF l(1)] by (auto simp: sel_def rest_def)
  obtain qs where qs: "readLaneQueues ops (new_mutation st) rest = Inr qs" using queues_ok [OF st items(2)] by blast
  from removed_messages [OF st items(1)] obtain ps where ps: "read_each (removed_message ops (new_mutation st)) sel = Inr ps"
    "\<And>kind. payloads_of kind ps = queued_messages ?V kind sel" by blast
  have del: "delete_pending sel = Inr (pending_deletes sel)" by (rule delete_pending_ok) (use items(1) item_payload(4) in blast)
  have nz: "0 \<notin> set name" "0 \<notin> set operationId"
    using lane_okD(1) [OF l(1)] lane_okD(5) [OF l(1,2)] l(3) by (auto simp: operation_ok_def)
  have sel': "filter (\<lambda>item. ii_kind item = Steer \<or> ii_kind item = FollowUp) (ll_inbox l) = sel" by (simp add: sel_def abortable_def [abs_def])
  have rest': "withoutInboxItems (ll_inbox l) sel = rest" unfolding sel_def rest_def by (rule without_abortable [OF lane_okD(3) [OF l(1)]])
  have q: "queued_messages ?V kind sel = queued_messages ?V kind (ll_inbox l)" if "kind = Steer \<or> kind = FollowUp" for kind
    using that by (auto simp: queued_messages_def sel_def abortable_def intro!: arg_cong [of _ _ concat] arg_cong [of _ _ "map _"] filter_cong)
  have cur: "current_id l = Some operationId" by (simp add: current_id_def l)
  show ?thesis
    unfolding sel_def [symmetric] rest_def [symmetric] plan_abort_def l(2) option.case Let_def sel' rest' ps qs del rbind_simps q [OF disjI1, OF refl] q [OF disjI2, OF refl]
    using nz cur l(3,4) by (simp add: address_at write_simps with_state_def l(2) cancelled_at_def split del: if_split)
qed

lemma plan_abort_ok:
  assumes st: "ready st" and l: "lane_in (view st) name l"
  shows "plan_ok (view st) {} name l (plan_abort ops name operationId now l (new_mutation st))"
proof (cases "\<exists>op. ll_operation l = Some op \<and> om_operationId (op_meta op) = operationId \<and> \<not> is_cancelled (op_state op)")
  case True
  then obtain op where op: "ll_operation l = Some op" "om_operationId (op_meta op) = operationId" "\<not> is_cancelled (op_state op)" by blast
  have "mset (filter abortable (ll_inbox l)) + mset (filter (\<lambda>item. \<not> abortable item) (ll_inbox l)) = mset (ll_inbox l)"
    by (metis multiset_partition mset_filter)
  moreover have "stateMatchesIntent (om_intent (op_meta op)) (cancelled_at now (op_state op))"
    using lane_okD(5) [OF l op(1)] by (simp add: operation_ok_def stateMatchesIntent_scope cancelled_at_def)
  ultimately have good: "plan_ok (view st) {} name l (Inr (CommitCmd
      (pending_deletes (filter abortable (ll_inbox l)) @ state_write l (Some (cancelled_at now (op_state op))) @
        [WValueSet ns_state name (SLane (durableLaneState l (current_id l) (filter (\<lambda>item. \<not> abortable item) (ll_inbox l))))])
      ((with_state l (Some (cancelled_at now (op_state op))))\<lparr>ll_inbox := filter (\<lambda>item. \<not> abortable item) (ll_inbox l)\<rparr>) mat ev))"
    for mat :: "commit_result \<Rightarrow> (tagged_error, abort_request) res" and ev
    by (intro plan_ok_remove [OF l]) (simp_all add: op(1))
  from plan_abort_eq [OF st l op, of now] show ?thesis by (elim exE) (simp only: good)
next
  case False
  then show ?thesis by (auto simp: plan_abort_def split: option.splits)
qed

end

section \<open>Usage and configuration\<close>

lemma lane_ok_same: "lane_ok V E K name l \<Longrightarrow> (\<And>p. p \<in> claims name l \<Longrightarrow> V' p = V p) \<Longrightarrow> (\<And>i. i \<in> inbox_ids l \<Longrightarrow> \<not> K' i \<or> K i) \<Longrightarrow> lane_ok V' E K' name l"
  by (rule lane_ok_frame [where V = V and E = E and K = K]) auto

lemma plan_usage_ok:
  assumes "lane_in s name l" "\<not> id_used s i" "i \<notin> inbox_ids l"
  shows "plan_ok s {i} name l (plan_usage name i usage entryId details l m)"
proof -
  let ?row = "\<lparr>ur_id = i, ur_usage = usage, ur_entryId = entryId, ur_adjustment = True, ur_details = details\<rparr>"
  have "lane_ok (value_at s) (entry_in s) (\<lambda>j. id_used s j \<or> j = i) name l" by (rule lane_ok_same [OF assms(1)]) (use assms(3) in auto)
  then have "local_ok s {i} name l [WUsage ?row] l" by (auto simp: local_ok_def)
  then show ?thesis
    unfolding plan_usage_def Let_def insertUsage_def
    by (rule plan_ok_commit) (use assms(2) in \<open>auto simp: commit_fits_def value_writes_plain\<close>)
qed

lemma plan_configuration_ok:
  assumes l: "lane_in s name l"
  shows "plan_ok s {} name l (plan_configuration name update change l m)"
proof -
  let ?ws = "[WValueSet ns_config name (SConfig (update (ll_configuration l)))]"
  let ?nx = "l\<lparr>ll_configuration := update (ll_configuration l)\<rparr>"
  have "operation_ok (apply_values ?ws (value_at s)) name op" if "ll_operation l = Some op" for op
    using lane_okD(5) [OF l that] by (simp add: operation_ok_def)
  moreover have "item_ok (apply_values ?ws (value_at s)) (id_used s) item" if "item \<in> set (ll_inbox l)" for item
    using lane_okD(2) [OF l] that by (simp add: item_ok_def)
  ultimately have "lane_ok (apply_values ?ws (value_at s)) (entry_in s) (id_used s) name ?nx"
    using l by (simp add: lane_ok_def durableLaneState_def)
  moreover have "claims name ?nx = claims name l" by (simp add: claims_def)
  ultimately have "local_ok s {} name l ?ws ?nx" by (auto simp: local_ok_def claims_def)
  moreover have "commit_fits s ?ws" using lane_okD(1) [OF l] by (simp add: commit_fits_def)
  ultimately show ?thesis
    using lane_okD(1) [OF l] by (auto simp: plan_configuration_def Let_def address_at write_simps value_writes_plain intro!: plan_ok_commit)
qed

section \<open>Starting a structural operation\<close>

lemma plan_ok_start:
  assumes l: "lane_in s name l" and op: "ll_operation l = None" "start_ok name (Some op)"
    and pre: "pre = [] \<or> (\<exists>k v. pre = [WValueSet (js ''phi.op.preparation'') k v] \<and> 0 \<notin> set k)"
  shows "plan_ok s {om_operationId (op_meta op)} name l (Inr (CommitCmd
    (pre @ start_writes (Some op) @ [WValueSet ns_state name (SLane (durableLaneState l (Some (om_operationId (op_meta op))) (ll_inbox l)))])
    (l\<lparr>ll_operation := Some op\<rparr>) mat ev))" (is "plan_ok s _ name l (Inr (CommitCmd ?ws ?nx _ _))")
proof (rule plan_ok_commit)
  let ?V = "apply_values ?ws (value_at s)"
  have V: "?V (ns_tip, name) = value_at s (ns_tip, name)" "?V (ns_config, name) = value_at s (ns_config, name)"
      "?V (ns_state, name) = Some (SLane (durableLaneState l (Some (om_operationId (op_meta op))) (ll_inbox l)))"
      "?V (ns_pending, k) = value_at s (ns_pending, k)" "operation_ok ?V name op" for k
    using pre op(2) by (auto simp: apply_values_append start_writes_def operation_ok_def start_ok_def)
  have "item_ok ?V (id_used s) item" if "item \<in> set (ll_inbox l)" for item
    using lane_okD(2) [OF l] that by (simp add: item_ok_def V(4))
  then have ok: "lane_ok ?V (entry_in s) (id_used s) name ?nx"
    using l V(5) unfolding lane_ok_def V(1-3) by (simp add: durableLaneState_def)
  have n: "new_ids ?ws = []" "new_entry_ids ?ws = []" using pre by auto
  have "touched ?ws \<subseteq> claims name l \<union> fresh_addrs {om_operationId (op_meta op)} \<union> free_addrs"
    using pre by (auto simp: claims_def fresh_addrs_def free_addrs_def started_ids_def)
  moreover have "claims name ?nx \<subseteq> claims name l \<union> fresh_addrs {om_operationId (op_meta op)}" by (auto simp: claims_def fresh_addrs_def)
  ultimately show "local_ok s {om_operationId (op_meta op)} name l ?ws ?nx" using ok unfolding local_ok_def n by auto
  show "commit_fits s ?ws"
    using lane_okD(1) [OF l] pre op(2) unfolding commit_fits_def n
    by (auto simp: start_writes_def start_ok_def intro!: parents_before_values)
qed (use pre in \<open>auto simp: start_writes_def value_writes_plain\<close>)

lemma colon_nonzero [simp]: "0 \<notin> set colon"
  by (simp add: colon_def js_nonzero)

context session_storage
begin

lemma bounded_path_ok:
  assumes "ready st" "\<And>t. tip = Some t \<Longrightarrow> entry_in (view st) t"
  shows "\<exists>path. bounded_path ops (new_mutation st) tip = Inr path"
proof (cases tip)
  case (Some t)
  with assms(2) obtain e where "map_of (s_entries (view st)) t = Some e" by (auto simp: entry_in_def)
  then have "\<exists>es. scanBranch (view st) (bounded_query t) = Inr es"
    using scanBranch_path [OF storage_reachable_ok [OF view_reachable [OF assms(1)]], of "bounded_query t" e] by (auto simp: bounded_query_def)
  with Some assms(1) show ?thesis by (auto simp: bounded_path_def)
qed (simp add: bounded_path_def)

lemma plan_compaction_ok:
  assumes st: "ready st" and l: "lane_in (view st) name l" and i: "0 \<notin> set operationId" "0 \<notin> set taskId"
  shows "plan_ok (view st) {operationId} name l (plan_compaction ops config name operationId startedAt taskId ci l (new_mutation st))"
proof (cases "ll_operation l")
  case None
  obtain path where path: "bounded_path ops (new_mutation st) (ll_tipId l) = Inr path" using bounded_path_ok [OF st lane_okD(4) [OF l]] by blast
  obtain p where p: "prepareCompaction path (cf_compaction config) = Inr p" using prepareCompaction_total [of path "cf_compaction config"] by (auto simp: is_ok_iff)
  show ?thesis
  proof (cases p)
    case (Some prep)
    let ?op = "\<lparr>op_meta = \<lparr>om_operationId = operationId, om_lane = name, om_sourceTipId = ll_tipId l, om_startedAt = startedAt,
        om_intent = CompactionIntent ci\<rparr>,
      op_state = SummaryDeciding (starting config) \<lparr>st_taskId = taskId, st_reason = Some RManual, st_customInstructions = ci, st_boundary = Finish\<rparr>\<rparr>"
    have "start_ok name (Some ?op)" using i(1) by (simp add: start_ok_def stateMatchesIntent_def task_boundary_def)
    from plan_ok_start [OF l None this, of "[WValueSet (js ''phi.op.preparation'') (operationId @ colon @ taskId) (SPreparation (CompactionPrep prep))]"] i
    show ?thesis
      using lane_okD(1) [OF l] by (simp add: plan_compaction_def None path p Some Let_def address_at write_simps start_writes_def)
  qed (simp add: plan_compaction_def None path p)
qed (simp add: plan_compaction_def)

lemma has_key_getEntries: "storage_reachable s \<Longrightarrow> has_key (getEntries s [t]) t \<longleftrightarrow> entry_in s t"
  by (cases "map_of (s_entries s) t") (auto simp: getEntries_def entry_in_def)

lemma plan_navigation_ok:
  assumes st: "ready st" and l: "lane_in (view st) name l" and i: "0 \<notin> set operationId" "0 \<notin> set taskId"
    and prep: "\<And>t. no_summarize options = Some True \<Longrightarrow> ll_tipId l \<noteq> None \<Longrightarrow> targetId = Some t \<Longrightarrow> entry_in (view st) t \<Longrightarrow> observed = ll_tipId l \<Longrightarrow>
      preparation \<noteq> None"
  shows "plan_ok (view st) {operationId} name l
    (plan_navigation ops config name operationId startedAt taskId targetId options observed preparation l (new_mutation st))"
proof (cases "ll_operation l")
  case None
  let ?m = "new_mutation st"
  let ?meta = "\<lambda>summarize. \<lparr>om_operationId = operationId, om_lane = name, om_sourceTipId = ll_tipId l, om_startedAt = startedAt,
      om_intent = NavigationIntent targetId summarize (no_label options) (no_customInstructions options)\<rparr>"
  note nz = lane_okD(1) [OF l]
  have known: "rbind (mutation_getEntries ops ?m [target]) (\<lambda>found. Inr (has_key found target)) = Inr (entry_in (view st) target)" for target
    using st has_key_getEntries [OF view_reachable [OF st]] by simp
  have refused: ?thesis if "ll_tipId l \<noteq> observed \<or> targetId = ll_tipId l \<or> targetId = None \<and> no_label options \<noteq> None"
  proof (cases "ll_tipId l \<noteq> observed \<or> targetId = ll_tipId l")
    case True
    then show ?thesis unfolding plan_navigation_def None option.case Let_def by (cases "ll_tipId l = observed") simp_all
  next
    case False
    with that show ?thesis unfolding plan_navigation_def None option.case Let_def by simp
  qed
  have roots: ?thesis if "no_summarize options = Some True" "ll_tipId l = None \<or> targetId = None"
    using that(1) that(2)
    by (elim disjE; cases "ll_tipId l = observed"; cases "targetId = ll_tipId l"; cases "no_label options"; simp add: plan_navigation_def None Let_def)
  have unknown: ?thesis if "targetId = Some t" "\<not> entry_in (view st) t" for t
    using that(2) unfolding plan_navigation_def None option.case Let_def that(1) known by (simp split: if_split)
  have plain: ?thesis if "ll_tipId l = observed" "targetId \<noteq> ll_tipId l" "targetId = None \<longrightarrow> no_label options = None"
    "no_summarize options \<noteq> Some True" "\<And>t. targetId = Some t \<Longrightarrow> entry_in (view st) t"
  proof -
    let ?op = "\<lparr>op_meta = ?meta False, op_state = NavigationReadyToCommit (starting config) targetId (no_label options)\<rparr>"
    have k: "(case targetId of None \<Rightarrow> Inr True | Some target \<Rightarrow> rbind (mutation_getEntries ops ?m [target]) (\<lambda>found. Inr (has_key found target))) =
      (Inr True :: (session_error, bool) res)" using that(5) by (cases targetId) (simp_all only: option.case known simp_thms)
    have "start_ok name (Some ?op)" using i(1) by (simp add: start_ok_def stateMatchesIntent_def)
    moreover have "(targetId = None \<and> no_label options \<noteq> None) = False" using that(3) by blast
    ultimately show ?thesis
      using that(1,2,4) nz i(1) plan_ok_start [OF l None, of ?op "[]"] unfolding plan_navigation_def None option.case Let_def k by (simp add: address_at write_simps start_writes_def)
  qed
  have summary: ?thesis if t: "ll_tipId l = observed" "Some t \<noteq> ll_tipId l" "targetId = Some t" "ll_tipId l \<noteq> None" "no_summarize options = Some True"
    "entry_in (view st) t" for t
  proof -
    obtain p where p: "preparation = Some p" using prep [OF t(5,4,3,6)] t(1) by auto
    let ?op = "\<lparr>op_meta = ?meta True, op_state = SummaryDeciding (starting config)
      \<lparr>st_taskId = taskId, st_reason = None, st_customInstructions = no_customInstructions options, st_boundary = CommitNavigation t (no_label options)\<rparr>\<rparr>"
    have "start_ok name (Some ?op)" using i(1) t(3) by (simp add: start_ok_def stateMatchesIntent_def task_boundary_def)
    from plan_ok_start [OF l None this, of "[WValueSet (js ''phi.op.preparation'') (operationId @ colon @ taskId) (SPreparation p)]"] show ?thesis
      using t nz i unfolding plan_navigation_def None option.case Let_def p t(3) known by (simp add: address_at write_simps start_writes_def)
  qed
  show ?thesis
  proof (cases targetId)
    case (Some t)
    then show ?thesis using refused roots unknown plain summary by (metis option.inject option.distinct(1))
  next
    case N: None
    then show ?thesis using refused roots plain by (metis option.distinct(1))
  qed
qed (simp add: plan_navigation_def Let_def)

end

end
