(* ===== verification/Lane_Live.thy ===== *)
theory Lane_Live
  imports Lane_Plans
begin

text \<open>
  A harness stays alive: with a storage that takes every commit it can apply, no call of a lane faults the harness, whatever the
  calls before it were, as long as the ids it is given are new. The law the storage has to obey for that is the locale
  \<open>live_storage\<close>.
\<close>

section \<open>Storages that take every commit\<close>

locale live_storage = session_storage +
  assumes commit_live: "ready s \<Longrightarrow> commit_job (view s) ws now = (v, Inr r) \<Longrightarrow> \<exists>s'. so_commit ops s ws now = (s', Inr r)"
begin

lemma run_decision_total:
  assumes "ready st" "plan_ok (view st) F name cur d"
  shows "\<exists>m out. run_decision ops (new_mutation st) now d = (m, Inr out)"
proof -
  obtain c where c: "d = Inr c" "decision_ok (view st) F name cur c" using assms(2) by (auto simp: plan_ok_def)
  show ?thesis
  proof (cases c)
    case (CommitCmd ws nx mat ev)
    with c(2) have fits: "commit_fits (view st) ws" "\<not> (\<exists>w\<in>set ws. pending_assistant_write w)" by (simp_all add: decision_ok_def)
    from commit_succeeds [OF view_reachable [OF assms(1)] fits(1)] obtain v r where "commit_job (view st) ws now = (v, Inr r)" by blast
    from commit_live [OF assms(1) this] obtain s' where "so_commit ops st ws now = (s', Inr r)" by blast
    then have "mutation_commit ops (new_mutation st) ws now = ((new_mutation st)\<lparr>mu_storage := s', mu_attempted := True\<rparr>, Inr r)"
      using fits(2) by (simp add: mutation_commit_def new_mutation_def)
    then show ?thesis by (simp add: run_decision_def c(1) CommitCmd)
  qed (simp_all add: run_decision_def c(1))
qed

end

interpretation live_memory: live_storage memory_ops ms_storageState memory_ready
  by unfold_locales (auto simp: memory_ops_def memory_commit_def memory_ready_def split: prod.splits)

section \<open>Live harnesses\<close>

definition alive :: "('s \<Rightarrow> storage_state) \<Rightarrow> ('s \<Rightarrow> bool) \<Rightarrow> 's harness \<Rightarrow> bool" where
  "alive view ready h \<longleftrightarrow> hn_closed h = None \<and> se_state (hn_session h) = IsOpen \<and> harness_ok view ready h"

text \<open>A call answers when it neither faults nor is refused by the session: it gives a result, throws a tagged error, or waits.\<close>

definition answers :: "(lane_throw, 'r) res \<Rightarrow> bool" where
  "answers r = (case r of Inl (SealedBy _) \<Rightarrow> False | Inl (SessionThrew _) \<Rightarrow> False | _ \<Rightarrow> True)"

lemma answers_simps [simp]: "answers (Inr x)" "answers (Inl (Threw e))" "answers (Inl Waits)" "answers (Inl NoLane)"
  by (simp_all add: answers_def)

lemma aliveD:
  assumes "alive view ready h"
  shows "hn_closed h = None" "se_state (hn_session h) = IsOpen" "ready (se_storage (hn_session h))"
    "lanes_ok (view (se_storage (hn_session h))) (lane_map h)"
  using assms by (simp_all add: alive_def harness_ok_def)

lemma alive_lane: "alive view ready h \<Longrightarrow> lane_map h name = Some l \<Longrightarrow> lane_in (view (se_storage (hn_session h))) name l"
  by (simp add: alive_def harness_ok_def lanes_ok_def)

lemma alive_update: "alive view ready h \<Longrightarrow> (\<And>ln. ln_state (f ln) = ln_state ln) \<Longrightarrow> alive view ready (update_lane name f h)"
proof (cases "map_of (hn_lanes h) name")
  case None
  then show "alive view ready h \<Longrightarrow> ?thesis" by (simp add: update_lane_def)
next
  case (Some ln)
  assume "alive view ready h" and f: "\<And>ln. ln_state (f ln) = ln_state ln"
  moreover have "lane_map (update_lane name f h) = lane_map h"
    unfolding lane_map_update_lane [OF Some] f by (simp add: lane_map_def Some fun_eq_iff)
  ultimately show ?thesis by (simp add: alive_def harness_ok_def)
qed

context live_storage
begin

lemma command_alive:
  assumes a: "alive view ready h" and F: "\<forall>i\<in>F. unclaimed (lane_map h) i"
    and plan: "\<And>l. lane_map h name = Some l \<Longrightarrow> plan_ok (view (se_storage (hn_session h))) F name l (plan l (new_mutation (se_storage (hn_session h))))"
  shows "alive view ready (fst (command ops name now plan h)) \<and> answers (snd (command ops name now plan h))"
proof -
  let ?st = "se_storage (hn_session h)"
  note al = aliveD [OF a]
  have "harness_ok view ready (fst (command ops name now plan h))"
  proof (rule command_ok [OF _ F])
    show "harness_ok view ready h" using a by (simp add: alive_def)
    fix l ws nx mat ev
    assume "lane_map h name = Some l" "plan l (new_mutation ?st) = Inr (CommitCmd ws nx mat ev)"
    with plan show "local_ok (view ?st) F name l ws nx" by (metis plan_ok_local)
  qed
  moreover have "hn_closed (fst (command ops name now plan h)) = None \<and> se_state (hn_session (fst (command ops name now plan h))) = IsOpen \<and>
      answers (snd (command ops name now plan h))"
  proof (cases "map_of (hn_lanes h) name")
    case (Some ln)
    have l: "lane_map h name = Some (ln_state ln)" by (simp add: lane_map_def Some)
    from run_decision_total [OF al(3) plan [OF l]] obtain m out where
      "run_decision ops (new_mutation ?st) now (plan (ln_state ln) (new_mutation ?st)) = (m, Inr out)" by blast
    then have mut: "mutate (hn_session h) (\<lambda>m. run_decision ops m now (plan (ln_state ln) m)) = ((hn_session h)\<lparr>se_storage := mu_storage m\<rparr>, Inr out)"
      using al(2) by (simp add: mutate_def assertOpen_def mutation_end_def)
    show ?thesis using al(1,2) by (cases out) (simp_all add: command_def Some mut assertOpen_def)
  qed (simp add: command_def al)
  ultimately show ?thesis by (simp add: alive_def)
qed

end

end
