(* ===== verification/Lane_Calls.thy ===== *)
theory Lane_Calls
  imports Lane_Live
begin

text \<open>
  Every call of a harness keeps it alive: the public calls of its lanes, the transitions that a drive pass publishes through
  \<^verbatim>\<open>settleOperation\<close>, the acquisition of lanes and the session-wide values.
\<close>

section \<open>New ids\<close>

definition fresh_id :: "('s \<Rightarrow> storage_state) \<Rightarrow> 's harness \<Rightarrow> jstring \<Rightarrow> bool" where
  "fresh_id view h i \<longleftrightarrow> 0 \<notin> set i \<and> \<not> id_used (view (se_storage (hn_session h))) i \<and> unclaimed (lane_map h) i"

definition fresh_operation :: "'s harness \<Rightarrow> jstring \<Rightarrow> bool" where
  "fresh_operation h i \<longleftrightarrow> 0 \<notin> set i \<and> unclaimed (lane_map h) i"

lemma fresh_id_inbox: "fresh_id view h i \<Longrightarrow> lane_map h name = Some l \<Longrightarrow> i \<notin> inbox_ids l"
  by (auto simp: fresh_id_def unclaimed_def)

lemma prompt_fresh:
  assumes "\<forall>i\<in>set promptIds. fresh_id view h i" "lane_map h name = Some l" "\<not> (\<exists>message\<in>set messages. stops_with StopPending message)"
  shows "\<forall>(x, message)\<in>set (zip promptIds messages).
    \<not> id_used (view (se_storage (hn_session h))) x \<and> x \<notin> inbox_ids l \<and> \<not> stops_with StopPending message"
proof clarify
  fix x message assume "(x, message) \<in> set (zip promptIds messages)"
  then have "fresh_id view h x" "message \<in> set messages" using assms(1) by (auto dest: set_zip_leftD set_zip_rightD)
  then show "\<not> id_used (view (se_storage (hn_session h))) x \<and> x \<notin> inbox_ids l \<and> \<not> stops_with StopPending message"
    using assms(3) fresh_id_inbox [OF _ assms(2)] by (simp add: fresh_id_def)
qed

definition kept :: "('s \<Rightarrow> storage_state) \<Rightarrow> ('s \<Rightarrow> bool) \<Rightarrow> 's harness \<times> (lane_throw, 'r) res \<Rightarrow> bool" where
  "kept view ready r \<longleftrightarrow> alive view ready (fst r) \<and> answers (snd r)"

lemma kept_same [simp]: "kept view ready (h, Inr r) \<longleftrightarrow> alive view ready h" "kept view ready (h, Inl (Threw e)) \<longleftrightarrow> alive view ready h"
  "kept view ready (h, Inl Waits) \<longleftrightarrow> alive view ready h" "kept view ready (h, Inl NoLane) \<longleftrightarrow> alive view ready h"
  by (simp_all add: kept_def)

lemma unless_closed_kept: "alive view ready h \<Longrightarrow> kept view ready k \<Longrightarrow> kept view ready (unless_closed h k)"
  by (simp add: unless_closed_def aliveD(1))

section \<open>The public calls of a lane\<close>

context live_storage
begin

lemmas command_kept = command_alive [folded kept_def]

lemma enqueue_kept:
  assumes a: "alive view ready h" and i: "fresh_id view h i"
  shows "kept view ready (enqueue ops name kind input images i at h)"
proof -
  have "kept view ready (command ops name at (plan_enqueue ops name i kind message) h)" if "queue_message input images at = Inr message" for message
  proof (rule command_kept [OF a, of "{i}"])
    have "\<not> stops_with StopPending message" using that
      by (auto simp: queue_message_def user_blocks_def stops_with_def split: queue_input.splits if_splits agent_message.splits llm_message.splits)
    then show "plan_ok (view (se_storage (hn_session h))) {i} name l (plan_enqueue ops name i kind message l (new_mutation (se_storage (hn_session h))))"
      if "lane_map h name = Some l" for l
      using plan_enqueue_ok [OF aliveD(3) [OF a] alive_lane [OF a that]] i fresh_id_inbox [OF i that] by (simp add: fresh_id_def)
  qed (use i in \<open>simp add: fresh_id_def\<close>)
  then show ?thesis unfolding enqueue_def by (intro unless_closed_kept [OF a]) (auto simp: a split: sum.splits)
qed

lemma lane_append_kept:
  assumes a: "alive view ready h" and i: "fresh_id view h i" and p: "\<not> pending_assistant pending"
  shows "kept view ready (lane_append ops name pending i now h)"
proof -
  have "kept view ready (command ops name now (plan_append ops name i pending) h)"
  proof (rule command_kept [OF a, of "{i}"])
    show "plan_ok (view (se_storage (hn_session h))) {i} name l (plan_append ops name i pending l (new_mutation (se_storage (hn_session h))))"
      if "lane_map h name = Some l" for l
      using plan_append_ok [OF aliveD(3) [OF a] alive_lane [OF a that]] i fresh_id_inbox [OF i that] p by (simp add: fresh_id_def)
  qed (use i in \<open>simp add: fresh_id_def\<close>)
  then show ?thesis by (simp add: lane_append_def aliveD(1) [OF a] p)
qed

lemma acceptRun_kept:
  assumes a: "alive view ready h" and o: "fresh_operation h operationId" and p: "distinct promptIds" "\<forall>i\<in>set promptIds. fresh_id view h i"
  shows "kept view ready (acceptRun ops config name request operationId promptIds startedAt h)"
proof -
  have "kept view ready (command ops name startedAt (plan_run ops config name operationId startedAt (zip promptIds messages)) h)"
    if m: "\<not> (\<exists>message\<in>set messages. stops_with StopPending message)" for messages
  proof (rule command_kept [OF a, of "set (map fst (zip promptIds messages)) \<union> {operationId}"])
    let ?zip = "zip promptIds messages"
    have z: "set (map fst ?zip) \<subseteq> set promptIds" by (auto dest: set_zip_leftD)
    then show "\<forall>i\<in>set (map fst ?zip) \<union> {operationId}. unclaimed (lane_map h) i" using p(2) o by (auto simp: fresh_id_def fresh_operation_def)
    fix l assume l: "lane_map h name = Some l"
    have "distinct (map fst ?zip)" using p(1) by (simp add: distinct_take map_fst_zip_take)
    moreover note prompt_fresh [OF p(2) l m]
    ultimately show "plan_ok (view (se_storage (hn_session h))) (set (map fst ?zip) \<union> {operationId}) name l
        (plan_run ops config name operationId startedAt ?zip l (new_mutation (se_storage (hn_session h))))"
      using plan_run_ok [OF aliveD(3) [OF a] alive_lane [OF a l]] o unfolding fresh_operation_def by blast
  qed
  then show ?thesis unfolding acceptRun_def by (intro unless_closed_kept [OF a]) (auto simp: a split: sum.splits)
qed

lemma acceptCompaction_kept:
  assumes a: "alive view ready h" and o: "fresh_operation h operationId" "0 \<notin> set taskId"
  shows "kept view ready (acceptCompaction ops config name operationId taskId ci startedAt h)"
  unfolding acceptCompaction_def
  by (intro unless_closed_kept [OF a] command_kept [OF a, of "{operationId}"] plan_compaction_ok [OF aliveD(3) [OF a]] alive_lane [OF a])
    (use o in \<open>auto simp: fresh_operation_def\<close>)

lemma requestOperationAbort_kept:
  assumes a: "alive view ready h"
  shows "kept view ready (requestOperationAbort ops name operationId now h)"
  unfolding requestOperationAbort_def
  by (intro unless_closed_kept [OF a] command_kept [OF a, of "{}"] plan_abort_ok [OF aliveD(3) [OF a]] alive_lane [OF a]) simp_all

lemma cancelQueued_kept:
  assumes a: "alive view ready h"
  shows "kept view ready (cancelQueued ops name i now h)"
  unfolding cancelQueued_def
  by (intro unless_closed_kept [OF a] command_kept [OF a, of "{}"] plan_cancel_ok [OF aliveD(3) [OF a]] alive_lane [OF a]) simp_all

lemma recordUsage_kept:
  assumes a: "alive view ready h" and i: "fresh_id view h i"
  shows "kept view ready (recordUsage ops name usage entryId details i now h)"
  unfolding recordUsage_def
  by (intro unless_closed_kept [OF a] command_kept [OF a, of "{i}"] plan_usage_ok alive_lane [OF a])
    (use i fresh_id_inbox [OF i] in \<open>auto simp: fresh_id_def\<close>)

lemma configuration_kept:
  assumes a: "alive view ready h"
  shows "kept view ready (command ops name now (plan_configuration name update change) h)"
  by (intro command_kept [OF a, of "{}"] plan_configuration_ok alive_lane [OF a]) simp_all

lemma setters_kept:
  assumes "alive view ready h"
  shows "kept view ready (setModel ops name model now h)" "kept view ready (setThinkingLevel ops name level now h)"
    "kept view ready (setActiveTools ops name tools now h)"
  unfolding setModel_def setThinkingLevel_def setActiveTools_def by (rule configuration_kept [OF assms])+

lemma scanBranch_known: "ready st \<Longrightarrow> entry_in (view st) t \<Longrightarrow> \<exists>es. scanBranch (view st) (newest_query t) = Inr es"
  using scanBranch_path [OF storage_reachable_ok [OF view_reachable], of st "newest_query t"] by (auto simp: entry_in_def newest_query_def)

lemma navigation_preparation_ok:
  assumes a: "alive view ready h" and tip: "\<And>t. observed = Some t \<Longrightarrow> entry_in (view (se_storage (hn_session h))) t"
  shows "\<exists>p. navigation_preparation ops (hn_session h) summarize observed targetId = Inr p \<and>
    (summarize \<longrightarrow> observed \<noteq> None \<longrightarrow> (\<forall>t. targetId = Some t \<longrightarrow> entry_in (view (se_storage (hn_session h))) t \<longrightarrow> p \<noteq> None))"
proof (cases "summarize \<and> observed \<noteq> None \<and> targetId \<noteq> None")
  case True
  then obtain tip target where o: "observed = Some tip" "targetId = Some target" "summarize" by blast
  let ?st = "se_storage (hn_session h)"
  note al = aliveD [OF a]
  have reads: "session_getEntries ops (hn_session h) ids = Inr (getEntries (view ?st) ids)" "session_scanBranch ops (hn_session h) q = scanBranch (view ?st) q" for ids q
    using al(2,3) by (simp_all add: session_getEntries_def session_scanBranch_def assertOpen_def getEntries_ok scanBranch_ok)
  show ?thesis
  proof (cases "entry_in (view ?st) target")
    case True
    with scanBranch_known [OF al(3)] tip [OF o(1)] obtain es fs where
      "scanBranch (view ?st) (newest_query tip) = Inr es" "scanBranch (view ?st) (newest_query target) = Inr fs" by blast
    then show ?thesis
      using True has_key_getEntries [OF view_reachable [OF al(3)]] by (simp add: navigation_preparation_def o reads)
  next
    case False
    then show ?thesis using has_key_getEntries [OF view_reachable [OF al(3)]] by (simp add: navigation_preparation_def o reads)
  qed
qed (cases summarize; cases observed; cases targetId; simp add: navigation_preparation_def)

lemma acceptNavigation_kept:
  assumes a: "alive view ready h" and o: "fresh_operation h operationId" "0 \<notin> set taskId"
  shows "kept view ready (acceptNavigation ops config name operationId taskId targetId options startedAt h)"
proof (cases "map_of (hn_lanes h) name")
  case None
  then show ?thesis unfolding acceptNavigation_def by (intro unless_closed_kept [OF a]) (simp add: a)
next
  case (Some ln)
  let ?st = "se_storage (hn_session h)" and ?tip = "ll_tipId (ln_state ln)"
  have l: "lane_map h name = Some (ln_state ln)" by (simp add: lane_map_def Some)
  define good where "good p \<longleftrightarrow> navigation_preparation ops (hn_session h) (no_summarize options = Some True) ?tip targetId = Inr p \<and>
      (no_summarize options = Some True \<longrightarrow> ?tip \<noteq> None \<longrightarrow> (\<forall>t. targetId = Some t \<longrightarrow> entry_in (view ?st) t \<longrightarrow> p \<noteq> None))" for p
  have "\<exists>p. good p" unfolding good_def by (rule navigation_preparation_ok [OF a]) (rule lane_okD(4) [OF alive_lane [OF a l]])
  then obtain p where "good p" ..
  note p = this [unfolded good_def]
  have "kept view ready (navigation_pass ops config name operationId taskId targetId options startedAt ?tip p h)"
    unfolding navigation_pass_def
  proof (rule command_kept [OF a, of "{operationId}"])
    show "plan_ok (view ?st) {operationId} name l'
        (plan_navigation ops config name operationId startedAt taskId targetId options ?tip p l' (new_mutation ?st))" if "lane_map h name = Some l'" for l'
    proof (rule plan_navigation_ok [OF aliveD(3) [OF a] alive_lane [OF a that]])
      show "p \<noteq> None" if "no_summarize options = Some True" "ll_tipId l' \<noteq> None" "targetId = Some t" "entry_in (view ?st) t" for t
        using p that l \<open>lane_map h name = Some l'\<close> by simp
    qed (use o in \<open>simp_all add: fresh_operation_def\<close>)
  qed (use o in \<open>simp add: fresh_operation_def\<close>)
  then show ?thesis
    unfolding acceptNavigation_def
    by (intro unless_closed_kept [OF a]) (auto simp: Some p [THEN conjunct1] Let_def kept_def answers_def split: prod.splits sum.splits option.splits)
qed

section \<open>Owners\<close>

lemma plan_drive_ok:
  assumes "ready st" "0 \<notin> set operationId"
  shows "plan_ok (view st) {} name l (plan_drive ops name activeDrive operationId aborted l (new_mutation st))"
  using assms by (auto simp: plan_drive_def operationResult_def read_typed_value)

lemma drive_claim_kept:
  assumes a: "alive view ready h" and o: "0 \<notin> set operationId"
  shows "kept view ready (drive_claim ops name operationId aborted now h)"
proof -
  have "kept view ready (command ops name now (plan_drive ops name d operationId aborted) h)" for d
    by (rule command_kept [OF a, of "{}"]) (simp_all add: plan_drive_ok [OF aliveD(3) [OF a] o])
  then have k: "kept view ready (command ops name now (plan_drive ops name (Option.bind (map_of (hn_lanes h) name) ln_activeDrive) operationId aborted) h)" .
  obtain h' r where r: "command ops name now (plan_drive ops name (Option.bind (map_of (hn_lanes h) name) ln_activeDrive) operationId aborted) h = (h', r)"
    by fastforce
  from k have "alive view ready h'" "answers r" by (simp_all add: r kept_def)
  then show ?thesis
    unfolding drive_claim_def r
    by (intro unless_closed_kept [OF a]; cases r; (cases "projr r")?) (auto simp: kept_def answers_def intro!: alive_update split: bool.splits)
qed

lemma idle_claim_kept:
  assumes a: "alive view ready h"
  shows "kept view ready (idle_claim ops name now h)"
proof -
  have "kept view ready (command ops name now (plan_idle d) h)" for d
    by (rule command_kept [OF a, of "{}"]) (simp_all add: plan_idle_def)
  then show ?thesis
    unfolding idle_claim_def by (auto simp: kept_def intro!: alive_update split: prod.splits sum.splits bool.splits) (metis fst_conv snd_conv)+
qed

end

lemma owners_alive:
  assumes "alive view ready h"
  shows "alive view ready (drive_done name h)" "alive view ready (idle_release name h)"
  unfolding drive_done_def idle_release_def by (rule alive_update [OF assms]; simp)+

end
