(* ===== verification/Lane_Acquire.thy ===== *)
theory Lane_Acquire
  imports Lane_Calls
begin

text \<open>
  Acquiring lanes, the session-wide values, and the restart of a harness: the lanes a new harness restores from the session are exactly
  the lanes the old one held.
\<close>

section \<open>Acquiring a lane\<close>

lemma lane_map_add: "lane_map (add_lane name l h) = (lane_map h)(name \<mapsto> l)"
  by (auto simp: lane_map_def add_lane_def new_lane_def)

definition made_writes :: "jstring \<Rightarrow> bool \<Rightarrow> jstring option \<Rightarrow> lane_configuration \<Rightarrow> store_write list" where
  "made_writes name absent tipId seed =
     (if absent then [WValueSet ns_tip name (STip tipId)] else []) @
     [WValueSet ns_config name (SConfig seed),
      WValueSet ns_state name (SLane \<lparr>ls_currentOperationId = None, ls_lastOperationId = None, ls_inbox = []\<rparr>)]"

lemma claims_initial: "claims name (initial_lane t seed) = {(ns_tip, name), (ns_config, name), (ns_state, name)}"
  by (simp add: claims_def initial_lane_def current_id_def inbox_ids_def)

lemma made_writes_ok:
  assumes s: "storage_reachable s" "lanes_ok s M" "M name = None" and n: "0 \<notin> set name"
    and t: "\<not> absent \<Longrightarrow> value_at s (ns_tip, name) = Some (STip tipId)" "\<And>i. tipId = Some i \<Longrightarrow> entry_in s i"
    and job: "commit_job s (made_writes name absent tipId seed) now = (s', Inr r)"
  shows "lanes_ok s' (M(name \<mapsto> initial_lane tipId seed))"
proof (rule lanes_ok_update [OF s(1,2) job, where C = "{(ns_tip, name), (ns_config, name), (ns_state, name)}"])
  show "claims n l \<inter> {(ns_tip, name), (ns_config, name), (ns_state, name)} = {}" if "M n = Some l" "n \<noteq> name" for n l
    using that(2) by (auto simp: claims_def split: option.splits)
  show "lane_ok (value_at s') (entry_in s') (id_used s') name (initial_lane tipId seed)"
    using t n
    by (auto simp: lane_ok_def commit_effect(1,2) [OF s(1) job] made_writes_def initial_lane_def durableLaneState_def current_id_def)
qed (auto simp: made_writes_def claims_initial)

lemma made_writes_fit: "0 \<notin> set name \<Longrightarrow> commit_fits s (made_writes name absent tipId seed)"
  by (auto simp: commit_fits_def made_writes_def)

lemma made_writes_plain: "w \<in> set (made_writes name absent tipId seed) \<Longrightarrow> \<not> pending_assistant_write w"
  by (auto simp: made_writes_def value_writes_plain split: if_splits)

context live_storage
begin

lemma mutation_commit_total:
  assumes "ready st" "commit_fits (view st) ws" "\<And>w. w \<in> set ws \<Longrightarrow> \<not> pending_assistant_write w"
  shows "\<exists>m r. mutation_commit ops (new_mutation st) ws now = (m, Inr r) \<and> ready (mu_storage m) \<and> commit_job (view st) ws now = (view (mu_storage m), Inr r)"
proof -
  from commit_succeeds [OF view_reachable [OF assms(1)] assms(2)] obtain v r where "commit_job (view st) ws now = (v, Inr r)" by blast
  from commit_live [OF assms(1) this] obtain s' where s': "so_commit ops st ws now = (s', Inr r)" by blast
  then have "mutation_commit ops (new_mutation st) ws now = ((new_mutation st)\<lparr>mu_storage := s', mu_attempted := True\<rparr>, Inr r)"
    using assms(3) by (auto simp: mutation_commit_def new_mutation_def)
  with commit_ok [OF assms(1) s'] show ?thesis by simp
qed

lemma make_lane_ok:
  assumes st: "ready st" "lanes_ok (view st) M" "M name = None" and n: "0 \<notin> set name"
    and t: "\<not> absent \<Longrightarrow> value_at (view st) (ns_tip, name) = Some (STip tipId) \<and> (\<forall>i. tipId = Some i \<longrightarrow> entry_in (view st) i)"
  shows "(\<exists>m. make_lane ops name absent tipId seed now (new_mutation st) = (m, Inr (LaneMade (initial_lane tipId seed))) \<and>
      ready (mu_storage m) \<and> lanes_ok (view (mu_storage m)) (M(name \<mapsto> initial_lane tipId seed))) \<or>
    make_lane ops name absent tipId seed now (new_mutation st) = (new_mutation st, Inr (TargetUnknown (the tipId)))"
proof -
  let ?known = "\<forall>i. tipId = Some i \<longrightarrow> entry_in (view st) i"
  have k: "(case tipId of None \<Rightarrow> Inr True
       | Some t \<Rightarrow> if absent then rbind (mutation_getEntries ops (new_mutation st) [t]) (\<lambda>found. Inr (has_key found t)) else Inr True) =
      (Inr ?known :: (session_error, bool) res)"
    using st(1) t has_key_getEntries [OF view_reachable [OF st(1)]] by (auto split: option.splits)
  show ?thesis
  proof (cases ?known)
    case True
    obtain m r where
      m: "mutation_commit ops (new_mutation st) (made_writes name absent tipId seed) now = (m, Inr r)" "ready (mu_storage m)"
        "commit_job (view st) (made_writes name absent tipId seed) now = (view (mu_storage m), Inr r)"
      using mutation_commit_total [OF st(1) made_writes_fit [OF n, of "view st" absent tipId seed], of now] made_writes_plain by metis
    have "lanes_ok (view (mu_storage m)) (M(name \<mapsto> initial_lane tipId seed))"
      by (rule made_writes_ok [OF view_reachable [OF st(1)] st(2,3) n _ _ m(3)]) (use t True in auto)
    with m(1,2) True show ?thesis
      unfolding make_lane_def k by (cases absent) (simp_all add: with_read_def address_at n write_simps made_writes_def)
  next
    case False
    then show ?thesis unfolding make_lane_def k by (simp add: with_read_def)
  qed
qed

lemma acquire_body_ok:
  assumes st: "ready st" "lanes_ok (view st) M" "M name = None" and n: "0 \<notin> set name"
  shows "(\<exists>m l. acquire_body ops name False createAt seed now (new_mutation st) = (m, Inr (LaneMade l)) \<and>
      ready (mu_storage m) \<and> lanes_ok (view (mu_storage m)) (M(name \<mapsto> l))) \<or>
    (\<exists>t. acquire_body ops name False createAt seed now (new_mutation st) = (new_mutation st, Inr (TargetUnknown t)))"
proof -
  let ?V = "value_at (view st)"
  have v: "vacant (view st) name" using st(2,3) by (simp add: lanes_ok_def)
  then have none: "?V (ns_config, name) = None" "?V (ns_state, name) = None" by (simp_all add: vacant_def)
  have read: "readLaneStorage ops (new_mutation st) name = Inr (case ?V (ns_tip, name) of Some (STip t) \<Rightarrow> LaneBranch t | _ \<Rightarrow> LaneAbsent)"
    using st(1) n v none
    by (auto simp: readLaneStorage_def branchTip_def laneConfig_def laneState_def read_typed_value classifyLaneStorage_def vacant_def split: option.splits)
  show ?thesis
  proof (cases "?V (ns_tip, name)")
    case None
    then show ?thesis
      using make_lane_ok [OF st n, of True createAt seed now] by (auto simp: acquire_body_def with_read_def read)
  next
    case (Some w)
    with v obtain t where "w = STip t" "\<forall>i. t = Some i \<longrightarrow> entry_in (view st) i" by (auto simp: vacant_def)
    with Some show ?thesis
      using make_lane_ok [OF st n, of False t seed now] by (auto simp: acquire_body_def with_read_def read)
  qed
qed

lemma harness_lane_kept:
  assumes a: "alive view ready h"
  shows "kept view ready (harness_lane ops name createAt seed now h)"
proof (cases "name = [] \<or> 0 \<in> set name")
  case True
  then show ?thesis by (auto simp: harness_lane_def aliveD(1) [OF a] a)
next
  case False
  let ?st = "se_storage (hn_session h)" and ?known = "has_key (hn_lanes h) name"
  note al = aliveD [OF a]
  have mut: "mutate (hn_session h) f = ((hn_session h)\<lparr>se_storage := mu_storage (fst (f (new_mutation ?st)))\<rparr>, snd (f (new_mutation ?st)))"
    for f :: "'a mutation \<Rightarrow> 'a mutation \<times> (session_error, acquired) res"
    by (simp add: mutate_def assertOpen_def al(2) mutation_end_def split: prod.splits)
  show ?thesis
  proof (cases ?known)
    case True
    have "h\<lparr>hn_session := (hn_session h)\<lparr>se_storage := ?st\<rparr>\<rparr> = h" by simp
    with False True a show ?thesis by (simp add: harness_lane_def al(1) mut acquire_body_def new_mutation_def)
  next
    case fresh: False
    then have "lane_map h name = None" by (simp add: lane_map_def)
    from acquire_body_ok [OF al(3,4) this, of createAt seed now] False consider
      (made) m l where "acquire_body ops name False createAt seed now (new_mutation ?st) = (m, Inr (LaneMade l))"
        "ready (mu_storage m)" "lanes_ok (view (mu_storage m)) ((lane_map h)(name \<mapsto> l))"
    | (unknown) t where "acquire_body ops name False createAt seed now (new_mutation ?st) = (new_mutation ?st, Inr (TargetUnknown t))" by blast
    then show ?thesis
    proof cases
      case made
      with False fresh show ?thesis
        by (simp add: harness_lane_def al mut alive_def harness_ok_def lane_map_add) (simp add: add_lane_def al)
    next
      case unknown
      have "h\<lparr>hn_session := (hn_session h)\<lparr>se_storage := ?st\<rparr>\<rparr> = h" by simp
      with False fresh unknown a show ?thesis by (simp add: harness_lane_def al mut new_mutation_def)
    qed
  qed
qed

section \<open>Session-wide values\<close>

lemma lanes_ok_free:
  assumes s: "storage_reachable s" "lanes_ok s M" and job: "commit_job s ws now = (s', Inr r)" and ws: "touched ws \<subseteq> free_addrs" "new_ids ws = []"
  shows "lanes_ok s' M"
proof -
  note eff = commit_effect [OF s(1) job]
  have V: "value_at s' p = value_at s p" if "p \<notin> free_addrs" for p using that ws(1) by (metis apply_values_untouched eff(1) subsetD)
  have "lane_ok (value_at s') (entry_in s') (id_used s') n l" if "M n = Some l" for n l
  proof (rule lane_ok_frame)
    show "lane_ok (value_at s) (entry_in s) (id_used s) n l" using s(2) that by (simp add: lanes_ok_def)
    show "value_at s' p = value_at s p" if "p \<in> claims n l" for p by (rule V) (use claims_free [of n l] that in blast)
  qed (simp_all add: eff(2,3) ws(2))
  moreover have "vacant s' n" if "vacant s n" for n
    using that by (auto simp: vacant_def V free_addrs_def eff(2))
  ultimately show ?thesis using s(2) by (simp add: lanes_ok_def)
qed

lemma set_session_value_kept:
  assumes a: "alive view ready h" and ad: "address = Inr \<lparr>a_namespace = ns, a_key = k, a_kind = AValue\<rparr>" "(ns, k) \<in> free_addrs" "valid_address ns k"
  shows "kept view ready (set_session_value ops address v event now h)"
proof -
  let ?st = "se_storage (hn_session h)" and ?ws = "[case v of None \<Rightarrow> WValueDelete ns k | Some t \<Rightarrow> WValueSet ns k (SText t)]"
  note al = aliveD [OF a]
  have "commit_fits (view ?st) ?ws" using ad(3) by (auto simp: commit_fits_def split: option.splits)
  moreover have "\<not> pending_assistant_write w" if "w \<in> set ?ws" for w using that by (auto simp: value_writes_plain split: option.splits)
  ultimately obtain m r where m: "mutation_commit ops (new_mutation ?st) ?ws now = (m, Inr r)" "ready (mu_storage m)"
      "commit_job (view ?st) ?ws now = (view (mu_storage m), Inr r)" using mutation_commit_total [OF al(3), of ?ws now] by blast
  have "lanes_ok (view (mu_storage m)) (lane_map h)"
    by (rule lanes_ok_free [OF view_reachable [OF al(3)] al(4) m(3)]) (use ad(2) in \<open>auto split: option.splits\<close>)
  moreover have "(case v of None \<Rightarrow> deleteValue \<lparr>a_namespace = ns, a_key = k, a_kind = AValue\<rparr>
      | Some t \<Rightarrow> setValue \<lparr>a_namespace = ns, a_key = k, a_kind = AValue\<rparr> (SText t)) = hd ?ws" by (simp add: write_simps split: option.splits)
  ultimately show ?thesis
    using m(1,2) by (simp add: set_session_value_def al mutate_def assertOpen_def with_read_def ad(1) mutation_end_def alive_def harness_ok_def)
qed

lemma session_values_kept:
  assumes a: "alive view ready h"
  shows "kept view ready (harness_setName ops name now h)" "0 \<notin> set targetId \<Longrightarrow> kept view ready (harness_setLabel ops targetId label now h)"
  unfolding harness_setName_def harness_setLabel_def sessionName_def entryLabel_def
  by (rule set_session_value_kept [OF a]; simp add: value_address_valid valid_address_def js_nonzero free_addrs_def; simp add: js_def)+

end

end
