(* ===== verification/Lane_Restart.thy ===== *)
theory Lane_Restart
  imports Lane_Acquire
begin

text \<open>
  The restart of a harness: the lanes that \<^verbatim>\<open>createAgentHarness\<close> restores from a session are exactly the lanes that the harness before it held,
  with their open operations.
\<close>

section \<open>Inventories\<close>

lemma map_of_by_lane:
  "map_of (by_lane f vs) k = None \<longleftrightarrow> k \<notin> (\<lambda>v. a_key (sv_address v)) ` set vs"
  "map_of (by_lane f vs) k = Some y \<Longrightarrow> \<exists>v\<in>set vs. a_key (sv_address v) = k \<and> y = f (sv_value v)"
  by (induction vs rule: rev_induct) (auto simp: by_lane_def split: if_splits)

lemma getValue_address:
  assumes "storage_reachable s" "getValue s a = Some v" "valid_address (a_namespace a) (a_key a)"
  shows "a_namespace (sv_address v) = a_namespace a" "a_key (sv_address v) = a_key a"
proof -
  have "\<forall>(k, v)\<in>set (s_scalarValues s). scalar_ok (s_nextSeq s) k v"
    using storage_reachable_ok [OF assms(1)] by (auto simp: storage_ok_def values_ok_def)
  with assms(2) have "scalar_ok (s_nextSeq s) (physicalKey (a_namespace a) (a_key a)) v" by (auto simp: getValue_def dest!: map_of_SomeD)
  with assms(3) show "a_namespace (sv_address v) = a_namespace a" "a_key (sv_address v) = a_key a"
    by (simp_all add: scalar_ok_def physicalKey_inject)
qed

lemma lookup_inventory:
  assumes s: "storage_reachable s" and k: "valid_address ns k"
  shows "lane_lookup (by_lane f (scanValues s \<lparr>a_namespace = ns, a_key = [], a_kind = AValue\<rparr>)) k = Option.bind (value_at s (ns, k)) f"
    (is "lane_lookup (by_lane f ?vs) k = _")
proof -
  note members = scanValues_members [OF storage_reachable_ok [OF s], where p = "\<lparr>a_namespace = ns, a_key = [], a_kind = AValue\<rparr>", simplified]
  have V: "value_at s (ns, k) = map_option sv_value (getValue s \<lparr>a_namespace = ns, a_key = k, a_kind = AValue\<rparr>)"
    using getValue_abs [of s "\<lparr>a_namespace = ns, a_key = k, a_kind = AValue\<rparr>", symmetric] by (simp add: value_at_def option.map_comp comp_def)
  show ?thesis
  proof (cases "map_of (by_lane f ?vs) k")
    case None
    have "getValue s \<lparr>a_namespace = ns, a_key = k, a_kind = AValue\<rparr> = None"
    proof (rule ccontr)
      assume "getValue s \<lparr>a_namespace = ns, a_key = k, a_kind = AValue\<rparr> \<noteq> None"
      then obtain v where v: "getValue s \<lparr>a_namespace = ns, a_key = k, a_kind = AValue\<rparr> = Some v" by blast
      from getValue_address [OF s v] k have "a_namespace (sv_address v) = ns" "a_key (sv_address v) = k" by simp_all
      with v have "v \<in> set ?vs" by (simp add: members getValue_def)
      with None \<open>a_key (sv_address v) = k\<close> show False unfolding map_of_by_lane(1) by blast
    qed
    with None show ?thesis by (simp add: lane_lookup_def V)
  next
    case (Some y)
    from map_of_by_lane(2) [OF this] obtain v where v: "v \<in> set ?vs" "a_key (sv_address v) = k" "y = f (sv_value v)" by blast
    then have "getValue s \<lparr>a_namespace = ns, a_key = k, a_kind = AValue\<rparr> = Some v" by (auto simp: members getValue_def)
    with Some v(3) show ?thesis by (simp add: lane_lookup_def V)
  qed
qed

lemma inventory_key:
  assumes s: "storage_reachable s" and k: "k \<in> set (keys (by_lane f (scanValues s \<lparr>a_namespace = ns, a_key = [], a_kind = AValue\<rparr>)))"
  shows "valid_address ns k \<and> value_at s (ns, k) \<noteq> None"
proof -
  let ?vs = "scanValues s \<lparr>a_namespace = ns, a_key = [], a_kind = AValue\<rparr>"
  from k have "map_of (by_lane f ?vs) k \<noteq> None" by (simp add: map_of_eq_None_iff)
  then obtain v where v: "v \<in> set ?vs" "a_key (sv_address v) = k" unfolding map_of_by_lane(1) by blast
  then have g: "a_namespace (sv_address v) = ns" "getValue s (sv_address v) = Some v"
    using scanValues_members [OF storage_reachable_ok [OF s], where p = "\<lparr>a_namespace = ns, a_key = [], a_kind = AValue\<rparr>"] by simp_all
  then have "scalar_ok (s_nextSeq s) (physicalKey ns k) v"
    using storage_reachable_ok [OF s] v(2) by (auto simp: storage_ok_def values_ok_def getValue_def dest!: map_of_SomeD)
  moreover have "value_at s (ns, k) \<noteq> None"
    using g v(2) getValue_abs [of s "sv_address v", symmetric] by (simp add: value_at_def)
  ultimately show ?thesis using g(1) v(2) by (simp add: scalar_ok_def)
qed

section \<open>Restoring one lane\<close>

lemma set_foldl_set_add: "set (foldl (\<lambda>names name. set_add name names) ns xs) = set ns \<union> set xs"
  by (induction xs arbitrary: ns) (auto simp: set_add_def)

context session_storage
begin

lemma restoreLaneState_ok:
  assumes "ready st" "lane_in (view st) name l"
  shows "restoreLaneState ops (new_mutation st) name (ll_tipId l) (ll_configuration l) (durableLaneState l (current_id l) (ll_inbox l)) = Inr l"
proof (cases "ll_operation l")
  case None
  then show ?thesis by (simp add: restoreLaneState_def durableLaneState_def current_id_def)
next
  case (Some op)
  from lane_okD(5) [OF assms(2) Some] have ok: "operation_ok (value_at (view st)) name op" .
  then have "restore_operation ops (new_mutation st) name (om_operationId (op_meta op)) = Inr op"
    using assms(1) by (auto simp: restore_operation_def operationMeta_def operationState_def read_typed_value operation_ok_def)
  then show ?thesis using Some by (simp add: restoreLaneState_def durableLaneState_def current_id_def)
qed

lemma read_lane_ok:
  assumes "ready st" "lane_in (view st) name l"
  shows "read_lane ops (new_mutation st) name = Inr l"
proof -
  have "readLaneStorage ops (new_mutation st) name = Inr (LaneConfigured (ll_tipId l) (ll_configuration l) (durableLaneState l (current_id l) (ll_inbox l)))"
    using assms
    by (simp add: readLaneStorage_def branchTip_def laneConfig_def laneState_def read_typed_value classifyLaneStorage_def lane_ok_def)
  with restoreLaneState_ok [OF assms] show ?thesis by (simp add: read_lane_def)
qed

section \<open>Restoring the session\<close>

lemma restore_each_ok:
  assumes "ready st" "lanes_ok (view st) M"
    and "\<And>n. n \<in> set names \<Longrightarrow> classify n = Inr (case M n of
      Some l \<Rightarrow> LaneConfigured (ll_tipId l) (ll_configuration l) (durableLaneState l (current_id l) (ll_inbox l)) | None \<Rightarrow> skipped n)"
    and "\<And>n t c x. skipped n \<noteq> LaneConfigured t c x" and "distinct (keys restored)"
  shows "\<exists>out. restore_each ops (new_mutation st) classify names restored = Inr out \<and>
    (\<forall>n. map_of out n = (if n \<in> set names \<and> M n \<noteq> None then M n else map_of restored n)) \<and> distinct (keys out)"
  using assms(3,5)
proof (induction names arbitrary: restored)
  case (Cons n names)
  show ?case
  proof (cases "M n")
    case None
    with Cons.IH [of restored] Cons.prems assms(4) show ?thesis by (cases "skipped n") auto
  next
    case (Some l)
    then have "lane_in (view st) n l" using assms(2) by (simp add: lanes_ok_def)
    from restoreLaneState_ok [OF assms(1) this] Some Cons.IH [of "AList.update n l restored"] Cons.prems
    show ?thesis by (auto simp: update_conv' distinct_update)
  qed
qed auto

lemma read_session_ok:
  assumes st: "ready st" "lanes_ok (view st) M"
  shows "\<exists>out. read_session ops (new_mutation st) = Inr out \<and> map_of out = M \<and> distinct (keys out)"
proof -
  let ?s = "view st" and ?V = "value_at (view st)"
  let ?inv = "\<lambda>ns. scanValues ?s \<lparr>a_namespace = ns, a_key = [], a_kind = AValue\<rparr>"
  have scan: "mutation_scanValues ops (new_mutation st) a = Inr (scanValues ?s a)" for a
    by (simp add: mutation_scanValues_def new_mutation_def scanValues_ok [OF st(1)])
  have s: "storage_reachable ?s" by (rule view_reachable [OF st(1)])
  define tips where "tips = by_lane as_tip (?inv ns_tip)"
  define configurations where "configurations = by_lane as_config (?inv ns_config)"
  define states where "states = by_lane as_lane (?inv ns_state)"
  define names where "names = foldl (\<lambda>names name. set_add name names) [] (keys tips @ keys configurations @ keys states)"
  define classify where "classify = (\<lambda>lane. classifyLaneStorage lane (lane_lookup tips lane) (lane_lookup configurations lane) (lane_lookup states lane))"
  have nz: "0 \<notin> set n" if "n \<in> set names" for n
  proof -
    from that have "n \<in> set (keys tips) \<or> n \<in> set (keys configurations) \<or> n \<in> set (keys states)"
      unfolding names_def set_foldl_set_add by simp
    then show ?thesis unfolding tips_def configurations_def states_def by (elim disjE) (use inventory_key [OF s] valid_address_def in blast)+
  qed
  have look: "classify n = classifyLaneStorage n (Option.bind (?V (ns_tip, n)) as_tip) (Option.bind (?V (ns_config, n)) as_config) (Option.bind (?V (ns_state, n)) as_lane)"
    if "n \<in> set names" for n
    using nz [OF that] by (simp add: classify_def tips_def configurations_def states_def lookup_inventory [OF s])
  define skipped where "skipped n = (case ?V (ns_tip, n) of Some (STip t) \<Rightarrow> LaneBranch t | _ \<Rightarrow> LaneAbsent)" for n
  have c: "classify n = Inr (case M n of
      Some l \<Rightarrow> LaneConfigured (ll_tipId l) (ll_configuration l) (durableLaneState l (current_id l) (ll_inbox l)) | None \<Rightarrow> skipped n)"
    if "n \<in> set names" for n
  proof (cases "M n")
    case None
    then have "vacant ?s n" using st(2) by (simp add: lanes_ok_def)
    then show ?thesis by (auto simp: look [OF that] None vacant_def classifyLaneStorage_def skipped_def split: option.splits)
  next
    case (Some l)
    then have "lane_in ?s n l" using st(2) by (simp add: lanes_ok_def)
    then show ?thesis by (simp add: look [OF that] Some lane_ok_def classifyLaneStorage_def)
  qed
  have sk: "skipped n \<noteq> LaneConfigured t x y" for n t x y by (auto simp: skipped_def split: option.splits sval.splits)
  have "\<exists>out. restore_each ops (new_mutation st) classify names [] = Inr out \<and>
      (\<forall>n. map_of out n = (if n \<in> set names \<and> M n \<noteq> None then M n else map_of [] n)) \<and> distinct (keys out)"
    by (rule restore_each_ok [OF st c sk]) simp_all
  then obtain out where out: "restore_each ops (new_mutation st) classify names [] = Inr out"
      "\<And>n. map_of out n = (if n \<in> set names \<and> M n \<noteq> None then M n else None)" "distinct (keys out)" by auto
  have "n \<in> set names" if "M n = Some l" for n l
  proof -
    have "lane_in ?s n l" using st(2) that by (simp add: lanes_ok_def)
    then have "lane_lookup configurations n = Some (ll_configuration l)"
      by (simp add: configurations_def lookup_inventory [OF s] lane_ok_def)
    then have "map_of configurations n \<noteq> None" by (cases "map_of configurations n") (simp_all add: lane_lookup_def)
    then have "n \<in> set (keys configurations)" by (simp add: map_of_eq_None_iff)
    then show ?thesis by (simp add: names_def set_foldl_set_add)
  qed
  then have "map_of out = M" using out(2) by (metis (no_types, opaque_lifting) ext not_None_eq)
  moreover have "read_session ops (new_mutation st) = Inr out"
    using out(1)
    by (simp add: read_session_def branchTipInventoryPrefix_def laneConfig_def laneState_def value_address_valid scan Let_def
        tips_def configurations_def states_def names_def classify_def)
  ultimately show ?thesis using out(3) by blast
qed

lemma restoreLane_ok:
  assumes "ready (se_storage se)" "se_state se = IsOpen" "lane_in (view (se_storage se)) name l"
  shows "restoreLane ops se name = (se, Inr l)"
  using assms by (simp add: restoreLane_def mutate_def assertOpen_def read_lane_ok mutation_end_def) (simp add: new_mutation_def)

lemma createAgentHarness_ok:
  assumes a: "alive view ready h"
  shows "\<exists>h' opened. createAgentHarness ops (hn_session h) = Inr (h', opened) \<and> alive view ready h' \<and> hn_session h' = hn_session h \<and>
    lane_map h' = lane_map h \<and>
    (\<forall>x. x \<in> set opened \<longleftrightarrow> (\<exists>name l op. lane_map h name = Some l \<and> ll_operation l = Some op \<and>
      x = \<lparr>oo_lane = name, oo_operationId = om_operationId (op_meta op), oo_kind = intent_kind (om_intent (op_meta op)),
        oo_startedAt = om_startedAt (op_meta op), oo_aborting = is_cancelled (op_state op)\<rparr>))"
proof -
  note al = aliveD [OF a]
  let ?st = "se_storage (hn_session h)"
  from read_session_ok [OF al(3,4)] obtain out where out: "read_session ops (new_mutation ?st) = Inr out" "map_of out = lane_map h"
    "distinct (keys out)" by blast
  have r: "restoreSession ops (hn_session h) = (hn_session h, Inr out)"
    using al(2) by (simp add: restoreSession_def mutate_def assertOpen_def out(1) mutation_end_def) (simp add: new_mutation_def)
  let ?h = "\<lparr>hn_session = hn_session h, hn_lanes = map (\<lambda>(name, state). (name, new_lane state)) out, hn_closed = None, hn_events = []\<rparr>"
  have "map_of (map (\<lambda>(name, state). (name, new_lane state)) out) n = map_option new_lane (map_of out n)" for n by (induction out) auto
  then have "lane_map ?h = lane_map h" by (simp add: lane_map_def fun_eq_iff option.map_comp comp_def new_lane_def out(2) [symmetric] option.map_ident)
  moreover have "x \<in> set (open_operations out) \<longleftrightarrow> (\<exists>name l op. lane_map h name = Some l \<and> ll_operation l = Some op \<and>
      x = \<lparr>oo_lane = name, oo_operationId = om_operationId (op_meta op), oo_kind = intent_kind (om_intent (op_meta op)),
        oo_startedAt = om_startedAt (op_meta op), oo_aborting = is_cancelled (op_state op)\<rparr>)" for x
    unfolding open_operations_def out(2) [symmetric] using out(3) by (force split: option.splits)
  ultimately show ?thesis using al by (simp add: createAgentHarness_def r alive_def harness_ok_def)
qed

end

end
