(* ===== verification/Lane_Settle.thy ===== *)
theory Lane_Settle
  imports Lane_Restart
begin

text \<open>
  What a transition of an operation has to write so that \<^verbatim>\<open>settleOperation\<close> publishes it: the values of the planner store the patch of the lane, and
  stay within the tip and the configuration of the lane, its queue and the values that no lane relies on. The state of the
  operation and of the lane are written beside them.
\<close>

section \<open>The contract of a planner\<close>

definition patch_ok ::
  "storage_state \<Rightarrow> jstring set \<Rightarrow> jstring \<Rightarrow> live_lane \<Rightarrow> (jstring \<times> jstring) set \<Rightarrow> lane_patch \<Rightarrow> store_write list \<Rightarrow> bool" where
  "patch_ok s F name l X patch ws \<longleftrightarrow>
     touched ws \<subseteq> {(ns_tip, name), (ns_config, name)} \<union> Pair ns_pending ` (inbox_ids l \<union> F) \<union> X \<union> free_addrs \<and>
     apply_values ws (value_at s) (ns_tip, name) = Some (STip (ll_tipId (patch_lane patch l))) \<and>
     apply_values ws (value_at s) (ns_config, name) = Some (SConfig (ll_configuration (patch_lane patch l))) \<and>
     (\<forall>t. ll_tipId (patch_lane patch l) = Some t \<longrightarrow> entry_in s t \<or> t \<in> set (new_entry_ids ws)) \<and>
     distinct (map ii_entryId (ll_inbox (patch_lane patch l))) \<and> inbox_ids (patch_lane patch l) \<subseteq> inbox_ids l \<union> F \<and>
     (\<forall>item\<in>set (ll_inbox (patch_lane patch l)). item_ok (apply_values ws (value_at s)) (\<lambda>i. id_used s i \<or> i \<in> set (new_ids ws)) item) \<and>
     set (new_ids ws) \<subseteq> inbox_ids l \<union> F \<and> commit_fits s ws \<and> (\<forall>w\<in>set ws. \<not> pending_assistant_write w)"

definition settles :: "storage_state \<Rightarrow> jstring set \<Rightarrow> jstring \<Rightarrow> live_lane \<Rightarrow> operation \<Rightarrow> 'r operation_command \<Rightarrow> bool" where
  "settles s F name l op d \<longleftrightarrow>
     (case d of
        OpReturn r \<Rightarrow> True
      | OpCommit ws state patch mat ev \<Rightarrow> patch_ok s F name l {} patch ws \<and> stateMatchesIntent (om_intent (op_meta op)) state
      | OpFinish ws result patch mat ev \<Rightarrow>
          patch_ok s F name l {(ns_meta, om_operationId (op_meta op)), (ns_operation, om_operationId (op_meta op))} patch ws)"

lemma settles_continue:
  "(\<And>d. plan l (op_state op) (op_meta op) m = Inr d \<Longrightarrow> settles s F name l op d) \<Longrightarrow> is_ok (plan l (op_state op) (op_meta op) m) \<Longrightarrow>
     \<exists>d. plan_continue plan l (op_state op) (op_meta op) m = Inr d \<and> settles s F name l op d"
  by (cases "plan l (op_state op) (op_meta op) m")
    (auto simp: plan_continue_def settles_def is_ok_iff split: operation_command.splits)

section \<open>Settled decisions are good\<close>

lemma patch_lane_simps [simp]: "ll_lastOperationId (patch_lane p l) = ll_lastOperationId l" "ll_operation (patch_lane p l) = ll_operation l"
  by (simp_all add: patch_lane_def)

lemma parents_before_append_values:
  assumes "\<And>w. w \<in> set vs \<Longrightarrow> \<exists>ns k v. w = WValueSet ns k v" "parents_before ek ws"
  shows "parents_before ek (ws @ vs)"
  using assms(2)
proof (induction ws arbitrary: ek)
  case Nil
  then show ?case using parents_before_values [of vs ek] assms(1) by fastforce
qed (simp add: parents_before_Cons)

lemma value_sets:
  assumes "\<And>w. w \<in> set vs \<Longrightarrow> \<exists>ns k v. w = WValueSet ns k v \<and> valid_address ns k"
  shows "new_ids vs = []" "new_entry_ids vs = []" "commit_fits s ws \<Longrightarrow> commit_fits s (ws @ vs)" "\<forall>w\<in>set vs. \<not> pending_assistant_write w"
proof -
  show n: "new_ids vs = []" "new_entry_ids vs = []" using assms by (induction vs) fastforce+
  have "parents_before (entry_in s) ws \<Longrightarrow> parents_before (entry_in s) (ws @ vs)"
    by (rule parents_before_append_values) (use assms in blast)+
  moreover have "\<forall>w\<in>set vs. write_valid w" using assms by fastforce
  ultimately show "commit_fits s ws \<Longrightarrow> commit_fits s (ws @ vs)" using n by (auto simp: commit_fits_def)
  show "\<forall>w\<in>set vs. \<not> pending_assistant_write w" using assms by (fastforce simp: value_writes_plain)
qed

lemma touched_within:
  "A \<subseteq> T \<union> P \<union> X \<union> R \<Longrightarrow> B \<subseteq> C \<union> R \<Longrightarrow> T \<subseteq> C \<Longrightarrow> P \<subseteq> C \<union> Q \<Longrightarrow> X \<subseteq> C \<Longrightarrow> A \<union> B \<subseteq> C \<union> Q \<union> R"
  by blast

text \<open>The writes of a planner, followed by values of the lane and of its operation.\<close>

lemma plan_ok_settled:
  assumes l: "lane_in s name l" and cur: "ll_operation l = Some op" and p: "patch_ok s F name l X patch ws"
    and X: "X \<subseteq> {(ns_meta, om_operationId (op_meta op)), (ns_operation, om_operationId (op_meta op))}"
    and vs: "\<And>w. w \<in> set vs \<Longrightarrow> \<exists>ns k v. w = WValueSet ns k v \<and> valid_address ns k"
      "touched vs \<subseteq> {(ns_state, name), (ns_operation, om_operationId (op_meta op))} \<union> free_addrs"
    and nx: "ll_tipId nx = ll_tipId (patch_lane patch l)" "ll_configuration nx = ll_configuration (patch_lane patch l)" "ll_inbox nx = ll_inbox (patch_lane patch l)"
      "ll_operation nx = None \<or> map_option op_meta (ll_operation nx) = Some (op_meta op)"
    and state: "apply_values (ws @ vs) (value_at s) (ns_state, name) = Some (SLane (durableLaneState nx (current_id nx) (ll_inbox nx)))"
    and op: "\<And>op'. ll_operation nx = Some op' \<Longrightarrow> operation_ok (apply_values (ws @ vs) (value_at s)) name op'"
  shows "plan_ok s F name l (Inr (CommitCmd (ws @ vs) nx mat ev))"
proof (rule plan_ok_commit)
  note p' = p [unfolded patch_ok_def] and vals = value_sets [OF vs(1)]
  have patch_inbox: "inbox_ids (patch_lane patch l) \<subseteq> inbox_ids l \<union> F" using p' by blast
  let ?V = "apply_values (ws @ vs) (value_at s)"
  have V: "?V (ns, k) = apply_values ws (value_at s) (ns, k)" if "ns \<in> {ns_tip, ns_config, ns_pending}" for ns k
    unfolding apply_values_append by (rule apply_values_untouched) (use vs(2) that in \<open>auto simp: free_addrs_def\<close>)
  have "item_ok ?V (\<lambda>i. id_used s i \<or> i \<in> set (new_ids (ws @ vs))) item" if "item \<in> set (ll_inbox nx)" for item
    by (rule item_ok_frame [where V = "apply_values ws (value_at s)" and K = "\<lambda>i. id_used s i \<or> i \<in> set (new_ids ws)"])
      (use p' that nx(3) in \<open>simp_all add: V vals\<close>)
  then have ok: "lane_ok ?V (\<lambda>i. entry_in s i \<or> i \<in> set (new_entry_ids (ws @ vs))) (\<lambda>i. id_used s i \<or> i \<in> set (new_ids (ws @ vs))) name nx"
    using lane_okD(1) [OF l] p' state op unfolding lane_ok_def nx(1-3) by (simp add: V vals)
  have id: "current_id l = Some (om_operationId (op_meta op))" by (simp add: current_id_def cur)
  then have c: "(ns_meta, om_operationId (op_meta op)) \<in> claims name l" "(ns_operation, om_operationId (op_meta op)) \<in> claims name l"
      "(ns_tip, name) \<in> claims name l" "(ns_config, name) \<in> claims name l" "(ns_state, name) \<in> claims name l"
      "Pair ns_pending ` (inbox_ids l \<union> F) \<subseteq> claims name l \<union> fresh_addrs F"
    by (auto simp: claims_def fresh_addrs_def)
  have "touched (ws @ vs) \<subseteq> claims name l \<union> fresh_addrs F \<union> free_addrs"
    unfolding touched_append
  proof (rule touched_within [OF p' [THEN conjunct1]])
    show "touched vs \<subseteq> claims name l \<union> free_addrs" by (rule subset_trans [OF vs(2)]) (use c(2,5) in auto)
    show "X \<subseteq> claims name l" by (rule subset_trans [OF X]) (use c(1,2) in simp)
  qed (use c in simp_all)
  moreover have "claims name nx \<subseteq> claims name l \<union> fresh_addrs F"
  proof -
    have "inbox_ids nx \<subseteq> inbox_ids l \<union> F" using patch_inbox by (simp add: inbox_ids_def nx(3))
    then have "Pair ns_pending ` inbox_ids nx \<subseteq> claims name l \<union> fresh_addrs F" using c(6) by (meson image_mono subset_trans)
    moreover have "current_id nx = None \<or> current_id nx = Some (om_operationId (op_meta op))"
      using nx(4) by (cases "ll_operation nx") (simp_all add: current_id_def)
    ultimately show ?thesis using c(1-5) unfolding claims_def [of name nx] by (elim disjE) simp_all
  qed
  moreover have "set (new_ids (ws @ vs)) \<subseteq> inbox_ids l \<union> F" using p' by (simp add: vals)
  ultimately show "local_ok s F name l (ws @ vs) nx" using ok by (simp add: local_ok_def)
  show "commit_fits s (ws @ vs)" using p' vals(3) by blast
  show "\<not> pending_assistant_write w" if "w \<in> set (ws @ vs)" for w using p' vals(4) that by auto
qed

lemma patch_state:
  assumes "lane_in s name l" "patch_ok s F name l X patch ws" "ns_state \<notin> fst ` X"
  shows "apply_values ws (value_at s) (ns_state, name) = Some (SLane (durableLaneState l (current_id l) (ll_inbox l)))"
proof -
  have "(ns_state, name) \<notin> touched ws"
    using assms(3) subsetD [OF assms(2) [unfolded patch_ok_def, THEN conjunct1], of "(ns_state, name)"] by (force simp: free_addrs_def)
  then show ?thesis using assms(1) by (simp add: apply_values_untouched lane_ok_def)
qed

lemma patch_meta:
  assumes "lane_in s name l" "ll_operation l = Some op" "patch_ok s F name l {} patch ws"
  shows "apply_values ws (value_at s) (ns_meta, om_operationId (op_meta op)) = Some (SMeta (op_meta op))"
proof -
  have "(ns_meta, om_operationId (op_meta op)) \<notin> touched ws"
    using subsetD [OF assms(3) [unfolded patch_ok_def, THEN conjunct1], of "(ns_meta, om_operationId (op_meta op))"] by (auto simp: free_addrs_def)
  then show ?thesis using lane_okD(5) [OF assms(1,2)] by (simp add: apply_values_untouched operation_ok_def)
qed

lemma plan_settle_ok:
  assumes l: "lane_in s name l" and cur: "ll_operation l = Some op"
    and d: "plan l (op_state op) (op_meta op) m = Inr d" "settles s F name l op d"
  shows "plan_ok s F name l (plan_settle name plan l m)"
proof -
  let ?id = "om_operationId (op_meta op)"
  have nz: "0 \<notin> set name" "0 \<notin> set ?id" "om_lane (op_meta op) = name" using lane_okD(1,5) [OF l] cur by (auto simp: operation_ok_def)
  have id: "current_id l = Some ?id" by (simp add: current_id_def cur)
  show ?thesis
  proof (cases d)
    case (OpCommit ws state patch mat ev)
    with d(2) have p: "patch_ok s F name l {} patch ws" and st: "stateMatchesIntent (om_intent (op_meta op)) state" by (simp_all add: settles_def)
    let ?vs = "[WValueSet ns_operation ?id (SOperation state)] @
      (case lp_inbox patch of None \<Rightarrow> [] | Some inbox \<Rightarrow> [WValueSet ns_state name (SLane (durableLaneState l (Some ?id) inbox))])"
    let ?nx = "(patch_lane patch l)\<lparr>ll_operation := Some \<lparr>op_meta = op_meta op, op_state = state\<rparr>\<rparr>"
    have "plan_ok s F name l (Inr (CommitCmd (ws @ ?vs) ?nx mat ev))"
    proof (rule plan_ok_settled [OF l cur p])
      show "\<exists>ns k v. w = WValueSet ns k v \<and> valid_address ns k" if "w \<in> set ?vs" for w using that nz by (auto split: option.splits)
      show "apply_values (ws @ ?vs) (value_at s) (ns_state, name) = Some (SLane (durableLaneState ?nx (current_id ?nx) (ll_inbox ?nx)))"
        using patch_state [OF l p] id
        by (auto simp: apply_values_append durableLaneState_def patch_lane_def split: option.splits)
      show "operation_ok (apply_values (ws @ ?vs) (value_at s)) name op'" if "ll_operation ?nx = Some op'" for op'
        using that patch_meta [OF l cur p] st nz by (auto simp: apply_values_append operation_ok_def split: option.splits)
    qed (auto split: option.splits)
    then show ?thesis using nz d(1) by (simp add: plan_settle_def cur OpCommit Let_def address_at write_simps split: option.splits)
  next
    case (OpFinish ws result patch mat ev)
    let ?X = "{(ns_meta, ?id), (ns_operation, ?id)}"
    let ?inbox = "ll_inbox (patch_lane patch l)"
    from OpFinish d(2) have p: "patch_ok s F name l ?X patch ws" by (simp add: settles_def)
    let ?vs = "[WValueSet (js ''phi.result'') ?id (SResult result),
      WValueSet ns_state name (SLane \<lparr>ls_currentOperationId = None, ls_lastOperationId = Some ?id, ls_inbox = ?inbox\<rparr>)]"
    let ?nx = "(patch_lane patch l)\<lparr>ll_inbox := ?inbox, ll_lastOperationId := Some ?id, ll_operation := None\<rparr>"
    have "plan_ok s F name l (Inr (CommitCmd (ws @ ?vs) ?nx mat ev))"
    proof (rule plan_ok_settled [OF l cur p])
      show "\<exists>ns k v. w = WValueSet ns k v \<and> valid_address ns k" if "w \<in> set ?vs" for w using that nz by auto
    qed (auto simp: apply_values_append durableLaneState_def free_addrs_def current_id_def)
    moreover have "?inbox = (case lp_inbox patch of None \<Rightarrow> ll_inbox l | Some i \<Rightarrow> i)" by (simp add: patch_lane_def)
    ultimately show ?thesis using nz d(1) by (simp add: plan_settle_def cur OpFinish Let_def address_at write_simps)
  qed (use d(1) cur in \<open>simp add: plan_settle_def\<close>)
qed

context live_storage
begin

lemma settleOperation_kept:
  assumes a: "alive view ready h" and F: "\<forall>i\<in>F. unclaimed (lane_map h) i"
    and l: "lane_map h name = Some l" "ll_operation l = Some op"
    and d: "plan l (op_state op) (op_meta op) (new_mutation (se_storage (hn_session h))) = Inr d" "settles (view (se_storage (hn_session h))) F name l op d"
  shows "kept view ready (settleOperation ops name now plan h)"
  unfolding settleOperation_def
proof (rule command_kept [OF a F])
  fix l' assume "lane_map h name = Some l'"
  with l(1) have "l' = l" by simp
  with plan_settle_ok [where plan = plan, OF alive_lane [OF a l(1)] l(2) d]
  show "plan_ok (view (se_storage (hn_session h))) F name l' (plan_settle name plan l' (new_mutation (se_storage (hn_session h))))" by simp
qed

end

end
