(* ===== verification/Lane_Runs.thy ===== *)
theory Lane_Runs
  imports Lane_Settle
begin

text \<open>
  Every history of a harness on a memory storage: from the attachment to an empty session, any sequence of calls, of transitions that
  a drive pass publishes and of restarts. Ids come from the caller of a rule and are new, as those of the session's generator are;
  the id of an operation may be the caller's choice and must not be that of an open operation.
\<close>

section \<open>Histories\<close>

abbreviation memory_fresh :: "memory_storage harness \<Rightarrow> jstring \<Rightarrow> bool" where
  "memory_fresh \<equiv> fresh_id ms_storageState"

inductive harness_reachable :: "memory_storage harness \<Rightarrow> bool" where
  attached: "createAgentHarness memory_ops (new_session metadata new_memory_storage) = Inr (h, opened) \<Longrightarrow> harness_reachable h"
| acquired: "harness_reachable h \<Longrightarrow> harness_reachable (fst (harness_lane memory_ops name createAt seed now h))"
| run: "harness_reachable h \<Longrightarrow> fresh_operation h operationId \<Longrightarrow> distinct promptIds \<Longrightarrow> \<forall>i\<in>set promptIds. memory_fresh h i \<Longrightarrow>
    harness_reachable (fst (acceptRun memory_ops config name request operationId promptIds startedAt h))"
| compaction: "harness_reachable h \<Longrightarrow> fresh_operation h operationId \<Longrightarrow> 0 \<notin> set taskId \<Longrightarrow>
    harness_reachable (fst (acceptCompaction memory_ops config name operationId taskId instructions startedAt h))"
| navigation: "harness_reachable h \<Longrightarrow> fresh_operation h operationId \<Longrightarrow> 0 \<notin> set taskId \<Longrightarrow>
    harness_reachable (fst (acceptNavigation memory_ops config name operationId taskId targetId options startedAt h))"
| aborted: "harness_reachable h \<Longrightarrow> harness_reachable (fst (requestOperationAbort memory_ops name operationId now h))"
| queued: "harness_reachable h \<Longrightarrow> memory_fresh h i \<Longrightarrow> harness_reachable (fst (enqueue memory_ops name kind input images i at h))"
| cancelled: "harness_reachable h \<Longrightarrow> harness_reachable (fst (cancelQueued memory_ops name i now h))"
| appended: "harness_reachable h \<Longrightarrow> memory_fresh h i \<Longrightarrow> \<not> pending_assistant pending \<Longrightarrow>
    harness_reachable (fst (lane_append memory_ops name pending i now h))"
| usage: "harness_reachable h \<Longrightarrow> memory_fresh h i \<Longrightarrow>
    harness_reachable (fst (recordUsage memory_ops name usage entryId details i now h))"
| model: "harness_reachable h \<Longrightarrow> harness_reachable (fst (setModel memory_ops name model now h))"
| thinking: "harness_reachable h \<Longrightarrow> harness_reachable (fst (setThinkingLevel memory_ops name level now h))"
| tools: "harness_reachable h \<Longrightarrow> harness_reachable (fst (setActiveTools memory_ops name tools now h))"
| named: "harness_reachable h \<Longrightarrow> harness_reachable (fst (harness_setName memory_ops title now h))"
| labelled: "harness_reachable h \<Longrightarrow> 0 \<notin> set targetId \<Longrightarrow>
    harness_reachable (fst (harness_setLabel memory_ops targetId label now h))"
| driving: "harness_reachable h \<Longrightarrow> 0 \<notin> set operationId \<Longrightarrow>
    harness_reachable (fst (drive_claim memory_ops name operationId stopped now h))"
| driven: "harness_reachable h \<Longrightarrow> harness_reachable (drive_done name h)"
| idle: "harness_reachable h \<Longrightarrow> harness_reachable (fst (idle_claim memory_ops name now h))"
| released: "harness_reachable h \<Longrightarrow> harness_reachable (idle_release name h)"
| settled: "harness_reachable h \<Longrightarrow> \<forall>i\<in>F. unclaimed (lane_map h) i \<Longrightarrow> lane_map h name = Some l \<Longrightarrow> ll_operation l = Some op \<Longrightarrow>
    plan l (op_state op) (op_meta op) (new_mutation (se_storage (hn_session h))) = Inr d \<Longrightarrow>
    settles (ms_storageState (se_storage (hn_session h))) F name l op d \<Longrightarrow>
    harness_reachable (fst (settleOperation memory_ops name now (plan :: _ \<Rightarrow> _ \<Rightarrow> _ \<Rightarrow> _ \<Rightarrow> (session_error, unit operation_command) res) h))"
| restarted: "harness_reachable h \<Longrightarrow> createAgentHarness memory_ops (hn_session h) = Inr (h', opened) \<Longrightarrow> harness_reachable h'"

abbreviation memory_alive :: "memory_storage harness \<Rightarrow> bool" where
  "memory_alive \<equiv> alive ms_storageState memory_ready"

lemma empty_lanes: "lanes_ok new_storage_state (\<lambda>_. None)"
  by (simp add: lanes_ok_def vacant_def value_at_def abs_store_def new_storage_state_def)

lemma attached_alive:
  assumes "createAgentHarness memory_ops (new_session metadata new_memory_storage) = Inr (h, opened)"
  shows "memory_alive h"
proof -
  let ?h = "\<lparr>hn_session = new_session metadata new_memory_storage, hn_lanes = [], hn_closed = None, hn_events = []\<rparr>"
  have "memory_alive ?h"
    using empty_lanes storage_reachable.intros(1)
    by (simp add: alive_def harness_ok_def new_session_def memory_ready_def new_memory_storage_def lane_map_def [abs_def])
  from memory.createAgentHarness_ok [OF this] assms show ?thesis by auto
qed

lemma reachable_alive:
  assumes "harness_reachable h"
  shows "memory_alive h"
  using assms(1)
proof induction
  case (attached metadata h opened)
  then show ?case by (rule attached_alive)
next
  case (restarted h h' opened)
  from memory.createAgentHarness_ok [OF restarted.IH] restarted.hyps(2) show ?case by auto
next
  case (settled h F name l op plan d now)
  from live_memory.settleOperation_kept [where plan = plan, OF settled.IH settled.hyps(2-6)] show ?case by (simp add: kept_def)
qed (simp_all add: live_memory.harness_lane_kept [unfolded kept_def] live_memory.acceptRun_kept [unfolded kept_def] live_memory.acceptCompaction_kept [unfolded kept_def]
    live_memory.acceptNavigation_kept [unfolded kept_def] live_memory.requestOperationAbort_kept [unfolded kept_def]
    live_memory.enqueue_kept [unfolded kept_def] live_memory.cancelQueued_kept [unfolded kept_def] live_memory.lane_append_kept [unfolded kept_def]
    live_memory.recordUsage_kept [unfolded kept_def] live_memory.setters_kept [unfolded kept_def] live_memory.session_values_kept [unfolded kept_def]
    live_memory.drive_claim_kept [unfolded kept_def] live_memory.idle_claim_kept [unfolded kept_def] owners_alive)

end
