(* ===== verification/Lane_Props.thy ===== *)
theory Lane_Props
  imports Lane_Runs
begin

text \<open>
  The properties of the lanes of a harness on a memory storage, for every history of \<open>harness_reachable\<close>.
\<close>

section \<open>Chains of entries\<close>

lemma spec_entry_kept: "i \<notin> set (new_entry_ids ws) \<Longrightarrow> st_entries (foldl spec_write a (commit_writes ws q t)) i = st_entries a i"
proof (induction ws arbitrary: a q)
  case (Cons w ws)
  then show ?case by (cases w) auto
qed simp

lemma spec_entry_new:
  "WEntry e \<in> set ws \<Longrightarrow> distinct (new_entry_ids ws) \<Longrightarrow>
     \<exists>q'. st_entries (foldl spec_write a (commit_writes ws q t)) (ne_id e) = Some (materializeCommittedEntry e q' t)"
proof (induction ws arbitrary: a q)
  case (Cons w ws)
  show ?case
  proof (cases "WEntry e \<in> set ws")
    case True
    with Cons show ?thesis by (cases w) auto
  next
    case False
    with Cons.prems have w: "w = WEntry e" by simp
    with Cons.prems(2) have "ne_id e \<notin> set (new_entry_ids ws)" by simp
    then show ?thesis by (auto simp: w spec_entry_kept materializeCommittedEntry_def)
  qed
qed simp

lemma new_ids_entries: "set (new_entry_ids ws) \<subseteq> set (new_ids ws)" "distinct (new_ids ws) \<Longrightarrow> distinct (new_entry_ids ws)"
proof -
  show "set (new_entry_ids ws) \<subseteq> set (new_ids ws)" by (induction ws rule: new_ids.induct) auto
  then show "distinct (new_ids ws) \<Longrightarrow> distinct (new_entry_ids ws)"
  proof (induction ws)
    case (Cons w ws)
    have "set (new_entry_ids ws) \<subseteq> set (new_ids ws)" by (induction ws rule: new_ids.induct) auto
    with Cons show ?case by (cases w) auto
  qed simp
qed

text \<open>A committed entry without what the commit adds.\<close>

lemma truncate_committed [simp]: "new_entry.truncate (materializeCommittedEntry e q t) = e"
  by (simp add: materializeCommittedEntry_def new_entry.truncate_def)

lemma chain_path:
  assumes "\<And>e. e \<in> set (chainEntries tip es) \<Longrightarrow> \<exists>x. map_of (s_entries s) (ne_id e) = Some x \<and> new_entry.truncate x = e" "tip_path s tip path"
  shows "\<exists>new. map new_entry.truncate new = chainEntries tip es \<and> tip_path s (if es = [] then tip else Some (ne_id (last es))) (rev new @ path)"
  using assms
proof (induction es arbitrary: tip path)
  case (Cons e es)
  from Cons.prems(1) [of "e\<lparr>ne_parentId := tip\<rparr>"] obtain x where x: "map_of (s_entries s) (ne_id e) = Some x" "new_entry.truncate x = e\<lparr>ne_parentId := tip\<rparr>"
    by auto
  have "ne_parentId x = ne_parentId (new_entry.truncate x)" by (simp add: new_entry.truncate_def)
  then have "ne_parentId x = tip" by (simp add: x(2))
  then have "tip_path s (Some (ne_id e)) (x # path)"
    using Cons.prems(2) x(1) by (cases path) (auto simp: tip_path_def split: option.splits)
  from Cons.IH [OF _ this] Cons.prems(1) obtain new where
    "map new_entry.truncate new = chainEntries (Some (ne_id e)) es" "tip_path s (if es = [] then Some (ne_id e) else Some (ne_id (last es))) (rev new @ x # path)"
    by auto
  with x(2) show ?case by (intro exI [of _ "x # new"]) auto
qed simp

lemma commit_extends_path:
  assumes s: "storage_reachable s" and job: "commit_job s ws now = (s', Inr r)" and ws: "ws = map insertEntry (chainEntries tip es) @ vs"
    and fits: "commit_fits s ws" and path: "tip_path s tip path"
  shows "\<exists>new. map new_entry.truncate new = chainEntries tip es \<and> tip_path s' (if es = [] then tip else Some (ne_id (last es))) (rev new @ path)"
proof (rule chain_path)
  note abs = commit_job_ok(2) [OF s job]
  have E: "map_of (s_entries s') i = st_entries (foldl spec_write (abs_store s) (commit_writes ws (s_nextSeq s) now)) i" for i
    unfolding abs [symmetric] by (simp add: abs_store_def)
  have d: "distinct (new_entry_ids ws)" using fits new_ids_entries(2) by (simp add: commit_fits_def)
  show "\<exists>x. map_of (s_entries s') (ne_id e) = Some x \<and> new_entry.truncate x = e" if "e \<in> set (chainEntries tip es)" for e
  proof -
    have "WEntry e \<in> set ws" using that by (auto simp: ws insertEntry_def)
    from spec_entry_new [OF this d, of "abs_store s" "s_nextSeq s" now] obtain q where
      "map_of (s_entries s') (ne_id e) = Some (materializeCommittedEntry e q now)" unfolding E by blast
    then show ?thesis by simp
  qed
  have old: "map_of (s_entries s') i = Some e" if "map_of (s_entries s) i = Some e" for i e
  proof -
    have "i \<notin> set (new_entry_ids ws)" using fits new_ids_entries(1) [of ws] that by (auto simp: commit_fits_def id_used_def)
    then show ?thesis using that by (simp add: E spec_entry_kept) (simp add: abs_store_def)
  qed
  then show "tip_path s' tip path" using path parent_path_extend [of "s_entries s" path "s_entries s'"] by (auto simp: tip_path_def split: option.splits)
qed

section \<open>What a commit of a command does\<close>

context live_storage
begin

lemma command_commits:
  assumes a: "alive view ready h" and ln: "map_of (hn_lanes h) name = Some ln" "\<not> ln_idleOwner ln"
    and plan: "plan (ln_state ln) (new_mutation (se_storage (hn_session h))) = Inr (CommitCmd ws nx mat ev)"
    and ok: "plan_ok (view (se_storage (hn_session h))) F name (ln_state ln) (Inr (CommitCmd ws nx mat ev))"
  shows "\<exists>h' r. command ops name now plan h = (h', Inr (mat r)) \<and> lane_map h' = (lane_map h)(name \<mapsto> nx) \<and>
    commit_job (view (se_storage (hn_session h))) ws now = (view (se_storage (hn_session h')), Inr r)"
proof -
  let ?st = "se_storage (hn_session h)"
  note al = aliveD [OF a]
  from ok have "commit_fits (view ?st) ws" "\<And>w. w \<in> set ws \<Longrightarrow> \<not> pending_assistant_write w" by (auto simp: plan_ok_def decision_ok_def)
  from mutation_commit_total [OF al(3) this] obtain m r where m: "mutation_commit ops (new_mutation ?st) ws now = (m, Inr r)"
    "commit_job (view ?st) ws now = (view (mu_storage m), Inr r)" by blast
  have mut: "mutate (hn_session h) (\<lambda>m. run_decision ops m now (plan (ln_state ln) m)) = ((hn_session h)\<lparr>se_storage := mu_storage m\<rparr>, Inr (Committed nx (ev r) (mat r)))"
    using al(2) by (simp add: mutate_def assertOpen_def mutation_end_def run_decision_def plan m(1))
  have "command ops name now plan h =
      (emit (ev r) (update_lane name (\<lambda>ln. ln\<lparr>ln_state := nx\<rparr>) (h\<lparr>hn_session := (hn_session h)\<lparr>se_storage := mu_storage m\<rparr>\<rparr>)), Inr (mat r))"
    by (simp add: command_def al(1,2) ln mut assertOpen_def)
  with m(2) ln(1) show ?thesis by (auto simp: lane_map_update_lane)
qed

end

section \<open>An example\<close>

definition sample_seed :: lane_configuration where
  "sample_seed = \<lparr>lc_model = \<lparr>mr_provider = js ''p'', mr_modelId = js ''m''\<rparr>, lc_thinkingLevel = TOff, lc_activeToolNames = []\<rparr>"

definition sample_lane_config :: lane_config where
  "sample_lane_config =
     \<lparr>cf_compaction = \<lparr>cse_enabled = True, cse_reserveTokens = JInt 16384, cse_keepRecentTokens = JInt 20000\<rparr>,
      cf_steeringMode = OneAtATime, cf_followUpMode = OneAtATime, cf_toolExecution = Parallel, cf_skills = [], cf_promptTemplates = []\<rparr>"

definition sample_metadata :: session_metadata where
  "sample_metadata = \<lparr>sm_id = js ''s'', sm_createdAt = 1, sm_storageVersion = 1, sm_cwd = None, sm_parentSessionId = None, sm_legacyParentSessionPath = None\<rparr>"

definition sample_start :: "memory_storage harness" where
  "sample_start = \<lparr>hn_session = new_session sample_metadata new_memory_storage, hn_lanes = [], hn_closed = None, hn_events = []\<rparr>"

definition sample_main :: "memory_storage harness" where
  "sample_main = fst (harness_lane memory_ops (js ''main'') None sample_seed 1 sample_start)"

lemma sample_start_reachable: "harness_reachable sample_start"
proof (rule harness_reachable.attached)
  show "createAgentHarness memory_ops (new_session sample_metadata new_memory_storage) = Inr (sample_start, [])" by code_simp
qed

lemma sample_main_lanes: "hn_lanes sample_main = [(js ''main'', new_lane (initial_lane None sample_seed))]"
  by code_simp

lemma sample_main_ids: "s_entries (ms_storageState (se_storage (hn_session sample_main))) = []" "s_usage (ms_storageState (se_storage (hn_session sample_main))) = []"
  by code_simp+

lemma sample_main_reachable: "harness_reachable sample_main"
  unfolding sample_main_def by (rule harness_reachable.acquired [OF sample_start_reachable])

lemma sample_main_map: "lane_map sample_main name = (if name = js ''main'' then Some (initial_lane None sample_seed) else None)"
  by (simp add: lane_map_def sample_main_lanes new_lane_def)

lemma sample_main_unclaimed: "unclaimed (lane_map sample_main) i"
  by (simp add: unclaimed_def sample_main_map initial_lane_def current_id_def inbox_ids_def)

lemma sample_main_fresh: "0 \<notin> set i \<Longrightarrow> memory_fresh sample_main i"
  by (simp add: fresh_id_def sample_main_unclaimed id_used_def sample_main_ids)

section \<open>Lanes in memory and in the session\<close>

text \<open>
  C1. After every history of calls, published transitions and restarts, the harness is open and each lane it holds in memory is exactly the lane that
  \<^verbatim>\<open>restoreLane\<close> reads from the session: its tip, its configuration, its queue, its last and its current operation, in metadata and state. So
  a process that stops after any commit loses nothing of a lane.
\<close>

theorem lanes_durable:
  assumes "harness_reachable h"
  shows "hn_closed h = None \<and> (\<forall>name l. lane_map h name = Some l \<longrightarrow> restoreLane memory_ops (hn_session h) name = (hn_session h, Inr l))"
proof -
  have a: "memory_alive h" by (rule reachable_alive [OF assms])
  from aliveD [OF a] show ?thesis by (auto intro!: memory.restoreLane_ok alive_lane [OF a])
qed

theorem lanes_durable_witness:
  "restoreLane memory_ops (hn_session sample_main) (js ''main'') = (hn_session sample_main, Inr (initial_lane None sample_seed))"
  using lanes_durable [OF sample_main_reachable] sample_main_map by simp

text \<open>
  C15. A harness attached to the session of another one after any history restores exactly the lanes that one held, none more and none less, and
  reports exactly their open operations, each with its lane, its kind, its start and whether it was asked to stop.
\<close>

theorem restart_restores:
  assumes "harness_reachable h"
  shows "\<exists>h' opened. createAgentHarness memory_ops (hn_session h) = Inr (h', opened) \<and> lane_map h' = lane_map h \<and> hn_closed h' = None \<and>
    (\<forall>x. x \<in> set opened \<longleftrightarrow> (\<exists>name l op. lane_map h name = Some l \<and> ll_operation l = Some op \<and>
      x = \<lparr>oo_lane = name, oo_operationId = om_operationId (op_meta op), oo_kind = intent_kind (om_intent (op_meta op)),
        oo_startedAt = om_startedAt (op_meta op), oo_aborting = is_cancelled (op_state op)\<rparr>))"
  using memory.createAgentHarness_ok [OF reachable_alive [OF assms]]
  by (elim exE conjE, intro exI conjI) (assumption | erule aliveD(1))+

theorem restart_restores_witness:
  "\<exists>h' opened. createAgentHarness memory_ops (hn_session sample_main) = Inr (h', opened) \<and> lane_map h' = lane_map sample_main \<and> hn_closed h' = None"
  using restart_restores [OF sample_main_reachable]
  by (elim exE conjE, intro exI conjI) assumption+

section \<open>Calls\<close>

text \<open>
  C17. In every history, a call of a lane with new ids (and a summary task id without the separator character) answers: it returns a result, throws a tagged error or waits for the owner of
  the lane, and never meets a missing payload, a control value that does not belong to its operation or a commit the storage refuses, each of which would fault the harness. The
  exception is the append of a pending assistant message: it is rejected with the untagged error for such messages, and nothing is changed.
\<close>

theorem lane_calls_answer:
  assumes "harness_reachable h"
    and "fresh_operation h operationId" "0 \<notin> set taskId" "distinct promptIds" "\<forall>i\<in>set promptIds. memory_fresh h i" "memory_fresh h i"
  shows "answers (snd (acceptRun memory_ops config name request operationId promptIds now h)) \<and>
    answers (snd (acceptCompaction memory_ops config name operationId taskId instructions now h)) \<and>
    answers (snd (acceptNavigation memory_ops config name operationId taskId targetId options now h)) \<and>
    answers (snd (requestOperationAbort memory_ops name anyId now h)) \<and> answers (snd (enqueue memory_ops name kind input images i now h)) \<and>
    answers (snd (cancelQueued memory_ops name anyId now h)) \<and>
    (if pending_assistant pending then lane_append memory_ops name pending i now h = (h, Inl (SessionThrew PendingAssistantMessage))
     else answers (snd (lane_append memory_ops name pending i now h))) \<and>
    answers (snd (harness_lane memory_ops name createAt seed now h))"
proof -
  have a: "memory_alive h" by (rule reachable_alive [OF assms(1)])
  have "if pending_assistant pending then lane_append memory_ops name pending i now h = (h, Inl (SessionThrew PendingAssistantMessage))
     else answers (snd (lane_append memory_ops name pending i now h))"
    using live_memory.lane_append_kept [OF a assms(6), where pending = pending and name = name and now = now] aliveD(1) [OF a]
    by (simp add: kept_def lane_append_def)
  then show ?thesis
    using live_memory.acceptRun_kept [OF a assms(2,4,5), where config = config and name = name and request = request and startedAt = now]
      live_memory.acceptCompaction_kept [OF a assms(2,3), where config = config and name = name and ci = instructions and startedAt = now]
      live_memory.acceptNavigation_kept [OF a assms(2,3), where config = config and name = name and targetId = targetId and options = options and startedAt = now]
      live_memory.requestOperationAbort_kept [OF a, where name = name and operationId = anyId and now = now]
      live_memory.enqueue_kept [OF a assms(6), where name = name and kind = kind and input = input and images = images and at = now]
      live_memory.cancelQueued_kept [OF a, where name = name and i = anyId and now = now]
      live_memory.harness_lane_kept [OF a, where name = name and createAt = createAt and seed = seed and now = now]
    by (simp add: kept_def)
qed

theorem lane_calls_answer_witness:
  "answers (snd (enqueue memory_ops (js ''main'') Steer (TextInput (js ''hi'')) [] (js ''e1'') 2 sample_main)) \<and>
   answers (snd (acceptRun memory_ops sample_lane_config (js ''main'') (PromptText (js ''go'') []) (js ''op1'') [js ''e2''] 2 sample_main))"
  using lane_calls_answer [OF sample_main_reachable, where operationId = "js ''op1''" and taskId = "js ''t1''" and promptIds = "[js ''e2'']" and i = "js ''e1''"
      and pending = "PendingCustom [] None" and now = 2 and name = "js ''main''" and kind = Steer and input = "TextInput (js ''hi'')" and images = "[]"
      and request = "PromptText (js ''go'') []"]
  by (simp add: fresh_operation_def sample_main_unclaimed sample_main_fresh js_nonzero pending_assistant_def)

section \<open>Lanes do not interfere\<close>

text \<open>
  C18. In every history, an open operation belongs to one lane, a queued entry to one lane, where it is queued once; its payload is stored and the entry is not
  in the transcript yet; and the tip of a lane is an entry of the transcript.
\<close>

theorem lanes_isolated:
  assumes "harness_reachable h"
  shows "let s = ms_storageState (se_storage (hn_session h)) in
    (\<forall>n l. lane_map h n = Some l \<longrightarrow>
       distinct (map ii_entryId (ll_inbox l)) \<and> (\<forall>t. ll_tipId l = Some t \<longrightarrow> has_key (s_entries s) t) \<and>
       (\<forall>item\<in>set (ll_inbox l). \<not> has_key (s_entries s) (ii_entryId item) \<and> (\<exists>p. value_at s (ns_pending, ii_entryId item) = Some (SPending p)))) \<and>
    (\<forall>n l n' l'. lane_map h n = Some l \<longrightarrow> lane_map h n' = Some l' \<longrightarrow> n \<noteq> n' \<longrightarrow>
       (current_id l = None \<or> current_id l \<noteq> current_id l') \<and> ii_entryId ` set (ll_inbox l) \<inter> ii_entryId ` set (ll_inbox l') = {})"
proof -
  let ?s = "ms_storageState (se_storage (hn_session h))"
  have a: "memory_alive h" by (rule reachable_alive [OF assms])
  have lanes: "lane_in ?s n l" if "lane_map h n = Some l" for n l by (rule alive_lane [OF a that])
  have apart: "(current_id l = None \<or> current_id l \<noteq> current_id l') \<and> ii_entryId ` set (ll_inbox l) \<inter> ii_entryId ` set (ll_inbox l') = {}"
    if "lane_map h n = Some l" "lane_map h n' = Some l'" "n \<noteq> n'" for n l n' l'
  proof -
    have c: "claims n l \<inter> claims n' l' = {}" using aliveD(4) [OF a] that unfolding lanes_ok_def by blast
    have "(ns_meta, i) \<in> claims n l \<inter> claims n' l'" if "current_id l = Some i" "current_id l' = Some i" for i using that by (simp add: claims_def)
    moreover have "(ns_pending, i) \<in> claims n l \<inter> claims n' l'" if "i \<in> inbox_ids l" "i \<in> inbox_ids l'" for i using that by (simp add: claims_def)
    ultimately show ?thesis using c by (cases "current_id l") (auto simp: inbox_ids_def)
  qed
  show ?thesis
    unfolding Let_def
  proof (intro conjI allI impI ballI)
    fix n l item assume l: "lane_map h n = Some l"
    show "distinct (map ii_entryId (ll_inbox l))" by (rule lane_okD [OF lanes [OF l]])
    show "has_key (s_entries ?s) t" if "ll_tipId l = Some t" for t using lane_okD(4) [OF lanes [OF l] that] by (simp add: entry_in_def)
    assume item: "item \<in> set (ll_inbox l)"
    have ok: "item_ok (value_at ?s) (id_used ?s) item" using lane_okD(2) [OF lanes [OF l]] item by blast
    show "\<not> has_key (s_entries ?s) (ii_entryId item)" using item_payload(5) [OF ok] by (simp add: id_used_def)
    show "\<exists>p. value_at ?s (ns_pending, ii_entryId item) = Some (SPending p)" using item_payload(1) [OF ok] by blast
  qed (use apart in blast)+
qed

section \<open>Runs and aborts\<close>

text \<open>
  C6. A run accepted on a lane without an operation extends the branch of the lane by the queued entries it selects, in queue order, and then the prompt, each
  chained to the one before it; the tip moves to the last of them, the rest of the queue stays, and the lane holds the new operation in its first state. The
  path to the old tip is unchanged.
\<close>

theorem run_extends_branch:
  assumes reach: "harness_reachable h"
    and ln: "map_of (hn_lanes h) name = Some ln" "\<not> ln_idleOwner ln" "ll_operation (ln_state ln) = None"
    and o: "fresh_operation h operationId" and p: "distinct promptIds" "\<forall>i\<in>set promptIds. memory_fresh h i" "length promptIds = length messages"
    and m: "request_messages config request startedAt = Inr messages" "\<forall>message\<in>set messages. \<not> stops_with StopPending message"
    and sel: "selectAcceptedInbox (ll_inbox (ln_state ln)) (cf_steeringMode config) (cf_followUpMode config) = (sel, rest)"
      "messages \<noteq> [] \<or> (\<exists>item\<in>set sel. ii_kind item \<noteq> WriteItem)"
    and path: "tip_path (ms_storageState (se_storage (hn_session h))) (ll_tipId (ln_state ln)) path"
    and es: "es = run_entries (value_at (ms_storageState (se_storage (hn_session h)))) sel (zip promptIds messages)"
  shows "\<exists>h' new. acceptRun memory_ops config name request operationId promptIds startedAt h =
      (h', Inr (Inr \<lparr>ad_operationId = operationId, ad_kind = KRun, ad_startedAt = startedAt\<rparr>)) \<and>
    lane_map h' = (lane_map h)(name \<mapsto> (ln_state ln)\<lparr>ll_tipId := Some (ne_id (last es)), ll_inbox := rest,
      ll_operation := Some (run_operation config name operationId startedAt promptIds (ln_state ln))\<rparr>) \<and>
    map new_entry.truncate new = chainEntries (ll_tipId (ln_state ln)) es \<and>
    tip_path (ms_storageState (se_storage (hn_session h'))) (Some (ne_id (last es))) (rev new @ path)"
proof -
  have a: "memory_alive h" by (rule reachable_alive [OF reach])
  let ?l = "ln_state ln" and ?zip = "zip promptIds messages" and ?st = "se_storage (hn_session h)"
  let ?op = "run_operation config name operationId startedAt (map fst ?zip) ?l"
  have l: "lane_map h name = Some ?l" by (simp add: lane_map_def ln(1))
  have keys: "map fst ?zip = promptIds" using p(3) by simp
  have i: "0 \<notin> set operationId" using o by (simp add: fresh_operation_def)
  have ne: "\<not> (?zip = [] \<and> \<not> (\<exists>item\<in>set sel. ii_kind item \<noteq> WriteItem))" using sel(2) p(3) by auto
  then have es_ne: "es \<noteq> []" by (auto simp: es run_entries_def)
  note ready = aliveD(3) [OF a] and lane = alive_lane [OF a l]
  obtain ev where plan: "plan_run memory_ops config name operationId startedAt ?zip ?l (new_mutation ?st) =
      Inr (CommitCmd (consume_writes name ?l sel rest es (Some ?op)) (consumed ?l rest es (Some ?op))
        (\<lambda>_. Inr \<lparr>ad_operationId = operationId, ad_kind = KRun, ad_startedAt = startedAt\<rparr>) ev)"
    using memory.plan_run_eq [OF ready lane ln(3) i sel(1), of ?zip startedAt, unfolded if_not_P [OF ne]] unfolding es by (elim exE)
  have "distinct (map fst ?zip)" "\<not> (\<exists>message\<in>set messages. stops_with StopPending message)" using p(1) keys m(2) by simp_all
  from memory.plan_run_ok [OF ready lane i this(1) prompt_fresh [OF p(2) l this(2)], of config startedAt] have ok:
    "plan_ok (ms_storageState ?st) (set (map fst ?zip) \<union> {operationId}) name ?l (plan_run memory_ops config name operationId startedAt ?zip ?l (new_mutation ?st))" .
  from live_memory.command_commits [where plan = "plan_run memory_ops config name operationId startedAt ?zip" and now = startedAt, OF a ln(1,2) plan ok [unfolded plan]]
  obtain h' r where h': "command memory_ops name startedAt (plan_run memory_ops config name operationId startedAt ?zip) h =
      (h', Inr (Inr \<lparr>ad_operationId = operationId, ad_kind = KRun, ad_startedAt = startedAt\<rparr>))"
    "lane_map h' = (lane_map h)(name \<mapsto> consumed ?l rest es (Some ?op))"
    "commit_job (ms_storageState ?st) (consume_writes name ?l sel rest es (Some ?op)) startedAt = (ms_storageState (se_storage (hn_session h')), Inr r)" by blast
  have "commit_fits (ms_storageState ?st) (consume_writes name ?l sel rest es (Some ?op))"
    using ok unfolding plan by (simp add: plan_ok_def decision_ok_def)
  from commit_extends_path [OF memory.view_reachable [OF ready] h'(3) consume_writes_def this path] es_ne obtain new where
    "map new_entry.truncate new = chainEntries (ll_tipId ?l) es" "tip_path (ms_storageState (se_storage (hn_session h'))) (Some (ne_id (last es))) (rev new @ path)"
    by auto
  moreover have "acceptRun memory_ops config name request operationId promptIds startedAt h =
      command memory_ops name startedAt (plan_run memory_ops config name operationId startedAt ?zip) h"
    using m by (simp add: acceptRun_def unless_closed_def aliveD(1) [OF a])
  ultimately show ?thesis using h'(1,2) by (auto simp: consumed_def keys)
qed

theorem run_extends_branch_witness:
  "\<exists>h' new. acceptRun memory_ops sample_lane_config (js ''main'') (PromptText (js ''go'') []) (js ''op1'') [js ''e1''] 2 sample_main =
      (h', Inr (Inr \<lparr>ad_operationId = js ''op1'', ad_kind = KRun, ad_startedAt = 2\<rparr>)) \<and>
    map new_entry.truncate new = [message_entry (js ''e1'', user_blocks [text_block (js ''go'')] 2)] \<and>
    tip_path (ms_storageState (se_storage (hn_session h'))) (Some (js ''e1'')) (rev new)"
proof -
  let ?m = "user_blocks [text_block (js ''go'')] 2" and ?ln = "new_lane (initial_lane None sample_seed)"
  have "request_messages sample_lane_config (PromptText (js ''go'') []) 2 = Inr [?m]" by (simp add: request_messages_def js_def)
  moreover have "selectAcceptedInbox (ll_inbox (ln_state ?ln)) (cf_steeringMode sample_lane_config) (cf_followUpMode sample_lane_config) = ([], [])"
    by (simp add: selectAcceptedInbox_def new_lane_def initial_lane_def)
  moreover have "tip_path (ms_storageState (se_storage (hn_session sample_main))) (ll_tipId (ln_state ?ln)) []"
    by (simp add: tip_path_def new_lane_def initial_lane_def)
  ultimately show ?thesis
    using run_extends_branch [OF sample_main_reachable, where config = sample_lane_config and name = "js ''main''" and ln = ?ln and operationId = "js ''op1''"
        and promptIds = "[js ''e1'']" and messages = "[?m]" and path = "[]" and startedAt = 2 and request = "PromptText (js ''go'') []" and sel = "[]" and rest = "[]"]
    by (simp add: sample_main_lanes new_lane_def initial_lane_def fresh_operation_def sample_main_unclaimed sample_main_fresh js_nonzero
        run_entries_def message_entry_def user_blocks_def stops_with_def)
      (elim exE conjE, intro exI conjI, assumption+)
qed

text \<open>
  C19. An abort of the current operation of a lane, when it was not requested before, marks the operation in its state, removes exactly the queued steering and
  follow-up messages and gives them back in queue order, and keeps the queued writes; nothing else of the lane and no other lane changes.
\<close>

theorem abort_returns_queue:
  assumes reach: "harness_reachable h"
    and ln: "map_of (hn_lanes h) name = Some ln" "\<not> ln_idleOwner ln" "ll_operation (ln_state ln) = Some op" "\<not> is_cancelled (op_state op)"
    and V: "V = value_at (ms_storageState (se_storage (hn_session h)))"
  shows "\<exists>h'. requestOperationAbort memory_ops name (om_operationId (op_meta op)) now h =
      (h', Inr (Inr \<lparr>ab_operationId = om_operationId (op_meta op), ab_newlyRequested = True,
        ab_steer = queued_messages V Steer (ll_inbox (ln_state ln)), ab_followUp = queued_messages V FollowUp (ll_inbox (ln_state ln))\<rparr>)) \<and>
    lane_map h' = (lane_map h)(name \<mapsto> (ln_state ln)
      \<lparr>ll_inbox := filter (\<lambda>item. ii_kind item = WriteItem \<or> ii_kind item = NextRun) (ll_inbox (ln_state ln)),
       ll_operation := Some \<lparr>op_meta = op_meta op, op_state = map_scope (\<lambda>s. s\<lparr>os_control := CancelRequested now\<rparr>) (op_state op)\<rparr>\<rparr>)"
proof -
  have a: "memory_alive h" by (rule reachable_alive [OF reach])
  let ?l = "ln_state ln" and ?st = "se_storage (hn_session h)" and ?id = "om_operationId (op_meta op)"
  have l: "lane_map h name = Some ?l" by (simp add: lane_map_def ln(1))
  note ready = aliveD(3) [OF a] and lane = alive_lane [OF a l]
  let ?ws = "pending_deletes (filter abortable (ll_inbox ?l)) @ state_write ?l (Some (cancelled_at now (op_state op))) @
    [WValueSet ns_state name (SLane (durableLaneState ?l (current_id ?l) (filter (\<lambda>item. \<not> abortable item) (ll_inbox ?l))))]"
  define nx where "nx = (with_state ?l (Some (cancelled_at now (op_state op))))\<lparr>ll_inbox := filter (\<lambda>item. \<not> abortable item) (ll_inbox ?l)\<rparr>"
  obtain ev where plan: "plan_abort memory_ops name ?id now ?l (new_mutation ?st) = Inr (CommitCmd ?ws nx
      (\<lambda>_. Inr \<lparr>ab_operationId = ?id, ab_newlyRequested = True, ab_steer = queued_messages V Steer (ll_inbox ?l),
        ab_followUp = queued_messages V FollowUp (ll_inbox ?l)\<rparr>) ev)"
    using memory.plan_abort_eq [OF ready lane ln(3) refl ln(4), of now] unfolding V nx_def by (elim exE)
  from live_memory.command_commits [where plan = "plan_abort memory_ops name ?id now" and now = now, OF a ln(1,2) plan
      memory.plan_abort_ok [OF ready lane, of ?id now, unfolded plan]]
  obtain h' r where h': "command memory_ops name now (plan_abort memory_ops name ?id now) h =
      (h', Inr (Inr \<lparr>ab_operationId = ?id, ab_newlyRequested = True, ab_steer = queued_messages V Steer (ll_inbox ?l),
        ab_followUp = queued_messages V FollowUp (ll_inbox ?l)\<rparr>))" "lane_map h' = (lane_map h)(name \<mapsto> nx)"
      "commit_job (ms_storageState ?st) ?ws now = (ms_storageState (se_storage (hn_session h')), Inr r)" by (elim exE conjE)
  have "(\<lambda>item. \<not> abortable item) = (\<lambda>item. ii_kind item = WriteItem \<or> ii_kind item = NextRun)"
    by (rule ext) (auto simp: abortable_def intro: inbox_kind.exhaust)
  then have "nx = ?l\<lparr>ll_inbox := filter (\<lambda>item. ii_kind item = WriteItem \<or> ii_kind item = NextRun) (ll_inbox ?l),
      ll_operation := Some \<lparr>op_meta = op_meta op, op_state = map_scope (\<lambda>s. s\<lparr>os_control := CancelRequested now\<rparr>) (op_state op)\<rparr>\<rparr>"
    by (simp add: nx_def with_state_def ln(3) cancelled_at_def)
  with h' show ?thesis by (simp add: requestOperationAbort_def unless_closed_def aliveD(1) [OF a])
qed

definition sample_running :: "memory_storage harness" where
  "sample_running = fst (acceptRun memory_ops sample_lane_config (js ''main'') (PromptText (js ''go'') []) (js ''op1'') [js ''e1''] 2 sample_main)"

definition sample_steered :: "memory_storage harness" where
  "sample_steered = fst (enqueue memory_ops (js ''main'') Steer (TextInput (js ''stop'')) [] (js ''e2'') 3 sample_running)"

definition sample_steered_lane :: lane where
  "sample_steered_lane =
     new_lane \<lparr>ll_tipId = Some (js ''e1''), ll_configuration = sample_seed, ll_inbox = [\<lparr>ii_entryId = js ''e2'', ii_kind = Steer\<rparr>],
       ll_lastOperationId = None,
       ll_operation = Some (run_operation sample_lane_config (js ''main'') (js ''op1'') 2 [js ''e1''] (initial_lane None sample_seed))\<rparr>"

lemma sample_running_reachable: "harness_reachable sample_running"
  unfolding sample_running_def
  by (rule harness_reachable.run [OF sample_main_reachable])
    (simp_all add: fresh_operation_def sample_main_unclaimed sample_main_fresh js_nonzero)

lemma sample_running_state:
  "hn_lanes sample_running = [(js ''main'', new_lane ((ln_state sample_steered_lane)\<lparr>ll_inbox := []\<rparr>))]"
  "keys (s_entries (ms_storageState (se_storage (hn_session sample_running)))) = [js ''e1'']"
  "s_usage (ms_storageState (se_storage (hn_session sample_running))) = []"
  by code_simp+

lemma sample_steered_reachable: "harness_reachable sample_steered"
  unfolding sample_steered_def
proof (rule harness_reachable.queued [OF sample_running_reachable])
  have "js ''e2'' \<noteq> js ''op1''" "js ''e2'' \<noteq> js ''e1''" by code_simp+
  moreover have "map_of (s_entries (ms_storageState (se_storage (hn_session sample_running)))) (js ''e2'') = None"
    using sample_running_state(2) calculation(2) by (metis list.set(1) list.set(2) map_of_eq_None_iff set_map singletonD)
  ultimately show "memory_fresh sample_running (js ''e2'')"
    by (simp add: fresh_id_def js_nonzero id_used_def sample_running_state unclaimed_def lane_map_def new_lane_def current_id_def inbox_ids_def
        sample_steered_lane_def run_operation_def)
qed

lemma sample_steered_lanes: "hn_lanes sample_steered = [(js ''main'', sample_steered_lane)]"
  by code_simp

lemma sample_steered_queue:
  "queued_messages (value_at (ms_storageState (se_storage (hn_session sample_steered)))) Steer (ll_inbox (ln_state sample_steered_lane)) =
     [user_blocks [text_block (js ''stop'')] 3]"
  "queued_messages (value_at (ms_storageState (se_storage (hn_session sample_steered)))) FollowUp (ll_inbox (ln_state sample_steered_lane)) = []"
  by code_simp+

theorem abort_returns_queue_witness:
  "\<exists>h'. requestOperationAbort memory_ops (js ''main'') (js ''op1'') 4 sample_steered =
      (h', Inr (Inr \<lparr>ab_operationId = js ''op1'', ab_newlyRequested = True, ab_steer = [user_blocks [text_block (js ''stop'')] 3], ab_followUp = []\<rparr>)) \<and>
    map_option ll_inbox (lane_map h' (js ''main'')) = Some []"
  using abort_returns_queue [OF sample_steered_reachable, of "js ''main''" sample_steered_lane
      "run_operation sample_lane_config (js ''main'') (js ''op1'') 2 [js ''e1''] (initial_lane None sample_seed)"
      "value_at (ms_storageState (se_storage (hn_session sample_steered)))" 4] sample_steered_queue
  by (auto simp: sample_steered_lanes sample_steered_lane_def new_lane_def run_operation_def is_cancelled_def starting_def)

theorem lanes_isolated_witness:
  "let s = ms_storageState (se_storage (hn_session sample_steered)) in
     has_key (s_entries s) (js ''e1'') \<and> \<not> has_key (s_entries s) (js ''e2'') \<and> (\<exists>p. value_at s (ns_pending, js ''e2'') = Some (SPending p))"
proof -
  let ?s = "ms_storageState (se_storage (hn_session sample_steered))"
  have l: "lane_map sample_steered (js ''main'') = Some (ln_state sample_steered_lane)" by (simp add: lane_map_def sample_steered_lanes)
  note lane = lanes_isolated [OF sample_steered_reachable, unfolded Let_def, THEN conjunct1, rule_format, OF l]
  have "has_key (s_entries ?s) (js ''e1'')"
    by (rule lane [THEN conjunct2, THEN conjunct1, rule_format]) (simp add: sample_steered_lane_def new_lane_def)
  moreover have item: "\<lparr>ii_entryId = js ''e2'', ii_kind = Steer\<rparr> \<in> set (ll_inbox (ln_state sample_steered_lane))"
    by (simp add: sample_steered_lane_def new_lane_def)
  note queued = lane [THEN conjunct2, THEN conjunct2, rule_format, OF item, unfolded inbox_item.select_convs]
  ultimately show ?thesis unfolding Let_def using queued by (intro conjI) simp_all
qed

end
