(* ===== verification/Drive_Plans.thy ===== *)
theory Drive_Plans
  imports Lane_Harness
begin

text \<open>
  The decisions of a drive pass: the planners that the procedures of \<^verbatim>\<open>packages/agent/src/harness/runtime/drive\<close> run on the mutation line, as
  arguments of \<open>settleOperation\<close> and of \<open>continueOperation\<close>. What happens between two of them (hooks, provider requests, tools, timers) is the
  environment: its results, new ids and the time are arguments here. The flag \<^verbatim>\<open>recovery\<close> of events is left out; a state has the fields of its
  declared type (\<^verbatim>\<open>assistantReadyAtBoundary\<close> also copies keys of the previous leaf, which nothing reads). \<open>WrongLeaf\<close> stands for a leaf that the type of
  the capability excludes.
\<close>

section \<open>Retry delays\<close>

definition is_safe_integer :: "jnum \<Rightarrow> bool" where
  "is_safe_integer n = (case n of JInt i \<Rightarrow> safe_int i | JDbl b \<Rightarrow> b = neg_zero)"

text \<open>\<^verbatim>\<open>2 ** k\<close>, exact until it overflows.\<close>

definition power_of_two :: "nat \<Rightarrow> jnum" where
  "power_of_two k = (if k < 1024 then JInt (2 ^ k) else infinity False)"

definition retryDelay :: "jnum \<Rightarrow> int \<Rightarrow> jnum" where
  "retryDelay baseDelayMs attempt =
     (let delay = num_mul baseDelayMs (power_of_two (nat (max 0 (attempt - 1)))) in
      if is_safe_integer delay then delay else JInt max_safe)"

definition retryNotBefore :: "jnum \<Rightarrow> int \<Rightarrow> int \<Rightarrow> jnum" where
  "retryNotBefore baseDelayMs attempt now =
     (let sum = num_add (JInt now) (retryDelay baseDelayMs attempt) in
      if is_safe_integer sum then sum else JInt max_safe)"

section \<open>Ending an operation\<close>

text \<open>The ids of results that are staged and not placed, in order.\<close>

definition staged_ids :: "operation_state \<Rightarrow> jstring list" where
  "staged_ids state =
     (case state of
        Tools _ batch \<Rightarrow>
          fold set_add (map tl_resultEntryId (filter (\<lambda>call. case tl_status call of OutcomeReady _ \<Rightarrow> True | _ \<Rightarrow> False) (tb_calls batch))) []
      | _ \<Rightarrow> [])"

definition frame_response :: "operation_state \<Rightarrow> jstring option" where
  "frame_response state =
     (case state of
        AssistantEffectPending _ _ _ responseEntryId _ _ _ \<Rightarrow> Some responseEntryId
      | DeferredEffectPending _ _ responseEntryId _ \<Rightarrow> Some responseEntryId
      | _ \<Rightarrow> None)"

definition scan_prefix :: "'s storage_ops \<Rightarrow> 's mutation \<Rightarrow> (session_error, address) res \<Rightarrow> (session_error, store_write list) res" where
  "scan_prefix ops m address =
     rbind address (\<lambda>p. rbind (mutation_scanValues ops m p) (\<lambda>values. Inr (map (\<lambda>v. deleteValue (sv_address v)) values)))"

definition operationCleanupWrites ::
  "'s storage_ops \<Rightarrow> 's mutation \<Rightarrow> jstring \<Rightarrow> operation_state \<Rightarrow> (session_error, store_write list) res" where
  "operationCleanupWrites ops m operationId state =
     rbind (scan_prefix ops m (operationToolArgsPrefix operationId None)) (\<lambda>toolArguments.
     rbind (scan_prefix ops m (operationToolMemoPrefix operationId None)) (\<lambda>toolMemos.
     rbind (scan_prefix ops m (operationPreparationPrefix operationId)) (\<lambda>preparations.
     rbind (scan_prefix ops m (pendingToolOutputPrefix operationId)) (\<lambda>toolOutputs.
     rbind (case frame_response state of
              None \<Rightarrow> Inr []
            | Some i \<Rightarrow> rbind (pendingAssistantFrames operationId i) (\<lambda>a. Inr [deleteList a])) (\<lambda>frameDelete.
     rbind (operationMeta operationId) (\<lambda>metaAddress.
     rbind (operationState operationId) (\<lambda>stateAddress.
     rbind (read_each (\<lambda>i. rbind (pendingEntry i) (\<lambda>a. Inr (deleteValue a))) (staged_ids state)) (\<lambda>staged.
       Inr ([deleteValue metaAddress, deleteValue stateAddress] @ toolArguments @ toolMemos @ preparations @ toolOutputs @ frameDelete @ staged)))))))))"

definition operationResultRecord ::
  "operation_meta \<Rightarrow> terminal_status \<Rightarrow> jstring option \<Rightarrow> operation_error option \<Rightarrow> int \<Rightarrow> (session_error, operation_result) res" where
  "operationResultRecord meta status tipId error endedAt =
     (if (status = Failed) \<noteq> (error \<noteq> None) then Inl (SessionInvariant (js ''Only a failed operation result may carry an error''))
      else Inr \<lparr>or_operationId = om_operationId meta, or_kind = intent_kind (om_intent meta), or_status = status, or_error = error,
        or_fromTipId = om_sourceTipId meta, or_tipId = tipId, or_startedAt = om_startedAt meta, or_endedAt = endedAt\<rparr>)"

text \<open>What a procedure returns to the loop of the pass.\<close>

datatype procedure_result = Continue | WaitingRetry jstring jnum | WaitingDeferred jstring deferred_handle | Settled operation_result

definition no_patch :: lane_patch where
  "no_patch = \<lparr>lp_tipId = None, lp_configuration = None, lp_inbox = None\<rparr>"

definition tip_patch :: "jstring option \<Rightarrow> lane_patch" where
  "tip_patch tipId = no_patch\<lparr>lp_tipId := Some tipId\<rparr>"

section \<open>Boundaries of a run\<close>

record drive_config = lane_config +
  dc_streamOptions :: stream_options
  dc_retryEnabled :: bool
  dc_maxRetries :: int
  dc_baseDelayMs :: jnum
  dc_projectors :: "jstring list"

definition normalizedRetryPolicy :: "drive_config \<Rightarrow> retry_policy" where
  "normalizedRetryPolicy config =
     \<lparr>rp_maxAttempts = (if dc_retryEnabled config then dc_maxRetries config + 1 else 1), rp_baseDelayMs = dc_baseDelayMs config\<rparr>"

definition assistantReadyAtBoundary :: "drive_config \<Rightarrow> live_lane \<Rightarrow> operation_scope \<Rightarrow> jstring \<Rightarrow> jstring \<Rightarrow> bool \<Rightarrow> operation_state" where
  "assistantReadyAtBoundary config state scope stepId triggerEntryId overflowRecoveryUsed =
     AssistantReady scope
       \<lparr>gc_stepId = stepId, gc_triggerEntryId = triggerEntryId, gc_configuration = ll_configuration state,
        gc_streamOptions = dc_streamOptions config, gc_retryPolicy = normalizedRetryPolicy config,
        gc_overflowRecoveryUsed = overflowRecoveryUsed\<rparr> 1"

record boundary_placement =
  pl_entries :: "new_entry list"
  pl_writes :: "store_write list"
  pl_tipId :: "jstring option"
  pl_inbox :: "inbox_item list"
  pl_triggerEntryId :: "jstring option"
  pl_queues :: "lane_queued_item list option"

definition load_item :: "'s storage_ops \<Rightarrow> 's mutation \<Rightarrow> inbox_item \<Rightarrow> (session_error, inbox_item \<times> pending_entry) res" where
  "load_item ops m item =
     rbind (read_typed ops m as_pending (pendingEntry (ii_entryId item))) (\<lambda>stored.
       case stored of
         None \<Rightarrow> Inl (PendingMissingPayload (ii_kind item) (ii_entryId item))
       | Some pending \<Rightarrow>
           if ii_kind item \<noteq> WriteItem \<and> (case pending of PendingMessage _ \<Rightarrow> False | _ \<Rightarrow> True)
           then Inl (PendingNotMessage (ii_kind item) (ii_entryId item))
           else Inr (item, pending))"

definition projects :: "drive_config \<Rightarrow> pending_entry \<Rightarrow> bool" where
  "projects config pending = (case pending of PendingMessage _ \<Rightarrow> True | PendingCustom customType _ \<Rightarrow> customType \<in> set (dc_projectors config))"

definition first_of_mode :: "queue_mode \<Rightarrow> inbox_item list \<Rightarrow> inbox_item list" where
  "first_of_mode mode items = (if mode = QueueAll then items else take 1 items)"

text \<open>The writes and the steering messages of a boundary, in queue order; then also the follow-ups.\<close>

definition select_boundary :: "operation_scope \<Rightarrow> inbox_item list \<Rightarrow> inbox_item list" where
  "select_boundary scope inbox =
     (let selectedSteer = first_of_mode (rs_steeringMode (os_settings scope)) (filter (\<lambda>item. ii_kind item = Steer) inbox) in
      filter (\<lambda>item. ii_kind item = WriteItem \<or> ii_entryId item \<in> ii_entryId ` set selectedSteer) inbox)"

definition index_of :: "'a list \<Rightarrow> 'a \<Rightarrow> nat" where
  "index_of xs x = length (takeWhile (\<lambda>y. y \<noteq> x) xs)"

definition with_followUps :: "operation_scope \<Rightarrow> inbox_item list \<Rightarrow> inbox_item list \<Rightarrow> inbox_item list" where
  "with_followUps scope inbox selected =
     (let selectedFollowUp = first_of_mode (rs_followUpMode (os_settings scope)) (filter (\<lambda>item. ii_kind item = FollowUp) inbox) in
      sort_key (index_of inbox) (selected @ selectedFollowUp))"

definition last_projecting :: "drive_config \<Rightarrow> (inbox_item \<times> pending_entry) list \<Rightarrow> jstring option" where
  "last_projecting config loaded =
     (case filter (\<lambda>(item, pending). projects config pending) loaded of [] \<Rightarrow> None | ps \<Rightarrow> Some (ii_entryId (fst (last ps))))"

definition planBoundaryInbox ::
  "'s storage_ops \<Rightarrow> drive_config \<Rightarrow> jstring \<Rightarrow> live_lane \<Rightarrow> operation_scope \<Rightarrow> 's mutation \<Rightarrow> jstring option \<Rightarrow> bool \<Rightarrow>
     (session_error, boundary_placement) res" where
  "planBoundaryInbox ops config name state scope m tipId followUpWhenNoTrigger =
     (let selected = select_boundary scope (ll_inbox state) in
      rbind (read_each (load_item ops m) selected) (\<lambda>pending.
      let more = (followUpWhenNoTrigger \<and> \<not> (\<exists>(item, value)\<in>set pending. projects config value));
          selected' = (if more then with_followUps scope (ll_inbox state) selected else selected) in
      rbind (if more then read_each (load_item ops m) selected' else Inr pending) (\<lambda>loaded.
      let entries = chainEntries tipId (map (\<lambda>(item, value). pendingEntryWrite (ii_entryId item) value) loaded);
          parentId = (if entries = [] then tipId else Some (ne_id (last entries)));
          inbox = filter (\<lambda>item. ii_entryId item \<notin> ii_entryId ` set selected') (ll_inbox state) in
      rbind (if selected' = [] then Inr None else rbind (readLaneQueues ops m inbox) (\<lambda>qs. Inr (Some qs))) (\<lambda>queues.
      rbind (delete_pending selected') (\<lambda>deletes.
      rbind (if entries = [] then Inr [] else rbind (branchTip name) (\<lambda>a. Inr [setValue a (STip parentId)])) (\<lambda>tip.
        Inr \<lparr>pl_entries = entries, pl_writes = map insertEntry entries @ deletes @ tip,
             pl_tipId = parentId, pl_inbox = inbox, pl_triggerEntryId = last_projecting config loaded, pl_queues = queues\<rparr>))))))"

definition boundaryPlacementEvents :: "boundary_placement \<Rightarrow> commit_result \<Rightarrow> nat \<Rightarrow> jstring \<Rightarrow> jstring \<Rightarrow> harness_event list" where
  "boundaryPlacementEvents placement commit firstWriteIndex name runId =
     committedEntryEvents (pl_entries placement) commit name (Some runId) firstWriteIndex @
     (case pl_queues placement of None \<Rightarrow> [] | Some queues \<Rightarrow> [on_lane name (QueueUpdate queues)])"

definition placement_patch :: "boundary_placement \<Rightarrow> lane_patch" where
  "placement_patch placement = \<lparr>lp_tipId = Some (pl_tipId placement), lp_configuration = None, lp_inbox = Some (pl_inbox placement)\<rparr>"

definition run_end :: "jstring \<Rightarrow> operation_meta \<Rightarrow> operation_result \<Rightarrow> harness_event" where
  "run_end name meta record =
     on_lane name (RunEnd (or_operationId record) (om_sourceTipId meta) (or_tipId record) (or_endedAt record) (or_status record) (or_error record))"

text \<open>The decision after \<^verbatim>\<open>before_run_end\<close>: new input renews the run, the follow-up of the hook does if the plan is still current, else the run is completed.\<close>

definition plan_finish ::
  "'s storage_ops \<Rightarrow> drive_config \<Rightarrow> jstring \<Rightarrow> jstring \<Rightarrow> bool \<Rightarrow> jstring list \<Rightarrow> harness_event list \<Rightarrow> (jstring \<times> agent_message) option \<Rightarrow> jstring \<Rightarrow> int \<Rightarrow>
     live_lane \<Rightarrow> operation_state \<Rightarrow> operation_meta \<Rightarrow> 's mutation \<Rightarrow> (session_error, procedure_result operation_command) res" where
  "plan_finish ops config name operationId includeFinalAssistant plannedEntryIds pendingEvents followUp stepId now state current meta m =
     (let scope = operationScopeOf current in
      rbind (planBoundaryInbox ops config name state scope m (ll_tipId state) True) (\<lambda>placement.
      case pl_triggerEntryId placement of
        Some trigger \<Rightarrow>
          Inr (OpCommit (pl_writes placement) (assistantReadyAtBoundary config state scope stepId trigger False) (placement_patch placement) (\<lambda>_. Continue)
            (\<lambda>commit. pendingEvents @ boundaryPlacementEvents placement commit 0 name operationId))
      | None \<Rightarrow>
          (case (map ne_id (pl_entries placement) = plannedEntryIds, followUp) of
             (True, Some (i, message)) \<Rightarrow>
               let entry = (message_entry (i, message))\<lparr>ne_parentId := pl_tipId placement\<rparr> in
               rbind (branchTip name) (\<lambda>tipAddress.
                 Inr (OpCommit (pl_writes placement @ [insertEntry entry, setValue tipAddress (STip (Some i))])
                   (assistantReadyAtBoundary config state scope stepId i False)
                   \<lparr>lp_tipId = Some (Some i), lp_configuration = None, lp_inbox = Some (pl_inbox placement)\<rparr> (\<lambda>_. Continue)
                   (\<lambda>commit. pendingEvents @ boundaryPlacementEvents placement commit 0 name operationId @
                      entryLifecycleEvents (materializeCommittedEntry entry (cr_seqs commit ! length (pl_writes placement)) (cr_timestamp commit)) name
                        (Some operationId))))
           | _ \<Rightarrow>
               if pl_tipId placement = None then Inl (SessionInvariant (js ''Completed run has no tip''))
               else if includeFinalAssistant \<and> os_latestAssistantEntryId scope = None
               then Inl (SessionInvariant (js ''Completed run is missing its final assistant''))
               else rbind (operationResultRecord meta Completed (pl_tipId placement) None now) (\<lambda>record.
                    rbind (operationCleanupWrites ops m operationId current) (\<lambda>cleanup.
                      Inr (OpFinish (pl_writes placement @ cleanup) record (placement_patch placement) (\<lambda>_. Settled record)
                        (\<lambda>commit. pendingEvents @ boundaryPlacementEvents placement commit 0 name operationId @ [run_end name meta record])))))))"

section \<open>Starting a run and its checkpoints\<close>

definition plan_prompt ::
  "'s storage_ops \<Rightarrow> live_lane \<Rightarrow> operation_state \<Rightarrow> operation_meta \<Rightarrow> 's mutation \<Rightarrow> (session_error, agent_message list operation_command) res" where
  "plan_prompt ops state current meta m =
     (case om_intent meta of
        RunIntent promptEntryIds \<Rightarrow>
          rbind (mutation_getEntries ops m promptEntryIds) (\<lambda>entries.
          rbind (read_each (\<lambda>i. case Option.bind (map_of entries i) (\<lambda>e. case ne_body e of MessageBody message _ \<Rightarrow> Some message | _ \<Rightarrow> None) of
                     None \<Rightarrow> Inl (SessionInvariant (js ''Run prompt entry '' @ i @ js '' is missing its message''))
                   | Some message \<Rightarrow> Inr message) promptEntryIds) (\<lambda>messages.
            Inr (OpReturn messages)))
      | _ \<Rightarrow> Inl (SessionInvariant (js ''Run operation has non-run intent'')))"

definition plan_start ::
  "jstring \<Rightarrow> jstring \<Rightarrow> (jstring \<times> agent_message) list \<Rightarrow> live_lane \<Rightarrow> operation_state \<Rightarrow> operation_meta \<Rightarrow> 's mutation \<Rightarrow>
     (session_error, procedure_result operation_command) res" where
  "plan_start name operationId reserved state current meta m =
     (let entries = chainEntries (ll_tipId state) (map message_entry reserved) in
      case (if entries = [] then ll_tipId state else Some (ne_id (last entries))) of
        None \<Rightarrow> Inl (SessionInvariant (js ''Run start has no trigger entry''))
      | Some trigger \<Rightarrow>
          rbind (if entries = [] then Inr [] else rbind (branchTip name) (\<lambda>a. Inr [setValue a (STip (Some trigger))])) (\<lambda>tip.
            Inr (OpCommit (map insertEntry entries @ tip)
              (Checkpoint (operationScopeOf current) \<lparr>cp_continuation = NeedAssistant False, cp_triggerEntryId = trigger\<rparr>)
              (tip_patch (Some trigger)) (\<lambda>_. Continue)
              (\<lambda>commit. committedEntryEvents entries commit name (Some operationId) 0))))"

datatype checkpoint_result = CheckpointDone procedure_result | FinishPending "jstring list"

text \<open>\<open>threshold\<close> is the compaction that \<^verbatim>\<open>prepareCompactionThreshold\<close> asks for: the id of its task and the preparation.\<close>

definition plan_checkpoint ::
  "'s storage_ops \<Rightarrow> drive_config \<Rightarrow> jstring \<Rightarrow> jstring \<Rightarrow> (jstring \<times> structural_preparation) option \<Rightarrow> jstring \<Rightarrow>
     live_lane \<Rightarrow> operation_state \<Rightarrow> operation_meta \<Rightarrow> 's mutation \<Rightarrow> (session_error, checkpoint_result operation_command) res" where
  "plan_checkpoint ops config name operationId threshold stepId state current meta m =
     (case current of
        Checkpoint scope cp \<Rightarrow>
          rbind (planBoundaryInbox ops config name state scope m (ll_tipId state)
                   (threshold = None \<and> (case cp_continuation cp of MayFinish _ \<Rightarrow> True | _ \<Rightarrow> False))) (\<lambda>placement.
          let commit_to = (\<lambda>writes next events. Inr (OpCommit writes next (placement_patch placement) (\<lambda>_. CheckpointDone Continue)
                (\<lambda>commit. boundaryPlacementEvents placement commit 0 name operationId @ events commit))) in
          case pl_triggerEntryId placement of
            Some trigger \<Rightarrow> commit_to (pl_writes placement) (assistantReadyAtBoundary config state scope stepId trigger False) (\<lambda>_. [])
          | None \<Rightarrow>
              (case threshold of
                 Some (taskId, preparation) \<Rightarrow>
                   rbind (operationPreparation operationId taskId) (\<lambda>address.
                     commit_to (pl_writes placement @ [setValue address (SPreparation preparation)])
                       (SummaryDeciding scope \<lparr>st_taskId = taskId, st_reason = Some RThreshold, st_customInstructions = None,
                          st_boundary = ResumeCheckpoint cp\<rparr>)
                       (\<lambda>commit. [on_lane name (CompactionStart operationId RThreshold (cr_timestamp commit))]))
               | None \<Rightarrow>
                   (case cp_continuation cp of
                      NeedAssistant overflowRecoveryUsed \<Rightarrow>
                        commit_to (pl_writes placement)
                          (assistantReadyAtBoundary config state scope stepId (cp_triggerEntryId cp) overflowRecoveryUsed) (\<lambda>_. [])
                    | MayFinish _ \<Rightarrow> Inr (OpReturn (FinishPending (map ne_id (pl_entries placement)))))))
      | _ \<Rightarrow> Inl WrongLeaf)"

section \<open>Requests\<close>

definition plan_intent ::
  "jstring \<Rightarrow> jstring \<Rightarrow> generation_context \<Rightarrow> int \<Rightarrow> jstring \<Rightarrow> jstring \<Rightarrow> jnum \<Rightarrow> jnum \<Rightarrow> live_lane \<Rightarrow> operation_state \<Rightarrow> operation_meta \<Rightarrow> 's mutation \<Rightarrow>
     (session_error, operation_state operation_command) res" where
  "plan_intent name operationId generation attempt responseEntryId usageId maxTokens contextWindow state current meta m =
     (let nextState = AssistantEffectPending (operationScopeOf current) generation attempt responseEntryId usageId maxTokens contextWindow in
      Inr (OpCommit [] nextState no_patch (\<lambda>_. nextState)
        (\<lambda>_. if attempt = 1 then [on_lane name (TurnStart operationId (gc_stepId generation))] else [])))"

definition plan_retry ::
  "jstring \<Rightarrow> jstring \<Rightarrow> generation_context \<Rightarrow> int \<Rightarrow> live_lane \<Rightarrow> operation_state \<Rightarrow> operation_meta \<Rightarrow> 's mutation \<Rightarrow>
     (session_error, procedure_result operation_command) res" where
  "plan_retry name operationId generation nextAttempt state current meta m =
     Inr (OpCommit [] (AssistantReady (operationScopeOf current) generation nextAttempt) no_patch (\<lambda>_. Continue)
       (\<lambda>_. [on_lane name (RetryStart operationId (gc_stepId generation) nextAttempt)]))"

text \<open>A pass that may not wait for the next attempt reports the time it waits for.\<close>

definition retry_wait_result :: "jstring \<Rightarrow> jnum \<Rightarrow> bool \<Rightarrow> int \<Rightarrow> procedure_result option" where
  "retry_wait_result operationId notBefore waitForRetry now =
     (if num_less (JInt now) notBefore \<and> \<not> waitForRetry then Some (WaitingRetry operationId notBefore) else None)"

definition plan_configuration_failure ::
  "'s storage_ops \<Rightarrow> jstring \<Rightarrow> jstring \<Rightarrow> operation_error \<Rightarrow> int \<Rightarrow> live_lane \<Rightarrow> operation_state \<Rightarrow> operation_meta \<Rightarrow> 's mutation \<Rightarrow>
     (session_error, procedure_result operation_command) res" where
  "plan_configuration_failure ops name operationId error now state current meta m =
     (if ll_tipId state = None then Inl (SessionInvariant (js ''Failed run has no Branch tip''))
      else rbind (operationResultRecord meta Failed (ll_tipId state) (Some error) now) (\<lambda>record.
           rbind (operationCleanupWrites ops m operationId current) (\<lambda>cleanup.
             Inr (OpFinish cleanup record no_patch (\<lambda>_. Settled record) (\<lambda>_. [run_end name meta record])))))"

section \<open>Responses\<close>

text \<open>
  \<^verbatim>\<open>Number.parseInt(text, 16)\<close> after white space, a sign and \<^verbatim>\<open>0x\<close>, without value if no hexadecimal digit follows.
\<close>

definition is_white :: "16 word \<Rightarrow> bool" where
  "is_white u \<longleftrightarrow>
     9 \<le> u \<and> u \<le> 13 \<or> u \<in> {32, 160, 5760, 8232, 8233, 8239, 8287, 12288, 65279} \<or> 8192 \<le> u \<and> u \<le> 8202"

definition hex_value :: "16 word \<Rightarrow> nat option" where
  "hex_value u =
     (if 48 \<le> u \<and> u \<le> 57 then Some (unat u - 48) else if 97 \<le> u \<and> u \<le> 102 then Some (unat u - 87)
      else if 65 \<le> u \<and> u \<le> 70 then Some (unat u - 55) else None)"

definition parse_hex :: "jstring \<Rightarrow> int option" where
  "parse_hex t =
     (let trimmed = dropWhile is_white t;
          unsigned = (case trimmed of [] \<Rightarrow> [] | u # us \<Rightarrow> if u = 43 \<or> u = 45 then us else trimmed);
          stripped = (if take 2 unsigned = [48, 120] \<or> take 2 unsigned = [48, 88] then drop 2 unsigned else unsigned);
          digits = takeWhile (\<lambda>u. hex_value u \<noteq> None) stripped in
      if digits = [] then None
      else Some ((if take 1 trimmed = [45] then - 1 else 1) * int (foldl (\<lambda>n u. 16 * n + the (hex_value u)) 0 digits)))"

text \<open>The time of a UUIDv7; twelve digits are a safe integer.\<close>

definition uuidV7Timestamp :: "jstring \<Rightarrow> (session_error, int) res" where
  "uuidV7Timestamp i =
     (case parse_hex (take 8 i @ take 4 (drop 9 i)) of
        None \<Rightarrow> Inl (SessionInvariant (js ''Invalid reserved UUIDv7 '' @ i))
      | Some timestamp \<Rightarrow> Inr timestamp)"

datatype response_source = FromAssistant | FromDeferred

definition source_name :: "response_source \<Rightarrow> jstring" where
  "source_name source = (case source of FromAssistant \<Rightarrow> js ''Assistant'' | FromDeferred \<Rightarrow> js ''Deferred'')"

definition stop_reason_text :: "stop_reason \<Rightarrow> jstring" where
  "stop_reason_text r =
     (case r of StopPending \<Rightarrow> js ''pending'' | StopStop \<Rightarrow> js ''stop'' | StopLength \<Rightarrow> js ''length'' | StopToolUse \<Rightarrow> js ''toolUse''
      | StopError \<Rightarrow> js ''error'' | StopAborted \<Rightarrow> js ''aborted'' | StopDeferred \<Rightarrow> js ''deferred'')"

definition or_text :: "jstring option \<Rightarrow> jstring \<Rightarrow> jstring" where
  "or_text s fallback = (case s of None \<Rightarrow> fallback | Some t \<Rightarrow> t)"

definition providerError :: "response_source \<Rightarrow> assistant_message \<Rightarrow> operation_error" where
  "providerError source message =
     \<lparr>oe_code = js ''assistant_error'',
      oe_message = or_text (am_errorMessage message) (source_name source @ js '' request ended with '' @ stop_reason_text (am_stopReason message)),
      oe_details = None\<rparr>"

definition normalizeError :: "assistant_message \<Rightarrow> jstring \<Rightarrow> assistant_message" where
  "normalizeError message errorMessage = message\<lparr>am_stopReason := StopError, am_errorMessage := Some errorMessage\<rparr>"

definition normalizeAborted :: "response_source \<Rightarrow> assistant_message \<Rightarrow> assistant_message" where
  "normalizeAborted source message =
     message\<lparr>am_stopReason := StopAborted,
       am_errorMessage := Some (or_text (am_errorMessage message) (source_name source @ js '' request was cancelled''))\<rparr>"

definition deferredHandleIsValid :: "assistant_message \<Rightarrow> generation_context \<Rightarrow> bool" where
  "deferredHandleIsValid message generation \<longleftrightarrow>
     am_stopReason message = StopDeferred \<and>
     (case am_deferred message of
        None \<Rightarrow> False
      | Some handle \<Rightarrow> dh_id handle \<noteq> [] \<and> dh_provider handle = mr_provider (lc_model (gc_configuration generation)) \<and>
          dh_modelId handle = mr_modelId (lc_model (gc_configuration generation)) \<and> dh_api handle = am_api message)"

text \<open>What a response leads to: the message that is committed, and the next state or the error the run fails with.\<close>

datatype disposition = NextState operation_state | Failure operation_error

definition call_indices :: "assistant_content list \<Rightarrow> int list" where
  "call_indices content =
     map (\<lambda>(i, _). int i) (filter (\<lambda>(_, block). case block of AsToolCall _ \<Rightarrow> True | _ \<Rightarrow> False) (List.enumerate 0 content))"

definition planned_calls :: "int list \<Rightarrow> jstring list \<Rightarrow> tool_call list" where
  "planned_calls indices ids = map (\<lambda>(i, r). \<lparr>tl_sourceIndex = i, tl_resultEntryId = r, tl_status = Planned\<rparr>) (zip indices ids)"

definition may_finish :: "operation_scope \<Rightarrow> bool \<Rightarrow> jstring \<Rightarrow> operation_state" where
  "may_finish scope includeFinalAssistant trigger = Checkpoint scope \<lparr>cp_continuation = MayFinish includeFinalAssistant, cp_triggerEntryId = trigger\<rparr>"

text \<open>A response without error: its tool calls, if any, are planned under new ids.\<close>

definition dispose_answer ::
  "response_source \<Rightarrow> operation_scope \<Rightarrow> lane_configuration \<Rightarrow> jstring \<Rightarrow> jstring \<Rightarrow> jstring list \<Rightarrow> assistant_message \<Rightarrow>
     (session_error, assistant_message \<times> disposition) res" where
  "dispose_answer source scope configuration turnId responseEntryId toolIds response =
     (let calls = call_indices (am_content response) in
      if calls \<noteq> [] then
        rbind (uuidV7Timestamp responseEntryId) (\<lambda>_.
          Inr (response, NextState (Tools scope
            \<lparr>tb_assistantEntryId = responseEntryId, tb_configuration = configuration, tb_turnId = turnId, tb_calls = planned_calls calls toolIds\<rparr>)))
      else if am_stopReason response = StopToolUse then
        (let committed = normalizeError response (js ''Provider reported tool use without any tool calls'') in
         Inr (committed, Failure (providerError source committed)))
      else Inr (response, NextState (may_finish scope True responseEntryId)))"

text \<open>
  A response to a generation. \<open>overflow\<close> is whether it ran out of context, \<open>preparation\<close> the compaction prepared for that case, and \<open>retryable\<close>
  whether a failed request may be tried again.
\<close>

definition dispose_assistant ::
  "operation_scope \<Rightarrow> generation_context \<Rightarrow> int \<Rightarrow> jstring \<Rightarrow> bool \<Rightarrow> jstring option \<Rightarrow> bool \<Rightarrow> jstring list \<Rightarrow> int \<Rightarrow> assistant_message \<Rightarrow>
     (session_error, assistant_message \<times> disposition) res" where
  "dispose_assistant scope generation attempt responseEntryId overflow taskId retryable toolIds now response =
     (if overflow then
        let committed = normalizeError response (or_text (am_errorMessage response) (js ''Assistant request exceeded the context window'')) in
        Inr (committed,
          case (gc_overflowRecoveryUsed generation, taskId) of
            (False, Some task) \<Rightarrow>
              NextState (SummaryDeciding scope
                \<lparr>st_taskId = task, st_reason = Some ROverflow, st_customInstructions = None,
                 st_boundary = ResumeCheckpoint \<lparr>cp_continuation = NeedAssistant True, cp_triggerEntryId = gc_triggerEntryId generation\<rparr>\<rparr>)
          | _ \<Rightarrow> Failure (providerError FromAssistant committed))
      else if am_stopReason response = StopDeferred then
        (if deferredHandleIsValid response generation then
           Inr (response, NextState (DeferredSuspended scope
             \<lparr>ds_stepId = gc_stepId generation, ds_sourceEntryId = responseEntryId, ds_poll = 0, ds_configuration = gc_configuration generation,
              ds_streamOptions = gc_streamOptions generation\<rparr>))
         else
           let committed = normalizeError response (js ''Provider returned an invalid deferred handle'') in
           Inr (committed, Failure (providerError FromAssistant committed)))
      else if am_stopReason response = StopError then
        Inr (response,
          if retryable \<and> attempt < rp_maxAttempts (gc_retryPolicy generation) then
            NextState (AssistantRetryWait scope generation
              \<lparr>rw_nextAttempt = attempt + 1, rw_notBefore = retryNotBefore (rp_baseDelayMs (gc_retryPolicy generation)) attempt now,
               rw_errorMessage = or_text (am_errorMessage response) (js ''Assistant request failed'')\<rparr>)
          else Failure (providerError FromAssistant response))
      else dispose_answer FromAssistant scope (gc_configuration generation) (gc_stepId generation) responseEntryId toolIds response)"

definition poll_turn :: "deferred_scope \<Rightarrow> jstring" where
  "poll_turn deferred = ds_stepId deferred @ js '':poll:'' @ int_text (ds_poll deferred)"

definition dispose_deferred ::
  "operation_scope \<Rightarrow> deferred_scope \<Rightarrow> jstring \<Rightarrow> jstring list \<Rightarrow> assistant_message \<Rightarrow> (session_error, assistant_message \<times> disposition) res" where
  "dispose_deferred scope deferred responseEntryId toolIds response =
     (if am_stopReason response = StopDeferred then
        Inr (response, NextState (DeferredSuspended scope (deferred\<lparr>ds_sourceEntryId := responseEntryId\<rparr>)))
      else if am_stopReason response = StopError then Inr (response, Failure (providerError FromDeferred response))
      else dispose_answer FromDeferred scope (ds_configuration deferred) (poll_turn deferred) responseEntryId toolIds response)"

definition dispose ::
  "operation_state \<Rightarrow> jstring \<Rightarrow> bool \<Rightarrow> jstring option \<Rightarrow> bool \<Rightarrow> jstring list \<Rightarrow> int \<Rightarrow> assistant_message \<Rightarrow>
     (session_error, assistant_message \<times> disposition) res" where
  "dispose current responseEntryId overflow taskId retryable toolIds now response =
     (let scope = (operationScopeOf current)\<lparr>os_latestAssistantEntryId := Some responseEntryId\<rparr>;
          source = (case current of AssistantEffectPending _ _ _ _ _ _ _ \<Rightarrow> FromAssistant | _ \<Rightarrow> FromDeferred) in
      if is_cancelled current then Inr (normalizeAborted source response, NextState (may_finish scope True responseEntryId))
      else if am_stopReason response = StopAborted
      then Inl (SessionInvariant (source_name source @ js '' response is aborted while durable control is running''))
      else case current of
          AssistantEffectPending _ generation attempt _ _ _ _ \<Rightarrow>
            dispose_assistant scope generation attempt responseEntryId overflow taskId retryable toolIds now response
        | DeferredEffectPending _ deferred _ _ \<Rightarrow> dispose_deferred scope deferred responseEntryId toolIds response
        | _ \<Rightarrow> Inl WrongLeaf)"

definition turn_of :: "operation_state \<Rightarrow> jstring" where
  "turn_of current =
     (case current of
        AssistantEffectPending _ generation _ _ _ _ _ \<Rightarrow> gc_stepId generation
      | DeferredEffectPending _ deferred _ _ \<Rightarrow> poll_turn deferred
      | _ \<Rightarrow> [])"

definition is_tools :: "disposition \<Rightarrow> bool" where
  "is_tools d = (case d of NextState (Tools _ _) \<Rightarrow> True | _ \<Rightarrow> False)"

definition is_retry :: "disposition \<Rightarrow> bool" where
  "is_retry d = (case d of NextState (AssistantRetryWait _ _ _) \<Rightarrow> True | _ \<Rightarrow> False)"

text \<open>The events about an assistant request, then those about a deferred poll, and the ones both have.\<close>

definition assistant_events ::
  "jstring \<Rightarrow> jstring \<Rightarrow> generation_context \<Rightarrow> int \<Rightarrow> bool \<Rightarrow> assistant_message \<Rightarrow> disposition \<Rightarrow> commit_result \<Rightarrow> harness_payload list" where
  "assistant_events name operationId generation attempt recovery committed d commit =
     (let success = (am_stopReason committed \<noteq> StopError \<and> am_stopReason committed \<noteq> StopAborted) in
      (if \<not> recovery \<and> 1 < attempt \<and> \<not> is_retry d then
         [RetryEnd operationId (gc_stepId generation) attempt success
            (if success then None
             else Some (or_text (am_errorMessage committed) (js ''Assistant request ended with '' @ stop_reason_text (am_stopReason committed))))]
       else []) @
      (case d of
         NextState (AssistantRetryWait _ g w) \<Rightarrow>
           if recovery then []
           else [RetryScheduled operationId (gc_stepId generation) (rw_nextAttempt w) (rp_maxAttempts (gc_retryPolicy g))
                   (retryDelay (rp_baseDelayMs (gc_retryPolicy generation)) attempt) (rw_notBefore w) (rw_errorMessage w)]
       | _ \<Rightarrow> []) @
      (if \<not> recovery \<and> \<not> is_tools d \<and> \<not> is_retry d then [TurnEnd operationId (gc_stepId generation) committed []] else []) @
      (case d of NextState (SummaryDeciding _ _) \<Rightarrow> [CompactionStart operationId ROverflow (cr_timestamp commit)] | _ \<Rightarrow> []))"

definition response_events ::
  "jstring \<Rightarrow> jstring \<Rightarrow> operation_state \<Rightarrow> operation_meta \<Rightarrow> bool \<Rightarrow> new_entry \<Rightarrow> new_usage_row \<Rightarrow> assistant_message \<Rightarrow> disposition \<Rightarrow>
     operation_result option \<Rightarrow> commit_result \<Rightarrow> harness_event list" where
  "response_events name operationId current meta recovery entry row committed d result commit =
     map (on_lane name)
       ([EntryAdded (materializeCommittedEntry entry (cr_seqs commit ! 0) (cr_timestamp commit)),
         UsageRecorded \<lparr>ur_id = ur_id row, ur_usage = ur_usage row, ur_entryId = ur_entryId row, ur_adjustment = ur_adjustment row,
           ur_details = ur_details row, ur_seq = cr_seqs commit ! 1\<rparr> (ss_usage (cr_stats commit))] @
        (case current of
           AssistantEffectPending _ generation attempt _ _ _ _ \<Rightarrow> assistant_events name operationId generation attempt recovery committed d commit
         | _ \<Rightarrow> if is_tools d then [] else [TurnEnd operationId (turn_of current) committed []]) @
        (case (d, am_deferred committed) of
           (NextState (DeferredSuspended _ s), Some handle) \<Rightarrow>
             if recovery \<and> (case current of DeferredEffectPending _ _ _ _ \<Rightarrow> False | _ \<Rightarrow> True) then [] else [RunSuspend operationId handle (ds_poll s)]
         | _ \<Rightarrow> [])) @
     (case result of None \<Rightarrow> [] | Some record \<Rightarrow> [run_end name meta record])"

text \<open>
  The settlement of one response: the message under its reserved id, its usage, the tip, and either the frames go and the next state is
  written, or the operation ends.
\<close>

definition plan_response ::
  "'s storage_ops \<Rightarrow> jstring \<Rightarrow> jstring \<Rightarrow> jstring \<Rightarrow> jstring \<Rightarrow> assistant_message \<Rightarrow> bool \<Rightarrow> (jstring \<times> structural_preparation) option \<Rightarrow> bool \<Rightarrow> bool \<Rightarrow>
     jstring list \<Rightarrow> int \<Rightarrow> live_lane \<Rightarrow> operation_state \<Rightarrow> operation_meta \<Rightarrow> 's mutation \<Rightarrow> (session_error, procedure_result operation_command) res" where
  "plan_response ops name operationId responseEntryId usageId response overflow preparation retryable recovery toolIds now state current meta m =
     rbind (dispose current responseEntryId overflow (map_option fst preparation) (recovery \<or> retryable) toolIds now response) (\<lambda>(committed, d).
     let entry = \<lparr>ne_id = responseEntryId, ne_parentId = ll_tipId state, ne_customType = None, ne_body = MessageBody (Llm (AssistantMsg committed)) False\<rparr>;
         row = \<lparr>ur_id = usageId, ur_usage = am_usage committed, ur_entryId = Some responseEntryId, ur_adjustment = False, ur_details = None\<rparr> in
     let settled = (\<lambda>tipAddress. [insertEntry entry, insertUsage row, setValue tipAddress (STip (Some responseEntryId))]) in
     case d of
       Failure failure \<Rightarrow>
         rbind (operationResultRecord meta Failed (Some responseEntryId) (Some failure) now) (\<lambda>record.
         rbind (operationCleanupWrites ops m operationId current) (\<lambda>cleanup.
         rbind (branchTip name) (\<lambda>tipAddress.
           Inr (OpFinish (settled tipAddress @ cleanup) record (tip_patch (Some responseEntryId)) (\<lambda>_. Settled record)
             (response_events name operationId current meta recovery entry row committed d (Some record))))))
     | NextState nextState \<Rightarrow>
         rbind (branchTip name) (\<lambda>tipAddress.
         rbind (pendingAssistantFrames operationId responseEntryId) (\<lambda>frames.
         rbind (case (nextState, preparation) of
                  (SummaryDeciding _ _, Some (taskId, prepared)) \<Rightarrow>
                    rbind (operationPreparation operationId taskId) (\<lambda>a. Inr [setValue a (SPreparation prepared)])
                | _ \<Rightarrow> Inr []) (\<lambda>preparationWrites.
           Inr (OpCommit (settled tipAddress @ [deleteList frames] @ preparationWrites) nextState (tip_patch (Some responseEntryId)) (\<lambda>_. Continue)
             (response_events name operationId current meta recovery entry row committed d None))))))"

text \<open>The message that stands for an interrupted request.\<close>

definition interruption_warning :: jstring where
  "interruption_warning = js ''Assistant request was interrupted. The preceding content is the latest committed partial; newer live output may be missing and the external outcome is unknown.''"

definition interruptedAssistantMessage :: "model_ref \<Rightarrow> assistant_message option \<Rightarrow> int \<Rightarrow> assistant_message" where
  "interruptedAssistantMessage identity partial now =
     (case partial of
        None \<Rightarrow> \<lparr>am_content = [], am_api = js ''unknown'', am_provider = mr_provider identity, am_model = mr_modelId identity, am_responseModel = None,
          am_responseId = None, am_providerThinkingLevel = None, am_diagnostics = None, am_usage = emptyUsage, am_stopReason = StopError,
          am_deferred = None, am_errorMessage = Some interruption_warning, am_rawStopReason = None, am_endTurn = None, am_timestamp = now\<rparr>
      | Some p \<Rightarrow> p\<lparr>am_usage := emptyUsage, am_stopReason := StopError, am_errorMessage := Some interruption_warning\<rparr>)"

section \<open>Cancellation\<close>

definition summary_end :: "jstring \<Rightarrow> operation_state \<Rightarrow> operation_result \<Rightarrow> (session_error, harness_payload list) res" where
  "summary_end operationId current record =
     (case summary_task_of current of
        None \<Rightarrow> Inr []
      | Some task \<Rightarrow>
          (case (st_boundary task, st_reason task) of
             (ResumeCheckpoint _, Some reason) \<Rightarrow> Inr [CompactionEnd operationId reason (or_endedAt record) Aborted None None]
           | _ \<Rightarrow> Inl (SessionInvariant (js ''Cancelled run summary has an invalid result boundary''))))"

definition aborted_events :: "jstring \<Rightarrow> jstring \<Rightarrow> operation_meta \<Rightarrow> operation_state \<Rightarrow> operation_result \<Rightarrow> (session_error, harness_event list) res" where
  "aborted_events name operationId meta current record =
     (case om_intent meta of
        RunIntent _ \<Rightarrow> rbind (summary_end operationId current record) (\<lambda>es. Inr (map (on_lane name) es @ [run_end name meta record]))
      | CompactionIntent _ \<Rightarrow> Inr [on_lane name (CompactionEnd operationId RManual (or_endedAt record) Aborted None None)]
      | NavigationIntent _ _ _ _ \<Rightarrow>
          Inr [on_lane name (NavigationEnd operationId (om_sourceTipId meta) (or_tipId record) (or_endedAt record) Aborted None)])"

definition plan_aborted ::
  "'s storage_ops \<Rightarrow> jstring \<Rightarrow> jstring \<Rightarrow> int \<Rightarrow> live_lane \<Rightarrow> operation_state \<Rightarrow> operation_meta \<Rightarrow> 's mutation \<Rightarrow>
     (session_error, procedure_result operation_command) res" where
  "plan_aborted ops name operationId now state current meta m =
     (if \<not> is_cancelled current then Inl (SessionInvariant (js ''Cancellation reconciliation requires cancelled durable control''))
      else rbind (operationResultRecord meta Aborted (ll_tipId state) None now) (\<lambda>record.
           rbind (operationCleanupWrites ops m operationId current) (\<lambda>cleanup.
           rbind (aborted_events name operationId meta current record) (\<lambda>events.
             Inr (OpFinish cleanup record no_patch (\<lambda>_. Settled record) (\<lambda>_. events))))))"

text \<open>Which procedure advances a cancelled leaf.\<close>

datatype reconciliation = RecoverEffect | RunToolCalls | CancelDeferredThenAbort | CancelDeferredThenRecover | PublishAborted

fun reconciliation_of :: "operation_state \<Rightarrow> reconciliation" where
  "reconciliation_of (AssistantEffectPending _ _ _ _ _ _ _) = RecoverEffect"
| "reconciliation_of (Tools _ _) = RunToolCalls"
| "reconciliation_of (DeferredSuspended _ _) = CancelDeferredThenAbort"
| "reconciliation_of (DeferredEffectPending _ _ _ _) = CancelDeferredThenRecover"
| "reconciliation_of _ = PublishAborted"

section \<open>Deferred responses\<close>

definition readDeferredSourceHandle :: "'s storage_ops \<Rightarrow> 's mutation \<Rightarrow> deferred_scope \<Rightarrow> (session_error, deferred_handle) res" where
  "readDeferredSourceHandle ops m deferred =
     rbind (mutation_getEntries ops m [ds_sourceEntryId deferred]) (\<lambda>entries.
       let missing = Inl (SessionInvariant (js ''Deferred source '' @ ds_sourceEntryId deferred @ js '' is missing its assistant handle'')) in
       case Option.bind (map_of entries (ds_sourceEntryId deferred)) (\<lambda>e. case ne_body e of MessageBody (Llm (AssistantMsg a)) _ \<Rightarrow> Some a | _ \<Rightarrow> None) of
         None \<Rightarrow> missing
       | Some message \<Rightarrow>
           (case am_deferred message of
              None \<Rightarrow> missing
            | Some handle \<Rightarrow>
                if am_stopReason message \<noteq> StopDeferred then missing
                else if dh_id handle = [] \<or> dh_provider handle \<noteq> mr_provider (lc_model (ds_configuration deferred)) \<or>
                  dh_modelId handle \<noteq> mr_modelId (lc_model (ds_configuration deferred)) \<or> dh_api handle \<noteq> am_api message
                then Inl (SessionInvariant (js ''Deferred source '' @ ds_sourceEntryId deferred @ js '' has an invalid handle''))
                else Inr handle))"

text \<open>A poll takes new ids; the frames of an orphaned one go. \<open>expected\<close> is the leaf the poll was prepared for.\<close>

definition plan_poll ::
  "jstring \<Rightarrow> jstring \<Rightarrow> operation_state \<Rightarrow> int \<Rightarrow> jstring \<Rightarrow> jstring \<Rightarrow> live_lane \<Rightarrow> operation_state \<Rightarrow> operation_meta \<Rightarrow> 's mutation \<Rightarrow>
     (session_error, operation_state operation_command) res" where
  "plan_poll name operationId expected poll responseEntryId usageId state current meta m =
     (let commit_with = (\<lambda>deferred writes.
        let next = deferred\<lparr>ds_poll := poll\<rparr>;
            nextState = DeferredEffectPending (operationScopeOf current) next responseEntryId usageId in
        Inr (OpCommit writes nextState no_patch (\<lambda>_. nextState)
          (\<lambda>_. [on_lane name (RunResume operationId), on_lane name (TurnStart operationId (poll_turn next))]))) in
      case expected of
        DeferredSuspended _ deferred \<Rightarrow> commit_with deferred []
      | DeferredEffectPending _ deferred orphan _ \<Rightarrow>
          rbind (pendingAssistantFrames operationId orphan) (\<lambda>a. commit_with deferred [deleteList a])
      | _ \<Rightarrow> Inl WrongLeaf)"

end
