(* ===== verification/Drive_Settle.thy ===== *)
theory Drive_Settle
  imports Lane_Settle Drive_Plans
begin

text \<open>
  The decisions of a drive pass meet the contract of \<open>settleOperation\<close>, and what they leave behind: the values an operation owns are
  deleted by the commit that ends it.
\<close>

section \<open>Deletions\<close>

definition is_delete :: "store_write \<Rightarrow> bool" where
  "is_delete w = (case w of WValueDelete _ _ \<Rightarrow> True | WListDelete _ _ \<Rightarrow> True | _ \<Rightarrow> False)"

lemma delete_writes:
  assumes "\<forall>w\<in>set ds. is_delete w"
  shows "new_ids ds = []" "new_entry_ids ds = []" "apply_values ds V p = (if p \<in> touched ds then None else V p)"
    "\<forall>w\<in>set ds. write_valid w \<and> \<not> pending_assistant_write w" "parents_before ek ds"
proof -
  show "new_ids ds = []" "new_entry_ids ds = []"
    using assms by (induction ds; simp add: is_delete_def split: store_write.splits)+
  show "apply_values ds V p = (if p \<in> touched ds then None else V p)"
    using assms by (induction ds arbitrary: V) (auto simp: is_delete_def split: store_write.splits)
  show "\<forall>w\<in>set ds. write_valid w \<and> \<not> pending_assistant_write w"
    using assms by (auto simp: is_delete_def pending_assistant_write_def split: store_write.splits)
  show "parents_before ek ds" using assms by (fastforce simp: parents_before_def is_delete_def)
qed

lemma parents_before_append:
  "parents_before ek (us @ ws) \<longleftrightarrow> parents_before ek us \<and> parents_before (\<lambda>p. ek p \<or> p \<in> set (new_entry_ids us)) ws"
proof (induction us arbitrary: ek)
  case (Cons u us)
  have "(\<lambda>p. (ek p \<or> p \<in> set (case u of WEntry e \<Rightarrow> [ne_id e] | _ \<Rightarrow> [])) \<or> p \<in> set (new_entry_ids us)) =
    (\<lambda>p. ek p \<or> p \<in> set (new_entry_ids (u # us)))" by (auto simp: new_entry_ids_Cons fun_eq_iff)
  then show ?case by (simp add: parents_before_Cons Cons.IH)
qed simp

lemma commit_fits_deletes: "commit_fits s ws \<Longrightarrow> \<forall>w\<in>set ds. is_delete w \<Longrightarrow> commit_fits s (ws @ ds)"
  by (auto simp: commit_fits_def delete_writes parents_before_append)

section \<open>What an operation owns\<close>

text \<open>The values that are stored for one operation, besides its metadata and its state.\<close>

definition owned_namespaces :: "jstring set" where
  "owned_namespaces = {js ''phi.op.tool_args'', js ''phi.op.tool_memo'', js ''phi.op.preparation'', js ''phi.pending.tool_output''}"

definition owned_by :: "jstring \<Rightarrow> (jstring \<times> jstring) set" where
  "owned_by operationId =
     {(ns_meta, operationId), (ns_operation, operationId)} \<union> {(ns, k). ns \<in> owned_namespaces \<and> prefix (operationId @ colon) k}"

lemma owned_free: "ns \<in> owned_namespaces \<Longrightarrow> (ns, k) \<in> free_addrs"
  by (auto simp: owned_namespaces_def free_addrs_def js_def)

lemma owned_control: "ns_meta \<notin> owned_namespaces" "ns_operation \<notin> owned_namespaces"
  by (auto simp: owned_namespaces_def js_def)

lemma owned_valid: "ns \<in> owned_namespaces \<Longrightarrow> 0 \<notin> set k \<Longrightarrow> valid_address ns k"
  by (auto simp: owned_namespaces_def valid_address_def js_nonzero js_def)

lemma scan_stored:
  assumes s: "storage_reachable s"
  shows "(\<exists>v\<in>set (scanValues s \<lparr>a_namespace = ns, a_key = k, a_kind = AValue\<rparr>). (a_namespace (sv_address v), a_key (sv_address v)) = (ns', k')) \<longleftrightarrow>
    ns' = ns \<and> prefix k k' \<and> value_at s (ns', k') \<noteq> None"
proof -
  let ?a = "\<lparr>a_namespace = ns', a_key = k', a_kind = AValue\<rparr>"
  have ok: "storage_ok s" by (rule storage_reachable_ok [OF s])
  have V: "value_at s (ns', k') = map_option sv_value (getValue s ?a)"
    using getValue_abs [of s ?a, symmetric] by (simp add: value_at_def option.map_comp comp_def)
  have "a_namespace (sv_address v) = ns'" "a_key (sv_address v) = k'" if "getValue s ?a = Some v" for v
    using getValue_address [OF s that] scalar_stored_valid [of s ns' k' v] that ok by (simp_all add: storage_ok_def getValue_def)
  then show ?thesis
    unfolding bex_simps(8) [symmetric] Bex_def scanValues_members [OF ok, where p = "\<lparr>a_namespace = ns, a_key = k, a_kind = AValue\<rparr>", simplified] V
    by (auto simp: getValue_def)
qed

lemma touched_deletes: "touched (map (\<lambda>v. deleteValue (f v)) vs) = (\<lambda>v. (a_namespace (f v), a_key (f v))) ` set vs"
  by (induction vs) (simp_all add: deleteValue_def)

context session_storage
begin

lemma scan_touched:
  assumes st: "ready st" and ns: "ns \<in> owned_namespaces" and k: "0 \<notin> set k"
  shows "\<exists>ds. scan_prefix ops (new_mutation st) (value_address ns k) = Inr ds \<and> (\<forall>w\<in>set ds. is_delete w) \<and>
    touched ds = {(ns', k'). ns' = ns \<and> prefix k k' \<and> value_at (view st) (ns', k') \<noteq> None}"
proof (intro exI conjI)
  let ?vs = "scanValues (view st) \<lparr>a_namespace = ns, a_key = k, a_kind = AValue\<rparr>"
  show "scan_prefix ops (new_mutation st) (value_address ns k) = Inr (map (\<lambda>v. deleteValue (sv_address v)) ?vs)"
    using owned_valid [OF ns k] by (simp add: scan_prefix_def value_address_valid mutation_scanValues_def new_mutation_def scanValues_ok [OF st])
  show "\<forall>w\<in>set (map (\<lambda>v. deleteValue (sv_address v)) ?vs). is_delete w" by (simp add: deleteValue_def is_delete_def)
  show "touched (map (\<lambda>v. deleteValue (sv_address v)) ?vs) = {(ns', k'). ns' = ns \<and> prefix k k' \<and> value_at (view st) (ns', k') \<noteq> None}"
    unfolding touched_deletes image_def scan_stored [OF view_reachable [OF st], symmetric] by auto
qed

text \<open>The ids that a leaf has reserved can be keys; those of staged results may be looked up.\<close>

lemma cleanup_ok:
  assumes st: "ready st" and i: "0 \<notin> set operationId" and ids: "\<forall>i\<in>set (staged_ids state) \<union> set_option (frame_response state). 0 \<notin> set i"
  shows "\<exists>ds. operationCleanupWrites ops (new_mutation st) operationId state = Inr ds \<and> (\<forall>w\<in>set ds. is_delete w) \<and>
    touched ds = {p \<in> owned_by operationId. value_at (view st) p \<noteq> None \<or> fst p \<in> {ns_meta, ns_operation}} \<union> Pair ns_pending ` set (staged_ids state)"
proof -
  let ?k = "operationId @ colon"
  have k: "0 \<notin> set ?k" using i by simp
  note scan = scan_touched [OF st _ k]
  obtain a where a: "scan_prefix ops (new_mutation st) (operationToolArgsPrefix operationId None) = Inr a" "\<forall>w\<in>set a. is_delete w"
      "touched a = {(ns, k'). ns = js ''phi.op.tool_args'' \<and> prefix ?k k' \<and> value_at (view st) (ns, k') \<noteq> None}"
    using scan [of "js ''phi.op.tool_args''"] by (auto simp: owned_namespaces_def operationToolArgsPrefix_def)
  obtain b where b: "scan_prefix ops (new_mutation st) (operationToolMemoPrefix operationId None) = Inr b" "\<forall>w\<in>set b. is_delete w"
      "touched b = {(ns, k'). ns = js ''phi.op.tool_memo'' \<and> prefix ?k k' \<and> value_at (view st) (ns, k') \<noteq> None}"
    using scan [of "js ''phi.op.tool_memo''"] by (auto simp: owned_namespaces_def operationToolMemoPrefix_def)
  obtain c where c: "scan_prefix ops (new_mutation st) (operationPreparationPrefix operationId) = Inr c" "\<forall>w\<in>set c. is_delete w"
      "touched c = {(ns, k'). ns = js ''phi.op.preparation'' \<and> prefix ?k k' \<and> value_at (view st) (ns, k') \<noteq> None}"
    using scan [of "js ''phi.op.preparation''"] by (auto simp: owned_namespaces_def operationPreparationPrefix_def)
  obtain d where d: "scan_prefix ops (new_mutation st) (pendingToolOutputPrefix operationId) = Inr d" "\<forall>w\<in>set d. is_delete w"
      "touched d = {(ns, k'). ns = js ''phi.pending.tool_output'' \<and> prefix ?k k' \<and> value_at (view st) (ns, k') \<noteq> None}"
    using scan [of "js ''phi.pending.tool_output''"] by (auto simp: owned_namespaces_def pendingToolOutputPrefix_def)
  obtain f where f: "(case frame_response state of None \<Rightarrow> Inr [] | Some i \<Rightarrow> rbind (pendingAssistantFrames operationId i) (\<lambda>a. Inr [deleteList a])) = Inr f"
      "\<forall>w\<in>set f. is_delete w" "touched f = {}"
  proof (cases "frame_response state")
    case (Some j)
    with ids i have "valid_address (js ''phi.pending.assistant_frame'') (operationId @ colon @ j)" by (simp add: valid_address_def js_nonzero js_def)
    with Some that [of "[WListDelete (js ''phi.pending.assistant_frame'') (operationId @ colon @ j)]"] show thesis
      by (simp add: pendingAssistantFrames_def list_address_valid deleteList_def is_delete_def)
  qed (use that in simp)
  have g: "read_each (\<lambda>i. rbind (pendingEntry i) (\<lambda>a. Inr (deleteValue a))) (staged_ids state) = Inr (map (\<lambda>i. WValueDelete ns_pending i) (staged_ids state))"
    by (rule read_each_Inr) (use ids in \<open>simp add: address_at deleteValue_def\<close>)
  have t: "touched (map (\<lambda>i. WValueDelete ns_pending i) xs) = Pair ns_pending ` set xs" for xs by (induction xs) simp_all
  let ?ds = "[WValueDelete ns_meta operationId, WValueDelete ns_operation operationId] @ a @ b @ c @ d @ f @ map (\<lambda>i. WValueDelete ns_pending i) (staged_ids state)"
  have "operationCleanupWrites ops (new_mutation st) operationId state = Inr ?ds"
    by (simp add: operationCleanupWrites_def a(1) b(1) c(1) d(1) f(1) g address_at i) (simp add: deleteValue_def)
  moreover have "\<forall>w\<in>set ?ds. is_delete w" using a(2) b(2) c(2) d(2) f(2) by (auto simp: is_delete_def)
  moreover have "{(ns, k'). ns \<in> owned_namespaces \<and> prefix ?k k' \<and> value_at (view st) (ns, k') \<noteq> None} =
      touched a \<union> touched b \<union> touched c \<union> touched d"
    by (auto simp: a(3) b(3) c(3) d(3) owned_namespaces_def)
  then have "touched ?ds = {(ns_meta, operationId), (ns_operation, operationId)} \<union>
      {(ns, k'). ns \<in> owned_namespaces \<and> prefix ?k k' \<and> value_at (view st) (ns, k') \<noteq> None} \<union> Pair ns_pending ` set (staged_ids state)"
    by (auto simp: f(3) t)
  moreover have "{p \<in> owned_by operationId. value_at (view st) p \<noteq> None \<or> fst p \<in> {ns_meta, ns_operation}} =
      {(ns_meta, operationId), (ns_operation, operationId)} \<union>
      {(ns, k'). ns \<in> owned_namespaces \<and> prefix ?k k' \<and> value_at (view st) (ns, k') \<noteq> None}"
    using owned_control by (auto simp: owned_by_def)
  ultimately show ?thesis by (intro exI [of _ ?ds]) simp
qed

end

section \<open>Putting the contract together\<close>

text \<open>Writes that a lane does not see: deletions and values outside of what it relies on.\<close>

definition aside :: "(jstring \<times> jstring) set \<Rightarrow> jstring set \<Rightarrow> store_write list \<Rightarrow> bool" where
  "aside X G ws \<longleftrightarrow>
     touched ws \<subseteq> X \<union> Pair ns_pending ` G \<union> free_addrs \<and> new_ids ws = [] \<and> new_entry_ids ws = [] \<and> (\<forall>ek. parents_before ek ws) \<and>
     (\<forall>w\<in>set ws. write_valid w \<and> \<not> pending_assistant_write w)"

lemma aside_append: "aside X G us \<Longrightarrow> aside X G ws \<Longrightarrow> aside X G (us @ ws)"
  by (auto simp: aside_def parents_before_append)

lemma aside_deletes: "\<forall>w\<in>set ds. is_delete w \<Longrightarrow> touched ds \<subseteq> X \<union> Pair ns_pending ` G \<union> free_addrs \<Longrightarrow> aside X G ds"
  by (simp add: aside_def delete_writes)

lemma aside_value: "(ns, k) \<in> free_addrs \<Longrightarrow> valid_address ns k \<Longrightarrow> aside X G [WValueSet ns k v]"
  by (simp add: aside_def value_writes_plain)

lemma patch_ok_aside:
  assumes p: "patch_ok s F name l {} patch ws" and n: "aside X G ns" and G: "G \<subseteq> F" "G \<inter> inbox_ids (patch_lane patch l) = {}"
    and X: "fst ` X \<subseteq> {ns_meta, ns_operation}"
  shows "patch_ok s F name l X patch (ws @ ns)"
proof -
  note p' = p [unfolded patch_ok_def] and n' = n [unfolded aside_def]
  have V: "apply_values (ws @ ns) (value_at s) (q, k) = apply_values ws (value_at s) (q, k)"
    if "q \<in> {ns_tip, ns_config} \<or> q = ns_pending \<and> k \<notin> G" for q k
    unfolding apply_values_append
  proof (rule apply_values_untouched)
    have "q \<notin> fst ` X" using that X by auto
    with that n' show "(q, k) \<notin> touched ns" by (force simp: free_addrs_def)
  qed
  have "item_ok (apply_values (ws @ ns) (value_at s)) (\<lambda>i. id_used s i \<or> i \<in> set (new_ids (ws @ ns))) item"
    if "item \<in> set (ll_inbox (patch_lane patch l))" for item
  proof (rule item_ok_frame [where V = "apply_values ws (value_at s)" and K = "\<lambda>i. id_used s i \<or> i \<in> set (new_ids ws)"])
    have "ii_entryId item \<notin> G" using that G(2) by (auto simp: inbox_ids_def)
    then show "apply_values (ws @ ns) (value_at s) (ns_pending, ii_entryId item) = apply_values ws (value_at s) (ns_pending, ii_entryId item)"
      by (simp add: V)
  qed (use p' n' that in auto)
  moreover have "commit_fits s (ws @ ns)" using p' n' by (auto simp: commit_fits_def parents_before_append)
  moreover have "touched (ws @ ns) \<subseteq> {(ns_tip, name), (ns_config, name)} \<union> Pair ns_pending ` (inbox_ids l \<union> F) \<union> X \<union> free_addrs"
  proof -
    have "Pair ns_pending ` G \<subseteq> Pair ns_pending ` (inbox_ids l \<union> F)" using G(1) by blast
    then show ?thesis unfolding touched_append using p' [THEN conjunct1] n' [THEN conjunct1] by blast
  qed
  ultimately show ?thesis using p' n' by (auto simp: patch_ok_def V)
qed

lemma patch_ok_none:
  assumes "lane_in s name l"
  shows "patch_ok s F name l {} no_patch []"
  using assms by (simp add: patch_ok_def no_patch_def patch_lane_def lane_ok_def commit_fits_def)

text \<open>New entries at the tip, and usage rows.\<close>

lemma patch_ok_tip:
  assumes l: "lane_in s name l" and i: "i \<in> F" "\<not> id_used s i" "i \<notin> inbox_ids l" and u: "u \<in> F" "\<not> id_used s u" "u \<notin> inbox_ids l" "u \<noteq> i"
    and e: "ne_id e = i" "ne_parentId e = ll_tipId l" "\<not> pending_assistant_write (WEntry e)" and row: "ur_id row = u"
  shows "patch_ok s F name l {} (tip_patch (Some i)) [WEntry e, WUsage row, WValueSet ns_tip name (STip (Some i))]"
proof -
  have "item_ok (value_at s) (\<lambda>j. id_used s j \<or> j = i \<or> j = u) item" if "item \<in> set (ll_inbox l)" for item
    by (rule item_ok_frame [where V = "value_at s" and K = "id_used s"]) (use l that i(3) u(3) in \<open>auto simp: lane_ok_def inbox_ids_def\<close>)
  then show ?thesis
    using assms by (auto simp: patch_ok_def tip_patch_def no_patch_def patch_lane_def lane_ok_def commit_fits_def parents_before_Cons value_writes_plain
        inbox_ids_def item_ok_def)
qed

section \<open>What a response leads to\<close>

text \<open>The ids reserved for the response of a pending request.\<close>

definition response_ids :: "operation_state \<Rightarrow> (jstring \<times> jstring) option" where
  "response_ids state =
     (case state of
        AssistantEffectPending _ _ _ responseEntryId usageId _ _ \<Rightarrow> Some (responseEntryId, usageId)
      | DeferredEffectPending _ _ responseEntryId usageId \<Rightarrow> Some (responseEntryId, usageId)
      | _ \<Rightarrow> None)"

lemma response_leaf:
  assumes "response_ids state = Some (i, u)"
  shows "staged_ids state = []" "frame_response state = Some i" "stateMatchesIntent intent state \<Longrightarrow> \<exists>ps. intent = RunIntent ps"
  using assms
  by (auto simp: response_ids_def staged_ids_def frame_response_def stateMatchesIntent_def task_boundary_def
      split: operation_state.splits operation_intent.splits)

lemmas dispose_defs = dispose_def dispose_assistant_def dispose_deferred_def dispose_answer_def Let_def

lemma dispose_settled:
  assumes "dispose current i overflow task retryable toolIds now response = Inr (committed, d)" "am_stopReason response \<noteq> StopPending"
  shows "am_stopReason committed \<noteq> StopPending"
  using assms
  by (auto simp: dispose_defs normalizeAborted_def normalizeError_def rbind_eq_Inr split: if_splits operation_state.splits prod.splits)

lemma dispose_intent:
  assumes "dispose current i overflow task retryable toolIds now response = Inr (committed, NextState state)"
  shows "stateMatchesIntent (RunIntent ps) state"
  using assms
  by (auto simp: dispose_defs rbind_eq_Inr stateMatchesIntent_def isSummaryState_def task_boundary_def may_finish_def
      split: if_splits operation_state.splits prod.splits option.splits bool.splits)

lemma dispose_total:
  assumes "response_ids current = Some (i, u)" "is_ok (uuidV7Timestamp i)" "is_cancelled current \<or> am_stopReason response \<noteq> StopAborted"
  shows "\<exists>committed d. dispose current i overflow task retryable toolIds now response = Inr (committed, d)"
  using assms
  by (auto simp: dispose_defs response_ids_def is_ok_iff split: operation_state.splits)

section \<open>The decisions\<close>

text \<open>The ids that a leaf holds are keys; those of its staged results are free for the operation.\<close>

definition reserved_ok :: "jstring set \<Rightarrow> live_lane \<Rightarrow> operation_state \<Rightarrow> bool" where
  "reserved_ok F l state \<longleftrightarrow>
     (\<forall>i\<in>set (staged_ids state) \<union> set_option (frame_response state). 0 \<notin> set i) \<and> set (staged_ids state) \<subseteq> F \<and> F \<inter> inbox_ids l = {}"

text \<open>A summary that belongs to a run says why it was started.\<close>

definition reason_given :: "operation \<Rightarrow> bool" where
  "reason_given op =
     (case (om_intent (op_meta op), summary_task_of (op_state op)) of (RunIntent _, Some task) \<Rightarrow> st_reason task \<noteq> None | _ \<Rightarrow> True)"

abbreviation control_of :: "operation \<Rightarrow> (jstring \<times> jstring) set" where
  "control_of op \<equiv> {(ns_meta, om_operationId (op_meta op)), (ns_operation, om_operationId (op_meta op))}"

text \<open>A decision that ends an operation and leaves none of its values.\<close>

definition ends_clean :: "storage_state \<Rightarrow> jstring set \<Rightarrow> jstring \<Rightarrow> live_lane \<Rightarrow> operation \<Rightarrow> store_write list \<Rightarrow> lane_patch \<Rightarrow> bool" where
  "ends_clean s F name l op ws patch \<longleftrightarrow>
     patch_ok s F name l (control_of op) patch ws \<and>
     (\<forall>p\<in>owned_by (om_operationId (op_meta op)) \<union> Pair ns_pending ` set (staged_ids (op_state op)). apply_values ws (value_at s) p = None)"

lemma owned_apart: "(ns_tip, k) \<notin> owned_by i" "(ns_pending, k) \<notin> owned_by i"
  by (auto simp: owned_by_def owned_namespaces_def js_def)

context session_storage
begin

lemma cleanup_ends:
  assumes st: "ready st" and l: "lane_in (view st) name l" and op: "ll_operation l = Some op" and r: "reserved_ok F l (op_state op)"
    and ws: "patch_ok (view st) F name l {} patch ws" "touched ws \<subseteq> {(ns_tip, name)} \<union> Pair ns_pending ` inbox_ids l" "lp_inbox patch = None"
  shows "\<exists>ds. operationCleanupWrites ops (new_mutation st) (om_operationId (op_meta op)) (op_state op) = Inr ds \<and>
    ends_clean (view st) F name l op (ws @ ds) patch"
proof -
  let ?id = "om_operationId (op_meta op)" and ?V = "value_at (view st)"
  have i: "0 \<notin> set ?id" using lane_okD(5) [OF l op] by (simp add: operation_ok_def)
  from r have ids: "\<forall>i\<in>set (staged_ids (op_state op)) \<union> set_option (frame_response (op_state op)). 0 \<notin> set i"
    and G: "set (staged_ids (op_state op)) \<subseteq> F" "F \<inter> inbox_ids l = {}" by (simp_all add: reserved_ok_def)
  obtain ds where ds: "operationCleanupWrites ops (new_mutation st) ?id (op_state op) = Inr ds" "\<forall>w\<in>set ds. is_delete w"
    "touched ds = {p \<in> owned_by ?id. ?V p \<noteq> None \<or> fst p \<in> {ns_meta, ns_operation}} \<union> Pair ns_pending ` set (staged_ids (op_state op))"
    using cleanup_ok [OF st i ids] by (elim exE conjE)
  have "touched ds \<subseteq> control_of op \<union> Pair ns_pending ` set (staged_ids (op_state op)) \<union> free_addrs"
    using owned_free unfolding ds(3) owned_by_def by blast
  then have a: "aside (control_of op) (set (staged_ids (op_state op))) ds" by (rule aside_deletes [OF ds(2)])
  have "inbox_ids (patch_lane patch l) = inbox_ids l" using ws(3) by (simp add: patch_lane_def inbox_ids_def)
  then have ok: "patch_ok (view st) F name l (control_of op) patch (ws @ ds)"
    by (intro patch_ok_aside [OF ws(1) a G(1)]) (use G in auto)
  moreover have "apply_values (ws @ ds) ?V p = None" if "p \<in> owned_by ?id \<union> Pair ns_pending ` set (staged_ids (op_state op))" for p
  proof (cases "p \<in> touched ds")
    case False
    with that have p: "p \<in> owned_by ?id" "?V p = None" by (auto simp: ds(3))
    with ws(2) owned_apart have "p \<notin> touched ws" by blast
    with False p(2) show ?thesis by (simp add: apply_values_append delete_writes(3) [OF ds(2)] apply_values_untouched)
  qed (simp add: apply_values_append delete_writes(3) [OF ds(2)])
  ultimately show ?thesis using ds(1) by (auto simp: ends_clean_def)
qed

lemma aborted_ends:
  assumes st: "ready st" "lane_in (view st) name l" "ll_operation l = Some op" "reserved_ok F l (op_state op)" and c: "is_cancelled (op_state op)"
    and task: "reason_given op"
  shows "\<exists>ws record ev. plan_aborted ops name (om_operationId (op_meta op)) now l (op_state op) (op_meta op) (new_mutation st) =
      Inr (OpFinish ws record no_patch (\<lambda>_. Settled record) ev) \<and> ends_clean (view st) F name l op ws no_patch \<and>
    operationResultRecord (op_meta op) Aborted (ll_tipId l) None now = Inr record"
proof -
  obtain ds where ds: "operationCleanupWrites ops (new_mutation st) (om_operationId (op_meta op)) (op_state op) = Inr ds"
    "ends_clean (view st) F name l op ds no_patch"
    using cleanup_ends [OF st patch_ok_none [OF st(2)]] by (auto simp: no_patch_def)
  have m: "stateMatchesIntent (om_intent (op_meta op)) (op_state op)" using lane_okD(5) [OF st(2,3)] by (simp add: operation_ok_def)
  obtain re where r: "operationResultRecord (op_meta op) Aborted (ll_tipId l) None now = Inr re" by (simp add: operationResultRecord_def)
  have "\<exists>es. aborted_events name (om_operationId (op_meta op)) (op_meta op) (op_state op) re = Inr es"
  proof (cases "om_intent (op_meta op)")
    case (RunIntent ps)
    with m task show ?thesis
      by (cases "op_state op")
        (auto simp: reason_given_def aborted_events_def summary_end_def stateMatchesIntent_def isSummaryState_def task_boundary_def split: result_boundary.splits)
  qed (auto simp: aborted_events_def)
  with ds r c show ?thesis by (auto simp: plan_aborted_def)
qed

lemma response_settles:
  assumes st: "ready st" and l: "lane_in (view st) name l" and op: "ll_operation l = Some op" and ids: "response_ids (op_state op) = Some (i, u)"
    and new: "0 \<notin> set i" "i \<in> F" "u \<in> F" "\<not> id_used (view st) i" "\<not> id_used (view st) u" "u \<noteq> i" "F \<inter> inbox_ids l = {}"
    and d: "dispose (op_state op) i overflow (map_option fst preparation) (recovery \<or> retryable) toolIds now response = Inr (committed, d)"
    and ends: "am_stopReason response \<noteq> StopPending" and prep: "\<forall>t\<in>set_option (map_option fst preparation). 0 \<notin> set t"
  defines "settled \<equiv> [WEntry \<lparr>ne_id = i, ne_parentId = ll_tipId l, ne_customType = None, ne_body = MessageBody (Llm (AssistantMsg committed)) False\<rparr>,
    WUsage \<lparr>ur_id = u, ur_usage = am_usage committed, ur_entryId = Some i, ur_adjustment = False, ur_details = None\<rparr>, WValueSet ns_tip name (STip (Some i))]"
  shows "\<exists>ws ev. plan_response ops name (om_operationId (op_meta op)) i u response overflow preparation retryable recovery toolIds now l (op_state op) (op_meta op)
        (new_mutation st) =
      Inr (case d of
        NextState state \<Rightarrow> OpCommit (settled @ ws) state (tip_patch (Some i)) (\<lambda>_. Continue) ev
      | Failure e \<Rightarrow>
          let result = \<lparr>or_operationId = om_operationId (op_meta op), or_kind = intent_kind (om_intent (op_meta op)), or_status = Failed, or_error = Some e,
            or_fromTipId = om_sourceTipId (op_meta op), or_tipId = Some i, or_startedAt = om_startedAt (op_meta op), or_endedAt = now\<rparr> in
          OpFinish (settled @ ws) result (tip_patch (Some i)) (\<lambda>_. Settled result) ev) \<and>
    (case d of
       NextState state \<Rightarrow> patch_ok (view st) F name l {} (tip_patch (Some i)) (settled @ ws) \<and> stateMatchesIntent (om_intent (op_meta op)) state
     | Failure e \<Rightarrow> ends_clean (view st) F name l op (settled @ ws) (tip_patch (Some i)))"
proof -
  let ?id = "om_operationId (op_meta op)"
  have nz: "0 \<notin> set ?id" "0 \<notin> set name" and m: "stateMatchesIntent (om_intent (op_meta op)) (op_state op)"
    using lane_okD(1,5) [OF l] op by (auto simp: operation_ok_def)
  note leaf = response_leaf [OF ids]
  obtain ps where run: "om_intent (op_meta op) = RunIntent ps" using leaf(3) [OF m] by blast
  have base: "patch_ok (view st) F name l {} (tip_patch (Some i)) settled"
    unfolding settled_def
    by (rule patch_ok_tip [OF l]) (use new dispose_settled [OF d ends] in \<open>auto simp: pending_assistant_write_def stops_with_def\<close>)
  have reserved: "reserved_ok F l (op_state op)" using new by (simp add: reserved_ok_def leaf)
  show ?thesis
  proof (cases d)
    case (Failure e)
    obtain ds where "operationCleanupWrites ops (new_mutation st) ?id (op_state op) = Inr ds" "ends_clean (view st) F name l op (settled @ ds) (tip_patch (Some i))"
      using cleanup_ends [OF st l op reserved base] by (auto simp: settled_def tip_patch_def no_patch_def)
    then show ?thesis
      using Failure d nz
      by (intro exI [of _ ds])
        (auto simp: plan_response_def operationResultRecord_def address_at settled_def insertEntry_def insertUsage_def setValue_def Let_def)
  next
    case (NextState state)
    have frames: "pendingAssistantFrames ?id i = Inr \<lparr>a_namespace = js ''phi.pending.assistant_frame'', a_key = ?id @ colon @ i, a_kind = AList\<rparr>"
      unfolding pendingAssistantFrames_def using nz(1) new(1) by (intro list_address_valid) (simp add: valid_address_def js_nonzero js_def)
    let ?f = "[WListDelete (js ''phi.pending.assistant_frame'') (?id @ colon @ i)]"
    have f: "aside {} {} ?f" by (rule aside_deletes) (simp_all add: is_delete_def)
    obtain vs where vs: "(case (state, preparation) of (SummaryDeciding _ _, Some (taskId, prepared)) \<Rightarrow>
          rbind (operationPreparation ?id taskId) (\<lambda>a. Inr [setValue a (SPreparation prepared)]) | _ \<Rightarrow> Inr []) = Inr vs" "aside {} {} vs"
    proof (cases "\<exists>scope task t prepared. state = SummaryDeciding scope task \<and> preparation = Some (t, prepared)")
      case True
      then obtain scope task t prepared where c: "state = SummaryDeciding scope task" "preparation = Some (t, prepared)" by blast
      have "aside {} {} [WValueSet (js ''phi.op.preparation'') (?id @ colon @ t) (SPreparation prepared)]"
        by (rule aside_value) (use c prep nz in \<open>simp_all add: owned_free owned_namespaces_def\<close>)
      with c prep nz that show thesis by (simp add: address_at setValue_def)
    next
      case False
      then have "(case (state, preparation) of (SummaryDeciding _ _, Some (taskId, prepared)) \<Rightarrow>
          rbind (operationPreparation ?id taskId) (\<lambda>a. Inr [setValue a (SPreparation prepared)]) | _ \<Rightarrow> Inr []) = Inr []"
        by (auto split: operation_state.splits option.splits)
      with that show thesis by (simp add: aside_def)
    qed
    have "patch_ok (view st) F name l {} (tip_patch (Some i)) (settled @ ?f @ vs)"
      by (rule patch_ok_aside [OF base aside_append [OF f vs(2)]]) simp_all
    then show ?thesis
      using NextState d nz vs(1) dispose_intent [OF d [unfolded NextState], of ps]
      by (intro exI [of _ "?f @ vs"])
        (auto simp: plan_response_def address_at frames settled_def insertEntry_def insertUsage_def setValue_def deleteList_def run Let_def)
  qed
qed

end

end
