(* ===== verification/Drive_Boundary.thy ===== *)
theory Drive_Boundary
  imports Drive_Settle
begin

text \<open>
  What a boundary of a run takes from the queue of its lane: every write, the steering messages of its mode, and follow-ups only if nothing of
  those starts a turn; in queue order. The placement is a commit that the storage accepts and that keeps the lane.
\<close>

section \<open>Selections in queue order\<close>

lemma index_of_nth: "distinct xs \<Longrightarrow> i < length xs \<Longrightarrow> index_of xs (xs ! i) = i"
  unfolding index_of_def
  by (subst takeWhile_eq_take_P_nth [of i]) (auto simp: nth_eq_iff_index_eq)

lemma sort_by_position:
  assumes xs: "distinct xs" and ys: "distinct ys" "set ys \<subseteq> set xs"
  shows "sort_key (index_of xs) ys = filter (\<lambda>x. x \<in> set ys) xs"
proof (rule properties_for_sort_key)
  have "set (filter (\<lambda>x. x \<in> set ys) xs) = set ys" using ys(2) by auto
  then show m: "mset (filter (\<lambda>x. x \<in> set ys) xs) = mset ys" using xs ys(1) by (metis distinct_filter set_eq_iff_mset_eq_distinct)
  have inj: "inj_on (index_of xs) (set xs)" by (rule inj_onI) (metis in_set_conv_nth index_of_nth xs)
  show "filter (\<lambda>y. index_of xs x = index_of xs y) (filter (\<lambda>x. x \<in> set ys) xs) = filter (\<lambda>y. index_of xs x = index_of xs y) ys"
    if "x \<in> set (filter (\<lambda>x. x \<in> set ys) xs)" for x
  proof -
    have f: "filter (\<lambda>y. index_of xs x = index_of xs y) zs = filter (\<lambda>y. y = x) zs" if "set zs \<subseteq> set xs" for zs
      by (rule filter_cong) (use that \<open>x \<in> set (filter _ xs)\<close> inj in \<open>auto dest: inj_onD\<close>)
    have one: "filter (\<lambda>y. y = x) zs = [x]" if "distinct zs" "x \<in> set zs" for zs
      using that by (induction zs) (auto simp: filter_empty_conv)
    show ?thesis using that xs ys by (simp only: f one distinct_filter filter_is_subset subset_trans [OF filter_is_subset]) (simp add: one)
  qed
  have "map (index_of xs) xs = [0..<length xs]" by (rule nth_equalityI) (simp_all add: index_of_nth [OF xs])
  then have "sorted (map (index_of xs) xs)" by simp
  then show "sorted (map (index_of xs) (filter (\<lambda>x. x \<in> set ys) xs))" by (rule sorted_filter)
qed

section \<open>The specification of a boundary\<close>

definition boundary_base :: "operation_scope \<Rightarrow> inbox_item list \<Rightarrow> inbox_item list" where
  "boundary_base scope inbox =
     filter (\<lambda>item. ii_kind item = WriteItem \<or>
       item \<in> set (first_of_mode (rs_steeringMode (os_settings scope)) (filter (\<lambda>item. ii_kind item = Steer) inbox))) inbox"

definition boundary_items :: "drive_config \<Rightarrow> values_view \<Rightarrow> operation_scope \<Rightarrow> bool \<Rightarrow> inbox_item list \<Rightarrow> inbox_item list" where
  "boundary_items config V scope followUp inbox =
     (let base = boundary_base scope inbox in
      if followUp \<and> \<not> (\<exists>item\<in>set base. projects config (payload V item))
      then filter (\<lambda>item. item \<in> set base \<or>
        item \<in> set (first_of_mode (rs_followUpMode (os_settings scope)) (filter (\<lambda>item. ii_kind item = FollowUp) inbox))) inbox
      else base)"

lemma first_of_mode_set: "set (first_of_mode mode xs) \<subseteq> set xs" "distinct xs \<Longrightarrow> distinct (first_of_mode mode xs)"
  by (auto simp: first_of_mode_def dest: in_set_takeD)

lemma select_base:
  assumes "distinct (map ii_entryId inbox)"
  shows "select_boundary scope inbox = boundary_base scope inbox"
proof -
  have "ii_entryId item \<in> ii_entryId ` set (first_of_mode mode (filter P inbox)) \<longleftrightarrow> item \<in> set (first_of_mode mode (filter P inbox))"
    if "item \<in> set inbox" for item mode P
    using assms that first_of_mode_set(1) [of mode "filter P inbox"] by (auto simp: distinct_map dest: inj_onD)
  then show ?thesis unfolding select_boundary_def boundary_base_def Let_def by (intro filter_cong) auto
qed

lemma followUps_sorted:
  assumes "distinct (map ii_entryId inbox)"
  shows "with_followUps scope inbox (boundary_base scope inbox) =
    filter (\<lambda>item. item \<in> set (boundary_base scope inbox) \<or>
      item \<in> set (first_of_mode (rs_followUpMode (os_settings scope)) (filter (\<lambda>item. ii_kind item = FollowUp) inbox))) inbox"
proof -
  have d: "distinct inbox" using assms by (simp add: distinct_map)
  let ?F = "first_of_mode (rs_followUpMode (os_settings scope)) (filter (\<lambda>item. ii_kind item = FollowUp) inbox)"
  have F: "set ?F \<subseteq> {item \<in> set inbox. ii_kind item = FollowUp}" "distinct ?F"
    using first_of_mode_set [where xs = "filter (\<lambda>item. ii_kind item = FollowUp) inbox"] d by auto
  have B: "set (boundary_base scope inbox) \<subseteq> {item \<in> set inbox. ii_kind item \<noteq> FollowUp}" "distinct (boundary_base scope inbox)"
    using first_of_mode_set(1) [of "rs_steeringMode (os_settings scope)" "filter (\<lambda>item. ii_kind item = Steer) inbox"] d by (auto simp: boundary_base_def)
  show ?thesis
    unfolding with_followUps_def Let_def
    by (subst sort_by_position [OF d]) (use F B in auto)
qed

section \<open>The placement\<close>

lemma patch_ok_place:
  assumes l: "lane_in s name l" and items: "mset sel + mset rest = mset (ll_inbox l)" and ids: "map ne_id es = map ii_entryId sel"
    and plain: "\<forall>e\<in>set es. \<not> (case ne_body e of MessageBody m _ \<Rightarrow> stops_with StopPending m | _ \<Rightarrow> False)"
    and tip: "tip = (if es = [] then ll_tipId l else Some (ne_id (last es)))"
  shows "patch_ok s F name l {} \<lparr>lp_tipId = Some tip, lp_configuration = None, lp_inbox = Some rest\<rparr>
    (map insertEntry (chainEntries (ll_tipId l) es) @ pending_deletes sel @ (if es = [] then [] else [WValueSet ns_tip name (STip tip)]))"
    (is "patch_ok s F name l {} ?patch ?ws")
proof -
  note sp = split_items [OF items lane_okD(3) [OF l]]
  have nid: "new_ids ?ws = map ii_entryId sel" "new_entry_ids ?ws = map ii_entryId sel" by (simp_all add: ids)
  have sel: "\<forall>item\<in>set sel. \<not> id_used s (ii_entryId item)" "ii_entryId ` set sel \<subseteq> inbox_ids l" "ii_entryId ` set rest \<subseteq> inbox_ids l"
    using lane_okD(2) [OF l] sp(4,5) by (auto simp: item_ok_def inbox_ids_def)
  have V: "apply_values ?ws (value_at s) (ns_pending, k) = value_at s (ns_pending, k)" if "k \<notin> ii_entryId ` set sel" for k
    using that by (auto simp: apply_values_append apply_pending_deletes)
  have rest: "item_ok (apply_values ?ws (value_at s)) (\<lambda>i. id_used s i \<or> i \<in> set (new_ids ?ws)) item" if "item \<in> set rest" for item
  proof (rule item_ok_frame)
    show "item_ok (value_at s) (id_used s) item" using lane_okD(2) [OF l] sp(5) that by blast
    have n: "ii_entryId item \<notin> ii_entryId ` set sel" using sp(3) that by auto
    then show "apply_values ?ws (value_at s) (ns_pending, ii_entryId item) = value_at s (ns_pending, ii_entryId item)" by (rule V)
    from n show "id_used s (ii_entryId item) \<or> ii_entryId item \<in> set (new_ids ?ws) \<Longrightarrow> id_used s (ii_entryId item)" unfolding nid by simp
  qed
  have sets: "w \<in> set (pending_deletes sel @ (if es = [] then [] else [WValueSet ns_tip name (STip tip)])) \<Longrightarrow>
      \<exists>ns k v. w = WValueSet ns k v \<or> w = WValueDelete ns k" for w by (auto simp: pending_deletes_def split: if_splits)
  have "parents_before (entry_in s) ?ws" by (rule parents_before_chain [OF sets lane_okD(4) [OF l]])
  moreover have "\<forall>w\<in>set ?ws. write_valid w" using lane_okD(1) [OF l] by (auto simp: insertEntry_def pending_deletes_def)
  ultimately have fits: "commit_fits s ?ws" unfolding commit_fits_def nid using sel(1) sp(1) by auto
  have "\<not> pending_assistant_write (WEntry e)" if "e \<in> set (chainEntries (ll_tipId l) es)" for e
  proof -
    from that have "ne_body e \<in> set (map ne_body (chainEntries (ll_tipId l) es))" by simp
    then have "ne_body e \<in> set (map ne_body es)" by (simp only: chain_bodies)
    with plain show ?thesis by (auto simp: pending_assistant_write_def)
  qed
  then have pl: "\<forall>w\<in>set ?ws. \<not> pending_assistant_write w" by (auto simp: insertEntry_def pending_deletes_def value_writes_plain)
  have p: "patch_lane ?patch l = l\<lparr>ll_tipId := tip, ll_inbox := rest\<rparr>" by (simp add: patch_lane_def)
  show ?thesis
    unfolding patch_ok_def p
  proof (intro conjI allI impI)
    show "touched ?ws \<subseteq> {(ns_tip, name), (ns_config, name)} \<union> Pair ns_pending ` (inbox_ids l \<union> F) \<union> {} \<union> free_addrs" using sel(2) by auto
    show "apply_values ?ws (value_at s) (ns_tip, name) = Some (STip (ll_tipId (l\<lparr>ll_tipId := tip, ll_inbox := rest\<rparr>)))"
      using l tip by (auto simp: apply_values_append apply_pending_deletes lane_ok_def)
    show "apply_values ?ws (value_at s) (ns_config, name) = Some (SConfig (ll_configuration (l\<lparr>ll_tipId := tip, ll_inbox := rest\<rparr>)))"
      using l by (auto simp: apply_values_append apply_pending_deletes lane_ok_def)
    show "entry_in s t \<or> t \<in> set (new_entry_ids ?ws)" if "ll_tipId (l\<lparr>ll_tipId := tip, ll_inbox := rest\<rparr>) = Some t" for t
      using that lane_okD(4) [OF l, of t] unfolding nid ids [symmetric] tip by (cases "es = []") auto
    show "distinct (map ii_entryId (ll_inbox (l\<lparr>ll_tipId := tip, ll_inbox := rest\<rparr>)))" using sp(2) by simp
    show "inbox_ids (l\<lparr>ll_tipId := tip, ll_inbox := rest\<rparr>) \<subseteq> inbox_ids l \<union> F" using sel(3) by (auto simp: inbox_ids_def)
    show "\<forall>item\<in>set (ll_inbox (l\<lparr>ll_tipId := tip, ll_inbox := rest\<rparr>)).
        item_ok (apply_values ?ws (value_at s)) (\<lambda>i. id_used s i \<or> i \<in> set (new_ids ?ws)) item" using rest by auto
    show "set (new_ids ?ws) \<subseteq> inbox_ids l \<union> F" unfolding nid using sel(2) by auto
  qed (fact fits, fact pl)
qed

lemma filter_if: "(if c then filter A xs else filter B xs) = filter (\<lambda>x. if c then A x else B x) xs"
  by simp

lemma boundary_split:
  assumes "distinct (map ii_entryId inbox)"
  shows "mset (boundary_items config V scope followUp inbox) + mset (filter (\<lambda>item. item \<notin> set (boundary_items config V scope followUp inbox)) inbox) = mset inbox"
    "set (boundary_items config V scope followUp inbox) \<subseteq> set inbox"
    "filter (\<lambda>item. ii_entryId item \<notin> ii_entryId ` set (boundary_items config V scope followUp inbox)) inbox =
       filter (\<lambda>item. item \<notin> set (boundary_items config V scope followUp inbox)) inbox"
proof -
  obtain P where P: "boundary_items config V scope followUp inbox = filter P inbox"
    unfolding boundary_items_def boundary_base_def Let_def filter_if by blast
  show "set (boundary_items config V scope followUp inbox) \<subseteq> set inbox" by (auto simp: P)
  have "filter (\<lambda>item. item \<notin> set (filter P inbox)) inbox = filter (\<lambda>item. \<not> P item) inbox" by (rule filter_cong) auto
  then show "mset (boundary_items config V scope followUp inbox) + mset (filter (\<lambda>item. item \<notin> set (boundary_items config V scope followUp inbox)) inbox) = mset inbox"
    unfolding P by (metis multiset_partition mset_filter)
  show "filter (\<lambda>item. ii_entryId item \<notin> ii_entryId ` set (boundary_items config V scope followUp inbox)) inbox =
      filter (\<lambda>item. item \<notin> set (boundary_items config V scope followUp inbox)) inbox"
    unfolding P by (rule filter_cong) (use assms in \<open>auto simp: distinct_map dest: inj_onD\<close>)
qed

definition placed :: "values_view \<Rightarrow> inbox_item list \<Rightarrow> new_entry list" where
  "placed V items = map (\<lambda>item. pendingEntryWrite (ii_entryId item) (payload V item)) items"

lemma placed_ids [simp]: "map ne_id (placed V items) = map ii_entryId items" "placed V items = [] \<longleftrightarrow> items = []" "placed V [] = []"
  by (simp_all add: placed_def comp_def)

context session_storage
begin

lemma load_items:
  assumes "ready st" "\<forall>item\<in>set items. item_ok (value_at (view st)) K item"
  shows "read_each (load_item ops (new_mutation st)) items = Inr (map (\<lambda>item. (item, payload (value_at (view st)) item)) items)"
proof (rule read_each_Inr)
  fix item assume "item \<in> set items"
  then have ok: "item_ok (value_at (view st)) K item" using assms(2) by blast
  show "load_item ops (new_mutation st) item = Inr (item, payload (value_at (view st)) item)"
    using item_payload(3) [OF ok]
    by (cases "ii_kind item = WriteItem") (auto simp: load_item_def read_pending [OF assms(1) ok] split: pending_entry.splits)
qed

lemma planBoundaryInbox_ok:
  assumes st: "ready st" and l: "lane_in (view st) name l"
    and V: "V = value_at (view st)" and items: "items = boundary_items config V scope followUp (ll_inbox l)"
  shows "\<exists>placement. planBoundaryInbox ops config name l scope (new_mutation st) (ll_tipId l) followUp = Inr placement \<and>
    pl_entries placement = chainEntries (ll_tipId l) (placed V items) \<and> pl_inbox placement = filter (\<lambda>item. item \<notin> set items) (ll_inbox l) \<and>
    pl_tipId placement = (if items = [] then ll_tipId l else Some (ii_entryId (last items))) \<and>
    pl_triggerEntryId placement = last_projecting config (map (\<lambda>item. (item, payload V item)) items) \<and>
    (\<exists>vs. pl_writes placement = map insertEntry (pl_entries placement) @ vs) \<and>
    patch_ok (view st) F name l {} (placement_patch placement) (pl_writes placement)"
proof -
  have d: "distinct (map ii_entryId (ll_inbox l))" by (rule lane_okD [OF l])
  note sp = boundary_split [OF d, where config = config and V = V and scope = scope and followUp = followUp, folded items]
  have ok: "\<forall>item\<in>set items. item_ok V (id_used (view st)) item" "\<forall>item\<in>set (boundary_base scope (ll_inbox l)). item_ok V (id_used (view st)) item"
      "\<forall>item\<in>set (filter (\<lambda>item. item \<notin> set items) (ll_inbox l)). item_ok V (id_used (view st)) item"
    using lane_okD(2) [OF l] sp(2) unfolding V by (auto simp: boundary_base_def)
  obtain qs where qs: "readLaneQueues ops (new_mutation st) (filter (\<lambda>item. item \<notin> set items) (ll_inbox l)) = Inr qs"
    using queues_ok [OF st ok(3) [unfolded V]] by blast
  have del: "delete_pending items = Inr (pending_deletes items)" by (rule delete_pending_ok) (use ok(1) item_payload(4) in blast)
  have nz: "0 \<notin> set name" by (rule lane_okD [OF l])
  have last: "ne_id (last (chainEntries p (placed V items))) = ii_entryId (last items)" if "items \<noteq> []" for p
    using that by (subst last_chainEntries) (simp_all add: placed_def last_map)
  define tip where "tip = (if items = [] then ll_tipId l else Some (ii_entryId (last items)))"
  have tip: "tip = (if placed V items = [] then ll_tipId l else Some (ne_id (last (placed V items))))" by (simp add: tip_def placed_def last_map)
  have plain: "\<forall>e\<in>set (placed V items). \<not> (case ne_body e of MessageBody m _ \<Rightarrow> stops_with StopPending m | _ \<Rightarrow> False)"
    using ok(1) by (auto simp: placed_def pending_entry_plain item_payload(2))
  note fits = patch_ok_place [OF l sp(1) placed_ids(1) plain tip, of F]
  let ?base = "boundary_base scope (ll_inbox l)"
  define more where "more \<longleftrightarrow> followUp \<and> \<not> (\<exists>item\<in>set ?base. projects config (payload V item))"
  have sel: "(if more then with_followUps scope (ll_inbox l) ?base else ?base) = items"
    by (simp add: more_def items boundary_items_def Let_def followUps_sorted [OF d])
  have loaded: "(if more then read_each (load_item ops (new_mutation st)) items else Inr (map (\<lambda>item. (item, payload V item)) ?base)) =
      Inr (map (\<lambda>item. (item, payload V item)) items)"
    using sel load_items [OF st ok(1) [unfolded V]] by (auto simp: V split: if_splits)
  have m: "(followUp \<and> \<not> (\<exists>(item, value)\<in>set (map (\<lambda>item. (item, payload V item)) ?base). projects config value)) = more" by (auto simp: more_def)
  have "\<exists>q. planBoundaryInbox ops config name l scope (new_mutation st) (ll_tipId l) followUp =
      Inr \<lparr>pl_entries = chainEntries (ll_tipId l) (placed V items),
        pl_writes = map insertEntry (chainEntries (ll_tipId l) (placed V items)) @ pending_deletes items @
          (if placed V items = [] then [] else [WValueSet ns_tip name (STip tip)]),
        pl_tipId = tip, pl_inbox = filter (\<lambda>item. item \<notin> set items) (ll_inbox l),
        pl_triggerEntryId = last_projecting config (map (\<lambda>item. (item, payload V item)) items), pl_queues = q\<rparr>"
    unfolding planBoundaryInbox_def Let_def select_base [OF d] load_items [OF st ok(2) [unfolded V], folded V] rbind_simps m sel loaded sp(3) qs del
    by (cases "items = []") (simp_all add: comp_def placed_def [symmetric] address_at nz setValue_def tip_def last)
  with fits show ?thesis by (auto simp: placement_patch_def tip_def)
qed

lemma plan_checkpoint_ok:
  assumes st: "ready st" and l: "lane_in (view st) name l" and nz: "0 \<notin> set operationId" "\<forall>t\<in>set_option (map_option fst threshold). 0 \<notin> set t"
    and V: "V = value_at (view st)" and followUp: "followUp \<longleftrightarrow> threshold = None \<and> (\<exists>b. cp_continuation cp = MayFinish b)"
    and items: "items = boundary_items config V scope followUp (ll_inbox l)"
    and trigger: "trigger = last_projecting config (map (\<lambda>item. (item, payload V item)) items)"
  shows "case plan_checkpoint ops config name operationId threshold stepId l (Checkpoint scope cp) meta (new_mutation st) of
      Inr (OpReturn r) \<Rightarrow> r = FinishPending (map ii_entryId items) \<and> trigger = None \<and> followUp
    | Inr (OpCommit ws state patch mat ev) \<Rightarrow>
        mat = (\<lambda>_. CheckpointDone Continue) \<and> (trigger \<noteq> None \<or> \<not> followUp) \<and> stateMatchesIntent (RunIntent ps) state \<and>
        patch_lane patch l = l\<lparr>ll_tipId := if items = [] then ll_tipId l else Some (ii_entryId (last items)),
          ll_inbox := filter (\<lambda>item. item \<notin> set items) (ll_inbox l)\<rparr> \<and>
        patch_ok (view st) F name l {} patch ws \<and> (\<exists>vs. ws = map insertEntry (chainEntries (ll_tipId l) (placed V items)) @ vs) \<and>
        (\<forall>t. trigger = Some t \<longrightarrow> state = assistantReadyAtBoundary config l scope stepId t False)
    | _ \<Rightarrow> False"
proof -
  have fu: "(threshold = None \<and> (case cp_continuation cp of MayFinish _ \<Rightarrow> True | _ \<Rightarrow> False)) = followUp"
    by (auto simp: followUp split: continuation.splits)
  obtain pl vs where pl: "planBoundaryInbox ops config name l scope (new_mutation st) (ll_tipId l) followUp = Inr pl"
      "pl_entries pl = chainEntries (ll_tipId l) (placed V items)" "pl_inbox pl = filter (\<lambda>item. item \<notin> set items) (ll_inbox l)"
      "pl_tipId pl = (if items = [] then ll_tipId l else Some (ii_entryId (last items)))" "pl_triggerEntryId pl = trigger"
      "pl_writes pl = map insertEntry (pl_entries pl) @ vs" "patch_ok (view st) F name l {} (placement_patch pl) (pl_writes pl)"
    by (rule exE [OF planBoundaryInbox_ok [OF st l V items, of F, folded trigger]]) (elim exE conjE, rule that, assumption+)
  have patch: "patch_lane (placement_patch pl) l = l\<lparr>ll_tipId := if items = [] then ll_tipId l else Some (ii_entryId (last items)),
      ll_inbox := filter (\<lambda>item. item \<notin> set items) (ll_inbox l)\<rparr>" by (simp add: patch_lane_def placement_patch_def pl)
  have ready: "stateMatchesIntent (RunIntent ps) (assistantReadyAtBoundary config l scope stepId t b)" for t b
    by (simp add: stateMatchesIntent_def assistantReadyAtBoundary_def isSummaryState_def)
  have prep: "patch_ok (view st) F name l {} (placement_patch pl) (pl_writes pl @ [WValueSet (js ''phi.op.preparation'') (operationId @ colon @ t) v])"
    if "0 \<notin> set t" for t v
    by (rule patch_ok_aside [OF pl(7) aside_value [of _ _ _ "{}"]]) (use that nz(1) in \<open>simp_all add: owned_free owned_namespaces_def\<close>)
  have ids: "map ne_id (pl_entries pl) = map ii_entryId items" by (simp add: pl(2))
  note decide = plan_checkpoint_def fu pl(1,5) rbind_simps operation_state.case Let_def
  show ?thesis
  proof (cases trigger)
    case (Some t)
    then show ?thesis unfolding decide using pl(7) patch ready pl(6) by (simp add: pl(2))
  next
    case None
    show ?thesis
    proof (cases threshold)
      case (Some x)
      obtain t v where x: "x = (t, v)" by (cases x)
      have "\<not> followUp" by (simp add: followUp Some)
      with None Some x show ?thesis unfolding decide using prep [of t] nz patch pl(6)
        by (simp add: pl(2) address_at setValue_def stateMatchesIntent_def isSummaryState_def task_boundary_def)
    next
      case none: None
      then show ?thesis unfolding decide using None pl(7) patch ready pl(6) followUp by (cases "cp_continuation cp") (simp_all add: pl(2) ids)
    qed
  qed
qed

end

end
