(* ===== verification/Drive_Retry.thy ===== *)
theory Drive_Retry
  imports Drive_Plans
begin

text \<open>
  The delays between attempts: products of an integer with a power of two are exact in binary64, so the delay doubles with each attempt until it reaches
  the largest safe integer, and the time of the next attempt never leaves the safe range.
\<close>

section \<open>Doubles of the form \<open>b * 2 ^ k\<close>\<close>

lemma bit_length_eq: "2 ^ n \<le> x \<Longrightarrow> x < 2 ^ Suc n \<Longrightarrow> bit_length x = Suc n"
proof (induction n arbitrary: x)
  case 0
  then have "x = 1" by simp
  then show ?case by (simp add: bit_length.simps)
next
  case (Suc n)
  then have "bit_length (x div 2) = Suc n" by (intro Suc.IH) auto
  with Suc.prems show ?case by (subst bit_length.simps) (auto simp: Suc_le_eq)
qed

lemma bit_length_exists: "0 < x \<Longrightarrow> \<exists>n. 2 ^ n \<le> x \<and> x < 2 ^ Suc (n :: nat)" for x :: nat
  using ex_power_ivl1 [of 2 x] by auto

text \<open>A normal double with significand \<open>m\<close>.\<close>

lemma normal_bits:
  assumes m: "2 ^ 52 \<le> m" "m < 2 ^ 53" and t: "t < 2046"
  defines "w \<equiv> (of_nat (scaled_bits (m * 2 ^ t)) :: 64 word)"
  shows "dbl_exp w = t + 1" "dbl_man w = m - 2 ^ 52" "dbl_sgn w = 1" "w \<noteq> neg_zero"
proof -
  have "2 ^ (52 + t) \<le> m * 2 ^ t" "m * 2 ^ t < 2 ^ (53 + t)"
    using m mult_le_mono1 [OF m(1), of "2 ^ t"] mult_less_mono1 [OF m(2), of "2 ^ t"] by (simp_all add: power_add)
  then have bl: "bit_length (m * 2 ^ t) = 53 + t" using bit_length_eq [of "52 + t" "m * 2 ^ t"] by simp
  have "(2 :: nat) ^ 52 \<le> m * 2 ^ t" using m(1) by (metis le_trans mult.right_neutral mult_le_mono one_le_numeral one_le_power order_refl)
  then have bits: "scaled_bits (m * 2 ^ t) = (t + 1) * 2 ^ 52 + (m - 2 ^ 52)"
    using t by (simp add: scaled_bits_def bl Let_def)
  have "(t + 1) * 2 ^ 52 \<le> 2046 * 2 ^ 52" using t by simp
  then have lt: "scaled_bits (m * 2 ^ t) < 2 ^ 63" using m unfolding bits by simp
  then have u: "unat w = (t + 1) * 2 ^ 52 + (m - 2 ^ 52)"
    unfolding w_def bits [symmetric] unat_of_nat by simp
  have d: "((t + 1) * 2 ^ 52 + (m - 2 ^ 52)) div 2 ^ 52 = t + 1" "((t + 1) * 2 ^ 52 + (m - 2 ^ 52)) mod 2 ^ 52 = m - 2 ^ 52"
  proof -
    have "m - 2 ^ 52 < 2 ^ 52" using m by simp
    then show "((t + 1) * 2 ^ 52 + (m - 2 ^ 52)) div 2 ^ 52 = t + 1" "((t + 1) * 2 ^ 52 + (m - 2 ^ 52)) mod 2 ^ 52 = m - 2 ^ 52"
      by (simp_all only: div_mult_self3 mod_mult_self3 div_less mod_less)
  qed
  show "dbl_exp w = t + 1" unfolding dbl_exp_def u d(1) using t by simp
  show "dbl_man w = m - 2 ^ 52" unfolding dbl_man_def u d(2) ..
  show "dbl_sgn w = 1" using lt unfolding dbl_sgn_def u bits by simp
  show "w \<noteq> neg_zero"
  proof
    assume "w = neg_zero"
    then have "unat w = 2 ^ 63" by (simp add: neg_zero_def)
    with lt show False unfolding u bits by simp
  qed
qed

lemma overflow_bits: "2 ^ 2098 \<le> v \<Longrightarrow> number_of_bits (of_nat (scaled_bits v)) = infinity False"
proof -
  assume v: "2 ^ 2098 \<le> v"
  obtain n where n: "2 ^ n \<le> v" "v < 2 ^ Suc n" using bit_length_exists [of v] v by (metis (no_types, lifting) not_gr_zero not_less0 order_less_le_trans zero_less_numeral zero_less_power)
  have "\<not> Suc n \<le> 2098"
  proof
    assume "Suc n \<le> 2098"
    then have "(2 :: nat) ^ Suc n \<le> 2 ^ 2098" by (intro power_increasing) simp_all
    with n(2) v show False by linarith
  qed
  then have "scaled_bits v = 2047 * 2 ^ 52"
    using bit_length_eq [OF n] v by (simp add: scaled_bits_def Let_def) 
  then show ?thesis by (simp add: number_of_bits_def dbl_int_def dbl_exp_def neg_zero_def infinity_def)
qed

lemma exact_bits:
  assumes b: "0 < b" "b < 2 ^ 53" and k: "b * 2 ^ k < 2 ^ 1024"
  shows "number_of_bits (of_nat (scaled_bits (b * 2 ^ (1074 + k)))) = JInt (int (b * 2 ^ k))"
proof -
  obtain n where n: "2 ^ n \<le> b" "b < 2 ^ Suc n" using bit_length_exists [OF b(1)] by blast
  have "(2 :: nat) ^ n < 2 ^ 53" using n(1) b(2) by linarith
  then have n52: "n \<le> 52" by (simp del: power_numeral)
  have "(2 :: nat) ^ (n + k) \<le> b * 2 ^ k" using n(1) by (simp add: power_add)
  then have "(2 :: nat) ^ (n + k) < 2 ^ 1024" using k by linarith
  then have nk: "n + k < 1024" by (rule power_less_imp_less_exp [rotated]) simp
  let ?m = "b * 2 ^ (52 - n)" and ?t = "n + k + 1022"
  have pn: "(2 :: nat) ^ n * 2 ^ (52 - n) = 2 ^ 52" "(2 :: nat) ^ Suc n * 2 ^ (52 - n) = 2 ^ 53"
    using n52 by (simp_all flip: power_add)
  have m: "2 ^ 52 \<le> ?m" "?m < 2 ^ 53"
    using mult_le_mono1 [OF n(1), of "2 ^ (52 - n)"] mult_less_mono1 [OF n(2), of "2 ^ (52 - n)"] unfolding pn by simp_all
  have v: "b * 2 ^ (1074 + k) = ?m * 2 ^ ?t" using n52 by (simp add: mult.assoc flip: power_add)
  note w = normal_bits [OF m, of ?t, folded v]
  have t: "?t < 2046" using nk by simp
  have M: "2 ^ 52 + (?m - 2 ^ 52) = ?m" using m(1) by simp
  show ?thesis
  proof (cases "52 \<le> n + k")
    case True
    then have "?m * 2 ^ (n + k - 52) = b * 2 ^ k" using n52 by (simp add: mult.assoc flip: power_add)
    then show ?thesis using w [OF t] True nk by (simp add: number_of_bits_def dbl_int_def M del: power_numeral of_nat_mult of_nat_power)
  next
    case False
    then have e: "?m = b * 2 ^ k * 2 ^ (52 - (n + k))" using n52 by (simp add: mult.assoc flip: power_add)
    have "2 ^ (52 - (n + k)) dvd ?m" "?m div 2 ^ (52 - (n + k)) = b * 2 ^ k" unfolding e by simp_all
    then show ?thesis using w [OF t] False nk by (simp add: number_of_bits_def dbl_int_def M del: power_numeral of_nat_mult of_nat_power)
  qed
qed

section \<open>Exact products\<close>

lemma round_product_exact:
  assumes "b < 2 ^ 53"
  shows "round_product (b * 2 ^ (2148 + k)) = b * 2 ^ (1074 + k)"
proof (cases "b = 0")
  case False
  then obtain n where n: "2 ^ n \<le> b" "b < 2 ^ Suc n" using bit_length_exists by blast
  have "(2 :: nat) ^ n < 2 ^ 53" using n(1) assms by linarith
  then have n52: "n \<le> 52" by (simp del: power_numeral)
  have "2 ^ (n + (2148 + k)) \<le> b * 2 ^ (2148 + k)" "b * 2 ^ (2148 + k) < 2 ^ Suc (n + (2148 + k))"
    using mult_le_mono1 [OF n(1), of "2 ^ (2148 + k)"] mult_less_mono1 [OF n(2), of "2 ^ (2148 + k)"] by (simp_all add: power_add)
  then have bl: "bit_length (b * 2 ^ (2148 + k)) = n + k + 2149" using bit_length_eq [of "n + (2148 + k)"] by simp
  define s where "s = max 1074 (n + k + 2149 - 53)"
  have s: "1074 \<le> s" "s \<le> 2148 + k" using n52 by (simp_all add: s_def)
  have e: "b * 2 ^ (2148 + k) = b * 2 ^ (2148 + k - s) * 2 ^ s" using s(2) by (simp add: mult.assoc flip: power_add)
  have q: "b * 2 ^ (2148 + k) div 2 ^ s = b * 2 ^ (2148 + k - s)" "b * 2 ^ (2148 + k) mod 2 ^ s = 0" unfolding e by simp_all
  have "b * 2 ^ (2148 + k - s) * 2 ^ (s - 1074) = b * 2 ^ (1074 + k)" using s by (simp add: mult.assoc flip: power_add)
  then show ?thesis unfolding round_product_def bl s_def [symmetric] Let_def q by simp
qed (simp add: round_product_def)

lemma num_mul_power:
  assumes b: "0 \<le> b" "b \<le> max_safe"
  shows "num_mul (JInt b) (JInt (2 ^ k)) = (if b * 2 ^ k < 2 ^ 1024 then JInt (b * 2 ^ k) else infinity False)"
proof -
  have B: "nat b < 2 ^ 53" using b by (simp add: max_safe_def)
  have "nat \<bar>num_scaled (JInt b) * num_scaled (JInt (2 ^ k))\<bar> = nat b * 2 ^ (2148 + k)"
  proof -
    have "x * 2 ^ m * (2 ^ k * 2 ^ m) = x * 2 ^ (m + m + k)" for x :: int and m by (simp add: power_add)
    from this [of b 1074] have "num_scaled (JInt b) * num_scaled (JInt (2 ^ k)) = b * 2 ^ (2148 + k)" by (simp del: power_numeral)
    then show ?thesis using b(1) by (simp add: nat_mult_distrib nat_power_eq del: power_numeral num_scaled.simps)
  qed
  then have mul: "num_mul (JInt b) (JInt (2 ^ k)) = number_of_bits (of_nat (scaled_bits (nat b * 2 ^ (1074 + k))))"
    using b(1) by (simp add: num_mul_def num_nan_def num_negative_def round_product_exact [OF B] del: num_scaled.simps)
  show ?thesis
  proof (cases "b = 0")
    case True
    then show ?thesis unfolding mul by (simp add: scaled_bits_def number_of_bits_def dbl_int_def dbl_exp_def dbl_man_def neg_zero_def)
  next
    case False
    have i: "int (nat b * 2 ^ k) = b * 2 ^ k" using b(1) by simp
    show ?thesis
    proof (cases "b * 2 ^ k < 2 ^ 1024")
      case True
      then have "nat b * 2 ^ k < 2 ^ 1024" using i by (metis of_nat_less_iff of_nat_numeral of_nat_power)
      from exact_bits [OF _ B this] False b(1) i True show ?thesis unfolding mul by simp
    next
      case large: False
      then have "2 ^ 1024 \<le> nat b * 2 ^ k" using i by (metis linorder_not_less of_nat_less_iff of_nat_numeral of_nat_power)
      moreover have "(2 :: nat) ^ 1024 * 2 ^ 1074 = 2 ^ 2098" unfolding power_add [symmetric] by simp
      moreover have "nat b * 2 ^ k * 2 ^ 1074 = nat b * 2 ^ (1074 + k)" unfolding power_add mult.assoc by (simp only: mult.commute)
      ultimately have "2 ^ 2098 \<le> nat b * 2 ^ (1074 + k)" by (metis mult_le_mono1)
      from overflow_bits [OF this] large show ?thesis unfolding mul by simp
    qed
  qed
qed

section \<open>The delays\<close>

lemma unsafe_round:
  assumes z: "2 ^ 53 \<le> z" "z < 2 ^ 54"
  shows "\<not> is_safe_integer (round_number (z * 2 ^ 1074))"
proof -
  define v where "v = nat z"
  have v: "2 ^ 53 \<le> v" "v < 2 ^ Suc 53" "z = int v" using z by (auto simp: v_def)
  have c: "(0 :: nat) < 2 ^ 1074" by (rule zero_less_power) simp
  have "2 ^ (53 + 1074) \<le> v * 2 ^ 1074" "v * 2 ^ 1074 < 2 ^ Suc (53 + 1074)"
    using mult_le_mono1 [OF v(1), of "2 ^ 1074"] mult_less_mono1 [OF v(2) c] by (simp_all only: power_add [symmetric] add_Suc)
  then have bl: "bit_length (v * 2 ^ 1074) = 1128" using bit_length_eq [of "53 + 1074"] by simp
  have qr: "v * 2 ^ 1074 div 2 ^ 1075 = v div 2" "v * 2 ^ 1074 mod 2 ^ 1075 = v mod 2 * 2 ^ 1074"
    using div_mult_mult2 [of "2 ^ 1074" v 2] mod_mult_mult2 [of v "2 ^ 1074" 2] by simp_all
  define q where "q = (if 2 * (v mod 2 * 2 ^ 1074) < 2 ^ 1075 \<or> 2 * (v mod 2 * 2 ^ 1074) = 2 ^ 1075 \<and> even (v div 2) then v div 2 else Suc (v div 2))"
  have q: "2 ^ 52 \<le> q" "q \<le> 2 ^ 53" using v(1,2) by (auto simp: q_def)
  have r: "round_number (z * 2 ^ 1074) = number_of_bits (of_nat (scaled_bits (q * 2 ^ 1075)))"
  proof -
    have k: "1128 - 53 = (1075 :: nat)" by simp
    have "round_scaled (v * 2 ^ 1074) = q * 2 ^ 1075" unfolding round_scaled_def bl q_def Let_def k qr by (rule if_not_P) simp
    moreover have "nat \<bar>int v * 2 ^ n\<bar> = v * 2 ^ n" "\<not> int v * 2 ^ n < 0" for n by (simp_all add: nat_mult_distrib abs_mult nat_power_eq not_less)
    ultimately show ?thesis unfolding round_number_def v(3) by (simp only: if_False add_0_right)
  qed
  have "number_of_bits (of_nat (scaled_bits (q * 2 ^ 1075))) = JInt (int (q * 2))"
  proof (cases "q = 2 ^ 53")
    case True
    then have "q * 2 ^ 1075 = 2 ^ 52 * 2 ^ (1074 + 2)" "q * 2 = 2 ^ 52 * 2 ^ 2" by simp_all
    then show ?thesis using exact_bits [of "2 ^ 52" 2] by (simp only:) simp
  next
    case False
    with q exact_bits [of q 1] show ?thesis by simp
  qed
  with r q(1) show ?thesis by (simp add: is_safe_integer_def safe_int_def max_safe_def)
qed

lemma retryDelay_exact:
  assumes "0 \<le> b" "b \<le> max_safe" "1 \<le> attempt" "attempt \<le> 1024"
  shows "retryDelay (JInt b) attempt = JInt (min (b * 2 ^ nat (attempt - 1)) max_safe)"
proof -
  have "nat (attempt - 1) < 1024" using assms(4) by linarith
  then have p: "power_of_two (nat (max 0 (attempt - 1))) = JInt (2 ^ nat (attempt - 1))" using assms(3) by (simp add: power_of_two_def)
  have "max_safe < 2 ^ 1024" by (simp add: max_safe_def)
  then show ?thesis
    using assms(1) unfolding retryDelay_def p num_mul_power [OF assms(1,2)]
    by (auto simp: Let_def is_safe_integer_def safe_int_def infinity_def neg_zero_def min_def)
qed

lemma retryNotBefore_exact:
  assumes "0 \<le> b" "b \<le> max_safe" "1 \<le> attempt" "attempt \<le> 1024" "0 \<le> now" "now \<le> max_safe"
  shows "retryNotBefore (JInt b) attempt now = JInt (min (now + b * 2 ^ nat (attempt - 1)) max_safe)"
proof -
  define d where "d = min (b * 2 ^ nat (attempt - 1)) max_safe"
  have d: "0 \<le> d" "d \<le> max_safe" using assms(1) by (simp_all add: d_def max_safe_def)
  have "retryNotBefore (JInt b) attempt now = JInt (min (now + d) max_safe)"
  proof (cases "now + d \<le> max_safe")
    case True
    then have "safe_int (now + d)" using d assms(5) by (simp add: safe_int_def)
    then show ?thesis using True by (simp add: retryNotBefore_def retryDelay_exact [OF assms(1-4)] d_def [symmetric] is_safe_integer_def Let_def)
  next
    case False
    then have "2 ^ 53 \<le> now + d" "now + d < 2 ^ 54" "\<not> safe_int (now + d)" using d(2) assms(6) by (simp_all add: safe_int_def max_safe_def)
    with unsafe_round [of "now + d"] have "\<not> safe_int (now + d)" "\<not> is_safe_integer (round_number ((now + d) * 2 ^ 1074))" by blast+
    then show ?thesis using False by (simp add: retryNotBefore_def retryDelay_exact [OF assms(1-4)] d_def [symmetric] num_add_def Let_def)
  qed
  then show ?thesis using assms(5) by (auto simp: d_def min_def)
qed

text \<open>
  From attempt 1025 on the power is infinite, and its product with the base delay is infinite or, for a base delay of zero, not a number: the delay is the largest safe integer.
\<close>

lemma retryDelay_infinite:
  assumes "1024 < attempt"
  shows "retryDelay (JInt b) attempt = JInt max_safe"
proof -
  have "\<not> nat (max 0 (attempt - 1)) < 1024" using assms by linarith
  then have "power_of_two (nat (max 0 (attempt - 1))) = infinity False" unfolding power_of_two_def by (rule if_not_P)
  moreover have "\<not> is_safe_integer (num_mul (JInt b) (infinity False))"
  proof -
    have inf: "\<not> num_nan (infinity False)" "\<not> num_finite (infinity False)"
      by (simp_all add: num_nan_def dbl_finite_def infinity_def dbl_exp_def dbl_man_def)
    have unsafe: "\<not> is_safe_integer quiet_nan" "\<not> is_safe_integer (infinity n)" for n
      by (simp_all add: is_safe_integer_def quiet_nan_def infinity_def neg_zero_def)
    have "num_mul (JInt b) (infinity False) = quiet_nan \<or> (\<exists>n. num_mul (JInt b) (infinity False) = infinity n)"
      using inf by (auto simp: num_mul_def num_nan_def Let_def)
    with unsafe show ?thesis by auto
  qed
  ultimately show ?thesis by (simp add: retryDelay_def Let_def)
qed

lemma retryNotBefore_all:
  assumes b: "0 \<le> b" "b \<le> max_safe" and a: "1 \<le> attempt" and now: "0 \<le> now" "now \<le> max_safe"
  shows "retryNotBefore (JInt b) attempt now =
    JInt (if b = 0 \<and> 1024 < attempt then max_safe else min (now + b * 2 ^ nat (attempt - 1)) max_safe)"
proof (cases "attempt \<le> 1024")
  case True
  then show ?thesis using retryNotBefore_exact [OF b a True now] by simp
next
  case False
  then have "retryNotBefore (JInt b) attempt now = retryNotBefore (JInt max_safe) 1 now"
    by (simp add: retryNotBefore_def retryDelay_infinite retryDelay_exact max_safe_def)
  also have "\<dots> = JInt max_safe" using now by (subst retryNotBefore_exact) (simp_all add: max_safe_def)
  finally have t: "retryNotBefore (JInt b) attempt now = JInt max_safe" .
  have "max_safe \<le> now + b * 2 ^ nat (attempt - 1)" if "b \<noteq> 0"
  proof -
    have "(2 :: int) ^ 1024 \<le> 2 ^ nat (attempt - 1)" using False by (intro power_increasing) auto
    moreover have "max_safe \<le> 2 ^ 1024" by (simp add: max_safe_def)
    moreover have "1 * 2 ^ nat (attempt - 1) \<le> b * 2 ^ nat (attempt - 1)" using that b(1) by (intro mult_right_mono) auto
    ultimately show ?thesis using now(1) by linarith
  qed
  with t False show ?thesis by (auto simp: min_def)
qed

end
