(* ===== verification/Drive_Response.thy ===== *)
theory Drive_Response
  imports Drive_Settle
begin

text \<open>
  What the response of a request means for a run: a specification of every outcome by itself, and that the decision that \<^verbatim>\<open>publishResponse\<close>
  of \<^verbatim>\<open>drive/response.ts\<close> makes (\<open>dispose\<close>) meets it.
\<close>

section \<open>The specification\<close>

text \<open>
  What a finished response means, said of each outcome by itself. The run goes on with the tool calls, waits for a retry, is suspended, compacts its context, comes to a checkpoint where it may
  finish, or fails.
\<close>

datatype outcome_kind = RunsTools | Retries | Suspends | Compacts | MayEnd | Fails

definition kind_of :: "disposition \<Rightarrow> outcome_kind option" where
  "kind_of d =
     (case d of
        Failure _ \<Rightarrow> Some Fails
      | NextState (Tools _ _) \<Rightarrow> Some RunsTools
      | NextState (AssistantRetryWait _ _ _) \<Rightarrow> Some Retries
      | NextState (DeferredSuspended _ _) \<Rightarrow> Some Suspends
      | NextState (SummaryDeciding _ _) \<Rightarrow> Some Compacts
      | NextState (Checkpoint _ _) \<Rightarrow> Some MayEnd
      | _ \<Rightarrow> None)"

definition is_call :: "assistant_content \<Rightarrow> bool" where
  "is_call block = (case block of AsToolCall _ \<Rightarrow> True | _ \<Rightarrow> False)"

definition has_calls :: "assistant_message \<Rightarrow> bool" where
  "has_calls response \<longleftrightarrow> (\<exists>block\<in>set (am_content response). is_call block)"

text \<open>A request of a generation, with its attempt; a poll of a deferred response is none.\<close>

definition generation_of :: "operation_state \<Rightarrow> (generation_context \<times> int) option" where
  "generation_of state = (case state of AssistantEffectPending _ generation attempt _ _ _ _ \<Rightarrow> Some (generation, attempt) | _ \<Rightarrow> None)"

definition overflowed :: "operation_state \<Rightarrow> bool \<Rightarrow> bool" where
  "overflowed current overflow \<longleftrightarrow> overflow \<and> generation_of current \<noteq> None"

definition recovers :: "operation_state \<Rightarrow> jstring option \<Rightarrow> bool" where
  "recovers current task \<longleftrightarrow> task \<noteq> None \<and> (\<exists>g n. generation_of current = Some (g, n) \<and> \<not> gc_overflowRecoveryUsed g)"

definition bad_handle :: "operation_state \<Rightarrow> assistant_message \<Rightarrow> bool" where
  "bad_handle current response \<longleftrightarrow> (\<exists>g n. generation_of current = Some (g, n) \<and> \<not> deferredHandleIsValid response g)"

definition may_retry :: "operation_state \<Rightarrow> bool \<Rightarrow> bool" where
  "may_retry current retryable \<longleftrightarrow> retryable \<and> (\<exists>g n. generation_of current = Some (g, n) \<and> n < rp_maxAttempts (gc_retryPolicy g))"

definition response_meaning ::
  "operation_state \<Rightarrow> jstring \<Rightarrow> bool \<Rightarrow> jstring option \<Rightarrow> bool \<Rightarrow> jstring list \<Rightarrow> assistant_message \<Rightarrow> assistant_message \<Rightarrow> disposition \<Rightarrow> bool" where
  "response_meaning current i overflow task retryable toolIds response committed d \<longleftrightarrow>
     (let running = (\<not> is_cancelled current); long = overflowed current overflow; plain = (running \<and> \<not> long); stop = am_stopReason response in
      (kind_of d = Some RunsTools \<longleftrightarrow> plain \<and> stop \<noteq> StopDeferred \<and> stop \<noteq> StopError \<and> has_calls response) \<and>
      (kind_of d = Some Retries \<longleftrightarrow> plain \<and> stop = StopError \<and> may_retry current retryable) \<and>
      (kind_of d = Some Suspends \<longleftrightarrow> plain \<and> stop = StopDeferred \<and> \<not> bad_handle current response) \<and>
      (kind_of d = Some Compacts \<longleftrightarrow> running \<and> long \<and> recovers current task) \<and>
      (kind_of d = Some MayEnd \<longleftrightarrow> \<not> running \<or> plain \<and> stop \<noteq> StopDeferred \<and> stop \<noteq> StopError \<and> stop \<noteq> StopToolUse \<and> \<not> has_calls response) \<and>
      (kind_of d = Some Fails \<longleftrightarrow> running \<and> long \<and> \<not> recovers current task \<or> plain \<and> stop = StopDeferred \<and> bad_handle current response \<or>
         plain \<and> stop = StopError \<and> \<not> may_retry current retryable \<or> plain \<and> stop = StopToolUse \<and> \<not> has_calls response) \<and>
      am_content committed = am_content response \<and> am_usage committed = am_usage response \<and>
      am_stopReason committed =
        (if \<not> running then StopAborted
         else if long \<or> stop = StopDeferred \<and> bad_handle current response \<or> stop = StopToolUse \<and> \<not> has_calls response then StopError else stop) \<and>
      (\<forall>state. d = NextState state \<longrightarrow> os_latestAssistantEntryId (operationScopeOf state) = Some i) \<and>
      (\<forall>scope cp. d = NextState (Checkpoint scope cp) \<longrightarrow> cp = \<lparr>cp_continuation = MayFinish True, cp_triggerEntryId = i\<rparr>) \<and>
      (\<forall>scope batch. d = NextState (Tools scope batch) \<and> length toolIds = length (filter is_call (am_content response)) \<longrightarrow>
         tb_assistantEntryId batch = i \<and> map tl_resultEntryId (tb_calls batch) = toolIds \<and> (\<forall>c\<in>set (tb_calls batch). tl_status c = Planned) \<and>
         map tl_sourceIndex (tb_calls batch) = map int (filter (\<lambda>n. is_call (am_content response ! n)) [0..<length (am_content response)])))"

section \<open>The decision meets it\<close>

lemma call_indices_positions: "call_indices content = map int (filter (\<lambda>n. is_call (content ! n)) [0..<length content])"
proof -
  have "List.enumerate 0 content = map (\<lambda>n. (n, content ! n)) [0..<length content]" by (rule nth_equalityI) (simp_all add: nth_enumerate_eq)
  then have "filter (\<lambda>(_, block). is_call block) (List.enumerate 0 content) = map (\<lambda>n. (n, content ! n)) (filter (\<lambda>n. is_call (content ! n)) [0..<length content])"
    by (simp add: filter_map comp_def)
  then show ?thesis by (simp add: call_indices_def is_call_def comp_def case_prod_beta)
qed

lemma call_indices_empty: "call_indices (am_content response) = [] \<longleftrightarrow> \<not> has_calls response"
  unfolding call_indices_positions has_calls_def by (auto simp: filter_empty_conv in_set_conv_nth) (use nth_mem in blast)

lemma call_indices_length: "length (call_indices content) = length (filter is_call content)"
proof -
  have "filter is_call (map ((!) content) [0..<length content]) = map ((!) content) (filter (\<lambda>n. is_call (content ! n)) [0..<length content])"
    by (simp add: filter_map comp_def)
  then show ?thesis by (simp add: call_indices_positions map_nth)
qed

lemma planned_calls_parts:
  "length ids = length indices \<Longrightarrow> map tl_sourceIndex (planned_calls indices ids) = indices"
  "length ids = length indices \<Longrightarrow> map tl_resultEntryId (planned_calls indices ids) = ids" "c \<in> set (planned_calls indices ids) \<Longrightarrow> tl_status c = Planned"
  by (auto simp: planned_calls_def comp_def case_prod_beta)

lemma dispose_answer_meaning:
  assumes "dispose_answer source scope configuration turnId i toolIds response = Inr (committed, d)"
  shows "am_content committed = am_content response \<and> am_usage committed = am_usage response \<and>
    am_stopReason committed = (if am_stopReason response = StopToolUse \<and> \<not> has_calls response then StopError else am_stopReason response) \<and>
    (if has_calls response
     then d = NextState (Tools scope \<lparr>tb_assistantEntryId = i, tb_configuration = configuration, tb_turnId = turnId,
                tb_calls = planned_calls (call_indices (am_content response)) toolIds\<rparr>)
     else if am_stopReason response = StopToolUse then \<exists>e. d = Failure e else d = NextState (may_finish scope True i))"
  using assms by (auto simp: dispose_answer_def Let_def call_indices_empty rbind_eq_Inr normalizeError_def split: if_splits)

lemmas meaning_defs = response_meaning_def Let_def kind_of_def overflowed_def recovers_def bad_handle_def may_retry_def generation_of_def

lemma answer_kind:
  assumes "dispose_answer source scope configuration turnId i toolIds response = Inr (committed, d)" "am_stopReason response \<noteq> StopDeferred" "am_stopReason response \<noteq> StopError"
    and "\<not> is_cancelled current" "\<not> overflowed current overflow" "os_latestAssistantEntryId scope = Some i"
  shows "response_meaning current i overflow task retryable toolIds response committed d"
  using dispose_answer_meaning [OF assms(1)] assms(2-6)
  by (auto simp: response_meaning_def Let_def kind_of_def may_finish_def planned_calls_parts call_indices_length call_indices_positions [symmetric] split: if_splits)

lemma dispose_meaning:
  assumes "dispose current i overflow task retryable toolIds now response = Inr (committed, d)"
  shows "response_meaning current i overflow task retryable toolIds response committed d"
proof (cases "is_cancelled current")
  case True
  with assms show ?thesis
    by (auto simp: dispose_def response_meaning_def Let_def kind_of_def normalizeAborted_def may_finish_def)
next
  case False
  let ?scope = "(operationScopeOf current)\<lparr>os_latestAssistantEntryId := Some i\<rparr>"
  from assms False consider
      (assistant) scope g n x y z w where "current = AssistantEffectPending scope g n x y z w"
        "dispose_assistant ?scope g n i overflow task retryable toolIds now response = Inr (committed, d)"
    | (deferred) scope df x y where "current = DeferredEffectPending scope df x y" "dispose_deferred ?scope df i toolIds response = Inr (committed, d)"
    by (auto simp: dispose_def Let_def split: operation_state.splits if_splits)
  then show ?thesis
  proof cases
    case assistant
    show ?thesis
    proof (cases "overflow \<or> am_stopReason response = StopDeferred \<or> am_stopReason response = StopError")
      case True
      with assistant False show ?thesis
        by (auto simp: dispose_assistant_def meaning_defs normalizeError_def split: if_splits option.splits bool.splits prod.splits)
    next
      case nothing: False
      then show ?thesis
        using assistant False by (intro answer_kind) (auto simp: dispose_assistant_def overflowed_def)
    qed
  next
    case deferred
    show ?thesis
    proof (cases "am_stopReason response = StopDeferred \<or> am_stopReason response = StopError")
      case True
      with deferred False show ?thesis by (auto simp: dispose_deferred_def meaning_defs split: if_splits)
    next
      case nothing: False
      then show ?thesis
        using deferred False by (intro answer_kind) (auto simp: dispose_deferred_def overflowed_def generation_of_def)
    qed
  qed
qed

lemma plan_response_decides:
  assumes "plan_response ops name operationId i u response overflow preparation retryable recovery toolIds now l current meta m = Inr c"
  shows "\<exists>committed d. dispose current i overflow (map_option fst preparation) (recovery \<or> retryable) toolIds now response = Inr (committed, d) \<and>
    (case c of
       OpReturn _ \<Rightarrow> False
     | OpCommit _ state _ _ _ \<Rightarrow> d = NextState state
     | OpFinish _ result _ _ _ \<Rightarrow> \<exists>error. d = Failure error \<and> operationResultRecord meta Failed (Some i) (Some error) now = Inr result)"
proof -
  from assms obtain committed d where d: "dispose current i overflow (map_option fst preparation) (recovery \<or> retryable) toolIds now response = Inr (committed, d)"
    by (auto simp: plan_response_def rbind_eq_Inr)
  with assms show ?thesis
    by (cases d) (auto simp: plan_response_def rbind_eq_Inr Let_def)
qed

end
