(* ===== verification/Drive_Props.thy ===== *)
theory Drive_Props
  imports Lane_Props Drive_Boundary Drive_Retry Drive_Response
begin

text \<open>
  The properties of the decisions of a drive pass, for every history of a harness on a memory storage.
\<close>

section \<open>Transitions of an operation\<close>

context live_storage
begin

lemma settle_commits:
  assumes a: "alive view ready h" and F: "\<forall>i\<in>F. unclaimed (lane_map h) i" and ln: "map_of (hn_lanes h) name = Some ln" "\<not> ln_idleOwner ln"
    and op: "ll_operation (ln_state ln) = Some op"
    and plan: "plan (ln_state ln) (op_state op) (op_meta op) (new_mutation (se_storage (hn_session h))) = Inr d"
      "settles (view (se_storage (hn_session h))) F name (ln_state ln) op d"
    and cmd: "plan_settle name plan (ln_state ln) (new_mutation (se_storage (hn_session h))) = Inr (CommitCmd ws nx mat ev)"
  shows "\<exists>h' r. settleOperation ops name now plan h = (h', Inr (mat r)) \<and> lane_map h' = (lane_map h)(name \<mapsto> nx) \<and> alive view ready h' \<and>
    commit_job (view (se_storage (hn_session h))) ws now = (view (se_storage (hn_session h')), Inr r) \<and> commit_fits (view (se_storage (hn_session h))) ws"
proof -
  have l: "lane_map h name = Some (ln_state ln)" by (simp add: lane_map_def ln(1))
  from plan_settle_ok [where plan = plan, OF alive_lane [OF a l] op plan]
  have ok: "plan_ok (view (se_storage (hn_session h))) F name (ln_state ln) (Inr (CommitCmd ws nx mat ev))" unfolding cmd .
  from command_commits [where plan = "plan_settle name plan" and now = now, OF a ln cmd ok] obtain h' r where
    c: "settleOperation ops name now plan h = (h', Inr (mat r))" "lane_map h' = (lane_map h)(name \<mapsto> nx)"
      "commit_job (view (se_storage (hn_session h))) ws now = (view (se_storage (hn_session h')), Inr r)" by (auto simp: settleOperation_def)
  moreover have "alive view ready h'"
    using settleOperation_kept [where plan = plan and now = now, OF a F l op plan] c(1) by (simp add: kept_def)
  moreover have "commit_fits (view (se_storage (hn_session h))) ws" using ok by (simp add: plan_ok_def decision_ok_def)
  ultimately show ?thesis by (intro exI conjI)
qed

lemma continue_commits:
  assumes a: "alive view ready h" and F: "\<forall>i\<in>F. unclaimed (lane_map h) i" and ln: "map_of (hn_lanes h) name = Some ln" "\<not> ln_idleOwner ln"
    and op: "ll_operation (ln_state ln) = Some op"
    and plan: "plan (ln_state ln) (op_state op) (op_meta op) (new_mutation (se_storage (hn_session h))) = Inr (OpCommit ws state patch mat ev)"
      "patch_ok (view (se_storage (hn_session h))) F name (ln_state ln) {} patch ws" "stateMatchesIntent (om_intent (op_meta op)) state"
  shows "\<exists>h' r ws'. settleOperation ops name now plan h = (h', Inr (mat r)) \<and> alive view ready h' \<and>
    lane_map h' = (lane_map h)(name \<mapsto> (patch_lane patch (ln_state ln))\<lparr>ll_operation := Some \<lparr>op_meta = op_meta op, op_state = state\<rparr>\<rparr>) \<and>
    commit_job (view (se_storage (hn_session h))) (ws @ ws') now = (view (se_storage (hn_session h')), Inr r) \<and>
    commit_fits (view (se_storage (hn_session h))) (ws @ ws')"
proof -
  let ?l = "ln_state ln" and ?id = "om_operationId (op_meta op)"
  have l: "lane_in (view (se_storage (hn_session h))) name ?l" by (rule alive_lane [OF a]) (simp add: lane_map_def ln(1))
  have nz: "0 \<notin> set name" "0 \<notin> set ?id" using lane_okD(1,5) [OF l] op by (auto simp: operation_ok_def)
  obtain vs where cmd: "plan_settle name plan ?l (new_mutation (se_storage (hn_session h))) =
      Inr (CommitCmd (ws @ vs) ((patch_lane patch ?l)\<lparr>ll_operation := Some \<lparr>op_meta = op_meta op, op_state = state\<rparr>\<rparr>) mat ev)"
    using nz by (simp add: plan_settle_def op plan(1) Let_def address_at)
  have "settles (view (se_storage (hn_session h))) F name ?l op (OpCommit ws state patch mat ev)" using plan(2,3) by (simp add: settles_def)
  from settle_commits [where plan = plan and now = now, OF a F ln op plan(1) this cmd] show ?thesis
    by (elim exE conjE, intro exI conjI) assumption+
qed

lemma settle_faults:
  assumes a: "alive view ready h" and ln: "map_of (hn_lanes h) name = Some ln" "\<not> ln_idleOwner ln" and op: "ll_operation (ln_state ln) = Some op"
    and plan: "plan (ln_state ln) (op_state op) (op_meta op) (new_mutation (se_storage (hn_session h))) = Inl e"
  shows "\<exists>h'. settleOperation ops name now plan h = (h', Inl (SealedBy (HarnessFault e))) \<and> hn_closed h' = Some (HarnessFault e) \<and>
    hn_session h' = hn_session h \<and> hn_lanes h' = hn_lanes h"
proof -
  have "plan_settle name plan (ln_state ln) (new_mutation (se_storage (hn_session h))) = Inl e" by (simp add: plan_settle_def op plan)
  moreover have "(hn_session h)\<lparr>se_storage := mu_storage (new_mutation (se_storage (hn_session h)))\<rparr> = hn_session h" by (simp add: new_mutation_def)
  ultimately have "mutate (hn_session h) (\<lambda>m. run_decision ops m now (plan_settle name plan (ln_state ln) m)) = (hn_session h, Inl e)"
    using aliveD(2) [OF a] by (simp add: mutate_def assertOpen_def run_decision_def mutation_end_def)
  then show ?thesis using aliveD(1,2) [OF a] ln by (simp add: settleOperation_def command_def assertOpen_def fault_def emit_def)
qed

lemma settle_returns:
  assumes a: "alive view ready h" and ln: "map_of (hn_lanes h) name = Some ln" "\<not> ln_idleOwner ln" and op: "ll_operation (ln_state ln) = Some op"
    and plan: "plan (ln_state ln) (op_state op) (op_meta op) (new_mutation (se_storage (hn_session h))) = Inr (OpReturn r)"
  shows "settleOperation ops name now plan h = (h, Inr r)"
proof -
  have "plan_settle name plan (ln_state ln) (new_mutation (se_storage (hn_session h))) = Inr (ReturnCmd r)" by (simp add: plan_settle_def op plan)
  moreover have "(hn_session h)\<lparr>se_storage := mu_storage (new_mutation (se_storage (hn_session h)))\<rparr> = hn_session h" by (simp add: new_mutation_def)
  ultimately have "mutate (hn_session h) (\<lambda>m. run_decision ops m now (plan_settle name plan (ln_state ln) m)) = (hn_session h, Inr (Returned r))"
    using aliveD(2) [OF a] by (simp add: mutate_def assertOpen_def run_decision_def mutation_end_def)
  then show ?thesis using aliveD(1,2) [OF a] ln by (simp add: settleOperation_def command_def assertOpen_def)
qed

lemma finish_commits:
  assumes a: "alive view ready h" and F: "\<forall>i\<in>F. unclaimed (lane_map h) i" and ln: "map_of (hn_lanes h) name = Some ln" "\<not> ln_idleOwner ln"
    and op: "ll_operation (ln_state ln) = Some op"
    and plan: "plan (ln_state ln) (op_state op) (op_meta op) (new_mutation (se_storage (hn_session h))) = Inr (OpFinish ws result patch mat ev)"
      "ends_clean (view (se_storage (hn_session h))) F name (ln_state ln) op ws patch"
  shows "\<exists>h' r ws'. settleOperation ops name now plan h = (h', Inr (mat r)) \<and> alive view ready h' \<and>
    lane_map h' = (lane_map h)(name \<mapsto> (patch_lane patch (ln_state ln))\<lparr>ll_lastOperationId := Some (om_operationId (op_meta op)), ll_operation := None\<rparr>) \<and>
    commit_job (view (se_storage (hn_session h))) (ws @ ws') now = (view (se_storage (hn_session h')), Inr r) \<and>
    commit_fits (view (se_storage (hn_session h))) (ws @ ws') \<and>
    value_at (view (se_storage (hn_session h'))) (js ''phi.result'', om_operationId (op_meta op)) = Some (SResult result) \<and>
    (\<forall>p\<in>owned_by (om_operationId (op_meta op)) \<union> Pair ns_pending ` set (staged_ids (op_state op)). value_at (view (se_storage (hn_session h'))) p = None)"
proof -
  let ?l = "ln_state ln" and ?s = "view (se_storage (hn_session h))" and ?id = "om_operationId (op_meta op)"
  have l: "lane_in ?s name ?l" by (rule alive_lane [OF a]) (simp add: lane_map_def ln(1))
  have nz: "0 \<notin> set name" "0 \<notin> set ?id" using lane_okD(1,5) [OF l] op by (auto simp: operation_ok_def)
  let ?inbox = "ll_inbox (patch_lane patch ?l)"
  let ?vs = "[WValueSet (js ''phi.result'') ?id (SResult result),
    WValueSet ns_state name (SLane \<lparr>ls_currentOperationId = None, ls_lastOperationId = Some ?id, ls_inbox = ?inbox\<rparr>)]"
  have i: "?inbox = (case lp_inbox patch of None \<Rightarrow> ll_inbox ?l | Some i \<Rightarrow> i)" by (simp add: patch_lane_def)
  have cmd: "plan_settle name plan ?l (new_mutation (se_storage (hn_session h))) =
      Inr (CommitCmd (ws @ ?vs) ((patch_lane patch ?l)\<lparr>ll_inbox := ?inbox, ll_lastOperationId := Some ?id, ll_operation := None\<rparr>) mat ev)"
    using nz i by (simp add: plan_settle_def op plan(1) Let_def address_at setValue_def)
  have "settles ?s F name ?l op (OpFinish ws result patch mat ev)" using plan(2) by (simp add: settles_def ends_clean_def)
  from settle_commits [where plan = plan and now = now, OF a F ln op plan(1) this cmd] obtain h' r where
    h': "settleOperation ops name now plan h = (h', Inr (mat r))" "alive view ready h'" "commit_job ?s (ws @ ?vs) now = (view (se_storage (hn_session h')), Inr r)"
      "lane_map h' = (lane_map h)(name \<mapsto> (patch_lane patch ?l)\<lparr>ll_inbox := ?inbox, ll_lastOperationId := Some ?id, ll_operation := None\<rparr>)"
      "commit_fits ?s (ws @ ?vs)"
    by (elim exE conjE)
  have V: "value_at (view (se_storage (hn_session h'))) = apply_values ?vs (apply_values ws (value_at ?s))"
    using commit_effect(1) [OF view_reachable [OF aliveD(3) [OF a]] h'(3)] by (simp add: apply_values_append)
  have "p \<notin> touched ?vs" if "p \<in> owned_by ?id \<union> Pair ns_pending ` set (staged_ids (op_state op))" for p
    using that by (auto simp: owned_by_def owned_namespaces_def js_def)
  with plan(2) have "\<forall>p\<in>owned_by ?id \<union> Pair ns_pending ` set (staged_ids (op_state op)). value_at (view (se_storage (hn_session h'))) p = None"
    unfolding V by (simp add: apply_values_untouched ends_clean_def)
  moreover have "value_at (view (se_storage (hn_session h'))) (js ''phi.result'', ?id) = Some (SResult result)" unfolding V by (simp add: js_def)
  ultimately show ?thesis using h' by (intro exI conjI) (assumption | simp)+
qed

end

definition response_entry :: "jstring \<Rightarrow> live_lane \<Rightarrow> assistant_message \<Rightarrow> new_entry" where
  "response_entry i l committed =
     \<lparr>ne_id = i, ne_parentId = ll_tipId l, ne_customType = None, ne_body = MessageBody (Llm (AssistantMsg committed)) False\<rparr>"

context live_storage
begin

lemma response_commits:
  assumes a: "alive view ready h" and ln: "map_of (hn_lanes h) name = Some ln" "\<not> ln_idleOwner ln" and op: "ll_operation (ln_state ln) = Some op"
    and ids: "response_ids (op_state op) = Some (i, u)"
      "0 \<notin> set i \<and> \<not> id_used (view (se_storage (hn_session h))) i \<and> unclaimed (lane_map h) i"
      "0 \<notin> set u \<and> \<not> id_used (view (se_storage (hn_session h))) u \<and> unclaimed (lane_map h) u" "u \<noteq> i"
    and d: "dispose (op_state op) i overflow (map_option fst preparation) (recovery \<or> retryable) toolIds at response = Inr (committed, d)"
    and ends: "am_stopReason response \<noteq> StopPending" and prep: "\<forall>t\<in>set_option (map_option fst preparation). 0 \<notin> set t"
  shows "\<exists>h' r ws l' result.
    settleOperation ops name now
      (plan_response ops name (om_operationId (op_meta op)) i u response overflow preparation retryable recovery toolIds at) h =
      (h', Inr (case d of NextState _ \<Rightarrow> Continue | Failure _ \<Rightarrow> Settled result)) \<and> alive view ready h' \<and>
    commit_job (view (se_storage (hn_session h))) (WEntry (response_entry i (ln_state ln) committed) # ws) now = (view (se_storage (hn_session h')), Inr r) \<and>
    commit_fits (view (se_storage (hn_session h))) (WEntry (response_entry i (ln_state ln) committed) # ws) \<and>
    lane_map h' = (lane_map h)(name \<mapsto> l') \<and> ll_tipId l' = Some i \<and> ll_inbox l' = ll_inbox (ln_state ln) \<and>
    (case d of
       NextState state \<Rightarrow> ll_operation l' = Some \<lparr>op_meta = op_meta op, op_state = state\<rparr>
     | Failure error \<Rightarrow> ll_operation l' = None \<and> or_status result = Failed \<and> or_error result = Some error \<and>
         (\<forall>p\<in>owned_by (om_operationId (op_meta op)). value_at (view (se_storage (hn_session h'))) p = None))"
proof -
  let ?l = "ln_state ln" and ?st = "se_storage (hn_session h)" and ?id = "om_operationId (op_meta op)"
  let ?plan = "plan_response ops name ?id i u response overflow preparation retryable recovery toolIds at"
  have lm: "lane_map h name = Some ?l" by (simp add: lane_map_def ln(1))
  have free: "\<forall>j\<in>{i, u}. unclaimed (lane_map h) j" using ids(2,3) by simp
  then have apart: "{i, u} \<inter> inbox_ids ?l = {}" using lm by (auto simp: unclaimed_def)
  have F: "i \<in> {i, u}" "u \<in> {i, u}" by simp_all
  have tip: "ll_tipId (patch_lane (tip_patch (Some i)) ?l) = Some i" "ll_inbox (patch_lane (tip_patch (Some i)) ?l) = ll_inbox ?l"
    by (simp_all add: patch_lane_def tip_patch_def no_patch_def)
  note plan = response_settles [where now = at, OF aliveD(3) [OF a] alive_lane [OF a lm] op ids(1) ids(2) [THEN conjunct1] F
      ids(2) [THEN conjunct2, THEN conjunct1] ids(3) [THEN conjunct2, THEN conjunct1] ids(4) apart d ends prep, folded response_entry_def]
  show ?thesis
  proof (cases d)
    case (NextState state)
    from plan obtain ws ev where p: "?plan ?l (op_state op) (op_meta op) (new_mutation ?st) =
          Inr (OpCommit (WEntry (response_entry i ?l committed) # ws) state (tip_patch (Some i)) (\<lambda>_. Continue) ev)"
        "patch_ok (view ?st) {i, u} name ?l {} (tip_patch (Some i)) (WEntry (response_entry i ?l committed) # ws)"
        "stateMatchesIntent (om_intent (op_meta op)) state" unfolding NextState by auto
    from continue_commits [where plan = ?plan and now = now, OF a free ln op p] show ?thesis
      unfolding NextState append_Cons by (elim exE conjE, intro exI conjI) (assumption | simp add: tip)+
  next
    case (Failure error)
    from plan obtain ws ev result where p: "?plan ?l (op_state op) (op_meta op) (new_mutation ?st) =
          Inr (OpFinish (WEntry (response_entry i ?l committed) # ws) result (tip_patch (Some i)) (\<lambda>_. Settled result) ev)"
        "ends_clean (view ?st) {i, u} name ?l op (WEntry (response_entry i ?l committed) # ws) (tip_patch (Some i))"
      and r: "or_status result = Failed" "or_error result = Some error" unfolding Failure by (auto simp: Let_def)
    from finish_commits [where plan = ?plan and now = now, OF a free ln op p] show ?thesis
      unfolding Failure append_Cons using r by (elim exE conjE, intro exI conjI) (assumption | simp add: tip)+
  qed
qed

end

lemma entry_committed:
  assumes "storage_reachable s" "commit_job s ws now = (s', Inr r)" "commit_fits s ws" "WEntry e \<in> set ws"
  shows "\<exists>x. map_of (s_entries s') (ne_id e) = Some x \<and> ne_parentId x = ne_parentId e \<and> ne_body x = ne_body e"
proof -
  have "map_of (s_entries s') i = st_entries (foldl spec_write (abs_store s) (commit_writes ws (s_nextSeq s) now)) i" for i
    unfolding commit_job_ok(2) [OF assms(1,2), symmetric] by (simp add: abs_store_def)
  moreover have "distinct (new_entry_ids ws)" using assms(3) new_ids_entries(2) by (simp add: commit_fits_def)
  from spec_entry_new [OF assms(4) this] obtain q where
    "st_entries (foldl spec_write (abs_store s) (commit_writes ws (s_nextSeq s) now)) (ne_id e) = Some (materializeCommittedEntry e q now)" by blast
  ultimately show ?thesis by (simp add: materializeCommittedEntry_def)
qed

lemma alive_restores:
  assumes "memory_alive h'" "lane_map h' name = Some l'"
  shows "restoreLane memory_ops (hn_session h') name = (hn_session h', Inr l')"
  using assms aliveD [OF assms(1)] by (auto intro!: memory.restoreLane_ok alive_lane)

section \<open>Cancellation ends\<close>

lemma direct_leaf: "reconciliation_of state = PublishAborted \<or> reconciliation_of state = CancelDeferredThenAbort \<Longrightarrow> staged_ids state = [] \<and> frame_response state = None"
  by (cases state) (auto simp: staged_ids_def frame_response_def)

text \<open>
  C16. In every history, an operation that was asked to stop and has no request or tool call under way is ended by one commit: its result is stored as aborted at the tip
  of the lane, the lane is free with its queue unchanged, no other lane changes, and nothing of the operation stays in the session: neither its
  metadata and state nor tool arguments, memos, outputs or preparations under its id.
\<close>

theorem cancelled_operation_ends:
  assumes reach: "harness_reachable h"
    and ln: "map_of (hn_lanes h) name = Some ln" "\<not> ln_idleOwner ln" and op: "ll_operation (ln_state ln) = Some op"
    and c: "is_cancelled (op_state op)" "reconciliation_of (op_state op) = PublishAborted \<or> reconciliation_of (op_state op) = CancelDeferredThenAbort"
    and task: "reason_given op"
    and i: "operationId = om_operationId (op_meta op)"
  shows "\<exists>h' result. settleOperation memory_ops name now (plan_aborted memory_ops name operationId at) h = (h', Inr (Settled result)) \<and>
    or_operationId result = operationId \<and> or_status result = Aborted \<and> or_error result = None \<and> or_tipId result = ll_tipId (ln_state ln) \<and>
    lane_map h' = (lane_map h)(name \<mapsto> (ln_state ln)\<lparr>ll_lastOperationId := Some operationId, ll_operation := None\<rparr>) \<and>
    (let V = value_at (ms_storageState (se_storage (hn_session h'))) in
      V (js ''phi.result'', operationId) = Some (SResult result) \<and> (\<forall>p\<in>owned_by operationId. V p = None))"
proof -
  have a: "memory_alive h" by (rule reachable_alive [OF reach])
  let ?l = "ln_state ln" and ?st = "se_storage (hn_session h)"
  have l: "lane_in (ms_storageState ?st) name ?l" by (rule alive_lane [OF a]) (simp add: lane_map_def ln(1))
  have free: "\<forall>i\<in>{}. unclaimed (lane_map h) i" by simp
  have r: "reserved_ok {} ?l (op_state op)" using direct_leaf [OF c(2)] by (simp add: reserved_ok_def)
  obtain ws result ev where
    p: "plan_aborted memory_ops name operationId at ?l (op_state op) (op_meta op) (new_mutation ?st) = Inr (OpFinish ws result no_patch (\<lambda>_. Settled result) ev)"
      "ends_clean (ms_storageState ?st) {} name ?l op ws no_patch" "operationResultRecord (op_meta op) Aborted (ll_tipId ?l) None at = Inr result"
    using memory.aborted_ends [where now = at, OF aliveD(3) [OF a] l op r c(1) task, folded i] by (elim exE conjE) simp
  from live_memory.finish_commits [where plan = "plan_aborted memory_ops name operationId at" and now = now, OF a free ln op p(1,2)] obtain h' where
    h': "settleOperation memory_ops name now (plan_aborted memory_ops name operationId at) h = (h', Inr (Settled result))"
      "lane_map h' = (lane_map h)(name \<mapsto> (patch_lane no_patch ?l)\<lparr>ll_lastOperationId := Some operationId, ll_operation := None\<rparr>)"
      "value_at (ms_storageState (se_storage (hn_session h'))) (js ''phi.result'', operationId) = Some (SResult result)"
      "\<forall>p\<in>owned_by operationId \<union> Pair ns_pending ` set (staged_ids (op_state op)). value_at (ms_storageState (se_storage (hn_session h'))) p = None"
    unfolding i by (elim exE conjE) simp
  have "patch_lane no_patch ?l = ?l" by (simp add: patch_lane_def no_patch_def)
  moreover have "or_operationId result = operationId" "or_status result = Aborted" "or_error result = None" "or_tipId result = ll_tipId ?l"
    using p(3) by (auto simp: operationResultRecord_def i)
  ultimately show ?thesis using h' by (intro exI [of _ h'] exI [of _ result]) simp
qed

definition sample_aborted :: "memory_storage harness" where
  "sample_aborted = fst (requestOperationAbort memory_ops (js ''main'') (js ''op1'') 4 sample_running)"

definition sample_aborted_operation :: operation where
  "sample_aborted_operation =
     (let op = run_operation sample_lane_config (js ''main'') (js ''op1'') 2 [js ''e1''] (initial_lane None sample_seed) in
      op\<lparr>op_state := map_scope (\<lambda>s. s\<lparr>os_control := CancelRequested 4\<rparr>) (op_state op)\<rparr>)"

lemma sample_aborted_lanes:
  "hn_lanes sample_aborted = [(js ''main'', new_lane ((ln_state sample_steered_lane)\<lparr>ll_inbox := [], ll_operation := Some sample_aborted_operation\<rparr>))]"
  by code_simp

lemma sample_aborted_leaf:
  "is_cancelled (op_state sample_aborted_operation)" "reconciliation_of (op_state sample_aborted_operation) = PublishAborted"
  "reason_given sample_aborted_operation" "om_operationId (op_meta sample_aborted_operation) = js ''op1''"
  by code_simp+

theorem cancelled_operation_ends_witness:
  "\<exists>h' result. settleOperation memory_ops (js ''main'') 5 (plan_aborted memory_ops (js ''main'') (js ''op1'') 5) sample_aborted = (h', Inr (Settled result)) \<and>
    or_status result = Aborted \<and> map_option ll_operation (lane_map h' (js ''main'')) = Some None \<and>
    value_at (ms_storageState (se_storage (hn_session h'))) (ns_operation, js ''op1'') = None"
  using cancelled_operation_ends [OF harness_reachable.aborted [OF sample_running_reachable], of "js ''main''" "js ''op1''" 4, folded sample_aborted_def, of "js ''main''" _ sample_aborted_operation
      "js ''op1''" 5 5] sample_aborted_lanes sample_aborted_leaf
  by (auto simp: new_lane_def Let_def owned_by_def)

section \<open>Responses are settled\<close>

text \<open>
  C4. In every history, the finished response of a pending request, under the new ids that were reserved for it, is settled in one step. Unless the provider says that it was aborted while nobody cancelled
  the operation, one commit makes the message the child of the old tip and the new tip of the lane, and in the same commit the operation gets its next state, or the run
  ends as failed and leaves none of its values. Which of these it is, and what the message says, is what the response means (\<open>response_meaning\<close>): its tool calls are planned in order,
  an error is retried while attempts remain, a valid handle suspends the run, an overflow leads to a compaction once, a cancelled operation comes to a checkpoint with an aborted message, a
  plain answer to a checkpoint where the run may finish, and everything else fails. The queue does not change, nor does another lane, and the lane in memory is the one a restart reads. An aborted response to
  a running operation faults the harness and commits nothing.
\<close>

theorem response_settled:
  assumes reach: "harness_reachable h"
    and ln: "map_of (hn_lanes h) name = Some ln" "\<not> ln_idleOwner ln" and op: "ll_operation (ln_state ln) = Some op"
    and ids: "response_ids (op_state op) = Some (i, u)" "memory_fresh h i" "memory_fresh h u" "u \<noteq> i" "is_ok (uuidV7Timestamp i)"
    and message: "am_stopReason response \<noteq> StopPending"
    and prep: "\<forall>t\<in>set_option (map_option fst preparation). 0 \<notin> set t" and oid: "operationId = om_operationId (op_meta op)"
  shows "if \<not> is_cancelled (op_state op) \<and> am_stopReason response = StopAborted
    then \<exists>h' e. settleOperation memory_ops name now (plan_response memory_ops name operationId i u response overflow preparation retryable recovery toolIds at) h =
        (h', Inl (SealedBy (HarnessFault (SessionInvariant e)))) \<and> hn_closed h' = Some (HarnessFault (SessionInvariant e)) \<and> hn_session h' = hn_session h \<and> hn_lanes h' = hn_lanes h
    else \<exists>h' committed d l' e result.
    response_meaning (op_state op) i overflow (map_option fst preparation) (recovery \<or> retryable) toolIds response committed d \<and>
    dispose (op_state op) i overflow (map_option fst preparation) (recovery \<or> retryable) toolIds at response = Inr (committed, d) \<and>
    settleOperation memory_ops name now (plan_response memory_ops name operationId i u response overflow preparation retryable recovery toolIds at) h =
      (h', Inr (case d of NextState _ \<Rightarrow> Continue | Failure _ \<Rightarrow> Settled result)) \<and>
    map_of (s_entries (ms_storageState (se_storage (hn_session h')))) i = Some e \<and> ne_parentId e = ll_tipId (ln_state ln) \<and>
    ne_body e = MessageBody (Llm (AssistantMsg committed)) False \<and>
    lane_map h' = (lane_map h)(name \<mapsto> l') \<and> ll_tipId l' = Some i \<and> ll_inbox l' = ll_inbox (ln_state ln) \<and>
    restoreLane memory_ops (hn_session h') name = (hn_session h', Inr l') \<and>
    (case d of
       NextState state \<Rightarrow> ll_operation l' = Some \<lparr>op_meta = op_meta op, op_state = state\<rparr>
     | Failure error \<Rightarrow> ll_operation l' = None \<and> or_status result = Failed \<and> or_error result = Some error \<and>
         (\<forall>p\<in>owned_by operationId. value_at (ms_storageState (se_storage (hn_session h'))) p = None))"
proof (cases "\<not> is_cancelled (op_state op) \<and> am_stopReason response = StopAborted")
  case True
  let ?plan = "plan_response memory_ops name operationId i u response overflow preparation retryable recovery toolIds at"
  obtain e where "?plan (ln_state ln) (op_state op) (op_meta op) (new_mutation (se_storage (hn_session h))) = Inl (SessionInvariant e)"
    using True by (simp add: plan_response_def dispose_def Let_def)
  from live_memory.settle_faults [where plan = ?plan and now = now, OF reachable_alive [OF reach] ln op this] True show ?thesis by auto
next
  case False
  have a: "memory_alive h" by (rule reachable_alive [OF reach])
  let ?st = "se_storage (hn_session h)" and ?plan = "plan_response memory_ops name operationId i u response overflow preparation retryable recovery toolIds at"
  obtain committed d where d: "dispose (op_state op) i overflow (map_option fst preparation) (recovery \<or> retryable) toolIds at response = Inr (committed, d)"
    using dispose_total [OF ids(1,5)] False by blast
  from memory.view_reachable [OF aliveD(3) [OF a]] have s: "storage_reachable (ms_storageState ?st)" .
  from live_memory.response_commits [where now = now and at = at and overflow = overflow and retryable = retryable and recovery = recovery and toolIds = toolIds,
      OF a ln op ids(1) ids(2,3) [unfolded fresh_id_def] ids(4) d message prep, folded oid]
  obtain h' r ws l' result where
    h': "settleOperation memory_ops name now ?plan h = (h', Inr (case d of NextState _ \<Rightarrow> Continue | Failure _ \<Rightarrow> Settled result))" "memory_alive h'"
      "commit_job (ms_storageState ?st) (WEntry (response_entry i (ln_state ln) committed) # ws) now = (ms_storageState (se_storage (hn_session h')), Inr r)"
      "commit_fits (ms_storageState ?st) (WEntry (response_entry i (ln_state ln) committed) # ws)"
      "lane_map h' = (lane_map h)(name \<mapsto> l')" "ll_tipId l' = Some i" "ll_inbox l' = ll_inbox (ln_state ln)"
      "case d of
         NextState state \<Rightarrow> ll_operation l' = Some \<lparr>op_meta = op_meta op, op_state = state\<rparr>
       | Failure error \<Rightarrow> ll_operation l' = None \<and> or_status result = Failed \<and> or_error result = Some error \<and>
           (\<forall>p\<in>owned_by operationId. value_at (ms_storageState (se_storage (hn_session h'))) p = None)"
    by (elim exE conjE)
  from entry_committed [OF s h'(3,4), of "response_entry i (ln_state ln) committed"] obtain x where
    "map_of (s_entries (ms_storageState (se_storage (hn_session h')))) i = Some x" "ne_parentId x = ll_tipId (ln_state ln)"
    "ne_body x = MessageBody (Llm (AssistantMsg committed)) False" by (auto simp: response_entry_def)
  moreover have "restoreLane memory_ops (hn_session h') name = (hn_session h', Inr l')"
    by (rule alive_restores [OF h'(2)]) (simp add: h'(5))
  ultimately show ?thesis unfolding if_not_P [OF False] using d dispose_meaning [OF d] h'(1,5-8) by (intro exI conjI)
qed

definition sample_generation :: generation_context where
  "sample_generation =
     \<lparr>gc_stepId = js ''s1'', gc_triggerEntryId = js ''e1'', gc_configuration = sample_seed,
      gc_streamOptions = \<lparr>so_transport = None, so_timeoutMs = None, so_maxRetries = None, so_maxRetryDelayMs = None, so_headers = None, so_metadata = None,
        so_cacheRetention = None, so_deferred = None\<rparr>,
      gc_retryPolicy = \<lparr>rp_maxAttempts = 3, rp_baseDelayMs = JInt 1000\<rparr>, gc_overflowRecoveryUsed = False\<rparr>"

definition sample_run :: operation where
  "sample_run = run_operation sample_lane_config (js ''main'') (js ''op1'') 2 [js ''e1''] (initial_lane None sample_seed)"

definition sample_request :: operation_state where
  "sample_request = AssistantEffectPending (operationScopeOf (op_state sample_run)) sample_generation 1 (js ''a1'') (js ''b1'') (JInt 10) (JInt 100)"

definition sample_pending :: "memory_storage harness" where
  "sample_pending = fst (settleOperation memory_ops (js ''main'') 3
     (\<lambda>l state meta m. Inr (OpCommit [] sample_request no_patch (\<lambda>_. ()) (\<lambda>_. []))) sample_running)"

definition sample_response :: "stop_reason \<Rightarrow> assistant_message" where
  "sample_response reason = (interruptedAssistantMessage (lc_model sample_seed) None 4)\<lparr>am_stopReason := reason, am_errorMessage := None\<rparr>"

lemma sample_running_lane:
  "lane_map sample_running (js ''main'') = Some ((ln_state sample_steered_lane)\<lparr>ll_inbox := []\<rparr>)"
  "ll_operation (ln_state sample_steered_lane) = Some sample_run"
  by (simp_all add: lane_map_def sample_running_state(1) sample_steered_lane_def new_lane_def sample_run_def)

lemma sample_pending_reachable: "harness_reachable sample_pending"
  unfolding sample_pending_def
proof (rule harness_reachable.settled [OF sample_running_reachable _ sample_running_lane(1), of "{}" sample_run])
  have "lane_in (ms_storageState (se_storage (hn_session sample_running))) (js ''main'') ((ln_state sample_steered_lane)\<lparr>ll_inbox := []\<rparr>)"
    by (rule alive_lane [OF reachable_alive [OF sample_running_reachable] sample_running_lane(1)])
  moreover have "stateMatchesIntent (om_intent (op_meta sample_run)) sample_request" by code_simp
  ultimately show "settles (ms_storageState (se_storage (hn_session sample_running))) {} (js ''main'')
      ((ln_state sample_steered_lane)\<lparr>ll_inbox := []\<rparr>) sample_run (OpCommit [] sample_request no_patch (\<lambda>_. ()) (\<lambda>_. []))"
    by (simp add: settles_def patch_ok_none)
qed (simp_all add: sample_running_lane(2))

lemma sample_pending_state:
  "hn_lanes sample_pending = [(js ''main'', new_lane ((ln_state sample_steered_lane)
     \<lparr>ll_inbox := [], ll_operation := Some \<lparr>op_meta = op_meta sample_run, op_state = sample_request\<rparr>\<rparr>))]"
  "keys (s_entries (ms_storageState (se_storage (hn_session sample_pending)))) = [js ''e1'']"
  "s_usage (ms_storageState (se_storage (hn_session sample_pending))) = []"
  by code_simp+

lemma sample_pending_fresh: "0 \<notin> set i \<Longrightarrow> i \<noteq> js ''e1'' \<Longrightarrow> i \<noteq> js ''op1'' \<Longrightarrow> memory_fresh sample_pending i"
proof -
  assume i: "0 \<notin> set i" "i \<noteq> js ''e1''" "i \<noteq> js ''op1''"
  have "om_operationId (op_meta sample_run) = js ''op1''" by code_simp
  moreover have "map_of (s_entries (ms_storageState (se_storage (hn_session sample_pending)))) i = None"
    using sample_pending_state(2) i(2) by (metis list.set(1) list.set(2) map_of_eq_None_iff set_map singletonD)
  ultimately show ?thesis using i
    by (simp add: fresh_id_def id_used_def sample_pending_state unclaimed_def lane_map_def new_lane_def current_id_def inbox_ids_def)
qed

lemma sample_ids:
  "0 \<notin> set (js ''a1'')" "0 \<notin> set (js ''b1'')" "js ''a1'' \<noteq> js ''e1''" "js ''a1'' \<noteq> js ''op1''" "js ''b1'' \<noteq> js ''e1''" "js ''b1'' \<noteq> js ''op1''" "js ''b1'' \<noteq> js ''a1''"
  "response_ids sample_request = Some (js ''a1'', js ''b1'')" "is_ok (uuidV7Timestamp (js ''a1''))" "om_operationId (op_meta sample_run) = js ''op1''"
  by code_simp+

lemma sample_disposition:
  "\<exists>state. dispose sample_request (js ''a1'') False None False [] 4 (sample_response StopStop) = Inr (sample_response StopStop, NextState state)"
  by (rule exI) code_simp

theorem response_settled_witness:
  "\<exists>h' l'. settleOperation memory_ops (js ''main'') 4
      (plan_response memory_ops (js ''main'') (js ''op1'') (js ''a1'') (js ''b1'') (sample_response StopStop) False None False False [] 4) sample_pending =
        (h', Inr Continue) \<and>
    lane_map h' (js ''main'') = Some l' \<and> ll_tipId l' = Some (js ''a1'') \<and> restoreLane memory_ops (hn_session h') (js ''main'') = (hn_session h', Inr l')"
proof -
  let ?op = "\<lparr>op_meta = op_meta sample_run, op_state = sample_request\<rparr>"
  let ?ln = "new_lane ((ln_state sample_steered_lane)\<lparr>ll_inbox := [], ll_operation := Some ?op\<rparr>)"
  have ln: "map_of (hn_lanes sample_pending) (js ''main'') = Some ?ln" "\<not> ln_idleOwner ?ln" "ll_operation (ln_state ?ln) = Some ?op"
    by (simp_all add: sample_pending_state(1) new_lane_def)
  have ids: "response_ids (op_state ?op) = Some (js ''a1'', js ''b1'')" "memory_fresh sample_pending (js ''a1'')" "memory_fresh sample_pending (js ''b1'')"
    by (simp_all add: sample_ids sample_pending_fresh)
  have message: "am_stopReason (sample_response StopStop) \<noteq> StopPending" and kind: "\<not> (\<not> is_cancelled (op_state ?op) \<and> am_stopReason (sample_response StopStop) = StopAborted)"
    by (simp_all add: sample_response_def)
  have prep: "\<forall>t\<in>set_option (map_option fst (None :: (jstring \<times> structural_preparation) option)). 0 \<notin> set t"
    and oid: "js ''op1'' = om_operationId (op_meta ?op)" by (simp_all add: sample_ids)
  obtain state where d: "dispose sample_request (js ''a1'') False None False [] 4 (sample_response StopStop) = Inr (sample_response StopStop, NextState state)"
    using sample_disposition by blast
  from response_settled [where now = 4 and at = 4 and overflow = False and recovery = False and retryable = False and toolIds = "[]",
      OF sample_pending_reachable ln ids sample_ids(7,9) message prep oid, unfolded if_not_P [OF kind]]
  obtain h' committed d' l' where
    r: "dispose (op_state ?op) (js ''a1'') False (map_option fst (None :: (jstring \<times> structural_preparation) option)) (False \<or> False) [] 4 (sample_response StopStop) =
        Inr (committed, d')"
      "\<exists>result. settleOperation memory_ops (js ''main'') 4
        (plan_response memory_ops (js ''main'') (js ''op1'') (js ''a1'') (js ''b1'') (sample_response StopStop) False None False False [] 4) sample_pending =
        (h', Inr (case d' of NextState _ \<Rightarrow> Continue | Failure _ \<Rightarrow> Settled result))"
      "lane_map h' = (lane_map sample_pending)(js ''main'' \<mapsto> l')" "ll_tipId l' = Some (js ''a1'')"
      "restoreLane memory_ops (hn_session h') (js ''main'') = (hn_session h', Inr l')" by (elim exE conjE) blast
  from d r(1) have "d' = NextState state" by simp
  with r show ?thesis by (intro exI [of _ h'] exI [of _ l']) simp
qed

section \<open>Retries are bounded\<close>

lemma dispose_retry:
  assumes "dispose (AssistantEffectPending scope g attempt i u limit window) i' overflow task retryable toolIds now response =
    Inr (committed, NextState (AssistantRetryWait scope' g' w))"
  shows "g' = g \<and> attempt < rp_maxAttempts (gc_retryPolicy g) \<and> rw_nextAttempt w = attempt + 1 \<and>
    rw_notBefore w = retryNotBefore (rp_baseDelayMs (gc_retryPolicy g)) attempt now"
  using assms
  by (auto simp: dispose_defs may_finish_def rbind_eq_Inr split: if_splits prod.splits bool.splits option.splits)

text \<open>
  C29. When the settlement of a response waits for a retry, the next attempt is the following one and not beyond the limit of the policy, and the time it waits for is the
  time of the settlement plus the base delay doubled with every attempt, up to the largest safe integer: it is never in the past and never leaves the range of safe
  integers, although it is computed in binary64 and the power may be far outside of that range. This holds for every limit of attempts, with one exception: with a base delay of zero, from attempt 1025 on,
  the product is not a number and the wait is the largest safe integer instead of none.
\<close>

theorem retry_bounded:
  assumes "plan_response ops name operationId i u response overflow preparation retryable recovery toolIds now l
      (AssistantEffectPending scope g attempt i u limit window) meta m = Inr (OpCommit ws (AssistantRetryWait scope' g' w) patch mat ev)"
    and base: "rp_baseDelayMs (gc_retryPolicy g) = JInt base" "0 \<le> base" "base \<le> max_safe"
    and attempts: "1 \<le> attempt" and now: "0 \<le> now" "now \<le> max_safe"
  shows "g' = g \<and> rw_nextAttempt w = attempt + 1 \<and> rw_nextAttempt w \<le> rp_maxAttempts (gc_retryPolicy g) \<and>
    (\<exists>t. rw_notBefore w = JInt t \<and> t = (if base = 0 \<and> 1024 < attempt then max_safe else min (now + base * 2 ^ nat (attempt - 1)) max_safe) \<and>
       now \<le> t \<and> t \<le> max_safe)"
proof -
  obtain committed where "dispose (AssistantEffectPending scope g attempt i u limit window) i overflow (map_option fst preparation) (recovery \<or> retryable) toolIds now response =
      Inr (committed, NextState (AssistantRetryWait scope' g' w))"
    using plan_response_decides [OF assms(1)] by (elim exE) auto
  from dispose_retry [OF this] have w: "g' = g" "attempt < rp_maxAttempts (gc_retryPolicy g)" "rw_nextAttempt w = attempt + 1"
    "rw_notBefore w = retryNotBefore (JInt base) attempt now" by (simp_all add: base(1))
  note t = retryNotBefore_all [OF base(2,3) attempts now]
  moreover have "0 \<le> base * 2 ^ nat (attempt - 1)" using base(2) by simp
  ultimately show ?thesis using w now(2) by simp
qed

definition sample_retry :: "(session_error, procedure_result operation_command) res" where
  "sample_retry = plan_response memory_ops (js ''main'') (js ''op1'') (js ''a1'') (js ''b1'') (sample_response StopError) False None True False [] 5000
     (ln_state sample_steered_lane) sample_request (op_meta sample_run) (new_mutation (se_storage (hn_session sample_pending)))"

lemma sample_retry_wait:
  "\<exists>ws scope' g' w patch mat ev. sample_retry = Inr (OpCommit ws (AssistantRetryWait scope' g' w) patch mat ev)"
proof -
  have "is_cancelled sample_request = False" "is_ok (branchTip (js ''main''))" "is_ok (pendingAssistantFrames (js ''op1'') (js ''a1''))" by code_simp+
  then show ?thesis
    by (simp add: sample_retry_def plan_response_def dispose_defs is_ok_iff)
      (auto simp: sample_request_def sample_response_def sample_generation_def dispose_defs)
qed

theorem retry_bounded_witness:
  "case sample_retry of Inr (OpCommit _ (AssistantRetryWait _ _ w) _ _ _) \<Rightarrow> rw_nextAttempt w = 2 \<and> rw_notBefore w = JInt 6000 | _ \<Rightarrow> False"
proof -
  obtain ws scope' g' w patch mat ev where r: "sample_retry = Inr (OpCommit ws (AssistantRetryWait scope' g' w) patch mat ev)"
    using sample_retry_wait by (elim exE)
  from retry_bounded [OF r [unfolded sample_retry_def sample_request_def], of 1000] show ?thesis
    by (simp add: r sample_generation_def max_safe_def)
qed

section \<open>Boundaries\<close>

lemma plan_continue_running:
  assumes "\<not> is_cancelled current"
  shows "plan_continue plan l current meta m = rbind (plan l current meta m) (\<lambda>decision. Inr (case decision of
          OpReturn r \<Rightarrow> OpReturn (ContinueResult r)
        | OpCommit writes state patch materialize events \<Rightarrow> OpCommit writes state patch (\<lambda>c. ContinueResult (materialize c)) events
        | OpFinish writes record patch materialize events \<Rightarrow> OpFinish writes record patch (\<lambda>c. ContinueResult (materialize c)) events))"
  using assms by (simp add: plan_continue_def)

lemma checkpoint_of_run:
  assumes "stateMatchesIntent intent (Checkpoint scope cp)"
  obtains ps where "intent = RunIntent ps"
  using assms by (auto simp: stateMatchesIntent_def task_boundary_def split: operation_intent.splits)

text \<open>
  C7. In every history, the checkpoint of a run takes from the queue of its lane, in queue order, every write, the steering messages of the mode, and follow-ups of the
  mode exactly when the run may finish and nothing else taken starts a turn. It commits them as the next entries of the branch and removes them from
  the queue, all others stay; if one of them starts a turn, the next request is triggered by the last such entry. Only when the run may finish and nothing starts a turn is
  nothing committed, and the entries that are still to be placed are handed to the end of the run.
\<close>

theorem checkpoint_places_queue:
  assumes reach: "harness_reachable h"
    and ln: "map_of (hn_lanes h) name = Some ln" "\<not> ln_idleOwner ln" and op: "ll_operation (ln_state ln) = Some op"
    and leaf: "op_state op = Checkpoint scope cp" "\<not> is_cancelled (op_state op)"
    and task: "\<forall>t\<in>set_option (map_option fst threshold). 0 \<notin> set t" and oid: "operationId = om_operationId (op_meta op)"
    and V: "V = value_at (ms_storageState (se_storage (hn_session h)))" and followUp: "followUp \<longleftrightarrow> threshold = None \<and> (\<exists>b. cp_continuation cp = MayFinish b)"
    and items: "items = boundary_items config V scope followUp (ll_inbox (ln_state ln))"
    and trigger: "trigger = last_projecting config (map (\<lambda>item. (item, payload V item)) items)"
    and path: "tip_path (ms_storageState (se_storage (hn_session h))) (ll_tipId (ln_state ln)) path"
  shows "\<exists>h' result. continueOperation memory_ops name now (plan_checkpoint memory_ops config name operationId threshold stepId) h = (h', Inr (ContinueResult result)) \<and>
    (if trigger = None \<and> followUp then h' = h \<and> result = FinishPending (map ii_entryId items)
     else result = CheckpointDone Continue \<and>
       (\<exists>l' new state. lane_map h' = (lane_map h)(name \<mapsto> l') \<and> ll_inbox l' = filter (\<lambda>item. item \<notin> set items) (ll_inbox (ln_state ln)) \<and>
          ll_operation l' = Some \<lparr>op_meta = op_meta op, op_state = state\<rparr> \<and>
          (\<forall>t. trigger = Some t \<longrightarrow> state = assistantReadyAtBoundary config (ln_state ln) scope stepId t False) \<and>
          map new_entry.truncate new = chainEntries (ll_tipId (ln_state ln)) (placed V items) \<and>
          tip_path (ms_storageState (se_storage (hn_session h'))) (ll_tipId l') (rev new @ path)))"
proof -
  have a: "memory_alive h" by (rule reachable_alive [OF reach])
  let ?l = "ln_state ln" and ?st = "se_storage (hn_session h)" and ?plan = "plan_checkpoint memory_ops config name operationId threshold stepId"
  have l: "lane_in (ms_storageState ?st) name ?l" by (rule alive_lane [OF a]) (simp add: lane_map_def ln(1))
  note o = lane_okD(5) [OF l op, unfolded operation_ok_def]
  have nz: "0 \<notin> set operationId" using o by (simp add: oid)
  from o leaf(1) obtain ps where run: "om_intent (op_meta op) = RunIntent ps" by (auto elim: checkpoint_of_run)
  note ok = memory.plan_checkpoint_ok [OF aliveD(3) [OF a] l nz task V followUp items trigger, where stepId = stepId and meta = "op_meta op" and ps = ps and F = "{}", folded leaf(1)]
  note continue = plan_continue_running [OF leaf(2), of ?plan ?l "op_meta op" "new_mutation ?st"]
  obtain d where d: "?plan ?l (op_state op) (op_meta op) (new_mutation ?st) = Inr d" using ok by (auto split: sum.splits)
  show ?thesis
  proof (cases d)
    case (OpReturn r)
    with ok d have r: "r = FinishPending (map ii_entryId items)" "trigger = None" "followUp" by simp_all
    have "settleOperation memory_ops name now (plan_continue ?plan) h = (h, Inr (ContinueResult r))"
      by (rule live_memory.settle_returns [OF a ln op]) (simp add: continue d OpReturn)
    with r show ?thesis by (simp add: continueOperation_def)
  next
    case (OpCommit ws state patch mat ev)
    with ok d obtain vs where c: "mat = (\<lambda>_. CheckpointDone Continue)" "\<not> (trigger = None \<and> followUp)" "stateMatchesIntent (om_intent (op_meta op)) state"
        "patch_lane patch ?l = ?l\<lparr>ll_tipId := if items = [] then ll_tipId ?l else Some (ii_entryId (last items)),
          ll_inbox := filter (\<lambda>item. item \<notin> set items) (ll_inbox ?l)\<rparr>"
        "patch_ok (ms_storageState ?st) {} name ?l {} patch ws" "ws = map insertEntry (chainEntries (ll_tipId ?l) (placed V items)) @ vs"
        "\<forall>t. trigger = Some t \<longrightarrow> state = assistantReadyAtBoundary config ?l scope stepId t False" by (auto simp: run)
    have p: "plan_continue ?plan ?l (op_state op) (op_meta op) (new_mutation ?st) = Inr (OpCommit ws state patch (\<lambda>_. ContinueResult (CheckpointDone Continue)) ev)"
      by (simp add: continue d OpCommit c(1))
    have free: "\<forall>i\<in>{}. unclaimed (lane_map h) i" by simp
    from live_memory.continue_commits [where plan = "plan_continue ?plan" and now = now, OF a free ln op p c(5,3)] obtain h' r ws' where
      h': "settleOperation memory_ops name now (plan_continue ?plan) h = (h', Inr (ContinueResult (CheckpointDone Continue)))"
        "lane_map h' = (lane_map h)(name \<mapsto> (patch_lane patch ?l)\<lparr>ll_operation := Some \<lparr>op_meta = op_meta op, op_state = state\<rparr>\<rparr>)"
        "commit_job (ms_storageState ?st) (ws @ ws') now = (ms_storageState (se_storage (hn_session h')), Inr r)" "commit_fits (ms_storageState ?st) (ws @ ws')"
      by (elim exE conjE)
    have "ws @ ws' = map insertEntry (chainEntries (ll_tipId ?l) (placed V items)) @ vs @ ws'" by (simp add: c(6))
    from commit_extends_path [OF memory.view_reachable [OF aliveD(3) [OF a]] h'(3) this h'(4) path] obtain new where
      "map new_entry.truncate new = chainEntries (ll_tipId ?l) (placed V items)"
      "tip_path (ms_storageState (se_storage (hn_session h'))) (if items = [] then ll_tipId ?l else Some (ii_entryId (last items))) (rev new @ path)"
      by (auto simp: placed_def last_map split: if_splits)
    with h' c(2,7) show ?thesis
      unfolding continueOperation_def if_not_P [OF c(2)] c(4) by (intro exI conjI) (assumption | simp)+
  qed (use ok d in simp)
qed

definition sample_checkpoint :: operation_state where
  "sample_checkpoint = Checkpoint (operationScopeOf (op_state sample_run)) \<lparr>cp_continuation = MayFinish True, cp_triggerEntryId = js ''e1''\<rparr>"

definition sample_boundary :: "memory_storage harness" where
  "sample_boundary = fst (settleOperation memory_ops (js ''main'') 4
     (\<lambda>l state meta m. Inr (OpCommit [] sample_checkpoint no_patch (\<lambda>_. ()) (\<lambda>_. []))) sample_steered)"

definition sample_drive_config :: drive_config where
  "sample_drive_config =
     \<lparr>cf_compaction = cf_compaction sample_lane_config, cf_steeringMode = OneAtATime, cf_followUpMode = OneAtATime, cf_toolExecution = Parallel, cf_skills = [],
      cf_promptTemplates = [], dc_streamOptions = gc_streamOptions sample_generation, dc_retryEnabled = True, dc_maxRetries = 2, dc_baseDelayMs = JInt 1000,
      dc_projectors = []\<rparr>"

definition sample_boundary_lane :: lane where
  "sample_boundary_lane =
     new_lane ((ln_state sample_steered_lane)\<lparr>ll_operation := Some \<lparr>op_meta = op_meta sample_run, op_state = sample_checkpoint\<rparr>\<rparr>)"

lemma sample_boundary_reachable: "harness_reachable sample_boundary"
  unfolding sample_boundary_def
proof (rule harness_reachable.settled [OF sample_steered_reachable, of "{}" _ "ln_state sample_steered_lane" sample_run])
  show l: "lane_map sample_steered (js ''main'') = Some (ln_state sample_steered_lane)" by (simp add: lane_map_def sample_steered_lanes)
  have "lane_in (ms_storageState (se_storage (hn_session sample_steered))) (js ''main'') (ln_state sample_steered_lane)"
    by (rule alive_lane [OF reachable_alive [OF sample_steered_reachable] l])
  moreover have "stateMatchesIntent (om_intent (op_meta sample_run)) sample_checkpoint" by code_simp
  ultimately show "settles (ms_storageState (se_storage (hn_session sample_steered))) {} (js ''main'') (ln_state sample_steered_lane) sample_run
      (OpCommit [] sample_checkpoint no_patch (\<lambda>_. ()) (\<lambda>_. []))" by (simp add: settles_def patch_ok_none)
qed (simp_all add: sample_running_lane(2))

lemma sample_boundary_state:
  "hn_lanes sample_boundary = [(js ''main'', sample_boundary_lane)]"
  "s_entries (ms_storageState (se_storage (hn_session sample_boundary))) = s_entries (ms_storageState (se_storage (hn_session sample_running)))"
  by code_simp+

lemma sample_boundary_items:
  "boundary_items sample_drive_config (value_at (ms_storageState (se_storage (hn_session sample_boundary)))) (operationScopeOf (op_state sample_run)) True
     (ll_inbox (ln_state sample_boundary_lane)) = [\<lparr>ii_entryId = js ''e2'', ii_kind = Steer\<rparr>]"
  "last_projecting sample_drive_config (map (\<lambda>item. (item, payload (value_at (ms_storageState (se_storage (hn_session sample_boundary)))) item))
     [\<lparr>ii_entryId = js ''e2'', ii_kind = Steer\<rparr>]) = Some (js ''e2'')"
  by code_simp+

theorem checkpoint_places_queue_witness:
  "\<exists>h' l'. continueOperation memory_ops (js ''main'') 5
      (plan_checkpoint memory_ops sample_drive_config (js ''main'') (js ''op1'') None (js ''s2'')) sample_boundary = (h', Inr (ContinueResult (CheckpointDone Continue))) \<and>
    lane_map h' (js ''main'') = Some l' \<and> ll_inbox l' = []"
proof -
  let ?op = "\<lparr>op_meta = op_meta sample_run, op_state = sample_checkpoint\<rparr>" and ?s = "ms_storageState (se_storage (hn_session sample_boundary))"
  have ln: "map_of (hn_lanes sample_boundary) (js ''main'') = Some sample_boundary_lane" "\<not> ln_idleOwner sample_boundary_lane"
      "ll_operation (ln_state sample_boundary_lane) = Some ?op"
    by (simp_all add: sample_boundary_state(1) sample_boundary_lane_def new_lane_def)
  have "\<not> is_cancelled sample_checkpoint" by code_simp
  then have leaf: "op_state ?op = Checkpoint (operationScopeOf (op_state sample_run)) \<lparr>cp_continuation = MayFinish True, cp_triggerEntryId = js ''e1''\<rparr>"
      "\<not> is_cancelled (op_state ?op)" by (simp_all add: sample_checkpoint_def)
  obtain path where path: "tip_path ?s (ll_tipId (ln_state sample_boundary_lane)) path"
  proof -
    have "has_key (s_entries ?s) (js ''e1'')" unfolding sample_boundary_state(2) by code_simp
    moreover have "ll_tipId (ln_state sample_boundary_lane) = Some (js ''e1'')" by (simp add: sample_boundary_lane_def sample_steered_lane_def new_lane_def)
    moreover have "storage_reachable ?s" by (rule memory.view_reachable [OF aliveD(3) [OF reachable_alive [OF sample_boundary_reachable]]])
    ultimately show thesis using tip_path_exists [of ?s "Some (js ''e1'')"] that by auto
  qed
  have task: "\<forall>t\<in>set_option (map_option fst (None :: (jstring \<times> structural_preparation) option)). 0 \<notin> set t" by simp
  have oid: "js ''op1'' = om_operationId (op_meta ?op)" by (simp add: sample_ids)
  have fu: "True \<longleftrightarrow> (None :: (jstring \<times> structural_preparation) option) = None \<and>
      (\<exists>b. cp_continuation \<lparr>cp_continuation = MayFinish True, cp_triggerEntryId = js ''e1''\<rparr> = MayFinish b)" by auto
  have inbox: "ll_inbox (ln_state sample_boundary_lane) = [\<lparr>ii_entryId = js ''e2'', ii_kind = Steer\<rparr>]"
    by (simp add: sample_boundary_lane_def sample_steered_lane_def new_lane_def)
  from checkpoint_places_queue [where now = 5 and stepId = "js ''s2''", OF sample_boundary_reachable ln leaf task oid refl fu
      sample_boundary_items(1) [symmetric] sample_boundary_items(2) [symmetric] path]
  obtain h' l' where "continueOperation memory_ops (js ''main'') 5
      (plan_checkpoint memory_ops sample_drive_config (js ''main'') (js ''op1'') None (js ''s2'')) sample_boundary = (h', Inr (ContinueResult (CheckpointDone Continue)))"
    "lane_map h' = (lane_map sample_boundary)(js ''main'' \<mapsto> l')" "ll_inbox l' = []"
    unfolding inbox by auto
  then show ?thesis by (intro exI [of _ h'] exI [of _ l']) simp
qed

end
