(* ===== verification/Drive_Structural.thy ===== *)
theory Drive_Structural
  imports Drive_Settle Compaction
begin

text \<open>
  The decisions that publish what became of a compaction or of the summary of a navigation, and that commit a navigation without one: \<^verbatim>\<open>publishStructuralOutcome\<close> and
  \<^verbatim>\<open>commitNavigation\<close> of \<^verbatim>\<open>packages/agent/src/harness/runtime/drive/structural.ts\<close>. Ids, the clock and the outcome of the summary are arguments.
\<close>

section \<open>Tasks\<close>

datatype summary_kind = KindCompaction | KindBranchSummary

definition summaryKind :: "summary_task \<Rightarrow> summary_kind" where
  "summaryKind task = (case st_boundary task of CommitNavigation _ _ \<Rightarrow> KindBranchSummary | _ \<Rightarrow> KindCompaction)"

definition kind_text :: "summary_kind \<Rightarrow> jstring" where
  "kind_text kind = (case kind of KindCompaction \<Rightarrow> js ''compaction'' | KindBranchSummary \<Rightarrow> js ''branch_summary'')"

definition compactionReason :: "summary_task \<Rightarrow> (session_error, summary_reason) res" where
  "compactionReason task =
     (case st_reason task of
        Some reason \<Rightarrow> Inr reason
      | None \<Rightarrow>
          if st_boundary task = Finish then Inr RManual
          else Inl (SessionInvariant (js ''In-run compaction task '' @ st_taskId task @ js '' is missing its reason'')))"

definition navigationBoundary :: "summary_task \<Rightarrow> (session_error, jstring \<times> jstring option) res" where
  "navigationBoundary task =
     (case st_boundary task of
        CommitNavigation targetId label \<Rightarrow> Inr (targetId, label)
      | _ \<Rightarrow> Inl (SessionInvariant (js ''Summary task '' @ st_taskId task @ js '' is not a navigation'')))"

text \<open>A result of \<^verbatim>\<open>compact\<close> or of a hook, which may leave out the usage and the details.\<close>

record published_compaction =
  sc_summary :: jstring
  sc_retainedTail :: "agent_message list"
  sc_tokensBefore :: jnum
  sc_details :: "json option"
  sc_usage :: "usage option"

datatype structural_outcome =
    CompactionOutcome jstring published_compaction bool
  | BranchSummaryOutcome jstring branch_summary_result bool
  | DeclinedOutcome
  | FailedOutcome operation_error

definition outcome_kind_of :: "structural_outcome \<Rightarrow> summary_kind option" where
  "outcome_kind_of outcome =
     (case outcome of CompactionOutcome _ _ _ \<Rightarrow> Some KindCompaction | BranchSummaryOutcome _ _ _ \<Rightarrow> Some KindBranchSummary | _ \<Rightarrow> None)"

text \<open>The usage of a result that came from a hook; the usage of the requests of a summary is recorded with them.\<close>

definition hook_usage :: "structural_outcome \<Rightarrow> usage option" where
  "hook_usage outcome =
     (case outcome of
        CompactionOutcome _ result fromHook \<Rightarrow> if fromHook then sc_usage result else None
      | BranchSummaryOutcome _ result fromHook \<Rightarrow> if fromHook then bu_usage result else None
      | _ \<Rightarrow> None)"

definition usageEvent :: "new_usage_row \<Rightarrow> nat \<Rightarrow> commit_result \<Rightarrow> jstring \<Rightarrow> harness_event" where
  "usageEvent row writeIndex commit name =
     on_lane name (UsageRecorded
       \<lparr>ur_id = ur_id row, ur_usage = ur_usage row, ur_entryId = ur_entryId row, ur_adjustment = ur_adjustment row, ur_details = ur_details row,
        ur_seq = cr_seqs commit ! writeIndex\<rparr> (ss_usage (cr_stats commit)))"

section \<open>Publishing an outcome\<close>

text \<open>
  The writes that every boundary has in common, the tip they lead to and the events about them. The last argument of the events is the time at which a compaction of
  its own ended. An event that needs the reason of a task without one is left out; the planners that create a task in a run always give it.
\<close>

record structural_base =
  sb_writes :: "store_write list"
  sb_tipId :: "jstring option"
  sb_events :: "int option \<Rightarrow> commit_result \<Rightarrow> harness_event list"

definition compaction_entry :: "jstring \<Rightarrow> jstring option \<Rightarrow> published_compaction \<Rightarrow> bool \<Rightarrow> new_entry" where
  "compaction_entry i parentId result fromHook =
     \<lparr>ne_id = i, ne_parentId = parentId, ne_customType = None,
      ne_body = CompactionBody \<lparr>co_summary = sc_summary result, co_retainedTail = sc_retainedTail result, co_tokensBefore = sc_tokensBefore result,
        co_details = sc_details result, co_usage = sc_usage result, co_fromHook = fromHook\<rparr>\<rparr>"

definition branch_summary_entry :: "jstring \<Rightarrow> jstring \<Rightarrow> jstring option \<Rightarrow> branch_summary_result \<Rightarrow> bool \<Rightarrow> new_entry" where
  "branch_summary_entry i targetId fromId result fromHook =
     \<lparr>ne_id = i, ne_parentId = Some targetId, ne_customType = None,
      ne_body = BranchSummaryBody \<lparr>br_fromId = fromId, br_summary = bu_summary result, br_details = Some (file_details (bu_readFiles result) (bu_modifiedFiles result)),
        br_usage = bu_usage result, br_fromHook = fromHook\<rparr>\<rparr>"

definition attempt_of :: "operation_state \<Rightarrow> int option" where
  "attempt_of current = (case current of SummaryReady _ _ _ attempt \<Rightarrow> Some attempt | SummaryEffectPending _ _ _ attempt _ _ \<Rightarrow> Some attempt | _ \<Rightarrow> None)"

definition retry_events :: "jstring \<Rightarrow> jstring \<Rightarrow> operation_state \<Rightarrow> summary_task \<Rightarrow> structural_outcome \<Rightarrow> harness_event list" where
  "retry_events name operationId current task outcome =
     (case attempt_of current of
        Some attempt \<Rightarrow>
          if 1 < attempt
          then [on_lane name (RetryEnd operationId (st_taskId task) attempt (outcome_kind_of outcome \<noteq> None)
                  (case outcome of FailedOutcome error \<Rightarrow> Some (oe_message error) | _ \<Rightarrow> None))]
          else []
      | None \<Rightarrow> [])"

definition compaction_end_events :: "jstring \<Rightarrow> jstring \<Rightarrow> summary_task \<Rightarrow> structural_outcome \<Rightarrow> int \<Rightarrow> harness_event list" where
  "compaction_end_events name operationId task outcome endedAt =
     (case (outcome, compactionReason task) of
        (CompactionOutcome i _ _, Inr reason) \<Rightarrow> [on_lane name (CompactionEnd operationId reason endedAt Completed (Some i) None)]
      | _ \<Rightarrow> [])"

definition structural_writes ::
  "jstring \<Rightarrow> jstring \<Rightarrow> structural_outcome \<Rightarrow> jstring \<Rightarrow> live_lane \<Rightarrow> operation_state \<Rightarrow> summary_task \<Rightarrow> operation_meta \<Rightarrow> (session_error, structural_base) res" where
  "structural_writes name operationId outcome hookUsageId state current task meta =
     (let row = (\<lambda>usage. \<lparr>ur_id = hookUsageId, ur_usage = usage, ur_entryId = None, ur_adjustment = False, ur_details = None\<rparr>);
          usageWrites = (case hook_usage outcome of None \<Rightarrow> [] | Some usage \<Rightarrow> [insertUsage (row usage)]);
          usageEvents = (\<lambda>commit. case hook_usage outcome of None \<Rightarrow> [] | Some usage \<Rightarrow> [usageEvent (row usage) 0 commit name]);
          finish = (\<lambda>writes tipId entries index.
            \<lparr>sb_writes = usageWrites @ writes, sb_tipId = tipId,
             sb_events = (\<lambda>endedAt commit. usageEvents commit @ committedEntryEvents entries commit name (Some operationId) index @
               retry_events name operationId current task outcome @
               compaction_end_events name operationId task outcome (case endedAt of None \<Rightarrow> cr_timestamp commit | Some t \<Rightarrow> t))\<rparr>) in
      case outcome of
        CompactionOutcome i result fromHook \<Rightarrow>
          rbind (branchTip name) (\<lambda>tip.
            let entry = compaction_entry i (ll_tipId state) result fromHook in
            Inr (finish [insertEntry entry, setValue tip (STip (Some i))] (Some i) [entry] (length usageWrites)))
      | BranchSummaryOutcome i result fromHook \<Rightarrow>
          rbind (navigationBoundary task) (\<lambda>(targetId, label).
          rbind (branchTip name) (\<lambda>tip.
          rbind (case label of None \<Rightarrow> Inr [] | Some text \<Rightarrow> rbind (entryLabel targetId) (\<lambda>a. Inr [setValue a (SText text)])) (\<lambda>labels.
            let entry = branch_summary_entry i targetId (om_sourceTipId meta) result fromHook in
            Inr (finish ([setValue tip (STip (Some targetId)), insertEntry entry, setValue tip (STip (Some i))] @ labels) (Some i) [entry] (length usageWrites + 1)))))
      | _ \<Rightarrow> Inr (finish [] (ll_tipId state) [] 0))"

definition outcome_status :: "structural_outcome \<Rightarrow> terminal_status" where
  "outcome_status outcome = (case outcome of DeclinedOutcome \<Rightarrow> Declined | FailedOutcome _ \<Rightarrow> Failed | _ \<Rightarrow> Completed)"

definition outcome_error :: "structural_outcome \<Rightarrow> operation_error option" where
  "outcome_error outcome = (case outcome of FailedOutcome error \<Rightarrow> Some error | _ \<Rightarrow> None)"

text \<open>A compaction within a run: it goes on where it was interrupted, with what the queue brings, or it fails with the compaction.\<close>

definition plan_resume ::
  "'s storage_ops \<Rightarrow> drive_config \<Rightarrow> jstring \<Rightarrow> jstring \<Rightarrow> structural_outcome \<Rightarrow> jstring \<Rightarrow> int \<Rightarrow> live_lane \<Rightarrow> operation_state \<Rightarrow> summary_task \<Rightarrow> checkpoint_data \<Rightarrow>
     operation_meta \<Rightarrow> structural_base \<Rightarrow> 's mutation \<Rightarrow> (session_error, checkpoint_result operation_command) res" where
  "plan_resume ops config name operationId outcome stepId now state current task cp meta base m =
     (let scope = operationScopeOf current; declined = (outcome = DeclinedOutcome);
          mayFinish = (case cp_continuation cp of MayFinish _ \<Rightarrow> True | NeedAssistant _ \<Rightarrow> False) in
      if outcome_kind_of outcome = Some KindBranchSummary then Inl (SessionInvariant (js ''Run compaction boundary received a branch summary''))
      else if outcome_kind_of outcome = Some KindCompaction \<or> declined \<and> st_reason task = Some RThreshold then
        if sb_tipId base = None then Inl (SessionInvariant (js ''Run compaction has no Branch tip''))
        else rbind (planBoundaryInbox ops config name state scope m (sb_tipId base) (declined \<and> mayFinish)) (\<lambda>placement.
          if declined \<and> pl_triggerEntryId placement = None \<and> mayFinish then Inr (OpReturn (FinishPending (map ne_id (pl_entries placement))))
          else
            let nextState = (case (pl_triggerEntryId placement, cp_continuation cp) of
                  (Some trigger, _) \<Rightarrow> assistantReadyAtBoundary config state scope stepId trigger False
                | (None, NeedAssistant overflowRecoveryUsed) \<Rightarrow>
                    assistantReadyAtBoundary config state scope stepId (cp_triggerEntryId cp) overflowRecoveryUsed
                | (None, MayFinish _) \<Rightarrow> Checkpoint scope cp) in
            Inr (OpCommit (sb_writes base @ pl_writes placement) nextState (placement_patch placement) (\<lambda>_. CheckpointDone Continue)
              (\<lambda>commit. (if declined then [on_lane name (CompactionEnd operationId RThreshold (cr_timestamp commit) Declined None None)] else sb_events base None commit) @
                 boundaryPlacementEvents placement commit (length (sb_writes base)) name operationId)))
      else if ll_tipId state = None then Inl (SessionInvariant (js ''Failed run has no Branch tip''))
      else
        let error = (case outcome of
              FailedOutcome e \<Rightarrow> e
            | _ \<Rightarrow> \<lparr>oe_code = js ''compaction_declined'', oe_message = js ''Overflow compaction was declined'', oe_details = None\<rparr>) in
        rbind (operationCleanupWrites ops m operationId current) (\<lambda>cleanup.
        rbind (operationResultRecord meta Failed (ll_tipId state) (Some error) now) (\<lambda>record.
        rbind (compactionReason task) (\<lambda>reason.
          Inr (OpFinish (sb_writes base @ cleanup) record no_patch (\<lambda>_. CheckpointDone (Settled record))
            (\<lambda>commit. sb_events base None commit @
               [on_lane name (CompactionEnd operationId reason (or_endedAt record) (if declined then Declined else Failed) None (outcome_error outcome)),
                run_end name meta record]))))))"

text \<open>A compaction that was asked for by itself.\<close>

definition plan_standalone ::
  "'s storage_ops \<Rightarrow> jstring \<Rightarrow> jstring \<Rightarrow> structural_outcome \<Rightarrow> int \<Rightarrow> live_lane \<Rightarrow> operation_state \<Rightarrow> operation_meta \<Rightarrow> structural_base \<Rightarrow> 's mutation \<Rightarrow>
     (session_error, checkpoint_result operation_command) res" where
  "plan_standalone ops name operationId outcome now state current meta base m =
     (let compacted = (outcome_kind_of outcome = Some KindCompaction) in
      if outcome_kind_of outcome = Some KindBranchSummary then Inl (SessionInvariant (js ''Compaction finish boundary received a branch summary''))
      else if \<not> compacted \<and> ll_tipId state = None then Inl (SessionInvariant (js ''Standalone compaction has no Branch tip''))
      else rbind (operationCleanupWrites ops m operationId current) (\<lambda>cleanup.
           rbind (operationResultRecord meta (outcome_status outcome) (sb_tipId base) (outcome_error outcome) now) (\<lambda>record.
             Inr (OpFinish (sb_writes base @ cleanup) record (if compacted then tip_patch (sb_tipId base) else no_patch) (\<lambda>_. CheckpointDone (Settled record))
               (\<lambda>commit. sb_events base (Some (or_endedAt record)) commit @
                  (if compacted then []
                   else [on_lane name (CompactionEnd operationId RManual (or_endedAt record) (outcome_status outcome) None (outcome_error outcome))]))))))"

text \<open>A navigation with a summary of the branch it leaves.\<close>

definition plan_summarized_navigation ::
  "'s storage_ops \<Rightarrow> jstring \<Rightarrow> jstring \<Rightarrow> structural_outcome \<Rightarrow> int \<Rightarrow> operation_state \<Rightarrow> operation_meta \<Rightarrow> structural_base \<Rightarrow> 's mutation \<Rightarrow>
     (session_error, checkpoint_result operation_command) res" where
  "plan_summarized_navigation ops name operationId outcome now current meta base m =
     (if outcome_kind_of outcome = Some KindCompaction then Inl (SessionInvariant (js ''Navigation boundary received a compaction result''))
      else rbind (operationCleanupWrites ops m operationId current) (\<lambda>cleanup.
           rbind (operationResultRecord meta (outcome_status outcome) (sb_tipId base) (outcome_error outcome) now) (\<lambda>record.
             Inr (OpFinish (sb_writes base @ cleanup) record (if outcome_kind_of outcome = Some KindBranchSummary then tip_patch (sb_tipId base) else no_patch)
               (\<lambda>_. CheckpointDone (Settled record))
               (\<lambda>commit. sb_events base None commit @
                  [on_lane name (NavigationEnd operationId (om_sourceTipId meta) (sb_tipId base) (or_endedAt record) (outcome_status outcome) (outcome_error outcome))])))))"

definition plan_boundary ::
  "'s storage_ops \<Rightarrow> drive_config \<Rightarrow> jstring \<Rightarrow> jstring \<Rightarrow> structural_outcome \<Rightarrow> jstring \<Rightarrow> int \<Rightarrow> live_lane \<Rightarrow> operation_state \<Rightarrow> summary_task \<Rightarrow>
     operation_meta \<Rightarrow> structural_base \<Rightarrow> 's mutation \<Rightarrow> (session_error, checkpoint_result operation_command) res" where
  "plan_boundary ops config name operationId outcome stepId now state current task meta base m =
     (case st_boundary task of
        ResumeCheckpoint cp \<Rightarrow> plan_resume ops config name operationId outcome stepId now state current task cp meta base m
      | Finish \<Rightarrow> plan_standalone ops name operationId outcome now state current meta base m
      | CommitNavigation _ _ \<Rightarrow> plan_summarized_navigation ops name operationId outcome now current meta base m)"

definition plan_structural ::
  "'s storage_ops \<Rightarrow> drive_config \<Rightarrow> jstring \<Rightarrow> jstring \<Rightarrow> structural_outcome \<Rightarrow> jstring \<Rightarrow> jstring \<Rightarrow> int \<Rightarrow>
     live_lane \<Rightarrow> operation_state \<Rightarrow> operation_meta \<Rightarrow> 's mutation \<Rightarrow> (session_error, checkpoint_result operation_command) res" where
  "plan_structural ops config name operationId outcome hookUsageId stepId now state current meta m =
     (case (current, summary_task_of current) of
        (SummaryRetryWait _ _ _ _, _) \<Rightarrow> Inl WrongLeaf
      | (_, None) \<Rightarrow> Inl WrongLeaf
      | (_, Some task) \<Rightarrow>
          if outcome_kind_of outcome \<noteq> None \<and> outcome_kind_of outcome \<noteq> Some (summaryKind task)
          then Inl (SessionInvariant (js ''Structural '' @ kind_text (the (outcome_kind_of outcome)) @ js '' result does not match '' @ kind_text (summaryKind task) @
                 js '' task '' @ st_taskId task))
          else rbind (structural_writes name operationId outcome hookUsageId state current task meta) (\<lambda>base.
            plan_boundary ops config name operationId outcome stepId now state current task meta base m))"

text \<open>
  When nothing is left to do after a checkpoint or a declined compaction, the caller goes on to end the run: with the continuation of the leaf, which must allow it, and for a
  declined compaction with the event about it.
\<close>

definition finish_continuation :: "operation_state \<Rightarrow> (session_error, bool) res" where
  "finish_continuation capability =
     (case capability of
        Checkpoint _ cp \<Rightarrow>
          (case cp_continuation cp of
             MayFinish includeFinalAssistant \<Rightarrow> Inr includeFinalAssistant
           | NeedAssistant _ \<Rightarrow> Inl (SessionInvariant (js ''Checkpoint finish mediation requires a finish continuation'')))
      | _ \<Rightarrow>
          (case Option.bind (summary_task_of capability) (\<lambda>task. case st_boundary task of ResumeCheckpoint cp \<Rightarrow> Some (cp_continuation cp) | _ \<Rightarrow> None) of
             Some (MayFinish includeFinalAssistant) \<Rightarrow> Inr includeFinalAssistant
           | _ \<Rightarrow> Inl (SessionInvariant (js ''Structural finish mediation requires a resumable finish boundary''))))"

definition finish_events :: "jstring \<Rightarrow> jstring \<Rightarrow> operation_state \<Rightarrow> int \<Rightarrow> harness_event list" where
  "finish_events name operationId capability now =
     (case capability of Checkpoint _ _ \<Rightarrow> [] | _ \<Rightarrow> [on_lane name (CompactionEnd operationId RThreshold now Declined None None)])"

section \<open>A navigation without a summary\<close>

definition plan_commit_navigation ::
  "'s storage_ops \<Rightarrow> jstring \<Rightarrow> jstring \<Rightarrow> int \<Rightarrow> live_lane \<Rightarrow> operation_state \<Rightarrow> operation_meta \<Rightarrow> 's mutation \<Rightarrow>
     (session_error, procedure_result operation_command) res" where
  "plan_commit_navigation ops name operationId now state current meta m =
     (case current of
        NavigationReadyToCommit _ targetId label \<Rightarrow>
          rbind (case targetId of None \<Rightarrow> Inr True | Some i \<Rightarrow> rbind (mutation_getEntries ops m [i]) (\<lambda>found. Inr (has_key found i))) (\<lambda>known.
          if \<not> known then Inl (SessionInvariant (js ''Navigation target '' @ the targetId @ js '' is missing''))
          else if targetId = om_sourceTipId meta then Inl (SessionInvariant (js ''Navigation target must differ from its source tip''))
          else if targetId = None \<and> label \<noteq> None then Inl (SessionInvariant (js ''Root navigation cannot set a label''))
          else rbind (branchTip name) (\<lambda>tip.
               rbind (case (label, targetId) of (Some text, Some i) \<Rightarrow> rbind (entryLabel i) (\<lambda>a. Inr [setValue a (SText text)]) | _ \<Rightarrow> Inr []) (\<lambda>labels.
               rbind (operationCleanupWrites ops m operationId current) (\<lambda>cleanup.
               rbind (operationResultRecord meta Completed targetId None now) (\<lambda>record.
                 Inr (OpFinish ([setValue tip (STip targetId)] @ labels @ cleanup) record (tip_patch targetId) (\<lambda>_. Settled record)
                   (\<lambda>_. [on_lane name (NavigationEnd operationId (om_sourceTipId meta) targetId (or_endedAt record) Completed None)])))))))
      | _ \<Rightarrow> Inl WrongLeaf)"

end
