(* ===== verification/Drive_Terminal.thy ===== *)
theory Drive_Terminal
  imports Drive_Structural Drive_Response Lane_Props
begin

text \<open>
  How operations end: the eight decisions that finish one, as one relation, and what they have in common.
\<close>

section \<open>The results\<close>

lemma operationResultRecord_fields:
  assumes "operationResultRecord meta status tip error now = Inr result"
  shows "or_status result = status \<and> or_error result = error \<and> or_tipId result = tip \<and> or_operationId result = om_operationId meta \<and>
    or_kind result = intent_kind (om_intent meta) \<and> or_fromTipId result = om_sourceTipId meta \<and> or_startedAt result = om_startedAt meta \<and>
    (or_status result = Failed \<longleftrightarrow> or_error result \<noteq> None)"
  using assms by (auto simp: operationResultRecord_def split: if_splits)

lemma plan_finish_result:
  "plan_finish ops config name operationId final planned events followUp stepId now l current meta m = Inr (OpFinish ws result patch mat ev) \<Longrightarrow>
     operationResultRecord meta Completed (or_tipId result) None now = Inr result \<and> lp_tipId patch = Some (or_tipId result)"
  by (auto simp: plan_finish_def Let_def rbind_eq_Inr placement_patch_def operationResultRecord_def split: option.splits bool.splits prod.splits if_splits)

lemma plan_configuration_failure_result:
  "plan_configuration_failure ops name operationId error now l current meta m = Inr (OpFinish ws result patch mat ev) \<Longrightarrow>
     operationResultRecord meta Failed (ll_tipId l) (Some error) now = Inr result \<and> patch = no_patch"
  by (auto simp: plan_configuration_failure_def rbind_eq_Inr split: if_splits)

lemma plan_aborted_result:
  "plan_aborted ops name operationId now l current meta m = Inr (OpFinish ws result patch mat ev) \<Longrightarrow>
     is_cancelled current \<and> operationResultRecord meta Aborted (ll_tipId l) None now = Inr result \<and> patch = no_patch"
  by (auto simp: plan_aborted_def rbind_eq_Inr split: if_splits)

lemma plan_response_result:
  assumes "plan_response ops name operationId i u response overflow preparation retryable recovery toolIds now l current meta m = Inr (OpFinish ws result patch mat ev)"
  shows "\<not> is_cancelled current \<and> (\<exists>error. operationResultRecord meta Failed (Some i) (Some error) now = Inr result) \<and> patch = tip_patch (Some i)"
proof -
  from plan_response_decides [OF assms] obtain committed error where
    d: "dispose current i overflow (map_option fst preparation) (recovery \<or> retryable) toolIds now response = Inr (committed, Failure error)"
      "operationResultRecord meta Failed (Some i) (Some error) now = Inr result" by auto
  have "\<not> is_cancelled current" using d(1) by (auto simp: dispose_def Let_def)
  moreover have "patch = tip_patch (Some i)" using assms d(1) by (auto simp: plan_response_def rbind_eq_Inr Let_def)
  ultimately show ?thesis using d(2) by blast
qed

lemma plan_commit_navigation_result:
  "plan_commit_navigation ops name operationId now l current meta m = Inr (OpFinish ws result patch mat ev) \<Longrightarrow>
     \<exists>scope target label. current = NavigationReadyToCommit scope target label \<and> operationResultRecord meta Completed target None now = Inr result \<and> patch = tip_patch target"
  by (auto simp: plan_commit_navigation_def rbind_eq_Inr split: if_splits operation_state.splits)

text \<open>What the publication of an outcome ends with.\<close>

lemma structural_writes_parts:
  assumes "structural_writes name operationId outcome usageId l current task meta = Inr base"
  shows "outcome_kind_of outcome \<noteq> None \<Longrightarrow> \<exists>e. insertEntry e \<in> set (sb_writes base) \<and> sb_tipId base = Some (ne_id e)"
    "outcome_kind_of outcome = None \<Longrightarrow> sb_tipId base = ll_tipId l"
proof -
  show "\<exists>e. insertEntry e \<in> set (sb_writes base) \<and> sb_tipId base = Some (ne_id e)" if "outcome_kind_of outcome \<noteq> None"
  proof (cases outcome)
    case (CompactionOutcome i r h)
    then show ?thesis using assms
      by (auto simp: structural_writes_def Let_def rbind_eq_Inr compaction_entry_def intro: exI [of _ "compaction_entry i (ll_tipId l) r h"])
  next
    case (BranchSummaryOutcome i r h)
    then have "\<exists>target. insertEntry (branch_summary_entry i target (om_sourceTipId meta) r h) \<in> set (sb_writes base)" "sb_tipId base = Some i"
      using assms by (auto simp: structural_writes_def Let_def rbind_eq_Inr)
    then obtain target where "insertEntry (branch_summary_entry i target (om_sourceTipId meta) r h) \<in> set (sb_writes base)" "sb_tipId base = Some i" by blast
    moreover have "ne_id (branch_summary_entry i target (om_sourceTipId meta) r h) = i" by (simp add: branch_summary_entry_def)
    ultimately show ?thesis by metis
  qed (use that in \<open>simp_all add: outcome_kind_of_def\<close>)
  show "sb_tipId base = ll_tipId l" if "outcome_kind_of outcome = None"
    using that assms by (cases outcome) (auto simp: structural_writes_def Let_def outcome_kind_of_def)
qed

lemma outcome_kinds: "outcome_kind_of outcome = None \<or> outcome_kind_of outcome = Some KindCompaction \<or> outcome_kind_of outcome = Some KindBranchSummary"
  by (simp add: outcome_kind_of_def split: structural_outcome.split)

lemma outcome_statuses:
  "outcome_status outcome \<noteq> Aborted" "outcome_status outcome = Completed \<longleftrightarrow> outcome_kind_of outcome \<noteq> None"
  by (simp_all add: outcome_status_def outcome_kind_of_def split: structural_outcome.split)

lemma plan_structural_result:
  assumes "plan_structural ops config name operationId outcome usageId stepId now l current meta m = Inr (OpFinish ws result patch mat ev)"
  shows "\<exists>task. summary_task_of current = Some task \<and> or_tipId result = ll_tipId (patch_lane patch l) \<and> or_status result \<noteq> Aborted \<and>
    (\<exists>error. operationResultRecord meta (or_status result) (or_tipId result) error now = Inr result) \<and>
    (case st_boundary task of
       ResumeCheckpoint _ \<Rightarrow> or_status result = Failed
     | _ \<Rightarrow> or_status result = Completed \<longrightarrow> (\<exists>e. insertEntry e \<in> set ws \<and> or_tipId result = Some (ne_id e)))"
proof -
  from assms obtain task base where task: "summary_task_of current = Some task"
    and base: "structural_writes name operationId outcome usageId l current task meta = Inr base"
    and plan: "plan_boundary ops config name operationId outcome stepId now l current task meta base m = Inr (OpFinish ws result patch mat ev)"
    by (auto simp: plan_structural_def rbind_eq_Inr split: operation_state.splits option.splits if_splits)
  note parts = structural_writes_parts [OF base]
  have ws: "set (sb_writes base) \<subseteq> set ws"
    using plan
    by (auto simp: plan_boundary_def plan_resume_def plan_standalone_def plan_summarized_navigation_def Let_def rbind_eq_Inr split: result_boundary.splits if_splits)
  show ?thesis
  proof (cases "st_boundary task")
    case (ResumeCheckpoint cp)
    with plan have "\<exists>error. operationResultRecord meta Failed (ll_tipId l) (Some error) now = Inr result" "patch = no_patch"
      by (auto simp: plan_boundary_def plan_resume_def Let_def rbind_eq_Inr split: if_splits)
    then show ?thesis using task ResumeCheckpoint
      by (auto simp: operationResultRecord_def no_patch_def patch_lane_def split: if_splits)
  next
    case Finish
    with plan have r: "operationResultRecord meta (outcome_status outcome) (sb_tipId base) (outcome_error outcome) now = Inr result"
        "patch = (if outcome_kind_of outcome = Some KindCompaction then tip_patch (sb_tipId base) else no_patch)" "outcome_kind_of outcome \<noteq> Some KindBranchSummary"
      by (auto simp: plan_boundary_def plan_standalone_def Let_def rbind_eq_Inr split: if_splits)
    have "or_tipId result = ll_tipId (patch_lane patch l)"
      using r(2,3) parts(2) operationResultRecord_fields [OF r(1)] outcome_kinds [of outcome] by (auto simp: tip_patch_def no_patch_def patch_lane_def)
    moreover have "\<exists>e. insertEntry e \<in> set ws \<and> or_tipId result = Some (ne_id e)" if "or_status result = Completed"
      using that parts(1) ws operationResultRecord_fields [OF r(1)] outcome_statuses(2) [of outcome] by auto
    ultimately show ?thesis using task Finish r(1) operationResultRecord_fields [OF r(1)] outcome_statuses(1) [of outcome] by auto
  next
    case (CommitNavigation target label)
    with plan have r: "operationResultRecord meta (outcome_status outcome) (sb_tipId base) (outcome_error outcome) now = Inr result"
        "patch = (if outcome_kind_of outcome = Some KindBranchSummary then tip_patch (sb_tipId base) else no_patch)" "outcome_kind_of outcome \<noteq> Some KindCompaction"
      by (auto simp: plan_boundary_def plan_summarized_navigation_def Let_def rbind_eq_Inr split: if_splits)
    have "or_tipId result = ll_tipId (patch_lane patch l)"
      using r(2,3) parts(2) operationResultRecord_fields [OF r(1)] outcome_kinds [of outcome] by (auto simp: tip_patch_def no_patch_def patch_lane_def)
    moreover have "\<exists>e. insertEntry e \<in> set ws \<and> or_tipId result = Some (ne_id e)" if "or_status result = Completed"
      using that parts(1) ws operationResultRecord_fields [OF r(1)] outcome_statuses(2) [of outcome] by auto
    ultimately show ?thesis using task CommitNavigation r(1) operationResultRecord_fields [OF r(1)] outcome_statuses(1) [of outcome] by auto
  qed
qed

section \<open>The decisions that end an operation\<close>

lemma continue_finish:
  assumes "plan_continue plan l current meta m = Inr (OpFinish ws result patch mat ev)"
  shows "\<not> is_cancelled current \<and> (\<exists>mat'. plan l current meta m = Inr (OpFinish ws result patch mat' ev))"
proof (cases "plan l current meta m")
  case (Inr c)
  with assms show ?thesis by (cases c) (auto simp: plan_continue_def split: if_splits)
qed (use assms in \<open>auto simp: plan_continue_def split: if_splits\<close>)

text \<open>
  One rule for every place where a planner finishes an operation: the end of a run (\<^verbatim>\<open>boundary.ts\<close>), a missing model or tool and a failed response (\<^verbatim>\<open>response.ts\<close>), a
  cancelled operation (\<^verbatim>\<open>reconcile.ts\<close>), the three boundaries of a summary and a navigation without one (\<^verbatim>\<open>structural.ts\<close>). All but
  the response and the cancellation are decided under \<^verbatim>\<open>continueOperation\<close>, which does not ask the planner of a cancelled operation.
\<close>

inductive ends :: "'s storage_ops \<Rightarrow> live_lane \<Rightarrow> operation_state \<Rightarrow> operation_meta \<Rightarrow> 's mutation \<Rightarrow> store_write list \<Rightarrow> operation_result \<Rightarrow> lane_patch \<Rightarrow> bool"
  for ops l current meta m where
  run_boundary: "finish_continuation current = Inr final \<Longrightarrow>
    plan_continue (plan_finish ops config name operationId final planned (finish_events name operationId current at) followUp stepId now) l current meta m =
      Inr (OpFinish ws result patch mat ev) \<Longrightarrow> ends ops l current meta m ws result patch"
| configuration: "plan_continue (plan_configuration_failure ops name operationId problem now) l current meta m = Inr (OpFinish ws result patch mat ev) \<Longrightarrow>
    ends ops l current meta m ws result patch"
| response: "plan_response ops name operationId i u response overflow preparation retryable recovery toolIds now l current meta m = Inr (OpFinish ws result patch mat' ev) \<Longrightarrow>
    ends ops l current meta m ws result patch"
| cancellation: "plan_aborted ops name operationId now l current meta m = Inr (OpFinish ws result patch mat' ev) \<Longrightarrow> ends ops l current meta m ws result patch"
| structural: "plan_continue (plan_structural ops config name operationId outcome usageId stepId now) l current meta m = Inr (OpFinish ws result patch mat'' ev) \<Longrightarrow>
    ends ops l current meta m ws result patch"
| navigation: "plan_continue (plan_commit_navigation ops name operationId now) l current meta m = Inr (OpFinish ws result patch mat ev) \<Longrightarrow> ends ops l current meta m ws result patch"

text \<open>
  Where an operation may complete: a run at a checkpoint, or after a declined compaction, that lets it finish; a compaction or a navigation at its own boundary.
\<close>

definition may_complete :: "operation_state \<Rightarrow> bool" where
  "may_complete current =
     (case current of
        Checkpoint _ cp \<Rightarrow> cp_continuation cp \<in> range MayFinish
      | NavigationReadyToCommit _ _ _ \<Rightarrow> True
      | _ \<Rightarrow> (case summary_task_of current of
               Some task \<Rightarrow> (case st_boundary task of ResumeCheckpoint cp \<Rightarrow> cp_continuation cp \<in> range MayFinish | _ \<Rightarrow> True)
             | None \<Rightarrow> False))"

lemma finish_may_complete: "finish_continuation current = Inr final \<Longrightarrow> may_complete current"
  by (auto simp: finish_continuation_def may_complete_def split: operation_state.splits continuation.splits option.splits result_boundary.splits)

lemma summary_may_complete:
  "summary_task_of current = Some task \<Longrightarrow> (case st_boundary task of ResumeCheckpoint _ \<Rightarrow> False | _ \<Rightarrow> True) \<Longrightarrow> may_complete current"
  by (cases current) (auto simp: may_complete_def split: result_boundary.splits)

section \<open>The property\<close>

text \<open>
  C28. However an operation ends, by any of the eight decisions that finish one, its result agrees with its control and with the lane: it is aborted exactly when a stop was requested, it carries an error exactly
  when it failed, it belongs to the operation, has its kind and starts where it started, and its tip is the tip that the same commit leaves in the lane. It completes only at a leaf that lets it: a run at a
  boundary where it may finish, a compaction or a navigation at its own; and a compaction or a summarized navigation only with the commit of its entry, which is the new tip. Only these two can
  be declined.
\<close>

theorem terminal_status:
  assumes "ends ops l current meta m ws result patch"
  shows "(or_status result = Aborted \<longleftrightarrow> is_cancelled current) \<and> (or_status result = Failed \<longleftrightarrow> or_error result \<noteq> None) \<and>
    or_operationId result = om_operationId meta \<and> or_kind result = intent_kind (om_intent meta) \<and> or_fromTipId result = om_sourceTipId meta \<and>
    or_startedAt result = om_startedAt meta \<and> or_tipId result = ll_tipId (patch_lane patch l) \<and>
    (or_status result = Completed \<longrightarrow> may_complete current) \<and>
    (\<forall>task. summary_task_of current = Some task \<and> or_status result = Completed \<and> (\<nexists>cp. st_boundary task = ResumeCheckpoint cp) \<longrightarrow>
       (\<exists>e. insertEntry e \<in> set ws \<and> or_tipId result = Some (ne_id e))) \<and>
    (or_status result = Declined \<longrightarrow> (\<exists>task. summary_task_of current = Some task \<and> (\<nexists>cp. st_boundary task = ResumeCheckpoint cp)))"
  using assms
proof cases
  case (run_boundary final config name operationId planned at followUp stepId now mat ev)
  have "\<nexists>task. summary_task_of current = Some task \<and> (\<nexists>cp. st_boundary task = ResumeCheckpoint cp)"
    using run_boundary(1) by (cases current) (auto simp: finish_continuation_def split: option.splits result_boundary.splits)
  with continue_finish [OF run_boundary(2)] finish_may_complete [OF run_boundary(1)] show ?thesis
    by (auto dest!: plan_finish_result operationResultRecord_fields simp: patch_lane_def)
next
  case (configuration name operationId problem now mat ev)
  from continue_finish [OF this] show ?thesis
    by (auto dest!: plan_configuration_failure_result operationResultRecord_fields simp: patch_lane_def no_patch_def)
next
  case (response name operationId i u response overflow preparation retryable recovery toolIds now mat' ev)
  from plan_response_result [OF this] show ?thesis by (auto dest!: operationResultRecord_fields simp: patch_lane_def tip_patch_def no_patch_def)
next
  case (cancellation name operationId now mat' ev)
  from plan_aborted_result [OF this] show ?thesis by (auto dest!: operationResultRecord_fields simp: patch_lane_def no_patch_def)
next
  case (structural config name operationId outcome usageId stepId now mat'' ev)
  from continue_finish [OF structural] obtain mat' where run: "\<not> is_cancelled current"
    and p: "plan_structural ops config name operationId outcome usageId stepId now l current meta m = Inr (OpFinish ws result patch mat' ev)" by blast
  from plan_structural_result [OF p] obtain task error where
    t: "summary_task_of current = Some task" "or_tipId result = ll_tipId (patch_lane patch l)" "or_status result \<noteq> Aborted"
      "operationResultRecord meta (or_status result) (or_tipId result) error now = Inr result"
      "case st_boundary task of ResumeCheckpoint _ \<Rightarrow> or_status result = Failed
       | _ \<Rightarrow> or_status result = Completed \<longrightarrow> (\<exists>e. insertEntry e \<in> set ws \<and> or_tipId result = Some (ne_id e))" by blast
  note fields = operationResultRecord_fields [OF t(4)]
  show ?thesis
  proof (cases "\<exists>cp. st_boundary task = ResumeCheckpoint cp")
    case True
    with t(5) have "or_status result = Failed" by auto
    with run t(1,2) fields show ?thesis by auto
  next
    case False
    then have "may_complete current" "or_status result = Completed \<longrightarrow> (\<exists>e. insertEntry e \<in> set ws \<and> or_tipId result = Some (ne_id e))"
      using summary_may_complete [OF t(1)] t(5) by (auto split: result_boundary.splits)
    with run t(1-3) fields False show ?thesis by auto
  qed
next
  case (navigation name operationId now mat ev)
  from continue_finish [OF this] obtain mat' where run: "\<not> is_cancelled current"
    and p: "plan_commit_navigation ops name operationId now l current meta m = Inr (OpFinish ws result patch mat' ev)" by blast
  from plan_commit_navigation_result [OF p] run show ?thesis
    by (auto dest!: operationResultRecord_fields simp: patch_lane_def tip_patch_def no_patch_def may_complete_def)
qed

text \<open>A navigation to the root, which completes and leaves the lane there.\<close>

definition sample_navigation :: operation_state where
  "sample_navigation = NavigationReadyToCommit (starting sample_lane_config) None None"

definition sample_navigation_meta :: operation_meta where
  "sample_navigation_meta =
     \<lparr>om_operationId = js ''op1'', om_lane = js ''main'', om_sourceTipId = Some (js ''e1''), om_startedAt = 2, om_intent = NavigationIntent None False None None\<rparr>"

definition sample_navigation_decision :: "(session_error, procedure_result continue_result operation_command) res" where
  "sample_navigation_decision = plan_continue (plan_commit_navigation memory_ops (js ''main'') (js ''op1'') 5) (initial_lane (Some (js ''e1'')) sample_seed)
     sample_navigation sample_navigation_meta (new_mutation new_memory_storage)"

theorem terminal_status_witness:
  "case sample_navigation_decision of
     Inr (OpFinish _ result patch _ _) \<Rightarrow> or_status result \<noteq> Aborted \<and> or_operationId result = js ''op1'' \<and> or_kind result = KNavigation \<and>
       or_tipId result = ll_tipId (patch_lane patch (initial_lane (Some (js ''e1'')) sample_seed))
   | _ \<Rightarrow> False"
proof -
  have "case sample_navigation_decision of Inr (OpFinish _ _ _ _ _) \<Rightarrow> True | _ \<Rightarrow> False" by code_simp
  then obtain ws result patch mat ev where r: "sample_navigation_decision = Inr (OpFinish ws result patch mat ev)"
    by (auto split: sum.splits operation_command.splits)
  have "\<not> is_cancelled sample_navigation" by code_simp
  with terminal_status [OF ends.navigation [OF r [unfolded sample_navigation_decision_def]]] show ?thesis
    by (simp add: r sample_navigation_meta_def)
qed

end
