(* ===== verification/Drive_Tools.thy ===== *)
theory Drive_Tools
  imports Drive_Plans
begin

text \<open>
  Tool calls: the pure part of their execution (\<^verbatim>\<open>execution/tools.ts\<close>), the decisions about them on the mutation line (\<^verbatim>\<open>drive/tools.ts\<close>) and the placement of
  their results in the transcript (\<^verbatim>\<open>drive/tool-placement.ts\<close>). Running a tool and the hooks around it are the environment: what they give is an argument.
  So is \<^verbatim>\<open>validateToolArguments\<close>, which converts and checks arguments with the typebox library. Times are arguments.
\<close>

section \<open>Execution\<close>

record harness_tool =
  ht_name :: jstring
  ht_prepareArguments :: "((jstring \<times> json) list \<Rightarrow> (jstring, (jstring \<times> json) list) res) option"
  ht_replay :: "tool_replay option"

type_synonym validator = "harness_tool \<Rightarrow> tool_call_content \<Rightarrow> (jstring, (jstring \<times> json) list) res"

record cleared_tool_call =
  cl_toolCall :: tool_call_content
  cl_tool :: harness_tool
  cl_args :: "(jstring \<times> json) list"

record finalized_tool_call =
  fz_toolCall :: tool_call_content
  fz_result :: tool_result
  fz_isError :: bool
  fz_terminate :: bool

datatype tool_preparation = ImmediateOutcome finalized_tool_call | ClearedCall cleared_tool_call

record before_tool_decision =
  bd_args :: "(jstring \<times> json) list option"
  bd_block :: "(jstring \<times> bool option) option"

record after_tool_patch =
  ap_content :: "input_content list option"
  ap_details :: "json option"
  ap_isError :: "bool option"
  ap_usage :: "usage option"
  ap_terminate :: "bool option"

definition createErrorToolResult :: "jstring \<Rightarrow> tool_result" where
  "createErrorToolResult message =
     \<lparr>tlr_content = [text_block message], tlr_details = None, tlr_usage = None, tlr_addedToolNames = None, tlr_terminate = None\<rparr>"

definition immediateError :: "tool_call_content \<Rightarrow> jstring \<Rightarrow> bool \<Rightarrow> finalized_tool_call" where
  "immediateError toolCall message terminate =
     \<lparr>fz_toolCall = toolCall, fz_result = createErrorToolResult message, fz_isError = True, fz_terminate = terminate\<rparr>"

definition prepareToolCall :: "validator \<Rightarrow> tool_call_content \<Rightarrow> harness_tool list \<Rightarrow> tool_preparation" where
  "prepareToolCall validate call tools =
     (case find (\<lambda>candidate. ht_name candidate = tcall_name call) tools of
        None \<Rightarrow> ImmediateOutcome (immediateError call (js ''Tool '' @ stringify (Str (tcall_name call)) @ js '' is unavailable'') False)
      | Some tool \<Rightarrow>
          (case rbind (case ht_prepareArguments tool of None \<Rightarrow> Inr (tcall_arguments call) | Some prepare \<Rightarrow> prepare (tcall_arguments call))
                  (\<lambda>prepared. validate tool (call\<lparr>tcall_arguments := prepared\<rparr>)) of
             Inl message \<Rightarrow> ImmediateOutcome (immediateError call message False)
           | Inr args \<Rightarrow> ClearedCall \<lparr>cl_toolCall = call, cl_tool = tool, cl_args = args\<rparr>))"

definition applyBeforeToolDecision :: "validator \<Rightarrow> cleared_tool_call \<Rightarrow> before_tool_decision option \<Rightarrow> tool_preparation" where
  "applyBeforeToolDecision validate prepared decision =
     (case Option.bind decision bd_block of
        Some (reason, terminate) \<Rightarrow> ImmediateOutcome (immediateError (cl_toolCall prepared) reason (terminate = Some True))
      | None \<Rightarrow>
          (case Option.bind decision bd_args of
             None \<Rightarrow> ClearedCall prepared
           | Some replacement \<Rightarrow>
               (case validate (cl_tool prepared) ((cl_toolCall prepared)\<lparr>tcall_arguments := replacement\<rparr>) of
                  Inl message \<Rightarrow> ImmediateOutcome (immediateError (cl_toolCall prepared) message False)
                | Inr validatedArgs \<Rightarrow> ClearedCall (prepared\<lparr>cl_args := validatedArgs\<rparr>))))"

text \<open>A field of a patch that is given replaces the field of the result.\<close>

definition or_else :: "'a option \<Rightarrow> 'a option \<Rightarrow> 'a option" where
  "or_else a b = (case a of None \<Rightarrow> b | Some x \<Rightarrow> Some x)"

definition finalizeToolCall :: "tool_call_content \<Rightarrow> tool_result \<Rightarrow> bool \<Rightarrow> after_tool_patch option \<Rightarrow> finalized_tool_call" where
  "finalizeToolCall toolCall executed isError patch =
     (let result = (case patch of
          None \<Rightarrow> executed
        | Some p \<Rightarrow> executed\<lparr>tlr_content := (case ap_content p of None \<Rightarrow> tlr_content executed | Some c \<Rightarrow> c),
            tlr_details := or_else (ap_details p) (tlr_details executed), tlr_usage := or_else (ap_usage p) (tlr_usage executed),
            tlr_terminate := or_else (ap_terminate p) (tlr_terminate executed)\<rparr>) in
      \<lparr>fz_toolCall = toolCall, fz_result = result, fz_isError = (case Option.bind patch ap_isError of None \<Rightarrow> isError | Some e \<Rightarrow> e),
       fz_terminate = (tlr_terminate result = Some True)\<rparr>)"

definition toolResultFromMessage :: "tool_result_message \<Rightarrow> bool \<Rightarrow> tool_result" where
  "toolResultFromMessage message terminate =
     \<lparr>tlr_content = tr_content message, tlr_details = tr_details message, tlr_usage = tr_usage message,
      tlr_addedToolNames = tr_addedToolNames message, tlr_terminate = (if terminate then Some True else None)\<rparr>"

definition createToolResultMessage :: "finalized_tool_call \<Rightarrow> int \<Rightarrow> tool_result_message" where
  "createToolResultMessage call now =
     \<lparr>tr_toolCallId = tcall_id (fz_toolCall call), tr_toolName = tcall_name (fz_toolCall call), tr_content = tlr_content (fz_result call),
      tr_details = tlr_details (fz_result call), tr_usage = tlr_usage (fz_result call),
      tr_addedToolNames = (case tlr_addedToolNames (fz_result call) of Some (n # ns) \<Rightarrow> Some (n # ns) | _ \<Rightarrow> None),
      tr_isError = fz_isError call, tr_timestamp = now\<rparr>"

section \<open>Batches and outcomes\<close>

definition is_call :: "int \<Rightarrow> jstring \<Rightarrow> tool_call \<Rightarrow> bool" where
  "is_call sourceIndex resultEntryId call \<longleftrightarrow> tl_sourceIndex call = sourceIndex \<and> tl_resultEntryId call = resultEntryId"

definition findCall :: "tool_batch \<Rightarrow> int \<Rightarrow> jstring \<Rightarrow> tool_call option" where
  "findCall batch sourceIndex resultEntryId = find (is_call sourceIndex resultEntryId) (tb_calls batch)"

definition replaceCall :: "tool_batch \<Rightarrow> tool_call \<Rightarrow> tool_batch" where
  "replaceCall batch replacement =
     batch\<lparr>tb_calls := map (\<lambda>call. if is_call (tl_sourceIndex replacement) (tl_resultEntryId replacement) call then replacement else call) (tb_calls batch)\<rparr>"

definition withToolBatch :: "operation_state \<Rightarrow> tool_batch \<Rightarrow> operation_state" where
  "withToolBatch run batch = Tools (operationScopeOf run) batch"

record tool_outcome =
  oc_toolCall :: tool_call_content
  oc_message :: tool_result_message
  oc_terminate :: bool

definition syntheticMessage :: "tool_call_content \<Rightarrow> input_content list \<Rightarrow> json option \<Rightarrow> usage option \<Rightarrow> int \<Rightarrow> tool_result_message" where
  "syntheticMessage toolCall content details usage now =
     \<lparr>tr_toolCallId = tcall_id toolCall, tr_toolName = tcall_name toolCall, tr_content = content, tr_details = details, tr_usage = usage,
      tr_addedToolNames = None, tr_isError = True, tr_timestamp = now\<rparr>"

definition abortedOutcome :: "tool_call_content \<Rightarrow> int \<Rightarrow> tool_outcome" where
  "abortedOutcome toolCall now =
     \<lparr>oc_toolCall = toolCall,
      oc_message = syntheticMessage toolCall [text_block (js ''Tool execution was cancelled before completion.'')] None None now, oc_terminate = False\<rparr>"

definition INTERRUPTION_MARKER :: jstring where
  "INTERRUPTION_MARKER = js ''[Tool execution was interrupted. The preceding output is the latest durable progress snapshot; newer live output may be missing, and the external outcome is unknown.]''"

definition interruptedOutcome :: "tool_call_content \<Rightarrow> tool_result option \<Rightarrow> int \<Rightarrow> tool_outcome" where
  "interruptedOutcome toolCall checkpoint now =
     \<lparr>oc_toolCall = toolCall,
      oc_message = syntheticMessage toolCall ((case checkpoint of None \<Rightarrow> [] | Some r \<Rightarrow> tlr_content r) @ [text_block INTERRUPTION_MARKER])
        (Option.bind checkpoint tlr_details) (Option.bind checkpoint tlr_usage) now, oc_terminate = False\<rparr>"

definition truncatedOutcome :: "tool_call_content \<Rightarrow> int \<Rightarrow> tool_outcome" where
  "truncatedOutcome toolCall now =
     \<lparr>oc_toolCall = toolCall,
      oc_message = syntheticMessage toolCall [text_block (js ''Tool call '' @ stringify (Str (tcall_name toolCall)) @
        js '' was not executed because the assistant response hit the output token limit, so its arguments may be truncated. Re-issue the tool call with complete arguments.'')]
        None None now, oc_terminate = False\<rparr>"

definition outcomeFromFinalizedCall :: "finalized_tool_call \<Rightarrow> int \<Rightarrow> tool_outcome" where
  "outcomeFromFinalizedCall finalized now =
     \<lparr>oc_toolCall = fz_toolCall finalized, oc_message = createToolResultMessage finalized now, oc_terminate = fz_terminate finalized\<rparr>"

record tool_batch_source =
  ts_assistant :: assistant_message
  ts_calls :: "(int \<times> tool_call_content) list"

definition toolCallFor :: "tool_batch_source \<Rightarrow> tool_call \<Rightarrow> (session_error, tool_call_content) res" where
  "toolCallFor sources call =
     (case map_of (ts_calls sources) (tl_sourceIndex call) of None \<Rightarrow> Inl (ToolSourceInvalid (tl_sourceIndex call)) | Some source \<Rightarrow> Inr source)"

text \<open>What the hook before a tool gives: it was cut off by a stop, or a decision. A call that is not cleared has its outcome at once.\<close>

datatype gate_result = GateAborted | GateDecision "before_tool_decision option"

datatype tool_start = StartReady cleared_tool_call | StartOutcome tool_outcome

definition prepareToolInvocation ::
  "validator \<Rightarrow> tool_batch_source \<Rightarrow> tool_call \<Rightarrow> harness_tool list \<Rightarrow> (cleared_tool_call \<Rightarrow> gate_result) \<Rightarrow> int \<Rightarrow> (session_error, tool_start) res" where
  "prepareToolInvocation validate sources call tools before_tool now =
     rbind (toolCallFor sources call) (\<lambda>toolCall. Inr (
       if am_stopReason (ts_assistant sources) = StopLength then StartOutcome (truncatedOutcome toolCall now)
       else case prepareToolCall validate toolCall tools of
         ImmediateOutcome finalized \<Rightarrow> StartOutcome (outcomeFromFinalizedCall finalized now)
       | ClearedCall prepared \<Rightarrow>
           (case before_tool prepared of
              GateAborted \<Rightarrow> StartOutcome (abortedOutcome toolCall now)
            | GateDecision decision \<Rightarrow>
                (case applyBeforeToolDecision validate prepared decision of
                   ImmediateOutcome finalized \<Rightarrow> StartOutcome (outcomeFromFinalizedCall finalized now)
                 | ClearedCall cleared \<Rightarrow> StartReady cleared))))"

text \<open>Whether a call that was under way when the process stopped is run again.\<close>

definition replays_call :: "bool \<Rightarrow> tool_call \<Rightarrow> harness_tool option \<Rightarrow> bool" where
  "replays_call cancelled call tool \<longleftrightarrow> \<not> cancelled \<and> tl_status call = EffectPending ReplaySafe \<and> Option.bind tool ht_replay = Some ReplaySafe"

section \<open>Calls on the mutation line\<close>

definition plan_tool_intent ::
  "jstring \<Rightarrow> jstring \<Rightarrow> tool_call \<Rightarrow> tool_call_content \<Rightarrow> (jstring \<times> json) list \<Rightarrow> tool_replay \<Rightarrow> live_lane \<Rightarrow> operation_state \<Rightarrow> operation_meta \<Rightarrow> 's mutation \<Rightarrow>
     (session_error, tool_call operation_command) res" where
  "plan_tool_intent name operationId planned toolCall args replay state run meta m =
     (case run of
        Tools _ batch \<Rightarrow>
          let effectPending = planned\<lparr>tl_status := EffectPending replay\<rparr> in
          rbind (operationToolArgs operationId (tb_turnId batch) (tl_sourceIndex planned)) (\<lambda>address.
            Inr (OpCommit [setValue address (SArgs args)] (withToolBatch run (replaceCall batch effectPending)) no_patch (\<lambda>_. effectPending)
              (\<lambda>_. [on_lane name (ToolStart operationId (tb_turnId batch) (tcall_id toolCall) (tcall_name toolCall) (Obj args))])))
      | _ \<Rightarrow> Inl WrongLeaf)"

definition plan_tool_outcome ::
  "'s storage_ops \<Rightarrow> jstring \<Rightarrow> jstring \<Rightarrow> tool_call \<Rightarrow> tool_outcome \<Rightarrow> live_lane \<Rightarrow> operation_state \<Rightarrow> operation_meta \<Rightarrow> 's mutation \<Rightarrow>
     (session_error, unit operation_command) res" where
  "plan_tool_outcome ops name operationId call finalized state run meta m =
     (case run of
        Tools _ batch \<Rightarrow>
          let toolCall = oc_toolCall finalized;
              durableTerminate = (\<not> is_cancelled run \<and> oc_terminate finalized);
              outcome = call\<lparr>tl_status := OutcomeReady durableTerminate\<rparr> in
          rbind (scan_prefix ops m (operationToolMemoPrefix operationId (Some (tl_resultEntryId call)))) (\<lambda>memos.
          rbind (pendingEntry (tl_resultEntryId call)) (\<lambda>staged.
          rbind (pendingToolOutput operationId (tl_resultEntryId call)) (\<lambda>output.
            Inr (OpCommit ([setValue staged (SPending (PendingMessage (Llm (ToolResultMsg (oc_message finalized))))), deleteValue output] @ memos)
              (withToolBatch run (replaceCall batch outcome)) no_patch (\<lambda>_. ())
              (\<lambda>_. map (on_lane name)
                 ((if tl_status call = Planned
                   then [ToolStart operationId (tb_turnId batch) (tcall_id toolCall) (tcall_name toolCall) (Obj (tcall_arguments toolCall))] else []) @
                  [ToolEnd operationId (tb_turnId batch) (tcall_id toolCall) (tcall_name toolCall) (toolResultFromMessage (oc_message finalized) durableTerminate)
                     (tr_isError (oc_message finalized)) durableTerminate]))))))
      | _ \<Rightarrow> Inl WrongLeaf)"

definition as_args :: "sval \<Rightarrow> (jstring \<times> json) list option" where
  "as_args v = (case v of SArgs args \<Rightarrow> Some args | _ \<Rightarrow> None)"

definition plan_clear_replay ::
  "'s storage_ops \<Rightarrow> jstring \<Rightarrow> jstring \<Rightarrow> tool_batch \<Rightarrow> tool_call \<Rightarrow> tool_call_content \<Rightarrow> live_lane \<Rightarrow> 's mutation \<Rightarrow>
     (session_error, (jstring \<times> json) list lane_command) res" where
  "plan_clear_replay ops name operationId batch call toolCall state m =
     rbind (read_typed ops m as_args (operationToolArgs operationId (tb_turnId batch) (tl_sourceIndex call))) (\<lambda>stored.
       case stored of
         None \<Rightarrow> Inl (ToolArgsMissing (tl_resultEntryId call))
       | Some args \<Rightarrow>
           rbind (pendingToolOutput operationId (tl_resultEntryId call)) (\<lambda>output.
             Inr (CommitCmd [deleteValue output] state (\<lambda>_. args)
               (\<lambda>_. [on_lane name (ToolStart operationId (tb_turnId batch) (tcall_id toolCall) (tcall_name toolCall) (Obj args))]))))"

section \<open>Placement of results\<close>

definition readToolBatchSource :: "'s storage_ops \<Rightarrow> tool_batch \<Rightarrow> live_lane \<Rightarrow> 's mutation \<Rightarrow> (session_error, tool_batch_source lane_command) res" where
  "readToolBatchSource ops batch state m =
     rbind (mutation_getEntries ops m [tb_assistantEntryId batch]) (\<lambda>entries.
       case Option.bind (map_of entries (tb_assistantEntryId batch)) (\<lambda>e. case ne_body e of MessageBody (Llm (AssistantMsg a)) _ \<Rightarrow> Some a | _ \<Rightarrow> None) of
         None \<Rightarrow> Inl ToolBatchInvalid
       | Some assistant \<Rightarrow>
           rbind (read_each (\<lambda>call.
               let i = tl_sourceIndex call in
               if i < 0 \<or> int (length (am_content assistant)) \<le> i then Inl (ToolSourceInvalid i)
               else case am_content assistant ! nat i of AsToolCall block \<Rightarrow> Inr (i, block) | _ \<Rightarrow> Inl (ToolSourceInvalid i)) (tb_calls batch)) (\<lambda>calls.
             Inr (ReturnCmd \<lparr>ts_assistant = assistant, ts_calls = foldl (\<lambda>m (i, block). AList.update i block m) [] calls\<rparr>)))"

record placement_item =
  pi_call :: tool_call
  pi_terminate :: bool
  pi_message :: tool_result_message

record placement_read =
  pr_items :: "placement_item list"
  pr_turnResults :: "tool_result_message list option"

definition is_completed :: "tool_call \<Rightarrow> bool" where
  "is_completed call = (case tl_status call of CallCompleted _ \<Rightarrow> True | _ \<Rightarrow> False)"

text \<open>The calls whose results are placed next: the ready ones right after the first that is not completed, up to the first that is not ready.\<close>

fun take_ready :: "tool_call list \<Rightarrow> (tool_call \<times> bool) list" where
  "take_ready [] = []"
| "take_ready (call # calls) = (case tl_status call of OutcomeReady terminate \<Rightarrow> (call, terminate) # take_ready calls | _ \<Rightarrow> [])"

definition ready_calls :: "tool_call list \<Rightarrow> (tool_call \<times> bool) list" where
  "ready_calls calls = take_ready (dropWhile is_completed calls)"

definition as_tool_result :: "agent_message \<Rightarrow> tool_result_message option" where
  "as_tool_result message = (case message of Llm (ToolResultMsg r) \<Rightarrow> Some r | _ \<Rightarrow> None)"

definition read_item :: "'s storage_ops \<Rightarrow> tool_batch_source \<Rightarrow> 's mutation \<Rightarrow> tool_call \<times> bool \<Rightarrow> (session_error, placement_item) res" where
  "read_item ops sources m = (\<lambda>(call, terminate).
     rbind (read_typed ops m as_pending (pendingEntry (tl_resultEntryId call))) (\<lambda>stored.
       case Option.bind stored (\<lambda>p. case p of PendingMessage message \<Rightarrow> as_tool_result message | _ \<Rightarrow> None) of
         None \<Rightarrow> Inl (StagedResultMissing (tl_resultEntryId call))
       | Some message \<Rightarrow>
           rbind (toolCallFor sources call) (\<lambda>source.
             if tr_toolCallId message \<noteq> tcall_id source \<or> tr_toolName message \<noteq> tcall_name source then Inl (StagedResultMismatch (tl_resultEntryId call))
             else Inr \<lparr>pi_call = call, pi_terminate = terminate, pi_message = message\<rparr>)))"

definition turn_result :: "(jstring \<times> entry) list \<Rightarrow> placement_item list \<Rightarrow> tool_call \<Rightarrow> (session_error, tool_result_message) res" where
  "turn_result placed items call =
     (case map_of (rev (map (\<lambda>item. (tl_resultEntryId (pi_call item), pi_message item)) items)) (tl_resultEntryId call) of
        Some message \<Rightarrow> Inr message
      | None \<Rightarrow>
          (case Option.bind (map_of placed (tl_resultEntryId call)) (\<lambda>e. case ne_body e of MessageBody message _ \<Rightarrow> as_tool_result message | _ \<Rightarrow> None) of
             Some message \<Rightarrow> Inr message
           | None \<Rightarrow> Inl (SessionInvariant (js ''Completed tool call '' @ tl_resultEntryId call @ js '' is missing its result entry''))))"

definition readPlacement :: "'s storage_ops \<Rightarrow> tool_batch_source \<Rightarrow> live_lane \<Rightarrow> 's mutation \<Rightarrow> (session_error, placement_read option lane_command) res" where
  "readPlacement ops sources state m =
     (case map_option op_state (ll_operation state) of
        Some (Tools _ current) \<Rightarrow>
          let calls = tb_calls current; ready = ready_calls calls in
          if ready = [] then Inr (ReturnCmd None)
          else rbind (read_each (read_item ops sources m) ready) (\<lambda>items.
               if length (takeWhile is_completed calls) + length ready = length calls then
                 rbind (mutation_getEntries ops m (map tl_resultEntryId (filter is_completed calls))) (\<lambda>placed.
                 rbind (read_each (turn_result placed items) calls) (\<lambda>results.
                   Inr (ReturnCmd (Some \<lparr>pr_items = items, pr_turnResults = Some results\<rparr>))))
               else Inr (ReturnCmd (Some \<lparr>pr_items = items, pr_turnResults = None\<rparr>)))
      | _ \<Rightarrow> Inr (ReturnCmd None))"

definition placed_entry :: "jstring option \<Rightarrow> placement_item \<Rightarrow> new_entry" where
  "placed_entry parentId item =
     \<lparr>ne_id = tl_resultEntryId (pi_call item), ne_parentId = parentId, ne_customType = None,
      ne_body = MessageBody (Llm (ToolResultMsg (pi_message item))) (pi_terminate item)\<rparr>"

definition usage_row_of :: "jstring \<Rightarrow> placement_item \<Rightarrow> usage \<Rightarrow> new_usage_row" where
  "usage_row_of usageId item usage =
     \<lparr>ur_id = usageId, ur_usage = usage, ur_entryId = Some (tl_resultEntryId (pi_call item)), ur_adjustment = False, ur_details = None\<rparr>"

text \<open>
  The writes of the items, with the events that each leads to; \<open>n\<close> is the number of writes before. The result ids of a batch are distinct, so the usage row of an entry is
  the one written with it.
\<close>

fun placement_writes ::
  "jstring option \<Rightarrow> nat \<Rightarrow> (placement_item \<times> jstring option) list \<Rightarrow> (session_error, store_write list \<times> (commit_result \<Rightarrow> harness_payload list)) res" where
  "placement_writes parentId n [] = Inr ([], \<lambda>_. [])"
| "placement_writes parentId n ((item, usageId) # items) =
     rbind (pendingEntry (tl_resultEntryId (pi_call item))) (\<lambda>staged.
       let entry = placed_entry parentId item;
           rows = (case (usageId, tr_usage (pi_message item)) of (Some u, Some usage) \<Rightarrow> [usage_row_of u item usage] | _ \<Rightarrow> []);
           writes = [insertEntry entry, deleteValue staged] @ map insertUsage rows in
       rbind (placement_writes (Some (tl_resultEntryId (pi_call item))) (n + length writes) items) (\<lambda>(more, events).
         Inr (writes @ more,
           \<lambda>commit. [EntryAdded (materializeCommittedEntry entry (cr_seqs commit ! n) (cr_timestamp commit))] @
             map (\<lambda>row. UsageRecorded \<lparr>ur_id = ur_id row, ur_usage = ur_usage row, ur_entryId = ur_entryId row, ur_adjustment = ur_adjustment row,
               ur_details = ur_details row, ur_seq = cr_seqs commit ! (n + 2)\<rparr> (ss_usage (cr_stats commit))) rows @ events commit)))"

definition complete_call :: "placement_item list \<Rightarrow> tool_call \<Rightarrow> tool_call" where
  "complete_call items call =
     (case find (\<lambda>candidate. is_call (tl_sourceIndex call) (tl_resultEntryId call) (pi_call candidate)) items of
        None \<Rightarrow> call
      | Some item \<Rightarrow> call\<lparr>tl_status := CallCompleted (pi_terminate item)\<rparr>)"

text \<open>Tools that results make available, each once, in the order they are named.\<close>

definition added_names :: "jstring list \<Rightarrow> placement_item list \<Rightarrow> jstring list" where
  "added_names active items =
     foldl (\<lambda>added name. if name \<in> set active \<or> name \<in> set added then added else added @ [name]) []
       (concat (map (\<lambda>item. case tr_addedToolNames (pi_message item) of None \<Rightarrow> [] | Some names \<Rightarrow> names) items))"

definition after_batch :: "operation_scope \<Rightarrow> tool_call list \<Rightarrow> jstring \<Rightarrow> operation_state" where
  "after_batch scope calls triggerEntryId =
     Checkpoint scope
       \<lparr>cp_continuation = (if \<forall>call\<in>set calls. tl_status call = CallCompleted True then MayFinish False else NeedAssistant False),
        cp_triggerEntryId = triggerEntryId\<rparr>"

text \<open>A placement has items, so there is a tip after it.\<close>

definition plan_placement ::
  "'s storage_ops \<Rightarrow> jstring \<Rightarrow> jstring \<Rightarrow> jstring \<Rightarrow> placement_item list \<Rightarrow> jstring option list \<Rightarrow>
     live_lane \<Rightarrow> operation_state \<Rightarrow> operation_meta \<Rightarrow> 's mutation \<Rightarrow> (session_error, bool operation_command) res" where
  "plan_placement ops name operationId turnId items usageIds state run meta m =
     (case run of
        Tools scope current \<Rightarrow>
          rbind (placement_writes (ll_tipId state) 0 (zip items usageIds)) (\<lambda>(writes, events).
          let parentId = (if items = [] then ll_tipId state else Some (tl_resultEntryId (pi_call (last items))));
              completedCalls = map (complete_call items) (tb_calls current);
              complete = (\<forall>call\<in>set completedCalls. is_completed call);
              before = ll_configuration state;
              added = added_names (lc_activeToolNames before) items;
              configuration = (if added = [] then before else before\<lparr>lc_activeToolNames := lc_activeToolNames before @ added\<rparr>) in
          rbind (if added = [] then Inr [] else rbind (laneConfig name) (\<lambda>a. Inr [setValue a (SConfig configuration)])) (\<lambda>config.
          rbind (branchTip name) (\<lambda>tip.
          rbind (if complete then scan_prefix ops m (operationToolArgsPrefix operationId (Some turnId)) else Inr []) (\<lambda>args.
          rbind (case (complete, parentId) of
                   (False, _) \<Rightarrow> Inr (withToolBatch run (current\<lparr>tb_calls := completedCalls\<rparr>))
                 | (True, Some trigger) \<Rightarrow> Inr (after_batch scope completedCalls trigger)
                 | (True, None) \<Rightarrow> Inl WrongLeaf) (\<lambda>nextRun.
            Inr (OpCommit (writes @ config @ [setValue tip (STip parentId)] @ args) nextRun
              \<lparr>lp_tipId = Some parentId, lp_configuration = Some configuration, lp_inbox = None\<rparr> (\<lambda>_. complete)
              (\<lambda>commit. map (on_lane name) (events commit @
                 (if added = [] then [] else [ConfigUpdate (ActiveToolsChange (lc_activeToolNames before) (lc_activeToolNames configuration))])))))))))
      | _ \<Rightarrow> Inl WrongLeaf)"

text \<open>New ids for the usage of the items that have some, from a supply.\<close>

fun usage_ids :: "(nat \<Rightarrow> jstring) \<Rightarrow> nat \<Rightarrow> placement_item list \<Rightarrow> jstring option list" where
  "usage_ids supply n [] = []"
| "usage_ids supply n (item # items) =
     (case tr_usage (pi_message item) of
        None \<Rightarrow> None # usage_ids supply n items
      | Some _ \<Rightarrow> Some (supply n) # usage_ids supply (n + 1) items)"

definition commitPlacement ::
  "'s storage_ops \<Rightarrow> jstring \<Rightarrow> jstring \<Rightarrow> jstring \<Rightarrow> placement_read \<Rightarrow> (nat \<Rightarrow> jstring) \<Rightarrow> int \<Rightarrow> 's harness \<Rightarrow> 's harness \<times> (lane_throw, bool) res" where
  "commitPlacement ops name operationId turnId read supply now h =
     settleOperation ops name now (plan_placement ops name operationId turnId (pr_items read) (usage_ids supply 0 (pr_items read))) h"

definition materializeReady ::
  "'s storage_ops \<Rightarrow> jstring \<Rightarrow> jstring \<Rightarrow> jstring \<Rightarrow> tool_batch_source \<Rightarrow> (nat \<Rightarrow> jstring) \<Rightarrow> int \<Rightarrow> 's harness \<Rightarrow> 's harness \<times> (lane_throw, unit) res" where
  "materializeReady ops name operationId turnId sources supply now h =
     (case command ops name now (readPlacement ops sources) h of
        (h1, Inl e) \<Rightarrow> (h1, Inl e)
      | (h1, Inr None) \<Rightarrow> (h1, Inr ())
      | (h1, Inr (Some read)) \<Rightarrow>
          (case commitPlacement ops name operationId turnId read supply now
                  (emit (concat (map (\<lambda>item. let message = Llm (ToolResultMsg (pi_message item)) in
                     map (on_lane name) [MessageStart (Some operationId) message,
                       MessageEnd (Some operationId) message (Some (tl_resultEntryId (pi_call item)))]) (pr_items read))) h1) of
             (h2, Inl e) \<Rightarrow> (h2, Inl e)
           | (h2, Inr complete) \<Rightarrow>
               (case (complete, pr_turnResults read) of
                  (True, Some results) \<Rightarrow> (emit [on_lane name (TurnEnd operationId turnId (ts_assistant sources) results)] h2, Inr ())
                | _ \<Rightarrow> (h2, Inr ()))))"

end
