(* ===== verification/Drive_Batch.thy ===== *)
theory Drive_Batch
  imports Drive_Settle Drive_Tools
begin

text \<open>
  The order of results. The calls of a batch may run in parallel, and a placement reads the ready results in one command and commits them in another, with outcomes of
  other calls in between. The step relation has all of these interleavings, and stops of the process; the results are placed in the order of the calls in each.
\<close>

section \<open>Steps of a batch\<close>

text \<open>
  A state has the stored leaf, the items of the placement that is under way (none if empty), and the ids of the entries inserted so far. The commits are those the planners
  decide on, in whatever state the rest of the lane and its storage are in: a job publishes the intent and the outcome of its own call, a placement commits what it read,
  placements follow one another, a stop may be requested at any time, and the end of the process loses the placement under way.
\<close>

type_synonym batch_state = "operation_state \<times> placement_item list \<times> jstring list"

inductive batch_step :: "batch_state \<Rightarrow> batch_state \<Rightarrow> bool" where
  intent: "call \<in> set (tb_calls batch) \<Longrightarrow> tl_status call = Planned \<Longrightarrow>
    plan_tool_intent name operationId call toolCall args replay l (Tools scope batch) meta (m :: memory_storage mutation) = Inr (OpCommit ws state patch mat ev) \<Longrightarrow>
    batch_step (Tools scope batch, items, placed) (state, items, placed @ new_entry_ids ws)"
| outcome: "call \<in> set (tb_calls batch) \<Longrightarrow> tl_status call = Planned \<or> tl_status call = EffectPending replay \<Longrightarrow>
    plan_tool_outcome memory_ops name operationId call finalized l (Tools scope batch) meta m = Inr (OpCommit ws state patch mat ev) \<Longrightarrow>
    batch_step (Tools scope batch, items, placed) (state, items, placed @ new_entry_ids ws)"
| read: "map_option op_state (ll_operation l) = Some (Tools scope batch) \<Longrightarrow> readPlacement memory_ops sources l m = Inr (ReturnCmd (Some result)) \<Longrightarrow>
    batch_step (Tools scope batch, [], placed) (Tools scope batch, pr_items result, placed)"
| commit: "items \<noteq> [] \<Longrightarrow>
    plan_placement memory_ops name operationId turnId items (usage_ids supply 0 items) l (Tools scope batch) meta m = Inr (OpCommit ws state patch mat ev) \<Longrightarrow>
    batch_step (Tools scope batch, items, placed) (state, [], placed @ new_entry_ids ws)"
| control: "batch_step (Tools scope batch, items, placed) (Tools scope' batch, items, placed)"
| stop: "batch_step (state, items, placed) (state, [], placed)"

section \<open>What the planners commit\<close>

lemma scan_prefix_entries: "scan_prefix ops m a = Inr ds \<Longrightarrow> new_entry_ids ds = []"
  by (auto simp: scan_prefix_def rbind_eq_Inr deleteValue_def is_delete_def intro!: delete_writes(2))

lemma intent_commit:
  assumes "plan_tool_intent name operationId call toolCall args replay l (Tools scope batch) meta m = Inr (OpCommit ws state patch mat ev)"
  shows "state = Tools scope (replaceCall batch (call\<lparr>tl_status := EffectPending replay\<rparr>)) \<and> new_entry_ids ws = []"
  using assms by (auto simp: plan_tool_intent_def Let_def rbind_eq_Inr withToolBatch_def setValue_def)

lemma outcome_commit:
  assumes "plan_tool_outcome ops name operationId call finalized l (Tools scope batch) meta m = Inr (OpCommit ws state patch mat ev)"
  shows "\<exists>t. state = Tools scope (replaceCall batch (call\<lparr>tl_status := OutcomeReady t\<rparr>)) \<and> new_entry_ids ws = []"
  using assms by (auto simp: plan_tool_outcome_def Let_def rbind_eq_Inr withToolBatch_def setValue_def deleteValue_def dest: scan_prefix_entries)

lemma placement_entries:
  assumes "placement_writes parentId n (zip items usageIds) = Inr (ws, ev)" "length usageIds = length items"
  shows "new_entry_ids ws = map (\<lambda>item. tl_resultEntryId (pi_call item)) items"
  using assms
proof (induction items arbitrary: parentId n usageIds ws ev)
  case (Cons item items)
  then show ?case
    by (cases usageIds) (auto simp: rbind_eq_Inr Let_def insertEntry_def deleteValue_def insertUsage_def placed_entry_def split: option.splits)
qed simp

lemma length_usage_ids [simp]: "length (usage_ids supply n items) = length items"
  by (induction items arbitrary: n) (simp_all split: option.split)

lemma placement_commit:
  assumes "plan_placement ops name operationId turnId items (usage_ids supply 0 items) l (Tools scope batch) meta m = Inr (OpCommit ws state patch mat ev)"
  defines "calls \<equiv> map (complete_call items) (tb_calls batch)"
  shows "new_entry_ids ws = map (\<lambda>item. tl_resultEntryId (pi_call item)) items \<and>
    (if \<forall>call\<in>set calls. is_completed call then \<exists>trigger. state = after_batch scope calls trigger else state = Tools scope (batch\<lparr>tb_calls := calls\<rparr>))"
proof -
  show ?thesis
    using assms(1) unfolding calls_def
    by (auto simp: plan_placement_def Let_def rbind_eq_Inr withToolBatch_def setValue_def dest!: placement_entries [OF _ length_usage_ids]
        dest: scan_prefix_entries split: if_splits option.splits bool.splits)
qed

lemma read_each_map:
  assumes "read_each f xs = Inr ys" "\<And>x y. f x = Inr y \<Longrightarrow> g y = x"
  shows "map g ys = xs"
  using assms(1)
proof (induction xs arbitrary: ys)
  case (Cons x xs)
  then show ?case by (auto simp: rbind_eq_Inr assms(2))
qed simp

lemma read_ready:
  assumes "map_option op_state (ll_operation l) = Some (Tools scope batch)" "readPlacement ops sources l m = Inr (ReturnCmd (Some read))"
  shows "map (\<lambda>item. (pi_call item, pi_terminate item)) (pr_items read) = ready_calls (tb_calls batch)"
proof -
  have "read_each (read_item ops sources m) (ready_calls (tb_calls batch)) = Inr (pr_items read)"
    using assms by (auto simp: readPlacement_def Let_def rbind_eq_Inr split: if_splits)
  then show ?thesis
    by (rule read_each_map) (auto simp: read_item_def rbind_eq_Inr split: option.splits if_splits prod.splits)
qed

section \<open>Completed calls are a prefix\<close>

text \<open>A batch splits into the completed calls, those of the placement under way, and the rest; the placed ids are those of the first part.\<close>

definition in_order :: "jstring list \<Rightarrow> tool_call list \<Rightarrow> placement_item list \<Rightarrow> jstring list \<Rightarrow> bool" where
  "in_order ids calls items placed \<longleftrightarrow> (\<exists>finished reading rest.
     calls = finished @ reading @ rest \<and> map tl_resultEntryId calls = ids \<and> map pi_call items = reading \<and>
     (\<forall>item\<in>set items. tl_status (pi_call item) = OutcomeReady (pi_terminate item)) \<and>
     (\<forall>call\<in>set finished. is_completed call) \<and> (\<forall>call\<in>set rest. \<not> is_completed call) \<and> placed = map tl_resultEntryId finished)"

lemma in_orderE:
  assumes "in_order ids calls items placed"
  obtains finished reading rest where "calls = finished @ reading @ rest" "map tl_resultEntryId calls = ids" "map pi_call items = reading"
    "\<forall>item\<in>set items. tl_status (pi_call item) = OutcomeReady (pi_terminate item)" "\<forall>call\<in>set finished. is_completed call"
    "\<forall>call\<in>set rest. \<not> is_completed call" "placed = map tl_resultEntryId finished"
  using assms by (auto simp: in_order_def)

text \<open>The batch is in order, or over with all results placed.\<close>

definition batch_ok :: "jstring list \<Rightarrow> batch_state \<Rightarrow> bool" where
  "batch_ok ids = (\<lambda>(state, items, placed).
     case state of Tools _ batch \<Rightarrow> in_order ids (tb_calls batch) items placed | Checkpoint _ _ \<Rightarrow> placed = ids | _ \<Rightarrow> False)"

lemma take_ready_split:
  "\<exists>reading rest. calls = reading @ rest \<and> map fst (take_ready calls) = reading \<and> (\<forall>(call, t)\<in>set (take_ready calls). tl_status call = OutcomeReady t)"
proof (induction calls)
  case (Cons call calls)
  then obtain reading rest where "calls = reading @ rest" "map fst (take_ready calls) = reading"
    "\<forall>(call, t)\<in>set (take_ready calls). tl_status call = OutcomeReady t" by blast
  then show ?case by (cases "tl_status call") (auto intro: exI [of _ "call # reading"])
qed simp

lemma ready_calls_split:
  assumes "\<forall>call\<in>set finished. is_completed call" "\<forall>call\<in>set rest. \<not> is_completed call"
  shows "ready_calls (finished @ rest) = take_ready rest"
proof -
  have "dropWhile is_completed rest = rest" using assms(2) by (cases rest) auto
  then show ?thesis using assms(1) by (simp add: ready_calls_def dropWhile_append2)
qed

text \<open>Calls are told apart by their result ids.\<close>

lemma same_call: "distinct (map tl_resultEntryId calls) \<Longrightarrow> c \<in> set calls \<Longrightarrow> c' \<in> set calls \<Longrightarrow> is_call (tl_sourceIndex c) (tl_resultEntryId c) c' \<longleftrightarrow> c' = c"
  by (auto simp: is_call_def distinct_map dest: inj_onD)

lemma replaceCall_calls:
  assumes "distinct (map tl_resultEntryId (tb_calls batch))" "call \<in> set (tb_calls batch)"
  shows "tb_calls (replaceCall batch (call\<lparr>tl_status := s\<rparr>)) = map (\<lambda>c. if c = call then call\<lparr>tl_status := s\<rparr> else c) (tb_calls batch)"
  using assms by (auto simp: replaceCall_def same_call)

lemma complete_call_calls:
  assumes "distinct (map tl_resultEntryId calls)" "set (map pi_call items) \<subseteq> set calls" "c \<in> set calls"
    "\<forall>item\<in>set items. tl_status (pi_call item) = OutcomeReady (pi_terminate item)"
  shows "complete_call items c = (case tl_status c of OutcomeReady t \<Rightarrow> if c \<in> set (map pi_call items) then c\<lparr>tl_status := CallCompleted t\<rparr> else c | _ \<Rightarrow> c)"
proof -
  have same: "is_call (tl_sourceIndex c) (tl_resultEntryId c) (pi_call item) \<longleftrightarrow> pi_call item = c" if "item \<in> set items" for item
    using same_call [OF assms(1,3)] assms(2) that by auto
  show ?thesis
  proof (cases "find (\<lambda>candidate. is_call (tl_sourceIndex c) (tl_resultEntryId c) (pi_call candidate)) items")
    case None
    then have "c \<notin> set (map pi_call items)" using same by (auto simp: find_None_iff)
    then show ?thesis by (simp add: complete_call_def None split: tool_call_status.split)
  next
    case (Some item)
    then have "item \<in> set items" "pi_call item = c" using same by (auto simp: find_Some_iff)
    then show ?thesis using assms(4) by (auto simp: complete_call_def Some)
  qed
qed

lemma complete_call_split:
  assumes "distinct (map tl_resultEntryId (finished @ reading @ rest))" "map pi_call items = reading"
    "\<forall>item\<in>set items. tl_status (pi_call item) = OutcomeReady (pi_terminate item)"
  shows "map (complete_call items) (finished @ reading @ rest) = finished @ map (complete_call items) reading @ rest"
    "\<forall>call\<in>set reading. is_completed (complete_call items call)" "map tl_resultEntryId (map (complete_call items) reading) = map tl_resultEntryId reading"
proof -
  have c: "complete_call items c = (case tl_status c of OutcomeReady t \<Rightarrow> if c \<in> set reading then c\<lparr>tl_status := CallCompleted t\<rparr> else c | _ \<Rightarrow> c)"
    if "c \<in> set (finished @ reading @ rest)" for c
    by (rule complete_call_calls [OF assms(1) _ that assms(3), unfolded assms(2)]) auto
  have "c \<notin> set reading" if "c \<in> set finished \<union> set rest" for c using assms(1) that by auto
  then have "complete_call items c = c" if "c \<in> set finished \<union> set rest" for c using c [of c] that by (auto split: tool_call_status.splits)
  then show "map (complete_call items) (finished @ reading @ rest) = finished @ map (complete_call items) reading @ rest" by (simp add: map_idI)
  have r: "\<exists>t. complete_call items c = c\<lparr>tl_status := CallCompleted t\<rparr>" if "c \<in> set reading" for c
    using c [of c] that assms(2,3) by (auto split: tool_call_status.splits)
  then show "\<forall>call\<in>set reading. is_completed (complete_call items call)" by (force simp: is_completed_def)
  show "map tl_resultEntryId (map (complete_call items) reading) = map tl_resultEntryId reading" using r by force
qed

lemma in_order_replace:
  assumes o: "in_order ids (tb_calls batch) items placed" and d: "distinct ids" and call: "call \<in> set (tb_calls batch)"
    and open_call: "\<not> is_completed call" "\<forall>t. tl_status call \<noteq> OutcomeReady t" and new: "\<not> is_completed (call\<lparr>tl_status := s\<rparr>)"
  shows "in_order ids (tb_calls (replaceCall batch (call\<lparr>tl_status := s\<rparr>))) items placed"
proof -
  from o obtain finished reading rest where
    b: "tb_calls batch = finished @ reading @ rest" "map tl_resultEntryId (tb_calls batch) = ids" "map pi_call items = reading"
      "\<forall>item\<in>set items. tl_status (pi_call item) = OutcomeReady (pi_terminate item)" "\<forall>call\<in>set finished. is_completed call"
      "\<forall>call\<in>set rest. \<not> is_completed call" "placed = map tl_resultEntryId finished" by (rule in_orderE)
  let ?r = "\<lambda>c. if c = call then call\<lparr>tl_status := s\<rparr> else c"
  have "call \<notin> pi_call ` set items" using b(4) open_call(2) by blast
  then have "call \<notin> set finished" "call \<notin> set reading" using b(5) open_call(1) by (auto simp flip: b(3))
  then have "map ?r finished = finished" "map ?r reading = reading" by (auto intro: map_idI)
  with replaceCall_calls [OF d [folded b(2)] call] have r: "tb_calls (replaceCall batch (call\<lparr>tl_status := s\<rparr>)) = finished @ reading @ map ?r rest"
    by (simp add: b(1))
  have "map tl_resultEntryId (map ?r rest) = map tl_resultEntryId rest" by simp
  then have "map tl_resultEntryId (finished @ reading @ map ?r rest) = ids" by (simp only: map_append flip: b(1) b(2)) (simp add: b(1))
  moreover have "\<forall>c\<in>set (map ?r rest). \<not> is_completed c" using b(6) new by auto
  ultimately show ?thesis unfolding in_order_def r using b(3-5,7) by (intro exI [of _ finished] exI [of _ reading] exI [of _ "map ?r rest"]) simp
qed

lemma in_order_read:
  assumes "in_order ids calls [] placed" "map (\<lambda>item. (pi_call item, pi_terminate item)) items = ready_calls calls"
  shows "in_order ids calls items placed"
proof -
  from assms(1) obtain finished rest where
    b: "calls = finished @ rest" "map tl_resultEntryId calls = ids" "\<forall>call\<in>set finished. is_completed call"
      "\<forall>call\<in>set rest. \<not> is_completed call" "placed = map tl_resultEntryId finished" by (auto elim: in_orderE)
  obtain reading rest' where r: "rest = reading @ rest'" "map fst (take_ready rest) = reading"
    "\<forall>(call, t)\<in>set (take_ready rest). tl_status call = OutcomeReady t" using take_ready_split by blast
  have i: "map (\<lambda>item. (pi_call item, pi_terminate item)) items = take_ready rest" using assms(2) ready_calls_split [OF b(3,4)] by (simp add: b(1))
  then have "map pi_call items = reading" unfolding r(2) [symmetric] i [symmetric] by simp
  moreover have "\<forall>item\<in>set items. tl_status (pi_call item) = OutcomeReady (pi_terminate item)"
    using r(3) unfolding i [symmetric] by auto
  ultimately show ?thesis unfolding in_order_def
    by (intro exI [of _ finished] exI [of _ reading] exI [of _ rest']) (use b r(1) in auto)
qed

lemma in_order_commit:
  assumes "in_order ids calls items placed" "distinct ids"
  shows "in_order ids (map (complete_call items) calls) [] (placed @ map (\<lambda>item. tl_resultEntryId (pi_call item)) items)"
proof -
  from assms(1) obtain finished reading rest where
    b: "calls = finished @ reading @ rest" "map tl_resultEntryId calls = ids" "map pi_call items = reading"
      "\<forall>item\<in>set items. tl_status (pi_call item) = OutcomeReady (pi_terminate item)" "\<forall>call\<in>set finished. is_completed call"
      "\<forall>call\<in>set rest. \<not> is_completed call" "placed = map tl_resultEntryId finished" by (rule in_orderE)
  have d: "distinct (map tl_resultEntryId (finished @ reading @ rest))" using b(1,2) assms(2) by simp
  note c = complete_call_split [OF d b(3,4)]
  have "map (\<lambda>item. tl_resultEntryId (pi_call item)) items = map tl_resultEntryId reading" by (simp flip: b(3))
  then show ?thesis unfolding in_order_def
    by (intro exI [of _ "finished @ map (complete_call items) reading"] exI [of _ "[]"] exI [of _ rest])
      (use b c in \<open>auto simp del: map_map\<close>)
qed

lemma in_order_stop:
  assumes "in_order ids calls items placed"
  shows "in_order ids calls [] placed"
  using assms
proof (rule in_orderE)
  fix finished reading rest
  assume b: "calls = finished @ reading @ rest" "map tl_resultEntryId calls = ids" "map pi_call items = reading"
    "\<forall>item\<in>set items. tl_status (pi_call item) = OutcomeReady (pi_terminate item)" "\<forall>call\<in>set finished. is_completed call"
    "\<forall>call\<in>set rest. \<not> is_completed call" "placed = map tl_resultEntryId finished"
  then show ?thesis unfolding in_order_def
    by (intro exI [of _ finished] exI [of _ "[]"] exI [of _ "reading @ rest"]) (auto simp: is_completed_def)
qed

text \<open>In a batch in order, the placed ids are those of the completed calls.\<close>

lemma in_order_placed:
  assumes "in_order ids calls items placed"
  shows "placed = map tl_resultEntryId (takeWhile is_completed calls) \<and> (\<forall>call\<in>set (dropWhile is_completed calls). \<not> is_completed call) \<and>
    map tl_resultEntryId calls = ids"
proof -
  from assms obtain finished reading rest where
    b: "calls = finished @ reading @ rest" "map tl_resultEntryId calls = ids" "map pi_call items = reading"
      "\<forall>item\<in>set items. tl_status (pi_call item) = OutcomeReady (pi_terminate item)" "\<forall>call\<in>set finished. is_completed call"
      "\<forall>call\<in>set rest. \<not> is_completed call" "placed = map tl_resultEntryId finished" by (rule in_orderE)
  have n: "\<forall>call\<in>set (reading @ rest). \<not> is_completed call" using b(4,6) by (auto simp: is_completed_def simp flip: b(3))
  then have "takeWhile is_completed (reading @ rest) = []" "dropWhile is_completed (reading @ rest) = reading @ rest"
    by (cases "reading @ rest"; simp)+
  with b(5) have "takeWhile is_completed calls = finished" "dropWhile is_completed calls = reading @ rest"
    unfolding b(1) by (simp_all add: takeWhile_append2 dropWhile_append2)
  with b(2,7) n show ?thesis by simp
qed

lemma batch_ok_step:
  assumes "batch_step s s'" "batch_ok ids s" "distinct ids"
  shows "batch_ok ids s'"
  using assms
proof (induction rule: batch_step.induct)
  case (intent call batch name operationId toolCall args replay l scope meta m ws state patch mat ev items placed)
  then have "in_order ids (tb_calls (replaceCall batch (call\<lparr>tl_status := EffectPending replay\<rparr>))) items placed"
    by (intro in_order_replace) (auto simp: batch_ok_def is_completed_def)
  with intent_commit [OF intent.hyps(3)] show ?case by (simp add: batch_ok_def)
next
  case (outcome call batch replay name operationId finalized l scope meta m ws state patch mat ev items placed)
  then have "in_order ids (tb_calls (replaceCall batch (call\<lparr>tl_status := OutcomeReady t\<rparr>))) items placed" for t
    by (intro in_order_replace) (auto simp: batch_ok_def is_completed_def)
  with outcome_commit [OF outcome.hyps(3)] show ?case by (auto simp: batch_ok_def)
next
  case (read l scope batch sources m result placed)
  then show ?case using in_order_read [OF _ read_ready [OF read.hyps]] by (simp add: batch_ok_def)
next
  case (commit items name operationId turnId new_id l scope batch meta m ws state patch mat ev placed)
  let ?calls = "map (complete_call items) (tb_calls batch)"
  have o: "in_order ids ?calls [] (placed @ map (\<lambda>item. tl_resultEntryId (pi_call item)) items)"
    using in_order_commit commit.prems by (simp add: batch_ok_def)
  have all: "placed @ map (\<lambda>item. tl_resultEntryId (pi_call item)) items = ids" if "\<forall>call\<in>set ?calls. is_completed call"
  proof -
    have "takeWhile is_completed ?calls = ?calls" using that by (simp only: takeWhile_eq_all_conv)
    with in_order_placed [OF o] show ?thesis by (simp only:)
  qed
  show ?case
  proof (cases "\<forall>call\<in>set ?calls. is_completed call")
    case True
    then show ?thesis using placement_commit [OF commit.hyps(2)] all by (auto simp: batch_ok_def after_batch_def)
  next
    case False
    then show ?thesis using placement_commit [OF commit.hyps(2)] o by (simp only: if_False) (simp add: batch_ok_def)
  qed
next
  case (stop state items placed)
  then show ?case by (auto simp: batch_ok_def intro: in_order_stop split: operation_state.splits)
qed (simp add: batch_ok_def)

lemma batch_ok_steps: "batch_step\<^sup>*\<^sup>* s s' \<Longrightarrow> batch_ok ids s \<Longrightarrow> distinct ids \<Longrightarrow> batch_ok ids s'"
  by (induction rule: rtranclp_induct) (auto intro: batch_ok_step)

text \<open>
  C8. Whatever the order in which the calls of a batch start, finish and are placed, in one process or over several, their results enter the transcript in the order of
  the calls and each once: the ids of the entries inserted so far are those of the completed calls, which come first in the batch, and no call is added, lost or moved.
  When the batch is over, every call has its result in the transcript.
\<close>

theorem results_in_order:
  assumes "batch_step\<^sup>*\<^sup>* (Tools scope start, [], []) (state, items, placed)"
    and "distinct (map tl_resultEntryId (tb_calls start))" "\<forall>call\<in>set (tb_calls start). tl_status call = Planned"
  shows "case state of
      Tools _ batch \<Rightarrow>
        placed = map tl_resultEntryId (takeWhile is_completed (tb_calls batch)) \<and> (\<forall>call\<in>set (dropWhile is_completed (tb_calls batch)). \<not> is_completed call) \<and>
        map tl_resultEntryId (tb_calls batch) = map tl_resultEntryId (tb_calls start)
    | Checkpoint _ _ \<Rightarrow> placed = map tl_resultEntryId (tb_calls start)
    | _ \<Rightarrow> False"
proof -
  have "batch_ok (map tl_resultEntryId (tb_calls start)) (Tools scope start, [], [])"
    unfolding batch_ok_def in_order_def prod.case operation_state.case
    by (intro exI [of _ "[]"] exI [of _ "tb_calls start"]) (use assms(3) in \<open>simp add: is_completed_def\<close>)
  from batch_ok_steps [OF assms(1) this assms(2)] show ?thesis
    by (auto simp: batch_ok_def dest: in_order_placed split: operation_state.splits)
qed

text \<open>Two calls: the second finishes first, then the first; both are placed by one commit.\<close>

definition sample_tool_batch :: "tool_call_status \<Rightarrow> tool_call_status \<Rightarrow> tool_batch" where
  "sample_tool_batch s t = \<lparr>tb_assistantEntryId = js ''a'', tb_configuration = sample_config, tb_turnId = js ''t'',
     tb_calls = [\<lparr>tl_sourceIndex = 0, tl_resultEntryId = js ''r0'', tl_status = s\<rparr>, \<lparr>tl_sourceIndex = 1, tl_resultEntryId = js ''r1'', tl_status = t\<rparr>]\<rparr>"

definition sample_scope :: operation_scope where
  "sample_scope = \<lparr>os_control = Running,
     os_settings = \<lparr>rs_compaction = \<lparr>cse_enabled = False, cse_reserveTokens = JInt 0, cse_keepRecentTokens = JInt 0\<rparr>, rs_steeringMode = QueueAll,
       rs_followUpMode = QueueAll, rs_toolExecution = Parallel\<rparr>, os_latestAssistantEntryId = Some (js ''a'')\<rparr>"

definition sample_meta :: operation_meta where
  "sample_meta = \<lparr>om_operationId = js ''op'', om_lane = js ''main'', om_sourceTipId = None, om_startedAt = 0, om_intent = RunIntent []\<rparr>"

definition sample_tools :: "tool_call_status \<Rightarrow> tool_call_status \<Rightarrow> live_lane" where
  "sample_tools s t = \<lparr>ll_tipId = Some (js ''a''), ll_configuration = sample_config, ll_inbox = [], ll_lastOperationId = None,
     ll_operation = Some \<lparr>op_meta = sample_meta, op_state = Tools sample_scope (sample_tool_batch s t)\<rparr>\<rparr>"

definition sample_call :: tool_call_content where
  "sample_call = \<lparr>tcall_id = js ''c'', tcall_name = js ''read'', tcall_arguments = [], tcall_thoughtSignature = None, tcall_namespace = None\<rparr>"

definition sample_sources :: tool_batch_source where
  "sample_sources = \<lparr>ts_assistant = interruptedAssistantMessage (lc_model sample_config) None 0, ts_calls = [(0, sample_call), (1, sample_call)]\<rparr>"

definition sample_staged :: "memory_storage mutation" where
  "sample_staged = new_mutation (mu_storage (fst (mutation_commit memory_ops (new_mutation new_memory_storage)
     (map (\<lambda>i. WValueSet (js ''phi.pending.entry'') (js i) (SPending (PendingMessage (Llm (ToolResultMsg (oc_message (abortedOutcome sample_call 1)))))))
       [''r0'', ''r1'']) 1)))"

definition decided :: "(session_error, 'r operation_command) res \<Rightarrow> (jstring list \<times> operation_state) option" where
  "decided d = (case d of Inr (OpCommit ws state _ _ _) \<Rightarrow> Some (new_entry_ids ws, state) | _ \<Rightarrow> None)"

lemma decidedE:
  assumes "decided d = Some (ids, state)"
  obtains ws patch mat ev where "d = Inr (OpCommit ws state patch mat ev)" "new_entry_ids ws = ids"
  using assms by (auto simp: decided_def split: sum.splits operation_command.splits)

definition sample_items :: "placement_item list" where
  "sample_items = map (\<lambda>call. \<lparr>pi_call = call, pi_terminate = False, pi_message = oc_message (abortedOutcome sample_call 1)\<rparr>)
     (tb_calls (sample_tool_batch (OutcomeReady False) (OutcomeReady False)))"

definition sample_placed :: operation_state where
  "sample_placed = Checkpoint sample_scope \<lparr>cp_continuation = NeedAssistant False, cp_triggerEntryId = js ''r1''\<rparr>"

lemma sample_outcomes:
  "decided (plan_tool_outcome memory_ops (js ''main'') (js ''op'') (tb_calls (sample_tool_batch Planned Planned) ! 1) (abortedOutcome sample_call 1)
      (sample_tools Planned Planned) (Tools sample_scope (sample_tool_batch Planned Planned)) sample_meta (new_mutation new_memory_storage)) =
    Some ([], Tools sample_scope (sample_tool_batch Planned (OutcomeReady False)))"
  "decided (plan_tool_outcome memory_ops (js ''main'') (js ''op'') (tb_calls (sample_tool_batch Planned (OutcomeReady False)) ! 0) (abortedOutcome sample_call 1)
      (sample_tools Planned (OutcomeReady False)) (Tools sample_scope (sample_tool_batch Planned (OutcomeReady False))) sample_meta (new_mutation new_memory_storage)) =
    Some ([], Tools sample_scope (sample_tool_batch (OutcomeReady False) (OutcomeReady False)))"
  by code_simp+

lemma sample_read:
  "case readPlacement memory_ops sample_sources (sample_tools (OutcomeReady False) (OutcomeReady False)) sample_staged of
     Inr (ReturnCmd (Some r)) \<Rightarrow> pr_items r = sample_items
   | _ \<Rightarrow> False"
  by code_simp

lemma sample_commit:
  "decided (plan_placement memory_ops (js ''main'') (js ''op'') (js ''t'') sample_items (usage_ids (\<lambda>_. js ''u'') 0 sample_items)
      (sample_tools (OutcomeReady False) (OutcomeReady False)) (Tools sample_scope (sample_tool_batch (OutcomeReady False) (OutcomeReady False))) sample_meta sample_staged) =
    Some ([js ''r0'', js ''r1''], sample_placed)"
  by code_simp

lemma sample_batch_run: "batch_step\<^sup>*\<^sup>* (Tools sample_scope (sample_tool_batch Planned Planned), [], []) (sample_placed, [], [js ''r0'', js ''r1''])"
proof -
  let ?ready = "OutcomeReady False"
  have 1: "batch_step (Tools sample_scope (sample_tool_batch Planned Planned), [], []) (Tools sample_scope (sample_tool_batch Planned ?ready), [], [])"
    by (rule decidedE [OF sample_outcomes(1)], drule batch_step.outcome [rotated 2, where items = "[]" and placed = "[]"])
      (auto simp: sample_tool_batch_def)
  have 2: "batch_step (Tools sample_scope (sample_tool_batch Planned ?ready), [], []) (Tools sample_scope (sample_tool_batch ?ready ?ready), [], [])"
    by (rule decidedE [OF sample_outcomes(2)], drule batch_step.outcome [rotated 2, where items = "[]" and placed = "[]"])
      (auto simp: sample_tool_batch_def)
  obtain r where "readPlacement memory_ops sample_sources (sample_tools ?ready ?ready) sample_staged = Inr (ReturnCmd (Some r))" "pr_items r = sample_items"
    using sample_read by (auto split: sum.splits lane_command.splits option.splits)
  then have 3: "batch_step (Tools sample_scope (sample_tool_batch ?ready ?ready), [], []) (Tools sample_scope (sample_tool_batch ?ready ?ready), sample_items, [])"
    using batch_step.read [where l = "sample_tools ?ready ?ready" and placed = "[]"] by (force simp: sample_tools_def)
  have 4: "batch_step (Tools sample_scope (sample_tool_batch ?ready ?ready), sample_items, []) (sample_placed, [], [js ''r0'', js ''r1''])"
    by (rule decidedE [OF sample_commit], drule batch_step.commit [rotated, where placed = "[]"]) (auto simp: sample_items_def sample_tool_batch_def)
  from 1 2 3 4 show ?thesis by (meson converse_rtranclp_into_rtranclp r_into_rtranclp)
qed

theorem results_in_order_witness:
  "batch_step\<^sup>*\<^sup>* (Tools sample_scope (sample_tool_batch Planned Planned), [], []) (sample_placed, [], [js ''r0'', js ''r1'']) \<and>
   [js ''r0'', js ''r1''] = map tl_resultEntryId (tb_calls (sample_tool_batch Planned Planned))"
  using sample_batch_run results_in_order [OF sample_batch_run]
  by (simp add: sample_placed_def sample_tool_batch_def js_def)

end
