(* ===== verification/Spec2Isabelle.thy ===== *)
theory Spec2Isabelle
  imports Protocol_Codec Delta_Track_Correct Delta_Codec Session_Context Mutation_Line Session_Repo Compaction_Props Drive_Props Drive_Terminal Drive_Batch
begin

text \<open>
  Verification of the core of phi, a TypeScript workspace for coding agents (paths below are relative to \<^verbatim>\<open>packages/\<close>).

  \<^bold>\<open>The program.\<close> A session is a tree of entries with named branches, values and a usage ledger, kept by a storage
  (\<^verbatim>\<open>agent/src/harness/session\<close>). A harness owns a session and runs operations on its lanes
  (\<^verbatim>\<open>agent/src/harness/runtime\<close>); when a branch grows too long its older part is replaced by a summary
  (\<^verbatim>\<open>agent/src/harness/compaction\<close>). Remote clients and servers exchange messages as framed CBOR (\<^verbatim>\<open>protocol\<close>), and state that
  a service shares is replicated as deltas (\<^verbatim>\<open>chord/src/delta\<close>).

  \<^bold>\<open>Conventions.\<close> Strings are lists of UTF-16 code units, numbers are IEEE doubles (an integer by value, the rest by bits), objects are
  association lists in own-property order, a \<^verbatim>\<open>Map\<close> is an association list in insertion order and a \<^verbatim>\<open>Set\<close> a list without duplicates. A call that can throw
  returns \<open>Inl error + Inr result\<close>; every throw is a branch. State is passed explicitly, clocks and generated ids are arguments.
  A loop that may run forever is a partial function into options, and its value \<open>NeverReturns\<close> as an error of the caller; the theorems show
  that it does not occur. Sequence numbers and counts are exact integers: they stay below \<open>2 ^ 53\<close> as long as a session has fewer
  writes than that. No fuel is used: recursion is structural or has a measure.

  \<^bold>\<open>The theories.\<close>
  \<^item> \<open>Prelude\<close>, \<open>Js_Text\<close>, \<open>Js_Values\<close>, \<open>Js_Arith\<close>, \<open>Js_Print\<close>, \<open>Js_Collections\<close>: results, UTF-8 and UTF-16, numbers with their
    arithmetic, order and printing, JSON printing, property order, stable sorting.
  \<^item> \<open>Cbor\<close>, \<open>Cbor_Correct\<close> (\<^verbatim>\<open>protocol/src/cbor\<close>), \<open>Framing\<close>, \<open>Incremental\<close>, \<open>Framing_Correct\<close> (\<^verbatim>\<open>framing.ts\<close>), \<open>Protocol_Codec\<close>
    (\<^verbatim>\<open>codec.ts\<close>, \<^verbatim>\<open>protocol.ts\<close>): the growing writer and the reader compute a reference encoding and its inverse; the frame
    decoder, an incremental object, implements a specification on byte streams (the locale of \<open>Incremental\<close>); messages survive encoding, re-chunking
    and decoding, and a decoder returns only what its schema accepts. The schema checker of typebox is a parameter.
  \<^item> \<open>Json\<close>, \<open>Delta_Apply\<close>, \<open>Delta_Diff\<close>, \<open>Delta_Diff_Correct\<close>, \<open>Delta_Immutable\<close>, \<open>Delta_Track\<close>, \<open>Delta_Track_Correct\<close>, \<open>Delta_Codec\<close>
    (\<^verbatim>\<open>chord/src/delta/index.ts\<close>): applying a difference rebuilds the value; the copying and the in-place applier agree; after every flush a
    replica equals the tracked value; the wire codec is lossless and recovers from a base batch.
  \<^item> \<open>Agent_Messages\<close>, \<open>Session_Types\<close>, \<open>Session_Values\<close>: messages, entries, operation states, addresses and writes.
  \<^item> \<open>Storage_State\<close>, \<open>Storage_Correct\<close>, \<open>Storage_Reads\<close> (\<^verbatim>\<open>in-memory-storage-state.ts\<close>): a commit is validated, numbered and, when its addresses are valid, applied as a whole;
    the state refines an abstract store; reads are exact; branch scans end.
  \<^item> \<open>Session_Fork\<close>, \<open>Session_Fork_Correct\<close>, \<open>Session_Fork_Props\<close> (\<^verbatim>\<open>fork.ts\<close>, \<^verbatim>\<open>fork-policy.ts\<close>): a fork is a valid session with the selected
    entries and nothing operational.
  \<^item> \<open>Mutation_Line\<close> (\<^verbatim>\<open>mutation-line.ts\<close>): the line at the level of its promises, with jobs of several steps that may fail and callbacks in any order; they
    have the effect of running one after the other.
  \<^item> \<open>Session_Store\<close>, \<open>Session_Core\<close>, \<open>Session_Core_Props\<close> (\<^verbatim>\<open>memory.ts\<close>, \<^verbatim>\<open>session.ts\<close>): the
    interface of a storage is the locale \<open>session_storage\<close>, interpreted by the memory storage; appends extend a branch by one entry, commits are
    serialized. A mutation of a session is one step of the model, as \<open>Mutation_Line\<close> allows.
  \<^item> \<open>Session_Repo\<close> (\<^verbatim>\<open>memory.ts\<close>): the repository and its facades as shared objects. A call that waits (a deletion, a fork, a close, a call on the line) is split where it waits, and
    a history interleaves the parts in any order. One facade holds a record at a time, a fork keeps its id reserved and ends with the snapshot of its source, and admitted calls
    are answered in turn. Two lemmas show what the code allows while it waits: a session deleted under a facade, and a fork into a closed repository.
  \<^item> \<open>Session_Context\<close>, \<open>Compaction\<close>, \<open>Compaction_Props\<close>, \<open>Prompt_Templates\<close>: the context of a branch and its bounded read; token estimates, the cut
    point, the preparation and the requests of a summary with the provider as a parameter; skills and templates. A compaction partitions the messages
    of a branch, and the tail it keeps respects its budget, which does not count branch summaries.
  \<^item> \<open>Lane_Events\<close>, \<open>Lane_Restore\<close>, \<open>Lane_Commands\<close>, \<open>Lane_Requests\<close>, \<open>Lane_Control\<close>, \<open>Lane_Harness\<close> (\<^verbatim>\<open>runtime/lane.ts\<close>, \<^verbatim>\<open>restore.ts\<close>,
    \<^verbatim>\<open>transcript.ts\<close>, \<^verbatim>\<open>harness.ts\<close>): the harness with its lanes in memory, the command loop on the mutation line, and every call of a lane as a planner
    that decides on a commit. A call that has to wait for an idle callback is the value \<open>Waits\<close>.
  \<^item> \<open>Lane_Store\<close>, \<open>Lane_Invariant\<close>, \<open>Lane_Planners\<close>, \<open>Lane_Plans\<close>, \<open>Lane_Live\<close>, \<open>Lane_Calls\<close>, \<open>Lane_Acquire\<close>, \<open>Lane_Restart\<close>, \<open>Lane_Settle\<close>,
    \<open>Lane_Runs\<close>, \<open>Lane_Props\<close>: the values of a session as a function of its writes, the invariant that ties each lane in memory to the session, one lemma per
    planner that its commit keeps the invariant, the locale \<open>live_storage\<close> for storages that accept well-formed commits, and the reachable
    harnesses. In every history the lanes in memory are the ones the session holds, a restart restores them, and no call faults the harness.
  \<^item> \<open>Drive_Plans\<close>, \<open>Drive_Retry\<close>, \<open>Drive_Settle\<close>, \<open>Drive_Response\<close>, \<open>Drive_Boundary\<close>, \<open>Drive_Props\<close> (\<^verbatim>\<open>runtime/drive\<close>): the decisions of a drive pass on the mutation line, one
    planner per procedure. \<open>Drive_Retry\<close> computes the delays exactly in binary64; \<open>Drive_Settle\<close> and \<open>Drive_Boundary\<close> show that the planners for responses,
    cancellation and checkpoints satisfy the contract of \<open>Lane_Settle\<close>; \<open>Drive_Response\<close> says separately of each outcome what a response means, and that the decision agrees; \<open>Drive_Props\<close> concludes, for every reachable harness, that a response is settled by one commit,
    that a cancelled operation ends and leaves nothing behind, and that a checkpoint places the queue in order.
  \<^item> \<open>Drive_Structural\<close>, \<open>Drive_Terminal\<close> (\<^verbatim>\<open>runtime/drive/structural.ts\<close>): the publication of what became of a compaction or of the summary of a navigation, and the commit of
    a navigation without one. \<open>Drive_Terminal\<close> collects the eight decisions that finish an operation and shows what their results have in common.
  \<^item> \<open>Drive_Tools\<close>, \<open>Drive_Batch\<close> (\<^verbatim>\<open>runtime/drive/tools.ts\<close>, \<^verbatim>\<open>tool-placement.ts\<close>, \<^verbatim>\<open>execution/tools.ts\<close>): tool calls and their batches. The commits of the
    calls and of placements, in every interleaving and over restarts, put the results into the transcript in the order of the calls.

  \<^bold>\<open>Hypotheses.\<close> Operation and entry ids a caller or the id generator supplies are new (\<open>fresh_operation\<close>, \<open>fresh_id\<close>), as the documentation of
  \<^verbatim>\<open>accept\<close> requires. The histories of the lane properties contain every commit of a drive pass for the operation it owns that satisfies the contract
  \<open>settles\<close> of \<open>Lane_Settle\<close>: it inserts new entries after the tip, touches values of its own operation only, and consumes queue items it removes.
  The contract is proved for the planners of responses, cancellation and checkpoints; for the others it is the assumption under which a step is part of a history.

  \<^bold>\<open>Not modelled.\<close> What happens between two commits of a drive pass: provider requests and streams, tools and hooks, with their timers; of \<^verbatim>\<open>structural.ts\<close>, the
  preparation and the requests of summaries; the scheduling of tool calls; the facade's \<^verbatim>\<open>beginMutation\<close>;
  presentation snapshots, watchers and event delivery; the JSONL and SQLite storages; the tools; the coding agent, the terminal interface, the
  provider adapters, client and server sockets, plugins, telemetry and scripts. They are input and output around the parts above, generated data, or
  code of an earlier generation that does not use them.
\<close>

end
